(* ===== verification/Prelude.thy ===== *)
theory Prelude
  imports Main "HOL-Library.Word" "HOL-Library.Sublist" "HOL-Library.Monad_Syntax"
begin

text \<open>
  Shared vocabulary of the development: the machine types of the firmware (32-bit RISC-V,
  little endian), the collections of simplification rules the component theories use, and
  generic facts on lists, words and byte memories.

  A C buffer is a list of bytes.  A copy that the C code performs with \<open>memcpy\<close> or with a
  byte loop is \<open>peek\<close> (read) or \<open>poke\<close> (write); both return \<^const>\<open>None\<close> when the range
  leaves the buffer, so an out-of-bounds access of the source is a value of the model.
\<close>

unbundle bit_operations_syntax

named_theorems mem_simps \<open>rewriting of reads and writes in byte memories\<close>
named_theorems enc_simps \<open>fixed width integer encodings\<close>
named_theorems state_defs \<open>definitions of state updating operations\<close>

type_synonym u8 = "8 word"
type_synonym u16 = "16 word"
type_synonym u32 = "32 word"
type_synonym u64 = "64 word"
type_synonym bytes = "u8 list"

section \<open>Byte memories\<close>

definition peek :: "nat \<Rightarrow> nat \<Rightarrow> 'a list \<Rightarrow> 'a list option" where
  "peek off n mem = (if off + n \<le> length mem then Some (take n (drop off mem)) else None)"

definition poke :: "nat \<Rightarrow> 'a list \<Rightarrow> 'a list \<Rightarrow> 'a list option" where
  "poke off xs mem =
     (if off + length xs \<le> length mem
      then Some (take off mem @ xs @ drop (off + length xs) mem) else None)"

lemma peek_Some_iff [mem_simps]:
  "peek off n mem = Some xs \<longleftrightarrow> off + n \<le> length mem \<and> xs = take n (drop off mem)"
  by (auto simp: peek_def)

lemma peek_None_iff [mem_simps]: "peek off n mem = None \<longleftrightarrow> length mem < off + n"
  by (auto simp: peek_def)

lemma poke_None_iff [mem_simps]: "poke off xs mem = None \<longleftrightarrow> length mem < off + length xs"
  by (auto simp: poke_def)

lemma poke_in_range [mem_simps]:
  "off + length xs \<le> length mem \<Longrightarrow>
   poke off xs mem = Some (take off mem @ xs @ drop (off + length xs) mem)"
  by (simp add: poke_def)

lemma length_poke [mem_simps]: "poke off xs mem = Some mem' \<Longrightarrow> length mem' = length mem"
  by (auto simp: poke_def split: if_splits)

lemma poke_pokes_nth:
  assumes "poke off xs mem = Some mem'" and "i < length mem"
  shows "mem' ! i = (if off \<le> i \<and> i < off + length xs then xs ! (i - off) else mem ! i)"
proof (cases "off + length xs \<le> length mem")
  case True
  with assms have "mem' = take off mem @ xs @ drop (off + length xs) mem"
    by (simp add: poke_def)
  with True assms(2) show ?thesis
    by (auto simp: nth_append min_def)
next
  case False
  with assms show ?thesis by (simp add: poke_def)
qed

text \<open>Reading back what was just written, and reading around it.\<close>

lemma peek_poke_same [mem_simps]:
  "poke off xs mem = Some mem' \<Longrightarrow> peek off (length xs) mem' = Some xs"
  by (auto simp: poke_def peek_def split: if_splits)

lemma peek_poke_disjoint:
  assumes "poke off xs mem = Some mem'" and "a + n \<le> off \<or> off + length xs \<le> a"
  shows "peek a n mem' = peek a n mem"
proof -
  have len: "length mem' = length mem" using assms(1) by (rule length_poke)
  show ?thesis
  proof (cases "a + n \<le> length mem")
    case True
    have "take n (drop a mem') = take n (drop a mem)"
    proof (rule nth_equalityI)
      show "length (take n (drop a mem')) = length (take n (drop a mem))"
        using len by simp
    next
      fix i assume "i < length (take n (drop a mem'))"
      then have i: "i < n" "a + i < length mem" using len by auto
      then have "mem' ! (a + i) = mem ! (a + i)"
        using assms by (auto simp: poke_pokes_nth[OF assms(1)] len)
      then show "take n (drop a mem') ! i = take n (drop a mem) ! i"
        using i len by simp
    qed
    with True len show ?thesis by (simp add: peek_def)
  next
    case False
    with len show ?thesis by (simp add: peek_def)
  qed
qed

section \<open>Lists\<close>

lemma take_drop_append_split:
  "i + j \<le> length xs \<Longrightarrow> take i (drop 0 xs) @ take j (drop i xs) = take (i + j) xs"
  by (simp add: take_add)

lemma list_update_same_length [simp]: "length (xs[i := v]) = length xs"
  by simp

section \<open>Words\<close>

lemma unat_ucast_up:
  "LENGTH('a::len) \<le> LENGTH('b::len) \<Longrightarrow> unat (ucast (x :: 'a word) :: 'b word) = unat x"
  by (simp add: unsigned_ucast_eq take_bit_nat_eq_self unsigned_less order_less_le_trans[OF unsigned_less])

lemma sint_eq_unat:
  assumes "unat (x :: 'a::len word) < 2 ^ (LENGTH('a) - 1)"
  shows "sint x = int (unat x)"
proof -
  have "int (unat x) < int (2 ^ (LENGTH('a) - 1))"
    using assms by (simp only: of_nat_less_iff)
  then have u: "uint x < 2 ^ (LENGTH('a) - 1)" by simp
  then have "\<not> bit (uint x) (LENGTH('a) - 1)"
    using bit_take_bit_iff[of "LENGTH('a) - 1" "uint x" "LENGTH('a) - 1"]
    by (simp add: take_bit_int_eq_self)
  then have "sint x = take_bit (LENGTH('a) - 1) (uint x)"
    by (simp add: sint_uint signed_take_bit_eq_if_positive)
  also have "\<dots> = uint x" using u by (simp add: take_bit_int_eq_self)
  finally show ?thesis by simp
qed

lemma ucast_eq_of_nat: "(ucast (x :: 'a::len word) :: 'b::len word) = of_nat (unat x)"
  by (rule of_nat_unat[symmetric])

lemma unat_lt_pow [simp]: "unat (x :: 'a::len word) < 2 ^ LENGTH('a)"
  by (rule unsigned_less)

end
