(* ===== verification/WolfMisc.thy ===== *)
theory WolfMisc
  imports Prelude
begin

text \<open>
  The helpers of \<open>wolfcrypt/src/misc.c\<close> the record layer is built on: big-endian integer encodings,
  the 64-bit wrapper arithmetic of sequence numbers and epochs, constant-time masks and comparison.
  A decoder reads from the front of a byte list; its callers check the length.
\<close>

section \<open>Integer encodings\<close>

definition c32to24 :: "u32 \<Rightarrow> bytes" where
  "c32to24 n = [ucast (drop_bit 16 n AND 0xff), ucast (drop_bit 8 n AND 0xff), ucast (n AND 0xff)]"

definition c16toa :: "u16 \<Rightarrow> bytes" where
  "c16toa n = [ucast (drop_bit 8 n AND 0xff), ucast (n AND 0xff)]"

definition c32toa :: "u32 \<Rightarrow> bytes" where
  "c32toa n = [ucast (drop_bit 24 n AND 0xff), ucast (drop_bit 16 n AND 0xff),
               ucast (drop_bit 8 n AND 0xff), ucast (n AND 0xff)]"

definition c24to32 :: "bytes \<Rightarrow> u32" where
  "c24to32 c = push_bit 16 (ucast (c ! 0)) OR push_bit 8 (ucast (c ! 1)) OR ucast (c ! 2)"

definition ato24 :: "bytes \<Rightarrow> u32" where
  "ato24 c = push_bit 16 (ucast (c ! 0)) OR push_bit 8 (ucast (c ! 1)) OR ucast (c ! 2)"

definition ato16 :: "bytes \<Rightarrow> u16" where
  "ato16 c = ucast ((push_bit 8 (ucast (c ! 0)) :: u32) OR ucast (c ! 1))"

definition ato32 :: "bytes \<Rightarrow> u32" where
  "ato32 c = push_bit 24 (ucast (c ! 0)) OR push_bit 16 (ucast (c ! 1)) OR
             push_bit 8 (ucast (c ! 2)) OR ucast (c ! 3)"

definition ato32le :: "bytes \<Rightarrow> u32" where
  "ato32le c = ucast (c ! 0) OR push_bit 8 (ucast (c ! 1)) OR
               push_bit 16 (ucast (c ! 2)) OR push_bit 24 (ucast (c ! 3))"

definition rotlFixed :: "u32 \<Rightarrow> nat \<Rightarrow> u32" where
  "rotlFixed x y = push_bit y x OR drop_bit (32 - y) x"

definition ByteReverseWord32 :: "u32 \<Rightarrow> u32" where
  "ByteReverseWord32 v =
     (let v = drop_bit 8 (v AND 0xFF00FF00) OR push_bit 8 (v AND 0x00FF00FF) in rotlFixed v 16)"

definition ByteReverseWord64 :: "u64 \<Rightarrow> u64" where
  "ByteReverseWord64 v =
     push_bit 32 (ucast (ByteReverseWord32 (ucast v))) OR ucast (ByteReverseWord32 (ucast (drop_bit 32 v)))"

text \<open>The little-endian memory image of a 64-bit word, as \<open>XMEMCPY\<close> sees it on the RISC-V core.\<close>

definition mem_of64 :: "u64 \<Rightarrow> bytes" where
  "mem_of64 n = map (\<lambda>i. ucast (drop_bit (8 * i) n)) [0..<8]"

definition of_mem64 :: "bytes \<Rightarrow> u64" where
  "of_mem64 c = fold (\<lambda>i acc. acc OR push_bit (8 * i) (ucast (c ! i))) [0..<8] 0"

definition c64toa :: "u64 \<Rightarrow> bytes" where
  "c64toa a = mem_of64 (ByteReverseWord64 a)"

definition ato64 :: "bytes \<Rightarrow> u64" where
  "ato64 c = ByteReverseWord64 (of_mem64 c)"

section \<open>The 64-bit wrapper\<close>

definition w64Increment :: "u64 \<Rightarrow> u64" where [simp]: "w64Increment n = n + 1"
definition w64Decrement :: "u64 \<Rightarrow> u64" where [simp]: "w64Decrement n = n - 1"
definition w64Equal :: "u64 \<Rightarrow> u64 \<Rightarrow> bool" where [simp]: "w64Equal a b = (a = b)"
definition w64GetLow32 :: "u64 \<Rightarrow> u32" where "w64GetLow32 n = ucast n"
definition w64GetHigh32 :: "u64 \<Rightarrow> u32" where "w64GetHigh32 n = ucast (drop_bit 32 n)"

definition w64SetLow32 :: "u64 \<Rightarrow> u32 \<Rightarrow> u64" where
  "w64SetLow32 n low = (n AND NOT 0xffffffff) OR ucast low"

definition w64Add32 :: "u64 \<Rightarrow> u32 \<Rightarrow> u64 \<times> bool" where
  "w64Add32 a b = (a + ucast b, a + ucast b < ucast b)"

definition w64Add :: "u64 \<Rightarrow> u64 \<Rightarrow> u64 \<times> bool" where
  "w64Add a b = (a + b, a + b < b)"

definition w64Sub32 :: "u64 \<Rightarrow> u32 \<Rightarrow> u64 \<times> bool" where
  "w64Sub32 a b = (a - ucast b, a < ucast b)"

definition w64GT :: "u64 \<Rightarrow> u64 \<Rightarrow> bool" where [simp]: "w64GT a b = (b < a)"
definition w64IsZero :: "u64 \<Rightarrow> bool" where [simp]: "w64IsZero a = (a = 0)"

definition w64From32 :: "u32 \<Rightarrow> u32 \<Rightarrow> u64" where
  "w64From32 hi lo = push_bit 32 (ucast hi) OR ucast lo"

definition w64GTE :: "u64 \<Rightarrow> u64 \<Rightarrow> bool" where [simp]: "w64GTE a b = (b \<le> a)"
definition w64LT :: "u64 \<Rightarrow> u64 \<Rightarrow> bool" where [simp]: "w64LT a b = (a < b)"
definition w64Sub :: "u64 \<Rightarrow> u64 \<Rightarrow> u64" where [simp]: "w64Sub a b = a - b"
definition w64ShiftRight :: "u64 \<Rightarrow> nat \<Rightarrow> u64" where [simp]: "w64ShiftRight a s = drop_bit s a"
definition w64ShiftLeft :: "u64 \<Rightarrow> nat \<Rightarrow> u64" where [simp]: "w64ShiftLeft a s = push_bit s a"

section \<open>Constant-time helpers\<close>

definition ConstantCompare :: "bytes \<Rightarrow> bytes \<Rightarrow> nat \<Rightarrow> int" where
  "ConstantCompare a b n = fold (\<lambda>i sum. sum OR uint ((a ! i) XOR (b ! i))) [0..<n] 0"

definition ctMaskGT :: "u32 \<Rightarrow> u32 \<Rightarrow> u8" where
  "ctMaskGT a b = ucast (drop_bit 31 (a - b - 1) - 1)"

definition ctMaskGTE :: "u32 \<Rightarrow> u32 \<Rightarrow> u8" where
  "ctMaskGTE a b = ucast (drop_bit 31 (a - b) - 1)"

definition ctMaskWord32GTE :: "u32 \<Rightarrow> u32 \<Rightarrow> u32" where
  "ctMaskWord32GTE a b = ucast (drop_bit 63 ((ucast a :: u64) - ucast b) - 1)"

definition ctMaskLT :: "u32 \<Rightarrow> u32 \<Rightarrow> u8" where
  "ctMaskLT a b = ucast (drop_bit 31 (b - a - 1) - 1)"

definition ctMaskLTE :: "u32 \<Rightarrow> u32 \<Rightarrow> u8" where
  "ctMaskLTE a b = ucast (drop_bit 31 (b - a) - 1)"

definition ctMaskEq :: "u32 \<Rightarrow> u32 \<Rightarrow> u8" where
  "ctMaskEq a b = NOT (ctMaskGT a b) AND NOT (ctMaskLT a b)"

definition ctMaskSel :: "u8 \<Rightarrow> u8 \<Rightarrow> u8 \<Rightarrow> u8" where
  "ctMaskSel m a b = (b AND NOT m) OR (a AND m)"

definition min_ct :: "u32 \<Rightarrow> u32 \<Rightarrow> u32" where
  "min_ct a b = (let m = ctMaskWord32GTE a b in (a AND NOT m) OR (b AND m))"

definition max_ct :: "u32 \<Rightarrow> u32 \<Rightarrow> u32" where
  "max_ct a b = (let m = ctMaskWord32GTE a b in (a AND m) OR (b AND NOT m))"

section \<open>Round trips of the encodings\<close>

lemma and_ff [enc_simps]: "(x :: 'a::len word) AND 0xff = take_bit 8 x"
proof -
  have "(0xff :: 'a word) = mask 8" by (simp add: mask_eq_exp_minus_1)
  then show ?thesis by (simp only: take_bit_eq_mask)
qed

lemma bit_u8_over [enc_simps]: "8 \<le> n \<Longrightarrow> bit (x :: u8) n \<longleftrightarrow> False"
  using bit_imp_le_length[of x n] by auto

lemma bit_u32_over [enc_simps]: "32 \<le> n \<Longrightarrow> bit (x :: u32) n \<longleftrightarrow> False"
  using bit_imp_le_length[of x n] by auto

lemma add_diff_if [enc_simps]: "c + (n - c) = (if n < c then c else n)" for c n :: nat
  by simp

lemma length_enc [simp]:
  "length (c32to24 n) = 3" "length (c16toa m) = 2" "length (c32toa n) = 4" "length (c64toa k) = 8"
  by (simp_all add: c32to24_def c16toa_def c32toa_def c64toa_def mem_of64_def)

lemma ato16_c16toa [simp]: "ato16 (c16toa n @ xs) = n"
  by (rule bit_word_eqI) (auto simp: ato16_def c16toa_def enc_simps bit_simps split: if_splits)

lemma c16toa_ato16: "c16toa (ato16 (a # b # xs)) = [a, b]"
  by (auto simp: ato16_def c16toa_def enc_simps bit_simps intro!: bit_word_eqI)

lemma ato32_c32toa [simp]: "ato32 (c32toa n @ xs) = n"
  by (rule bit_word_eqI) (auto simp: ato32_def c32toa_def enc_simps bit_simps split: if_splits)

lemma c32toa_ato32: "c32toa (ato32 (a # b # c # d # xs)) = [a, b, c, d]"
  by (auto simp: ato32_def c32toa_def enc_simps bit_simps intro!: bit_word_eqI)

lemma ato24_c32to24 [simp]: "ato24 (c32to24 n @ xs) = take_bit 24 n"
  by (rule bit_word_eqI) (auto simp: ato24_def c32to24_def enc_simps bit_simps split: if_splits)

lemma c24to32_ato24: "c24to32 = ato24"
  by (rule ext) (simp add: c24to32_def ato24_def)

lemma c32to24_ato24: "c32to24 (ato24 (a # b # c # xs)) = [a, b, c]"
  by (auto simp: ato24_def c32to24_def enc_simps bit_simps intro!: bit_word_eqI)

text \<open>The reversal of a 64-bit word maps bit \<open>i\<close> of byte \<open>j\<close> to bit \<open>i\<close> of byte \<open>7 - j\<close>.\<close>

lemma ByteReverse32_bit:
  assumes "i < 32"
  shows "bit (ByteReverseWord32 v) i \<longleftrightarrow> bit v (8 * (3 - i div 8) + i mod 8)"
proof -
  have "\<forall>i\<in>set [0..<32]. bit (ByteReverseWord32 v) i \<longleftrightarrow> bit v (8 * (3 - i div 8) + i mod 8)"
    unfolding ByteReverseWord32_def rotlFixed_def Let_def
    by (simp add: upt_rec bit_simps) (simp add: numeral_eq_Suc)
  then show ?thesis using assms by simp
qed

lemma ByteReverse64_bit:
  assumes "i < 64"
  shows "bit (ByteReverseWord64 v) i \<longleftrightarrow> bit v (8 * (7 - i div 8) + i mod 8)"
proof (cases "i < 32")
  case True
  have e: "8 * (7 - i div 8) + i mod 8 = 32 + (8 * (3 - i div 8) + i mod 8)"
    using True by presburger
  have "8 * (3 - i div 8) + i mod 8 < 32" using True by presburger
  then show ?thesis
    unfolding e using True by (simp add: ByteReverseWord64_def bit_simps ByteReverse32_bit)
next
  case False
  define k where "k = i - 32"
  have i: "i = 32 + k" and k: "k < 32" using False assms by (auto simp: k_def)
  have "i = k + 8 * 4" using i by simp
  then have q: "i div 8 = 4 + k div 8" "i mod 8 = k mod 8" by (simp_all only: div_mult_self2 mod_mult_self2)
  have e: "8 * (7 - i div 8) + i mod 8 = 8 * (3 - k div 8) + k mod 8" unfolding q by simp
  have "k div 8 \<le> 3" "k mod 8 < 8" using k by simp_all
  then have "8 * (3 - k div 8) + k mod 8 < 32" by linarith
  then show ?thesis
    unfolding e unfolding i
    using k by (simp add: ByteReverseWord64_def bit_simps ByteReverse32_bit bit_u32_over)
qed

lemma ByteReverse64_twice [simp]: "ByteReverseWord64 (ByteReverseWord64 v) = v"
proof (rule bit_word_eqI)
  fix i assume "i < LENGTH(64)"
  then have i: "i < 64" by simp
  let ?j = "8 * (7 - i div 8) + i mod 8"
  have q: "i div 8 \<le> 7" using i by simp
  have "?j div 8 = 7 - i div 8" "?j mod 8 = i mod 8" by simp_all
  then have "8 * (7 - ?j div 8) + ?j mod 8 = i" using q by simp
  moreover have "?j < 64" using q mod_less_divisor[of 8 i] by linarith
  ultimately show "bit (ByteReverseWord64 (ByteReverseWord64 v)) i \<longleftrightarrow> bit v i"
    using i by (simp only: ByteReverse64_bit)
qed

lemma of_mem64_mem_of64 [simp]: "of_mem64 (mem_of64 v @ xs) = v"
  by (rule bit_word_eqI)
    (auto simp: of_mem64_def mem_of64_def upt_rec enc_simps bit_simps split: if_splits)

lemma ato64_c64toa [simp]: "ato64 (c64toa n @ xs) = n"
  by (simp add: ato64_def c64toa_def)

text \<open>The encoding is big endian although it is written as a little-endian memory image.\<close>

lemma c64toa_big_endian: "c64toa n = map (\<lambda>i. ucast (drop_bit (8 * (7 - i)) n)) [0..<8]"
proof -
  have "(ucast (drop_bit (8 * i) (ByteReverseWord64 n)) :: u8) = ucast (drop_bit (8 * (7 - i)) n)"
    if "i < 8" for i
  proof (rule bit_word_eqI)
    fix k assume "k < LENGTH(8)"
    then have k: "k < 8" by simp
    have "8 * i + k < 64" "(8 * i + k) div 8 = i" "(8 * i + k) mod 8 = k" using that k by auto
    then show "bit (ucast (drop_bit (8 * i) (ByteReverseWord64 n)) :: u8) k \<longleftrightarrow>
        bit (ucast (drop_bit (8 * (7 - i)) n) :: u8) k"
      using k by (simp add: bit_simps ByteReverse64_bit)
  qed
  then show ?thesis by (simp add: c64toa_def mem_of64_def)
qed

lemma w64_split: "w64From32 (w64GetHigh32 n) (w64GetLow32 n) = n"
  by (rule bit_word_eqI)
    (auto simp: w64From32_def w64GetHigh32_def w64GetLow32_def bit_simps add_diff_if split: if_splits)

lemma w64_parts [simp]:
  "w64GetHigh32 (w64From32 hi lo) = hi" "w64GetLow32 (w64From32 hi lo) = lo"
  by (auto intro!: bit_word_eqI simp: w64From32_def w64GetHigh32_def w64GetLow32_def bit_simps
      bit_u32_over)

section \<open>Constant-time helpers are right\<close>

lemma drop_bit_sign: "drop_bit 31 (x :: u32) = (if unat x < 2 ^ 31 then 0 else 1)"
proof -
  have "unat (drop_bit 31 x) = unat x div 2 ^ 31" by (simp add: drop_bit_eq_div unat_div)
  moreover have "unat x < 2 ^ 32" using unat_lt_pow[of x] by simp
  ultimately have "unat (drop_bit 31 x) = (if unat x < 2 ^ 31 then 0 else 1)"
    by (auto simp: div_eq_0_iff intro: div_nat_eqI)
  then show ?thesis by (auto simp: word_unat_eq_iff)
qed

lemma xor_zero_iff: "x XOR y = 0 \<longleftrightarrow> x = (y :: 'a::len word)"
proof
  assume e: "x XOR y = 0"
  have "x = (x XOR y) XOR y" by (simp add: xor.assoc)
  then show "x = y" by (simp add: e)
qed simp

lemma ConstantCompare_eq:
  assumes "n \<le> length a" "n \<le> length b"
  shows "ConstantCompare a b n = 0 \<longleftrightarrow> take n a = take n b"
  using assms
proof (induction n)
  case (Suc n)
  have "ConstantCompare a b (Suc n) = ConstantCompare a b n OR uint ((a ! n) XOR (b ! n))"
    by (simp add: ConstantCompare_def)
  moreover have "uint ((a ! n) XOR (b ! n)) = 0 \<longleftrightarrow> a ! n = b ! n"
    by (simp add: uint_0_iff xor_zero_iff)
  ultimately show ?case
    using Suc by (simp add: or_eq_0_iff take_Suc_conv_app_nth)
qed (simp add: ConstantCompare_def)

lemma ctMaskGT_small:
  assumes "unat a < 2 ^ 31" "unat b < 2 ^ 31"
  shows "ctMaskGT a b = (if b < a then 0xff else 0)" and "ctMaskGTE a b = (if b \<le> a then 0xff else 0)"
proof -
  have ff: "(ucast (- 1 :: u32) :: u8) = 0xff" by code_simp
  have diff: "unat (a - b) = (if unat b \<le> unat a then unat a - unat b else 2 ^ 32 + unat a - unat b)"
    unfolding unat_sub_if_size word_size by (simp add: add.commute[of "unat a"])
  have "unat (a - b) < 2 ^ 31 \<longleftrightarrow> b \<le> a"
    using diff assms by (auto simp: word_le_nat_alt)
  then show "ctMaskGTE a b = (if b \<le> a then 0xff else 0)"
    by (simp add: ctMaskGTE_def drop_bit_sign ff)
  have "unat (a - b - 1) = (if unat (a - b) = 0 then 2 ^ 32 - 1 else unat (a - b) - 1)"
    by (auto simp: unat_sub_if_size[of _ 1] word_size)
  then have "unat (a - b - 1) < 2 ^ 31 \<longleftrightarrow> b < a"
    using diff assms by (auto simp: word_less_nat_alt)
  then show "ctMaskGT a b = (if b < a then 0xff else 0)"
    by (simp add: ctMaskGT_def drop_bit_sign ff)
qed

lemma ctMaskLT_small:
  assumes "unat a < 2 ^ 31" "unat b < 2 ^ 31"
  shows "ctMaskLT a b = (if a < b then 0xff else 0)" and "ctMaskLTE a b = (if a \<le> b then 0xff else 0)"
  using ctMaskGT_small[OF assms(2,1)]
  by (simp_all add: ctMaskLT_def ctMaskLTE_def ctMaskGT_def ctMaskGTE_def)

lemma ctMaskEq_small:
  assumes "unat a < 2 ^ 31" "unat b < 2 ^ 31"
  shows "ctMaskEq a b = (if a = b then 0xff else 0)"
proof -
  have "NOT (0xff :: u8) = 0" "NOT (0 :: u8) = 0xff" by code_simp+
  then show ?thesis
    using ctMaskGT_small(1)[OF assms] ctMaskLT_small(1)[OF assms]
    by (auto simp: ctMaskEq_def)
qed

section \<open>Properties\<close>

text \<open>
  Wire encodings: the 16, 24, 32 and 64 bit encoders and decoders are inverse to each other (the 24
  bit one up to the truncation it performs), also when more bytes follow, and the 64-bit one is big
  endian.
\<close>

theorem int_encodings_roundtrip:
  "ato16 (c16toa a @ xs) = a \<and> ato24 (c32to24 b @ xs) = take_bit 24 b \<and> ato32 (c32toa b @ xs) = b \<and>
   ato64 (c64toa c @ xs) = c \<and> c16toa (ato16 (d0 # d1 # xs)) = [d0, d1] \<and>
   c32to24 (ato24 (d0 # d1 # d2 # xs)) = [d0, d1, d2] \<and>
   c32toa (ato32 (d0 # d1 # d2 # d3 # xs)) = [d0, d1, d2, d3] \<and>
   c64toa c = map (\<lambda>i. ucast (drop_bit (8 * (7 - i)) c)) [0..<8]"
  by (intro conjI ato16_c16toa ato24_c32to24 ato32_c32toa ato64_c64toa c16toa_ato16 c32to24_ato24 c32toa_ato32
      c64toa_big_endian)

end
