(* ===== verification/Dtls13State.thy ===== *)
theory Dtls13State
  imports WolfMisc
begin

text \<open>
  The data of the DTLS 1.3 record and handshake layer (\<open>wolfssl/internal.h\<close>): enumerations, epochs,
  the retransmission state, buffered handshake messages and the parts of the \<open>WOLFSSL\<close> object the
  functions of \<open>src/dtls13.c\<close> use.  Pointers into the epoch array are indices; linked lists are lists.

  Functions that return an \<open>int\<close> status return a \<open>wolf_rc\<close>.  The allocator succeeds a given number of
  times (\<open>heap_left\<close>); the results of the I/O send callback are a list in the state, a missing entry
  meaning that everything was sent, as \<open>dtls_send_cb\<close> does.  Cryptography is a parameter.
\<close>

section \<open>Enumerations\<close>

datatype wolf_rc =
    RC_OK
  | BAD_FUNC_ARG
  | BAD_STATE_E
  | BUFFER_ERROR
  | LENGTH_ERROR
  | PARSE_ERROR
  | SEQUENCE_ERROR
  | SANITY_MSG_E
  | INCOMPLETE_DATA
  | MEMORY_E
  | MEMORY_ERROR
  | NOT_COMPILED_IN
  | DECRYPT_ERROR
  | DTLS_TOO_MANY_FRAGMENTS_E
  | DTLS_SIZE_ERROR
  | SOCKET_ERROR_E
  | SEND_OOB_READ_E
  | WANT_WRITE
  | WC_PENDING_E
  | WOLFSSL_FATAL_ERROR
  | VERSION_ERROR
  | BUFFER_E
  | DTLS_PARTIAL_RECORD_READ
  | OUT_OF_ORDER_E
  | UNKNOWN_RECORD_TYPE
  | WANT_READ
  | APP_DATA_READY
  | ZERO_RETURN
  | FATAL_ERROR
  | RECV_OVERFLOW_E
  | SANITY_CIPHER_E
  | ALERT_COUNT_E
  | RC_OTHER int

datatype HandShakeType =
    hello_request | client_hello | server_hello | hello_verify_request | session_ticket
  | end_of_early_data | hello_retry_request | encrypted_extensions | certificate
  | server_key_exchange | certificate_request | server_hello_done | certificate_verify
  | client_key_exchange | finished | certificate_status | key_update | change_cipher_hs
  | message_hash | no_shake | unknown_hs u8

primrec byte_of_hs :: "HandShakeType \<Rightarrow> u8" where
  "byte_of_hs hello_request = 0"
| "byte_of_hs client_hello = 1"
| "byte_of_hs server_hello = 2"
| "byte_of_hs hello_verify_request = 3"
| "byte_of_hs session_ticket = 4"
| "byte_of_hs end_of_early_data = 5"
| "byte_of_hs hello_retry_request = 6"
| "byte_of_hs encrypted_extensions = 8"
| "byte_of_hs certificate = 11"
| "byte_of_hs server_key_exchange = 12"
| "byte_of_hs certificate_request = 13"
| "byte_of_hs server_hello_done = 14"
| "byte_of_hs certificate_verify = 15"
| "byte_of_hs client_key_exchange = 16"
| "byte_of_hs finished = 20"
| "byte_of_hs certificate_status = 22"
| "byte_of_hs key_update = 24"
| "byte_of_hs change_cipher_hs = 55"
| "byte_of_hs message_hash = 254"
| "byte_of_hs no_shake = 255"
| "byte_of_hs (unknown_hs b) = b"

definition known_hs :: "HandShakeType list" where
  "known_hs = [hello_request, client_hello, server_hello, hello_verify_request, session_ticket,
     end_of_early_data, hello_retry_request, encrypted_extensions, certificate, server_key_exchange,
     certificate_request, server_hello_done, certificate_verify, client_key_exchange, finished,
     certificate_status, key_update, change_cipher_hs, message_hash, no_shake]"

text \<open>The cast \<open>(enum HandShakeType)b\<close>.\<close>

definition hs_of_byte :: "u8 \<Rightarrow> HandShakeType" where
  "hs_of_byte b = (case find (\<lambda>h. byte_of_hs h = b) known_hs of Some h \<Rightarrow> h | None \<Rightarrow> unknown_hs b)"

lemma byte_hs_byte [simp]: "byte_of_hs (hs_of_byte b) = b"
  by (auto simp: hs_of_byte_def find_Some_iff split: option.splits)

lemma find_distinct: "distinct (map f xs) \<Longrightarrow> x \<in> set xs \<Longrightarrow> find (\<lambda>y. f y = f x) xs = Some x"
  by (induction xs) auto

lemma hs_byte_hs [simp]: "h \<in> set known_hs \<Longrightarrow> hs_of_byte (byte_of_hs h) = h"
proof -
  assume h: "h \<in> set known_hs"
  have "distinct (map byte_of_hs known_hs)" by (simp add: known_hs_def)
  from find_distinct[OF this h] show ?thesis by (simp add: hs_of_byte_def)
qed

datatype side = WOLFSSL_SERVER_END | WOLFSSL_CLIENT_END

datatype encrypt_side = ENCRYPT_SIDE_ONLY | DECRYPT_SIDE_ONLY | ENCRYPT_AND_DECRYPT_SIDE

datatype states =
    NULL_STATE | SERVER_HELLOVERIFYREQUEST_COMPLETE | SERVER_HELLO_RETRY_REQUEST_COMPLETE
  | SERVER_HELLO_COMPLETE | SERVER_ENCRYPTED_EXTENSIONS_COMPLETE | SERVER_CERT_COMPLETE
  | SERVER_CERT_VERIFY_COMPLETE | SERVER_KEYEXCHANGE_COMPLETE | SERVER_HELLODONE_COMPLETE
  | SERVER_CHANGECIPHERSPEC_COMPLETE | SERVER_FINISHED_COMPLETE | CLIENT_HELLO_RETRY
  | CLIENT_HELLO_COMPLETE | CLIENT_KEYEXCHANGE_COMPLETE | CLIENT_CHANGECIPHERSPEC_COMPLETE
  | CLIENT_FINISHED_COMPLETE | HANDSHAKE_DONE | SERVER_FINISHED_ACKED

primrec states_num :: "states \<Rightarrow> nat" where
  "states_num NULL_STATE = 0"
| "states_num SERVER_HELLOVERIFYREQUEST_COMPLETE = 1"
| "states_num SERVER_HELLO_RETRY_REQUEST_COMPLETE = 2"
| "states_num SERVER_HELLO_COMPLETE = 3"
| "states_num SERVER_ENCRYPTED_EXTENSIONS_COMPLETE = 4"
| "states_num SERVER_CERT_COMPLETE = 5"
| "states_num SERVER_CERT_VERIFY_COMPLETE = 6"
| "states_num SERVER_KEYEXCHANGE_COMPLETE = 7"
| "states_num SERVER_HELLODONE_COMPLETE = 8"
| "states_num SERVER_CHANGECIPHERSPEC_COMPLETE = 9"
| "states_num SERVER_FINISHED_COMPLETE = 10"
| "states_num CLIENT_HELLO_RETRY = 11"
| "states_num CLIENT_HELLO_COMPLETE = 12"
| "states_num CLIENT_KEYEXCHANGE_COMPLETE = 13"
| "states_num CLIENT_CHANGECIPHERSPEC_COMPLETE = 14"
| "states_num CLIENT_FINISHED_COMPLETE = 15"
| "states_num HANDSHAKE_DONE = 16"
| "states_num SERVER_FINISHED_ACKED = 17"

definition all_states :: "states list" where
  "all_states = [NULL_STATE, SERVER_HELLOVERIFYREQUEST_COMPLETE, SERVER_HELLO_RETRY_REQUEST_COMPLETE,
     SERVER_HELLO_COMPLETE, SERVER_ENCRYPTED_EXTENSIONS_COMPLETE, SERVER_CERT_COMPLETE,
     SERVER_CERT_VERIFY_COMPLETE, SERVER_KEYEXCHANGE_COMPLETE, SERVER_HELLODONE_COMPLETE,
     SERVER_CHANGECIPHERSPEC_COMPLETE, SERVER_FINISHED_COMPLETE, CLIENT_HELLO_RETRY,
     CLIENT_HELLO_COMPLETE, CLIENT_KEYEXCHANGE_COMPLETE, CLIENT_CHANGECIPHERSPEC_COMPLETE,
     CLIENT_FINISHED_COMPLETE, HANDSHAKE_DONE, SERVER_FINISHED_ACKED]"

lemma all_states_num: "all_states ! states_num a = a"
  by (cases a) (simp_all add: all_states_def)

lemma states_num_inj: "states_num a = states_num b \<Longrightarrow> a = b"
  by (metis all_states_num)

text \<open>The enumeration constants are compared with \<open><\<close> and \<open>>=\<close> in the code.\<close>

instantiation states :: linorder
begin

definition less_eq_states :: "states \<Rightarrow> states \<Rightarrow> bool" where
  "less_eq_states a b \<longleftrightarrow> states_num a \<le> states_num b"

definition less_states :: "states \<Rightarrow> states \<Rightarrow> bool" where
  "less_states a b \<longleftrightarrow> states_num a < states_num b"

instance
  by standard (auto simp: less_eq_states_def less_states_def intro: states_num_inj)

end

datatype ConnectState =
    CONNECT_BEGIN | CLIENT_HELLO_SENT | HELLO_AGAIN | HELLO_AGAIN_REPLY | FIRST_REPLY_DONE
  | FIRST_REPLY_FIRST | FIRST_REPLY_SECOND | FIRST_REPLY_THIRD | FIRST_REPLY_FOURTH
  | FINISHED_DONE | SECOND_REPLY_DONE | WAIT_FINISHED_ACK

datatype cipher_alg = wolfssl_aes_gcm | wolfssl_chacha | wolfssl_aes_ccm | wolfssl_cipher_null | other_cipher

section \<open>Epochs and keys\<close>

definition DTLS13_EPOCH_SIZE :: nat where [simp]: "DTLS13_EPOCH_SIZE = 4"
definition DTLS13_RETRANS_RN_SIZE :: nat where [simp]: "DTLS13_RETRANS_RN_SIZE = 3"
definition DTLS13_EPOCH_HANDSHAKE :: u32 where [simp]: "DTLS13_EPOCH_HANDSHAKE = 2"
definition DTLS13_EPOCH_TRAFFIC0 :: u32 where [simp]: "DTLS13_EPOCH_TRAFFIC0 = 3"

text \<open>The write key, write IV and sequence number key of one direction.\<close>

record keymat =
  write_key :: bytes
  write_IV :: bytes
  sn_key :: bytes

record Dtls13Epoch =
  epochNumber :: u64
  nextSeqNumber :: u64
  nextPeerSeqNumber :: u64
  dropCount :: u64
  window :: "u32 list"
  e_client :: keymat
  e_server :: keymat
  e_aead_enc_imp_IV :: bytes
  e_aead_dec_imp_IV :: bytes
  isValid :: bool
  e_side :: encrypt_side

record Keys =
  k_client :: keymat
  k_server :: keymat
  k_aead_enc_imp_IV :: bytes
  k_aead_dec_imp_IV :: bytes
  dtls_handshake_number :: u16
  dtls_peer_handshake_number :: u16
  dtls_expected_peer_handshake_number :: u16
  curEpoch64 :: u64
  curSeq :: u64
  padSz :: u32
  updateResponseReq :: bool

section \<open>Retransmission and reassembly\<close>

record Dtls13RtxRecord =
  r_data :: bytes
  r_epoch :: u64
  r_seq :: "u64 list"
  r_rnIdx :: nat
  r_handshakeType :: HandShakeType

type_synonym Dtls13RecordNumber = "u64 \<times> u64"

record Dtls13Rtx =
  rtxRecords :: "Dtls13RtxRecord list"
  seenRecords :: "Dtls13RecordNumber list"
  sendAcks :: bool
  retransmit :: bool

text \<open>
  A byte of a received message buffer: \<^const>\<open>None\<close> is memory the program has not written since it was
  allocated.
\<close>

type_synonym cell = "u8 option"

record DtlsFragBucket =
  fb_offset :: u32
  fb_sz :: u32
  fb_buf :: "cell list"

text \<open>
  \<open>m_hdr\<close> are the twelve bytes in front of \<open>fullMsg\<close>; the \<open>next\<close> pointer is the list the message is in.
\<close>

record DtlsMsg =
  m_hdr :: bytes
  m_fullMsg :: "cell list option"
  m_fragBucketList :: "DtlsFragBucket list"
  m_bytesReceived :: u32
  m_epoch :: u16
  m_seq :: u32
  m_sz :: u32
  m_type :: u8
  m_fragBucketListCount :: u8
  m_ready :: bool
  m_encrypted :: bool

section \<open>The connection object\<close>

text \<open>\<open>ssl->options\<close>, \<open>ssl->version\<close> and \<open>ssl->specs\<close>.\<close>

record Options =
  opt_side :: side
  handShakeDone :: bool
  handShakeState :: states
  serverState :: states
  connectState :: ConnectState
  acceptState :: nat
  seenUnifiedHdr :: bool
  dtls13SendMoreAcks :: bool
  groupMessages :: bool
  buildingMsg :: bool
  dtlsStateful :: bool
  dtls13ChFrag :: bool
  downgradeTo12 :: bool
  tls1_3 :: bool
  encryptionOn :: bool
  bulk_cipher_algorithm :: cipher_alg

text \<open>
  The epoch array and the pointers into it, the record number ciphers and the keys of \<open>ssl->encrypt.aes\<close>
  and \<open>ssl->decrypt.aes\<close>.
\<close>

record Epochs =
  dtls13Epochs :: "Dtls13Epoch list"
  dtls13EncryptEpoch :: "nat option"
  dtls13DecryptEpoch :: "nat option"
  dtls13Epoch :: u64
  dtls13PeerEpoch :: u64
  dtls13InvalidateBefore :: u64
  rnEncryptKey :: "bytes option"
  rnDecryptKey :: "bytes option"
  encrypt_aes :: "bytes option"
  decrypt_aes :: "bytes option"

text \<open>\<open>ssl->buffers.outputBuffer\<close>, the I/O callback's results and what it was given.\<close>

record OutBuf =
  out_pending :: bytes
  out_idx :: nat
  out_bufferSize :: nat
  out_dynamic :: bool
  cbio_sent :: "int list"
  wire :: "bytes list"

text \<open>The fragmentation of an outgoing handshake message.\<close>

record FragOut =
  dtls13SendingFragments :: bool
  dtls13FragmentsBuffer :: bytes
  dtls13MessageLength :: nat
  dtls13FragOffset :: nat
  dtls13FragHandshakeType :: HandShakeType

record Timers =
  dtls13FastTimeout :: bool
  dtls_timeout :: nat
  dtls_timeout_init :: nat
  dtls_timeout_max :: nat

text \<open>
  Status bits; the last four tell whether the nonce buffers of the ciphers have been allocated and whether
  their keys are set up.
\<close>

record Flags =
  dtls13WaitKeyUpdateAck :: bool
  dtls13DoKeyUpdate :: bool
  dtls13SendingAckOrRtx :: bool
  encrypt_nonce :: bool
  decrypt_nonce :: bool
  encrypt_setup :: bool
  decrypt_setup :: bool

record WOLFSSL =
  options :: Options
  keys :: Keys
  epochs :: Epochs
  dtls13Rtx :: Dtls13Rtx
  dtls_rx_msg_list :: "DtlsMsg list"
  dtls_rx_msg_list_sz :: nat
  frag :: FragOut
  dtls13ClientHello :: "bytes option"
  timers :: Timers
  flags :: Flags
  dtlsMtuSz :: nat
  outbuf :: OutBuf
  transcript :: "bytes list"
  heap_left :: nat

section \<open>Output buffering\<close>

definition STATIC_BUFFER_LEN :: nat where [simp]: "STATIC_BUFFER_LEN = 5"

definition xmalloc :: "WOLFSSL \<Rightarrow> WOLFSSL option" where
  "xmalloc ssl = (if heap_left ssl = 0 then None else Some (ssl\<lparr>heap_left := heap_left ssl - 1\<rparr>))"

definition ShrinkOutputBuffer :: "OutBuf \<Rightarrow> OutBuf" where
  "ShrinkOutputBuffer b = b\<lparr>out_bufferSize := STATIC_BUFFER_LEN, out_dynamic := False\<rparr>"

text \<open>
  The send loop.  The first argument are the results of the next calls of the callback: a negative one
  is an error code of \<open>wolfio.h\<close> (\<open>WANT_WRITE\<close> is \<open>-2\<close>, the interrupted call \<open>-4\<close> is repeated),
  otherwise the number of bytes taken.  A missing result takes everything.
\<close>

fun send_loop :: "int list \<Rightarrow> OutBuf \<Rightarrow> wolf_rc \<times> OutBuf" where
  "send_loop [] b =
     (if out_pending b = [] then (RC_OK, b\<lparr>cbio_sent := []\<rparr>)
      else (RC_OK, b\<lparr>cbio_sent := [], wire := wire b @ [out_pending b],
                       out_idx := out_idx b + length (out_pending b), out_pending := []\<rparr>))"
| "send_loop (sent # outs) b =
     (if out_pending b = [] then (RC_OK, b\<lparr>cbio_sent := sent # outs\<rparr>)
      else if sent = -2 then (WANT_WRITE, b\<lparr>cbio_sent := outs\<rparr>)
      else if sent = -4 then send_loop outs b
      else if sent < 0 then (SOCKET_ERROR_E, b\<lparr>cbio_sent := outs\<rparr>)
      else if int (length (out_pending b)) < sent then (SEND_OOB_READ_E, b\<lparr>cbio_sent := outs\<rparr>)
      else send_loop outs
             (b\<lparr>wire := wire b @ [take (nat sent) (out_pending b)],
                out_idx := out_idx b + nat sent,
                out_pending := drop (nat sent) (out_pending b)\<rparr>))"

definition send_buffered :: "OutBuf \<Rightarrow> wolf_rc \<times> OutBuf" where
  "send_buffered b =
     (let (rc, b) = send_loop (cbio_sent b) b in
      if rc = RC_OK
      then (let b = b\<lparr>out_idx := 0\<rparr> in (RC_OK, if out_dynamic b then ShrinkOutputBuffer b else b))
      else (rc, b))"

definition SendBuffered :: "WOLFSSL \<Rightarrow> wolf_rc \<times> WOLFSSL" where
  "SendBuffered ssl = (let (rc, b) = send_buffered (outbuf ssl) in (rc, ssl\<lparr>outbuf := b\<rparr>))"

definition GrowOutputBuffer :: "nat \<Rightarrow> WOLFSSL \<Rightarrow> WOLFSSL option" where
  "GrowOutputBuffer sz ssl =
     do { ssl \<leftarrow> xmalloc ssl;
          Some (ssl\<lparr>outbuf := (outbuf ssl)\<lparr>out_dynamic := True,
                  out_bufferSize := sz + length (out_pending (outbuf ssl))\<rparr>\<rparr>) }"

definition out_room :: "OutBuf \<Rightarrow> u32" where
  "out_room b = of_nat (out_bufferSize b) - of_nat (length (out_pending b)) - of_nat (out_idx b)"

definition CheckAvailableSize :: "int \<Rightarrow> WOLFSSL \<Rightarrow> wolf_rc \<times> WOLFSSL" where
  "CheckAvailableSize sz ssl =
     (if sz < 0 then (BAD_FUNC_ARG, ssl)
      else
        (let (rc, ssl) = (if dtlsMtuSz ssl < nat sz + length (out_pending (outbuf ssl))
                          then SendBuffered ssl else (RC_OK, ssl))
         in if rc \<noteq> RC_OK then (rc, ssl)
            else if dtlsMtuSz ssl < nat sz \<and> \<not> tls1_3 (options ssl) then (DTLS_SIZE_ERROR, ssl)
            else if out_room (outbuf ssl) < of_nat (nat sz)
            then (case GrowOutputBuffer (nat sz) ssl of None \<Rightarrow> (MEMORY_E, ssl) | Some ssl \<Rightarrow> (RC_OK, ssl))
            else (RC_OK, ssl)))"

section \<open>Output facts\<close>

lemma send_loop_wire:
  "concat (wire (snd (send_loop outs b))) @ out_pending (snd (send_loop outs b)) = concat (wire b) @ out_pending b"
  by (induction outs b rule: send_loop.induct) simp_all

lemma send_loop_ok: "fst (send_loop outs b) = RC_OK \<Longrightarrow> out_pending (snd (send_loop outs b)) = []"
  by (induction outs b rule: send_loop.induct) (simp_all split: if_splits)

text \<open>Sending neither loses nor reorders bytes, and a successful flush leaves nothing behind.\<close>

lemma send_buffered_wire:
  "concat (wire (snd (send_buffered b))) @ out_pending (snd (send_buffered b)) = concat (wire b) @ out_pending b"
  using send_loop_wire[of "cbio_sent b" b]
  by (simp add: send_buffered_def Let_def split_beta ShrinkOutputBuffer_def)

lemma send_buffered_ok: "fst (send_buffered b) = RC_OK \<Longrightarrow> out_pending (snd (send_buffered b)) = []"
  using send_loop_ok[of "cbio_sent b" b]
  by (simp add: send_buffered_def Let_def split_beta ShrinkOutputBuffer_def split: if_splits)

end
