(* ===== verification/DtlsWindow.thy ===== *)
theory DtlsWindow
  imports WolfMisc
begin

text \<open>
  The anti-replay window of one DTLS 1.3 epoch (\<open>Dtls13CheckWindow\<close>, \<open>_DtlsUpdateWindowGTSeq\<close> and the
  arithmetic of \<open>Dtls13UpdateWindow\<close> in \<open>src/internal.c\<close>): the next expected sequence number and 64 bits
  for the numbers just below it.  The theory relates the bit operations to the set of numbers received.
\<close>

section \<open>State and operations\<close>

definition WOLFSSL_DTLS_WINDOW_WORDS :: nat where [simp]: "WOLFSSL_DTLS_WINDOW_WORDS = 2"
definition DTLS_WORD_BITS :: nat where [simp]: "DTLS_WORD_BITS = 32"
definition DTLS_SEQ_BITS :: nat where [simp]: "DTLS_SEQ_BITS = 64"

text \<open>One iteration of the shifting loop: the window under construction and the carry \<open>temp\<close>.\<close>

definition gtseq_word :: "u32 list \<Rightarrow> nat \<Rightarrow> nat \<Rightarrow> nat \<Rightarrow> u32 list \<times> u32 \<Rightarrow> u32 list \<times> u32" where
  "gtseq_word old idx diff i = (\<lambda>(window, temp).
     if i < idx then (window[i := 0], temp)
     else
       (let temp = temp OR push_bit diff (old ! (i - idx));
            window = window[i := temp]
        in (window, if 0 < diff then drop_bit (DTLS_WORD_BITS - diff) (old ! (i - idx)) else 0)))"

definition DtlsUpdateWindowGTSeq :: "u32 \<Rightarrow> u32 list \<Rightarrow> u32 list" where
  "DtlsUpdateWindowGTSeq diff window =
     (let window =
        (if diff = 0 \<or> of_nat DTLS_SEQ_BITS \<le> diff then replicate WOLFSSL_DTLS_WINDOW_WORDS 0
         else
           (let idx = unat diff div DTLS_WORD_BITS; d = unat diff mod DTLS_WORD_BITS
            in fst (fold (gtseq_word window idx d) [0..<WOLFSSL_DTLS_WINDOW_WORDS] (window, 0))))
      in window[0 := window ! 0 OR 1])"

text \<open>The test of a sequence number against the window.\<close>

definition check_window :: "u64 \<Rightarrow> u32 list \<Rightarrow> u64 \<Rightarrow> bool" where
  "check_window nextSeq window seq =
     (if w64GTE seq nextSeq then True
      else
        (let diff64 = w64Sub nextSeq seq in
         if w64GT diff64 (w64From32 0 (of_nat DTLS_SEQ_BITS)) then False
         else
           (let diff = w64GetLow32 diff64 - 1;
                wordIndex = unat diff div DTLS_WORD_BITS;
                wordOffset = unat diff mod DTLS_WORD_BITS
            in \<not> bit (window ! wordIndex) wordOffset)))"

text \<open>Recording a sequence number; \<^const>\<open>None\<close> is \<open>BAD_STATE_E\<close> for a number below the window.\<close>

definition update_window :: "u64 \<Rightarrow> u32 list \<Rightarrow> u64 \<Rightarrow> (u64 \<times> u32 list) option" where
  "update_window nextSeq window seq =
     (if w64LT seq nextSeq
      then
        (let diff64 = w64Decrement (w64Sub nextSeq seq);
             diff = w64GetLow32 diff64;
             wordIndex = unat diff div DTLS_WORD_BITS;
             wordOffset = unat diff mod DTLS_WORD_BITS
         in if WOLFSSL_DTLS_WINDOW_WORDS \<le> wordIndex then None
            else Some (nextSeq, window[wordIndex := window ! wordIndex OR push_bit wordOffset 1]))
      else
        (let diff64 = w64Increment (w64Sub seq nextSeq)
         in Some (w64Increment seq, DtlsUpdateWindowGTSeq (w64GetLow32 diff64) window)))"

section \<open>The window as a set of bits\<close>

definition win_bit :: "u32 list \<Rightarrow> nat \<Rightarrow> bool" where
  "win_bit w i \<longleftrightarrow> i < 64 \<and> bit (w ! (i div 32)) (i mod 32)"

lemma two_words:
  assumes "length w = 2"
  obtains a b where "w = [a, b]"
  using assms by (auto simp: length_Suc_conv numeral_2_eq_2)

lemma win_bit_two: "win_bit [a, b] i \<longleftrightarrow> (if i < 32 then bit a i else i < 64 \<and> bit b (i - 32))"
proof (cases "i < 32")
  case False
  show ?thesis
  proof (cases "i < 64")
    case True
    with False have "i div 32 = 1" "i mod 32 = i - 32" by (auto simp: mod_if div_if)
    with False True show ?thesis by (simp add: win_bit_def)
  qed (simp add: win_bit_def)
qed (simp add: win_bit_def)

lemma length_GTSeq: "length w = 2 \<Longrightarrow> length (DtlsUpdateWindowGTSeq d w) = 2"
proof -
  assume "length w = 2"
  then obtain a b where "w = [a, b]" by (rule two_words)
  then show ?thesis
    by (simp add: DtlsUpdateWindowGTSeq_def Let_def gtseq_word_def numeral_2_eq_2)
qed

lemma win_bit_set:
  assumes "length w = 2" "k < 64"
  shows "win_bit (w[k div 32 := w ! (k div 32) OR push_bit (k mod 32) 1]) i \<longleftrightarrow> win_bit w i \<or> i = k"
proof -
  have m: "k mod 32 < 32" "i mod 32 < 32" by simp_all
  have k: "k div 32 < 2" using assms(2) by simp
  have ik: "i = k \<longleftrightarrow> i div 32 = k div 32 \<and> i mod 32 = k mod 32"
    by (metis div_mult_mod_eq)
  show ?thesis
  proof (cases "i < 64")
    case True
    then show ?thesis
      using assms k m ik
      by (cases "i div 32 = k div 32") (auto simp: win_bit_def bit_simps)
  next
    case False
    then show ?thesis using assms by (simp add: win_bit_def)
  qed
qed

lemma GTSeq_clear:
  assumes "length w = 2" "d = 0 \<or> 64 \<le> unat d"
  shows "win_bit (DtlsUpdateWindowGTSeq d w) i \<longleftrightarrow> i = 0"
proof -
  have "d = 0 \<or> 64 \<le> d" using assms(2) by (auto simp: word_le_nat_alt)
  then have "DtlsUpdateWindowGTSeq d w = [1, 0]"
    by (auto simp: DtlsUpdateWindowGTSeq_def numeral_2_eq_2)
  then show ?thesis by (auto simp: win_bit_two bit_1_iff)
qed

lemma GTSeq_shift:
  assumes "length w = 2" "0 < unat d" "unat d < 64"
  shows "win_bit (DtlsUpdateWindowGTSeq d w) i \<longleftrightarrow> i = 0 \<or> (i < 64 \<and> unat d \<le> i \<and> win_bit w (i - unat d))"
proof -
  obtain a b where w: "w = [a, b]" using assms(1) by (rule two_words)
  have d: "d \<noteq> 0" "\<not> 64 \<le> d" using assms by (auto simp: word_le_nat_alt)
  define n where "n = unat d"
  have n: "0 < n" "n < 64" using assms by (auto simp: n_def)
  show ?thesis
  proof (cases "n < 32")
    case True
    then have q: "n div 32 = 0" "n mod 32 = n" by simp_all
    have "DtlsUpdateWindowGTSeq d w = [push_bit n a OR 1, drop_bit (32 - n) a OR push_bit n b]"
      using d n by (simp add: DtlsUpdateWindowGTSeq_def Let_def gtseq_word_def w numeral_2_eq_2 n_def[symmetric] q)
    then show ?thesis
      using True n
      by (auto simp: w win_bit_two bit_simps n_def[symmetric] add.commute[of n 32] dest: bit_imp_le_length)
  next
    case False
    then have q: "n div 32 = 1" "n mod 32 = n - 32" using n by (auto simp: div_if mod_if)
    have "DtlsUpdateWindowGTSeq d w = [1, push_bit (n - 32) a]"
      using d n by (simp add: DtlsUpdateWindowGTSeq_def Let_def gtseq_word_def w numeral_2_eq_2 n_def[symmetric] q)
    then show ?thesis
      using False n by (auto simp: w win_bit_two bit_simps n_def[symmetric] dest: bit_imp_le_length)
  qed
qed

section \<open>The operations on numbers\<close>

lemma unat_low_small: "unat (x :: u64) < 2 ^ 32 \<Longrightarrow> unat (w64GetLow32 x) = unat x"
  by (simp add: w64GetLow32_def unsigned_ucast_eq take_bit_nat_eq_self)

lemma unat_sub_le: "b \<le> a \<Longrightarrow> unat (a - b) = unat a - unat b" for a b :: u64
  by (simp add: unat_sub)

lemma check_window_iff:
  assumes "length w = 2"
  shows "check_window n w s \<longleftrightarrow>
    unat n \<le> unat s \<or> (unat n - unat s \<le> 64 \<and> \<not> win_bit w (unat n - unat s - 1))"
proof (cases "n \<le> s")
  case True
  then show ?thesis by (simp add: check_window_def word_le_nat_alt)
next
  case False
  then have lt: "unat s < unat n" by (simp add: word_le_nat_alt)
  have d: "unat (n - s) = unat n - unat s" using False by (intro unat_sub_le) simp
  have c: "w64From32 0 64 = 64" by (simp add: w64From32_def)
  have far: "64 < n - s \<longleftrightarrow> 64 < unat n - unat s" by (simp add: word_less_nat_alt d)
  show ?thesis
  proof (cases "unat n - unat s \<le> 64")
    case True
    then have "unat (w64GetLow32 (n - s)) = unat n - unat s"
      using d by (simp add: unat_low_small)
    moreover from this have "unat (w64GetLow32 (n - s) - 1) = unat n - unat s - 1"
      using lt by (simp add: unat_sub_if_size word_size)
    ultimately show ?thesis
      using False True lt far less_le_trans[OF diff_Suc_less, of "unat n - unat s" 64]
      by (auto simp: check_window_def c Let_def win_bit_def)
  next
    case f: False
    then show ?thesis using False lt far by (simp add: check_window_def c)
  qed
qed

lemma update_window_below:
  assumes "length w = 2" "unat s < unat n" "unat n - unat s \<le> 64"
  shows "\<exists>w'. update_window n w s = Some (n, w') \<and> length w' = 2 \<and>
    (\<forall>i. win_bit w' i \<longleftrightarrow> win_bit w i \<or> i = unat n - unat s - 1)"
proof -
  define k where "k = unat n - unat s - 1"
  have k: "k < 64" using assms by (simp add: k_def)
  have "s < n" using assms(2) by (simp add: word_less_nat_alt)
  then have "unat (n - s) = unat n - unat s" by (intro unat_sub_le) simp
  then have "unat (n - s - 1) = k"
    using assms(2) by (simp add: k_def unat_sub_if_size word_size)
  then have "unat (w64GetLow32 (n - s - 1)) = k" using k by (simp add: unat_low_small)
  moreover have "k div 32 < 2" using k by simp
  ultimately have "update_window n w s = Some (n, w[k div 32 := w ! (k div 32) OR push_bit (k mod 32) 1])"
    using \<open>s < n\<close> by (simp add: update_window_def Let_def)
  then show ?thesis
    using win_bit_set[OF assms(1) k] assms(1) by (simp add: k_def)
qed

lemma update_window_above:
  assumes "length w = 2" "unat n \<le> unat s"
  shows "\<exists>w'. update_window n w s = Some (s + 1, w') \<and> length w' = 2 \<and> win_bit w' 0 \<and>
    (unat s - unat n < 2 ^ 32 \<longrightarrow>
       (\<forall>i. win_bit w' i \<longleftrightarrow> i = 0 \<or> (i < 64 \<and> unat s - unat n < i \<and> win_bit w (i - (unat s - unat n) - 1)))) \<and>
    (\<forall>i. unat s - unat n < i \<longrightarrow> i < 64 \<longrightarrow> win_bit w (i - (unat s - unat n) - 1) \<longrightarrow> win_bit w' i)"
proof -
  define d where "d = w64GetLow32 (s - n + 1)"
  define w' where "w' = DtlsUpdateWindowGTSeq d w"
  have ns: "n \<le> s" using assms(2) by (simp add: word_le_nat_alt)
  have u: "unat (s - n) = unat s - unat n" using ns by (rule unat_sub_le)
  have upd: "update_window n w s = Some (s + 1, w')"
    using leD[OF ns] by (simp add: update_window_def Let_def w'_def d_def)
  have zero: "win_bit w' 0"
    using GTSeq_clear[OF assms(1)] GTSeq_shift[OF assms(1)] unfolding w'_def
    by (metis gr0I not_less unat_0_iff)
  have small: "unat d = unat s - unat n + 1" if "unat s - unat n + 1 < 2 ^ 32"
  proof -
    have "unat (s - n + 1) = unat s - unat n + 1"
      using u that by (simp add: unat_word_ariths)
    then show ?thesis unfolding d_def using that by (simp add: unat_low_small)
  qed
  have full: "d = 0" if "unat s - unat n + 1 = 2 ^ 32"
  proof -
    have "unat (s - n + 1) = 2 ^ 32" using u that by (simp add: unat_word_ariths)
    then have "unat d = 0" by (simp add: d_def w64GetLow32_def unsigned_ucast_eq take_bit_eq_mod)
    then show ?thesis by (simp add: unat_eq_zero)
  qed
  have exact: "win_bit w' i \<longleftrightarrow> i = 0 \<or> (i < 64 \<and> unat s - unat n < i \<and> win_bit w (i - (unat s - unat n) - 1))"
    if "unat s - unat n < 2 ^ 32" for i
  proof (cases "unat s - unat n + 1 < 64")
    case True
    then have du: "unat d = unat s - unat n + 1" using small by simp
    show ?thesis
      using GTSeq_shift[OF assms(1), of d i] du True by (auto simp: w'_def Suc_le_eq)
  next
    case False
    have "d = 0 \<or> 64 \<le> unat d"
      using False that small full by (cases "unat s - unat n + 1 = 2 ^ 32") auto
    from GTSeq_clear[OF assms(1) this, of i] show ?thesis using False by (auto simp: w'_def)
  qed
  have over: "win_bit w' i" if "unat s - unat n < i" "i < 64" "win_bit w (i - (unat s - unat n) - 1)" for i
    using exact[of i] that by simp
  show ?thesis
    using upd zero exact over length_GTSeq[OF assms(1)] by (simp add: w'_def)
qed

section \<open>Receiving a sequence of records\<close>

text \<open>Each record is tested and, when it is accepted, recorded (\<open>DoProcessReply\<close> order).\<close>

fun window_run :: "u64 \<times> u32 list \<Rightarrow> u64 list \<Rightarrow> u64 list" where
  "window_run st [] = []"
| "window_run (n, w) (s # ss) =
     (if check_window n w s
      then (case update_window n w s of
              Some st \<Rightarrow> s # window_run st ss
            | None \<Rightarrow> window_run (n, w) ss)
      else window_run (n, w) ss)"

text \<open>The specification: a set of received numbers and the next expected one.\<close>

fun window_spec :: "nat set \<times> nat \<Rightarrow> u64 list \<Rightarrow> u64 list" where
  "window_spec st [] = []"
| "window_spec (A, n) (s # ss) =
     (if unat s \<notin> A \<and> n \<le> unat s + 64
      then s # window_spec (insert (unat s) A, max n (Suc (unat s))) ss
      else window_spec (A, n) ss)"

definition recorded :: "u64 set \<Rightarrow> u64 \<Rightarrow> u32 list \<Rightarrow> bool" where
  "recorded A n w \<longleftrightarrow> length w = 2 \<and>
     (\<forall>a\<in>A. unat a < unat n \<and> (unat n - unat a \<le> 64 \<longrightarrow> win_bit w (unat n - unat a - 1)))"

lemma unat_Suc64: "s \<noteq> -1 \<Longrightarrow> unat (s + 1 :: u64) = Suc (unat s)"
proof -
  assume "s \<noteq> -1"
  then have "unat s \<noteq> 2 ^ 64 - 1" by (simp add: word_unat_eq_iff unsigned_minus_1_eq_mask mask_eq_exp_minus_1)
  moreover have "unat s < 2 ^ 64" using unat_lt_pow[of s] by simp
  ultimately show ?thesis by (simp add: unat_word_ariths)
qed

lemma recorded_step:
  assumes "recorded A n w" "check_window n w s" "s \<noteq> -1"
  shows "s \<notin> A \<and> (\<exists>n' w'. update_window n w s = Some (n', w') \<and> recorded (insert s A) n' w')"
proof
  have w: "length w = 2" using assms(1) by (simp add: recorded_def)
  show "s \<notin> A"
    using assms(1,2) check_window_iff[OF w] by (auto simp: recorded_def)
  show "\<exists>n' w'. update_window n w s = Some (n', w') \<and> recorded (insert s A) n' w'"
  proof (cases "unat n \<le> unat s")
    case True
    obtain w' where w': "update_window n w s = Some (s + 1, w')" "length w' = 2" "win_bit w' 0"
      "\<And>i. unat s - unat n < i \<Longrightarrow> i < 64 \<Longrightarrow> win_bit w (i - (unat s - unat n) - 1) \<Longrightarrow> win_bit w' i"
      using update_window_above[OF w True] by blast
    have u: "unat (s + 1) = Suc (unat s)" using assms(3) by (rule unat_Suc64)
    have "unat a < unat (s + 1) \<and> (unat (s + 1) - unat a \<le> 64 \<longrightarrow> win_bit w' (unat (s + 1) - unat a - 1))"
      if "a \<in> A" for a
    proof -
      have a: "unat a < unat n" "unat n - unat a \<le> 64 \<longrightarrow> win_bit w (unat n - unat a - 1)"
        using assms(1) that by (auto simp: recorded_def)
      have "win_bit w' (unat s - unat a)" if le: "Suc (unat s) - unat a \<le> 64"
      proof (rule w'(4))
        show "unat s - unat n < unat s - unat a" "unat s - unat a < 64" using a True le by auto
        have "unat s - unat a - (unat s - unat n) - 1 = unat n - unat a - 1" using a True by simp
        then show "win_bit w (unat s - unat a - (unat s - unat n) - 1)" using a True le by simp
      qed
      then show ?thesis using a True u by simp
    qed
    then show ?thesis using w' u by (auto simp: recorded_def)
  next
    case False
    then have "unat n - unat s \<le> 64" using assms(2) check_window_iff[OF w] by simp
    then obtain w' where "update_window n w s = Some (n, w')" "length w' = 2"
      "\<And>i. win_bit w' i \<longleftrightarrow> win_bit w i \<or> i = unat n - unat s - 1"
      using update_window_below[OF w] False by (metis not_le)
    then show ?thesis using assms(1) False by (auto simp: recorded_def)
  qed
qed

lemma window_run_fresh:
  assumes "recorded A n w" "-1 \<notin> set ss"
  shows "distinct (window_run (n, w) ss) \<and> set (window_run (n, w) ss) \<inter> A = {}"
  using assms
proof (induction ss arbitrary: A n w)
  case (Cons s ss)
  show ?case
  proof (cases "check_window n w s")
    case True
    then obtain n' w' where "s \<notin> A" "update_window n w s = Some (n', w')" "recorded (insert s A) n' w'"
      using recorded_step[OF Cons.prems(1) True] Cons.prems(2) by auto
    then show ?thesis using Cons.IH[of "insert s A" n' w'] Cons.prems True by auto
  next
    case False
    then show ?thesis using Cons.IH[of A n w] Cons.prems by simp
  qed
qed simp

text \<open>The exact relation to the specification, for numbers below \<open>2 ^ 32\<close>.\<close>

definition tracks :: "nat set \<Rightarrow> nat \<Rightarrow> u64 \<Rightarrow> u32 list \<Rightarrow> bool" where
  "tracks A m n w \<longleftrightarrow> length w = 2 \<and> m = unat n \<and> m \<le> 2 ^ 32 \<and> (\<forall>a\<in>A. a < m) \<and>
     (\<forall>i<64. win_bit w i \<longleftrightarrow> i < m \<and> m - i - 1 \<in> A)"

lemma tracks_check:
  assumes "tracks A m n w"
  shows "check_window n w s \<longleftrightarrow> unat s \<notin> A \<and> m \<le> unat s + 64"
proof -
  have w: "length w = 2" and m: "m = unat n" and b: "\<forall>i<64. win_bit w i \<longleftrightarrow> i < m \<and> m - i - 1 \<in> A"
    and lt: "\<forall>a\<in>A. a < m"
    using assms by (auto simp: tracks_def)
  show ?thesis
  proof (cases "m \<le> unat s")
    case True
    then show ?thesis using check_window_iff[OF w] lt m by (auto simp: not_le[symmetric])
  next
    case False
    then have "m - (m - unat s - 1) - 1 = unat s" by simp
    then show ?thesis
      using b[rule_format, of "m - unat s - 1"] False check_window_iff[OF w, of n s] m
      by (cases "m - unat s \<le> 64") auto
  qed
qed

lemma tracks_update:
  assumes t: "tracks A m n w" and s: "unat s < 2 ^ 32" "m \<le> unat s + 64"
  shows "\<exists>n' w'. update_window n w s = Some (n', w') \<and> tracks (insert (unat s) A) (max m (Suc (unat s))) n' w'"
proof -
  have w: "length w = 2" and m: "m = unat n" "m \<le> 2 ^ 32"
    and b: "\<And>i. i < 64 \<Longrightarrow> win_bit w i \<longleftrightarrow> i < m \<and> m - i - 1 \<in> A" and lt: "\<And>a. a \<in> A \<Longrightarrow> a < m"
    using t by (auto simp: tracks_def)
  show ?thesis
  proof (cases "m \<le> unat s")
    case True
    have u: "unat (s + 1) = Suc (unat s)" using s(1) by (simp add: unat_word_ariths)
    obtain w' where w': "update_window n w s = Some (s + 1, w')" "length w' = 2"
      "unat s - m < 2 ^ 32 \<longrightarrow>
       (\<forall>i. win_bit w' i \<longleftrightarrow> i = 0 \<or> (i < 64 \<and> unat s - m < i \<and> win_bit w (i - (unat s - m) - 1)))"
      using update_window_above[OF w] True m by blast
    have bits: "win_bit w' i \<longleftrightarrow> i < Suc (unat s) \<and> Suc (unat s) - i - 1 \<in> insert (unat s) A" if "i < 64" for i
    proof (cases "unat s - m < i")
      case True
      define j where "j = i - (unat s - m) - 1"
      have "j < 64" and jm: "j < m \<longleftrightarrow> i < Suc (unat s)" and e: "j < m \<Longrightarrow> m - j - 1 = unat s - i"
        and ne: "i \<le> unat s \<Longrightarrow> unat s - i \<noteq> unat s"
        using True that \<open>m \<le> unat s\<close> by (auto simp: j_def)
      have "win_bit w' i \<longleftrightarrow> j < m \<and> m - j - 1 \<in> A"
      proof -
        have "unat s - m < 2 ^ 32" "i \<noteq> 0" using s(1) True by auto
        then have "win_bit w' i \<longleftrightarrow> win_bit w j" using w'(3) True that by (simp add: j_def)
        then show ?thesis using b[OF \<open>j < 64\<close>] by simp
      qed
      then show ?thesis using jm e ne by auto
    next
      case False
      then have na: "unat s - i \<notin> A" using lt[of "unat s - i"] \<open>m \<le> unat s\<close> by auto
      have "unat s - m < 2 ^ 32" using s(1) by simp
      then have "win_bit w' i \<longleftrightarrow> i = 0" using w'(3) False by simp
      moreover have "i \<le> unat s" using False \<open>m \<le> unat s\<close> by simp
      then have "unat s - i = unat s \<longleftrightarrow> i = 0" by arith
      ultimately show ?thesis using na \<open>i \<le> unat s\<close> by (simp add: less_Suc_eq_le)
    qed
    have "tracks (insert (unat s) A) (max m (Suc (unat s))) (s + 1) w'"
      using True w'(2) u s(1) bits lt by (force simp: tracks_def max_def)
    then show ?thesis using w'(1) by blast
  next
    case False
    have "unat s < unat n" "unat n - unat s \<le> 64" using False s(2) m by auto
    from update_window_below[OF w this] m(1)
    obtain w' where w': "update_window n w s = Some (n, w')" "length w' = 2"
      "\<And>i. win_bit w' i \<longleftrightarrow> win_bit w i \<or> i = m - unat s - 1" by blast
    have "win_bit w' i \<longleftrightarrow> i < m \<and> m - i - 1 \<in> insert (unat s) A" if "i < 64" for i
      using w'(3)[of i] b[OF that] False by auto
    moreover have "max m (Suc (unat s)) = m" using False by simp
    ultimately have "tracks (insert (unat s) A) (max m (Suc (unat s))) n w'"
      using False w'(2) m lt by (simp add: tracks_def)
    then show ?thesis using w'(1) by blast
  qed
qed

lemma window_run_spec:
  "tracks A m n w \<Longrightarrow> list_all (\<lambda>s. unat s < 2 ^ 32) ss \<Longrightarrow> window_run (n, w) ss = window_spec (A, m) ss"
proof (induction ss arbitrary: A m n w)
  case (Cons s ss)
  show ?case
  proof (cases "unat s \<notin> A \<and> m \<le> unat s + 64")
    case True
    then obtain n' w' where "update_window n w s = Some (n', w')"
      "tracks (insert (unat s) A) (max m (Suc (unat s))) n' w'"
      using tracks_update[OF Cons.prems(1), of s] Cons.prems(2) by auto
    then show ?thesis using Cons True tracks_check[OF Cons.prems(1), of s] by simp
  next
    case False
    then show ?thesis using Cons tracks_check[OF Cons.prems(1), of s] by auto
  qed
qed simp

section \<open>Properties\<close>

text \<open>
  C2. Replay protection: whatever sequence numbers a peer or an attacker sends, in whatever order and
  with whatever repetitions, no number is accepted twice in an epoch.  The number \<open>2 ^ 64 - 1\<close> is
  excluded because the next expected number wraps to zero after it.
\<close>

theorem window_no_replay:
  assumes "-1 \<notin> set ss"
  shows "distinct (window_run (0, [0, 0]) ss)"
  using window_run_fresh[of "{}" 0 "[0, 0]" ss] assms by (simp add: recorded_def)

theorem window_no_replay_witness:
  "distinct (window_run (0, [0, 0]) [5, 3, 5, 70, 3, 2 ^ 40, 70])"
  using window_no_replay[of "[5, 3, 5, 70, 3, 2 ^ 40, 70]"] by simp



end
