(* ===== verification/Dtls13Epoch.thy ===== *)
theory Dtls13Epoch
  imports Dtls13State DtlsWindow
begin

text \<open>
  Epochs of DTLS 1.3 (\<open>src/dtls13.c\<close>): the four-slot epoch array, key installation, sequence numbers,
  the epoch rules for handshake messages and the AEAD failure limits; and the replay window operations
  of \<open>src/internal.c\<close> on the connection object.  The AES key schedule is a parameter: \<open>gcm_set\<close> gives
  the status of \<open>wc_AesGcmSetKey\<close>, \<open>aes_init\<close> that of \<open>wc_AesInit\<close> and \<open>wc_AesSetKey\<close>.
\<close>

section \<open>Looking up and changing epochs\<close>

fun find_index :: "('a \<Rightarrow> bool) \<Rightarrow> 'a list \<Rightarrow> nat option" where
  "find_index P [] = None"
| "find_index P (x # xs) = (if P x then Some 0 else map_option Suc (find_index P xs))"

definition Dtls13GetEpoch :: "u64 \<Rightarrow> Epochs \<Rightarrow> nat option" where
  "Dtls13GetEpoch n E = find_index (\<lambda>e. w64Equal (epochNumber e) n \<and> isValid e) (dtls13Epochs E)"

definition Dtls13SetOlderEpochSide :: "u64 \<Rightarrow> encrypt_side \<Rightarrow> Epochs \<Rightarrow> Epochs" where
  "Dtls13SetOlderEpochSide n sd E = E\<lparr>dtls13Epochs :=
     map (\<lambda>e. if isValid e \<and> w64LT (epochNumber e) n then e\<lparr>e_side := sd\<rparr> else e) (dtls13Epochs E)\<rparr>"

text \<open>Which directions an encryption side covers: client write, server write, encrypt, decrypt.\<close>

definition side_flags :: "side \<Rightarrow> encrypt_side \<Rightarrow> bool \<times> bool \<times> bool \<times> bool" where
  "side_flags sd es =
     (case es of
        ENCRYPT_SIDE_ONLY \<Rightarrow> (sd = WOLFSSL_CLIENT_END, sd = WOLFSSL_SERVER_END, True, False)
      | DECRYPT_SIDE_ONLY \<Rightarrow> (sd = WOLFSSL_SERVER_END, sd = WOLFSSL_CLIENT_END, False, True)
      | ENCRYPT_AND_DECRYPT_SIDE \<Rightarrow> (True, True, True, True))"

definition Dtls13EpochCopyKeys :: "side \<Rightarrow> Keys \<Rightarrow> encrypt_side \<Rightarrow> Dtls13Epoch \<Rightarrow> Dtls13Epoch" where
  "Dtls13EpochCopyKeys sd k es e =
     (let (clientWrite, serverWrite, enc, dec) = side_flags sd es;
          e = (if clientWrite then e\<lparr>e_client := k_client k\<rparr> else e);
          e = (if serverWrite then e\<lparr>e_server := k_server k\<rparr> else e);
          e = (if enc then e\<lparr>e_aead_enc_imp_IV := k_aead_enc_imp_IV k\<rparr> else e)
      in if dec then e\<lparr>e_aead_dec_imp_IV := k_aead_dec_imp_IV k\<rparr> else e)"

text \<open>An all-zero epoch, as after \<open>XMEMSET(e, 0, sizeof *e)\<close>.\<close>

definition zero_epoch :: Dtls13Epoch where
  "zero_epoch = \<lparr>epochNumber = 0, nextSeqNumber = 0, nextPeerSeqNumber = 0, dropCount = 0,
     window = [0, 0],
     e_client = \<lparr>write_key = [], write_IV = [], sn_key = []\<rparr>,
     e_server = \<lparr>write_key = [], write_IV = [], sn_key = []\<rparr>,
     e_aead_enc_imp_IV = [], e_aead_dec_imp_IV = [], isValid = False, e_side = ENCRYPT_SIDE_ONLY\<rparr>"

text \<open>
  The search for a slot: the first invalid one, else the last one that is neither the sending nor the
  receiving epoch (\<open>oldestNumber\<close> keeps its initial value in the loop).
\<close>

definition evictable :: "Epochs \<Rightarrow> Dtls13Epoch \<Rightarrow> bool" where
  "evictable E e \<longleftrightarrow> \<not> w64Equal (epochNumber e) (dtls13Epoch E) \<and>
     \<not> w64Equal (epochNumber e) (dtls13PeerEpoch E) \<and> w64LT (epochNumber e) (w64From32 (-1) (-1))"

fun slot_search :: "Epochs \<Rightarrow> Dtls13Epoch list \<Rightarrow> nat \<Rightarrow> nat option \<Rightarrow> (nat \<times> bool) option" where
  "slot_search E [] i oldest = map_option (\<lambda>j. (j, False)) oldest"
| "slot_search E (e # es) i oldest =
     (if \<not> isValid e then Some (i, True)
      else slot_search E es (Suc i) (if evictable E e then Some i else oldest))"

definition Dtls13NewEpochSlot :: "Epochs \<Rightarrow> (nat \<times> Epochs) option" where
  "Dtls13NewEpochSlot E =
     (case slot_search E (dtls13Epochs E) 0 None of
        None \<Rightarrow> None
      | Some (i, free) \<Rightarrow>
          Some (i, if free then E else E\<lparr>dtls13Epochs := (dtls13Epochs E)[i := zero_epoch]\<rparr>))"

definition Dtls13NewEpoch :: "u64 \<Rightarrow> encrypt_side \<Rightarrow> WOLFSSL \<Rightarrow> wolf_rc \<times> WOLFSSL" where
  "Dtls13NewEpoch n es ssl =
     (let E = epochs ssl in
      case (case Dtls13GetEpoch n E of Some i \<Rightarrow> Some (i, E) | None \<Rightarrow> Dtls13NewEpochSlot E) of
        None \<Rightarrow> (BAD_STATE_E, ssl)
      | Some (i, E) \<Rightarrow>
          (let e = Dtls13EpochCopyKeys (opt_side (options ssl)) (keys ssl) es (dtls13Epochs E ! i);
               e = (if \<not> isValid e then e\<lparr>epochNumber := n, isValid := True, e_side := es\<rparr>
                    else if e_side e \<noteq> es then e\<lparr>e_side := ENCRYPT_AND_DECRYPT_SIDE\<rparr> else e);
               E = E\<lparr>dtls13Epochs := (dtls13Epochs E)[i := e]\<rparr>;
               E = (if handShakeDone (options ssl) \<and>
                       (e_side e = ENCRYPT_AND_DECRYPT_SIDE \<or> e_side e = DECRYPT_SIDE_ONLY)
                    then Dtls13SetOlderEpochSide (w64Decrement n) ENCRYPT_SIDE_ONLY E else E)
           in (RC_OK, ssl\<lparr>epochs := E\<rparr>)))"

section \<open>Installing keys\<close>

definition Dtls13InitAesCipher :: "(bytes \<Rightarrow> wolf_rc) \<Rightarrow> bytes \<Rightarrow> bytes option \<Rightarrow> WOLFSSL \<Rightarrow> wolf_rc \<times> bytes option \<times> WOLFSSL" where
  "Dtls13InitAesCipher aes_init key cipher ssl =
     (case (if cipher = None then xmalloc ssl else Some ssl) of
        None \<Rightarrow> (MEMORY_E, None, ssl)
      | Some ssl \<Rightarrow> (let rc = aes_init key in (rc, Some (if rc = RC_OK then key else []), ssl)))"

definition set_rn_enc :: "(bytes \<Rightarrow> wolf_rc) \<Rightarrow> bytes \<Rightarrow> WOLFSSL \<Rightarrow> wolf_rc \<times> WOLFSSL" where
  "set_rn_enc aes_init key ssl =
     (case Dtls13InitAesCipher aes_init key (rnEncryptKey (epochs ssl)) ssl of
        (rc, c, ssl) \<Rightarrow> (rc, ssl\<lparr>epochs := (epochs ssl)\<lparr>rnEncryptKey := c\<rparr>\<rparr>))"

definition set_rn_dec :: "(bytes \<Rightarrow> wolf_rc) \<Rightarrow> bytes \<Rightarrow> WOLFSSL \<Rightarrow> wolf_rc \<times> WOLFSSL" where
  "set_rn_dec aes_init key ssl =
     (case Dtls13InitAesCipher aes_init key (rnDecryptKey (epochs ssl)) ssl of
        (rc, c, ssl) \<Rightarrow> (rc, ssl\<lparr>epochs := (epochs ssl)\<lparr>rnDecryptKey := c\<rparr>\<rparr>))"

definition Dtls13SetRecordNumberKeys :: "(bytes \<Rightarrow> wolf_rc) \<Rightarrow> encrypt_side \<Rightarrow> WOLFSSL \<Rightarrow> wolf_rc \<times> WOLFSSL" where
  "Dtls13SetRecordNumberKeys aes_init es ssl =
     (let enc = (es \<noteq> DECRYPT_SIDE_ONLY);
          dec = (es \<noteq> ENCRYPT_SIDE_ONLY);
          client = (opt_side (options ssl) = WOLFSSL_CLIENT_END);
          encKey = sn_key (if client then k_client (keys ssl) else k_server (keys ssl));
          decKey = sn_key (if client then k_server (keys ssl) else k_client (keys ssl))
      in if bulk_cipher_algorithm (options ssl) = wolfssl_aes_gcm \<or>
            bulk_cipher_algorithm (options ssl) = wolfssl_aes_ccm
         then
           (let (rc, ssl) = (if enc then set_rn_enc aes_init encKey ssl else (RC_OK, ssl))
            in if rc \<noteq> RC_OK then (rc, ssl)
               else if dec then set_rn_dec aes_init decKey ssl
               else (RC_OK, ssl))
         else (NOT_COMPILED_IN, ssl))"

text \<open>
  The keys of the connection for the own and the peer's direction, and \<open>SetKeys\<close> of \<open>src/keys.c\<close> for
  AES-GCM, the only bulk cipher of this build: the cipher objects get their keys, and the implicit IVs
  are the first bytes of the write IVs.
\<close>

definition AEAD_MAX_IMP_SZ :: nat where [simp]: "AEAD_MAX_IMP_SZ = 12"

definition own_keys :: "side \<Rightarrow> Keys \<Rightarrow> keymat" where
  "own_keys sd k = (if sd = WOLFSSL_CLIENT_END then k_client k else k_server k)"

definition peer_keys :: "side \<Rightarrow> Keys \<Rightarrow> keymat" where
  "peer_keys sd k = (if sd = WOLFSSL_CLIENT_END then k_server k else k_client k)"

definition set_enc_key :: "(bytes \<Rightarrow> wolf_rc) \<Rightarrow> WOLFSSL \<Rightarrow> wolf_rc \<times> WOLFSSL" where
  "set_enc_key gcm_set ssl =
     (let km = own_keys (opt_side (options ssl)) (keys ssl); rc = gcm_set (write_key km)
      in if rc \<noteq> RC_OK then (rc, ssl)
         else (RC_OK, ssl\<lparr>epochs := (epochs ssl)\<lparr>encrypt_aes := Some (write_key km)\<rparr>,
                          keys := (keys ssl)\<lparr>k_aead_enc_imp_IV := take AEAD_MAX_IMP_SZ (write_IV km)\<rparr>\<rparr>))"

definition set_dec_key :: "(bytes \<Rightarrow> wolf_rc) \<Rightarrow> WOLFSSL \<Rightarrow> wolf_rc \<times> WOLFSSL" where
  "set_dec_key gcm_set ssl =
     (let km = peer_keys (opt_side (options ssl)) (keys ssl); rc = gcm_set (write_key km)
      in if rc \<noteq> RC_OK then (rc, ssl)
         else (RC_OK, ssl\<lparr>epochs := (epochs ssl)\<lparr>decrypt_aes := Some (write_key km)\<rparr>,
                          keys := (keys ssl)\<lparr>k_aead_dec_imp_IV := take AEAD_MAX_IMP_SZ (write_IV km)\<rparr>\<rparr>))"

text \<open>A cipher object is allocated if there is none yet and holds no key until one is set.\<close>

definition alloc_enc :: "WOLFSSL \<Rightarrow> WOLFSSL option" where
  "alloc_enc ssl =
     do { ssl \<leftarrow> (if encrypt_aes (epochs ssl) = None then xmalloc ssl else Some ssl);
          Some (ssl\<lparr>epochs := (epochs ssl)\<lparr>encrypt_aes := Some []\<rparr>\<rparr>) }"

definition alloc_dec :: "WOLFSSL \<Rightarrow> WOLFSSL option" where
  "alloc_dec ssl =
     do { ssl \<leftarrow> (if decrypt_aes (epochs ssl) = None then xmalloc ssl else Some ssl);
          Some (ssl\<lparr>epochs := (epochs ssl)\<lparr>decrypt_aes := Some []\<rparr>\<rparr>) }"

definition mark_setup :: "bool \<Rightarrow> bool \<Rightarrow> WOLFSSL \<Rightarrow> WOLFSSL" where
  "mark_setup enc dec ssl =
     ssl\<lparr>flags := (flags ssl)\<lparr>encrypt_setup := enc \<or> encrypt_setup (flags ssl),
                              decrypt_setup := dec \<or> decrypt_setup (flags ssl)\<rparr>\<rparr>"

definition SetKeys :: "(bytes \<Rightarrow> wolf_rc) \<Rightarrow> encrypt_side \<Rightarrow> WOLFSSL \<Rightarrow> wolf_rc \<times> WOLFSSL" where
  "SetKeys gcm_set es ssl =
     (let enc = (es \<noteq> DECRYPT_SIDE_ONLY); dec = (es \<noteq> ENCRYPT_SIDE_ONLY) in
      if bulk_cipher_algorithm (options ssl) \<noteq> wolfssl_aes_gcm then (RC_OK, ssl)
      else
        (case (if enc then alloc_enc ssl else Some ssl) of
           None \<Rightarrow> (MEMORY_E, ssl)
         | Some ssl \<Rightarrow>
             (case (if dec then alloc_dec ssl else Some ssl) of
                None \<Rightarrow> (MEMORY_E, ssl)
              | Some ssl \<Rightarrow>
                  (let (rc, ssl) = (if enc then set_enc_key gcm_set ssl else (RC_OK, ssl))
                   in if rc \<noteq> RC_OK then (rc, ssl)
                      else (let (rc, ssl) = (if dec then set_dec_key gcm_set ssl else (RC_OK, ssl))
                            in if rc \<noteq> RC_OK then (rc, ssl) else (RC_OK, mark_setup enc dec ssl))))))"

text \<open>\<open>SetKeysSide\<close>: the bulk cipher keys, then the record number keys.\<close>

definition SetKeysSide ::
    "(bytes \<Rightarrow> wolf_rc) \<Rightarrow> (bytes \<Rightarrow> wolf_rc) \<Rightarrow> encrypt_side \<Rightarrow> WOLFSSL \<Rightarrow> wolf_rc \<times> WOLFSSL" where
  "SetKeysSide gcm_set aes_init es ssl =
     (let (rc, ssl) = SetKeys gcm_set es ssl in
      if rc = RC_OK \<and> tls1_3 (options ssl) then Dtls13SetRecordNumberKeys aes_init es ssl else (rc, ssl))"

definition Dtls13SetEpochKeys ::
    "(bytes \<Rightarrow> wolf_rc) \<Rightarrow> (bytes \<Rightarrow> wolf_rc) \<Rightarrow> u64 \<Rightarrow> encrypt_side \<Rightarrow> WOLFSSL \<Rightarrow> wolf_rc \<times> WOLFSSL" where
  "Dtls13SetEpochKeys gcm_set aes_init n es ssl =
     (let (clientWrite, serverWrite, enc, dec) = side_flags (opt_side (options ssl)) es in
      case Dtls13GetEpoch n (epochs ssl) of
        None \<Rightarrow> (BAD_STATE_E, ssl)
      | Some i \<Rightarrow>
          (let e = dtls13Epochs (epochs ssl) ! i in
           if e_side e \<noteq> ENCRYPT_AND_DECRYPT_SIDE \<and> e_side e \<noteq> es then (BAD_STATE_E, ssl)
           else
             (let E = epochs ssl;
                  E = (if enc then E\<lparr>dtls13EncryptEpoch := Some i\<rparr> else E);
                  E = (if dec then E\<lparr>dtls13DecryptEpoch := Some i\<rparr> else E);
                  ssl = ssl\<lparr>epochs := E\<rparr>
              in if w64IsZero n then (RC_OK, ssl)
                 else
                   (let k = keys ssl;
                        k = (if clientWrite then k\<lparr>k_client := e_client e\<rparr> else k);
                        k = (if serverWrite then k\<lparr>k_server := e_server e\<rparr> else k);
                        k = (if enc then k\<lparr>k_aead_enc_imp_IV := e_aead_enc_imp_IV e\<rparr> else k);
                        k = (if dec then k\<lparr>k_aead_dec_imp_IV := e_aead_dec_imp_IV e\<rparr> else k)
                    in SetKeysSide gcm_set aes_init es (ssl\<lparr>keys := k\<rparr>)))))"

section \<open>Sequence numbers\<close>

datatype seq_order = CUR_ORDER | PEER_ORDER | OTHER_ORDER

definition set_epoch :: "nat \<Rightarrow> Dtls13Epoch \<Rightarrow> WOLFSSL \<Rightarrow> WOLFSSL" where
  "set_epoch i e ssl = ssl\<lparr>epochs := (epochs ssl)\<lparr>dtls13Epochs := (dtls13Epochs (epochs ssl))[i := e]\<rparr>\<rparr>"

definition Dtls13GetSeq :: "seq_order \<Rightarrow> bool \<Rightarrow> WOLFSSL \<Rightarrow> wolf_rc \<times> (u32 \<times> u32) option \<times> WOLFSSL" where
  "Dtls13GetSeq order increment ssl =
     (case order of
        PEER_ORDER \<Rightarrow>
          (let s = curSeq (keys ssl) in (RC_OK, Some (w64GetHigh32 s, w64GetLow32 s), ssl))
      | CUR_ORDER \<Rightarrow>
          (case dtls13EncryptEpoch (epochs ssl) of
             None \<Rightarrow> (BAD_STATE_E, None, ssl)
           | Some i \<Rightarrow>
               (let e = dtls13Epochs (epochs ssl) ! i;
                    s = nextSeqNumber e;
                    r = (w64GetHigh32 s, w64GetLow32 s)
                in if increment
                   then (let s' = w64Increment s; ssl = set_epoch i (e\<lparr>nextSeqNumber := s'\<rparr>) ssl
                         in if w64IsZero s' then (BAD_STATE_E, Some r, ssl) else (RC_OK, Some r, ssl))
                   else (RC_OK, Some r, ssl)))
      | OTHER_ORDER \<Rightarrow> (BAD_FUNC_ARG, None, ssl))"

definition EE_MASK :: u32 where [simp]: "EE_MASK = 3"

definition Dtls13GetEpochBits :: "u64 \<Rightarrow> u8" where
  "Dtls13GetEpochBits n = ucast (w64GetLow32 n AND EE_MASK)"

fun epoch_scan :: "u8 \<Rightarrow> Dtls13Epoch list \<Rightarrow> u64 option \<Rightarrow> u64 option" where
  "epoch_scan bits [] best = best"
| "epoch_scan bits (e # es) best =
     (if \<not> isValid e then epoch_scan bits es best
      else if Dtls13GetEpochBits (epochNumber e) \<noteq> bits then epoch_scan bits es best
      else if w64GT (epochNumber e) (case best of None \<Rightarrow> 0 | Some b \<Rightarrow> b)
      then epoch_scan bits es (Some (epochNumber e)) else epoch_scan bits es best)"

definition Dtls13ReconstructEpochNumber :: "u8 \<Rightarrow> Epochs \<Rightarrow> wolf_rc + u64" where
  "Dtls13ReconstructEpochNumber bits E =
     (if Dtls13GetEpochBits (dtls13PeerEpoch E) = bits then Inr (dtls13PeerEpoch E)
      else (case epoch_scan bits (dtls13Epochs E) None of Some n \<Rightarrow> Inr n | None \<Rightarrow> Inl SEQUENCE_ERROR))"

section \<open>The replay window of the connection\<close>

definition Dtls13CheckWindow :: "WOLFSSL \<Rightarrow> bool" where
  "Dtls13CheckWindow ssl =
     (case dtls13DecryptEpoch (epochs ssl) of
        None \<Rightarrow> False
      | Some i \<Rightarrow>
          (let e = dtls13Epochs (epochs ssl) ! i
           in check_window (nextPeerSeqNumber e) (window e) (curSeq (keys ssl))))"

definition Dtls13UpdateWindow :: "WOLFSSL \<Rightarrow> wolf_rc \<times> WOLFSSL" where
  "Dtls13UpdateWindow ssl =
     (case dtls13DecryptEpoch (epochs ssl) of
        None \<Rightarrow> (BAD_STATE_E, ssl)
      | Some d \<Rightarrow>
          (case (if \<not> w64Equal (curEpoch64 (keys ssl)) (epochNumber (dtls13Epochs (epochs ssl) ! d))
                 then Dtls13GetEpoch (curEpoch64 (keys ssl)) (epochs ssl) else Some d) of
             None \<Rightarrow> (BAD_STATE_E, ssl)
           | Some i \<Rightarrow>
               (let e = dtls13Epochs (epochs ssl) ! i in
                case update_window (nextPeerSeqNumber e) (window e) (curSeq (keys ssl)) of
                  None \<Rightarrow> (BAD_STATE_E, ssl)
                | Some (n, w) \<Rightarrow> (RC_OK, set_epoch i (e\<lparr>nextPeerSeqNumber := n, window := w\<rparr>) ssl))))"

section \<open>Message epochs and AEAD limits\<close>

definition Dtls13CheckEpoch :: "HandShakeType \<Rightarrow> WOLFSSL \<Rightarrow> wolf_rc" where
  "Dtls13CheckEpoch type ssl =
     (let plainEpoch = w64From32 0 0;
          hsEpoch = w64From32 0 DTLS13_EPOCH_HANDSHAKE;
          t0Epoch = w64From32 0 DTLS13_EPOCH_TRAFFIC0;
          cur = curEpoch64 (keys ssl);
          opts = options ssl;
          handshake_epoch =
            (if \<not> w64Equal cur hsEpoch
             then (if opt_side opts = WOLFSSL_CLIENT_END \<and> serverState opts < SERVER_HELLO_COMPLETE
                   then (if \<not> w64Equal cur plainEpoch then SANITY_MSG_E else RC_OK)
                   else SANITY_MSG_E)
             else RC_OK)
      in if \<not> tls1_3 opts then RC_OK
         else if type \<in> {client_hello, server_hello, hello_verify_request, hello_retry_request, hello_request}
         then (if \<not> w64Equal cur plainEpoch then SANITY_MSG_E else RC_OK)
         else if type \<in> {encrypted_extensions, server_key_exchange, server_hello_done, client_key_exchange}
         then handshake_epoch
         else if type \<in> {certificate_request, certificate, certificate_verify, finished}
         then (if \<not> handShakeDone opts then handshake_epoch
               else if \<not> w64GTE cur hsEpoch then SANITY_MSG_E else RC_OK)
         else if type \<in> {certificate_status, change_cipher_hs, key_update, session_ticket}
         then (if \<not> w64GTE cur t0Epoch then SANITY_MSG_E else RC_OK)
         else SANITY_MSG_E)"

definition DTLS_AEAD_AES_GCM_CHACHA_FAIL_LIMIT :: u64 where
  "DTLS_AEAD_AES_GCM_CHACHA_FAIL_LIMIT = w64From32 8 0"

definition DTLS_AEAD_AES_GCM_CHACHA_FAIL_KU_LIMIT :: u64 where
  "DTLS_AEAD_AES_GCM_CHACHA_FAIL_KU_LIMIT = w64From32 4 0"

definition Dtls13CheckAEADFailLimit :: "WOLFSSL \<Rightarrow> wolf_rc \<times> WOLFSSL" where
  "Dtls13CheckAEADFailLimit ssl =
     (case bulk_cipher_algorithm (options ssl) of
        wolfssl_cipher_null \<Rightarrow> (RC_OK, ssl)
      | wolfssl_aes_ccm \<Rightarrow> (DECRYPT_ERROR, ssl)
      | other_cipher \<Rightarrow> (DECRYPT_ERROR, ssl)
      | _ \<Rightarrow>
          (case dtls13DecryptEpoch (epochs ssl) of
             None \<Rightarrow> (BAD_STATE_E, ssl)
           | Some i \<Rightarrow>
               (let e = dtls13Epochs (epochs ssl) ! i;
                    e = e\<lparr>dropCount := w64Increment (dropCount e)\<rparr>;
                    ssl = set_epoch i e ssl
                in if w64GT (dropCount e) DTLS_AEAD_AES_GCM_CHACHA_FAIL_LIMIT then (DECRYPT_ERROR, ssl)
                   else if w64GT (dropCount e) DTLS_AEAD_AES_GCM_CHACHA_FAIL_KU_LIMIT
                   then (RC_OK,
                         if updateResponseReq (keys ssl) then ssl
                         else ssl\<lparr>flags := (flags ssl)\<lparr>dtls13DoKeyUpdate := True\<rparr>,
                                  epochs := (epochs ssl)\<lparr>dtls13InvalidateBefore :=
                                     w64Increment (dtls13PeerEpoch (epochs ssl))\<rparr>\<rparr>)
                   else (RC_OK, ssl))))"

section \<open>A fresh connection\<close>

text \<open>A client connection as \<open>wolfSSL_new\<close> leaves it: epoch 0 is open in both directions.\<close>

definition fresh_ssl :: WOLFSSL where
  "fresh_ssl = \<lparr>
     options = \<lparr>opt_side = WOLFSSL_CLIENT_END, handShakeDone = False, handShakeState = NULL_STATE,
       serverState = NULL_STATE, connectState = CONNECT_BEGIN, acceptState = 0, seenUnifiedHdr = False,
       dtls13SendMoreAcks = False, groupMessages = True, buildingMsg = False, dtlsStateful = True,
       dtls13ChFrag = False, downgradeTo12 = False, tls1_3 = True, encryptionOn = False,
       bulk_cipher_algorithm = wolfssl_aes_gcm\<rparr>,
     keys = \<lparr>k_client = \<lparr>write_key = [1], write_IV = [2], sn_key = [3]\<rparr>,
       k_server = \<lparr>write_key = [4], write_IV = [5], sn_key = [6]\<rparr>,
       k_aead_enc_imp_IV = [7], k_aead_dec_imp_IV = [8], dtls_handshake_number = 0,
       dtls_peer_handshake_number = 0, dtls_expected_peer_handshake_number = 0, curEpoch64 = 0,
       curSeq = 0, padSz = 0, updateResponseReq = False\<rparr>,
     epochs = \<lparr>dtls13Epochs =
         [zero_epoch\<lparr>isValid := True, e_side := ENCRYPT_AND_DECRYPT_SIDE\<rparr>, zero_epoch, zero_epoch, zero_epoch],
       dtls13EncryptEpoch = Some 0, dtls13DecryptEpoch = Some 0, dtls13Epoch = 0, dtls13PeerEpoch = 0,
       dtls13InvalidateBefore = 0, rnEncryptKey = None, rnDecryptKey = None,
       encrypt_aes = None, decrypt_aes = None\<rparr>,
     dtls13Rtx = \<lparr>rtxRecords = [], seenRecords = [], sendAcks = False, retransmit = False\<rparr>,
     dtls_rx_msg_list = [], dtls_rx_msg_list_sz = 0,
     frag = \<lparr>dtls13SendingFragments = False, dtls13FragmentsBuffer = [], dtls13MessageLength = 0,
       dtls13FragOffset = 0, dtls13FragHandshakeType = no_shake\<rparr>,
     dtls13ClientHello = None,
     timers = \<lparr>dtls13FastTimeout = False, dtls_timeout = 1, dtls_timeout_init = 1, dtls_timeout_max = 64\<rparr>,
     flags = \<lparr>dtls13WaitKeyUpdateAck = False, dtls13DoKeyUpdate = False, dtls13SendingAckOrRtx = False,
       encrypt_nonce = False, decrypt_nonce = False, encrypt_setup = False, decrypt_setup = False\<rparr>,
     dtlsMtuSz = 1400,
     outbuf = \<lparr>out_pending = [], out_idx = 0, out_bufferSize = 5, out_dynamic = False, cbio_sent = [], wire = []\<rparr>,
     transcript = [], heap_left = 1000\<rparr>"

section \<open>The epoch array\<close>

text \<open>Four slots, and no two valid ones for the same epoch.\<close>

definition epochs_wf :: "Epochs \<Rightarrow> bool" where
  "epochs_wf E \<longleftrightarrow> length (dtls13Epochs E) = DTLS13_EPOCH_SIZE \<and>
     (\<forall>i<DTLS13_EPOCH_SIZE. isValid (dtls13Epochs E ! i) \<longrightarrow>
        epochNumber (dtls13Epochs E ! i) \<noteq> -1 \<and>
        (\<forall>j<DTLS13_EPOCH_SIZE. isValid (dtls13Epochs E ! j) \<longrightarrow>
           epochNumber (dtls13Epochs E ! i) = epochNumber (dtls13Epochs E ! j) \<longrightarrow> i = j))"

lemma fresh_ssl_wf: "epochs_wf (epochs fresh_ssl)"
  by (auto simp: epochs_wf_def fresh_ssl_def zero_epoch_def less_Suc_eq numeral_eq_Suc)

lemma find_index_Some:
  "find_index P xs = Some i \<Longrightarrow> i < length xs \<and> P (xs ! i) \<and> (\<forall>j<i. \<not> P (xs ! j))"
proof (induction P xs arbitrary: i rule: find_index.induct)
  case (2 P x xs)
  then show ?case by (auto split: if_splits simp: less_Suc_eq_0_disj)
qed simp

lemma find_index_None: "find_index P xs = None \<longleftrightarrow> (\<forall>x\<in>set xs. \<not> P x)"
  by (induction P xs rule: find_index.induct) auto

lemma find_index_unique:
  assumes "i < length xs" "P (xs ! i)" "\<And>j. j < length xs \<Longrightarrow> P (xs ! j) \<Longrightarrow> j = i"
  shows "find_index P xs = Some i"
proof (cases "find_index P xs")
  case None
  then show ?thesis using assms(1,2) by (auto simp: find_index_None)
next
  case (Some k)
  then show ?thesis using find_index_Some[OF Some] assms(3) by auto
qed

lemma GetEpoch_SomeD:
  "Dtls13GetEpoch n E = Some i \<Longrightarrow>
   i < length (dtls13Epochs E) \<and> isValid (dtls13Epochs E ! i) \<and> epochNumber (dtls13Epochs E ! i) = n"
  by (auto simp: Dtls13GetEpoch_def dest: find_index_Some)

lemma GetEpoch_wf:
  assumes "epochs_wf E" "i < 4" "isValid (dtls13Epochs E ! i)" "epochNumber (dtls13Epochs E ! i) = n"
  shows "Dtls13GetEpoch n E = Some i"
  unfolding Dtls13GetEpoch_def using assms by (intro find_index_unique) (auto simp: epochs_wf_def)

lemma GetEpoch_None:
  "Dtls13GetEpoch n E = None \<Longrightarrow> i < length (dtls13Epochs E) \<Longrightarrow> isValid (dtls13Epochs E ! i) \<Longrightarrow>
   epochNumber (dtls13Epochs E ! i) \<noteq> n"
  by (auto simp: Dtls13GetEpoch_def find_index_None)

lemma slot_search_Some:
  assumes "slot_search E es i old = Some (j, free)"
  shows "if free then i \<le> j \<and> j < i + length es \<and> \<not> isValid (es ! (j - i))
         else (\<forall>e\<in>set es. isValid e) \<and> (old = Some j \<or> (i \<le> j \<and> j < i + length es \<and> evictable E (es ! (j - i))))"
  using assms
proof (induction E es i old rule: slot_search.induct)
  case (2 E e es i old)
  show ?case
  proof (cases "isValid e")
    case True
    with "2.prems" have s: "slot_search E es (Suc i) (if evictable E e then Some i else old) = Some (j, free)"
      by simp
    have *: "Suc i \<le> j \<Longrightarrow> (e # es) ! (j - i) = es ! (j - Suc i)" by (simp add: nth_Cons')
    show ?thesis using "2.IH"[OF _ s] True * by (auto split: if_splits)
  next
    case False
    with "2.prems" show ?thesis by auto
  qed
qed auto

lemma slot_search_None:
  "slot_search E es i old = None \<longleftrightarrow> old = None \<and> (\<forall>e\<in>set es. isValid e \<and> \<not> evictable E e)"
  by (induction E es i old rule: slot_search.induct) auto

text \<open>With two protected epochs and four slots there is always a slot.\<close>

lemma slot_search_total:
  assumes wf: "epochs_wf E"
  shows "slot_search E (dtls13Epochs E) 0 None \<noteq> None"
proof
  assume n: "slot_search E (dtls13Epochs E) 0 None = None"
  let ?num = "\<lambda>i. epochNumber (dtls13Epochs E ! i)"
  have len: "length (dtls13Epochs E) = 4" using wf by (simp add: epochs_wf_def)
  have all: "isValid (dtls13Epochs E ! i) \<and> \<not> evictable E (dtls13Epochs E ! i)" if "i < 4" for i
    using n that len by (auto simp: slot_search_None)
  have "?num i < w64From32 (-1) (-1)" if "i < 4" for i
  proof -
    have "w64From32 (-1) (-1) = (-1 :: u64)" by code_simp
    then show ?thesis using wf all[OF that] that by (auto simp: epochs_wf_def word_order.not_eq_extremum)
  qed
  then have "?num ` {..<4} \<subseteq> {dtls13Epoch E, dtls13PeerEpoch E}"
    using all by (auto simp: evictable_def)
  then have "card (?num ` {..<4}) \<le> card {dtls13Epoch E, dtls13PeerEpoch E}" by (rule card_mono[rotated]) simp
  also have "\<dots> \<le> 2" by (simp add: card_insert_if)
  finally have "card (?num ` {..<4}) \<le> 2" .
  moreover have "inj_on ?num {..<4}" using wf all by (auto simp: inj_on_def epochs_wf_def)
  then have "card (?num ` {..<4}) = 4" by (simp add: card_image)
  ultimately show False by simp
qed

lemma CopyKeys_fields [simp]:
  "epochNumber (Dtls13EpochCopyKeys sd k es e) = epochNumber e"
  "isValid (Dtls13EpochCopyKeys sd k es e) = isValid e"
  "e_side (Dtls13EpochCopyKeys sd k es e) = e_side e"
  "nextSeqNumber (Dtls13EpochCopyKeys sd k es e) = nextSeqNumber e"
  "nextPeerSeqNumber (Dtls13EpochCopyKeys sd k es e) = nextPeerSeqNumber e"
  "window (Dtls13EpochCopyKeys sd k es e) = window e"
  by (simp_all add: Dtls13EpochCopyKeys_def Let_def split_beta)

text \<open>The slot \<open>Dtls13NewEpoch\<close> works on, and the array at that point.\<close>

definition epoch_slot :: "u64 \<Rightarrow> Epochs \<Rightarrow> (nat \<times> Epochs) option" where
  "epoch_slot n E = (case Dtls13GetEpoch n E of Some i \<Rightarrow> Some (i, E) | None \<Rightarrow> Dtls13NewEpochSlot E)"

lemma epoch_slot_spec:
  assumes wf: "epochs_wf E"
  obtains i E1 where "epoch_slot n E = Some (i, E1)" "i < 4"
    "E1 = E \<or> E1 = E\<lparr>dtls13Epochs := (dtls13Epochs E)[i := zero_epoch]\<rparr>"
    "(isValid (dtls13Epochs E1 ! i) \<and> E1 = E \<and> epochNumber (dtls13Epochs E ! i) = n) \<or>
     (\<not> isValid (dtls13Epochs E1 ! i) \<and> Dtls13GetEpoch n E = None \<and>
      (isValid (dtls13Epochs E ! i) \<longrightarrow> evictable E (dtls13Epochs E ! i)))"
proof (cases "Dtls13GetEpoch n E")
  case (Some i)
  have "length (dtls13Epochs E) = 4" using wf by (simp add: epochs_wf_def)
  then show ?thesis
    using that[of i E] GetEpoch_SomeD[OF Some] Some by (auto simp: epoch_slot_def)
next
  case None
  have len: "length (dtls13Epochs E) = 4" using wf by (simp add: epochs_wf_def)
  obtain i free where s: "slot_search E (dtls13Epochs E) 0 None = Some (i, free)"
    using slot_search_total[OF wf] by auto
  note sp = slot_search_Some[OF s]
  show ?thesis
  proof (cases free)
    case True
    then show ?thesis
      using that[of i E] sp s None len by (simp add: epoch_slot_def Dtls13NewEpochSlot_def)
  next
    case False
    let ?E = "E\<lparr>dtls13Epochs := (dtls13Epochs E)[i := zero_epoch]\<rparr>"
    have "\<not> isValid (dtls13Epochs ?E ! i)" using sp False len by (simp add: zero_epoch_def)
    then show ?thesis
      using that[of i ?E] sp False s None len by (simp add: epoch_slot_def Dtls13NewEpochSlot_def)
  qed
qed

definition same_but_side :: "Dtls13Epoch \<Rightarrow> Dtls13Epoch \<Rightarrow> bool" where
  "same_but_side a b \<longleftrightarrow> a\<lparr>e_side := ENCRYPT_SIDE_ONLY\<rparr> = b\<lparr>e_side := ENCRYPT_SIDE_ONLY\<rparr>"

lemma same_but_side_refl [simp]: "same_but_side a a"
  by (simp add: same_but_side_def)

lemma same_but_sideD: "same_but_side a b \<Longrightarrow> isValid a = isValid b \<and> epochNumber a = epochNumber b"
  unfolding same_but_side_def
  by (metis Dtls13Epoch.select_convs(1,10) Dtls13Epoch.surjective Dtls13Epoch.update_convs(11))

text \<open>The entry \<open>Dtls13NewEpoch\<close> writes.\<close>

definition fresh_entry :: "u64 \<Rightarrow> encrypt_side \<Rightarrow> WOLFSSL \<Rightarrow> Dtls13Epoch \<Rightarrow> Dtls13Epoch" where
  "fresh_entry n es ssl old =
     (let e = Dtls13EpochCopyKeys (opt_side (options ssl)) (keys ssl) es old
      in if \<not> isValid e then e\<lparr>epochNumber := n, isValid := True, e_side := es\<rparr>
         else if e_side e \<noteq> es then e\<lparr>e_side := ENCRYPT_AND_DECRYPT_SIDE\<rparr> else e)"

lemma fresh_entry_valid:
  "isValid (fresh_entry n es ssl old)"
  "epochNumber (fresh_entry n es ssl old) = (if isValid old then epochNumber old else n)"
  by (simp_all add: fresh_entry_def Let_def)

lemma NewEpoch_result:
  assumes wf: "epochs_wf (epochs ssl)"
  obtains i E1 E' where "epoch_slot n (epochs ssl) = Some (i, E1)"
    "Dtls13NewEpoch n es ssl = (RC_OK, ssl\<lparr>epochs := E'\<rparr>)"
    "length (dtls13Epochs E') = length (dtls13Epochs E1)"
    "dtls13Epoch E' = dtls13Epoch E1" "dtls13PeerEpoch E' = dtls13PeerEpoch E1"
    "\<And>j. j < length (dtls13Epochs E1) \<Longrightarrow>
       same_but_side (dtls13Epochs E' ! j)
         ((dtls13Epochs E1)[i := fresh_entry n es ssl (dtls13Epochs E1 ! i)] ! j)"
proof -
  obtain i E1 where s: "epoch_slot n (epochs ssl) = Some (i, E1)"
    using epoch_slot_spec[OF wf] by metis
  define e where "e = fresh_entry n es ssl (dtls13Epochs E1 ! i)"
  define E2 where "E2 = E1\<lparr>dtls13Epochs := (dtls13Epochs E1)[i := e]\<rparr>"
  define E' where "E' = (if handShakeDone (options ssl) \<and>
      (e_side e = ENCRYPT_AND_DECRYPT_SIDE \<or> e_side e = DECRYPT_SIDE_ONLY)
      then Dtls13SetOlderEpochSide (w64Decrement n) ENCRYPT_SIDE_ONLY E2 else E2)"
  have "Dtls13NewEpoch n es ssl = (RC_OK, ssl\<lparr>epochs := E'\<rparr>)"
    using s unfolding Dtls13NewEpoch_def epoch_slot_def[symmetric] Let_def E'_def E2_def e_def fresh_entry_def
    by simp
  moreover have "same_but_side (dtls13Epochs E' ! j) ((dtls13Epochs E1)[i := e] ! j)"
    if "j < length (dtls13Epochs E1)" for j
    using that by (auto simp: E'_def E2_def Dtls13SetOlderEpochSide_def same_but_side_def)
  ultimately show ?thesis
    using that[OF s, of E'] s unfolding e_def by (simp add: E'_def E2_def Dtls13SetOlderEpochSide_def)
qed

text \<open>An epoch number that is the sending or the receiving epoch.\<close>

definition in_use :: "Epochs \<Rightarrow> u64 \<Rightarrow> bool" where
  "in_use E m \<longleftrightarrow> m = dtls13Epoch E \<or> m = dtls13PeerEpoch E"

lemma NewEpoch_spec:
  assumes wf: "epochs_wf (epochs ssl)" and n: "n \<noteq> -1"
  shows "\<exists>ssl' i. Dtls13NewEpoch n es ssl = (RC_OK, ssl') \<and> epochs_wf (epochs ssl') \<and>
    Dtls13GetEpoch n (epochs ssl') = Some i \<and>
    (\<forall>m j. m \<noteq> n \<longrightarrow> in_use (epochs ssl) m \<longrightarrow> Dtls13GetEpoch m (epochs ssl) = Some j \<longrightarrow>
       Dtls13GetEpoch m (epochs ssl') = Some j \<and>
       same_but_side (dtls13Epochs (epochs ssl') ! j) (dtls13Epochs (epochs ssl) ! j))"
proof -
  let ?E = "epochs ssl"
  have len: "length (dtls13Epochs ?E) = 4" using wf by (simp add: epochs_wf_def)
  obtain i E1 E' where s: "epoch_slot n ?E = Some (i, E1)"
    and r: "Dtls13NewEpoch n es ssl = (RC_OK, ssl\<lparr>epochs := E'\<rparr>)"
    and l: "length (dtls13Epochs E') = length (dtls13Epochs E1)"
    and sm: "\<And>j. j < length (dtls13Epochs E1) \<Longrightarrow> same_but_side (dtls13Epochs E' ! j)
         ((dtls13Epochs E1)[i := fresh_entry n es ssl (dtls13Epochs E1 ! i)] ! j)"
    using NewEpoch_result[OF wf, of n es] by metis
  obtain "i < 4" and E1: "E1 = ?E \<or> E1 = ?E\<lparr>dtls13Epochs := (dtls13Epochs ?E)[i := zero_epoch]\<rparr>"
    and slot: "(isValid (dtls13Epochs E1 ! i) \<and> E1 = ?E \<and> epochNumber (dtls13Epochs ?E ! i) = n) \<or>
     (\<not> isValid (dtls13Epochs E1 ! i) \<and> Dtls13GetEpoch n ?E = None \<and>
      (isValid (dtls13Epochs ?E ! i) \<longrightarrow> evictable ?E (dtls13Epochs ?E ! i)))"
    using epoch_slot_spec[OF wf, of n] s by (metis option.inject prod.inject)
  have len1: "length (dtls13Epochs E1) = 4" using E1 len by auto
  have other: "same_but_side (dtls13Epochs E' ! j) (dtls13Epochs ?E ! j)" if "j < 4" "j \<noteq> i" for j
    using sm[of j] that E1 len1 by auto
  have at_i: "isValid (dtls13Epochs E' ! i) \<and> epochNumber (dtls13Epochs E' ! i) = n"
    using same_but_sideD[OF sm[of i]] \<open>i < 4\<close> len1 slot fresh_entry_valid[of n es ssl "dtls13Epochs E1 ! i"] by auto
  have not_n: "epochNumber (dtls13Epochs ?E ! j) \<noteq> n" if "j < 4" "j \<noteq> i" "isValid (dtls13Epochs ?E ! j)" for j
    using slot wf that GetEpoch_None[of n ?E j] len \<open>i < 4\<close> unfolding epochs_wf_def by auto
  have wf': "epochs_wf E'"
    unfolding epochs_wf_def
  proof (intro conjI allI impI)
    show "length (dtls13Epochs E') = DTLS13_EPOCH_SIZE" using l len1 by simp
  next
    fix a assume a: "a < DTLS13_EPOCH_SIZE" "isValid (dtls13Epochs E' ! a)"
    show "epochNumber (dtls13Epochs E' ! a) \<noteq> -1"
      using a at_i n same_but_sideD[OF other[of a]] wf by (cases "a = i") (auto simp: epochs_wf_def)
    fix b assume b: "b < DTLS13_EPOCH_SIZE" "isValid (dtls13Epochs E' ! b)"
      "epochNumber (dtls13Epochs E' ! a) = epochNumber (dtls13Epochs E' ! b)"
    show "a = b"
      using a b at_i not_n[of a] not_n[of b] same_but_sideD[OF other[of a]] same_but_sideD[OF other[of b]] wf
      by (cases "a = i"; cases "b = i") (auto simp: epochs_wf_def)
  qed
  have keep: "Dtls13GetEpoch m E' = Some j \<and> same_but_side (dtls13Epochs E' ! j) (dtls13Epochs ?E ! j)"
    if "m \<noteq> n" "in_use ?E m" "Dtls13GetEpoch m ?E = Some j" for m j
  proof -
    have j: "j < 4" "isValid (dtls13Epochs ?E ! j)" "epochNumber (dtls13Epochs ?E ! j) = m"
      using GetEpoch_SomeD[OF that(3)] len by auto
    have "j \<noteq> i"
      using j slot that(1,2) by (auto simp: evictable_def in_use_def)
    then show ?thesis
      using other[OF j(1)] same_but_sideD[OF other[OF j(1)]] j GetEpoch_wf[OF wf'] by auto
  qed
  show ?thesis
    using r wf' keep GetEpoch_wf[OF wf' \<open>i < 4\<close>] at_i by fastforce
qed

section \<open>Keys of an epoch\<close>

text \<open>The entry holds the keys of the connection for the directions of the given side.\<close>

definition holds_keys :: "side \<Rightarrow> encrypt_side \<Rightarrow> Keys \<Rightarrow> Dtls13Epoch \<Rightarrow> bool" where
  "holds_keys sd es k e \<longleftrightarrow>
     (let (clientWrite, serverWrite, enc, dec) = side_flags sd es in
      (clientWrite \<longrightarrow> e_client e = k_client k) \<and> (serverWrite \<longrightarrow> e_server e = k_server k) \<and>
      (enc \<longrightarrow> e_aead_enc_imp_IV e = k_aead_enc_imp_IV k) \<and> (dec \<longrightarrow> e_aead_dec_imp_IV e = k_aead_dec_imp_IV k))"

text \<open>
  The connection uses these keys: its key fields, the key of the cipher object and the implicit IV of
  every direction of the side.
\<close>

definition keys_installed :: "side \<Rightarrow> encrypt_side \<Rightarrow> Keys \<Rightarrow> WOLFSSL \<Rightarrow> bool" where
  "keys_installed sd es k ssl \<longleftrightarrow>
     (es \<noteq> DECRYPT_SIDE_ONLY \<longrightarrow> own_keys sd (keys ssl) = own_keys sd k \<and>
        encrypt_aes (epochs ssl) = Some (write_key (own_keys sd k)) \<and>
        k_aead_enc_imp_IV (keys ssl) = take AEAD_MAX_IMP_SZ (write_IV (own_keys sd k))) \<and>
     (es \<noteq> ENCRYPT_SIDE_ONLY \<longrightarrow> peer_keys sd (keys ssl) = peer_keys sd k \<and>
        decrypt_aes (epochs ssl) = Some (write_key (peer_keys sd k)) \<and>
        k_aead_dec_imp_IV (keys ssl) = take AEAD_MAX_IMP_SZ (write_IV (peer_keys sd k)))"

lemma CopyKeys_holds: "holds_keys sd es k (Dtls13EpochCopyKeys sd k es e)"
  by (cases es; cases sd) (simp_all add: holds_keys_def Dtls13EpochCopyKeys_def side_flags_def)

lemma fresh_entry_holds: "holds_keys (opt_side (options ssl)) es (keys ssl) (fresh_entry n es ssl old)"
  using CopyKeys_holds[of "opt_side (options ssl)" es "keys ssl" old]
  by (simp add: fresh_entry_def Let_def holds_keys_def split_beta)

lemma holds_keys_side: "same_but_side a b \<Longrightarrow> holds_keys sd es k b \<Longrightarrow> holds_keys sd es k a"
  unfolding same_but_side_def holds_keys_def
  by (cases a; cases b) (simp add: split_beta Let_def)

lemma fresh_entry_side: "e_side (fresh_entry n es ssl old) = es \<or> e_side (fresh_entry n es ssl old) = ENCRYPT_AND_DECRYPT_SIDE"
  by (simp add: fresh_entry_def Let_def)

lemma NewEpoch_entry:
  assumes wf: "epochs_wf (epochs ssl)" and n: "n \<noteq> -1" "n \<noteq> 0" and r: "Dtls13NewEpoch n es ssl = (RC_OK, ssl')"
  shows "\<exists>i. Dtls13GetEpoch n (epochs ssl') = Some i \<and>
    (e_side (dtls13Epochs (epochs ssl') ! i) = es \<or> e_side (dtls13Epochs (epochs ssl') ! i) = ENCRYPT_AND_DECRYPT_SIDE) \<and>
    holds_keys (opt_side (options ssl)) es (keys ssl) (dtls13Epochs (epochs ssl') ! i)"
proof -
  obtain i E1 where s: "epoch_slot n (epochs ssl) = Some (i, E1)" and "i < 4"
    and E1: "E1 = epochs ssl \<or> E1 = (epochs ssl)\<lparr>dtls13Epochs := (dtls13Epochs (epochs ssl))[i := zero_epoch]\<rparr>"
    and slot: "(isValid (dtls13Epochs E1 ! i) \<and> E1 = epochs ssl \<and> epochNumber (dtls13Epochs (epochs ssl) ! i) = n) \<or>
     (\<not> isValid (dtls13Epochs E1 ! i) \<and> Dtls13GetEpoch n (epochs ssl) = None \<and>
      (isValid (dtls13Epochs (epochs ssl) ! i) \<longrightarrow> evictable (epochs ssl) (dtls13Epochs (epochs ssl) ! i)))"
    using epoch_slot_spec[OF wf, of n] by metis
  have len1: "length (dtls13Epochs E1) = 4" using E1 wf by (auto simp: epochs_wf_def)
  define e where "e = fresh_entry n es ssl (dtls13Epochs E1 ! i)"
  have num: "epochNumber e = n"
    using slot fresh_entry_valid(2)[of n es ssl "dtls13Epochs E1 ! i"] by (auto simp: e_def)
  have "0 < unat n" using n(2) by (simp add: unat_gt_0)
  then have "\<not> n < n - 1" by (simp add: not_less word_le_nat_alt unat_sub_if_size word_size Suc_le_eq)
  then have at_i: "dtls13Epochs (epochs ssl') ! i = e"
    using r s \<open>i < 4\<close> len1 num
    unfolding Dtls13NewEpoch_def epoch_slot_def[symmetric] Let_def
    by (auto simp: e_def fresh_entry_def Let_def Dtls13SetOlderEpochSide_def)
  obtain i' where g: "epochs_wf (epochs ssl')" "Dtls13GetEpoch n (epochs ssl') = Some i'"
    using NewEpoch_spec[OF wf n(1), of es] r by auto
  have "isValid e" using fresh_entry_valid(1) by (simp add: e_def)
  then have "Dtls13GetEpoch n (epochs ssl') = Some i"
    using GetEpoch_wf[OF g(1) \<open>i < 4\<close>] at_i num by simp
  then show ?thesis
    using at_i fresh_entry_side fresh_entry_holds by (auto simp: e_def)
qed

text \<open>What installing keys leaves alone.\<close>

definition same_epochs :: "WOLFSSL \<Rightarrow> WOLFSSL \<Rightarrow> bool" where
  "same_epochs a b \<longleftrightarrow> options a = options b \<and> dtls13Epochs (epochs a) = dtls13Epochs (epochs b) \<and>
     dtls13EncryptEpoch (epochs a) = dtls13EncryptEpoch (epochs b) \<and>
     dtls13DecryptEpoch (epochs a) = dtls13DecryptEpoch (epochs b)"

lemma InitAesCipher_form:
  "snd (snd (Dtls13InitAesCipher aes_init key c s)) = s \<or>
   snd (snd (Dtls13InitAesCipher aes_init key c s)) = s\<lparr>heap_left := heap_left s - 1\<rparr>"
  by (cases "c = None"; cases "heap_left s = 0") (simp_all add: Dtls13InitAesCipher_def xmalloc_def Let_def)

lemma same_epochs_refl [simp]: "same_epochs a a"
  by (simp add: same_epochs_def)

lemma same_epochs_trans: "same_epochs a b \<Longrightarrow> same_epochs b c \<Longrightarrow> same_epochs a c"
  by (simp add: same_epochs_def)

text \<open>The record number ciphers are apart from everything the bulk ciphers use.\<close>

definition same_bulk :: "WOLFSSL \<Rightarrow> WOLFSSL \<Rightarrow> bool" where
  "same_bulk a b \<longleftrightarrow> same_epochs a b \<and> keys a = keys b \<and>
     encrypt_aes (epochs a) = encrypt_aes (epochs b) \<and> decrypt_aes (epochs a) = decrypt_aes (epochs b)"

lemma same_bulk_trans: "same_bulk a b \<Longrightarrow> same_bulk b c \<Longrightarrow> same_bulk a c"
  by (simp add: same_bulk_def same_epochs_def)

lemma set_rn_keeps: "same_bulk (snd (set_rn_enc aes_init key s)) s" "same_bulk (snd (set_rn_dec aes_init key s)) s"
  using InitAesCipher_form[of aes_init key "rnEncryptKey (epochs s)" s] InitAesCipher_form[of aes_init key "rnDecryptKey (epochs s)" s]
  by (auto simp: set_rn_enc_def set_rn_dec_def split_beta same_bulk_def same_epochs_def)

lemma same_bulk_refl [simp]: "same_bulk s s"
  by (simp add: same_bulk_def)

lemma SetRecordNumberKeys_keeps: "same_bulk (snd (Dtls13SetRecordNumberKeys aes_init es ssl)) ssl"
proof -
  have two: "same_bulk (snd (set_rn_dec f k' (snd (set_rn_enc f k s)))) s" for f k k' s
    using set_rn_keeps same_bulk_trans by blast
  show ?thesis
    unfolding Dtls13SetRecordNumberKeys_def Let_def split_beta
    by (cases es) (simp_all add: set_rn_keeps two)
qed

lemma alloc_enc_keeps: "alloc_enc s = Some s' \<Longrightarrow> same_epochs s' s \<and> keys s' = keys s"
  by (auto simp: alloc_enc_def xmalloc_def same_epochs_def bind_eq_Some_conv split: if_splits)

lemma alloc_dec_keeps: "alloc_dec s = Some s' \<Longrightarrow> same_epochs s' s \<and> keys s' = keys s"
  by (auto simp: alloc_dec_def xmalloc_def same_epochs_def bind_eq_Some_conv split: if_splits)

lemma set_enc_key_effect:
  assumes "set_enc_key gcm_set s = (rc, s')"
  shows "same_epochs s' s" "own_keys sd (keys s') = own_keys sd (keys s)" "peer_keys sd (keys s') = peer_keys sd (keys s)"
    "rc = RC_OK \<Longrightarrow> keys_installed (opt_side (options s)) ENCRYPT_SIDE_ONLY (keys s) s'"
  using assms
  by (auto simp: set_enc_key_def Let_def same_epochs_def own_keys_def peer_keys_def keys_installed_def split: if_splits)

lemma set_dec_key_effect:
  assumes "set_dec_key gcm_set s = (rc, s')"
  shows "same_epochs s' s" "own_keys sd (keys s') = own_keys sd (keys s)"
    "encrypt_aes (epochs s') = encrypt_aes (epochs s)" "k_aead_enc_imp_IV (keys s') = k_aead_enc_imp_IV (keys s)"
    "rc = RC_OK \<Longrightarrow> keys_installed (opt_side (options s)) DECRYPT_SIDE_ONLY (keys s) s'"
  using assms
  by (auto simp: set_dec_key_def Let_def same_epochs_def own_keys_def peer_keys_def keys_installed_def split: if_splits)

lemma keys_installed_both:
  "keys_installed sd ENCRYPT_AND_DECRYPT_SIDE k s \<longleftrightarrow>
   keys_installed sd ENCRYPT_SIDE_ONLY k s \<and> keys_installed sd DECRYPT_SIDE_ONLY k s"
  by (auto simp: keys_installed_def)

text \<open>The stages of \<open>SetKeys\<close> when it succeeds.\<close>

lemma mark_setup_keeps [simp]:
  "keys_installed sd es k (mark_setup enc dec s) = keys_installed sd es k s"
  "same_epochs (mark_setup enc dec s) t = same_epochs s t"
  by (simp_all add: mark_setup_def keys_installed_def same_epochs_def)

lemma SetKeys_installs:
  assumes r: "SetKeys gcm_set es ssl = (RC_OK, ssl')" and gcm: "bulk_cipher_algorithm (options ssl) = wolfssl_aes_gcm"
  shows "keys_installed (opt_side (options ssl)) es (keys ssl) ssl' \<and> same_epochs ssl' ssl"
proof -
  let ?enc = "es \<noteq> DECRYPT_SIDE_ONLY" and ?dec = "es \<noteq> ENCRYPT_SIDE_ONLY"
  obtain s1 where s1: "(if ?enc then alloc_enc ssl else Some ssl) = Some s1"
    using r gcm by (fastforce simp: SetKeys_def Let_def split: option.splits)
  obtain s2 where s2: "(if ?dec then alloc_dec s1 else Some s1) = Some s2"
    using r gcm s1 by (fastforce simp: SetKeys_def Let_def split: option.splits)
  have e2: "same_epochs s2 ssl" "keys s2 = keys ssl"
    using s1 s2 alloc_enc_keeps alloc_dec_keeps same_epochs_trans by (auto split: if_splits; metis)+
  have o2: "options s2 = options ssl" using e2(1) by (simp add: same_epochs_def)
  define rs where "rs = (if ?enc then set_enc_key gcm_set s2 else (RC_OK, s2))"
  define rd where "rd = (if ?dec then set_dec_key gcm_set (snd rs) else (RC_OK, snd rs))"
  define s4 where "s4 = snd rd"
  have run: "SetKeys gcm_set es ssl = (if fst rs \<noteq> RC_OK then rs
      else if fst rd \<noteq> RC_OK then rd else (RC_OK, mark_setup ?enc ?dec (snd rd)))"
    using gcm s1 s2 unfolding SetKeys_def Let_def rd_def rs_def by (simp add: split_beta)
  have ok: "fst rs = RC_OK" "fst rd = RC_OK" and fin2: "ssl' = mark_setup ?enc ?dec s4"
    using r unfolding run s4_def by (auto split: if_splits)
  have fin: "fst rs = RC_OK" "(if ?dec then set_dec_key gcm_set (snd rs) else (RC_OK, snd rs)) = (RC_OK, s4)"
    using ok unfolding rd_def[symmetric] s4_def by (simp_all add: prod_eq_iff)
  have "keys_installed (opt_side (options ssl)) es (keys ssl) s4 \<and> same_epochs s4 ssl"
  proof (cases es)
    case ENCRYPT_SIDE_ONLY
    then have "set_enc_key gcm_set s2 = (RC_OK, s4)" using fin by (simp add: rs_def prod_eq_iff)
    from set_enc_key_effect(1,4)[OF this] show ?thesis
      using ENCRYPT_SIDE_ONLY e2 o2 same_epochs_trans by auto
  next
    case DECRYPT_SIDE_ONLY
    then have "set_dec_key gcm_set s2 = (RC_OK, s4)" using fin by (simp add: rs_def)
    from set_dec_key_effect(1,5)[OF this] show ?thesis
      using DECRYPT_SIDE_ONLY e2 o2 same_epochs_trans by auto
  next
    case ENCRYPT_AND_DECRYPT_SIDE
    obtain s3 where s3: "set_enc_key gcm_set s2 = (RC_OK, s3)" and s': "set_dec_key gcm_set s3 = (RC_OK, s4)"
      using ENCRYPT_AND_DECRYPT_SIDE fin by (cases "set_enc_key gcm_set s2") (simp add: rs_def)
    have o3: "options s3 = options ssl" using set_enc_key_effect(1)[OF s3] o2 by (simp add: same_epochs_def)
    have "keys_installed (opt_side (options ssl)) ENCRYPT_SIDE_ONLY (keys ssl) s3"
      using set_enc_key_effect(4)[OF s3] e2(2) o2 by simp
    then have "keys_installed (opt_side (options ssl)) ENCRYPT_SIDE_ONLY (keys ssl) s4"
      using set_dec_key_effect(2,3,4)[OF s'] by (simp add: keys_installed_def)
    moreover have "keys_installed (opt_side (options ssl)) DECRYPT_SIDE_ONLY (keys ssl) s4"
      using set_dec_key_effect(5)[OF s'] set_enc_key_effect(3)[OF s3] e2(2) o3 by (simp add: keys_installed_def)
    ultimately show ?thesis
      using ENCRYPT_AND_DECRYPT_SIDE set_dec_key_effect(1)[OF s'] set_enc_key_effect(1)[OF s3] e2(1)
        same_epochs_trans keys_installed_both by metis
  qed
  then show ?thesis unfolding fin2 by simp
qed

lemma SetKeysSide_installs:
  assumes "SetKeysSide gcm_set aes_init es ssl = (RC_OK, ssl')" "bulk_cipher_algorithm (options ssl) = wolfssl_aes_gcm"
  shows "keys_installed (opt_side (options ssl)) es (keys ssl) ssl' \<and> same_epochs ssl' ssl"
proof -
  obtain rc s1 where s1: "SetKeys gcm_set es ssl = (rc, s1)" by (cases "SetKeys gcm_set es ssl")
  with assms(1) have ok: "rc = RC_OK" by (auto simp: SetKeysSide_def split: if_splits)
  have s': "ssl' = s1 \<or> ssl' = snd (Dtls13SetRecordNumberKeys aes_init es s1)"
    using assms(1) s1 ok by (auto simp: SetKeysSide_def split: if_splits)
  have "keys_installed (opt_side (options ssl)) es (keys ssl) s1 \<and> same_epochs s1 ssl"
    using SetKeys_installs[of gcm_set es ssl s1] s1 ok assms(2) by simp
  then show ?thesis
    using s' SetRecordNumberKeys_keeps[of aes_init es s1] same_epochs_trans by (auto simp: keys_installed_def same_bulk_def)
qed

lemma keys_installed_cong:
  "(es \<noteq> DECRYPT_SIDE_ONLY \<longrightarrow> own_keys sd k = own_keys sd k') \<Longrightarrow>
   (es \<noteq> ENCRYPT_SIDE_ONLY \<longrightarrow> peer_keys sd k = peer_keys sd k') \<Longrightarrow>
   keys_installed sd es k ssl \<longleftrightarrow> keys_installed sd es k' ssl"
  by (auto simp: keys_installed_def)

lemma SetEpochKeys_install:
  assumes g: "Dtls13GetEpoch n (epochs ssl) = Some i" and n: "n \<noteq> 0"
    and sd: "e_side (dtls13Epochs (epochs ssl) ! i) = es \<or> e_side (dtls13Epochs (epochs ssl) ! i) = ENCRYPT_AND_DECRYPT_SIDE"
    and h: "holds_keys (opt_side (options ssl)) es k (dtls13Epochs (epochs ssl) ! i)"
    and gcm: "bulk_cipher_algorithm (options ssl) = wolfssl_aes_gcm"
    and r: "Dtls13SetEpochKeys gcm_set aes_init n es ssl = (RC_OK, ssl')"
  shows "keys_installed (opt_side (options ssl)) es k ssl' \<and>
    (es \<noteq> DECRYPT_SIDE_ONLY \<longrightarrow> dtls13EncryptEpoch (epochs ssl') = Some i) \<and>
    (es \<noteq> ENCRYPT_SIDE_ONLY \<longrightarrow> dtls13DecryptEpoch (epochs ssl') = Some i)"
proof -
  define sd where "sd = opt_side (options ssl)"
  obtain s0 where s0: "SetKeysSide gcm_set aes_init es s0 = (RC_OK, ssl')" "options s0 = options ssl"
    and p: "es \<noteq> DECRYPT_SIDE_ONLY \<longrightarrow> dtls13EncryptEpoch (epochs s0) = Some i"
      "es \<noteq> ENCRYPT_SIDE_ONLY \<longrightarrow> dtls13DecryptEpoch (epochs s0) = Some i"
    and k: "es \<noteq> DECRYPT_SIDE_ONLY \<longrightarrow> own_keys sd (keys s0) = own_keys sd k"
      "es \<noteq> ENCRYPT_SIDE_ONLY \<longrightarrow> peer_keys sd (keys s0) = peer_keys sd k"
    using r g n sd h unfolding Dtls13SetEpochKeys_def Let_def sd_def
    by (cases es; cases "opt_side (options ssl)")
      (auto simp: side_flags_def holds_keys_def own_keys_def peer_keys_def)
  have ki: "keys_installed sd es (keys s0) ssl' \<and> same_epochs ssl' s0"
    using SetKeysSide_installs[OF s0(1)] gcm s0(2) by (simp add: sd_def)
  moreover have "keys_installed sd es (keys s0) ssl' \<longleftrightarrow> keys_installed sd es k ssl'"
    using k by (rule keys_installed_cong)
  ultimately show ?thesis using p by (simp add: same_epochs_def sd_def)
qed

section \<open>Sequence numbers are used once\<close>

text \<open>The numbers handed out by a series of calls, until one fails.\<close>

fun take_seqs :: "nat \<Rightarrow> WOLFSSL \<Rightarrow> (u32 \<times> u32) list \<times> WOLFSSL" where
  "take_seqs 0 ssl = ([], ssl)"
| "take_seqs (Suc k) ssl =
     (case Dtls13GetSeq CUR_ORDER True ssl of
        (RC_OK, Some s, ssl') \<Rightarrow> (let (ss, ssl'') = take_seqs k ssl' in (s # ss, ssl''))
      | (_, _, ssl') \<Rightarrow> ([], ssl'))"

lemma GetSeq_cur:
  assumes "dtls13EncryptEpoch (epochs ssl) = Some i" "i < length (dtls13Epochs (epochs ssl))"
  shows "\<exists>ssl'. Dtls13GetSeq CUR_ORDER True ssl =
      (if nextSeqNumber (dtls13Epochs (epochs ssl) ! i) = -1 then BAD_STATE_E else RC_OK,
       Some (w64GetHigh32 (nextSeqNumber (dtls13Epochs (epochs ssl) ! i)),
             w64GetLow32 (nextSeqNumber (dtls13Epochs (epochs ssl) ! i))), ssl') \<and>
    dtls13EncryptEpoch (epochs ssl') = Some i \<and> i < length (dtls13Epochs (epochs ssl')) \<and>
    nextSeqNumber (dtls13Epochs (epochs ssl') ! i) = nextSeqNumber (dtls13Epochs (epochs ssl) ! i) + 1"
proof -
  have "x + 1 = 0 \<longleftrightarrow> x = -1" for x :: u64 by (simp add: eq_neg_iff_add_eq_0)
  then show ?thesis using assms by (simp add: Dtls13GetSeq_def Let_def set_epoch_def)
qed

lemma take_seqs_spec:
  assumes "dtls13EncryptEpoch (epochs ssl) = Some i" "i < length (dtls13Epochs (epochs ssl))"
  shows "\<exists>m\<le>k. unat (nextSeqNumber (dtls13Epochs (epochs ssl) ! i)) + m < 2 ^ 64 \<and>
    map (\<lambda>(hi, lo). unat (w64From32 hi lo)) (fst (take_seqs k ssl)) =
      [unat (nextSeqNumber (dtls13Epochs (epochs ssl) ! i)) ..< unat (nextSeqNumber (dtls13Epochs (epochs ssl) ! i)) + m] \<and>
    (m < k \<longrightarrow> unat (nextSeqNumber (dtls13Epochs (epochs ssl) ! i)) + m = 2 ^ 64 - 1)"
  using assms
proof (induction k arbitrary: ssl)
  case 0
  then show ?case using unat_lt_pow[of "nextSeqNumber (dtls13Epochs (epochs ssl) ! i)"] by simp
next
  case (Suc k)
  let ?n = "nextSeqNumber (dtls13Epochs (epochs ssl) ! i)"
  obtain ssl' where r: "Dtls13GetSeq CUR_ORDER True ssl =
      (if ?n = -1 then BAD_STATE_E else RC_OK, Some (w64GetHigh32 ?n, w64GetLow32 ?n), ssl')"
    and s': "dtls13EncryptEpoch (epochs ssl') = Some i" "i < length (dtls13Epochs (epochs ssl'))"
    "nextSeqNumber (dtls13Epochs (epochs ssl') ! i) = ?n + 1"
    using GetSeq_cur[OF Suc.prems] by blast
  show ?case
  proof (cases "?n = -1")
    case True
    then have "unat ?n = 2 ^ 64 - 1" by (simp add: unsigned_minus_1_eq_mask mask_eq_exp_minus_1)
    then show ?thesis using True r by (intro exI[of _ 0]) simp
  next
    case False
    have u: "unat (?n + 1) = Suc (unat ?n)" using False by (rule unat_Suc64)
    obtain m where m: "m \<le> k" "Suc (unat ?n) + m < 2 ^ 64"
      "map (\<lambda>(hi, lo). unat (w64From32 hi lo)) (fst (take_seqs k ssl')) = [Suc (unat ?n)..<Suc (unat ?n) + m]"
      "m < k \<longrightarrow> Suc (unat ?n) + m = 2 ^ 64 - 1"
      using Suc.IH[OF s'(1,2)] unfolding s'(3) u by auto
    have up: "[unat ?n..<unat ?n + Suc m] = unat ?n # [Suc (unat ?n)..<Suc (unat ?n) + m]"
      by (simp add: upt_conv_Cons del: upt_Suc)
    have e: "fst (take_seqs (Suc k) ssl) = (w64GetHigh32 ?n, w64GetLow32 ?n) # fst (take_seqs k ssl')"
      using r False by (simp add: split_beta Let_def)
    show ?thesis
      unfolding e list.map prod.case w64_split m(3)
      using m up by (intro exI[of _ "Suc m"]) simp
  qed
qed

section \<open>Properties\<close>

text \<open>
  C30. Opening an epoch never fails and never disturbs the epochs in use: with a well-formed array the
  call succeeds, the new epoch is found afterwards, the array stays well formed, and the sending and
  receiving epochs keep their slot, keys, sequence numbers and replay window (only their direction
  mark may change).
\<close>

theorem NewEpoch_safe:
  assumes "epochs_wf (epochs ssl)" "n \<noteq> -1"
  shows "\<exists>ssl' i. Dtls13NewEpoch n es ssl = (RC_OK, ssl') \<and> epochs_wf (epochs ssl') \<and>
    Dtls13GetEpoch n (epochs ssl') = Some i \<and>
    (\<forall>m j. m \<noteq> n \<longrightarrow> in_use (epochs ssl) m \<longrightarrow> Dtls13GetEpoch m (epochs ssl) = Some j \<longrightarrow>
       Dtls13GetEpoch m (epochs ssl') = Some j \<and>
       same_but_side (dtls13Epochs (epochs ssl') ! j) (dtls13Epochs (epochs ssl) ! j))"
  using assms by (rule NewEpoch_spec)

theorem NewEpoch_safe_witness:
  "\<exists>ssl' i. Dtls13NewEpoch 2 ENCRYPT_AND_DECRYPT_SIDE fresh_ssl = (RC_OK, ssl') \<and>
     Dtls13GetEpoch 2 (epochs ssl') = Some i \<and> Dtls13GetEpoch 0 (epochs ssl') = Some 0"
proof -
  have "in_use (epochs fresh_ssl) 0" "Dtls13GetEpoch 0 (epochs fresh_ssl) = Some 0"
    by (simp_all add: in_use_def fresh_ssl_def Dtls13GetEpoch_def zero_epoch_def)
  then show ?thesis using NewEpoch_safe[OF fresh_ssl_wf, of 2 ENCRYPT_AND_DECRYPT_SIDE] by fastforce
qed

text \<open>
  C29. Keys survive in their epoch: the key material that was current when an epoch was opened is what
  \<open>Dtls13SetEpochKeys\<close> puts back, in the key fields, in the AES-GCM objects and in the implicit IVs,
  whatever the connection's keys were in between, and the encryption or decryption pointer then refers
  to that epoch.
\<close>

theorem epoch_keys_roundtrip:
  assumes "epochs_wf (epochs ssl)" "n \<noteq> -1" "n \<noteq> 0"
    and "Dtls13NewEpoch n es ssl = (RC_OK, ssl1)"
    and "bulk_cipher_algorithm (options ssl) = wolfssl_aes_gcm"
    and "Dtls13SetEpochKeys gcm_set aes_init n es (ssl1\<lparr>keys := k\<rparr>) = (RC_OK, ssl2)"
  shows "keys_installed (opt_side (options ssl)) es (keys ssl) ssl2 \<and>
    (es \<noteq> DECRYPT_SIDE_ONLY \<longrightarrow> dtls13EncryptEpoch (epochs ssl2) = Dtls13GetEpoch n (epochs ssl1)) \<and>
    (es \<noteq> ENCRYPT_SIDE_ONLY \<longrightarrow> dtls13DecryptEpoch (epochs ssl2) = Dtls13GetEpoch n (epochs ssl1))"
proof -
  obtain i where i: "Dtls13GetEpoch n (epochs ssl1) = Some i"
    "e_side (dtls13Epochs (epochs ssl1) ! i) = es \<or> e_side (dtls13Epochs (epochs ssl1) ! i) = ENCRYPT_AND_DECRYPT_SIDE"
    "holds_keys (opt_side (options ssl)) es (keys ssl) (dtls13Epochs (epochs ssl1) ! i)"
    using NewEpoch_entry[OF assms(1-4)] by blast
  have "options ssl1 = options ssl"
    using assms(4) NewEpoch_result[OF assms(1), of n es] by (metis WOLFSSL.select_convs(1) WOLFSSL.surjective WOLFSSL.update_convs(3) prod.inject)
  then show ?thesis
    using SetEpochKeys_install[of n "ssl1\<lparr>keys := k\<rparr>" i es "keys ssl"] i assms(3,5,6) by simp
qed

theorem epoch_keys_roundtrip_witness:
  "\<exists>ssl1 ssl2. Dtls13NewEpoch 2 ENCRYPT_AND_DECRYPT_SIDE fresh_ssl = (RC_OK, ssl1) \<and>
     Dtls13SetEpochKeys (\<lambda>key. RC_OK) (\<lambda>key. RC_OK) 2 ENCRYPT_AND_DECRYPT_SIDE
       (ssl1\<lparr>keys := (keys ssl1)\<lparr>k_client := \<lparr>write_key = [], write_IV = [], sn_key = []\<rparr>\<rparr>\<rparr>) = (RC_OK, ssl2) \<and>
     k_client (keys ssl2) = \<lparr>write_key = [1], write_IV = [2], sn_key = [3]\<rparr>"
proof -
  let ?wipe = "\<lambda>s. s\<lparr>keys := (keys s)\<lparr>k_client := \<lparr>write_key = [], write_IV = [], sn_key = []\<rparr>\<rparr>\<rparr>"
  let ?s1 = "snd (Dtls13NewEpoch 2 ENCRYPT_AND_DECRYPT_SIDE fresh_ssl)"
  let ?r = "Dtls13SetEpochKeys (\<lambda>key. RC_OK) (\<lambda>key. RC_OK) 2 ENCRYPT_AND_DECRYPT_SIDE (?wipe ?s1)"
  have 1: "Dtls13NewEpoch 2 ENCRYPT_AND_DECRYPT_SIDE fresh_ssl = (RC_OK, ?s1)" by code_simp
  have 2: "?r = (RC_OK, snd ?r)" by code_simp
  have "keys_installed (opt_side (options fresh_ssl)) ENCRYPT_AND_DECRYPT_SIDE (keys fresh_ssl) (snd ?r)"
    using epoch_keys_roundtrip[OF fresh_ssl_wf _ _ 1 _ 2] by (simp add: fresh_ssl_def)
  then have "k_client (keys (snd ?r)) = k_client (keys fresh_ssl)"
    by (simp add: keys_installed_def own_keys_def fresh_ssl_def)
  then show ?thesis using 1 2 by (auto simp: fresh_ssl_def)
qed

text \<open>
  C28. No sequence number is used twice in an epoch: consecutive calls hand out consecutive numbers
  starting at the epoch's counter, and the calls start to fail instead of wrapping around.
\<close>

theorem GetSeq_no_reuse:
  assumes "dtls13EncryptEpoch (epochs ssl) = Some i" "i < length (dtls13Epochs (epochs ssl))"
  shows "\<exists>m\<le>k. unat (nextSeqNumber (dtls13Epochs (epochs ssl) ! i)) + m < 2 ^ 64 \<and>
    map (\<lambda>(hi, lo). unat (w64From32 hi lo)) (fst (take_seqs k ssl)) =
      [unat (nextSeqNumber (dtls13Epochs (epochs ssl) ! i)) ..< unat (nextSeqNumber (dtls13Epochs (epochs ssl) ! i)) + m] \<and>
    (m < k \<longrightarrow> unat (nextSeqNumber (dtls13Epochs (epochs ssl) ! i)) + m = 2 ^ 64 - 1)"
  using assms by (rule take_seqs_spec)

theorem GetSeq_no_reuse_witness:
  "\<exists>m\<le>3. map (\<lambda>(hi, lo). unat (w64From32 hi lo)) (fst (take_seqs 3 fresh_ssl)) = [0..<m]"
  using GetSeq_no_reuse[of fresh_ssl 0 3] by (auto simp: fresh_ssl_def zero_epoch_def)

text \<open>
  The slot that is given up is the last candidate, not the oldest epoch: \<open>oldestNumber\<close> is never
  lowered in the loop, so with epochs 0, 2, 3 and 4 and epoch 4 in use it is epoch 3 that is lost.
\<close>

theorem NewEpochSlot_not_oldest:
  "Dtls13NewEpochSlot ((epochs fresh_ssl)\<lparr>dtls13Epoch := 4, dtls13PeerEpoch := 4, dtls13Epochs :=
      map (\<lambda>n. zero_epoch\<lparr>isValid := True, epochNumber := n\<rparr>) [0, 2, 3, 4]\<rparr>)
     = Some (2, (epochs fresh_ssl)\<lparr>dtls13Epoch := 4, dtls13PeerEpoch := 4, dtls13Epochs :=
         [zero_epoch\<lparr>isValid := True, epochNumber := 0\<rparr>, zero_epoch\<lparr>isValid := True, epochNumber := 2\<rparr>,
          zero_epoch, zero_epoch\<lparr>isValid := True, epochNumber := 4\<rparr>]\<rparr>)"
  by code_simp

end
