(* ===== verification/Dtls13Record.thy ===== *)
theory Dtls13Record
  imports Dtls13Epoch
begin

text \<open>
  Record and handshake headers of DTLS 1.3 (\<open>src/dtls13.c\<close>) and the header readers of
  \<open>src/internal.c\<close>: the plaintext header, the unified header with its encrypted record number, the
  handshake header, and the reconstruction of the full epoch and sequence number.  The single block
  AES of the record number encryption is the parameter \<open>aes\<close>.
\<close>

section \<open>Constants\<close>

definition DTLS_RECORD_HEADER_SZ :: nat where [simp]: "DTLS_RECORD_HEADER_SZ = 13"
definition DTLS_HANDSHAKE_HEADER_SZ :: nat where [simp]: "DTLS_HANDSHAKE_HEADER_SZ = 12"
definition DTLS13_UNIFIED_HEADER_SIZE :: nat where [simp]: "DTLS13_UNIFIED_HEADER_SIZE = 5"
definition DTLS_UNIFIED_HEADER_MIN_SZ :: nat where [simp]: "DTLS_UNIFIED_HEADER_MIN_SZ = 2"
definition DTLS13_RN_MASK_SIZE :: nat where [simp]: "DTLS13_RN_MASK_SIZE = 16"
definition DTLS13_MIN_CIPHERTEXT :: nat where [simp]: "DTLS13_MIN_CIPHERTEXT = 16"
definition DTLS13_FIXED_BITS_MASK :: u32 where [simp]: "DTLS13_FIXED_BITS_MASK = push_bit 5 0x111"
definition DTLS13_FIXED_BITS :: u8 where [simp]: "DTLS13_FIXED_BITS = push_bit 5 1"
definition DTLS13_SEQ_LEN_BIT :: u8 where [simp]: "DTLS13_SEQ_LEN_BIT = push_bit 3 1"
definition DTLS13_LEN_BIT :: u8 where [simp]: "DTLS13_LEN_BIT = push_bit 2 1"
definition DTLS_MAJOR :: u8 where [simp]: "DTLS_MAJOR = 0xfe"
definition DTLSv1_2_MINOR :: u8 where [simp]: "DTLSv1_2_MINOR = 0xfd"
definition DTLS_BOGUS_MINOR :: u8 where [simp]: "DTLS_BOGUS_MINOR = 0xfe"

text \<open>Content types of the record layer.\<close>

definition change_cipher_spec :: u8 where [simp]: "change_cipher_spec = 20"
definition alert :: u8 where [simp]: "alert = 21"
definition handshake :: u8 where [simp]: "handshake = 22"
definition application_data :: u8 where [simp]: "application_data = 23"
definition ack :: u8 where [simp]: "ack = 26"

section \<open>Writing headers\<close>

definition Dtls13RlAddPlaintextHeader :: "u8 \<Rightarrow> u16 \<Rightarrow> WOLFSSL \<Rightarrow> wolf_rc \<times> bytes \<times> WOLFSSL" where
  "Dtls13RlAddPlaintextHeader content_type len ssl =
     (case Dtls13GetSeq CUR_ORDER True ssl of
        (RC_OK, Some (hi, lo), ssl) \<Rightarrow>
          (RC_OK,
           [content_type, DTLS_MAJOR, DTLSv1_2_MINOR] @ c16toa (ucast (drop_bit 16 hi)) @ c16toa (ucast hi) @
           c32toa lo @ c16toa len, ssl)
      | (rc, _, ssl) \<Rightarrow> (rc, [content_type, DTLS_MAJOR, DTLSv1_2_MINOR], ssl))"

definition Dtls13HandshakeAddHeaderFrag :: "HandShakeType \<Rightarrow> u32 \<Rightarrow> u32 \<Rightarrow> u32 \<Rightarrow> WOLFSSL \<Rightarrow> bytes" where
  "Dtls13HandshakeAddHeaderFrag msg_type frag_offset frag_length msg_length ssl =
     [byte_of_hs msg_type] @ c32to24 msg_length @ c16toa (dtls_handshake_number (keys ssl)) @
     c32to24 frag_offset @ c32to24 frag_length"

definition Dtls13HandshakeAddHeader :: "HandShakeType \<Rightarrow> u32 \<Rightarrow> WOLFSSL \<Rightarrow> bytes" where
  "Dtls13HandshakeAddHeader msg_type len ssl =
     [byte_of_hs msg_type] @ c32to24 len @ c16toa (dtls_handshake_number (keys ssl)) @
     c32to24 0 @ c32to24 len"

definition Dtls13TypeIsEncrypted :: "HandShakeType \<Rightarrow> bool" where
  "Dtls13TypeIsEncrypted t =
     (case t of
        hello_request \<Rightarrow> False
      | hello_verify_request \<Rightarrow> False
      | client_hello \<Rightarrow> False
      | hello_retry_request \<Rightarrow> False
      | server_hello \<Rightarrow> False
      | unknown_hs _ \<Rightarrow> False
      | _ \<Rightarrow> True)"

definition Dtls13GetRlHeaderLength :: "bool \<Rightarrow> nat" where
  "Dtls13GetRlHeaderLength isEncrypted =
     (if \<not> isEncrypted then DTLS_RECORD_HEADER_SZ else DTLS13_UNIFIED_HEADER_SIZE)"

definition Dtls13GetHeadersLength :: "HandShakeType \<Rightarrow> nat" where
  "Dtls13GetHeadersLength t =
     Dtls13GetRlHeaderLength (Dtls13TypeIsEncrypted t) + DTLS_HANDSHAKE_HEADER_SZ"

definition Dtls13MinimumRecordLength :: nat where
  "Dtls13MinimumRecordLength = Dtls13GetRlHeaderLength True + DTLS13_MIN_CIPHERTEXT"

definition Dtls13RlAddCiphertextHeader :: "u16 \<Rightarrow> WOLFSSL \<Rightarrow> wolf_rc + bytes" where
  "Dtls13RlAddCiphertextHeader len ssl =
     (case dtls13EncryptEpoch (epochs ssl) of
        None \<Rightarrow> Inl BAD_STATE_E
      | Some i \<Rightarrow>
          (let e = dtls13Epochs (epochs ssl) ! i;
               flags = DTLS13_FIXED_BITS OR Dtls13GetEpochBits (epochNumber e);
               flags = flags OR DTLS13_SEQ_LEN_BIT;
               flags = flags OR DTLS13_LEN_BIT;
               seqNumber = ucast (w64GetLow32 (nextSeqNumber e))
           in Inr ([flags] @ c16toa seqNumber @ c16toa len)))"

section \<open>Record number encryption\<close>

datatype rnDirection = PROTECT | DEPROTECT

definition Dtls13GetRnMask ::
    "(bytes \<Rightarrow> bytes \<Rightarrow> wolf_rc + bytes) \<Rightarrow> bytes \<Rightarrow> rnDirection \<Rightarrow> WOLFSSL \<Rightarrow> wolf_rc + bytes" where
  "Dtls13GetRnMask aes ciphertext dir ssl =
     (let c = (if dir = PROTECT then rnEncryptKey (epochs ssl) else rnDecryptKey (epochs ssl)) in
      if bulk_cipher_algorithm (options ssl) = wolfssl_aes_gcm \<or>
         bulk_cipher_algorithm (options ssl) = wolfssl_aes_ccm
      then (case c of None \<Rightarrow> Inl BAD_STATE_E | Some key \<Rightarrow> aes key (take DTLS13_RN_MASK_SIZE ciphertext))
      else Inl NOT_COMPILED_IN)"

definition Dtls13EncryptDecryptRecordNumber ::
    "(bytes \<Rightarrow> bytes \<Rightarrow> wolf_rc + bytes) \<Rightarrow> bytes \<Rightarrow> bytes \<Rightarrow> rnDirection \<Rightarrow> WOLFSSL \<Rightarrow> wolf_rc + bytes" where
  "Dtls13EncryptDecryptRecordNumber aes seq ciphertext dir ssl =
     (case Dtls13GetRnMask aes ciphertext dir ssl of
        Inl rc \<Rightarrow> Inl rc
      | Inr msk \<Rightarrow> Inr (map2 (XOR) seq (take (length seq) msk)))"

text \<open>The record \<open>hdr\<close> is the header followed by the ciphertext; \<open>recordLength\<close> is their length.\<close>

definition Dtls13EncryptRecordNumber ::
    "(bytes \<Rightarrow> bytes \<Rightarrow> wolf_rc + bytes) \<Rightarrow> bytes \<Rightarrow> u16 \<Rightarrow> WOLFSSL \<Rightarrow> wolf_rc + bytes" where
  "Dtls13EncryptRecordNumber aes hdr recordLength ssl =
     (if unat recordLength < Dtls13MinimumRecordLength then Inl BUFFER_ERROR
      else
        (let seqLength = (if hdr ! 0 AND DTLS13_LEN_BIT \<noteq> 0 then 2 else 1);
             hdrLength = 1 + seqLength + (if hdr ! 0 AND DTLS13_LEN_BIT \<noteq> 0 then 2 else 0)
         in case Dtls13EncryptDecryptRecordNumber aes (take seqLength (drop 1 hdr)) (drop hdrLength hdr) PROTECT ssl of
              Inl rc \<Rightarrow> Inl rc
            | Inr seq \<Rightarrow> Inr (take 1 hdr @ seq @ drop (1 + seqLength) hdr)))"

section \<open>Reading the unified header\<close>

definition Dtls13IsUnifiedHeader :: "u8 \<Rightarrow> bool" where
  "Dtls13IsUnifiedHeader b =
     (if b = alert \<or> b = handshake \<or> b = ack then False
      else (ucast b AND DTLS13_FIXED_BITS_MASK :: u32) = ucast DTLS13_FIXED_BITS)"

record Dtls13UnifiedHdrInfo =
  recordLength :: u16
  seqLo :: u8
  seqHi :: u8
  seqHiPresent :: bool
  epochBits :: u8

definition Dtls13ReconstructSeqNumber :: "Dtls13UnifiedHdrInfo \<Rightarrow> u64 \<Rightarrow> u64" where
  "Dtls13ReconstructSeqNumber hdrInfo nextPeer =
     (let seqLowBits = (if seqHiPresent hdrInfo then push_bit 8 (ucast (seqHi hdrInfo)) OR ucast (seqLo hdrInfo)
                        else ucast (seqLo hdrInfo) :: u16);
          msk = (if seqHiPresent hdrInfo then 0xffff else 0xff :: u16);
          shift = (if seqHiPresent hdrInfo then push_bit 16 1 else push_bit 8 1 :: u32);
          out32 = w64GetLow32 nextPeer;
          expectedLowBits = ucast (out32 AND ucast msk) :: u16;
          out32 = (out32 AND NOT (ucast msk)) OR ucast seqLowBits;
          out = w64SetLow32 nextPeer out32
      in if expectedLowBits \<le> seqLowBits
         then (if shift div 2 < ucast (seqLowBits - expectedLowBits)
               then (let (temp, wrap) = w64Sub32 out shift in if \<not> wrap then temp else out)
               else out)
         else (if shift div 2 < ucast (expectedLowBits - seqLowBits)
               then (let (temp, wrap) = w64Add32 out shift in if \<not> wrap then temp else out)
               else out))"

definition Dtls13GetUnifiedHeaderSize :: "u8 \<Rightarrow> nat" where
  "Dtls13GetUnifiedHeaderSize fl =
     1 + 1 + (if fl AND DTLS13_SEQ_LEN_BIT \<noteq> 0 then 1 else 0) +
     (if fl AND DTLS13_LEN_BIT \<noteq> 0 then 2 else 0)"

text \<open>
  The parser decrypts the record number in place: it returns the header information and the input with
  the decrypted number.
\<close>

definition Dtls13ParseUnifiedRecordLayer ::
    "(bytes \<Rightarrow> bytes \<Rightarrow> wolf_rc + bytes) \<Rightarrow> bytes \<Rightarrow> u16 \<Rightarrow> WOLFSSL \<Rightarrow> wolf_rc + (Dtls13UnifiedHdrInfo \<times> bytes)" where
  "Dtls13ParseUnifiedRecordLayer aes input inputSize ssl =
     (if unat inputSize < 1 then Inl BAD_FUNC_ARG
      else
        (let flags = input ! 0;
             seqLen = (if flags AND DTLS13_SEQ_LEN_BIT \<noteq> 0 then 2 else 1);
             hasLength = (flags AND DTLS13_LEN_BIT \<noteq> 0);
             ebits = flags AND ucast EE_MASK;
             idx = 1 + seqLen
         in if unat inputSize < idx then Inl BUFFER_ERROR
            else if hasLength \<and> unat inputSize < idx + 2 then Inl BUFFER_ERROR
            else
              (let len = (if hasLength then ato16 (drop idx input) else inputSize - of_nat idx);
                   idx = (if hasLength then idx + 2 else idx);
                   seqs = take seqLen (drop 1 input)
               in case
                    (if bulk_cipher_algorithm (options ssl) \<noteq> wolfssl_cipher_null
                     then (if unat len < DTLS13_RN_MASK_SIZE then Inl LENGTH_ERROR
                           else if unat inputSize < idx + DTLS13_RN_MASK_SIZE then Inl BUFFER_ERROR
                           else Dtls13EncryptDecryptRecordNumber aes seqs (drop idx input) DEPROTECT ssl)
                     else Inr seqs) of
                    Inl rc \<Rightarrow> Inl rc
                  | Inr seqs \<Rightarrow>
                      Inr (\<lparr>recordLength = len,
                            seqLo = (if seqLen = 2 then seqs ! 1 else seqs ! 0),
                            seqHi = (if seqLen = 2 then seqs ! 0 else 0),
                            seqHiPresent = (seqLen = 2), epochBits = ebits\<rparr>,
                           take 1 input @ seqs @ drop (1 + seqLen) input))))"

section \<open>The record header readers of the input path\<close>

record RecordLayerHeader =
  rl_type :: u8
  rl_pvMajor :: u8
  rl_pvMinor :: u8

text \<open>
  \<open>input\<close> is what is left of the datagram.  A reader returns the header, the record size, the length of
  the header and the input with the decrypted record number.
\<close>

definition GetDtls13RecordHeader ::
    "(bytes \<Rightarrow> wolf_rc) \<Rightarrow> (bytes \<Rightarrow> wolf_rc) \<Rightarrow> (bytes \<Rightarrow> bytes \<Rightarrow> wolf_rc + bytes) \<Rightarrow>
     bytes \<Rightarrow> WOLFSSL \<Rightarrow> (wolf_rc + (RecordLayerHeader \<times> u16 \<times> nat \<times> bytes)) \<times> WOLFSSL" where
  "GetDtls13RecordHeader gcm_set aes_init aes input ssl =
     (if length input < DTLS_UNIFIED_HEADER_MIN_SZ then (Inl BUFFER_ERROR, ssl)
      else
        (let ebits = input ! 0 AND ucast EE_MASK in
         case Dtls13ReconstructEpochNumber ebits (epochs ssl) of
           Inl rc \<Rightarrow> (Inl rc, ssl)
         | Inr epochNum \<Rightarrow>
             if w64IsZero epochNum then (Inl SEQUENCE_ERROR, ssl)
             else
               (case dtls13DecryptEpoch (epochs ssl) of
                  None \<Rightarrow> (Inl BAD_STATE_E, ssl)
                | Some d \<Rightarrow>
                    (let (rc, ssl) =
                       (if \<not> w64Equal (epochNumber (dtls13Epochs (epochs ssl) ! d)) epochNum
                        then Dtls13SetEpochKeys gcm_set aes_init epochNum DECRYPT_SIDE_ONLY ssl
                        else (RC_OK, ssl));
                         curRlLength = Dtls13GetUnifiedHeaderSize (input ! 0)
                     in if rc \<noteq> RC_OK then (Inl SEQUENCE_ERROR, ssl)
                        else if length input < curRlLength + DTLS13_RN_MASK_SIZE then (Inl DTLS_PARTIAL_RECORD_READ, ssl)
                        else
                          (case Dtls13ParseUnifiedRecordLayer aes input (of_nat (length input)) ssl of
                             Inl rc \<Rightarrow> (Inl rc, ssl)
                           | Inr (info, input) \<Rightarrow>
                               (let next = (case dtls13DecryptEpoch (epochs ssl) of
                                       Some i \<Rightarrow> nextPeerSeqNumber (dtls13Epochs (epochs ssl) ! i) | None \<Rightarrow> 0);
                                    ssl = ssl\<lparr>keys := (keys ssl)\<lparr>curEpoch64 := epochNum,
                                             curSeq := Dtls13ReconstructSeqNumber info next\<rparr>\<rparr>
                                in (Inr (\<lparr>rl_type = application_data, rl_pvMajor = DTLS_MAJOR,
                                          rl_pvMinor = DTLSv1_2_MINOR\<rparr>, recordLength info, curRlLength, input),
                                    ssl)))))))"

definition GetDtlsRecordHeader ::
    "(bytes \<Rightarrow> wolf_rc) \<Rightarrow> (bytes \<Rightarrow> wolf_rc) \<Rightarrow> (bytes \<Rightarrow> bytes \<Rightarrow> wolf_rc + bytes) \<Rightarrow>
     bytes \<Rightarrow> WOLFSSL \<Rightarrow> (wolf_rc + (RecordLayerHeader \<times> u16 \<times> nat \<times> bytes)) \<times> WOLFSSL" where
  "GetDtlsRecordHeader gcm_set aes_init aes input ssl =
     (if Dtls13IsUnifiedHeader (input ! 0)
      then
        (let ssl = ssl\<lparr>options := (options ssl)\<lparr>seenUnifiedHdr := True\<rparr>\<rparr>;
             (r, ssl) = (if tls1_3 (options ssl) then GetDtls13RecordHeader gcm_set aes_init aes input ssl
                         else (Inl SEQUENCE_ERROR, ssl))
         in if r \<noteq> Inl SEQUENCE_ERROR then (r, ssl)
            else
              (let ssl =
                 (if opt_side (options ssl) = WOLFSSL_CLIENT_END \<and>
                     serverState (options ssl) < SERVER_HELLO_COMPLETE \<and>
                     tls1_3 (options ssl) \<and> \<not> handShakeDone (options ssl)
                  then ssl\<lparr>dtls13Rtx := (dtls13Rtx ssl)\<lparr>sendAcks := True\<rparr>\<rparr> else ssl)
               in (Inl SEQUENCE_ERROR, ssl)))
      else if length input < DTLS_RECORD_HEADER_SZ then (Inl DTLS_PARTIAL_RECORD_READ, ssl)
      else
        (let rh = \<lparr>rl_type = input ! 0, rl_pvMajor = input ! 1, rl_pvMinor = input ! 2\<rparr>;
             curEpoch = ato16 (drop 3 input)
         in if rl_pvMajor rh = DTLS_MAJOR \<and> rl_pvMinor rh = DTLS_BOGUS_MINOR then (Inl SEQUENCE_ERROR, ssl)
            else if tls1_3 (options ssl) \<and> curEpoch \<noteq> 0 then (Inl SEQUENCE_ERROR, ssl)
            else
              (let ssl =
                 (if tls1_3 (options ssl)
                  then
                    (let ssl = ssl\<lparr>keys := (keys ssl)\<lparr>curEpoch64 := 0\<rparr>\<rparr> in
                     case dtls13DecryptEpoch (epochs ssl) of
                       None \<Rightarrow> ssl
                     | Some d \<Rightarrow>
                         if \<not> w64IsZero (epochNumber (dtls13Epochs (epochs ssl) ! d))
                         then snd (Dtls13SetEpochKeys gcm_set aes_init 0 DECRYPT_SIDE_ONLY ssl) else ssl)
                  else ssl);
                   hi = ato16 (drop 5 input);
                   lo = ato32 (drop 7 input);
                   ssl = ssl\<lparr>keys := (keys ssl)\<lparr>curSeq := w64From32 (ucast hi) lo\<rparr>\<rparr>
               in (Inr (rh, ato16 (drop 11 input), DTLS_RECORD_HEADER_SZ, input), ssl))))"

definition GetDtlsHandShakeHeader ::
    "RecordLayerHeader \<Rightarrow> bytes \<Rightarrow> nat \<Rightarrow> WOLFSSL \<Rightarrow> (wolf_rc + (u8 \<times> u32 \<times> u32 \<times> u32)) \<times> WOLFSSL" where
  "GetDtlsHandShakeHeader curRL input totalSz ssl =
     (if totalSz < DTLS_HANDSHAKE_HEADER_SZ then (Inl BUFFER_E, ssl)
      else
        (let type = input ! 0;
             sz = c24to32 (drop 1 input);
             ssl = ssl\<lparr>keys := (keys ssl)\<lparr>dtls_peer_handshake_number := ato16 (drop 4 input)\<rparr>\<rparr>;
             fragOffset = c24to32 (drop 6 input);
             fragSz = c24to32 (drop 9 input)
         in if (rl_pvMajor curRL \<noteq> DTLS_MAJOR \<or> rl_pvMinor curRL \<noteq> DTLSv1_2_MINOR) \<and>
               type \<noteq> byte_of_hs client_hello \<and> type \<noteq> byte_of_hs hello_verify_request \<and>
               type \<noteq> byte_of_hs server_hello
            then (Inl VERSION_ERROR, ssl)
            else (Inr (type, sz, fragOffset, fragSz), ssl)))"

section \<open>Reconstruction of the sequence number\<close>

text \<open>
  The arithmetic of the reconstruction for \<open>M = 2 ^ 8\<close> or \<open>2 ^ 16\<close>: replacing the low digit of the
  expected number and moving by one period finds the only number with that low digit closer than half a
  period.
\<close>

definition nearest :: "nat \<Rightarrow> nat \<Rightarrow> nat \<Rightarrow> nat" where
  "nearest M n low =
     (let c = n - n mod M + low in
      if n mod M \<le> low then (if M div 2 < low - n mod M \<and> M \<le> c then c - M else c)
      else (if M div 2 < n mod M - low then c + M else c))"

lemma nearest_unique:
  assumes M: "0 < M" "even M" and close: "s < n + M div 2" "n < s + M div 2"
  shows "nearest M n (s mod M) = s"
proof -
  obtain h where h: "M = 2 * h" using M(2) by blast
  have h0: "0 < h" using M(1) h by simp
  define q e p l where "q = n div M" and "e = n mod M" and "p = s div M" and "l = s mod M"
  have n: "n = q * M + e" "e < M" and s: "s = p * M + l" "l < M"
    using M(1) by (simp_all add: q_def e_def p_def l_def)
  have sl: "s < n + h" "n < s + h" using close h by simp_all
  have pq: "p \<le> q + 1" "q \<le> p + 1"
  proof -
    have "s < (q + 2) * M" using sl n h by (simp add: algebra_simps)
    then show "p \<le> q + 1" unfolding p_def using M(1) by (simp add: less_mult_imp_div_less less_Suc_eq_le[symmetric])
    have "n < (p + 2) * M" using sl s h by (simp add: algebra_simps)
    then show "q \<le> p + 1" unfolding q_def using M(1) by (simp add: less_mult_imp_div_less less_Suc_eq_le[symmetric])
  qed
  have c: "n - e + l = q * M + l" using n by simp
  have h2: "M div 2 = h" using h by simp
  have nr: "nearest M n (s mod M) = (if e \<le> l then (if h < l - e \<and> M \<le> q * M + l then q * M + l - M else q * M + l)
      else (if h < e - l then q * M + l + M else q * M + l))"
    unfolding nearest_def Let_def e_def[symmetric] l_def[symmetric] c h2 ..
  consider "p = q" | "p = q + 1" | "q = p + 1" using pq by linarith
  then show ?thesis
  proof cases
    case 1
    then have "l < e + h" "e < l + h" using sl n s by simp_all
    then show ?thesis unfolding nr using 1 s by auto
  next
    case 2
    then have "l + 2 * h < e + h" using sl n s h by (simp add: algebra_simps)
    then have "\<not> e \<le> l" "h < e - l" using h0 by linarith+
    then show ?thesis unfolding nr using s 2 by simp
  next
    case 3
    then have "e + 2 * h < l + h" using sl n s h by (simp add: algebra_simps)
    then have "e \<le> l" "h < l - e" using h0 by linarith+
    moreover have "q * M + l = s + M" using s 3 by simp
    ultimately show ?thesis unfolding nr by simp
  qed
qed

lemma unat_take_bit_mod: "unat (take_bit k (x :: 'a::len word)) = unat x mod 2 ^ k"
  by (simp only: unsigned_take_bit_eq) (simp only: take_bit_eq_mod)

lemma set_low_bits:
  assumes "k \<le> 16" "unat (low :: u16) < 2 ^ k"
  shows "w64SetLow32 n ((w64GetLow32 n AND NOT (ucast (mask k :: u16))) OR ucast low) = n - take_bit k n + ucast low"
proof -
  have t: "take_bit k (unat low) = unat low" using assms(2) by (simp add: take_bit_nat_eq_self)
  have lb: "i < k" if "bit low i" for i
  proof -
    have "bit (unat low) i" using that by (simp add: bit_unsigned_iff)
    then have "bit (take_bit k (unat low)) i" by (simp add: t)
    then show "i < k" by (simp add: bit_take_bit_iff)
  qed
  have ff: "(0xffffffff :: u64) = mask 32" by (simp add: mask_eq_exp_minus_1)
  have "w64SetLow32 n ((w64GetLow32 n AND NOT (ucast (mask k :: u16))) OR ucast low)
      = push_bit k (drop_bit k n) OR ucast low"
    unfolding w64SetLow32_def w64GetLow32_def ff
    using assms(1) by (intro bit_word_eqI) (auto simp: bit_simps dest: lb)
  also have "\<dots> = push_bit k (drop_bit k n) + ucast low"
    by (intro disjunctive_add_eq_or[symmetric] bit_word_eqI) (auto simp: bit_simps dest: lb)
  also have "push_bit k (drop_bit k n) = n - take_bit k n"
    using bits_ident[of k n] by (simp add: eq_diff_eq)
  finally show ?thesis .
qed

lemma unat_set_low:
  assumes "k \<le> 16" "unat (low :: u16) < 2 ^ k"
  shows "unat (n - take_bit k n + ucast low :: u64) = unat n - unat n mod 2 ^ k + unat low"
proof -
  have t: "unat (take_bit k n) = unat n mod 2 ^ k" by (rule unat_take_bit_mod)
  have "take_bit k n \<le> n" by (simp add: word_le_nat_alt t)
  then have d: "unat (n - take_bit k n) = unat n - unat n mod 2 ^ k"
    using unat_sub[of "take_bit k n" n] t by simp
  have l: "unat (ucast low :: u64) = unat low" by (rule unat_ucast_up) simp
  have "unat n < 2 ^ (64 - k) * 2 ^ k" using unat_lt_pow[of n] assms(1) by (simp flip: power_add)
  then have "unat n div 2 ^ k < 2 ^ (64 - k)" by (rule less_mult_imp_div_less)
  then have "(unat n div 2 ^ k + 1) * 2 ^ k \<le> 2 ^ (64 - k) * 2 ^ k" by (intro mult_right_mono) auto
  also have "\<dots> = 2 ^ 64" using assms(1) by (simp flip: power_add)
  finally have "unat n - unat n mod 2 ^ k + 2 ^ k \<le> 2 ^ 64"
    by (simp add: minus_mod_eq_div_mult algebra_simps)
  then have "unat n - unat n mod 2 ^ k + unat low < 2 ^ 64" using assms(2) by linarith
  then show ?thesis by (simp add: unat_word_ariths d l)
qed

lemma Reconstruct_nearest:
  fixes h :: Dtls13UnifiedHdrInfo and n :: u64
  defines "low \<equiv> (if seqHiPresent h then push_bit 8 (ucast (seqHi h)) OR ucast (seqLo h) else ucast (seqLo h) :: u16)"
    and "k \<equiv> (if seqHiPresent h then 16 else 8 :: nat)"
  assumes room: "unat n + 2 ^ 17 < 2 ^ 64"
  shows "unat (Dtls13ReconstructSeqNumber h n) = nearest (2 ^ k) (unat n) (unat low)"
proof -
  have k: "k \<le> 16" by (simp add: k_def)
  have low: "unat low < 2 ^ k"
  proof (cases "seqHiPresent h")
    case True
    then show ?thesis using unat_lt_pow[of low] by (simp add: k_def)
  next
    case False
    then show ?thesis using unat_lt_pow[of "seqLo h"] by (simp add: k_def low_def unat_ucast_up)
  qed
  have m: "(if seqHiPresent h then 0xffff else 0xff :: u16) = mask k"
    by (simp add: k_def mask_eq_exp_minus_1)
  have sh: "(if seqHiPresent h then push_bit 16 1 else push_bit 8 1 :: u32) = push_bit k 1"
    by (simp add: k_def)
  define e where "e = (ucast (w64GetLow32 n AND ucast (mask k :: u16)) :: u16)"
  define c where "c = n - take_bit k n + ucast low"
  have ue: "unat e = unat n mod 2 ^ k"
  proof -
    have "e = ucast (take_bit k n)"
      unfolding e_def w64GetLow32_def using k by (intro bit_word_eqI) (auto simp: bit_simps)
    moreover have "unat n mod 2 ^ k < 2 ^ 16"
    proof -
      have "unat n mod 2 ^ k < 2 ^ k" by simp
      also have "(2 :: nat) ^ k \<le> 2 ^ 16" using k by (intro power_increasing) auto
      finally show ?thesis .
    qed
    ultimately show ?thesis
      by (simp only: unsigned_ucast_eq unat_take_bit_mod) (simp add: take_bit_nat_eq_self)
  qed
  have uc: "unat c = unat n - unat n mod 2 ^ k + unat low"
    unfolding c_def by (rule unat_set_low[OF k low])
  have uc': "unat c = unat n - unat e + unat low" using uc ue by simp
  have ush: "unat (ucast (push_bit k 1 :: u32) :: u64) = 2 ^ k" "unat (push_bit k 1 :: u32) = 2 ^ k"
    by (simp_all add: k_def unat_ucast_up)
  have half: "(push_bit k 1 :: u32) div 2 < ucast (x :: u16) \<longleftrightarrow> 2 ^ k div 2 < unat x" for x
    using ush(2) by (simp add: word_less_nat_alt unat_div unat_ucast_up)
  have pow: "(2 :: nat) ^ k \<le> 2 ^ 16" using k by (intro power_increasing) auto
  have R: "Dtls13ReconstructSeqNumber h n =
     (if e \<le> low then (if 2 ^ k div 2 < unat (low - e) then (if ucast (push_bit k 1 :: u32) \<le> c then c - ucast (push_bit k 1 :: u32) else c) else c)
      else (if 2 ^ k div 2 < unat (e - low) then (if \<not> c + ucast (push_bit k 1 :: u32) < ucast (push_bit k 1 :: u32) then c + ucast (push_bit k 1 :: u32) else c) else c))"
    unfolding Dtls13ReconstructSeqNumber_def Let_def low_def[symmetric] m sh e_def[symmetric]
      set_low_bits[OF k low] c_def[symmetric] half w64Sub32_def w64Add32_def prod.case
    by (simp add: not_less)
  have cb: "unat c + 2 ^ k < 2 ^ 64"
  proof -
    have "unat n - unat n mod 2 ^ k \<le> unat n" "(2 :: nat) ^ 17 = 2 ^ 16 + 2 ^ 16" by simp_all
    then show ?thesis using uc low pow room by linarith
  qed
  show ?thesis
  proof (cases "unat e \<le> unat low")
    case True
    then have le: "e \<le> low" by (simp add: word_le_nat_alt)
    have "unat (low - e) = unat low - unat e" using le by (rule unat_sub)
    moreover have "unat (if ucast (push_bit k 1 :: u32) \<le> c then c - ucast (push_bit k 1 :: u32) else c)
        = (if 2 ^ k \<le> unat c then unat c - 2 ^ k else unat c)"
      using ush by (simp add: word_le_nat_alt unat_sub)
    ultimately show ?thesis
      using True le unfolding R nearest_def Let_def ue[symmetric] uc'[symmetric] by simp
  next
    case False
    then have lt: "\<not> e \<le> low" by (simp add: word_le_nat_alt)
    have "unat (e - low) = unat e - unat low" using lt by (intro unat_sub) simp
    moreover have "unat (c + ucast (push_bit k 1 :: u32)) = unat c + 2 ^ k"
      using cb ush by (simp add: unat_word_ariths)
    moreover have "\<not> c + ucast (push_bit k 1 :: u32) < ucast (push_bit k 1 :: u32)"
      using calculation(2) ush by (simp add: word_less_nat_alt)
    ultimately show ?thesis
      using False lt unfolding R nearest_def Let_def ue[symmetric] uc'[symmetric] by simp
  qed
qed

lemma Reconstruct_close:
  assumes "seqHiPresent h" "push_bit 8 (ucast (seqHi h)) OR ucast (seqLo h) = (ucast s :: u16)"
    and "unat s < unat n + 2 ^ 15" "unat n < unat s + 2 ^ 15" "unat n + 2 ^ 17 < 2 ^ 64"
  shows "Dtls13ReconstructSeqNumber h n = (s :: u64)"
proof -
  have low: "unat (ucast s :: u16) = unat s mod 2 ^ 16"
    by (simp only: unsigned_ucast_eq) (simp add: take_bit_eq_mod)
  have "unat (Dtls13ReconstructSeqNumber h n) = nearest (2 ^ 16) (unat n) (unat s mod 2 ^ 16)"
    using Reconstruct_nearest[OF assms(5), of h] assms(1,2) low by simp
  also have "\<dots> = unat s" using assms(3,4) by (intro nearest_unique) simp_all
  finally show ?thesis by (simp add: word_unat_eq_iff)
qed

section \<open>Writing and reading a protected record\<close>

definition aes_total :: "(bytes \<Rightarrow> bytes \<Rightarrow> wolf_rc + bytes) \<Rightarrow> bool" where
  "aes_total aes \<longleftrightarrow> (\<forall>key blk. length blk = 16 \<longrightarrow> (\<exists>out. aes key blk = Inr out \<and> length out = 16))"

lemma map2_xor_twice: "length ys = length xs \<Longrightarrow> map2 (XOR) (map2 (XOR) xs ys) ys = (xs :: bytes)"
  by (induction xs ys rule: list_induct2') (auto simp: xor.assoc)

lemma flags_bits:
  assumes "b = 0 \<or> b = 1 \<or> b = 2 \<or> b = (3 :: u8)"
  shows "(push_bit 5 1 OR b OR push_bit 3 1 OR push_bit 2 1) AND push_bit 2 1 \<noteq> (0 :: u8) \<and>
    (push_bit 5 1 OR b OR push_bit 3 1 OR push_bit 2 1) AND push_bit 3 1 \<noteq> (0 :: u8) \<and>
    (push_bit 5 1 OR b OR push_bit 3 1 OR push_bit 2 1) AND 3 = b \<and>
    Dtls13IsUnifiedHeader (push_bit 5 1 OR b OR push_bit 3 1 OR push_bit 2 1)"
  using assms by (elim disjE; hypsubst) (code_simp+)

lemma two_bits:
  assumes "x AND 3 = (x :: u8)"
  shows "x = 0 \<or> x = 1 \<or> x = 2 \<or> x = 3"
proof -
  have "(3 :: u8) = mask 2" by (simp add: mask_eq_exp_minus_1)
  then have "x AND 3 = take_bit 2 x" by (simp add: take_bit_eq_mask)
  then have "unat x = unat x mod 2 ^ 2" using assms unat_take_bit_mod[of 2 x] by metis
  then have "unat x < 4" using mod_less_divisor[of 4 "unat x"] by simp
  then have "unat x = 0 \<or> unat x = 1 \<or> unat x = 2 \<or> unat x = 3" by linarith
  then show ?thesis by (auto simp: word_unat_eq_iff)
qed

lemma epoch_bits_cases:
  "Dtls13GetEpochBits n = 0 \<or> Dtls13GetEpochBits n = 1 \<or> Dtls13GetEpochBits n = 2 \<or> Dtls13GetEpochBits n = 3"
proof (rule two_bits)
  have "(3 :: u32) = mask 2" "(3 :: u8) = mask 2" by (simp_all add: mask_eq_exp_minus_1)
  then show "Dtls13GetEpochBits n AND 3 = Dtls13GetEpochBits n"
    unfolding Dtls13GetEpochBits_def EE_MASK_def by (auto intro!: bit_word_eqI simp: bit_simps)
qed

text \<open>
  What the sender does to a record (\<open>BuildTls13Message\<close>): header, ciphertext, then the encryption of the
  record number.
\<close>

definition protected_record ::
    "(bytes \<Rightarrow> bytes \<Rightarrow> wolf_rc + bytes) \<Rightarrow> bytes \<Rightarrow> WOLFSSL \<Rightarrow> wolf_rc + bytes" where
  "protected_record aes ct ssl =
     (case Dtls13RlAddCiphertextHeader (of_nat (length ct)) ssl of
        Inl rc \<Rightarrow> Inl rc
      | Inr hdr \<Rightarrow> Dtls13EncryptRecordNumber aes (hdr @ ct) (of_nat (length (hdr @ ct))) ssl)"

lemma c16toa_two: "\<exists>a b. c16toa x = [a, b] \<and> push_bit 8 (ucast a) OR ucast b = x"
  using ato16_c16toa[of x "[]"] by (auto simp: c16toa_def ato16_def intro!: bit_word_eqI simp: bit_simps enc_simps split: if_splits)

text \<open>The parts of the header the sender writes, and of the record after the number was encrypted.\<close>

lemma protected_record_form:
  assumes e: "dtls13EncryptEpoch (epochs tx) = Some i"
    and ct: "16 \<le> length ct" "length ct + 5 < 2 ^ 16"
    and key: "rnEncryptKey (epochs tx) = Some key" and gcm: "bulk_cipher_algorithm (options tx) = wolfssl_aes_gcm"
    and aes: "aes_total aes"
  shows "\<exists>a b c d m. c16toa (ucast (w64GetLow32 (nextSeqNumber (dtls13Epochs (epochs tx) ! i)))) = [a, b] \<and>
    c16toa (of_nat (length ct)) = [c, d] \<and> aes key (take 16 ct) = Inr m \<and> length m = 16 \<and>
    protected_record aes ct tx =
      Inr ([push_bit 5 1 OR Dtls13GetEpochBits (epochNumber (dtls13Epochs (epochs tx) ! i)) OR push_bit 3 1 OR push_bit 2 1,
            a XOR m ! 0, b XOR m ! 1, c, d] @ ct)"
proof -
  let ?e = "dtls13Epochs (epochs tx) ! i"
  let ?f = "push_bit 5 1 OR Dtls13GetEpochBits (epochNumber ?e) OR push_bit 3 1 OR push_bit 2 1"
  obtain a b where ab: "c16toa (ucast (w64GetLow32 (nextSeqNumber ?e))) = [a, b]" using c16toa_two by blast
  obtain c d where cd: "c16toa (of_nat (length ct)) = [c, d]" using c16toa_two by blast
  obtain m where m: "aes key (take 16 ct) = Inr m" "length m = 16"
    using aes ct(1) unfolding aes_total_def by (metis length_take min.absorb2)
  have m2: "take 2 m = [m ! 0, m ! 1]"
    using m(2) by (cases m; cases "tl m") (auto simp: numeral_2_eq_2)
  note fb = flags_bits[OF epoch_bits_cases[of "epochNumber ?e"]]
  have hdr: "Dtls13RlAddCiphertextHeader (of_nat (length ct)) tx = Inr [?f, a, b, c, d]"
    using e ab cd by (simp add: Dtls13RlAddCiphertextHeader_def Let_def or.assoc)
  have len: "\<not> unat (of_nat (length ([?f, a, b, c, d] @ ct)) :: u16) < Dtls13MinimumRecordLength"
  proof -
    have l: "length ([?f, a, b, c, d] @ ct) = length ct + 5" by simp
    have "unat (of_nat (length ct + 5) :: u16) = length ct + 5"
      using ct(2) by (simp add: unat_of_nat take_bit_nat_eq_self del: of_nat_add)
    then show ?thesis
      unfolding l using ct(1) by (simp add: Dtls13MinimumRecordLength_def Dtls13GetRlHeaderLength_def)
  qed
  have enc: "Dtls13EncryptDecryptRecordNumber aes [a, b] ct PROTECT tx = Inr [a XOR m ! 0, b XOR m ! 1]"
    using key gcm m m2
    by (simp add: Dtls13EncryptDecryptRecordNumber_def Dtls13GetRnMask_def numeral_2_eq_2)
  have "protected_record aes ct tx = Inr ([?f, a XOR m ! 0, b XOR m ! 1, c, d] @ ct)"
    unfolding protected_record_def hdr sum.case Dtls13EncryptRecordNumber_def if_not_P[OF len] Let_def
    using fb enc by (simp add: numeral_2_eq_2)
  then show ?thesis using ab cd m by blast
qed

lemma parse_protected:
  assumes key: "rnDecryptKey (epochs rx) = Some key" and gcm: "bulk_cipher_algorithm (options rx) = wolfssl_aes_gcm"
    and ct: "16 \<le> length ct" "length ct + 5 < 2 ^ 16"
    and cd: "c16toa (of_nat (length ct)) = [c, d]" and m: "aes key (take 16 ct) = Inr m" "length m = 16"
    and f: "f AND push_bit 2 1 \<noteq> 0" "f AND push_bit 3 1 \<noteq> 0" "f AND 3 = eb"
  shows "Dtls13ParseUnifiedRecordLayer aes ([f, a XOR m ! 0, b XOR m ! 1, c, d] @ ct) (of_nat (length ct + 5)) rx =
    Inr (\<lparr>recordLength = of_nat (length ct), seqLo = b, seqHi = a, seqHiPresent = True, epochBits = eb\<rparr>,
         [f, a, b, c, d] @ ct)"
proof -
  have sz: "unat (of_nat (length ct + 5) :: u16) = length ct + 5"
    using ct(2) by (simp add: unat_of_nat take_bit_nat_eq_self del: of_nat_add)
  have lenw: "unat (of_nat (length ct) :: u16) = length ct"
    using ct(2) by (simp add: unat_of_nat take_bit_nat_eq_self)
  have len: "ato16 (c # d # ct) = of_nat (length ct)"
    using ato16_c16toa[of "of_nat (length ct)" ct] cd by simp
  have m2: "take 2 m = [m ! 0, m ! 1]"
    using m(2) by (cases m; cases "tl m") (auto simp: numeral_2_eq_2)
  have dec: "Dtls13EncryptDecryptRecordNumber aes [a XOR m ! 0, b XOR m ! 1] ct DEPROTECT rx = Inr [a, b]"
    using key gcm m m2
    by (simp add: Dtls13EncryptDecryptRecordNumber_def Dtls13GetRnMask_def numeral_2_eq_2 xor.assoc)
  let ?in = "[f, a XOR m ! 0, b XOR m ! 1, c, d] @ ct"
  have parts: "?in ! 0 = f" "take 2 (drop 1 ?in) = [a XOR m ! 0, b XOR m ! 1]" "drop (1 + 2) ?in = c # d # ct"
    "drop (1 + 2 + 2) ?in = ct" "take 1 ?in = [f]"
    by (simp_all add: numeral_eq_Suc)
  have ee: "ucast EE_MASK = (3 :: u8)" by simp
  have bits: "(f AND DTLS13_SEQ_LEN_BIT \<noteq> 0) = True" "(f AND DTLS13_LEN_BIT \<noteq> 0) = True" using f(1,2) by simp_all
  have alg: "(bulk_cipher_algorithm (options rx) \<noteq> wolfssl_cipher_null) = True" using gcm by simp
  have nlt: "(unat (of_nat (length ct) :: u16) < DTLS13_RN_MASK_SIZE) = False"
    "(length ct + 5 < 1 + 2 + 2 + DTLS13_RN_MASK_SIZE) = False" "(length ct + 5 < 1) = False"
    "(length ct + 5 < 1 + 2) = False" "(length ct + 5 < 1 + 2 + 2) = False"
    using ct(1) lenw by simp_all
  show ?thesis
    unfolding Dtls13ParseUnifiedRecordLayer_def sz Let_def parts bits ee f(3) if_True len alg nlt if_False dec sum.case
      simp_thms
    by (simp add: numeral_2_eq_2)
qed

section \<open>Properties\<close>



text \<open>
  C14. Record header round trip: what the sender writes (unified header, ciphertext, record number
  encrypted with the mask of the first ciphertext block) is recognised as a unified header and parsed
  back by a peer with the same record number key to the epoch bits, the record length and the low 16
  bits of the sequence number, for every block cipher.
\<close>

theorem unified_header_roundtrip:
  assumes "dtls13EncryptEpoch (epochs tx) = Some i"
    and "16 \<le> length ct" "length ct + 5 < 2 ^ 16"
    and "rnEncryptKey (epochs tx) = Some key" "rnDecryptKey (epochs rx) = Some key"
    and "bulk_cipher_algorithm (options tx) = wolfssl_aes_gcm" "bulk_cipher_algorithm (options rx) = wolfssl_aes_gcm"
    and "aes_total aes"
  shows "\<exists>rec info hdr. protected_record aes ct tx = Inr rec \<and> Dtls13IsUnifiedHeader (rec ! 0) \<and>
    Dtls13ParseUnifiedRecordLayer aes rec (of_nat (length rec)) rx = Inr (info, hdr @ ct) \<and>
    length rec = 5 + length ct \<and> length hdr = 5 \<and> Dtls13GetUnifiedHeaderSize (rec ! 0) = 5 \<and>
    recordLength info = of_nat (length ct) \<and> seqHiPresent info \<and>
    push_bit 8 (ucast (seqHi info)) OR ucast (seqLo info) =
      (ucast (nextSeqNumber (dtls13Epochs (epochs tx) ! i)) :: u16) \<and>
    epochBits info = Dtls13GetEpochBits (epochNumber (dtls13Epochs (epochs tx) ! i))"
proof -
  let ?e = "dtls13Epochs (epochs tx) ! i"
  let ?f = "push_bit 5 1 OR Dtls13GetEpochBits (epochNumber ?e) OR push_bit 3 1 OR push_bit 2 1"
  obtain a b c d m where ab: "c16toa (ucast (w64GetLow32 (nextSeqNumber ?e))) = [a, b]"
    and cd: "c16toa (of_nat (length ct)) = [c, d]" and m: "aes key (take 16 ct) = Inr m" "length m = 16"
    and rec: "protected_record aes ct tx = Inr ([?f, a XOR m ! 0, b XOR m ! 1, c, d] @ ct)"
    using protected_record_form[OF assms(1-4) assms(6) assms(8)] by blast
  note fb = flags_bits[OF epoch_bits_cases[of "epochNumber ?e"]]
  have parse: "Dtls13ParseUnifiedRecordLayer aes ([?f, a XOR m ! 0, b XOR m ! 1, c, d] @ ct) (of_nat (length ct + 5)) rx =
    Inr (\<lparr>recordLength = of_nat (length ct), seqLo = b, seqHi = a, seqHiPresent = True,
          epochBits = Dtls13GetEpochBits (epochNumber ?e)\<rparr>, [?f, a, b, c, d] @ ct)"
    using fb by (intro parse_protected[where aes = aes, OF assms(5) assms(7) assms(2) assms(3) cd m(1) m(2)]) auto
  have seq: "push_bit 8 (ucast a) OR ucast b = (ucast (nextSeqNumber ?e) :: u16)"
  proof -
    have "push_bit 8 (ucast a) OR ucast b = (ucast (w64GetLow32 (nextSeqNumber ?e)) :: u16)"
      using c16toa_two[of "ucast (w64GetLow32 (nextSeqNumber ?e))"] ab by auto
    also have "\<dots> = ucast (nextSeqNumber ?e)"
      unfolding w64GetLow32_def by (rule bit_word_eqI) (auto simp: bit_simps)
    finally show ?thesis .
  qed
  let ?rec = "[?f, a XOR m ! 0, b XOR m ! 1, c, d] @ ct"
  let ?info = "\<lparr>recordLength = of_nat (length ct), seqLo = b, seqHi = a, seqHiPresent = True,
          epochBits = Dtls13GetEpochBits (epochNumber ?e)\<rparr>"
  have len: "length ?rec = length ct + 5" by simp
  have first: "?rec ! 0 = ?f" by simp
  show ?thesis
  proof (rule exI[of _ ?rec], rule exI[of _ ?info], rule exI[of _ "[?f, a, b, c, d]"], intro conjI)
    show "protected_record aes ct tx = Inr ?rec" by (rule rec)
    show "Dtls13IsUnifiedHeader (?rec ! 0)" unfolding first using fb by blast
    show "Dtls13ParseUnifiedRecordLayer aes ?rec (of_nat (length ?rec)) rx = Inr (?info, [?f, a, b, c, d] @ ct)"
      unfolding len by (rule parse)
    show "Dtls13GetUnifiedHeaderSize (?rec ! 0) = 5"
      unfolding first Dtls13GetUnifiedHeaderSize_def DTLS13_SEQ_LEN_BIT_def DTLS13_LEN_BIT_def using fb by presburger
    show "push_bit 8 (ucast (seqHi ?info)) OR ucast (seqLo ?info) = (ucast (nextSeqNumber ?e) :: u16)"
      using seq by simp
  qed simp_all
qed

theorem unified_header_roundtrip_witness:
  "\<exists>rec info hdr. protected_record (\<lambda>key blk. Inr (rev blk)) (replicate 16 7)
       (fresh_ssl\<lparr>epochs := (epochs fresh_ssl)\<lparr>rnEncryptKey := Some [9]\<rparr>\<rparr>) = Inr rec \<and>
     Dtls13ParseUnifiedRecordLayer (\<lambda>key blk. Inr (rev blk)) rec (of_nat (length rec))
       (fresh_ssl\<lparr>epochs := (epochs fresh_ssl)\<lparr>rnDecryptKey := Some [9]\<rparr>\<rparr>) = Inr (info, hdr @ replicate 16 7) \<and>
     recordLength info = 16"
proof -
  have t: "aes_total (\<lambda>key blk. Inr (rev blk))" by (simp add: aes_total_def)
  show ?thesis
    using unified_header_roundtrip[where aes = "\<lambda>key blk. Inr (rev blk)" and ct = "replicate 16 7" and key = "[9]" and i = 0
        and tx = "fresh_ssl\<lparr>epochs := (epochs fresh_ssl)\<lparr>rnEncryptKey := Some [9]\<rparr>\<rparr>"
        and rx = "fresh_ssl\<lparr>epochs := (epochs fresh_ssl)\<lparr>rnDecryptKey := Some [9]\<rparr>\<rparr>"] t
    by (fastforce simp: fresh_ssl_def)
qed

text \<open>
  Plaintext record round trip: the header the sender writes for an unprotected record is read back
  by the peer as the same content type, length and sequence number (below \<open>2 ^ 48\<close>), and the sender's
  counter moves on by one.
\<close>

theorem plaintext_header_roundtrip:
  assumes "dtls13EncryptEpoch (epochs tx) = Some i" "i < length (dtls13Epochs (epochs tx))"
    and "unat (nextSeqNumber (dtls13Epochs (epochs tx) ! i)) < 2 ^ 48"
    and "ct = handshake \<or> ct = alert \<or> ct = ack"
    and "tls1_3 (options rx)" "dtls13DecryptEpoch (epochs rx) = Some d"
    and "epochNumber (dtls13Epochs (epochs rx) ! d) = 0"
  shows "\<exists>hdr tx' rx'. Dtls13RlAddPlaintextHeader ct len tx = (RC_OK, hdr, tx') \<and> length hdr = 13 \<and>
    nextSeqNumber (dtls13Epochs (epochs tx') ! i) = nextSeqNumber (dtls13Epochs (epochs tx) ! i) + 1 \<and>
    GetDtlsRecordHeader gcm_set aes_init aes (hdr @ body) rx =
      (Inr (\<lparr>rl_type = ct, rl_pvMajor = DTLS_MAJOR, rl_pvMinor = DTLSv1_2_MINOR\<rparr>, len, 13, hdr @ body), rx') \<and>
    curEpoch64 (keys rx') = 0 \<and> curSeq (keys rx') = nextSeqNumber (dtls13Epochs (epochs tx) ! i)"
proof -
  let ?s = "nextSeqNumber (dtls13Epochs (epochs tx) ! i)"
  let ?hi = "w64GetHigh32 ?s"
  have "?s \<noteq> -1" using assms(3) by (auto simp: unsigned_minus_1_eq_mask mask_eq_exp_minus_1)
  then obtain tx' where tx': "Dtls13GetSeq CUR_ORDER True tx = (RC_OK, Some (?hi, w64GetLow32 ?s), tx')"
    "nextSeqNumber (dtls13Epochs (epochs tx') ! i) = ?s + 1"
    using GetSeq_cur[OF assms(1,2)] by auto
  have hb: "bit ?s j \<Longrightarrow> j < 48" for j
  proof -
    assume "bit ?s j"
    then have "bit (unat ?s) j" by (simp add: bit_unsigned_iff)
    then have "bit (take_bit 48 (unat ?s)) j" using assms(3) by (simp add: take_bit_nat_eq_self)
    then show "j < 48" by (simp add: bit_take_bit_iff)
  qed
  have z: "(ucast (drop_bit 16 ?hi) :: u16) = 0"
    unfolding w64GetHigh32_def by (rule bit_word_eqI) (auto simp: bit_simps dest: hb)
  have bk: "w64From32 (ucast (ucast ?hi :: u16)) (w64GetLow32 ?s) = ?s"
  proof -
    have "ucast (ucast ?hi :: u16) = ?hi"
      unfolding w64GetHigh32_def by (rule bit_word_eqI) (auto simp: bit_simps dest: hb)
    then show ?thesis by (simp add: w64_split)
  qed
  define hdr where "hdr = [ct, 0xfe, 0xfd] @ c16toa 0 @ c16toa (ucast ?hi) @ c32toa (w64GetLow32 ?s) @ c16toa len"
  have w: "Dtls13RlAddPlaintextHeader ct len tx = (RC_OK, hdr, tx')"
    using tx'(1) z by (simp add: Dtls13RlAddPlaintextHeader_def hdr_def)
  have rd: "ato16 (drop 3 (hdr @ body)) = 0" "ato16 (drop 5 (hdr @ body)) = ucast ?hi"
    "ato32 (drop 7 (hdr @ body)) = w64GetLow32 ?s" "ato16 (drop 11 (hdr @ body)) = len"
    by (simp_all add: hdr_def drop_Cons')
  have h: "length hdr = 13" "(hdr @ body) ! 0 = ct" "(hdr @ body) ! 1 = 0xfe" "(hdr @ body) ! 2 = 0xfd"
    by (simp_all add: hdr_def)
  have nu: "\<not> Dtls13IsUnifiedHeader ct" using assms(4) by (auto simp: Dtls13IsUnifiedHeader_def)
  define rx' where "rx' = rx\<lparr>keys := (keys rx)\<lparr>curEpoch64 := 0, curSeq := ?s\<rparr>\<rparr>"
  have "GetDtlsRecordHeader gcm_set aes_init aes (hdr @ body) rx =
      (Inr (\<lparr>rl_type = ct, rl_pvMajor = DTLS_MAJOR, rl_pvMinor = DTLSv1_2_MINOR\<rparr>, len, 13, hdr @ body), rx')"
    unfolding GetDtlsRecordHeader_def h(2-4) rd Let_def bk
    using nu h(1) assms(5-7) by (simp add: rx'_def)
  then show ?thesis using w h(1) tx'(2) by (auto simp: rx'_def)
qed

theorem plaintext_header_roundtrip_witness:
  "\<exists>hdr tx' rx'. Dtls13RlAddPlaintextHeader ack 2 fresh_ssl = (RC_OK, hdr, tx') \<and>
     GetDtlsRecordHeader (\<lambda>key. RC_OK) (\<lambda>k. RC_OK) (\<lambda>k b. Inr b) (hdr @ [0, 0]) fresh_ssl =
       (Inr (\<lparr>rl_type = ack, rl_pvMajor = DTLS_MAJOR, rl_pvMinor = DTLSv1_2_MINOR\<rparr>, 2, 13, hdr @ [0, 0]), rx')"
  using plaintext_header_roundtrip[of fresh_ssl 0 ack fresh_ssl 0 2 "\<lambda>key. RC_OK" "\<lambda>k. RC_OK" "\<lambda>k b. Inr b" "[0, 0]"]
  by (fastforce simp: fresh_ssl_def zero_epoch_def)

text \<open>What the reader returns for a header the writer made.\<close>

lemma handshake_header_read:
  assumes "unat frag_offset < 2 ^ 24" "unat frag_length < 2 ^ 24" "unat msg_length < 2 ^ 24"
    and "12 \<le> totalSz"
  shows "\<exists>rx'. GetDtlsHandShakeHeader \<lparr>rl_type = handshake, rl_pvMajor = DTLS_MAJOR, rl_pvMinor = DTLSv1_2_MINOR\<rparr>
      (Dtls13HandshakeAddHeaderFrag t frag_offset frag_length msg_length tx @ body) totalSz rx =
      (Inr (byte_of_hs t, msg_length, frag_offset, frag_length), rx') \<and>
    dtls_peer_handshake_number (keys rx') = dtls_handshake_number (keys tx)"
proof -
  have tb: "unat x < 2 ^ 24 \<Longrightarrow> take_bit 24 x = x" for x :: u32
    by (simp only: word_unat_eq_iff unat_take_bit_mod) simp
  define inp where "inp = Dtls13HandshakeAddHeaderFrag t frag_offset frag_length msg_length tx @ body"
  have "inp ! 0 = byte_of_hs t" "c24to32 (drop 1 inp) = msg_length"
    "ato16 (drop 4 inp) = dtls_handshake_number (keys tx)"
    "c24to32 (drop 6 inp) = frag_offset" "c24to32 (drop 9 inp) = frag_length"
    using assms by (simp_all add: inp_def Dtls13HandshakeAddHeaderFrag_def drop_Cons' c24to32_ato24 tb)
  then show ?thesis
    unfolding inp_def[symmetric] GetDtlsHandShakeHeader_def using assms(4) by (simp add: Let_def)
qed

text \<open>
  Handshake header round trip: message type, length, message sequence number, fragment offset and
  fragment length survive writing and reading for all values below \<open>2 ^ 24\<close>.
\<close>

theorem handshake_header_roundtrip:
  assumes "unat frag_offset < 2 ^ 24" "unat frag_length < 2 ^ 24" "unat msg_length < 2 ^ 24"
    and "12 \<le> totalSz"
  shows "\<exists>rx'. GetDtlsHandShakeHeader \<lparr>rl_type = handshake, rl_pvMajor = DTLS_MAJOR, rl_pvMinor = DTLSv1_2_MINOR\<rparr>
      (Dtls13HandshakeAddHeaderFrag t frag_offset frag_length msg_length tx @ body) totalSz rx =
      (Inr (byte_of_hs t, msg_length, frag_offset, frag_length), rx') \<and>
    dtls_peer_handshake_number (keys rx') = dtls_handshake_number (keys tx)"
  by (rule handshake_header_read) (rule assms)+

theorem handshake_header_roundtrip_witness:
  "\<exists>rx'. GetDtlsHandShakeHeader \<lparr>rl_type = handshake, rl_pvMajor = DTLS_MAJOR, rl_pvMinor = DTLSv1_2_MINOR\<rparr>
      (Dtls13HandshakeAddHeaderFrag finished 100 200 1000 fresh_ssl @ [1, 2, 3]) 15 fresh_ssl =
      (Inr (20, 1000, 100, 200), rx')"
  using handshake_header_roundtrip[of 100 200 1000 15 finished fresh_ssl "[1, 2, 3]" fresh_ssl] by auto

text \<open>
  The mask constant \<open>0x111 << 5\<close> (for the intended binary \<open>111\<close>) makes the unified header test
  ignore the two highest bits of the first byte: bytes that RFC 9147 reserves are accepted.
\<close>

theorem unified_header_accepts_reserved:
  "Dtls13IsUnifiedHeader 0xE0 \<and> Dtls13IsUnifiedHeader 0x60 \<and> Dtls13IsUnifiedHeader 0xA0"
  by code_simp

end
