(* ===== verification/Dtls13Protect.thy ===== *)
theory Dtls13Protect
  imports Dtls13Record
begin

text \<open>
  Protection of records (\<open>src/tls13.c\<close>): nonces, AEAD encryption and decryption, \<open>BuildTls13Message\<close>
  with its padding, and the removal of the padding on the receiving side (\<open>src/internal.c\<close>).

  AES-GCM is a parameter: \<open>gcm_encrypt\<close> and \<open>gcm_decrypt\<close> take key, nonce, additional data and text;
  the ciphertext is followed by a tag of \<open>aead_mac_size\<close> bytes.  The block cipher of the record number
  protection is the parameter \<open>aes\<close>.
\<close>

definition aead_mac_size :: nat where [simp]: "aead_mac_size = 16"
definition ENCRYPT_ERROR :: wolf_rc where "ENCRYPT_ERROR = RC_OTHER (-314)"

section \<open>Nonces\<close>

text \<open>
  The status of \<open>Dtls13GetSeq\<close> is ignored: if it fails before it has a number the number is 0, and when
  the counter wraps around the last number is still used.
\<close>

definition WriteSEQTls13 :: "seq_order \<Rightarrow> WOLFSSL \<Rightarrow> bytes \<times> WOLFSSL" where
  "WriteSEQTls13 order ssl =
     (case Dtls13GetSeq order True ssl of
        (_, sq, ssl) \<Rightarrow>
          (case sq of Some (hi, lo) \<Rightarrow> (c32toa hi @ c32toa lo, ssl) | None \<Rightarrow> (c32toa 0 @ c32toa 0, ssl)))"

definition BuildTls13Nonce :: "bytes \<Rightarrow> seq_order \<Rightarrow> WOLFSSL \<Rightarrow> bytes \<times> WOLFSSL" where
  "BuildTls13Nonce iv order ssl =
     (case WriteSEQTls13 order ssl of
        (sq, ssl) \<Rightarrow> (take 4 iv @ map2 (XOR) sq (take 8 (drop 4 iv)), ssl))"

section \<open>Encryption\<close>

type_synonym gcm = "bytes \<Rightarrow> bytes \<Rightarrow> bytes \<Rightarrow> bytes \<Rightarrow> wolf_rc + bytes"

text \<open>
  \<open>EncryptTls13\<close> of the data bytes in front of the room for the tag; the result is the ciphertext with
  the tag.  The nonce buffer is allocated on the first call; a missing cipher object is rejected by
  AES-GCM.
\<close>

definition EncryptTls13 :: "gcm \<Rightarrow> bytes \<Rightarrow> bytes \<Rightarrow> WOLFSSL \<Rightarrow> (wolf_rc + bytes) \<times> WOLFSSL" where
  "EncryptTls13 gcm_encrypt plain aad ssl =
     (case (if encrypt_nonce (flags ssl) then Some ssl else xmalloc ssl) of
        None \<Rightarrow> (Inl MEMORY_E, ssl)
      | Some ssl \<Rightarrow>
          (let ssl = ssl\<lparr>flags := (flags ssl)\<lparr>encrypt_nonce := True\<rparr>\<rparr>;
               (nonce, ssl) = BuildTls13Nonce (k_aead_enc_imp_IV (keys ssl)) CUR_ORDER ssl
           in if bulk_cipher_algorithm (options ssl) \<noteq> wolfssl_aes_gcm then (Inl ENCRYPT_ERROR, ssl)
              else (case encrypt_aes (epochs ssl) of
                      None \<Rightarrow> (Inl BAD_FUNC_ARG, ssl)
                    | Some key \<Rightarrow> (gcm_encrypt key nonce aad plain, ssl))))"

text \<open>
  The size of a protected record and its padding: content type, tag, and zeros up to the minimum length.
  With \<open>sizeOnly\<close> the function returns just this size.
\<close>

definition build_size :: "nat \<Rightarrow> nat \<times> nat" where
  "build_size inSz =
     (let sz = Dtls13GetRlHeaderLength True + inSz + 1 + aead_mac_size
      in if sz < Dtls13MinimumRecordLength
         then (Dtls13MinimumRecordLength, Dtls13MinimumRecordLength - sz) else (sz, 0))"

text \<open>
  \<open>BuildTls13Message\<close> as the DTLS layer calls it (no hashing of the output, blocking).  The record is
  the unified header, which is the additional data, and the encryption of input, content type and
  padding; then the record number is encrypted.  All callers have an encryption epoch.
\<close>

definition BuildTls13Message ::
    "gcm \<Rightarrow> (bytes \<Rightarrow> bytes \<Rightarrow> wolf_rc + bytes) \<Rightarrow> nat \<Rightarrow> bytes \<Rightarrow> u8 \<Rightarrow> WOLFSSL \<Rightarrow> (wolf_rc + bytes) \<times> WOLFSSL" where
  "BuildTls13Message gcm_encrypt aes outSz input type ssl =
     (let (sz, paddingSz) = build_size (length input) in
      if outSz < sz then (Inl BUFFER_E, ssl)
      else
        (let size = of_nat (sz - Dtls13GetRlHeaderLength True) :: u16 in
         case Dtls13RlAddCiphertextHeader size ssl of
           Inl rc \<Rightarrow> (Inl rc, ssl)
         | Inr aad \<Rightarrow>
             (case EncryptTls13 gcm_encrypt (input @ [type] @ replicate paddingSz 0) aad ssl of
                (Inl rc, ssl) \<Rightarrow> (Inl rc, ssl)
              | (Inr ct, ssl) \<Rightarrow> (Dtls13EncryptRecordNumber aes (aad @ ct) (of_nat sz) ssl, ssl))))"

section \<open>Decryption\<close>

definition DecryptTls13 :: "gcm \<Rightarrow> bytes \<Rightarrow> bytes \<Rightarrow> WOLFSSL \<Rightarrow> (wolf_rc + bytes) \<times> WOLFSSL" where
  "DecryptTls13 gcm_decrypt cipher aad ssl =
     (case (if decrypt_nonce (flags ssl) then Some ssl else xmalloc ssl) of
        None \<Rightarrow> (Inl MEMORY_E, ssl)
      | Some ssl \<Rightarrow>
          (let ssl = ssl\<lparr>flags := (flags ssl)\<lparr>decrypt_nonce := True\<rparr>\<rparr>;
               (nonce, ssl) = BuildTls13Nonce (k_aead_dec_imp_IV (keys ssl)) PEER_ORDER ssl
           in if bulk_cipher_algorithm (options ssl) \<noteq> wolfssl_aes_gcm then (Inl DECRYPT_ERROR, ssl)
              else (case decrypt_aes (epochs ssl) of
                      None \<Rightarrow> (Inl BAD_FUNC_ARG, ssl)
                    | Some key \<Rightarrow> (gcm_decrypt key nonce aad cipher, ssl))))"

text \<open>
  \<open>removeMsgInnerPadding\<close> on the input buffer; \<open>idx\<close> is the start of the record's content and \<open>curSize\<close>
  its size with the tag.  The scan goes down to \<open>idx\<close>, whose byte is taken whatever it is.  The result is
  the content type and \<open>padSz\<close>.
\<close>

fun padding_scan :: "bytes \<Rightarrow> nat \<Rightarrow> nat \<Rightarrow> nat" where
  "padding_scan buf idx i = (if idx < i \<and> buf ! i = 0 then padding_scan buf idx (i - 1) else i)"

declare padding_scan.simps [simp del]

definition removeMsgInnerPadding :: "bytes \<Rightarrow> nat \<Rightarrow> nat \<Rightarrow> wolf_rc + (u8 \<times> nat)" where
  "removeMsgInnerPadding buf idx curSize =
     (let i = idx + curSize - aead_mac_size in
      if length buf < i \<or> i = 0 then Inl BUFFER_ERROR
      else (let i = padding_scan buf idx (i - 1) in Inr (buf ! i, idx + curSize - i)))"

text \<open>An AEAD ciphertext holds at least the tag.\<close>

definition SanityCheckCipherText :: "nat \<Rightarrow> wolf_rc" where
  "SanityCheckCipherText encryptSz = (if encryptSz < aead_mac_size then SANITY_CIPHER_E else RC_OK)"

text \<open>\<open>DoDecrypt\<close>: decryption in place; \<open>aad\<close> is \<open>ssl->dtls13CurRL\<close>, the header with the decrypted number.\<close>

definition DoDecrypt :: "gcm \<Rightarrow> bytes \<Rightarrow> nat \<Rightarrow> nat \<Rightarrow> bytes \<Rightarrow> WOLFSSL \<Rightarrow> (wolf_rc + bytes) \<times> WOLFSSL" where
  "DoDecrypt gcm_decrypt buf idx curSize aad ssl =
     (let ret = SanityCheckCipherText curSize in
      if ret \<noteq> RC_OK then (Inl ret, ssl)
      else
        (case DecryptTls13 gcm_decrypt (take curSize (drop idx buf)) aad ssl of
           (Inl rc, ssl) \<Rightarrow> (Inl rc, ssl)
         | (Inr p, ssl) \<Rightarrow> (Inr (take idx buf @ p @ drop (idx + length p) buf), ssl)))"

section \<open>Facts\<close>

lemma padding_scan_replicate:
  "length pre = i \<Longrightarrow> t \<noteq> 0 \<Longrightarrow> idx \<le> i \<Longrightarrow> padding_scan (pre @ [t] @ replicate n 0 @ rest) idx (i + n) = i"
proof (induction n arbitrary: rest)
  case 0
  then show ?case by (simp add: padding_scan.simps nth_append)
next
  case (Suc n)
  have eq: "pre @ [t] @ replicate (Suc n) 0 @ rest = pre @ [t] @ replicate n 0 @ (0 # rest)"
    by (simp add: replicate_app_Cons_same)
  have "(pre @ [t] @ replicate n 0 @ (0 # rest)) ! (i + Suc n) = 0"
    using Suc.prems(1) by (simp add: nth_append)
  then show ?case
    unfolding eq using Suc.IH[of "0 # rest"] Suc.prems by (subst padding_scan.simps) simp
qed

lemma map2_xor_inj:
  "length xs = length zs \<Longrightarrow> length ys = length zs \<Longrightarrow> map2 (XOR) xs zs = map2 (XOR) ys zs \<Longrightarrow> xs = (ys :: bytes)"
  by (metis map2_xor_twice)

lemma seq_bytes_inj: "c32toa (w64GetHigh32 a) @ c32toa (w64GetLow32 a) = c32toa (w64GetHigh32 b) @ c32toa (w64GetLow32 b) \<Longrightarrow> a = b"
proof -
  assume eq: "c32toa (w64GetHigh32 a) @ c32toa (w64GetLow32 a) = c32toa (w64GetHigh32 b) @ c32toa (w64GetLow32 b)"
  have "w64GetHigh32 a = w64GetHigh32 b"
    using arg_cong[OF eq, of ato32] by simp
  moreover have "w64GetLow32 a = w64GetLow32 b"
    using arg_cong[OF eq, of "ato32 \<circ> drop 4"] ato32_c32toa[of _ "[]"] by simp
  ultimately show "a = b" using w64_split by metis
qed


text \<open>The nonce of the next record of the sending epoch.\<close>

definition seq_bytes :: "u64 \<Rightarrow> bytes" where
  "seq_bytes s = c32toa (w64GetHigh32 s) @ c32toa (w64GetLow32 s)"

definition nonce_for :: "bytes \<Rightarrow> u64 \<Rightarrow> bytes" where
  "nonce_for iv s = take 4 iv @ map2 (XOR) (seq_bytes s) (take 8 (drop 4 iv))"

lemma length_seq_bytes [simp]: "length (seq_bytes s) = 8"
  by (simp add: seq_bytes_def)

lemma nonce_for_inj: "12 \<le> length iv \<Longrightarrow> nonce_for iv a = nonce_for iv b \<Longrightarrow> a = b"
  using map2_xor_inj[of "seq_bytes a" "take 8 (drop 4 iv)" "seq_bytes b"] seq_bytes_inj[of a b]
  by (simp add: nonce_for_def) (simp add: seq_bytes_def)

lemma BuildNonce_peer: "BuildTls13Nonce iv PEER_ORDER ssl = (nonce_for iv (curSeq (keys ssl)), ssl)"
  by (simp add: BuildTls13Nonce_def WriteSEQTls13_def Dtls13GetSeq_def Let_def nonce_for_def seq_bytes_def)

text \<open>What sending a record changes: the counter of the epoch.\<close>

definition sent_one :: "nat \<Rightarrow> WOLFSSL \<Rightarrow> WOLFSSL" where
  "sent_one i ssl = set_epoch i
     ((dtls13Epochs (epochs ssl) ! i)\<lparr>nextSeqNumber := nextSeqNumber (dtls13Epochs (epochs ssl) ! i) + 1\<rparr>) ssl"

lemma BuildNonce_cur:
  "dtls13EncryptEpoch (epochs ssl) = Some i \<Longrightarrow>
   BuildTls13Nonce iv CUR_ORDER ssl = (nonce_for iv (nextSeqNumber (dtls13Epochs (epochs ssl) ! i)), sent_one i ssl)"
  by (simp add: BuildTls13Nonce_def WriteSEQTls13_def Dtls13GetSeq_def Let_def nonce_for_def seq_bytes_def sent_one_def)

lemma sent_one_simps [simp]:
  "keys (sent_one i ssl) = keys ssl" "options (sent_one i ssl) = options ssl" "flags (sent_one i ssl) = flags ssl"
  "dtls13EncryptEpoch (epochs (sent_one i ssl)) = dtls13EncryptEpoch (epochs ssl)"
  "rnEncryptKey (epochs (sent_one i ssl)) = rnEncryptKey (epochs ssl)"
  "encrypt_aes (epochs (sent_one i ssl)) = encrypt_aes (epochs ssl)"
  "length (dtls13Epochs (epochs (sent_one i ssl))) = length (dtls13Epochs (epochs ssl))"
  "heap_left (sent_one i ssl) = heap_left ssl"
  by (simp_all add: sent_one_def set_epoch_def)

lemma sent_one_seq:
  "i < length (dtls13Epochs (epochs ssl)) \<Longrightarrow>
   nextSeqNumber (dtls13Epochs (epochs (sent_one i ssl)) ! i) = nextSeqNumber (dtls13Epochs (epochs ssl) ! i) + 1"
  by (simp add: sent_one_def set_epoch_def)

text \<open>The state after the nonce buffer was allocated.\<close>

definition with_nonce :: "WOLFSSL \<Rightarrow> WOLFSSL" where
  "with_nonce ssl = (if encrypt_nonce (flags ssl) then ssl
     else ssl\<lparr>heap_left := heap_left ssl - 1, flags := (flags ssl)\<lparr>encrypt_nonce := True\<rparr>\<rparr>)"

lemma with_nonce_simps [simp]:
  "keys (with_nonce ssl) = keys ssl" "options (with_nonce ssl) = options ssl" "epochs (with_nonce ssl) = epochs ssl"
  "encrypt_nonce (flags (with_nonce ssl))"
  by (simp_all add: with_nonce_def)

definition can_encrypt :: "nat \<Rightarrow> WOLFSSL \<Rightarrow> bool" where
  "can_encrypt i ssl \<longleftrightarrow> dtls13EncryptEpoch (epochs ssl) = Some i \<and> i < length (dtls13Epochs (epochs ssl)) \<and>
     encrypt_aes (epochs ssl) \<noteq> None \<and> bulk_cipher_algorithm (options ssl) = wolfssl_aes_gcm \<and>
     (encrypt_nonce (flags ssl) \<or> 0 < heap_left ssl)"

lemma EncryptTls13_eq:
  assumes "can_encrypt i ssl"
  shows "EncryptTls13 gcm_encrypt plain aad ssl =
     (gcm_encrypt (the (encrypt_aes (epochs ssl)))
        (nonce_for (k_aead_enc_imp_IV (keys ssl)) (nextSeqNumber (dtls13Epochs (epochs ssl) ! i))) aad plain,
      sent_one i (with_nonce ssl))"
proof -
  have alloc: "(if encrypt_nonce (flags ssl) then Some ssl else xmalloc ssl) =
      Some (if encrypt_nonce (flags ssl) then ssl else ssl\<lparr>heap_left := heap_left ssl - 1\<rparr>)"
    using assms by (auto simp: can_encrypt_def xmalloc_def)
  have "(\<lambda>s. s\<lparr>flags := (flags s)\<lparr>encrypt_nonce := True\<rparr>\<rparr>)
      (if encrypt_nonce (flags ssl) then ssl else ssl\<lparr>heap_left := heap_left ssl - 1\<rparr>) = with_nonce ssl"
    by (simp add: with_nonce_def)
  then show ?thesis
    using assms BuildNonce_cur[of "with_nonce ssl" i] unfolding EncryptTls13_def alloc can_encrypt_def
    by (auto simp: Let_def)
qed

lemma can_encrypt_next: "can_encrypt i ssl \<Longrightarrow> can_encrypt i (sent_one i (with_nonce ssl))"
  by (simp add: can_encrypt_def)


text \<open>A series of records of one epoch.\<close>

fun enc_run :: "gcm \<Rightarrow> (bytes \<times> bytes) list \<Rightarrow> WOLFSSL \<Rightarrow> (wolf_rc + bytes) list" where
  "enc_run gcm_encrypt [] ssl = []"
| "enc_run gcm_encrypt ((plain, aad) # ps) ssl =
     (case EncryptTls13 gcm_encrypt plain aad ssl of (r, ssl) \<Rightarrow> r # enc_run gcm_encrypt ps ssl)"

lemma enc_run_nonces:
  assumes "can_encrypt i ssl"
  shows "enc_run (\<lambda>k n a p. Inr n) ps ssl =
    map (\<lambda>j. Inr (nonce_for (k_aead_enc_imp_IV (keys ssl)) (nextSeqNumber (dtls13Epochs (epochs ssl) ! i) + of_nat j))) [0..<length ps]"
  using assms
proof (induction ps arbitrary: ssl)
  case (Cons p ps)
  let ?s = "sent_one i (with_nonce ssl)"
  have n: "nextSeqNumber (dtls13Epochs (epochs ?s) ! i) = nextSeqNumber (dtls13Epochs (epochs ssl) ! i) + 1"
    using Cons.prems by (simp add: sent_one_seq can_encrypt_def)
  have "[0..<length (p # ps)] = 0 # map Suc [0..<length ps]" by (simp add: upt_conv_Cons map_Suc_upt del: upt_Suc)
  then show ?case
    using Cons.IH[OF can_encrypt_next[OF Cons.prems]] n
    by (cases p) (simp add: EncryptTls13_eq[OF Cons.prems] add.assoc)
qed simp

lemma of_nat_inj_64: "a < 2 ^ 64 \<Longrightarrow> b < 2 ^ 64 \<Longrightarrow> (of_nat a :: u64) = of_nat b \<Longrightarrow> a = b"
proof -
  assume a: "a < 2 ^ 64" "b < 2 ^ 64" and e: "(of_nat a :: u64) = of_nat b"
  have "unat (of_nat a :: u64) = a" "unat (of_nat b :: u64) = b"
    using a by (simp_all add: unsigned_of_nat take_bit_nat_eq_self)
  with e show "a = b" by metis
qed

text \<open>AES-GCM decrypts what it encrypted under the same key, nonce and additional data.\<close>

definition gcm_correct :: "gcm \<Rightarrow> gcm \<Rightarrow> bool" where
  "gcm_correct enc dec \<longleftrightarrow> (\<forall>k n a p. \<exists>ct. enc k n a p = Inr ct \<and> length ct = length p + aead_mac_size \<and> dec k n a ct = Inr p)"

definition can_decrypt :: "WOLFSSL \<Rightarrow> bool" where
  "can_decrypt ssl \<longleftrightarrow> decrypt_aes (epochs ssl) \<noteq> None \<and> bulk_cipher_algorithm (options ssl) = wolfssl_aes_gcm \<and>
     (decrypt_nonce (flags ssl) \<or> 0 < heap_left ssl)"

lemma DecryptTls13_eq:
  assumes "can_decrypt ssl"
  shows "fst (DecryptTls13 gcm_decrypt cipher aad ssl) =
     gcm_decrypt (the (decrypt_aes (epochs ssl))) (nonce_for (k_aead_dec_imp_IV (keys ssl)) (curSeq (keys ssl))) aad cipher"
proof -
  have "(if decrypt_nonce (flags ssl) then Some ssl else xmalloc ssl) =
      Some (if decrypt_nonce (flags ssl) then ssl else ssl\<lparr>heap_left := heap_left ssl - 1\<rparr>)"
    using assms by (auto simp: can_decrypt_def xmalloc_def)
  then show ?thesis
    using assms by (auto simp: DecryptTls13_def can_decrypt_def BuildNonce_peer Let_def)
qed

lemma build_size_form:
  "build_size n = (n + 22, 0)"
  by (simp add: build_size_def Dtls13GetRlHeaderLength_def Dtls13MinimumRecordLength_def Let_def)

lemma EncryptRecordNumber_cong:
  "rnEncryptKey (epochs s) = rnEncryptKey (epochs t) \<Longrightarrow> options s = options t \<Longrightarrow>
   Dtls13EncryptRecordNumber aes h n s = Dtls13EncryptRecordNumber aes h n t"
  by (simp add: Dtls13EncryptRecordNumber_def Dtls13EncryptDecryptRecordNumber_def Dtls13GetRnMask_def Let_def)

lemma length_CiphertextHeader: "Dtls13RlAddCiphertextHeader n ssl = Inr h \<Longrightarrow> length h = 5"
  by (auto simp: Dtls13RlAddCiphertextHeader_def Let_def split: option.splits)

text \<open>The record that is built, in terms of the header functions.\<close>

lemma BuildTls13Message_eq:
  assumes enc: "can_encrypt i ssl" and fit: "length input + 22 \<le> outSz" "length input + 22 < 2 ^ 16"
    and hdr: "Dtls13RlAddCiphertextHeader (of_nat (length input + 17)) ssl = Inr aad"
    and ct: "gcm_encrypt (the (encrypt_aes (epochs ssl)))
        (nonce_for (k_aead_enc_imp_IV (keys ssl)) (nextSeqNumber (dtls13Epochs (epochs ssl) ! i))) aad (input @ [type]) = Inr ct"
      "length ct = length input + 17"
  shows "BuildTls13Message gcm_encrypt aes outSz input type ssl = (protected_record aes ct ssl, sent_one i (with_nonce ssl))"
proof -
  have "(of_nat (length ct) :: u16) = of_nat (length input + 17)" using ct(2) by simp
  then have pr: "protected_record aes ct ssl = Dtls13EncryptRecordNumber aes (aad @ ct) (of_nat (length input + 22)) ssl"
    using hdr ct(2) length_CiphertextHeader[OF hdr] by (simp add: protected_record_def add.commute)
  have cong: "Dtls13EncryptRecordNumber aes h n (sent_one i (with_nonce ssl)) = Dtls13EncryptRecordNumber aes h n ssl" for h n
    by (rule EncryptRecordNumber_cong) simp_all
  have "of_nat (length input + 22 - Dtls13GetRlHeaderLength True) = (of_nat (length input + 17) :: u16)"
    by (simp add: Dtls13GetRlHeaderLength_def)
  then show ?thesis
    unfolding BuildTls13Message_def build_size_form prod.case Let_def
    using fit(1) hdr ct(1) by (simp add: EncryptTls13_eq[OF enc] cong pr del: of_nat_add)
qed

text \<open>The receiver's view of a record: the header is parsed and the sequence number recovered.\<close>

lemma receive_header:
  assumes tx: "dtls13EncryptEpoch (epochs tx) = Some i" "rnEncryptKey (epochs tx) = Some key"
      "bulk_cipher_algorithm (options tx) = wolfssl_aes_gcm"
    and ct: "16 \<le> length ct" "length ct + 5 < 2 ^ 16" and aes: "aes_total aes"
    and rx: "rnDecryptKey (epochs rx) = Some key" "bulk_cipher_algorithm (options rx) = wolfssl_aes_gcm" "tls1_3 (options rx)"
      "dtls13DecryptEpoch (epochs rx) = Some d"
    and ep: "epochNumber (dtls13Epochs (epochs rx) ! d) = epochNumber (dtls13Epochs (epochs tx) ! i)"
      "dtls13PeerEpoch (epochs rx) = epochNumber (dtls13Epochs (epochs tx) ! i)" "dtls13PeerEpoch (epochs rx) \<noteq> 0"
    and close: "unat s < unat n + 2 ^ 15" "unat n < unat s + 2 ^ 15" "unat n + 2 ^ 17 < 2 ^ 64"
      "s = nextSeqNumber (dtls13Epochs (epochs tx) ! i)" "n = nextPeerSeqNumber (dtls13Epochs (epochs rx) ! d)"
  shows "\<exists>rec hdr. protected_record aes ct tx = Inr rec \<and> Dtls13RlAddCiphertextHeader (of_nat (length ct)) tx = Inr hdr \<and>
    GetDtlsRecordHeader gcm_set aes_init aes rec rx =
      (Inr (\<lparr>rl_type = application_data, rl_pvMajor = DTLS_MAJOR, rl_pvMinor = DTLSv1_2_MINOR\<rparr>, of_nat (length ct), 5, hdr @ ct),
       rx\<lparr>options := (options rx)\<lparr>seenUnifiedHdr := True\<rparr>, keys := (keys rx)\<lparr>curEpoch64 := dtls13PeerEpoch (epochs rx), curSeq := s\<rparr>\<rparr>)"
proof -
  let ?e = "dtls13Epochs (epochs tx) ! i"
  let ?f = "push_bit 5 1 OR Dtls13GetEpochBits (epochNumber ?e) OR push_bit 3 1 OR push_bit 2 1"
  let ?rx = "rx\<lparr>options := (options rx)\<lparr>seenUnifiedHdr := True\<rparr>\<rparr>"
  obtain a b c dd m where ab: "c16toa (ucast (w64GetLow32 (nextSeqNumber ?e))) = [a, b]"
    and cd: "c16toa (of_nat (length ct)) = [c, dd]" and m: "aes key (take 16 ct) = Inr m" "length m = 16"
    and rec: "protected_record aes ct tx = Inr ([?f, a XOR m ! 0, b XOR m ! 1, c, dd] @ ct)"
    using protected_record_form[OF tx(1) ct tx(2,3) aes] by blast
  let ?rec = "[?f, a XOR m ! 0, b XOR m ! 1, c, dd] @ ct"
  note fb = flags_bits[OF epoch_bits_cases[of "epochNumber ?e"]]
  have hdr: "Dtls13RlAddCiphertextHeader (of_nat (length ct)) tx = Inr [?f, a, b, c, dd]"
    using tx(1) ab cd by (simp add: Dtls13RlAddCiphertextHeader_def Let_def or.assoc)
  have parse: "Dtls13ParseUnifiedRecordLayer aes ?rec (of_nat (length ct + 5)) ?rx =
    Inr (\<lparr>recordLength = of_nat (length ct), seqLo = b, seqHi = a, seqHiPresent = True,
          epochBits = Dtls13GetEpochBits (epochNumber ?e)\<rparr>, [?f, a, b, c, dd] @ ct)"
    by (rule parse_protected[where aes = aes, OF _ _ ct cd m]) (use fb rx in auto)
  have low: "push_bit 8 (ucast a) OR ucast b = (ucast s :: u16)"
  proof -
    have "push_bit 8 (ucast a) OR ucast b = (ucast (w64GetLow32 (nextSeqNumber ?e)) :: u16)"
      using c16toa_two[of "ucast (w64GetLow32 (nextSeqNumber ?e))"] ab by auto
    also have "\<dots> = ucast s" unfolding w64GetLow32_def close(4) by (rule bit_word_eqI) (auto simp: bit_simps)
    finally show ?thesis .
  qed
  have seq: "Dtls13ReconstructSeqNumber \<lparr>recordLength = of_nat (length ct), seqLo = b, seqHi = a, seqHiPresent = True,
          epochBits = Dtls13GetEpochBits (epochNumber ?e)\<rparr> n = s"
    by (rule Reconstruct_close) (use low close in simp_all)
  have first: "?rec ! 0 = ?f" and len: "length ?rec = length ct + 5" by simp_all
  have uni: "Dtls13IsUnifiedHeader ?f" and bits: "?f AND ucast EE_MASK = Dtls13GetEpochBits (epochNumber ?e)"
    and hs: "Dtls13GetUnifiedHeaderSize ?f = 5"
    using fb unfolding Dtls13GetUnifiedHeaderSize_def DTLS13_SEQ_LEN_BIT_def DTLS13_LEN_BIT_def by (simp, simp, presburger)
  have re: "Dtls13ReconstructEpochNumber (Dtls13GetEpochBits (epochNumber ?e)) (epochs ?rx) = Inr (dtls13PeerEpoch (epochs rx))"
    using ep(2) by (simp add: Dtls13ReconstructEpochNumber_def)
  have g13: "GetDtls13RecordHeader gcm_set aes_init aes ?rec ?rx =
      (Inr (\<lparr>rl_type = application_data, rl_pvMajor = DTLS_MAJOR, rl_pvMinor = DTLSv1_2_MINOR\<rparr>, of_nat (length ct), 5,
         [?f, a, b, c, dd] @ ct),
       ?rx\<lparr>keys := (keys ?rx)\<lparr>curEpoch64 := dtls13PeerEpoch (epochs rx), curSeq := s\<rparr>\<rparr>)"
    unfolding GetDtls13RecordHeader_def first len Let_def bits re sum.case hs parse
    using rx(4) ep(1-3) seq close(5) ct(1) parse by (simp del: append.simps)
  have "GetDtlsRecordHeader gcm_set aes_init aes ?rec rx = (fst (GetDtls13RecordHeader gcm_set aes_init aes ?rec ?rx),
      snd (GetDtls13RecordHeader gcm_set aes_init aes ?rec ?rx))"
    unfolding GetDtlsRecordHeader_def first using uni rx(3) g13 by (simp add: Let_def del: append.simps)
  with g13 rec hdr show ?thesis by auto
qed

text \<open>What the receiver has noted after the header of a protected record with number \<open>s\<close>.\<close>

definition rx_header :: "u64 \<Rightarrow> WOLFSSL \<Rightarrow> WOLFSSL" where
  "rx_header s rx = rx\<lparr>options := (options rx)\<lparr>seenUnifiedHdr := True\<rparr>,
     keys := (keys rx)\<lparr>curEpoch64 := dtls13PeerEpoch (epochs rx), curSeq := s\<rparr>\<rparr>"

lemma protected_record_received:
  assumes tx: "can_encrypt i tx" "rnEncryptKey (epochs tx) = Some rk"
    and rx: "can_decrypt rx" "rnDecryptKey (epochs rx) = Some rk" "tls1_3 (options rx)" "dtls13DecryptEpoch (epochs rx) = Some d"
    and shared: "decrypt_aes (epochs rx) = encrypt_aes (epochs tx)" "k_aead_dec_imp_IV (keys rx) = k_aead_enc_imp_IV (keys tx)"
    and ep: "epochNumber (dtls13Epochs (epochs rx) ! d) = epochNumber (dtls13Epochs (epochs tx) ! i)"
      "dtls13PeerEpoch (epochs rx) = epochNumber (dtls13Epochs (epochs tx) ! i)" "dtls13PeerEpoch (epochs rx) \<noteq> 0"
    and close: "unat s < unat n + 2 ^ 15" "unat n < unat s + 2 ^ 15" "unat n + 2 ^ 17 < 2 ^ 64"
      "s = nextSeqNumber (dtls13Epochs (epochs tx) ! i)" "n = nextPeerSeqNumber (dtls13Epochs (epochs rx) ! d)"
    and crypto: "aes_total aes" "gcm_correct gcm_encrypt gcm_decrypt"
    and input: "length input + 22 \<le> outSz" "length input + 22 < 2 ^ 16" "type \<noteq> 0"
  shows "\<exists>rec tx' aad ct. length aad = 5 \<and> length ct = length input + 17 \<and>
    BuildTls13Message gcm_encrypt aes outSz input type tx = (Inr rec, tx') \<and> length rec = length ct + 5 \<and>
    GetDtlsRecordHeader gcm_set aes_init aes rec rx =
      (Inr (\<lparr>rl_type = application_data, rl_pvMajor = DTLS_MAJOR, rl_pvMinor = DTLSv1_2_MINOR\<rparr>, of_nat (length ct), 5, aad @ ct), rx_header s rx) \<and>
    DoDecrypt gcm_decrypt (aad @ ct) 5 (length ct) aad (rx_header s rx) =
      (Inr (aad @ input @ [type] @ drop (length input + 1) ct), snd (DecryptTls13 gcm_decrypt ct aad (rx_header s rx))) \<and>
    removeMsgInnerPadding (aad @ input @ [type] @ drop (length input + 1) ct) 5 (length ct) = Inr (type, 17)"
proof -
  let ?key = "the (encrypt_aes (epochs tx))" and ?nonce = "nonce_for (k_aead_enc_imp_IV (keys tx)) s"
  have e: "dtls13EncryptEpoch (epochs tx) = Some i" and gtx: "bulk_cipher_algorithm (options tx) = wolfssl_aes_gcm"
    using tx(1) by (auto simp: can_encrypt_def)
  have grx: "bulk_cipher_algorithm (options rx) = wolfssl_aes_gcm" using rx(1) by (simp add: can_decrypt_def)
  obtain aad where aad: "Dtls13RlAddCiphertextHeader (of_nat (length input + 17)) tx = Inr aad"
    using e by (simp add: Dtls13RlAddCiphertextHeader_def Let_def)
  obtain ct where ct: "gcm_encrypt ?key ?nonce aad (input @ [type]) = Inr ct" "length ct = length input + 17"
      "gcm_decrypt ?key ?nonce aad ct = Inr (input @ [type])"
    using crypto(2) unfolding gcm_correct_def by (metis aead_mac_size_def length_append_singleton add_Suc add_Suc_right eval_nat_numeral(3))
  have la: "length aad = 5" using aad by (rule length_CiphertextHeader)
  have build: "BuildTls13Message gcm_encrypt aes outSz input type tx = (protected_record aes ct tx, sent_one i (with_nonce tx))"
    using BuildTls13Message_eq[OF tx(1) input(1,2) aad _ ct(2)] ct(1) close(4) by simp
  have l: "16 \<le> length ct" "length ct + 5 < 2 ^ 16" using ct(2) input(2) by simp_all
  obtain rec where rec: "protected_record aes ct tx = Inr rec" and
    get: "GetDtlsRecordHeader gcm_set aes_init aes rec rx =
      (Inr (\<lparr>rl_type = application_data, rl_pvMajor = DTLS_MAJOR, rl_pvMinor = DTLSv1_2_MINOR\<rparr>, of_nat (length ct), 5, aad @ ct),
       rx\<lparr>options := (options rx)\<lparr>seenUnifiedHdr := True\<rparr>, keys := (keys rx)\<lparr>curEpoch64 := dtls13PeerEpoch (epochs rx), curSeq := s\<rparr>\<rparr>)"
    using receive_header[OF e tx(2) gtx l crypto(1) rx(2) grx rx(3,4) ep close, of gcm_set aes_init] aad ct(2) by auto
  have "can_decrypt (rx_header s rx)" using rx(1) by (simp add: can_decrypt_def rx_header_def)
  then have "fst (DecryptTls13 gcm_decrypt ct aad (rx_header s rx)) = Inr (input @ [type])"
    using ct(3) shared by (simp add: DecryptTls13_eq rx_header_def)
  then obtain rx2 where dec: "DecryptTls13 gcm_decrypt ct aad (rx_header s rx) = (Inr (input @ [type]), rx2)"
    by (cases "DecryptTls13 gcm_decrypt ct aad (rx_header s rx)") auto
  define buf' where "buf' = aad @ input @ [type] @ drop (length input + 1) ct"
  have do_dec: "DoDecrypt gcm_decrypt (aad @ ct) 5 (length ct) aad (rx_header s rx) = (Inr buf', rx2)"
    using la ct(2) dec by (simp add: DoDecrypt_def buf'_def SanityCheckCipherText_def)
  have scan: "padding_scan buf' 5 (5 + length input) = 5 + length input"
    using padding_scan_replicate[of "aad @ input" "5 + length input" type 5 0 "drop (length input + 1) ct"] la input(3)
    by (simp add: buf'_def)
  have rem: "removeMsgInnerPadding buf' 5 (length input + 17) = Inr (type, 17)"
    using scan la ct(2) by (simp add: removeMsgInnerPadding_def Let_def buf'_def nth_append)
  have lr: "length rec = length ct + 5" using protected_record_form[OF e l tx(2) gtx crypto(1)] rec by auto
  show ?thesis
    by (intro exI[of _ rec] exI[of _ "sent_one i (with_nonce tx)"] exI[of _ aad] exI[of _ ct])
      (use la ct(2) build rec get do_dec rem dec lr in \<open>simp add: rx_header_def buf'_def\<close>)
qed

section \<open>Properties\<close>

text \<open>
  C15. Protected record round trip.  Sender and receiver share the traffic key, the IV and the record
  number key of an epoch, and the receiver expects a number less than \<open>2 ^ 15\<close> away.  Then the record
  that \<open>BuildTls13Message\<close> makes of any content is recognised, its sequence number recovered in full, and
  decryption and removal of the padding give back the content type and the content; for every AEAD and
  block cipher that decrypts what it encrypted.
\<close>

theorem protected_record_roundtrip:
  assumes tx: "can_encrypt i tx" "rnEncryptKey (epochs tx) = Some rk"
    and rx: "can_decrypt rx" "rnDecryptKey (epochs rx) = Some rk" "tls1_3 (options rx)" "dtls13DecryptEpoch (epochs rx) = Some d"
    and shared: "decrypt_aes (epochs rx) = encrypt_aes (epochs tx)" "k_aead_dec_imp_IV (keys rx) = k_aead_enc_imp_IV (keys tx)"
    and ep: "epochNumber (dtls13Epochs (epochs rx) ! d) = epochNumber (dtls13Epochs (epochs tx) ! i)"
      "dtls13PeerEpoch (epochs rx) = epochNumber (dtls13Epochs (epochs tx) ! i)" "dtls13PeerEpoch (epochs rx) \<noteq> 0"
    and close: "unat s < unat n + 2 ^ 15" "unat n < unat s + 2 ^ 15" "unat n + 2 ^ 17 < 2 ^ 64"
      "s = nextSeqNumber (dtls13Epochs (epochs tx) ! i)" "n = nextPeerSeqNumber (dtls13Epochs (epochs rx) ! d)"
    and crypto: "aes_total aes" "gcm_correct gcm_encrypt gcm_decrypt"
    and input: "length input + 22 \<le> outSz" "length input + 22 < 2 ^ 16" "type \<noteq> 0"
  shows "\<exists>rec tx' rh sz hl buf rx1 buf' rx2 padSz.
    BuildTls13Message gcm_encrypt aes outSz input type tx = (Inr rec, tx') \<and>
    GetDtlsRecordHeader gcm_set aes_init aes rec rx = (Inr (rh, sz, hl, buf), rx1) \<and> curSeq (keys rx1) = s \<and>
    DoDecrypt gcm_decrypt buf hl (unat sz) (take hl buf) rx1 = (Inr buf', rx2) \<and>
    removeMsgInnerPadding buf' hl (unat sz) = Inr (type, padSz) \<and> take (unat sz - padSz) (drop hl buf') = input"
proof -
  obtain rec tx' aad ct where r: "length aad = 5" "length ct = length input + 17"
    "BuildTls13Message gcm_encrypt aes outSz input type tx = (Inr rec, tx')"
    "GetDtlsRecordHeader gcm_set aes_init aes rec rx =
      (Inr (\<lparr>rl_type = application_data, rl_pvMajor = DTLS_MAJOR, rl_pvMinor = DTLSv1_2_MINOR\<rparr>, of_nat (length ct), 5, aad @ ct), rx_header s rx)"
    "DoDecrypt gcm_decrypt (aad @ ct) 5 (length ct) aad (rx_header s rx) =
      (Inr (aad @ input @ [type] @ drop (length input + 1) ct), snd (DecryptTls13 gcm_decrypt ct aad (rx_header s rx)))"
    "removeMsgInnerPadding (aad @ input @ [type] @ drop (length input + 1) ct) 5 (length ct) = Inr (type, 17)"
    using protected_record_received[OF assms, of gcm_set aes_init] by blast
  have usz: "unat (of_nat (length ct) :: u16) = length ct"
    unfolding r(2) using input(2) by (simp add: unsigned_of_nat take_bit_nat_eq_self del: of_nat_add)
  have aad: "take 5 (aad @ ct) = aad" and body: "take (length ct - 17) (drop 5 (aad @ input @ [type] @ drop (length input + 1) ct)) = input"
    using r(1,2) by simp_all
  have seq: "curSeq (keys (rx_header s rx)) = s" by (simp add: rx_header_def)
  show ?thesis
    by (intro exI conjI) (rule r(3), rule r(4), rule seq, simp only: usz aad, rule r(5), simp only: usz, rule r(6), simp only: usz, rule body)
qed

definition epoch3_ssl :: WOLFSSL where
  "epoch3_ssl = fresh_ssl\<lparr>
     epochs := (epochs fresh_ssl)\<lparr>dtls13Epochs := [zero_epoch\<lparr>epochNumber := 3, isValid := True\<rparr>], dtls13PeerEpoch := 3,
       rnEncryptKey := Some [9], rnDecryptKey := Some [9], encrypt_aes := Some [1], decrypt_aes := Some [1]\<rparr>,
     keys := (keys fresh_ssl)\<lparr>k_aead_enc_imp_IV := replicate 12 5, k_aead_dec_imp_IV := replicate 12 5\<rparr>\<rparr>"

theorem protected_record_roundtrip_witness:
  "\<exists>rec tx' rh sz hl buf rx1 buf' rx2 padSz.
    BuildTls13Message (\<lambda>k n a p. Inr (p @ replicate 16 0)) (\<lambda>k b. Inr (rev b)) 100 [1, 2, 3] 22 epoch3_ssl = (Inr rec, tx') \<and>
    GetDtlsRecordHeader (\<lambda>k. RC_OK) (\<lambda>k. RC_OK) (\<lambda>k b. Inr (rev b)) rec epoch3_ssl = (Inr (rh, sz, hl, buf), rx1) \<and>
    DoDecrypt (\<lambda>k n a c. Inr (take (length c - 16) c)) buf hl (unat sz) (take hl buf) rx1 = (Inr buf', rx2) \<and>
    removeMsgInnerPadding buf' hl (unat sz) = Inr (22, padSz) \<and> take (unat sz - padSz) (drop hl buf') = [1, 2, 3]"
proof -
  have a: "aes_total (\<lambda>k b. Inr (rev b))" by (simp add: aes_total_def)
  have g: "gcm_correct (\<lambda>k n a p. Inr (p @ replicate 16 0)) (\<lambda>k n a c. Inr (take (length c - 16) c))"
    by (simp add: gcm_correct_def)
  have e: "can_encrypt 0 epoch3_ssl" "can_decrypt epoch3_ssl"
    by (simp_all add: can_encrypt_def can_decrypt_def epoch3_ssl_def fresh_ssl_def)
  have s: "rnEncryptKey (epochs epoch3_ssl) = Some [9]" "rnDecryptKey (epochs epoch3_ssl) = Some [9]" "tls1_3 (options epoch3_ssl)"
      "dtls13DecryptEpoch (epochs epoch3_ssl) = Some 0" "decrypt_aes (epochs epoch3_ssl) = encrypt_aes (epochs epoch3_ssl)"
      "k_aead_dec_imp_IV (keys epoch3_ssl) = k_aead_enc_imp_IV (keys epoch3_ssl)"
      "dtls13PeerEpoch (epochs epoch3_ssl) = epochNumber (dtls13Epochs (epochs epoch3_ssl) ! 0)"
      "dtls13PeerEpoch (epochs epoch3_ssl) \<noteq> 0"
      "nextSeqNumber (dtls13Epochs (epochs epoch3_ssl) ! 0) = 0" "nextPeerSeqNumber (dtls13Epochs (epochs epoch3_ssl) ! 0) = 0"
    by (simp_all add: epoch3_ssl_def fresh_ssl_def zero_epoch_def)
  show ?thesis
    using protected_record_roundtrip[OF e(1) s(1) e(2) s(2,3,4,5,6) refl s(7,8) _ _ _ s(9)[symmetric] s(10)[symmetric] a g,
        of "[1, 2, 3]" 100 22 "\<lambda>k. RC_OK" "\<lambda>k. RC_OK"]
    by fastforce
qed

text \<open>
  C16. No nonce is used twice in an epoch: the nonces AES-GCM is given for up to \<open>2 ^ 64\<close> consecutive
  records of an epoch are pairwise distinct, whatever the records contain.
\<close>

theorem nonces_distinct:
  assumes "can_encrypt i ssl" "12 \<le> length (k_aead_enc_imp_IV (keys ssl))" "length ps \<le> 2 ^ 64"
  shows "distinct (enc_run (\<lambda>key nonce aad plain. Inr nonce) ps ssl)"
proof -
  have "inj_on (\<lambda>j. Inr (nonce_for (k_aead_enc_imp_IV (keys ssl)) (nextSeqNumber (dtls13Epochs (epochs ssl) ! i) + of_nat j)) :: wolf_rc + bytes)
      {0..<length ps}"
  proof (rule inj_onI)
    fix a b assume ab: "a \<in> {0..<length ps}" "b \<in> {0..<length ps}"
      and "Inr (nonce_for (k_aead_enc_imp_IV (keys ssl)) (nextSeqNumber (dtls13Epochs (epochs ssl) ! i) + of_nat a)) =
        (Inr (nonce_for (k_aead_enc_imp_IV (keys ssl)) (nextSeqNumber (dtls13Epochs (epochs ssl) ! i) + of_nat b)) :: wolf_rc + bytes)"
    then have "(of_nat a :: u64) = of_nat b" using nonce_for_inj[OF assms(2)] by (metis add_left_cancel sum.inject(2))
    then show "a = b" by (rule of_nat_inj_64[rotated -1]) (use ab assms(3) in simp_all)
  qed
  then show ?thesis unfolding enc_run_nonces[OF assms(1)] by (simp add: distinct_map)
qed

theorem nonces_distinct_witness:
  "distinct (enc_run (\<lambda>key nonce aad plain. Inr nonce) [([1], []), ([1], []), ([2], [7])] epoch3_ssl)"
  by (rule nonces_distinct[of 0]) (simp_all add: can_encrypt_def epoch3_ssl_def fresh_ssl_def)

end
