(* ===== verification/DtlsMsgs.thy ===== *)
theory DtlsMsgs
  imports Dtls13State
begin

text \<open>
  Reordering and reassembly of received handshake fragments (\<open>src/internal.c\<close>, \<open>DtlsMsg*\<close>).

  A message under reassembly holds a sorted list of fragment buckets.  \<open>DtlsMsgSet\<close> stores one
  fragment: it appends a bucket, or grows one by \<open>DtlsMsgCombineFragBuckets\<close>, whose copies are
  performed here on buffers of cells exactly as the code orders them.  The outer \<^const>\<open>None\<close> is a
  copy that leaves a buffer; the number of allocations that still succeed is passed along.

  The reassembled bytes are compared with an arbitrary message: every fragment that touches or
  overlaps the bucket it is stored in, or lies before or behind all buckets, adds exactly its bytes.
  A fragment strictly inside a gap does not (\<open>gap_fragment_corrupts\<close>).
\<close>

definition DTLS_FRAG_POOL_SZ :: u8 where [simp]: "DTLS_FRAG_POOL_SZ = 10"

section \<open>Message objects\<close>

text \<open>\<open>XMALLOC\<close>: the argument is the number of allocations that still succeed.\<close>

definition heap_alloc :: "nat \<Rightarrow> nat option" where
  "heap_alloc h = (if h = 0 then None else Some (h - 1))"

definition DtlsMsgNew :: "u32 \<Rightarrow> bool \<Rightarrow> nat \<Rightarrow> DtlsMsg option \<times> nat" where
  "DtlsMsgNew sz tx heap =
     (case heap_alloc heap of
        None \<Rightarrow> (None, heap)
      | Some heap \<Rightarrow>
          (let msg = \<lparr>m_hdr = [], m_fullMsg = None, m_fragBucketList = [], m_bytesReceived = 0,
                      m_epoch = 0, m_seq = 0, m_sz = sz, m_type = byte_of_hs no_shake,
                      m_fragBucketListCount = 0, m_ready = False, m_encrypted = False\<rparr>
           in if tx
              then (case heap_alloc heap of
                      None \<Rightarrow> (None, heap)
                    | Some heap \<Rightarrow>
                        (Some (msg\<lparr>m_fullMsg := Some (replicate (unat (sz + 12)) None), m_ready := True\<rparr>), heap))
              else (Some msg, heap)))"

definition DtlsMsgCreateFragBucket :: "u32 \<Rightarrow> bytes \<Rightarrow> u32 \<Rightarrow> nat \<Rightarrow> (DtlsFragBucket option \<times> nat) option" where
  "DtlsMsgCreateFragBucket offset data dataSz heap =
     (case heap_alloc heap of
        None \<Rightarrow> Some (None, heap)
      | Some heap \<Rightarrow>
          do { d \<leftarrow> peek 0 (unat dataSz) data;
               Some (Some \<lparr>fb_offset = offset, fb_sz = dataSz, fb_buf = map Some d\<rparr>, heap) })"

text \<open>\<open>XREALLOC\<close> to \<open>n\<close> payload bytes: the bytes kept are unchanged, new ones are undefined.\<close>

definition resize :: "nat \<Rightarrow> cell list \<Rightarrow> cell list" where
  "resize n buf = take n buf @ replicate (n - length buf) None"

section \<open>Storing a fragment\<close>

definition fb_end :: "DtlsFragBucket \<Rightarrow> u32" where
  "fb_end b = fb_offset b + fb_sz b"

text \<open>
  \<open>cur # mid @ nexts\<close> is the list from \<open>cur\<close> on; \<open>next\<close> is the head of \<open>nexts\<close> (\<open>NULL\<close> if that is
  empty) and \<open>mid\<close> the buckets between them.  The result is the list from the combined bucket on, or
  \<^const>\<open>None\<close> if the allocation fails.
\<close>

definition DtlsMsgCombineFragBuckets ::
  "DtlsMsg \<Rightarrow> DtlsFragBucket \<Rightarrow> DtlsFragBucket list \<Rightarrow> DtlsFragBucket list \<Rightarrow> u32 \<Rightarrow> bytes \<Rightarrow> u32 \<Rightarrow> nat \<Rightarrow>
     (DtlsMsg \<times> DtlsFragBucket list option \<times> nat) option" where
  "DtlsMsgCombineFragBuckets msg cur mid nexts offset data dataSz heap =
     (let offsetEnd = offset + dataSz;
          newOffset = min (fb_offset cur) offset;
          combineNext = (nexts \<noteq> [] \<and> fb_offset (hd nexts) \<le> offsetEnd);
          newOffsetEnd = (if combineNext then fb_end (hd nexts) else max (fb_end cur) offsetEnd);
          newSz = newOffsetEnd - newOffset;
          chooseCur = (\<not> combineNext \<or> fb_sz (hd nexts) \<le> fb_sz cur)
      in case heap_alloc heap of
           None \<Rightarrow> Some (msg, None, heap)
         | Some heap \<Rightarrow>
             do { let buf = resize (unat newSz) (fb_buf (if chooseCur then cur else hd nexts));
                  buf \<leftarrow> (if combineNext
                          then do { src \<leftarrow> peek 0 (unat (fb_sz (hd nexts))) (if chooseCur then fb_buf (hd nexts) else buf);
                                    poke (unat (fb_offset (hd nexts) - newOffset)) src buf }
                          else Some buf);
                  let newOffsetEnd = (if combineNext then fb_offset (hd nexts) else newOffsetEnd);
                  buf \<leftarrow> (if newOffset = offset
                          then if newOffsetEnd \<le> offsetEnd
                               then do { d \<leftarrow> peek 0 (unat (min dataSz (newOffsetEnd - newOffset))) data;
                                         poke 0 (map Some d) buf }
                               else do { src \<leftarrow> peek 0 (unat (fb_sz cur - (offsetEnd - fb_offset cur)))
                                                  (if chooseCur then buf else fb_buf cur);
                                         buf \<leftarrow> poke (unat dataSz) src buf;
                                         d \<leftarrow> peek 0 (unat dataSz) data;
                                         poke 0 (map Some d) buf }
                          else do { buf \<leftarrow> (if chooseCur then Some buf
                                            else do { src \<leftarrow> peek 0 (unat (fb_sz cur)) (fb_buf cur);
                                                      poke 0 src buf });
                                    d \<leftarrow> peek (unat (fb_end cur - offset)) (unat (newOffsetEnd - fb_end cur)) data;
                                    poke (unat (fb_sz cur)) (map Some d) buf });
                  let overlapSz = fb_sz cur + sum_list (map fb_sz mid) + (if combineNext then fb_sz (hd nexts) else 0);
                  let newBucket = \<lparr>fb_offset = newOffset, fb_sz = newSz, fb_buf = buf\<rparr>;
                  Some (msg\<lparr>m_fragBucketListCount :=
                              m_fragBucketListCount msg - of_nat (length mid) - (if combineNext then 1 else 0),
                            m_bytesReceived := m_bytesReceived msg + (newSz - overlapSz)\<rparr>,
                        Some (newBucket # (if combineNext then tl nexts else nexts)), heap) })"

definition DtlsMsgAssembleCompleteMessage :: "DtlsMsg \<Rightarrow> DtlsMsg" where
  "DtlsMsgAssembleCompleteMessage msg =
     (if m_fragBucketListCount msg \<noteq> 1 then msg
      else case m_fragBucketList msg of
             [] \<Rightarrow> msg
           | b # _ \<Rightarrow>
               if fb_offset b \<noteq> 0 \<or> fb_sz b \<noteq> m_sz msg then msg
               else msg\<lparr>m_fullMsg := Some (fb_buf b), m_ready := True,
                        m_fragBucketList := [], m_fragBucketListCount := 0,
                        m_hdr := [m_type msg] @ c32to24 (m_sz msg) @ c16toa (ucast (m_seq msg)) @
                                 c32to24 0 @ c32to24 (m_sz msg)\<rparr>)"

text \<open>
  The search for the bucket to grow: \<open>Have\<close> if the fragment is already there, otherwise the buckets in
  front of \<open>cur\<close> and the list from \<open>cur\<close> on.
\<close>

datatype place = Have | At "DtlsFragBucket list" "DtlsFragBucket list"

fun frag_place :: "u32 \<Rightarrow> u32 \<Rightarrow> DtlsFragBucket list \<Rightarrow> DtlsFragBucket list \<Rightarrow> place" where
  "frag_place fragOffset fragOffsetEnd pre [] = At pre []"
| "frag_place fragOffset fragOffsetEnd pre (cur # rest) =
     (if fb_offset cur \<le> fragOffset \<and> fragOffsetEnd \<le> fb_end cur then Have
      else if fragOffset \<le> fb_end cur then At pre (cur # rest)
      else frag_place fragOffset fragOffsetEnd (pre @ [cur]) rest)"

definition frag_store :: "DtlsMsg \<Rightarrow> u32 \<Rightarrow> bytes \<Rightarrow> u32 \<Rightarrow> nat \<Rightarrow> (wolf_rc \<times> DtlsMsg \<times> nat) option" where
  "frag_store msg fragOffset data fragSz heap =
     (let fragOffsetEnd = fragOffset + fragSz;
          full = (DTLS_FRAG_POOL_SZ \<le> m_fragBucketListCount msg)
      in if m_fragBucketList msg = []
         then do { (b, heap) \<leftarrow> DtlsMsgCreateFragBucket fragOffset data fragSz heap;
                   (case b of
                      Some b \<Rightarrow> Some (RC_OK, msg\<lparr>m_fragBucketList := [b], m_bytesReceived := fragSz,
                                       m_fragBucketListCount := m_fragBucketListCount msg + 1\<rparr>, heap)
                    | None \<Rightarrow> Some (MEMORY_ERROR, msg, heap)) }
         else
           (case frag_place fragOffset fragOffsetEnd [] (m_fragBucketList msg) of
              Have \<Rightarrow> Some (RC_OK, msg, heap)
            | At pre [] \<Rightarrow>
                if full then Some (DTLS_TOO_MANY_FRAGMENTS_E, msg, heap)
                else do { (b, heap) \<leftarrow> DtlsMsgCreateFragBucket fragOffset data fragSz heap;
                          (case b of
                             Some b \<Rightarrow> Some (RC_OK, msg\<lparr>m_fragBucketList := pre @ [b],
                                              m_bytesReceived := m_bytesReceived msg + fragSz,
                                              m_fragBucketListCount := m_fragBucketListCount msg + 1\<rparr>, heap)
                           | None \<Rightarrow> Some (RC_OK, msg, heap)) }
            | At pre (cur # rest) \<Rightarrow>
                if pre = [] \<and> fragOffsetEnd < fb_offset cur
                then if full then Some (DTLS_TOO_MANY_FRAGMENTS_E, msg, heap)
                     else do { (b, heap) \<leftarrow> DtlsMsgCreateFragBucket fragOffset data fragSz heap;
                               (case b of
                                  Some b \<Rightarrow> Some (RC_OK, msg\<lparr>m_fragBucketList := b # cur # rest,
                                                   m_bytesReceived := m_bytesReceived msg + fragSz,
                                                   m_fragBucketListCount := m_fragBucketListCount msg + 1\<rparr>, heap)
                                | None \<Rightarrow> Some (RC_OK, msg, heap)) }
                else do { let covered = (\<lambda>b. fb_end b \<le> fragOffsetEnd);
                          (msg', bs, heap) \<leftarrow>
                             DtlsMsgCombineFragBuckets msg cur (takeWhile covered rest) (dropWhile covered rest)
                               fragOffset data fragSz heap;
                          (case bs of
                             Some bs \<Rightarrow> Some (RC_OK, msg'\<lparr>m_fragBucketList := pre @ bs\<rparr>, heap)
                           | None \<Rightarrow> Some (RC_OK, msg', heap)) }))"

definition DtlsMsgSet ::
  "DtlsMsg option \<Rightarrow> u32 \<Rightarrow> u16 \<Rightarrow> bytes \<Rightarrow> u8 \<Rightarrow> u32 \<Rightarrow> u32 \<Rightarrow> u32 \<Rightarrow> bool \<Rightarrow> nat \<Rightarrow>
     (wolf_rc \<times> DtlsMsg option \<times> nat) option" where
  "DtlsMsgSet m seq epoch data type fragOffset fragSz totalLen encrypted heap =
     (case m of
        None \<Rightarrow> Some (BAD_FUNC_ARG, None, heap)
      | Some msg \<Rightarrow>
          if m_sz msg \<noteq> totalLen \<or> totalLen < fragOffset + fragSz then Some (BAD_FUNC_ARG, Some msg, heap)
          else if m_ready msg then Some (RC_OK, Some msg, heap)
          else if m_type msg \<noteq> byte_of_hs no_shake \<and>
                  (m_type msg \<noteq> type \<or> m_epoch msg \<noteq> epoch \<or> m_seq msg \<noteq> seq)
          then Some (SEQUENCE_ERROR, Some msg, heap)
          else
            (let msg = (if m_type msg \<noteq> byte_of_hs no_shake
                        then msg\<lparr>m_encrypted := m_encrypted msg \<and> encrypted\<rparr>
                        else msg\<lparr>m_type := type, m_epoch := epoch, m_seq := seq, m_encrypted := encrypted\<rparr>)
             in do { (rc, msg, heap) \<leftarrow> frag_store msg fragOffset data fragSz heap;
                     if rc \<noteq> RC_OK then Some (rc, Some msg, heap)
                     else Some (RC_OK,
                            Some (if m_bytesReceived msg = m_sz msg then DtlsMsgAssembleCompleteMessage msg else msg),
                            heap) }))"

section \<open>The list of messages\<close>

definition DtlsMsgFind :: "DtlsMsg list \<Rightarrow> u16 \<Rightarrow> u32 \<Rightarrow> DtlsMsg option" where
  "DtlsMsgFind ms epoch seq = find (\<lambda>m. m_epoch m = epoch \<and> m_seq m = seq) ms"

fun DtlsMsgInsert :: "DtlsMsg list \<Rightarrow> DtlsMsg \<Rightarrow> DtlsMsg list" where
  "DtlsMsgInsert [] item = [item]"
| "DtlsMsgInsert (cur # rest) item =
     (if m_epoch item \<le> m_epoch cur \<and> m_seq item < m_seq cur then item # cur # rest
      else cur # DtlsMsgInsert rest item)"

text \<open>Replacing the found message by its updated value.\<close>

fun msg_replace :: "u16 \<Rightarrow> u32 \<Rightarrow> DtlsMsg \<Rightarrow> DtlsMsg list \<Rightarrow> DtlsMsg list" where
  "msg_replace epoch seq m' [] = []"
| "msg_replace epoch seq m' (m # ms) =
     (if m_epoch m = epoch \<and> m_seq m = seq then m' # ms else m # msg_replace epoch seq m' ms)"

text \<open>
  \<open>encrypted\<close> is \<open>ssl->keys.decryptedCur == 1\<close>.  A message whose first fragment is rejected is freed.
\<close>

definition DtlsMsgStore ::
  "u16 \<Rightarrow> u32 \<Rightarrow> bytes \<Rightarrow> u32 \<Rightarrow> u8 \<Rightarrow> u32 \<Rightarrow> u32 \<Rightarrow> bool \<Rightarrow> WOLFSSL \<Rightarrow> WOLFSSL option" where
  "DtlsMsgStore epoch seq data dataSz type fragOffset fragSz encrypted ssl =
     (let head = dtls_rx_msg_list ssl in
      case DtlsMsgFind head epoch seq of
        Some cur \<Rightarrow>
          do { (rc, m, heap) \<leftarrow> DtlsMsgSet (Some cur) seq epoch data type fragOffset fragSz dataSz encrypted (heap_left ssl);
               Some (ssl\<lparr>dtls_rx_msg_list := (case m of Some m \<Rightarrow> msg_replace epoch seq m head | None \<Rightarrow> head),
                         heap_left := heap\<rparr>) }
      | None \<Rightarrow>
          (let (new, heap) = DtlsMsgNew dataSz False (heap_left ssl)
           in do { (rc, m, heap) \<leftarrow> DtlsMsgSet new seq epoch data type fragOffset fragSz dataSz encrypted heap;
                   (case m of
                      Some item \<Rightarrow>
                        if rc \<noteq> RC_OK then Some (ssl\<lparr>heap_left := heap\<rparr>)
                        else Some (ssl\<lparr>dtls_rx_msg_list := DtlsMsgInsert head item,
                                       dtls_rx_msg_list_sz := dtls_rx_msg_list_sz ssl + 1, heap_left := heap\<rparr>)
                    | None \<Rightarrow> Some (ssl\<lparr>heap_left := heap\<rparr>)) }))"

definition DTLS_TIMEOUT_MULTIPLIER :: nat where [simp]: "DTLS_TIMEOUT_MULTIPLIER = 2"

definition DtlsMsgPoolTimeout :: "WOLFSSL \<Rightarrow> bool \<times> WOLFSSL" where
  "DtlsMsgPoolTimeout ssl =
     (if dtls_timeout (timers ssl) < dtls_timeout_max (timers ssl)
      then (True, ssl\<lparr>timers := (timers ssl)\<lparr>dtls_timeout := dtls_timeout (timers ssl) * DTLS_TIMEOUT_MULTIPLIER\<rparr>\<rparr>)
      else (False, ssl))"

section \<open>Reassembly\<close>

text \<open>The bytes of a message from an offset on.\<close>

definition msg_slice :: "bytes \<Rightarrow> nat \<Rightarrow> nat \<Rightarrow> bytes" where
  "msg_slice M off n = take n (drop off M)"

abbreviation b_off :: "DtlsFragBucket \<Rightarrow> nat" where "b_off b \<equiv> unat (fb_offset b)"
abbreviation b_sz :: "DtlsFragBucket \<Rightarrow> nat" where "b_sz b \<equiv> unat (fb_sz b)"

definition bucket_ok :: "bytes \<Rightarrow> DtlsFragBucket \<Rightarrow> bool" where
  "bucket_ok M b \<longleftrightarrow> b_off b + b_sz b \<le> length M \<and> fb_buf b = map Some (msg_slice M (b_off b) (b_sz b))"

definition gaps :: "DtlsFragBucket list \<Rightarrow> bool" where
  "gaps bs \<longleftrightarrow> sorted_wrt (\<lambda>a b. b_off a + b_sz a < b_off b) bs"

definition covered :: "DtlsFragBucket list \<Rightarrow> nat set" where
  "covered bs = (\<Union>b \<in> set bs. {b_off b ..< b_off b + b_sz b})"

definition buckets_ok :: "bytes \<Rightarrow> DtlsFragBucket list \<Rightarrow> bool" where
  "buckets_ok M bs \<longleftrightarrow> list_all (bucket_ok M) bs \<and> gaps bs"

lemma unat_add_small: "unat (x :: u32) + unat y < 2 ^ 32 \<Longrightarrow> unat (x + y) = unat x + unat y"
  by (subst unat_add_lem[symmetric]) simp

lemma unat_sub_small: "y \<le> x \<Longrightarrow> unat (x - y :: u32) = unat x - unat y"
  by (simp add: unat_sub_if' word_le_nat_alt)

lemma unat_min: "unat (min x (y :: u32)) = min (unat x) (unat y)"
  by (simp add: min_def word_le_nat_alt)

lemma unat_max: "unat (max x (y :: u32)) = max (unat x) (unat y)"
  by (simp add: max_def word_le_nat_alt)

lemma length_slice [simp]: "off + n \<le> length M \<Longrightarrow> length (msg_slice M off n) = n"
  by (simp add: msg_slice_def)

lemma nth_slice: "off + n \<le> length M \<Longrightarrow> i < n \<Longrightarrow> msg_slice M off n ! i = M ! (off + i)"
  by (simp add: msg_slice_def)

text \<open>The cells of a buffer that already hold the bytes of the message from \<open>base\<close> on.\<close>

definition holds_at :: "bytes \<Rightarrow> nat \<Rightarrow> cell list \<Rightarrow> nat set \<Rightarrow> bool" where
  "holds_at M base buf S \<longleftrightarrow> (\<forall>i \<in> S. i < length buf \<and> buf ! i = Some (M ! (base + i)))"

lemma holds_at_poke:
  assumes "holds_at M base buf S" "base + p + n \<le> length M" "p + n \<le> length buf"
  shows "\<exists>b'. poke p (map Some (msg_slice M (base + p) n)) buf = Some b' \<and> length b' = length buf \<and> holds_at M base b' (S \<union> {p ..< p + n})"
proof -
  define src where "src = (map Some (msg_slice M (base + p) n) :: cell list)"
  have len: "length src = n" using assms by (simp add: src_def)
  obtain b' where b': "poke p src buf = Some b'" using assms(3) len by (simp add: poke_def)
  have l: "length b' = length buf" using b' by (rule length_poke)
  have "holds_at M base b' (S \<union> {p ..< p + n})"
    unfolding holds_at_def
  proof (intro ballI conjI)
    fix i assume i: "i \<in> S \<union> {p ..< p + n}"
    show il: "i < length b'" using i assms(1,3) l by (auto simp: holds_at_def)
    show "b' ! i = Some (M ! (base + i))"
    proof (cases "p \<le> i \<and> i < p + n")
      case True
      then have "i - p < n" by linarith
      with True have "src ! (i - p) = Some (M ! (base + i))"
        using assms(2) src_def nth_slice[of "base + p" n M "i - p"] by simp
      with True show ?thesis
        using poke_pokes_nth[OF b', of i] il l len by simp
    next
      case False
      then show ?thesis
        using poke_pokes_nth[OF b', of i] il l len i assms(1) by (auto simp: holds_at_def)
    qed
  qed
  with b' l show ?thesis unfolding src_def by blast
qed

lemma holds_at_all:
  assumes "holds_at M base buf {0..<length buf}" "base + length buf \<le> length M"
  shows "buf = map Some (msg_slice M base (length buf))"
  using assms by (intro nth_equalityI) (auto simp: holds_at_def nth_slice)

lemma holds_at_resize:
  assumes "fb_buf b = map Some (msg_slice M (b_off b) (b_sz b))" "b_off b + b_sz b \<le> length M" "b_sz b \<le> n"
  shows "holds_at M (b_off b) (resize n (fb_buf b)) {0 ..< b_sz b}" "length (resize n (fb_buf b)) = n"
  using assms by (auto simp: holds_at_def resize_def nth_append nth_slice)


lemma holds_at_empty [simp]: "holds_at M base buf {}"
  by (simp add: holds_at_def)

lemma holds_at_full:
  assumes "holds_at M base buf S" "{0..<length buf} \<subseteq> S" "base + length buf \<le> length M"
  shows "buf = map Some (msg_slice M base (length buf))"
  using assms(1,2) by (intro holds_at_all assms(3)) (auto simp: holds_at_def)

lemma peek_bucket:
  assumes "bucket_ok M b" "n \<le> b_sz b"
  shows "peek 0 n (fb_buf b) = Some (map Some (msg_slice M (b_off b) n))"
  using assms by (auto simp: bucket_ok_def peek_def msg_slice_def take_map)

lemma peek_resize: "k \<le> length buf \<Longrightarrow> k \<le> n \<Longrightarrow> peek 0 k (resize n buf) = peek 0 k buf"
  by (auto simp: peek_def resize_def min_def)

lemma peek_data:
  assumes "take d data = msg_slice M off d" "d \<le> length data" "a + n \<le> d"
  shows "peek a n data = Some (msg_slice M (off + a) n)"
proof -
  have "take n (drop a data) = take n (drop a (take d data))" using assms(3) by (simp add: drop_take)
  also have "\<dots> = msg_slice M (off + a) n" unfolding assms(1) using assms(3) by (simp add: msg_slice_def drop_take add.commute)
  finally show ?thesis using assms(2,3) by (simp add: peek_def)
qed

lemma length_fb_buf: "bucket_ok M b \<Longrightarrow> length (fb_buf b) = b_sz b"
  by (simp add: bucket_ok_def)

lemma fb_end_nat: "bucket_ok M b \<Longrightarrow> length M < 2 ^ 32 \<Longrightarrow> unat (fb_end b) = b_off b + b_sz b"
  by (auto simp: bucket_ok_def fb_end_def intro!: unat_add_small)

text \<open>The copies of the combination without a following bucket, in numbers.\<close>

lemma combine_alone:
  assumes "bucket_ok M cur" "length M < 2 ^ 32" "take (unat dz) data = msg_slice M (unat o1) (unat dz)"
    "unat dz \<le> length data" "unat o1 + unat dz \<le> length M"
    and place: "unat o1 \<le> b_off cur + b_sz cur" "b_off cur \<le> unat o1 + unat dz"
      "\<not> (b_off cur \<le> unat o1 \<and> unat o1 + unat dz \<le> b_off cur + b_sz cur)"
    and clean: "\<not> (unat o1 < b_off cur \<and> b_off cur < unat o1 + unat dz \<and> unat o1 + unat dz < b_off cur + b_sz cur)"
    and alone: "nexts = [] \<or> unat o1 + unat dz < b_off (hd nexts)"
  shows "\<exists>nb. DtlsMsgCombineFragBuckets msg cur mid nexts o1 data dz (Suc heap) =
      Some (msg\<lparr>m_fragBucketListCount := m_fragBucketListCount msg - of_nat (length mid),
                m_bytesReceived := m_bytesReceived msg + (fb_sz nb - (fb_sz cur + sum_list (map fb_sz mid)))\<rparr>,
            Some (nb # nexts), heap) \<and>
    bucket_ok M nb \<and> b_off nb = min (b_off cur) (unat o1) \<and>
    b_off nb + b_sz nb = max (b_off cur + b_sz cur) (unat o1 + unat dz)"
proof -
  let ?e = "unat o1 + unat dz" and ?ce = "b_off cur + b_sz cur"
  have ue: "unat (o1 + dz) = ?e" using assms(2,5) by (intro unat_add_small) simp
  have uce: "unat (fb_end cur) = ?ce" using fb_end_nat[OF assms(1,2)] .
  have ub: "?ce \<le> length M" using assms(1) by (simp add: bucket_ok_def)
  have nocomb: "(nexts \<noteq> [] \<and> fb_offset (hd nexts) \<le> o1 + dz) = False"
    using alone by (auto simp: word_le_nat_alt ue)
  define nO where "nO = min (fb_offset cur) o1"
  define nE where "nE = max (fb_end cur) (o1 + dz)"
  have uO: "unat nO = min (b_off cur) (unat o1)" by (simp add: nO_def unat_min)
  have uE: "unat nE = max ?ce ?e" by (simp add: nE_def unat_max uce ue)
  have uS: "unat (nE - nO) = max ?ce ?e - min (b_off cur) (unat o1)"
    using unat_sub_small[of nO nE] by (simp add: uO uE word_le_nat_alt)
  let ?rz = "resize (unat (nE - nO)) (fb_buf cur)"
  have lrz: "length ?rz = unat (nE - nO)" by (simp add: resize_def)
  have "\<exists>buf. (if nO = o1
       then if nE \<le> o1 + dz
            then do { d \<leftarrow> peek 0 (unat (min dz (nE - nO))) data; poke 0 (map Some d) ?rz }
            else do { src \<leftarrow> peek 0 (unat (fb_sz cur - (o1 + dz - fb_offset cur))) ?rz;
                      buf \<leftarrow> poke (unat dz) src ?rz; d \<leftarrow> peek 0 (unat dz) data; poke 0 (map Some d) buf }
       else do { d \<leftarrow> peek (unat (fb_end cur - o1)) (unat (nE - fb_end cur)) data;
                 poke (b_sz cur) (map Some d) ?rz }) = Some buf \<and>
     length buf = unat (nE - nO) \<and> buf = map Some (msg_slice M (unat nO) (unat (nE - nO)))" (is "\<exists>buf. ?f = Some buf \<and> _")
  proof -
    consider (all) "unat o1 \<le> b_off cur" "?ce \<le> ?e" | (front) "unat o1 \<le> b_off cur" "?e = b_off cur" "\<not> ?ce \<le> ?e"
      | (behind) "b_off cur < unat o1" "?ce < ?e"
      using place clean by linarith
    then show ?thesis
    proof cases
      case all
      have c: "nO = o1" "nE \<le> o1 + dz" using all uO by (simp_all add: word_unat_eq_iff word_le_nat_alt uE ue)
      have sz: "unat (nE - nO) = unat dz" using all uS by simp
      have k: "unat (min dz (nE - nO)) = unat dz" by (simp add: unat_min sz)
      obtain b' where "poke 0 (map Some (msg_slice M (unat o1) (unat dz))) ?rz = Some b'" "length b' = length ?rz"
          "holds_at M (unat o1) b' ({} \<union> {0..<0 + unat dz})"
        using holds_at_poke[OF holds_at_empty, of "unat o1" 0 "unat dz" M ?rz] assms(5) lrz sz by auto
      with c sz k lrz show ?thesis
        using peek_data[OF assms(3,4), of 0 "unat dz"] holds_at_full[of M "unat o1" b' "{0..<unat dz}"] assms(5)
        by (simp add: all)
    next
      case front
      have c: "nO = o1" "\<not> nE \<le> o1 + dz" using front uO by (simp_all add: word_unat_eq_iff word_le_nat_alt uE ue)
      have "o1 + dz = fb_offset cur" using front ue by (simp add: word_unat_eq_iff)
      then have z: "o1 + dz - fb_offset cur = 0" by simp
      have sz: "unat (nE - nO) = unat dz + b_sz cur" using front uS by simp
      have src: "peek 0 (unat (fb_sz cur - (o1 + dz - fb_offset cur))) ?rz = Some (map Some (msg_slice M (unat o1 + unat dz) (b_sz cur)))"
        unfolding z using peek_bucket[OF assms(1) order_refl] length_fb_buf[OF assms(1)] sz front by (simp add: peek_resize)
      obtain b1 where b1: "poke (unat dz) (map Some (msg_slice M (unat o1 + unat dz) (b_sz cur))) ?rz = Some b1" "length b1 = length ?rz"
          "holds_at M (unat o1) b1 ({} \<union> {unat dz..<unat dz + b_sz cur})"
        using holds_at_poke[OF holds_at_empty, of "unat o1" "unat dz" "b_sz cur" M ?rz] ub front lrz sz by auto
      obtain b2 where b2: "poke 0 (map Some (msg_slice M (unat o1) (unat dz))) b1 = Some b2" "length b2 = length b1"
          "holds_at M (unat o1) b2 ({} \<union> {unat dz..<unat dz + b_sz cur} \<union> {0..<0 + unat dz})"
        using holds_at_poke[OF b1(3), of 0 "unat dz"] assms(5) lrz sz b1(2) by auto
      have len: "length b2 = unat dz + b_sz cur" using b1(2) b2(2) lrz sz by simp
      have "{0..<length b2} \<subseteq> {} \<union> {unat dz..<unat dz + b_sz cur} \<union> {0..<0 + unat dz}" using len by auto
      from holds_at_full[OF b2(3) this] have "b2 = map Some (msg_slice M (unat o1) (unat dz + b_sz cur))"
        using len ub front by simp
      then show ?thesis
        using c sz src b1(1) b2(1) len peek_data[OF assms(3,4), of 0 "unat dz"] by simp
    next
      case behind
      have c: "nO \<noteq> o1" using behind by (auto simp: nO_def min_def word_le_nat_alt)
      have uO': "unat nO = b_off cur" using behind uO by simp
      have sz: "unat (nE - nO) = b_sz cur + (?e - ?ce)" using behind uS by simp
      have a: "unat (fb_end cur - o1) = ?ce - unat o1"
        using unat_sub_small[of o1 "fb_end cur"] place(1) uce by (simp add: word_le_nat_alt)
      have b: "unat (nE - fb_end cur) = ?e - ?ce"
        using unat_sub_small[of "fb_end cur" nE] behind uE uce by (simp add: word_le_nat_alt)
      have d: "peek (unat (fb_end cur - o1)) (unat (nE - fb_end cur)) data = Some (msg_slice M ?ce (?e - ?ce))"
        unfolding a b using peek_data[OF assms(3,4), of "?ce - unat o1" "?e - ?ce"] place(1) behind by simp
      have h: "holds_at M (b_off cur) ?rz {0..<b_sz cur}"
        using holds_at_resize(1)[of cur M "unat (nE - nO)"] assms(1) sz by (auto simp: bucket_ok_def)
      obtain b1 where b1: "poke (b_sz cur) (map Some (msg_slice M ?ce (?e - ?ce))) ?rz = Some b1" "length b1 = length ?rz"
          "holds_at M (b_off cur) b1 ({0..<b_sz cur} \<union> {b_sz cur..<b_sz cur + (?e - ?ce)})"
        using holds_at_poke[OF h, of "b_sz cur" "?e - ?ce"] assms(5) behind lrz sz by auto
      have len: "length b1 = b_sz cur + (?e - ?ce)" using b1(2) lrz sz by simp
      have "{0..<length b1} \<subseteq> {0..<b_sz cur} \<union> {b_sz cur..<b_sz cur + (?e - ?ce)}" using len by auto
      from holds_at_full[OF b1(3) this] have "b1 = map Some (msg_slice M (b_off cur) (b_sz cur + (?e - ?ce)))"
        using len assms(5) behind by simp
      then show ?thesis using c d b1(1) len sz uO' by simp
    qed
  qed
  then obtain buf where buf: "?f = Some buf" "length buf = unat (nE - nO)"
     "buf = map Some (msg_slice M (unat nO) (unat (nE - nO)))" by blast
  have total: "unat nO + unat (nE - nO) = max ?ce ?e" using uS uO by (simp add: min_def max_def)
  let ?nb = "\<lparr>fb_offset = nO, fb_sz = nE - nO, fb_buf = buf\<rparr>"
  have "bucket_ok M ?nb" using buf(3) total ub assms(5) by (simp add: bucket_ok_def)
  moreover have "DtlsMsgCombineFragBuckets msg cur mid nexts o1 data dz (Suc heap) =
      Some (msg\<lparr>m_fragBucketListCount := m_fragBucketListCount msg - of_nat (length mid),
                m_bytesReceived := m_bytesReceived msg + (fb_sz ?nb - (fb_sz cur + sum_list (map fb_sz mid)))\<rparr>,
            Some (?nb # nexts), heap)"
    using buf(1)
    unfolding DtlsMsgCombineFragBuckets_def Let_def heap_alloc_def nO_def[symmetric] nocomb if_False nE_def[symmetric]
    by (cases "nO = o1"; cases "nE \<le> o1 + dz") (simp_all del: Option.bind_assoc)
  ultimately show ?thesis using total uO by (intro exI[of _ ?nb]) simp
qed


text \<open>The same when the data also reaches the following bucket.\<close>

lemma combine_bridge:
  assumes "bucket_ok M cur" "length M < 2 ^ 32" "take (unat dz) data = msg_slice M (unat o1) (unat dz)"
    "unat dz \<le> length data" "unat o1 + unat dz \<le> length M"
    and place: "unat o1 \<le> b_off cur + b_sz cur"
    and nxt: "bucket_ok M nxt" "b_off cur + b_sz cur < b_off nxt"
      "b_off nxt \<le> unat o1 + unat dz" "unat o1 + unat dz < b_off nxt + b_sz nxt"
  shows "\<exists>nb. DtlsMsgCombineFragBuckets msg cur mid (nxt # rest) o1 data dz (Suc heap) =
      Some (msg\<lparr>m_fragBucketListCount := m_fragBucketListCount msg - of_nat (length mid) - 1,
                m_bytesReceived := m_bytesReceived msg + (fb_sz nb - (fb_sz cur + sum_list (map fb_sz mid) + fb_sz nxt))\<rparr>,
            Some (nb # rest), heap) \<and>
    bucket_ok M nb \<and> b_off nb = min (b_off cur) (unat o1) \<and> b_off nb + b_sz nb = b_off nxt + b_sz nxt"
proof -
  let ?e = "unat o1 + unat dz" and ?ce = "b_off cur + b_sz cur" and ?ne = "b_off nxt + b_sz nxt"
  have ue: "unat (o1 + dz) = ?e" using assms(2,5) by (intro unat_add_small) simp
  have uce: "unat (fb_end cur) = ?ce" and une: "unat (fb_end nxt) = ?ne"
    using fb_end_nat assms(1,2) nxt(1) by auto
  have ub: "?ne \<le> length M" using nxt(1) by (simp add: bucket_ok_def)
  have comb: "fb_offset nxt \<le> o1 + dz" using nxt(3) by (simp add: word_le_nat_alt ue)
  define nO where "nO = min (fb_offset cur) o1"
  have uO: "unat nO = min (b_off cur) (unat o1)" by (simp add: nO_def unat_min)
  have Ole: "unat nO \<le> unat o1" "unat nO \<le> b_off cur" using uO by auto
  have uS: "unat (fb_end nxt - nO) = ?ne - unat nO"
    using unat_sub_small[of nO "fb_end nxt"] Ole nxt une by (simp add: word_le_nat_alt)
  have uD: "unat (fb_offset nxt - nO) = b_off nxt - unat nO"
    using unat_sub_small[of nO "fb_offset nxt"] Ole nxt by (simp add: word_le_nat_alt)
  define cc where "cc = (fb_sz nxt \<le> fb_sz cur)"
  define rz where "rz = resize (unat (fb_end nxt - nO)) (fb_buf (if cc then cur else nxt))"
  have lrz: "length rz = ?ne - unat nO" unfolding rz_def by (simp add: resize_def uS)
  have src: "peek 0 (b_sz nxt) (if cc then fb_buf nxt else rz) = Some (map Some (msg_slice M (b_off nxt) (b_sz nxt)))"
    using peek_bucket[OF nxt(1) order_refl] length_fb_buf[OF nxt(1)] Ole nxt(2) uS by (simp add: rz_def peek_resize)
  define S0 where "S0 = (if cc \<and> b_off cur < unat o1 then {0..<b_sz cur} else {})"
  have h0: "holds_at M (unat nO) rz S0"
    using holds_at_resize(1)[of cur M "?ne - unat nO"] assms(1) Ole nxt(2) uO uS
    by (auto simp: S0_def rz_def bucket_ok_def)
  have pos: "unat nO + (b_off nxt - unat nO) = b_off nxt" using Ole nxt(2) by simp
  obtain b1 where b1: "poke (unat (fb_offset nxt - nO)) (map Some (msg_slice M (b_off nxt) (b_sz nxt))) rz = Some b1"
      "length b1 = length rz"
      "holds_at M (unat nO) b1 (S0 \<union> {b_off nxt - unat nO..<b_off nxt - unat nO + b_sz nxt})"
    using holds_at_poke[OF h0, of "b_off nxt - unat nO" "b_sz nxt"] ub lrz pos unfolding uD by auto
  have "\<exists>buf. (if nO = o1
       then if fb_offset nxt \<le> o1 + dz
            then do { d \<leftarrow> peek 0 (unat (min dz (fb_offset nxt - nO))) data; poke 0 (map Some d) b1 }
            else do { src \<leftarrow> peek 0 (unat (fb_sz cur - (o1 + dz - fb_offset cur))) (if cc then b1 else fb_buf cur);
                      buf \<leftarrow> poke (unat dz) src b1; d \<leftarrow> peek 0 (unat dz) data; poke 0 (map Some d) buf }
       else do { buf \<leftarrow> (if cc then Some b1 else do { src \<leftarrow> peek 0 (b_sz cur) (fb_buf cur); poke 0 src b1 });
                 d \<leftarrow> peek (unat (fb_end cur - o1)) (unat (fb_offset nxt - fb_end cur)) data;
                 poke (b_sz cur) (map Some d) buf }) = Some buf \<and>
     buf = map Some (msg_slice M (unat nO) (?ne - unat nO))" (is "\<exists>buf. ?f = Some buf \<and> _")
  proof (cases "nO = o1")
    case True
    have k: "unat (min dz (fb_offset nxt - nO)) = b_off nxt - unat o1"
      using nxt(3) uD[unfolded True] True by (simp add: unat_min)
    have d: "peek 0 (b_off nxt - unat o1) data = Some (msg_slice M (unat o1) (b_off nxt - unat o1))"
      using peek_data[OF assms(3,4), of 0 "b_off nxt - unat o1"] nxt(3) by simp
    obtain b2 where b2: "poke 0 (map Some (msg_slice M (unat o1) (b_off nxt - unat o1))) b1 = Some b2" "length b2 = length b1"
        "holds_at M (unat nO) b2 (S0 \<union> {b_off nxt - unat nO..<b_off nxt - unat nO + b_sz nxt} \<union> {0..<0 + (b_off nxt - unat o1)})"
    proof -
      have p: "unat nO + 0 + (b_off nxt - unat o1) \<le> length M" "0 + (b_off nxt - unat o1) \<le> length b1"
        using ub lrz b1(2) Ole nxt(2) True by auto
      show thesis using holds_at_poke[OF b1(3) p] that True by auto
    qed
    have len: "length b2 = ?ne - unat nO" using b1(2) b2(2) lrz by simp
    have "{0..<length b2} \<subseteq> S0 \<union> {b_off nxt - unat nO..<b_off nxt - unat nO + b_sz nxt} \<union> {0..<0 + (b_off nxt - unat o1)}"
      using len True Ole nxt(2) by auto
    from holds_at_full[OF b2(3) this] len ub Ole nxt(2) show ?thesis using True comb k d b2(1) by simp
  next
    case False
    have uO': "unat nO = b_off cur" using False uO by (simp add: nO_def min_def word_le_nat_alt split: if_splits)
    have lt: "b_off cur < unat o1" using False uO' uO by (simp add: word_unat_eq_iff min_def split: if_splits)
    have a: "unat (fb_end cur - o1) = ?ce - unat o1"
      using unat_sub_small[of o1 "fb_end cur"] place uce by (simp add: word_le_nat_alt)
    have b: "unat (fb_offset nxt - fb_end cur) = b_off nxt - ?ce"
      using unat_sub_small[of "fb_end cur" "fb_offset nxt"] nxt(2) uce by (simp add: word_le_nat_alt)
    have d: "peek (unat (fb_end cur - o1)) (unat (fb_offset nxt - fb_end cur)) data = Some (msg_slice M ?ce (b_off nxt - ?ce))"
      unfolding a b using peek_data[OF assms(3,4), of "?ce - unat o1" "b_off nxt - ?ce"] place nxt(2,3) by simp
    obtain b2 where b2: "(if cc then Some b1 else do { src \<leftarrow> peek 0 (b_sz cur) (fb_buf cur); poke 0 src b1 }) = Some b2"
        "length b2 = length b1"
        "holds_at M (unat nO) b2 ({b_off nxt - unat nO..<b_off nxt - unat nO + b_sz nxt} \<union> {0..<0 + b_sz cur})"
    proof (cases cc)
      case True
      then show ?thesis using that[of b1] b1(3) lt by (simp add: S0_def Un_commute)
    next
      case f: False
      have "\<exists>b2. poke 0 (map Some (msg_slice M (b_off cur) (b_sz cur))) b1 = Some b2 \<and> length b2 = length b1 \<and>
        holds_at M (unat nO) b2 (S0 \<union> {b_off nxt - unat nO..<b_off nxt - unat nO + b_sz nxt} \<union> {0..<0 + b_sz cur})"
        using holds_at_poke[OF b1(3), of 0 "b_sz cur"] ub lrz b1(2) uO' nxt(2) by auto
      then show ?thesis using that f peek_bucket[OF assms(1) order_refl] by (auto simp: S0_def)
    qed
    obtain b3 where b3: "poke (b_sz cur) (map Some (msg_slice M ?ce (b_off nxt - ?ce))) b2 = Some b3" "length b3 = length b2"
        "holds_at M (unat nO) b3 ({b_off nxt - unat nO..<b_off nxt - unat nO + b_sz nxt} \<union> {0..<0 + b_sz cur} \<union>
            {b_sz cur..<b_sz cur + (b_off nxt - ?ce)})"
    proof -
      have p: "unat nO + b_sz cur + (b_off nxt - ?ce) \<le> length M" "b_sz cur + (b_off nxt - ?ce) \<le> length b2"
        using ub lrz b1(2) b2(2) uO' nxt(2) by auto
      show thesis using holds_at_poke[OF b2(3) p] that uO' by auto
    qed
    have len: "length b3 = ?ne - unat nO" using b1(2) b2(2) b3(2) lrz by simp
    have "{0..<length b3} \<subseteq> {b_off nxt - unat nO..<b_off nxt - unat nO + b_sz nxt} \<union> {0..<0 + b_sz cur} \<union>
            {b_sz cur..<b_sz cur + (b_off nxt - ?ce)}"
      using len uO' nxt(2) by auto
    from holds_at_full[OF b3(3) this] len ub uO' nxt(2)
    show ?thesis using False b2(1) d b3(1) by simp
  qed
  then obtain buf where buf: "?f = Some buf" "buf = map Some (msg_slice M (unat nO) (?ne - unat nO))" by blast
  have total: "unat nO + (?ne - unat nO) = ?ne" using Ole nxt(2) by simp
  let ?nb = "\<lparr>fb_offset = nO, fb_sz = fb_end nxt - nO, fb_buf = buf\<rparr>"
  have "bucket_ok M ?nb" using buf(2) total ub uS by (simp add: bucket_ok_def)
  moreover have "DtlsMsgCombineFragBuckets msg cur mid (nxt # rest) o1 data dz (Suc heap) =
      Some (msg\<lparr>m_fragBucketListCount := m_fragBucketListCount msg - of_nat (length mid) - 1,
                m_bytesReceived := m_bytesReceived msg + (fb_sz ?nb - (fb_sz cur + sum_list (map fb_sz mid) + fb_sz nxt))\<rparr>,
            Some (?nb # rest), heap)"
    using buf(1) src b1(1) comb
    unfolding DtlsMsgCombineFragBuckets_def Let_def heap_alloc_def nO_def[symmetric]
    by (cases "nO = o1"; cases cc) (simp_all add: cc_def[symmetric] rz_def del: Option.bind_assoc)
  ultimately show ?thesis using total uO uS by (intro exI[of _ ?nb]) simp
qed

end
