(* ===== verification/DtlsReassembly.thy ===== *)
theory DtlsReassembly
  imports DtlsMsgs Dtls13Epoch
begin

text \<open>
  Correctness of the fragment reassembly of \<open>DtlsMsgs\<close>: one stored fragment, whole messages, the list of
  messages, and the two ways in which a fragment corrupts the message.
\<close>

section \<open>One fragment\<close>

text \<open>The search stops at the first bucket that ends at or behind the fragment's start.\<close>

lemma frag_place_At:
  "frag_place o1 e pre bs = At pre' rest \<Longrightarrow>
     \<exists>skip. pre' = pre @ skip \<and> bs = skip @ rest \<and> (\<forall>a \<in> set skip. fb_end a < o1) \<and>
       (\<forall>c cs. rest = c # cs \<longrightarrow> o1 \<le> fb_end c \<and> \<not> (fb_offset c \<le> o1 \<and> e \<le> fb_end c))"
proof (induction bs arbitrary: pre)
  case (Cons b bs)
  show ?case
  proof (cases "fb_offset b \<le> o1 \<and> e \<le> fb_end b \<or> o1 \<le> fb_end b")
    case True
    with Cons.prems show ?thesis by (auto split: if_splits)
  next
    case False
    with Cons.prems have "frag_place o1 e (pre @ [b]) bs = At pre' rest" by (auto split: if_splits)
    from Cons.IH[OF this] obtain skip where "pre' = (pre @ [b]) @ skip \<and> bs = skip @ rest \<and> (\<forall>a \<in> set skip. fb_end a < o1) \<and>
       (\<forall>c cs. rest = c # cs \<longrightarrow> o1 \<le> fb_end c \<and> \<not> (fb_offset c \<le> o1 \<and> e \<le> fb_end c))" by blast
    with False show ?thesis by (intro exI[of _ "b # skip"]) auto
  qed
qed simp

lemma frag_place_Have: "frag_place o1 e pre bs = Have \<Longrightarrow> \<exists>b \<in> set bs. fb_offset b \<le> o1 \<and> e \<le> fb_end b"
  by (induction bs arbitrary: pre) (auto split: if_splits)

text \<open>
  The fragments that are stored correctly: none that ends inside a bucket it starts in front of, and none
  that lies in the gap between two buckets without touching the second one.
\<close>

definition frag_clean :: "DtlsFragBucket list \<Rightarrow> nat \<Rightarrow> nat \<Rightarrow> bool" where
  "frag_clean bs off e \<longleftrightarrow>
     (\<forall>b \<in> set bs. \<not> (off < b_off b \<and> b_off b < e \<and> e < b_off b + b_sz b)) \<and>
     (\<forall>a \<in> set bs. \<forall>b \<in> set bs. \<not> (b_off a + b_sz a < off \<and> e < b_off b))"

definition frag_of :: "bytes \<Rightarrow> u32 \<Rightarrow> bytes \<Rightarrow> u32 \<Rightarrow> bool" where
  "frag_of M off data n \<longleftrightarrow> take (unat n) data = msg_slice M (unat off) (unat n) \<and> unat n \<le> length data \<and>
     unat off + unat n \<le> length M"

definition store_ok :: "bytes \<Rightarrow> DtlsMsg \<Rightarrow> bool" where
  "store_ok M m \<longleftrightarrow> length M < 2 ^ 24 \<and> m_sz m = of_nat (length M) \<and> buckets_ok M (m_fragBucketList m) \<and>
     m_bytesReceived m = sum_list (map fb_sz (m_fragBucketList m)) \<and>
     m_fragBucketListCount m = of_nat (length (m_fragBucketList m)) \<and> length (m_fragBucketList m) \<le> 10"

lemma gaps_append:
  "gaps (xs @ ys) \<longleftrightarrow> gaps xs \<and> gaps ys \<and> (\<forall>a \<in> set xs. \<forall>b \<in> set ys. b_off a + b_sz a < b_off b)"
  by (auto simp: gaps_def sorted_wrt_append)

lemma gaps_Cons: "gaps (x # ys) \<longleftrightarrow> gaps ys \<and> (\<forall>b \<in> set ys. b_off x + b_sz x < b_off b)"
  by (auto simp: gaps_def)

lemma create_bucket_ok:
  assumes "frag_of M o1 data dz"
  shows "\<exists>b. DtlsMsgCreateFragBucket o1 data dz (Suc h) = Some (Some b, h) \<and> bucket_ok M b \<and> fb_offset b = o1 \<and> fb_sz b = dz"
  using assms by (simp add: DtlsMsgCreateFragBucket_def heap_alloc_def frag_of_def bucket_ok_def peek_def)

lemma covered_Cons [simp]: "covered (b # bs) = {b_off b ..< b_off b + b_sz b} \<union> covered bs"
  by (simp add: covered_def)

lemma covered_Nil [simp]: "covered [] = {}"
  by (simp add: covered_def)

lemma covered_append [simp]: "covered (xs @ ys) = covered xs \<union> covered ys"
  by (simp add: covered_def)

lemma count_below: "length bs \<le> 10 \<Longrightarrow> (10 \<le> (of_nat (length bs) :: u8)) = (length bs = 10)"
proof -
  assume l: "length bs \<le> 10"
  have "unat (of_nat (length bs) :: u8) = length bs" using l by (simp add: unsigned_of_nat take_bit_nat_eq_self)
  then show ?thesis using l by (simp add: word_le_nat_alt)
qed

text \<open>Growing a bucket, whichever way.\<close>

lemma combine_store:
  assumes "buckets_ok M (pre @ cur # rest)" "length M < 2 ^ 32" "frag_of M o1 data dz"
    and pre: "\<forall>a \<in> set pre. b_off a + b_sz a < unat o1"
    and place: "unat o1 \<le> b_off cur + b_sz cur" "b_off cur \<le> unat o1 + unat dz"
      "\<not> (b_off cur \<le> unat o1 \<and> unat o1 + unat dz \<le> b_off cur + b_sz cur)"
    and clean: "frag_clean (pre @ cur # rest) (unat o1) (unat o1 + unat dz)"
    and msg: "m_bytesReceived msg = sum_list (map fb_sz (pre @ cur # rest))"
      "m_fragBucketListCount msg = of_nat (length (pre @ cur # rest))"
  shows "\<exists>bs n r. DtlsMsgCombineFragBuckets msg cur (takeWhile (\<lambda>b. fb_end b \<le> o1 + dz) rest)
        (dropWhile (\<lambda>b. fb_end b \<le> o1 + dz) rest) o1 data dz (Suc h) =
      Some (msg\<lparr>m_fragBucketListCount := n, m_bytesReceived := r\<rparr>, Some bs, h) \<and>
    buckets_ok M (pre @ bs) \<and> n = of_nat (length (pre @ bs)) \<and> r = sum_list (map fb_sz (pre @ bs)) \<and>
    length bs \<le> length (cur # rest) \<and>
    covered bs = covered (cur # rest) \<union> {unat o1 ..< unat o1 + unat dz}"
proof -
  let ?e = "unat o1 + unat dz"
  define mid where "mid = takeWhile (\<lambda>b. fb_end b \<le> o1 + dz) rest"
  define nexts where "nexts = dropWhile (\<lambda>b. fb_end b \<le> o1 + dz) rest"
  have rest: "rest = mid @ nexts" by (simp add: mid_def nexts_def)
  have ue: "unat (o1 + dz) = ?e" using assms(2,3) by (intro unat_add_small) (simp add: frag_of_def)
  have ok: "bucket_ok M cur" "list_all (bucket_ok M) pre" "list_all (bucket_ok M) rest" and g: "gaps (pre @ cur # rest)"
    using assms(1) by (auto simp: buckets_ok_def)
  have fo: "take (unat dz) data = msg_slice M (unat o1) (unat dz)" "unat dz \<le> length data" "?e \<le> length M"
    using assms(3) by (auto simp: frag_of_def)
  have endn: "unat (fb_end b) = b_off b + b_sz b" if "b \<in> set rest" for b
    using fb_end_nat[of M b] ok(3) that assms(2) by (auto simp: list_all_iff)
  have mide: "b_off b + b_sz b \<le> ?e \<and> unat o1 \<le> b_off b" if "b \<in> set mid" for b
  proof -
    have "fb_end b \<le> o1 + dz" using that set_takeWhileD unfolding mid_def by metis
    moreover have "b_off cur + b_sz cur < b_off b" using g that rest by (auto simp: gaps_append gaps_Cons)
    ultimately show ?thesis using endn[of b] that rest ue place(1) by (auto simp: word_le_nat_alt)
  qed
  have midc: "covered mid \<subseteq> {unat o1 ..< ?e}" using mide by (force simp: covered_def)
  show ?thesis
  proof (cases "nexts = [] \<or> ?e < b_off (hd nexts)")
    case True
    obtain nb where nb: "DtlsMsgCombineFragBuckets msg cur mid nexts o1 data dz (Suc h) =
        Some (msg\<lparr>m_fragBucketListCount := m_fragBucketListCount msg - of_nat (length mid),
                m_bytesReceived := m_bytesReceived msg + (fb_sz nb - (fb_sz cur + sum_list (map fb_sz mid)))\<rparr>,
            Some (nb # nexts), h)" "bucket_ok M nb" "b_off nb = min (b_off cur) (unat o1)"
        "b_off nb + b_sz nb = max (b_off cur + b_sz cur) ?e"
      using combine_alone[OF ok(1) assms(2) fo place _ True, of msg mid h] clean by (auto simp: frag_clean_def)
    have far: "?e < b_off b" if "b \<in> set nexts" for b
      using True g that rest by (cases nexts) (auto simp: gaps_append gaps_Cons)
    have "gaps (pre @ nb # nexts)"
      using g pre nb(3,4) far rest by (auto simp: gaps_append gaps_Cons)
    moreover have "covered (nb # nexts) = covered (cur # rest) \<union> {unat o1 ..< ?e}"
      using midc nb(3,4) place(1,2) rest by (auto simp: min_def max_def)
    ultimately show ?thesis
      using nb(1,2) ok rest msg unfolding mid_def[symmetric] nexts_def[symmetric]
      by (simp add: buckets_ok_def)
  next
    case False
    then obtain nxt nrest where n: "nexts = nxt # nrest" "b_off nxt \<le> ?e" by (cases nexts) auto
    have "\<not> fb_end nxt \<le> o1 + dz"
      using hd_dropWhile[of "\<lambda>b. fb_end b \<le> o1 + dz" rest] n(1) unfolding nexts_def by (metis list.sel(1) list.distinct(1))
    then have nb1: "?e < b_off nxt + b_sz nxt" using endn[of nxt] rest n ue by (auto simp: word_le_nat_alt)
    have nok: "bucket_ok M nxt" "b_off cur + b_sz cur < b_off nxt" using ok(3) g rest n by (auto simp: gaps_append gaps_Cons)
    obtain nb where nb: "DtlsMsgCombineFragBuckets msg cur mid (nxt # nrest) o1 data dz (Suc h) =
        Some (msg\<lparr>m_fragBucketListCount := m_fragBucketListCount msg - of_nat (length mid) - 1,
                m_bytesReceived := m_bytesReceived msg + (fb_sz nb - (fb_sz cur + sum_list (map fb_sz mid) + fb_sz nxt))\<rparr>,
            Some (nb # nrest), h)" "bucket_ok M nb" "b_off nb = min (b_off cur) (unat o1)"
        "b_off nb + b_sz nb = b_off nxt + b_sz nxt"
      using combine_bridge[OF ok(1) assms(2) fo place(1) nok n(2) nb1, of msg mid nrest h] by auto
    have "gaps (pre @ nb # nrest)"
      using g pre nb(3,4) rest n by (auto simp: gaps_append gaps_Cons)
    moreover have "covered (nb # nrest) = covered (cur # rest) \<union> {unat o1 ..< ?e}"
      using midc nb(3,4) place(1,2) rest n nok(2) nb1 by (auto simp: min_def)
    ultimately show ?thesis
      using nb(1,2) ok rest msg n unfolding mid_def[symmetric] nexts_def[symmetric]
      by (simp add: buckets_ok_def)
  qed
qed

text \<open>One stored fragment: the buckets stay correct and gain exactly its bytes.\<close>

text \<open>Fragments that start inside or right behind a bucket need no new one.\<close>

definition frag_touches :: "DtlsFragBucket list \<Rightarrow> nat \<Rightarrow> bool" where
  "frag_touches bs off \<longleftrightarrow> bs = [] \<or> (\<exists>b \<in> set bs. b_off b \<le> off \<and> off \<le> b_off b + b_sz b)"

lemma frag_store_ok:
  assumes ok: "store_ok M m" and fo: "frag_of M o1 data dz"
    and clean: "frag_clean (m_fragBucketList m) (unat o1) (unat o1 + unat dz)"
  shows "\<exists>rc bs n r h'. frag_store m o1 data dz (Suc h) =
      Some (rc, m\<lparr>m_fragBucketList := bs, m_fragBucketListCount := n, m_bytesReceived := r\<rparr>, h') \<and> h \<le> h' \<and>
    store_ok M (m\<lparr>m_fragBucketList := bs, m_fragBucketListCount := n, m_bytesReceived := r\<rparr>) \<and>
    (rc = RC_OK \<and> bs \<noteq> [] \<and> covered bs = covered (m_fragBucketList m) \<union> {unat o1 ..< unat o1 + unat dz} \<or>
     rc = DTLS_TOO_MANY_FRAGMENTS_E \<and> bs = m_fragBucketList m \<and> length bs = 10) \<and>
    (frag_touches (m_fragBucketList m) (unat o1) \<longrightarrow> rc = RC_OK \<and> length bs \<le> max 1 (length (m_fragBucketList m)))"
proof -
  let ?e = "unat o1 + unat dz" and ?bs = "m_fragBucketList m"
  have len: "length M < 2 ^ 32" and bok: "buckets_ok M ?bs" and cnt: "m_fragBucketListCount m = of_nat (length ?bs)"
    and le: "length ?bs \<le> 10" and sum: "m_bytesReceived m = sum_list (map fb_sz ?bs)"
    using ok by (auto simp: store_ok_def)
  have ue: "unat (o1 + dz) = ?e" using len fo by (intro unat_add_small) (simp add: frag_of_def)
  have endn: "unat (fb_end b) = b_off b + b_sz b" if "b \<in> set ?bs" for b
    using fb_end_nat[of M b] bok that len by (auto simp: buckets_ok_def list_all_iff)
  obtain b where b: "DtlsMsgCreateFragBucket o1 data dz (Suc h) = Some (Some b, h)" "bucket_ok M b" "fb_offset b = o1" "fb_sz b = dz"
    using create_bucket_ok[OF fo] by blast
  show ?thesis
  proof (cases "?bs = []")
    case True
    with ok b show ?thesis
      by (intro exI[of _ RC_OK] exI[of _ "[b]"]) (auto simp: frag_store_def Let_def store_ok_def buckets_ok_def gaps_def)
  next
    case ne: False
    show ?thesis
    proof (cases "frag_place o1 (o1 + dz) [] ?bs")
      case Have
      from frag_place_Have[OF Have] obtain c where "c \<in> set ?bs" "fb_offset c \<le> o1" "o1 + dz \<le> fb_end c" by blast
      then have "{unat o1 ..< ?e} \<subseteq> covered ?bs"
        using endn[of c] ue by (force simp: covered_def word_le_nat_alt)
      with Have ne ok show ?thesis
        by (intro exI[of _ RC_OK] exI[of _ ?bs]) (auto simp: frag_store_def Let_def intro!: exI[of _ "m_fragBucketListCount m"] exI[of _ "m_bytesReceived m"])
    next
      case (At pre rest)
      from frag_place_At[OF At] have sp: "?bs = pre @ rest" and skip: "\<forall>a \<in> set pre. fb_end a < o1"
        and at: "\<And>c cs. rest = c # cs \<Longrightarrow> o1 \<le> fb_end c \<and> \<not> (fb_offset c \<le> o1 \<and> o1 + dz \<le> fb_end c)"
        by auto
      have pre: "\<forall>a \<in> set pre. b_off a + b_sz a < unat o1"
        using skip endn sp by (auto simp: word_less_nat_alt)
      have full: "(DTLS_FRAG_POOL_SZ \<le> m_fragBucketListCount m) = (length ?bs = 10)"
        using count_below[OF le] cnt by simp
      have new: ?thesis if d: "frag_store m o1 data dz (Suc h) =
          (if length ?bs = 10 then Some (DTLS_TOO_MANY_FRAGMENTS_E, m, Suc h)
           else Some (RC_OK, m\<lparr>m_fragBucketList := bs, m_fragBucketListCount := m_fragBucketListCount m + 1,
                              m_bytesReceived := m_bytesReceived m + dz\<rparr>, h))"
         and bs: "buckets_ok M bs" "length bs = Suc (length ?bs)" "sum_list (map fb_sz bs) = sum_list (map fb_sz ?bs) + dz"
           "covered bs = covered ?bs \<union> {unat o1 ..< ?e}" "\<not> frag_touches ?bs (unat o1)" for bs
      proof (cases "length ?bs = 10")
        case True
        then show ?thesis using d ok bs(5)
          by (intro exI[of _ DTLS_TOO_MANY_FRAGMENTS_E] exI[of _ ?bs] exI[of _ "m_fragBucketListCount m"] exI[of _ "m_bytesReceived m"] exI[of _ "Suc h"]) auto
      next
        case False
        then show ?thesis using d bs ok le
          by (intro exI[of _ RC_OK] exI[of _ bs] exI[of _ "m_fragBucketListCount m + 1"] exI[of _ "m_bytesReceived m + dz"] exI[of _ h])
            (auto simp: store_ok_def)
      qed
      show ?thesis
      proof (cases rest)
        case Nil
        show ?thesis
          by (rule new[of "pre @ [b]"])
            (use Nil At ne b full pre bok sp in \<open>auto simp: frag_touches_def frag_store_def Let_def buckets_ok_def gaps_def sorted_wrt_append\<close>)
      next
        case (Cons c cs)
        have ce: "unat (fb_end c) = b_off c + b_sz c" using endn sp Cons by simp
        show ?thesis
        proof (cases "pre = [] \<and> o1 + dz < fb_offset c")
          case True
          then have lt: "?e < b_off c" using ue by (simp add: word_less_nat_alt)
          have all: "\<forall>x \<in> set rest. ?e < b_off x" using bok sp True Cons lt by (auto simp: buckets_ok_def gaps_Cons)
          show ?thesis
            by (rule new[of "b # rest"])
              (use Cons At ne b full bok sp True all in \<open>auto simp: frag_touches_def frag_store_def Let_def buckets_ok_def gaps_Cons\<close>)
        next
          case False
          have place: "unat o1 \<le> b_off c + b_sz c" "\<not> (b_off c \<le> unat o1 \<and> ?e \<le> b_off c + b_sz c)"
            using at[OF Cons] ce ue by (auto simp: word_le_nat_alt)
          have touch: "b_off c \<le> ?e"
          proof (cases pre)
            case Nil
            then show ?thesis using False ue by (simp add: word_less_nat_alt)
          next
            case (Cons a as)
            then have "b_off a + b_sz a < unat o1" using pre by simp
            then show ?thesis using clean sp \<open>rest = c # cs\<close> Cons by (auto simp: frag_clean_def)
          qed
          obtain bs n r where cb: "DtlsMsgCombineFragBuckets m c (takeWhile (\<lambda>b. fb_end b \<le> o1 + dz) cs)
              (dropWhile (\<lambda>b. fb_end b \<le> o1 + dz) cs) o1 data dz (Suc h) =
              Some (m\<lparr>m_fragBucketListCount := n, m_bytesReceived := r\<rparr>, Some bs, h)"
            "buckets_ok M (pre @ bs)" "n = of_nat (length (pre @ bs))" "r = sum_list (map fb_sz (pre @ bs))"
            "length bs \<le> length (c # cs)" "covered bs = covered (c # cs) \<union> {unat o1 ..< ?e}"
            using combine_store[of M pre c cs o1 data dz m h] bok len fo pre place touch clean sum cnt sp Cons by auto
          have ne': "pre @ bs \<noteq> []"
          proof
            assume "pre @ bs = []"
            then have "covered bs = {}" by simp
            then have "{unat o1 ..< ?e} = {}" "{b_off c ..< b_off c + b_sz c} = {}" using cb(6) by auto
            then show False using place touch by auto
          qed
          have "frag_store m o1 data dz (Suc h) =
            Some (RC_OK, m\<lparr>m_fragBucketList := pre @ bs, m_fragBucketListCount := n, m_bytesReceived := r\<rparr>, h)"
            using ne At Cons False cb(1) by (cases pre) (auto simp: frag_store_def Let_def)
          then show ?thesis
            using cb ok sp Cons le ne'
            by (intro exI[of _ RC_OK] exI[of _ "pre @ bs"] exI[of _ n] exI[of _ r] exI[of _ h]) (auto simp: store_ok_def)
        qed
      qed
    qed
  qed
qed

section \<open>Complete messages\<close>

lemma gaps_room:
  "gaps bs \<Longrightarrow> \<forall>b \<in> set bs. lo \<le> b_off b \<and> b_off b + b_sz b \<le> N \<Longrightarrow>
   sum_list (map b_sz bs) + length bs \<le> Suc (N - lo)"
proof (induction bs arbitrary: lo)
  case (Cons b bs)
  have "gaps bs" "\<forall>x \<in> set bs. Suc (b_off b + b_sz b) \<le> b_off x \<and> b_off x + b_sz x \<le> N"
    using Cons.prems by (auto simp: gaps_Cons)
  from Cons.IH[OF this] have ih: "sum_list (map b_sz bs) + length bs \<le> Suc (N - Suc (b_off b + b_sz b))" .
  have b: "lo \<le> b_off b" "b_off b + b_sz b \<le> N" using Cons.prems(2) by auto
  show ?case
  proof (cases bs)
    case (Cons x xs)
    then have "b_off b + b_sz b < N" using Cons.prems \<open>gaps bs\<close> \<open>\<forall>x \<in> set bs. _\<close> by (auto simp: Cons)
    with ih b show ?thesis by simp
  qed (use b in simp)
qed simp

lemma sum_words:
  "sum_list (map b_sz bs) < 2 ^ 32 \<Longrightarrow> unat (sum_list (map fb_sz bs)) = sum_list (map b_sz bs)"
  by (induction bs) (simp_all add: unat_add_small)

text \<open>All bytes are there exactly when one bucket holds the whole message.\<close>

lemma complete_single:
  assumes "buckets_ok M bs" "bs \<noteq> []" "sum_list (map b_sz bs) = length M"
  shows "\<exists>b. bs = [b] \<and> b_off b = 0 \<and> b_sz b = length M"
proof -
  have in_M: "\<forall>b \<in> set bs. 0 \<le> b_off b \<and> b_off b + b_sz b \<le> length M"
    using assms(1) by (auto simp: buckets_ok_def list_all_iff bucket_ok_def)
  from gaps_room[OF _ this] assms(1,3) have "length bs \<le> 1" by (simp add: buckets_ok_def)
  with assms(2) obtain b where "bs = [b]" by (cases bs) auto
  with assms(3) in_M show ?thesis by auto
qed

lemma complete_iff:
  assumes "buckets_ok M bs" "bs \<noteq> []" "M \<noteq> []"
  shows "sum_list (map b_sz bs) = length M \<longleftrightarrow> covered bs = {0..<length M}"
proof
  assume "sum_list (map b_sz bs) = length M"
  from complete_single[OF assms(1,2) this] show "covered bs = {0..<length M}" by auto
next
  assume c: "covered bs = {0..<length M}"
  have inM: "b_off b + b_sz b \<le> length M" if "b \<in> set bs" for b
    using assms(1) that by (auto simp: buckets_ok_def list_all_iff bucket_ok_def)
  obtain b rest where bs: "bs = b # rest" using assms(2) by (cases bs) auto
  have later: "b_off b + b_sz b < b_off x" if "x \<in> set rest" for x
    using assms(1) that by (auto simp: bs buckets_ok_def gaps_Cons)
  have "rest = []"
  proof (rule ccontr)
    assume "rest \<noteq> []"
    then obtain x where x: "x \<in> set rest" by (cases rest) auto
    with later inM have "b_off b + b_sz b < length M" by (fastforce simp: bs)
    then have "b_off b + b_sz b \<in> covered bs" using c by simp
    then show False using later by (fastforce simp: bs covered_def)
  qed
  moreover have "0 \<in> covered bs" using c assms(3) by simp
  ultimately have off: "b_off b = 0" by (simp add: bs)
  have "length M - 1 \<in> covered bs" using c assms(3) by (simp add: Suc_le_eq)
  with \<open>rest = []\<close> off inM[of b] bs assms(3) show "sum_list (map b_sz bs) = length M" by (auto simp: Suc_le_eq)
qed

definition msg_header :: "DtlsMsg \<Rightarrow> bytes" where
  "msg_header m = [m_type m] @ c32to24 (m_sz m) @ c16toa (ucast (m_seq m)) @ c32to24 0 @ c32to24 (m_sz m)"

definition msg_inv :: "bytes \<Rightarrow> DtlsMsg \<Rightarrow> bool" where
  "msg_inv M m \<longleftrightarrow> length M < 2 ^ 24 \<and> m_sz m = of_nat (length M) \<and>
     (if m_ready m then m_fullMsg m = Some (map Some M) \<and> m_hdr m = msg_header m
      else store_ok M m \<and> (m_fragBucketList m \<noteq> [] \<longrightarrow> m_bytesReceived m \<noteq> m_sz m))"

definition received :: "bytes \<Rightarrow> DtlsMsg \<Rightarrow> nat set" where
  "received M m = (if m_ready m then {0..<length M} else covered (m_fragBucketList m))"

lemma unat_len: "length M < 2 ^ 24 \<Longrightarrow> unat (of_nat (length M) :: u32) = length M"
  by (simp add: unsigned_of_nat take_bit_nat_eq_self)

lemma received_bytes_eq:
  assumes "store_ok M m" "m_fragBucketList m \<noteq> []"
  shows "m_bytesReceived m = m_sz m \<longleftrightarrow> sum_list (map b_sz (m_fragBucketList m)) = length M"
proof -
  let ?bs = "m_fragBucketList m"
  have len: "length M < 2 ^ 24" and bok: "buckets_ok M ?bs" using assms by (auto simp: store_ok_def)
  have "\<forall>b \<in> set ?bs. 0 \<le> b_off b \<and> b_off b + b_sz b \<le> length M"
    using bok by (auto simp: buckets_ok_def list_all_iff bucket_ok_def)
  from gaps_room[OF _ this] bok have "sum_list (map b_sz ?bs) + length ?bs \<le> Suc (length M)"
    by (simp add: buckets_ok_def)
  moreover have "0 < length ?bs" using assms(2) by simp
  ultimately have "sum_list (map b_sz ?bs) \<le> length M" by linarith
  then have "unat (sum_list (map fb_sz ?bs)) = sum_list (map b_sz ?bs)" using len by (intro sum_words) simp
  then show ?thesis using assms(1) unat_len[OF len] by (auto simp: store_ok_def word_unat_eq_iff)
qed

lemma assemble_ok:
  assumes "store_ok M m" "m_fragBucketList m \<noteq> []" "m_bytesReceived m = m_sz m"
  shows "msg_inv M (DtlsMsgAssembleCompleteMessage m) \<and> m_ready (DtlsMsgAssembleCompleteMessage m)"
proof -
  have len: "length M < 2 ^ 24" and bok: "buckets_ok M (m_fragBucketList m)" and sz: "m_sz m = of_nat (length M)"
    using assms(1) by (auto simp: store_ok_def)
  from received_bytes_eq[OF assms(1,2)] assms(3) obtain b where
    b: "m_fragBucketList m = [b]" "b_off b = 0" "b_sz b = length M"
    using complete_single[OF bok assms(2)] by auto
  have off: "fb_offset b = 0" using b(2) by (simp add: unat_eq_zero)
  have bsz: "fb_sz b = m_sz m" using b(3) sz unat_len[OF len] by (simp add: word_unat_eq_iff)
  have buf: "fb_buf b = map Some M"
    using bok b by (simp add: buckets_ok_def bucket_ok_def msg_slice_def)
  have "m_fragBucketListCount m = 1" using assms(1) b(1) by (simp add: store_ok_def)
  with b(1) off bsz buf len sz show ?thesis
    by (simp add: DtlsMsgAssembleCompleteMessage_def msg_inv_def msg_header_def)
qed

lemma frag_clean_Nil [simp]: "frag_clean [] off e"
  by (simp add: frag_clean_def)

text \<open>The effect of one call, as the proofs below use it.\<close>

definition set_result ::
  "bytes \<Rightarrow> DtlsMsg \<Rightarrow> u32 \<Rightarrow> u32 \<Rightarrow> u8 \<Rightarrow> u16 \<Rightarrow> u32 \<Rightarrow> nat \<Rightarrow> wolf_rc \<Rightarrow> DtlsMsg \<Rightarrow> nat \<Rightarrow> bool" where
  "set_result M m off n type epoch seq h rc m' h' \<longleftrightarrow>
    msg_inv M m' \<and> (m_ready m' \<longleftrightarrow> received M m' = {0..<length M}) \<and>
    (rc = RC_OK \<and> received M m' = received M m \<union> {unat off ..< unat off + unat n} \<or>
     rc = DTLS_TOO_MANY_FRAGMENTS_E \<and> received M m' = received M m \<and> length (m_fragBucketList m) = 10) \<and>
    m_type m' \<in> {m_type m, type} \<and> (m_ready m \<or> m_type m' = type \<and> m_epoch m' = epoch \<and> m_seq m' = seq) \<and> h \<le> h' \<and>
    (\<not> m_ready m \<longrightarrow> frag_touches (m_fragBucketList m) (unat off) \<longrightarrow>
       rc = RC_OK \<and> (m_ready m' \<or> m_fragBucketList m' \<noteq> [] \<and> length (m_fragBucketList m') \<le> max 1 (length (m_fragBucketList m))))"

lemma DtlsMsgSet_step:
  assumes inv: "msg_inv M m" and fo: "frag_of M off data n"
    and clean: "\<not> m_ready m \<longrightarrow> frag_clean (m_fragBucketList m) (unat off) (unat off + unat n)"
    and key: "m_type m = byte_of_hs no_shake \<or> m_type m = type \<and> m_epoch m = epoch \<and> m_seq m = seq"
    and ne: "M \<noteq> []"
  shows "\<exists>rc m' h'. DtlsMsgSet (Some m) seq epoch data type off n (of_nat (length M)) enc (Suc h) = Some (rc, Some m', h') \<and>
    set_result M m off n type epoch seq h rc m' h'"
proof -
  have len: "length M < 2 ^ 24" and sz: "m_sz m = of_nat (length M)" using inv by (auto simp: msg_inv_def)
  have e: "unat off + unat n \<le> length M" using fo by (simp add: frag_of_def)
  have "unat (off + n) = unat off + unat n" using e len by (intro unat_add_small) simp
  then have fits: "\<not> of_nat (length M) < off + n" using e unat_len[OF len] by (simp add: word_less_nat_alt)
  show ?thesis
  proof (cases "m_ready m")
    case True
    then show ?thesis using inv sz fits e
      by (intro exI[of _ RC_OK] exI[of _ m] exI[of _ "Suc h"]) (auto simp: DtlsMsgSet_def received_def set_result_def)
  next
    case False
    define m1 where "m1 = (if m_type m \<noteq> byte_of_hs no_shake then m\<lparr>m_encrypted := m_encrypted m \<and> enc\<rparr>
                else m\<lparr>m_type := type, m_epoch := epoch, m_seq := seq, m_encrypted := enc\<rparr>)"
    have m1: "store_ok M m1" "m_fragBucketList m1 = m_fragBucketList m" "\<not> m_ready m1" "m_sz m1 = m_sz m"
      "m_bytesReceived m1 = m_bytesReceived m"
      using inv False by (auto simp: m1_def msg_inv_def store_ok_def)
    have set: "DtlsMsgSet (Some m) seq epoch data type off n (of_nat (length M)) enc (Suc h) =
        do { (rc, msg, heap) \<leftarrow> frag_store m1 off data n (Suc h);
             if rc \<noteq> RC_OK then Some (rc, Some msg, heap)
             else Some (RC_OK, Some (if m_bytesReceived msg = m_sz msg then DtlsMsgAssembleCompleteMessage msg else msg), heap) }"
      using sz fits False key unfolding DtlsMsgSet_def m1_def Let_def by auto
    from frag_store_ok[OF m1(1) fo, of h] clean False m1(2) obtain rc bs c r h' where
      st: "frag_store m1 off data n (Suc h) =
        Some (rc, m1\<lparr>m_fragBucketList := bs, m_fragBucketListCount := c, m_bytesReceived := r\<rparr>, h')"
      "store_ok M (m1\<lparr>m_fragBucketList := bs, m_fragBucketListCount := c, m_bytesReceived := r\<rparr>)"
      "rc = RC_OK \<and> bs \<noteq> [] \<and> covered bs = covered (m_fragBucketList m) \<union> {unat off ..< unat off + unat n} \<or>
       rc = DTLS_TOO_MANY_FRAGMENTS_E \<and> bs = m_fragBucketList m \<and> length bs = 10" "h \<le> h'"
      "frag_touches (m_fragBucketList m) (unat off) \<Longrightarrow> rc = RC_OK \<and> length bs \<le> max 1 (length (m_fragBucketList m))"
      by auto
    define m2 where "m2 = m1\<lparr>m_fragBucketList := bs, m_fragBucketListCount := c, m_bytesReceived := r\<rparr>"
    have st1: "frag_store m1 off data n (Suc h) = Some (rc, m2, h')" using st(1) by (simp add: m2_def)
    have key2: "m_type m2 = type" "m_epoch m2 = epoch" "m_seq m2 = seq"
      using key by (auto simp: m2_def m1_def)
    have m2: "store_ok M m2" "m_fragBucketList m2 = bs" "\<not> m_ready m2" "m_sz m2 = of_nat (length M)"
      using st(2) m1 sz by (auto simp: m2_def)
    have done_iff: "bs \<noteq> [] \<Longrightarrow> m_bytesReceived m2 = m_sz m2 \<longleftrightarrow> covered bs = {0..<length M}"
      using received_bytes_eq[OF m2(1)] complete_iff[of M bs] m2 ne by (auto simp: store_ok_def)
    have keya: "m_type (DtlsMsgAssembleCompleteMessage x) = m_type x" "m_epoch (DtlsMsgAssembleCompleteMessage x) = m_epoch x"
      "m_seq (DtlsMsgAssembleCompleteMessage x) = m_seq x" for x
      by (auto simp: DtlsMsgAssembleCompleteMessage_def split: list.splits)
    from st(3) show ?thesis
    proof (elim disjE conjE)
      assume ok: "rc = RC_OK" "bs \<noteq> []" and cov: "covered bs = covered (m_fragBucketList m) \<union> {unat off ..< unat off + unat n}"
      show ?thesis
      proof (cases "m_bytesReceived m2 = m_sz m2")
        case True
        have "msg_inv M (DtlsMsgAssembleCompleteMessage m2)" "m_ready (DtlsMsgAssembleCompleteMessage m2)"
          using assemble_ok[of M m2] m2 ok True by auto
        then show ?thesis
          using set st1 key2 keya[of m2] st(4,5) m2(2) ok True done_iff cov False
          by (intro exI[of _ RC_OK] exI[of _ "DtlsMsgAssembleCompleteMessage m2"] exI[of _ h'])
            (simp add: received_def set_result_def)
      next
        case nd: False
        have "msg_inv M m2" using m2 nd len by (simp add: msg_inv_def)
        then show ?thesis
          using set st1 key2 keya[of m2] st(4,5) m2(2) ok nd done_iff cov False m2
          by (intro exI[of _ RC_OK] exI[of _ m2] exI[of _ h']) (simp add: received_def set_result_def)
      qed
    next
      assume f: "rc = DTLS_TOO_MANY_FRAGMENTS_E" "bs = m_fragBucketList m" "length bs = 10"
      have "bs \<noteq> []" using f(3) by auto
      moreover have "m_bytesReceived m2 = m_bytesReceived m"
        using m2(1,2) m1(1,2,5) f(2) by (simp add: store_ok_def)
      ultimately have "m_bytesReceived m2 \<noteq> m_sz m2" using inv False f(2) m2(4) sz by (simp add: msg_inv_def)
      then show ?thesis
        using set st1 key2 keya[of m2] st(4,5) m2(2) f m2 len False done_iff \<open>bs \<noteq> []\<close>
        by (intro exI[of _ DTLS_TOO_MANY_FRAGMENTS_E] exI[of _ m2] exI[of _ h'])
          (auto simp: received_def set_result_def msg_inv_def)
    qed
  qed
qed



text \<open>A witness with out-of-order fragments.\<close>

definition half_msg :: DtlsMsg where
  "half_msg = \<lparr>m_hdr = [], m_fullMsg = None,
     m_fragBucketList = [\<lparr>fb_offset = 2, fb_sz = 2, fb_buf = [Some 7, Some 8]\<rparr>], m_bytesReceived = 2,
     m_epoch = 2, m_seq = 1, m_sz = 4, m_type = 11, m_fragBucketListCount = 1, m_ready = False, m_encrypted = True\<rparr>"


section \<open>Fragments that are stored wrongly\<close>

text \<open>Delivering fragments \<open>(offset, bytes)\<close> of one message.\<close>

fun deliver :: "u8 \<Rightarrow> u16 \<Rightarrow> u32 \<Rightarrow> u32 \<Rightarrow> (u32 \<times> bytes) list \<Rightarrow> DtlsMsg option \<times> nat \<Rightarrow> (DtlsMsg option \<times> nat) option" where
  "deliver type epoch seq totalLen [] (m, heap) = Some (m, heap)"
| "deliver type epoch seq totalLen ((off, data) # frags) (m, heap) =
     do { (rc, m, heap) \<leftarrow> DtlsMsgSet m seq epoch data type off (of_nat (length data)) totalLen True heap;
          if rc \<noteq> RC_OK then None else deliver type epoch seq totalLen frags (m, heap) }"

text \<open>Fragments that follow each other from an offset on.\<close>

fun chunks_at :: "nat \<Rightarrow> bytes list \<Rightarrow> (u32 \<times> bytes) list" where
  "chunks_at off [] = []"
| "chunks_at off (c # cs) = (of_nat off, c) # chunks_at (off + length c) cs"

lemma unat_small_nat: "n < 2 ^ 24 \<Longrightarrow> unat (of_nat n :: u32) = n"
  by (simp add: unsigned_of_nat take_bit_nat_eq_self)

text \<open>What holds while the fragments arrive in order: at most one bucket, the received bytes a prefix.\<close>

definition prefix_msg :: "bytes \<Rightarrow> nat \<Rightarrow> u8 \<Rightarrow> u16 \<Rightarrow> u32 \<Rightarrow> DtlsMsg \<Rightarrow> bool" where
  "prefix_msg M k type epoch seq m \<longleftrightarrow> msg_inv M m \<and> received M m = {0..<k} \<and>
     (k = 0 \<longrightarrow> m_fragBucketList m = []) \<and> (\<not> m_ready m \<longrightarrow> length (m_fragBucketList m) \<le> 1) \<and>
     (m_ready m \<longleftrightarrow> k = length M) \<and>
     (m_type m = byte_of_hs no_shake \<or> m_type m = type \<and> m_epoch m = epoch \<and> m_seq m = seq)"

lemma prefix_bucket:
  assumes "prefix_msg M k type epoch seq m" "\<not> m_ready m"
  shows "frag_clean (m_fragBucketList m) k e" "frag_touches (m_fragBucketList m) k"
proof -
  have c: "covered (m_fragBucketList m) = {0..<k}" and l: "length (m_fragBucketList m) \<le> 1"
    and z: "k = 0 \<longrightarrow> m_fragBucketList m = []"
    using assms by (auto simp: prefix_msg_def received_def)
  have "frag_clean (m_fragBucketList m) k e \<and> frag_touches (m_fragBucketList m) k"
  proof (cases "m_fragBucketList m")
    case (Cons b bs)
    with l z have "m_fragBucketList m = [b]" "k \<noteq> 0" by auto
    moreover have "b_off b = 0" "b_sz b = k"
    proof -
      have eq: "{b_off b ..< b_off b + b_sz b} = {0..<k}" using c \<open>m_fragBucketList m = [b]\<close> by simp
      then have "0 < b_sz b" using \<open>k \<noteq> 0\<close> by (cases "b_sz b") auto
      then show "b_off b = 0" "b_sz b = k"
        using eq \<open>k \<noteq> 0\<close> atLeastLessThan_eq_iff[of "b_off b" "b_off b + b_sz b" 0 k] by auto
    qed
    ultimately show ?thesis by (simp add: frag_clean_def frag_touches_def)
  qed (simp add: frag_touches_def)
  then show "frag_clean (m_fragBucketList m) k e" "frag_touches (m_fragBucketList m) k" by auto
qed

lemma prefix_step:
  assumes "prefix_msg M k type epoch seq m" "take (length c) (drop k M) = c" "c \<noteq> []" "k + length c \<le> length M"
  shows "\<exists>m' h'. DtlsMsgSet (Some m) seq epoch c type (of_nat k) (of_nat (length c)) (of_nat (length M)) enc (Suc h) =
      Some (RC_OK, Some m', h') \<and> h \<le> h' \<and> prefix_msg M (k + length c) type epoch seq m'"
proof -
  have inv: "msg_inv M m" and len: "length M < 2 ^ 24" and nr: "\<not> m_ready m" and cov: "received M m = {0..<k}"
    and key: "m_type m = byte_of_hs no_shake \<or> m_type m = type \<and> m_epoch m = epoch \<and> m_seq m = seq"
    and l: "length (m_fragBucketList m) \<le> 1"
    using assms by (auto simp: prefix_msg_def msg_inv_def)
  have u: "unat (of_nat k :: u32) = k" "unat (of_nat (length c) :: u32) = length c"
    using len assms(4) by (simp_all add: unat_small_nat)
  have fo: "frag_of M (of_nat k) c (of_nat (length c))" using assms by (simp add: frag_of_def u msg_slice_def)
  have "M \<noteq> []" using assms(3,4) by auto
  note step = DtlsMsgSet_step[OF inv fo _ key this, of enc h, unfolded u]
  have cl: "\<not> m_ready m \<longrightarrow> frag_clean (m_fragBucketList m) k (k + length c)" and tch: "frag_touches (m_fragBucketList m) k"
    using prefix_bucket[OF assms(1) nr] by auto
  from step[OF cl] obtain rc m' h' where
    r: "DtlsMsgSet (Some m) seq epoch c type (of_nat k) (of_nat (length c)) (of_nat (length M)) enc (Suc h) = Some (rc, Some m', h')"
    and R: "set_result M m (of_nat k) (of_nat (length c)) type epoch seq h rc m' h'" by blast
  have rc: "rc = RC_OK" "m_ready m' \<or> length (m_fragBucketList m') \<le> max 1 (length (m_fragBucketList m))"
    using R nr tch by (simp_all add: set_result_def u) auto
  have R': "msg_inv M m'" "m_ready m' \<longleftrightarrow> received M m' = {0..<length M}" "h \<le> h'"
      "received M m' = received M m \<union> {k ..< k + length c}" "m_type m' = type \<and> m_epoch m' = epoch \<and> m_seq m' = seq"
    using R nr rc(1) by (simp_all add: set_result_def u)
  have rcv: "received M m' = {0..<k + length c}" using R'(4) cov by auto
  have "{0..<k + length c} = {0..<length M} \<longleftrightarrow> k + length c = length M"
    using assms(3,4) atLeastLessThan_eq_iff[of 0 "k + length c" 0 "length M"] by (cases c) auto
  with R'(2) rcv have "m_ready m' \<longleftrightarrow> k + length c = length M" by simp
  with R'(1,5) rcv rc(2) l assms(3) have "prefix_msg M (k + length c) type epoch seq m'"
    unfolding prefix_msg_def by auto
  with r rc(1) R'(3) show ?thesis by blast
qed

lemma deliver_prefix:
  "prefix_msg M k type epoch seq m \<Longrightarrow> drop k M = concat cs \<Longrightarrow> k \<le> length M \<Longrightarrow> [] \<notin> set cs \<Longrightarrow> length cs \<le> heap \<Longrightarrow>
   \<exists>m' h'. deliver type epoch seq (of_nat (length M)) (chunks_at k cs) (Some m, heap) = Some (Some m', h') \<and>
     prefix_msg M (length M) type epoch seq m'"
proof (induction cs arbitrary: k m heap)
  case (Cons c cs)
  obtain h where h: "heap = Suc h" using Cons.prems(5) by (cases heap) auto
  have lk: "k + length c \<le> length M" using arg_cong[OF Cons.prems(2), of length] Cons.prems(3) by simp
  have "take (length c) (drop k M) = c" using Cons.prems(2) by simp
  from prefix_step[OF Cons.prems(1) this _ lk, of True h] Cons.prems(4) obtain m' h' where
    s: "DtlsMsgSet (Some m) seq epoch c type (of_nat k) (of_nat (length c)) (of_nat (length M)) True (Suc h) = Some (RC_OK, Some m', h')"
      "h \<le> h'" "prefix_msg M (k + length c) type epoch seq m'" by auto
  have d: "drop (k + length c) M = concat cs" using arg_cong[OF Cons.prems(2), of "drop (length c)"] by (simp add: add.commute)
  from Cons.IH[OF s(3) d lk] Cons.prems(4,5) h s(1,2) show ?case by auto
qed auto

text \<open>From an empty message on.\<close>

lemma in_order_reassembled:
  assumes "concat cs = M" "M \<noteq> []" "[] \<notin> set cs" "length M < 2 ^ 24" "length cs < heap"
  shows "\<exists>m h. deliver type epoch seq (of_nat (length M)) (chunks_at 0 cs) (DtlsMsgNew (of_nat (length M)) False heap) = Some (Some m, h) \<and>
    m_ready m \<and> m_fullMsg m = Some (map Some M) \<and> m_hdr m = msg_header m"
proof -
  obtain m0 where m0: "DtlsMsgNew (of_nat (length M)) False heap = (Some m0, heap - 1)" "prefix_msg M 0 type epoch seq m0"
    using assms(2,4,5) by (auto simp: DtlsMsgNew_def heap_alloc_def prefix_msg_def msg_inv_def store_ok_def buckets_ok_def gaps_def received_def)
  have "drop 0 M = concat cs" "length cs \<le> heap - 1" using assms by auto
  from deliver_prefix[OF m0(2) this(1) _ assms(3) this(2)] obtain m h where
    "deliver type epoch seq (of_nat (length M)) (chunks_at 0 cs) (Some m0, heap - 1) = Some (Some m, h)"
    "prefix_msg M (length M) type epoch seq m" by auto
  with m0(1) show ?thesis by (intro exI[of _ m] exI[of _ h]) (simp add: prefix_msg_def msg_inv_def)
qed

text \<open>
  In-order fragments always reassemble: however a message is cut into non-empty fragments, delivering
  them in order to a fresh message object succeeds and leaves the complete message and its header.
\<close>

theorem reassembly_in_order:
  assumes "concat cs = M" "M \<noteq> []" "[] \<notin> set cs" "length M < 2 ^ 24" "length cs < heap"
  shows "\<exists>m h. deliver type epoch seq (of_nat (length M)) (chunks_at 0 cs) (DtlsMsgNew (of_nat (length M)) False heap) = Some (Some m, h) \<and>
    m_ready m \<and> m_fullMsg m = Some (map Some M) \<and> m_hdr m = msg_header m"
  by (rule in_order_reassembled[OF assms])

theorem reassembly_in_order_witness:
  "\<exists>m h. deliver 11 2 1 4 (chunks_at 0 [[1, 2, 3], [4]]) (DtlsMsgNew 4 False 3) = Some (Some m, h) \<and>
    m_ready m \<and> m_fullMsg m = Some (map Some [1, 2, 3, 4])"
  using reassembly_in_order[of "[[1, 2, 3], [4]]" "[1, 2, 3, 4]" 3 11 2 1] by auto


text \<open>
  A fragment that starts in front of a bucket and ends inside it is followed by the wrong bytes: of
  the message 10, 11, 12, 13 the fragments at 1 (three bytes) and at 0 (two bytes) give 10, 11, 11, 12.
\<close>

theorem overlap_fragment_corrupts:
  "case deliver 11 2 1 4 [(1, [11, 12, 13]), (0, [10, 11])] (DtlsMsgNew 4 False 9) of
       Some (Some m, _) \<Rightarrow> m_ready m \<and> m_fullMsg m = Some [Some 10, Some 11, Some 11, Some 12]
     | _ \<Rightarrow> False"
  by code_simp

section \<open>The list of messages under reassembly\<close>

definition msg_key :: "DtlsMsg \<Rightarrow> u16 \<times> u32" where
  "msg_key m = (m_epoch m, m_seq m)"

definition rx_list_ok :: "WOLFSSL \<Rightarrow> bool" where
  "rx_list_ok ssl \<longleftrightarrow> distinct (map msg_key (dtls_rx_msg_list ssl)) \<and>
     dtls_rx_msg_list_sz ssl = length (dtls_rx_msg_list ssl)"

lemma set_DtlsMsgInsert [simp]: "set (DtlsMsgInsert ms m) = insert m (set ms)"
  by (induction ms m rule: DtlsMsgInsert.induct) auto

lemma length_DtlsMsgInsert [simp]: "length (DtlsMsgInsert ms m) = Suc (length ms)"
  by (induction ms m rule: DtlsMsgInsert.induct) auto

lemma distinct_DtlsMsgInsert:
  "msg_key m \<notin> msg_key ` set ms \<Longrightarrow> distinct (map msg_key ms) \<Longrightarrow> distinct (map msg_key (DtlsMsgInsert ms m))"
  by (induction ms m rule: DtlsMsgInsert.induct) auto

lemma DtlsMsgFind_None: "DtlsMsgFind ms ep s = None \<longleftrightarrow> (ep, s) \<notin> msg_key ` set ms"
  by (auto simp: DtlsMsgFind_def find_None_iff msg_key_def)

lemma DtlsMsgFind_Some:
  "distinct (map msg_key ms) \<Longrightarrow> DtlsMsgFind ms ep s = Some m \<longleftrightarrow> m \<in> set ms \<and> msg_key m = (ep, s)"
  by (induction ms) (auto simp: DtlsMsgFind_def msg_key_def image_iff)

lemma map_key_replace: "msg_key m' = (ep, s) \<Longrightarrow> map msg_key (msg_replace ep s m' ms) = map msg_key ms"
  by (induction ms) (auto simp: msg_key_def)

lemma find_replace:
  "msg_key m' = (ep, s) \<Longrightarrow> DtlsMsgFind (msg_replace ep s m' ms) ep2 s2 =
     (if (ep2, s2) = (ep, s) then (if (ep, s) \<in> msg_key ` set ms then Some m' else None) else DtlsMsgFind ms ep2 s2)"
  by (induction ms) (auto simp: DtlsMsgFind_def msg_key_def)

lemma find_insert:
  assumes "distinct (map msg_key ms)" "msg_key m \<notin> msg_key ` set ms"
  shows "DtlsMsgFind (DtlsMsgInsert ms m) ep s = (if (ep, s) = msg_key m then Some m else DtlsMsgFind ms ep s)"
  using assms by (induction ms) (auto simp: DtlsMsgFind_def msg_key_def)

lemma combine_key:
  "DtlsMsgCombineFragBuckets m cur mid nexts off data n h = Some (m', bs, h') \<Longrightarrow> msg_key m' = msg_key m"
  unfolding DtlsMsgCombineFragBuckets_def Let_def heap_alloc_def
  by (cases h) (auto simp: bind_eq_Some_conv msg_key_def split del: if_split)

lemma frag_store_key:
  "frag_store m off data n h = Some (rc, m', h') \<Longrightarrow> msg_key m' = msg_key m"
  unfolding frag_store_def Let_def
  by (auto simp: bind_eq_Some_conv dest!: combine_key split: if_splits option.splits place.splits list.splits)
    (auto simp: msg_key_def)

lemma assemble_key [simp]: "msg_key (DtlsMsgAssembleCompleteMessage m) = msg_key m"
  by (auto simp: DtlsMsgAssembleCompleteMessage_def msg_key_def split: list.splits)

lemma DtlsMsgSet_key:
  assumes "DtlsMsgSet (Some m) seq epoch data type off n totalLen enc h = Some (rc, m', h')"
    and "msg_key m = (epoch, seq) \<or> m_type m = byte_of_hs no_shake \<and> \<not> m_ready m"
  shows "\<exists>x. m' = Some x \<and> (msg_key x = (epoch, seq) \<or> rc \<noteq> RC_OK \<and> msg_key x = msg_key m)"
  using assms
  by (auto simp: DtlsMsgSet_def Let_def bind_eq_Some_conv split: if_splits dest!: frag_store_key)
    (auto simp: msg_key_def)

text \<open>
  Storing a fragment of the message \<open>(epoch, seq)\<close> keeps the list of buffered messages well formed
  (one entry per message, the counter equal to the length) and leaves every other message alone.
\<close>

theorem DtlsMsgStore_frame:
  assumes "rx_list_ok ssl" "DtlsMsgStore epoch seq data dataSz type off n enc ssl = Some ssl'"
  shows "rx_list_ok ssl' \<and>
    (\<forall>ep s. (ep, s) \<noteq> (epoch, seq) \<longrightarrow> DtlsMsgFind (dtls_rx_msg_list ssl') ep s = DtlsMsgFind (dtls_rx_msg_list ssl) ep s)"
proof (cases "DtlsMsgFind (dtls_rx_msg_list ssl) epoch seq")
  case None
  then have fresh: "(epoch, seq) \<notin> msg_key ` set (dtls_rx_msg_list ssl)" by (simp add: DtlsMsgFind_None)
  obtain new h0 rc m h where n: "DtlsMsgNew dataSz False (heap_left ssl) = (new, h0)"
    and s: "DtlsMsgSet new seq epoch data type off n dataSz enc h0 = Some (rc, m, h)"
    and ssl': "ssl' = ssl\<lparr>heap_left := h\<rparr> \<or> (\<exists>item. m = Some item \<and> rc = RC_OK \<and>
        ssl' = ssl\<lparr>dtls_rx_msg_list := DtlsMsgInsert (dtls_rx_msg_list ssl) item,
                   dtls_rx_msg_list_sz := dtls_rx_msg_list_sz ssl + 1, heap_left := h\<rparr>)"
    using assms(2) None
    by (auto simp: DtlsMsgStore_def Let_def bind_eq_Some_conv split: prod.splits option.splits if_splits)
  from ssl' show ?thesis
  proof (elim disjE exE conjE)
    fix item assume i: "m = Some item" "rc = RC_OK" and ssl': "ssl' = ssl\<lparr>dtls_rx_msg_list := DtlsMsgInsert (dtls_rx_msg_list ssl) item,
                   dtls_rx_msg_list_sz := dtls_rx_msg_list_sz ssl + 1, heap_left := h\<rparr>"
    obtain m0 where m0: "new = Some m0" "m_type m0 = byte_of_hs no_shake" "\<not> m_ready m0"
      using n s i by (cases new) (auto simp: DtlsMsgSet_def DtlsMsgNew_def split: option.splits)
    from DtlsMsgSet_key[OF s[unfolded m0(1)]] m0 i have k: "msg_key item = (epoch, seq)" by auto
    with fresh assms(1) show ?thesis
      by (auto simp: ssl' rx_list_ok_def distinct_DtlsMsgInsert find_insert)
  qed (use assms(1) in \<open>simp add: rx_list_ok_def\<close>)
next
  case (Some cur)
  then have cur: "msg_key cur = (epoch, seq)" using assms(1) by (simp add: rx_list_ok_def DtlsMsgFind_Some)
  obtain rc m h where s: "DtlsMsgSet (Some cur) seq epoch data type off n dataSz enc (heap_left ssl) = Some (rc, m, h)"
    and ssl': "ssl' = ssl\<lparr>dtls_rx_msg_list := (case m of Some m \<Rightarrow> msg_replace epoch seq m (dtls_rx_msg_list ssl) | None \<Rightarrow> dtls_rx_msg_list ssl),
                         heap_left := h\<rparr>"
    using assms(2) Some by (auto simp: DtlsMsgStore_def Let_def bind_eq_Some_conv)
  from DtlsMsgSet_key[OF s] cur obtain x where x: "m = Some x" "msg_key x = (epoch, seq)" by auto
  show ?thesis
    using assms(1) by (auto simp: ssl' x(1) rx_list_ok_def map_key_replace[OF x(2)] find_replace[OF x(2)]
      length_map[of msg_key, symmetric] simp del: length_map)
qed


theorem DtlsMsgStore_frame_witness:
  "\<exists>ssl'. DtlsMsgStore 2 4 [7] 1 11 0 1 True (fresh_ssl\<lparr>dtls_rx_msg_list := [half_msg], dtls_rx_msg_list_sz := 1\<rparr>) = Some ssl' \<and>
     rx_list_ok ssl' \<and> DtlsMsgFind (dtls_rx_msg_list ssl') 2 1 = Some half_msg"
proof -
  let ?s = "fresh_ssl\<lparr>dtls_rx_msg_list := [half_msg], dtls_rx_msg_list_sz := 1\<rparr>"
  have ok: "rx_list_ok ?s" by (simp add: rx_list_ok_def)
  have f: "DtlsMsgFind (dtls_rx_msg_list ?s) 2 1 = Some half_msg" by (simp add: DtlsMsgFind_def half_msg_def)
  have "DtlsMsgStore 2 4 [7] 1 11 0 1 True ?s \<noteq> None" by code_simp
  then obtain ssl' where "DtlsMsgStore 2 4 [7] 1 11 0 1 True ?s = Some ssl'" by auto
  with DtlsMsgStore_frame[OF ok this] f show ?thesis by simp
qed

end
