(* ===== verification/Dtls13Send.thy ===== *)
theory Dtls13Send
  imports Dtls13Protect DtlsReassembly
begin

text \<open>
  Sending handshake messages (\<open>src/dtls13.c\<close>): a message is sent in one record, or cut into fragments of
  the size the path allows; every record sent is kept for retransmission with the record number it was
  sent under.  Messages are byte lists that start with the room for the record header; where a message
  lies decides between \<open>SendFragment\<close> and \<open>SendFragFromBuffer\<close> (\<open>buf_loc\<close>).

  The transcript collects the inputs of \<open>HashRaw\<close>.  AES-GCM and AES are parameters as before.
\<close>

definition MAX_MSG_EXTRA :: nat where [simp]: "MAX_MSG_EXTRA = 102"
definition MAX_RECORD_SIZE :: nat where [simp]: "MAX_RECORD_SIZE = 16384"

section \<open>Size of a fragment\<close>

definition IsEncryptionOn :: "bool \<Rightarrow> WOLFSSL \<Rightarrow> bool" where
  "IsEncryptionOn isSend ssl =
     (if \<not> isSend \<and> tls1_3 (options ssl) \<and> w64IsZero (curEpoch64 (keys ssl)) then False
      else encryptionOn (options ssl) \<and>
           (if isSend then encrypt_setup (flags ssl) else decrypt_setup (flags ssl)))"

definition ModifyForMTU :: "int \<Rightarrow> int \<Rightarrow> int \<Rightarrow> int" where
  "ModifyForMTU buffSz outputSz mtuSz =
     (let recordExtra = outputSz - buffSz in
      if 0 < recordExtra \<and> mtuSz < outputSz then mtuSz - recordExtra else buffSz)"

text \<open>The size of an encrypted output is what \<open>BuildTls13Message\<close> returns with \<open>sizeOnly\<close>.\<close>

definition wolfSSL_GetMaxFragSize :: "int \<Rightarrow> WOLFSSL \<Rightarrow> int" where
  "wolfSSL_GetMaxFragSize maxFragment ssl =
     (let maxFragment = (if int MAX_RECORD_SIZE < maxFragment then int MAX_RECORD_SIZE else maxFragment);
          outputSz = (if IsEncryptionOn True ssl
                      then int (fst (build_size (nat (maxFragment + int DTLS_HANDSHAKE_HEADER_SZ))))
                      else maxFragment + int DTLS_RECORD_HEADER_SZ + int DTLS_HANDSHAKE_HEADER_SZ)
      in ModifyForMTU maxFragment outputSz (int (dtlsMtuSz ssl)))"

section \<open>Sending one record\<close>

datatype buf_loc = In_output_buffer | In_own_buffer

text \<open>The bytes a record adds at \<open>GetOutputBuffer\<close>.\<close>

definition out_append :: "bytes \<Rightarrow> WOLFSSL \<Rightarrow> WOLFSSL" where
  "out_append bs ssl = ssl\<lparr>outbuf := (outbuf ssl)\<lparr>out_pending := out_pending (outbuf ssl) @ bs\<rparr>\<rparr>"

definition Dtls13SendFragFromBuffer :: "buf_loc \<Rightarrow> bytes \<Rightarrow> WOLFSSL \<Rightarrow> wolf_rc \<times> WOLFSSL" where
  "Dtls13SendFragFromBuffer loc output ssl =
     (if loc = In_output_buffer then (BAD_FUNC_ARG, ssl)
      else (case CheckAvailableSize (int (length output)) ssl of
              (rc, ssl) \<Rightarrow> if rc \<noteq> RC_OK then (rc, ssl) else SendBuffered (out_append output ssl)))"

definition Dtls13SendNow :: "HandShakeType \<Rightarrow> WOLFSSL \<Rightarrow> bool" where
  "Dtls13SendNow handshakeType ssl =
     (if \<not> groupMessages (options ssl) \<or> dtls13SendingFragments (frag ssl) then True
      else handshakeType = client_hello \<or> handshakeType = hello_retry_request \<or> handshakeType = finished \<or>
           handshakeType = session_ticket \<or> handshakeType = key_update \<or>
           (handshakeType = certificate_request \<and> handShakeState (options ssl) = HANDSHAKE_DONE))"

definition HashRaw :: "bytes \<Rightarrow> WOLFSSL \<Rightarrow> wolf_rc \<times> WOLFSSL" where
  "HashRaw output ssl = (RC_OK, ssl\<lparr>transcript := transcript ssl @ [output]\<rparr>)"

definition Dtls13HashHandshake :: "bytes \<Rightarrow> WOLFSSL \<Rightarrow> wolf_rc \<times> WOLFSSL" where
  "Dtls13HashHandshake input ssl =
     (if length input < DTLS_HANDSHAKE_HEADER_SZ then (BAD_FUNC_ARG, ssl)
      else (case HashRaw (take 4 input) ssl of
              (rc, ssl) \<Rightarrow> if rc \<noteq> RC_OK then (rc, ssl) else HashRaw (drop 12 input) ssl))"

text \<open>The record of a message: with a plaintext header, or hashed and protected.\<close>

definition frag_record ::
    "gcm \<Rightarrow> (bytes \<Rightarrow> bytes \<Rightarrow> wolf_rc + bytes) \<Rightarrow> bytes \<Rightarrow> nat \<Rightarrow> HandShakeType \<Rightarrow> bool \<Rightarrow> WOLFSSL \<Rightarrow>
     (wolf_rc + bytes) \<times> WOLFSSL" where
  "frag_record gcm_encrypt aes output output_size handshakeType hashOutput ssl =
     (let isProtected = Dtls13TypeIsEncrypted handshakeType;
          msg = drop (Dtls13GetRlHeaderLength isProtected) output
      in if \<not> isProtected
         then (case Dtls13RlAddPlaintextHeader handshake (of_nat (length msg)) ssl of
                 (rc, hdr, ssl) \<Rightarrow> (if rc \<noteq> RC_OK then Inl rc else Inr (hdr @ msg), ssl))
         else (case (if hashOutput then Dtls13HashHandshake msg ssl else (RC_OK, ssl)) of
                 (rc, ssl) \<Rightarrow>
                   if rc \<noteq> RC_OK then (Inl rc, ssl)
                   else BuildTls13Message gcm_encrypt aes output_size msg handshake ssl))"

definition Dtls13SendFragment ::
    "gcm \<Rightarrow> (bytes \<Rightarrow> bytes \<Rightarrow> wolf_rc + bytes) \<Rightarrow> buf_loc \<Rightarrow> bytes \<Rightarrow> nat \<Rightarrow> HandShakeType \<Rightarrow> bool \<Rightarrow> bool \<Rightarrow>
     WOLFSSL \<Rightarrow> wolf_rc \<times> WOLFSSL" where
  "Dtls13SendFragment gcm_encrypt aes loc output output_size handshakeType hashOutput sendImmediately ssl =
     (if output_size < length output then (BUFFER_ERROR, ssl)
      else if length output \<le> Dtls13GetRlHeaderLength (Dtls13TypeIsEncrypted handshakeType) then (BUFFER_ERROR, ssl)
      else
        (case frag_record gcm_encrypt aes output output_size handshakeType hashOutput ssl of
           (Inl rc, ssl) \<Rightarrow> (rc, ssl)
         | (Inr rec, ssl) \<Rightarrow>
             if loc \<noteq> In_output_buffer then Dtls13SendFragFromBuffer loc rec ssl
             else (let ssl = out_append rec ssl in if sendImmediately then SendBuffered ssl else (RC_OK, ssl))))"

section \<open>Retransmission records\<close>

text \<open>Entries of \<open>seq\<close> that have not been written are 0 here; none of them is read.\<close>

definition Dtls13RtxNewRecord ::
    "bytes \<Rightarrow> HandShakeType \<Rightarrow> u64 \<Rightarrow> WOLFSSL \<Rightarrow> Dtls13RtxRecord option \<times> WOLFSSL" where
  "Dtls13RtxNewRecord data handshakeType seq ssl =
     (case dtls13EncryptEpoch (epochs ssl) of
        None \<Rightarrow> (None, ssl)
      | Some i \<Rightarrow>
          (case xmalloc ssl of
             None \<Rightarrow> (None, ssl)
           | Some ssl \<Rightarrow>
               (case xmalloc ssl of
                  None \<Rightarrow> (None, ssl)
                | Some ssl \<Rightarrow>
                    (Some \<lparr>r_data = data, r_epoch = epochNumber (dtls13Epochs (epochs ssl) ! i),
                           r_seq = (replicate DTLS13_RETRANS_RN_SIZE 0)[0 := seq], r_rnIdx = 1,
                           r_handshakeType = handshakeType\<rparr>, ssl))))"

definition Dtls13RtxAddRecord :: "Dtls13RtxRecord \<Rightarrow> WOLFSSL \<Rightarrow> WOLFSSL" where
  "Dtls13RtxAddRecord r ssl =
     ssl\<lparr>dtls13Rtx := (dtls13Rtx ssl)\<lparr>rtxRecords := rtxRecords (dtls13Rtx ssl) @ [r]\<rparr>\<rparr>"

definition encrypt_epoch :: "WOLFSSL \<Rightarrow> Dtls13Epoch" where
  "encrypt_epoch ssl = dtls13Epochs (epochs ssl) ! the (dtls13EncryptEpoch (epochs ssl))"

text \<open>The callers of \<open>Dtls13SendOneFragmentRtx\<close> have checked that there is an encryption epoch.\<close>

definition Dtls13SendOneFragmentRtx ::
    "gcm \<Rightarrow> (bytes \<Rightarrow> bytes \<Rightarrow> wolf_rc + bytes) \<Rightarrow> buf_loc \<Rightarrow> HandShakeType \<Rightarrow> nat \<Rightarrow> bytes \<Rightarrow> bool \<Rightarrow> WOLFSSL \<Rightarrow>
     wolf_rc \<times> WOLFSSL" where
  "Dtls13SendOneFragmentRtx gcm_encrypt aes loc handshakeType outputSize message hashOutput ssl =
     (let recordHeaderLength = Dtls13GetRlHeaderLength (Dtls13TypeIsEncrypted handshakeType) in
      case (if handshakeType \<noteq> hello_retry_request
            then Dtls13RtxNewRecord (drop recordHeaderLength message) handshakeType
                   (nextSeqNumber (encrypt_epoch ssl)) ssl
            else (None, ssl)) of
        (rtxRecord, ssl) \<Rightarrow>
          if handshakeType \<noteq> hello_retry_request \<and> rtxRecord = None then (MEMORY_E, ssl)
          else
            (case Dtls13SendFragment gcm_encrypt aes loc message outputSize handshakeType hashOutput
                    (Dtls13SendNow handshakeType ssl) ssl of
               (rc, ssl) \<Rightarrow>
                 (rc, case rtxRecord of
                        None \<Rightarrow> ssl
                      | Some r \<Rightarrow> if rc = RC_OK \<or> rc = WANT_WRITE then Dtls13RtxAddRecord r ssl else ssl)))"

section \<open>Fragmentation\<close>

definition Dtls13FreeFragmentsBuffer :: "WOLFSSL \<Rightarrow> WOLFSSL" where
  "Dtls13FreeFragmentsBuffer ssl =
     ssl\<lparr>frag := (frag ssl)\<lparr>dtls13FragmentsBuffer := [], dtls13SendingFragments := False,
                           dtls13MessageLength := 0, dtls13FragOffset := 0\<rparr>\<rparr>"

text \<open>
  One round of the fragmentation loop with \<open>fragLength\<close> bytes of the message; the record is
  \<open>recLen\<close> bytes long with its headers.
\<close>

definition frag_message :: "nat \<Rightarrow> nat \<Rightarrow> WOLFSSL \<Rightarrow> bytes" where
  "frag_message rlHeaderLength fragLength ssl =
     (let fr = frag ssl in
      replicate rlHeaderLength 0 @
      Dtls13HandshakeAddHeaderFrag (dtls13FragHandshakeType fr) (of_nat (dtls13FragOffset fr)) (of_nat fragLength)
        (of_nat (dtls13MessageLength fr)) ssl @
      take fragLength (drop (dtls13FragOffset fr) (dtls13FragmentsBuffer fr)))"

definition frag_round ::
    "gcm \<Rightarrow> (bytes \<Rightarrow> bytes \<Rightarrow> wolf_rc + bytes) \<Rightarrow> nat \<Rightarrow> nat \<Rightarrow> nat \<Rightarrow> WOLFSSL \<Rightarrow> wolf_rc \<times> WOLFSSL" where
  "frag_round gcm_encrypt aes rlHeaderLength recLen fragLength ssl =
     (case CheckAvailableSize (int (recLen + MAX_MSG_EXTRA)) ssl of
        (rc, ssl) \<Rightarrow>
          if rc \<noteq> RC_OK then (rc, Dtls13FreeFragmentsBuffer ssl)
          else
            (case Dtls13SendOneFragmentRtx gcm_encrypt aes In_output_buffer (dtls13FragHandshakeType (frag ssl))
                    (recLen + MAX_MSG_EXTRA) (frag_message rlHeaderLength fragLength ssl) False ssl of
               (rc, ssl) \<Rightarrow>
                 if rc = RC_OK \<or> rc = WANT_WRITE
                 then (rc, ssl\<lparr>frag := (frag ssl)\<lparr>dtls13FragOffset := dtls13FragOffset (frag ssl) + fragLength\<rparr>\<rparr>)
                 else (rc, Dtls13FreeFragmentsBuffer ssl)))"

text \<open>
  The loop.  It does not end for a fragment length of 0 as long as memory lasts; a negative length makes
  the copy undefined and has no result.
\<close>

partial_function (option) frag_loop ::
    "gcm \<Rightarrow> (bytes \<Rightarrow> bytes \<Rightarrow> wolf_rc + bytes) \<Rightarrow> nat \<Rightarrow> int \<Rightarrow> WOLFSSL \<Rightarrow> (wolf_rc \<times> WOLFSSL) option" where
  "frag_loop gcm_encrypt aes rlHeaderLength maxFragment ssl =
     (let remainingSize = int (dtls13MessageLength (frag ssl)) - int (dtls13FragOffset (frag ssl));
          fragLength = maxFragment - int rlHeaderLength - int DTLS_HANDSHAKE_HEADER_SZ;
          fragLength = (if remainingSize < fragLength then remainingSize else fragLength);
          recLen = fragLength + int rlHeaderLength + int DTLS_HANDSHAKE_HEADER_SZ
      in if remainingSize \<le> 0 then Some (RC_OK, Dtls13FreeFragmentsBuffer ssl)
         else if fragLength < 0 then None
         else
           (case frag_round gcm_encrypt aes rlHeaderLength (nat recLen) (nat fragLength) ssl of
              (rc, ssl) \<Rightarrow>
                if rc \<noteq> RC_OK then Some (rc, ssl)
                else frag_loop gcm_encrypt aes rlHeaderLength maxFragment ssl))"

definition Dtls13SendFragmentedInternal ::
    "gcm \<Rightarrow> (bytes \<Rightarrow> bytes \<Rightarrow> wolf_rc + bytes) \<Rightarrow> WOLFSSL \<Rightarrow> (wolf_rc \<times> WOLFSSL) option" where
  "Dtls13SendFragmentedInternal gcm_encrypt aes ssl =
     frag_loop gcm_encrypt aes
       (Dtls13GetRlHeaderLength (Dtls13TypeIsEncrypted (dtls13FragHandshakeType (frag ssl))))
       (wolfSSL_GetMaxFragSize (int MAX_RECORD_SIZE) ssl) ssl"

text \<open>
  A message shorter than its headers gives a negative \<open>messageSize\<close>, whose copy is undefined.
  \<open>dtls13FragOffset\<close> is 0 here, as \<open>Dtls13FreeFragmentsBuffer\<close> leaves it.
\<close>

definition Dtls13SendFragmented ::
    "gcm \<Rightarrow> (bytes \<Rightarrow> bytes \<Rightarrow> wolf_rc + bytes) \<Rightarrow> bytes \<Rightarrow> HandShakeType \<Rightarrow> bool \<Rightarrow> WOLFSSL \<Rightarrow>
     (wolf_rc \<times> WOLFSSL) option" where
  "Dtls13SendFragmented gcm_encrypt aes message handshake_type hash_output ssl =
     (let rlHeaderLength = Dtls13GetRlHeaderLength (Dtls13TypeIsEncrypted handshake_type) in
      if dtls13SendingFragments (frag ssl) then Some (BAD_STATE_E, ssl)
      else if length message < rlHeaderLength then Some (INCOMPLETE_DATA, ssl)
      else
        (case (if hash_output then Dtls13HashHandshake (drop rlHeaderLength message) ssl else (RC_OK, ssl)) of
           (rc, ssl) \<Rightarrow>
             if rc \<noteq> RC_OK then Some (rc, ssl)
             else if length message < rlHeaderLength + DTLS_HANDSHAKE_HEADER_SZ then None
             else
               (case xmalloc ssl of
                  None \<Rightarrow> Some (MEMORY_E, ssl)
                | Some ssl \<Rightarrow>
                    (let body = drop (rlHeaderLength + DTLS_HANDSHAKE_HEADER_SZ) message
                     in Dtls13SendFragmentedInternal gcm_encrypt aes
                          (ssl\<lparr>frag := (frag ssl)\<lparr>dtls13FragmentsBuffer := body, dtls13MessageLength := length body,
                              dtls13FragHandshakeType := handshake_type, dtls13SendingFragments := True\<rparr>\<rparr>)))))"

definition handshake_number_inc :: "WOLFSSL \<Rightarrow> WOLFSSL" where
  "handshake_number_inc ssl =
     ssl\<lparr>keys := (keys ssl)\<lparr>dtls_handshake_number := dtls_handshake_number (keys ssl) + 1\<rparr>\<rparr>"

definition Dtls13FragmentsContinue ::
    "gcm \<Rightarrow> (bytes \<Rightarrow> bytes \<Rightarrow> wolf_rc + bytes) \<Rightarrow> WOLFSSL \<Rightarrow> (wolf_rc \<times> WOLFSSL) option" where
  "Dtls13FragmentsContinue gcm_encrypt aes ssl =
     do { (rc, ssl) \<leftarrow> Dtls13SendFragmentedInternal gcm_encrypt aes ssl;
          Some (rc, if rc = RC_OK then handshake_number_inc ssl else ssl) }"

section \<open>Handshake messages\<close>

text \<open>\<open>Dtls13AddHeaders\<close> writes the handshake header behind the room for the record header.\<close>

definition Dtls13AddHeaders :: "bytes \<Rightarrow> u32 \<Rightarrow> HandShakeType \<Rightarrow> WOLFSSL \<Rightarrow> bytes" where
  "Dtls13AddHeaders output len hsType ssl =
     (let handshakeOffset = Dtls13GetRlHeaderLength (Dtls13TypeIsEncrypted hsType)
      in take handshakeOffset output @ Dtls13HandshakeAddHeader hsType len ssl @
         drop (handshakeOffset + DTLS_HANDSHAKE_HEADER_SZ) output)"

definition Dtls13RtxFlushAcks :: "WOLFSSL \<Rightarrow> WOLFSSL" where
  "Dtls13RtxFlushAcks ssl = ssl\<lparr>dtls13Rtx := (dtls13Rtx ssl)\<lparr>seenRecords := []\<rparr>\<rparr>"

definition Dtls13HandshakeSend ::
    "(bytes \<Rightarrow> wolf_rc) \<Rightarrow> (bytes \<Rightarrow> wolf_rc) \<Rightarrow> gcm \<Rightarrow> (bytes \<Rightarrow> bytes \<Rightarrow> wolf_rc + bytes) \<Rightarrow>
     buf_loc \<Rightarrow> bytes \<Rightarrow> nat \<Rightarrow> HandShakeType \<Rightarrow> bool \<Rightarrow> WOLFSSL \<Rightarrow> (wolf_rc \<times> WOLFSSL) option" where
  "Dtls13HandshakeSend gcm_set aes_init gcm_encrypt aes loc message outputSize handshakeType hashOutput ssl =
     (case dtls13EncryptEpoch (epochs ssl) of
        None \<Rightarrow> Some (BAD_STATE_E, ssl)
      | Some i \<Rightarrow>
          (let ssl = ssl\<lparr>options := (options ssl)\<lparr>buildingMsg := False\<rparr>\<rparr>;
               ssl = (if \<not> handShakeDone (options ssl) \<and>
                         handshakeType \<in> {certificate, finished, server_hello, client_hello}
                      then Dtls13RtxFlushAcks ssl else ssl);
               (rc, ssl) = (if \<not> w64Equal (epochNumber (dtls13Epochs (epochs ssl) ! i)) (dtls13Epoch (epochs ssl))
                            then Dtls13SetEpochKeys gcm_set aes_init (dtls13Epoch (epochs ssl)) ENCRYPT_SIDE_ONLY ssl
                            else (RC_OK, ssl))
           in if rc \<noteq> RC_OK then Some (rc, ssl)
              else
                (let maxFrag = wolfSSL_GetMaxFragSize (int MAX_RECORD_SIZE) ssl;
                     ssl = (if handshakeType = key_update
                            then ssl\<lparr>flags := (flags ssl)\<lparr>dtls13WaitKeyUpdateAck := True\<rparr>\<rparr> else ssl)
                 in if int (length message) < maxFrag
                    then (case Dtls13SendOneFragmentRtx gcm_encrypt aes loc handshakeType outputSize message hashOutput ssl of
                            (rc, ssl) \<Rightarrow> Some (rc, if rc = RC_OK \<or> rc = WANT_WRITE then handshake_number_inc ssl else ssl))
                    else do { (rc, ssl) \<leftarrow> Dtls13SendFragmented gcm_encrypt aes message handshakeType hashOutput ssl;
                              Some (rc, if rc = RC_OK then handshake_number_inc ssl else ssl) })))"

section \<open>Sending when the socket accepts everything\<close>

text \<open>What no send operation changes.\<close>

definition tx_frame :: "WOLFSSL \<Rightarrow> WOLFSSL \<Rightarrow> bool" where
  "tx_frame s s' \<longleftrightarrow> options s' = options s \<and> keys s' = keys s \<and> dtlsMtuSz s' = dtlsMtuSz s \<and>
     dtls13EncryptEpoch (epochs s') = dtls13EncryptEpoch (epochs s) \<and>
     length (dtls13Epochs (epochs s')) = length (dtls13Epochs (epochs s)) \<and>
     rnEncryptKey (epochs s') = rnEncryptKey (epochs s) \<and> encrypt_aes (epochs s') = encrypt_aes (epochs s)"

lemma tx_frame_trans: "tx_frame a b \<Longrightarrow> tx_frame b c \<Longrightarrow> tx_frame a c"
  by (simp add: tx_frame_def)

text \<open>The socket takes everything and \<open>n\<close> allocations succeed.\<close>

definition io_ok :: "nat \<Rightarrow> WOLFSSL \<Rightarrow> bool" where
  "io_ok n s \<longleftrightarrow> cbio_sent (outbuf s) = [] \<and> n \<le> heap_left s"

definition flushed :: "bytes \<Rightarrow> bytes list" where
  "flushed bs = (if bs = [] then [] else [bs])"

lemma SendBuffered_all:
  assumes "cbio_sent (outbuf s) = []"
  obtains b where "SendBuffered s = (RC_OK, s\<lparr>outbuf := b\<rparr>)" "out_pending b = []" "cbio_sent b = []"
    "wire b = wire (outbuf s) @ flushed (out_pending (outbuf s))" "out_idx b = 0"
proof -
  define b where "b = snd (send_loop [] (outbuf s))"
  have l: "send_loop [] (outbuf s) = (RC_OK, b)" by (simp add: b_def)
  have b: "out_pending b = []" "cbio_sent b = []" "wire b = wire (outbuf s) @ flushed (out_pending (outbuf s))"
    by (simp_all add: b_def flushed_def)
  define c where "c = (if out_dynamic b then ShrinkOutputBuffer (b\<lparr>out_idx := 0\<rparr>) else b\<lparr>out_idx := 0\<rparr>)"
  have "SendBuffered s = (RC_OK, s\<lparr>outbuf := c\<rparr>)"
    unfolding SendBuffered_def send_buffered_def assms l Let_def prod.case c_def by simp
  moreover have "out_pending c = []" "cbio_sent c = []" "wire c = wire b" "out_idx c = 0"
    using b by (simp_all add: c_def ShrinkOutputBuffer_def)
  ultimately show thesis using that[of c] b(3) by simp
qed

text \<open>
  \<open>CheckAvailableSize\<close> either leaves what is pending, which then fits with the new bytes into a datagram, or
  sends it first.
\<close>

lemma CheckAvailableSize_ok:
  assumes "io_ok (Suc n) s" "tls1_3 (options s)"
  obtains s' where "CheckAvailableSize (int sz) s = (RC_OK, s')" "tx_frame s s'" "io_ok n s'"
    "epochs s' = epochs s" "frag s' = frag s" "dtls13Rtx s' = dtls13Rtx s" "flags s' = flags s"
    "wire (outbuf s') = wire (outbuf s) \<and> out_pending (outbuf s') = out_pending (outbuf s) \<and>
       sz + length (out_pending (outbuf s)) \<le> dtlsMtuSz s \<or>
     wire (outbuf s') = wire (outbuf s) @ flushed (out_pending (outbuf s)) \<and> out_pending (outbuf s') = []"
proof -
  obtain b where b: "SendBuffered s = (RC_OK, s\<lparr>outbuf := b\<rparr>)" "out_pending b = []" "cbio_sent b = []"
    "wire b = wire (outbuf s) @ flushed (out_pending (outbuf s))"
    using SendBuffered_all[of s] assms(1) unfolding io_ok_def by metis
  define fl where "fl = (dtlsMtuSz s < sz + length (out_pending (outbuf s)))"
  define s1 where "s1 = (if fl then s\<lparr>outbuf := b\<rparr> else s)"
  have p: "tx_frame s s1" "epochs s1 = epochs s" "frag s1 = frag s" "dtls13Rtx s1 = dtls13Rtx s" "flags s1 = flags s"
    "heap_left s1 = heap_left s" "cbio_sent (outbuf s1) = []" "tls1_3 (options s1)"
    "wire (outbuf s1) = wire (outbuf s) \<and> out_pending (outbuf s1) = out_pending (outbuf s) \<and>
       sz + length (out_pending (outbuf s)) \<le> dtlsMtuSz s \<or>
     wire (outbuf s1) = wire (outbuf s) @ flushed (out_pending (outbuf s)) \<and> out_pending (outbuf s1) = []"
    using b assms by (cases fl; simp add: s1_def tx_frame_def io_ok_def fl_def)+
  have st: "CheckAvailableSize (int sz) s =
      (if out_room (outbuf s1) < of_nat sz
       then (case GrowOutputBuffer sz s1 of None \<Rightarrow> (MEMORY_E, s1) | Some t \<Rightarrow> (RC_OK, t)) else (RC_OK, s1))"
    using b(1) p(8) unfolding CheckAvailableSize_def s1_def fl_def by (auto simp: Let_def)
  define t where "t = s1\<lparr>heap_left := heap_left s1 - 1, outbuf := (outbuf s1)\<lparr>out_dynamic := True,
      out_bufferSize := sz + length (out_pending (outbuf s1))\<rparr>\<rparr>"
  have g: "GrowOutputBuffer sz s1 = Some t"
    using assms(1) p(6) by (simp add: GrowOutputBuffer_def xmalloc_def io_ok_def t_def)
  have tp: "tx_frame s t" "epochs t = epochs s" "frag t = frag s" "dtls13Rtx t = dtls13Rtx s" "flags t = flags s"
    "io_ok n t" "wire (outbuf t) = wire (outbuf s1)" "out_pending (outbuf t) = out_pending (outbuf s1)"
    using p(1-7) assms(1) by (auto simp: t_def tx_frame_def io_ok_def)
  have sp: "io_ok n s1" using p(6,7) assms(1) by (simp add: io_ok_def)
  show thesis
  proof (cases "out_room (outbuf s1) < of_nat sz")
    case True
    then show thesis using that[of t] tp p(9) st g by simp
  next
    case False
    then show thesis using that[of s1] p st sp by simp
  qed
qed

text \<open>The record of a message is built and accounted for.\<close>

definition can_send :: "HandShakeType \<Rightarrow> nat \<Rightarrow> WOLFSSL \<Rightarrow> bool" where
  "can_send ht k s \<longleftrightarrow> tls1_3 (options s) \<and> dtls13EncryptEpoch (epochs s) \<noteq> None \<and>
     the (dtls13EncryptEpoch (epochs s)) < length (dtls13Epochs (epochs s)) \<and>
     (if Dtls13TypeIsEncrypted ht
      then encrypt_aes (epochs s) \<noteq> None \<and> rnEncryptKey (epochs s) \<noteq> None \<and>
           bulk_cipher_algorithm (options s) = wolfssl_aes_gcm
      else unat (nextSeqNumber (encrypt_epoch s)) + k < 2 ^ 64)"

lemma can_send_cong: "options s' = options s \<Longrightarrow> epochs s' = epochs s \<Longrightarrow> can_send ht k s' = can_send ht k s"
  by (simp add: can_send_def encrypt_epoch_def)

lemma sent_one_frame: "tx_frame s (sent_one i s)"
  by (simp add: tx_frame_def sent_one_def set_epoch_def)

lemma with_nonce_frame: "tx_frame s (with_nonce s)" "io_ok (Suc n) s \<Longrightarrow> io_ok n (with_nonce s)"
  "frag (with_nonce s) = frag s" "dtls13Rtx (with_nonce s) = dtls13Rtx s" "outbuf (with_nonce s) = outbuf s"
  by (auto simp: tx_frame_def with_nonce_def io_ok_def)

lemma sent_one_more [simp]: "frag (sent_one i s) = frag s" "dtls13Rtx (sent_one i s) = dtls13Rtx s" "outbuf (sent_one i s) = outbuf s"
  by (simp_all add: sent_one_def set_epoch_def)

lemma can_send_next:
  assumes "can_send ht (Suc k) s" "dtls13EncryptEpoch (epochs s) = Some i" "tx_frame s s'" "epochs s' = epochs s"
  shows "can_send ht k (sent_one i s')"
proof (cases "Dtls13TypeIsEncrypted ht")
  case True
  then show ?thesis using assms by (simp add: can_send_def tx_frame_def)
next
  case False
  have i: "i < length (dtls13Epochs (epochs s))" using assms(1,2) by (simp add: can_send_def)
  have "nextSeqNumber (encrypt_epoch (sent_one i s')) = nextSeqNumber (encrypt_epoch s) + 1"
    using i assms(2,4) by (simp add: encrypt_epoch_def sent_one_seq)
  moreover have "unat (nextSeqNumber (encrypt_epoch s) + 1) = Suc (unat (nextSeqNumber (encrypt_epoch s)))"
    using assms(1) False by (simp add: can_send_def unat_word_ariths)
  ultimately show ?thesis using assms False i by (simp add: can_send_def tx_frame_def)
qed

lemma PlaintextHeader_ok:
  assumes "dtls13EncryptEpoch (epochs s) = Some i" "unat (nextSeqNumber (encrypt_epoch s)) + 1 < 2 ^ 64"
  shows "\<exists>hdr. Dtls13RlAddPlaintextHeader ct len s = (RC_OK, hdr, sent_one i s) \<and> length hdr = 13"
proof -
  have "unat (nextSeqNumber (encrypt_epoch s) + 1) \<noteq> 0"
    using assms(2) by (simp add: unat_word_ariths)
  then have "nextSeqNumber (dtls13Epochs (epochs s) ! i) + 1 \<noteq> 0"
    using assms(1) by (metis encrypt_epoch_def option.sel unat_0)
  then show ?thesis
    using assms(1) by (simp add: Dtls13RlAddPlaintextHeader_def Dtls13GetSeq_def Let_def w64Increment_def sent_one_def)
qed

text \<open>The overhead of protection: content type and tag.\<close>

definition enc_extra :: "HandShakeType \<Rightarrow> nat" where
  "enc_extra ht = (if Dtls13TypeIsEncrypted ht then 17 else 0)"

lemma frag_record_ok:
  assumes c: "can_send ht (Suc k) s" and io: "io_ok (Suc n) s"
    and crypto: "aes_total aes" "gcm_correct gcm_encrypt gcm_decrypt"
    and sz: "Dtls13GetRlHeaderLength (Dtls13TypeIsEncrypted ht) < length output" "length output + 17 \<le> outSz" "outSz < 2 ^ 16"
  obtains rec s' where "frag_record gcm_encrypt aes output outSz ht False s = (Inr rec, s')"
    "length rec = length output + enc_extra ht" "tx_frame s s'" "can_send ht k s'" "io_ok n s'"
    "frag s' = frag s" "dtls13Rtx s' = dtls13Rtx s" "outbuf s' = outbuf s"
proof -
  obtain i where i: "dtls13EncryptEpoch (epochs s) = Some i" using c by (auto simp: can_send_def)
  show thesis
  proof (cases "Dtls13TypeIsEncrypted ht")
    case True
    define msg where "msg = drop 5 output"
    have lm: "length msg + 5 = length output" using sz(1) True by (simp add: msg_def Dtls13GetRlHeaderLength_def)
    have ce: "can_encrypt i s" and key: "rnEncryptKey (epochs s) \<noteq> None" "bulk_cipher_algorithm (options s) = wolfssl_aes_gcm"
      using c True i io by (auto simp: can_encrypt_def can_send_def io_ok_def)
    obtain aad where aad: "Dtls13RlAddCiphertextHeader (of_nat (length msg + 17)) s = Inr aad"
      using i by (simp add: Dtls13RlAddCiphertextHeader_def Let_def)
    obtain ct where ct: "gcm_encrypt (the (encrypt_aes (epochs s)))
        (nonce_for (k_aead_enc_imp_IV (keys s)) (nextSeqNumber (dtls13Epochs (epochs s) ! i))) aad (msg @ [handshake]) = Inr ct"
      "length ct = length msg + 17"
      using crypto(2) unfolding gcm_correct_def by (metis aead_mac_size_def length_append_singleton add_Suc add_Suc_right eval_nat_numeral(3))
    have b: "BuildTls13Message gcm_encrypt aes outSz msg handshake s = (protected_record aes ct s, sent_one i (with_nonce s))"
      by (rule BuildTls13Message_eq[where gcm_encrypt = gcm_encrypt, OF ce _ _ aad ct]) (use lm sz in simp_all)
    obtain rk where rk: "rnEncryptKey (epochs s) = Some rk" using key(1) by blast
    have l16: "16 \<le> length ct" "length ct + 5 < 2 ^ 16" using ct(2) lm sz by simp_all
    obtain rec where rec: "protected_record aes ct s = Inr rec" "length rec = length ct + 5"
      using protected_record_form[OF i l16 rk key(2) crypto(1)] by auto
    have "frag_record gcm_encrypt aes output outSz ht False s = (Inr rec, sent_one i (with_nonce s))"
      using b rec(1) True by (simp add: frag_record_def Dtls13GetRlHeaderLength_def msg_def)
    moreover have "can_send ht k (sent_one i (with_nonce s))"
      using can_send_next[OF c i with_nonce_frame(1)] by simp
    moreover have "io_ok n (sent_one i (with_nonce s))"
      using with_nonce_frame(2)[OF io] by (simp add: io_ok_def)
    ultimately show thesis
      using that rec(2) ct(2) lm True tx_frame_trans[OF with_nonce_frame(1) sent_one_frame]
      by (simp add: enc_extra_def with_nonce_frame)
  next
    case False
    have "unat (nextSeqNumber (encrypt_epoch s)) + 1 < 2 ^ 64" using c False by (simp add: can_send_def)
    from PlaintextHeader_ok[OF i this] obtain hdr where
      h: "Dtls13RlAddPlaintextHeader handshake (of_nat (length (drop 13 output))) s = (RC_OK, hdr, sent_one i s)" "length hdr = 13"
      by blast
    have "frag_record gcm_encrypt aes output outSz ht False s = (Inr (hdr @ drop 13 output), sent_one i s)"
      unfolding frag_record_def Let_def using False h(1) by (simp add: Dtls13GetRlHeaderLength_def)
    moreover have "can_send ht k (sent_one i s)"
      using can_send_next[OF c i, of s] by (simp add: tx_frame_def)
    moreover have "io_ok n (sent_one i s)" using io by (simp add: io_ok_def)
    ultimately show thesis
      using that h(2) False sz(1) sent_one_frame[of s i] by (simp add: enc_extra_def Dtls13GetRlHeaderLength_def)
  qed
qed

lemma RtxNewRecord_ok:
  assumes "dtls13EncryptEpoch (epochs s) \<noteq> None" "io_ok (Suc (Suc n)) s"
  obtains r s' where "Dtls13RtxNewRecord data ht seq s = (Some r, s')" "r_data r = data" "r_seq r = [seq, 0, 0]" "r_rnIdx r = 1"
    "r_handshakeType r = ht" "r_epoch r = epochNumber (encrypt_epoch s)"
    "tx_frame s s'" "io_ok n s'" "epochs s' = epochs s" "frag s' = frag s" "dtls13Rtx s' = dtls13Rtx s" "outbuf s' = outbuf s" "flags s' = flags s"
proof -
  obtain i where i: "dtls13EncryptEpoch (epochs s) = Some i" using assms(1) by blast
  define r where "r = \<lparr>r_data = data, r_epoch = epochNumber (dtls13Epochs (epochs s) ! i),
     r_seq = (replicate DTLS13_RETRANS_RN_SIZE 0)[0 := seq], r_rnIdx = 1, r_handshakeType = ht\<rparr>"
  have "Dtls13RtxNewRecord data ht seq s = (Some r, s\<lparr>heap_left := heap_left s - 2\<rparr>)"
    using i assms(2) by (auto simp: Dtls13RtxNewRecord_def xmalloc_def io_ok_def r_def)
  then show thesis
    by (rule that) (use i assms(2) in \<open>auto simp: r_def tx_frame_def io_ok_def encrypt_epoch_def numeral_3_eq_3\<close>)
qed

text \<open>A record sent at once: what was pending and the record leave together.\<close>

lemma SendOneFragmentRtx_ok:
  assumes c: "can_send ht (Suc k) s" and io: "io_ok (n + 3) s" and ht: "ht \<noteq> hello_retry_request"
    and crypto: "aes_total aes" "gcm_correct gcm_encrypt gcm_decrypt"
    and sz: "Dtls13GetRlHeaderLength (Dtls13TypeIsEncrypted ht) < length msg" "length msg + 17 \<le> outSz" "outSz < 2 ^ 16"
    and now: "dtls13SendingFragments (frag s)"
  obtains r rec s' where "Dtls13SendOneFragmentRtx gcm_encrypt aes In_output_buffer ht outSz msg False s = (RC_OK, s')"
    "r_data r = drop (Dtls13GetRlHeaderLength (Dtls13TypeIsEncrypted ht)) msg"
    "rtxRecords (dtls13Rtx s') = rtxRecords (dtls13Rtx s) @ [r]" "length rec = length msg + enc_extra ht"
    "tx_frame s s'" "can_send ht k s'" "io_ok n s'" "frag s' = frag s"
    "wire (outbuf s') = wire (outbuf s) @ [out_pending (outbuf s) @ rec]" "out_pending (outbuf s') = []"
proof -
  let ?hl = "Dtls13GetRlHeaderLength (Dtls13TypeIsEncrypted ht)"
  have e: "dtls13EncryptEpoch (epochs s) \<noteq> None" using c by (simp add: can_send_def)
  have io': "io_ok (Suc (Suc (Suc n))) s" using io by (simp add: eval_nat_numeral)
  obtain r s1 where r: "Dtls13RtxNewRecord (drop ?hl msg) ht (nextSeqNumber (encrypt_epoch s)) s = (Some r, s1)" "r_data r = drop ?hl msg"
    and s1: "tx_frame s s1" "io_ok (Suc n) s1" "epochs s1 = epochs s" "frag s1 = frag s" "dtls13Rtx s1 = dtls13Rtx s" "outbuf s1 = outbuf s"
    by (rule RtxNewRecord_ok[OF e io'])
  have c1: "can_send ht (Suc k) s1" using c s1(1,3) can_send_cong[of s1 s] by (simp add: tx_frame_def)
  obtain rec s2 where f: "frag_record gcm_encrypt aes msg outSz ht False s1 = (Inr rec, s2)"
    and l: "length rec = length msg + enc_extra ht"
    and s2: "tx_frame s1 s2" "can_send ht k s2" "io_ok n s2" "frag s2 = frag s1" "dtls13Rtx s2 = dtls13Rtx s1" "outbuf s2 = outbuf s1"
    by (rule frag_record_ok[OF c1 s1(2) crypto sz])
  let ?s3 = "out_append rec s2"
  have ob3: "out_pending (outbuf ?s3) = out_pending (outbuf s) @ rec" "wire (outbuf ?s3) = wire (outbuf s)"
    using s2(6) s1(6) by (simp_all add: out_append_def)
  have cb: "cbio_sent (outbuf ?s3) = []" using s2(3) by (simp add: out_append_def io_ok_def)
  obtain b where b: "SendBuffered ?s3 = (RC_OK, ?s3\<lparr>outbuf := b\<rparr>)" "out_pending b = []" "cbio_sent b = []"
    "wire b = wire (outbuf ?s3) @ flushed (out_pending (outbuf ?s3))"
    by (rule SendBuffered_all[OF cb])
  have sn: "Dtls13SendNow ht s1" using now s1(4) by (simp add: Dtls13SendNow_def)
  let ?s4 = "?s3\<lparr>outbuf := b\<rparr>"
  have run: "Dtls13SendFragment gcm_encrypt aes In_output_buffer msg outSz ht False True s1 = (RC_OK, ?s4)"
    using sz f b(1) by (simp add: Dtls13SendFragment_def Let_def)
  have ne: "rec \<noteq> []" using l sz(1) by auto
  show thesis
  proof (rule that[of "Dtls13RtxAddRecord r ?s4" r rec])
    show "Dtls13SendOneFragmentRtx gcm_encrypt aes In_output_buffer ht outSz msg False s = (RC_OK, Dtls13RtxAddRecord r ?s4)"
      using r(1) ht sn run by (simp add: Dtls13SendOneFragmentRtx_def Let_def)
    show "tx_frame s (Dtls13RtxAddRecord r ?s4)"
      using tx_frame_trans[OF s1(1) s2(1)] by (simp add: tx_frame_def Dtls13RtxAddRecord_def out_append_def)
    show "can_send ht k (Dtls13RtxAddRecord r ?s4)"
      using s2(2) by (subst can_send_cong[of _ s2]) (simp_all add: Dtls13RtxAddRecord_def out_append_def)
    show "io_ok n (Dtls13RtxAddRecord r ?s4)"
      using s2(3) b(3) by (simp add: io_ok_def Dtls13RtxAddRecord_def out_append_def)
  qed (use r s1 s2 l b ob3 ne in \<open>simp_all add: Dtls13RtxAddRecord_def out_append_def flushed_def\<close>)
qed

section \<open>Fragmentation and reassembly\<close>

text \<open>The fragment with its handshake header, as it is put into a record and kept for retransmission.\<close>

definition frag_bytes :: "HandShakeType \<Rightarrow> nat \<Rightarrow> WOLFSSL \<Rightarrow> u32 \<times> bytes \<Rightarrow> bytes" where
  "frag_bytes ht totalLen ssl = (\<lambda>(off, c).
     Dtls13HandshakeAddHeaderFrag ht off (of_nat (length c)) (of_nat totalLen) ssl @ c)"

lemma length_AddHeaderFrag [simp]: "length (Dtls13HandshakeAddHeaderFrag t a b c s) = 12"
  by (simp add: Dtls13HandshakeAddHeaderFrag_def)

lemma frag_bytes_cong: "keys s' = keys s \<Longrightarrow> frag_bytes ht n s' = frag_bytes ht n s"
  by (simp add: frag_bytes_def Dtls13HandshakeAddHeaderFrag_def)

text \<open>A state in the middle of sending a fragmented message.\<close>

definition fragmenting :: "HandShakeType \<Rightarrow> bytes \<Rightarrow> nat \<Rightarrow> WOLFSSL \<Rightarrow> bool" where
  "fragmenting ht body off s \<longleftrightarrow> dtls13SendingFragments (frag s) \<and> dtls13FragmentsBuffer (frag s) = body \<and>
     dtls13MessageLength (frag s) = length body \<and> dtls13FragHandshakeType (frag s) = ht \<and>
     dtls13FragOffset (frag s) = off \<and> off \<le> length body"

lemma frag_round_ok:
  assumes c: "can_send ht (Suc k) s" and io: "io_ok (n + 4) s" and ht: "ht \<noteq> hello_retry_request"
    and crypto: "aes_total aes" "gcm_correct gcm_encrypt gcm_decrypt"
    and fr: "fragmenting ht body off s" and fl: "0 < fl" "off + fl \<le> length body"
    and hl: "hl = Dtls13GetRlHeaderLength (Dtls13TypeIsEncrypted ht)"
    and mtu: "fl + hl + 12 + enc_extra ht \<le> dtlsMtuSz s" "dtlsMtuSz s \<le> 16384" "length (out_pending (outbuf s)) \<le> dtlsMtuSz s"
  obtains r s' ds where "frag_round gcm_encrypt aes hl (fl + hl + 12) fl s = (RC_OK, s')"
    "r_data r = frag_bytes ht (length body) s (of_nat off, take fl (drop off body))"
    "rtxRecords (dtls13Rtx s') = rtxRecords (dtls13Rtx s) @ [r]"
    "tx_frame s s'" "can_send ht k s'" "io_ok n s'" "fragmenting ht body (off + fl) s'"
    "wire (outbuf s') = wire (outbuf s) @ ds" "\<forall>d\<in>set ds. length d \<le> dtlsMtuSz s" "out_pending (outbuf s') = []"
proof -
  have io': "io_ok (Suc (n + 3)) s" using io by (simp add: eval_nat_numeral)
  have t13: "tls1_3 (options s)" using c by (simp add: can_send_def)
  obtain s1 where s1: "CheckAvailableSize (int (fl + hl + 12 + 102)) s = (RC_OK, s1)" "tx_frame s s1" "io_ok (n + 3) s1"
    "epochs s1 = epochs s" "frag s1 = frag s" "dtls13Rtx s1 = dtls13Rtx s" "flags s1 = flags s"
    and w: "wire (outbuf s1) = wire (outbuf s) \<and> out_pending (outbuf s1) = out_pending (outbuf s) \<and>
       fl + hl + 12 + 102 + length (out_pending (outbuf s)) \<le> dtlsMtuSz s \<or>
     wire (outbuf s1) = wire (outbuf s) @ flushed (out_pending (outbuf s)) \<and> out_pending (outbuf s1) = []"
    by (rule CheckAvailableSize_ok[OF io' t13])
  define chunk where "chunk = take fl (drop off body)"
  define msg where "msg = frag_message hl fl s1"
  have lc: "length chunk = fl" using fl(2) by (simp add: chunk_def)
  have k1: "keys s1 = keys s" using s1(2) by (simp add: tx_frame_def)
  have msg: "msg = replicate hl 0 @ frag_bytes ht (length body) s (of_nat off, chunk)"
    using fr s1(5) k1 lc by (simp add: msg_def frag_message_def frag_bytes_def fragmenting_def chunk_def Dtls13HandshakeAddHeaderFrag_def)
  have lm: "length msg = fl + hl + 12" using lc by (simp add: msg frag_bytes_def)
  have c1: "can_send ht (Suc k) s1" using c s1(2,4) can_send_cong[of s1 s] by (simp add: tx_frame_def)
  have hl2: "hl \<le> 13" by (simp add: hl Dtls13GetRlHeaderLength_def)
  have sz: "Dtls13GetRlHeaderLength (Dtls13TypeIsEncrypted ht) < length msg" "length msg + 17 \<le> fl + hl + 12 + 102"
      "fl + hl + 12 + 102 < 2 ^ 16"
    using lm mtu hl fl(1) hl2 by simp_all
  have now: "dtls13SendingFragments (frag s1)" using fr s1(5) by (simp add: fragmenting_def)
  obtain r rec s2 where s2: "Dtls13SendOneFragmentRtx gcm_encrypt aes In_output_buffer ht (fl + hl + 12 + 102) msg False s1 = (RC_OK, s2)"
    "r_data r = drop (Dtls13GetRlHeaderLength (Dtls13TypeIsEncrypted ht)) msg"
    "rtxRecords (dtls13Rtx s2) = rtxRecords (dtls13Rtx s1) @ [r]" "length rec = length msg + enc_extra ht"
    "tx_frame s1 s2" "can_send ht k s2" "io_ok n s2" "frag s2 = frag s1"
    "wire (outbuf s2) = wire (outbuf s1) @ [out_pending (outbuf s1) @ rec]" "out_pending (outbuf s2) = []"
    by (rule SendOneFragmentRtx_ok[OF c1 s1(3) ht crypto sz now])
  define s3 where "s3 = s2\<lparr>frag := (frag s2)\<lparr>dtls13FragOffset := dtls13FragOffset (frag s2) + fl\<rparr>\<rparr>"
  have ty: "dtls13FragHandshakeType (frag s1) = ht" using fr s1(5) by (simp add: fragmenting_def)
  have run: "frag_round gcm_encrypt aes hl (fl + hl + 12) fl s = (RC_OK, s3)"
    using s1(1) s2(1) ty unfolding frag_round_def msg_def by (simp add: s3_def)
  define ds where "ds = drop (length (wire (outbuf s))) (wire (outbuf s2))"
  have ds: "wire (outbuf s2) = wire (outbuf s) @ ds \<and> (\<forall>d\<in>set ds. length d \<le> dtlsMtuSz s)"
    using w s2(4,9) lm mtu by (auto simp: ds_def flushed_def enc_extra_def split: if_splits)
  show thesis
  proof (rule that[OF run, of r ds])
    show "can_send ht k s3" using s2(6) by (subst can_send_cong[of _ s2]) (simp_all add: s3_def)
    show "tx_frame s s3" using tx_frame_trans[OF s1(2) s2(5)] by (simp add: tx_frame_def s3_def)
  qed (use s2 s1 ds msg fr fl hl in \<open>simp_all add: s3_def io_ok_def fragmenting_def chunk_def\<close>)
qed

text \<open>What a run of the loop from an offset on achieves.\<close>

definition sent_rest :: "HandShakeType \<Rightarrow> bytes \<Rightarrow> nat \<Rightarrow> nat \<Rightarrow> WOLFSSL \<Rightarrow> WOLFSSL \<Rightarrow> bytes list \<Rightarrow> Dtls13RtxRecord list \<Rightarrow> bool" where
  "sent_rest ht body off flmax s s' cs rs \<longleftrightarrow> concat cs = drop off body \<and> [] \<notin> set cs \<and>
     (\<forall>c\<in>set cs. length c \<le> flmax) \<and>
     map r_data rs = map (frag_bytes ht (length body) s) (chunks_at off cs) \<and>
     rtxRecords (dtls13Rtx s') = rtxRecords (dtls13Rtx s) @ rs \<and> keys s' = keys s \<and>
     (\<exists>ds. wire (outbuf s') = wire (outbuf s) @ ds \<and> (\<forall>d\<in>set ds. length d \<le> dtlsMtuSz s)) \<and>
     \<not> dtls13SendingFragments (frag s')"

lemma sent_rest_step:
  assumes "r_data r = frag_bytes ht (length body) s (of_nat off, take fl (drop off body))"
    "rtxRecords (dtls13Rtx s1) = rtxRecords (dtls13Rtx s) @ [r]" "tx_frame s s1" "0 < fl" "fl \<le> flmax" "off + fl \<le> length body"
    "wire (outbuf s1) = wire (outbuf s) @ ds" "\<forall>d\<in>set ds. length d \<le> dtlsMtuSz s"
    and rest: "sent_rest ht body (off + fl) flmax s1 s' cs rs"
  shows "sent_rest ht body off flmax s s' (take fl (drop off body) # cs) (r # rs)"
proof -
  have k: "keys s1 = keys s" "dtlsMtuSz s1 = dtlsMtuSz s" using assms(3) by (simp_all add: tx_frame_def)
  have l: "length (take fl (drop off body)) = fl" using assms(6) by simp
  have "concat (take fl (drop off body) # cs) = drop off body"
    using rest by (simp add: sent_rest_def add.commute flip: drop_drop)
  moreover have "take fl (drop off body) \<noteq> []" using l assms(4) by (cases "take fl (drop off body)") auto
  ultimately show ?thesis
    using rest assms k l unfolding sent_rest_def frag_bytes_cong[OF k(1)] by auto
qed

lemma frag_loop_ok:
  assumes ht: "ht \<noteq> hello_retry_request" and crypto: "aes_total aes" "gcm_correct gcm_encrypt gcm_decrypt"
    and hl: "hl = Dtls13GetRlHeaderLength (Dtls13TypeIsEncrypted ht)" and fm: "0 < flmax"
  shows "can_send ht k s \<Longrightarrow> io_ok (4 * k) s \<Longrightarrow> fragmenting ht body off s \<Longrightarrow> length body - off \<le> k * flmax \<Longrightarrow>
    flmax + hl + 12 + enc_extra ht \<le> dtlsMtuSz s \<Longrightarrow> dtlsMtuSz s \<le> 16384 \<Longrightarrow> length (out_pending (outbuf s)) \<le> dtlsMtuSz s \<Longrightarrow>
    \<exists>s' cs rs. frag_loop gcm_encrypt aes hl (int (flmax + hl + 12)) s = Some (RC_OK, s') \<and> length cs \<le> k \<and>
      sent_rest ht body off flmax s s' cs rs"
proof (induction k arbitrary: s off)
  case 0
  have "frag_loop gcm_encrypt aes hl (int (flmax + hl + 12)) s = Some (RC_OK, Dtls13FreeFragmentsBuffer s)"
    using 0 by (subst frag_loop.simps) (simp add: fragmenting_def)
  moreover have "sent_rest ht body off flmax s (Dtls13FreeFragmentsBuffer s) [] []"
    using 0 by (simp add: sent_rest_def Dtls13FreeFragmentsBuffer_def fragmenting_def)
  ultimately show ?case by fastforce
next
  case (Suc k)
  show ?case
  proof (cases "off = length body")
    case True
    have "frag_loop gcm_encrypt aes hl (int (flmax + hl + 12)) s = Some (RC_OK, Dtls13FreeFragmentsBuffer s)"
      using Suc.prems(3) True by (subst frag_loop.simps) (simp add: fragmenting_def)
    moreover have "sent_rest ht body off flmax s (Dtls13FreeFragmentsBuffer s) [] []"
      using True by (simp add: sent_rest_def Dtls13FreeFragmentsBuffer_def)
    ultimately show ?thesis by (intro exI[of _ "Dtls13FreeFragmentsBuffer s"] exI[of _ "[]"]) simp
  next
    case False
    define fl where "fl = min flmax (length body - off)"
    have off: "off < length body" using Suc.prems(3) False by (simp add: fragmenting_def)
    have fl: "0 < fl" "off + fl \<le> length body" "fl \<le> flmax" using off fm by (auto simp: fl_def)
    have io: "io_ok (4 * k + 4) s" using Suc.prems(2) by (simp add: add.commute)
    have m: "fl + hl + 12 + enc_extra ht \<le> dtlsMtuSz s" using fl(3) Suc.prems(5) by simp
    obtain r s1 ds where r: "frag_round gcm_encrypt aes hl (fl + hl + 12) fl s = (RC_OK, s1)"
      "r_data r = frag_bytes ht (length body) s (of_nat off, take fl (drop off body))"
      "rtxRecords (dtls13Rtx s1) = rtxRecords (dtls13Rtx s) @ [r]"
      and s1: "tx_frame s s1" "can_send ht k s1" "io_ok (4 * k) s1" "fragmenting ht body (off + fl) s1"
      and w: "wire (outbuf s1) = wire (outbuf s) @ ds" "\<forall>d\<in>set ds. length d \<le> dtlsMtuSz s" "out_pending (outbuf s1) = []"
      by (rule frag_round_ok[OF Suc.prems(1) io ht crypto Suc.prems(3) fl(1,2) hl m Suc.prems(6,7)])
    have mtu: "dtlsMtuSz s1 = dtlsMtuSz s" using s1(1) by (simp add: tx_frame_def)
    have left: "length body - (off + fl) \<le> k * flmax"
      using Suc.prems(4) by (auto simp: fl_def min_def)
    obtain s' cs rs where rest: "frag_loop gcm_encrypt aes hl (int (flmax + hl + 12)) s1 = Some (RC_OK, s')" "length cs \<le> k"
      "sent_rest ht body (off + fl) flmax s1 s' cs rs"
      using Suc.IH[OF s1(2-4) left] Suc.prems(5,6) mtu w(3) by auto
    have "frag_loop gcm_encrypt aes hl (int (flmax + hl + 12)) s = Some (RC_OK, s')"
    proof -
      have rem: "int (dtls13MessageLength (frag s)) - int (dtls13FragOffset (frag s)) = int (length body - off)"
        using Suc.prems(3) off by (simp add: fragmenting_def)
      have len: "int (flmax + hl + 12) - int hl - int DTLS_HANDSHAKE_HEADER_SZ = int flmax" by simp
      have pick: "(if int (length body - off) < int flmax then int (length body - off) else int flmax) = int fl"
        by (simp add: fl_def min_def)
      have n: "nat (int fl + int hl + int DTLS_HANDSHAKE_HEADER_SZ) = fl + hl + 12" by simp
      show ?thesis
        by (subst frag_loop.simps, unfold rem len Let_def pick n) (use off r(1) rest(1) in simp)
    qed
    moreover have "sent_rest ht body off flmax s s' (take fl (drop off body) # cs) (r # rs)"
      by (rule sent_rest_step[OF r(2,3) s1(1) fl(1,3,2) w(1,2) rest(3)])
    moreover have "length (take fl (drop off body) # cs) \<le> Suc k" using rest(2) by simp
    ultimately show ?thesis by blast
  qed
qed

lemma GetMaxFragSize_bounds:
  assumes "59 < dtlsMtuSz s" "dtlsMtuSz s \<le> 16384" "hl = Dtls13GetRlHeaderLength (Dtls13TypeIsEncrypted ht)"
  obtains flmax where "wolfSSL_GetMaxFragSize (int MAX_RECORD_SIZE) s = int (flmax + hl + 12)" "0 < flmax"
    "flmax + hl + 12 + enc_extra ht \<le> dtlsMtuSz s" "dtlsMtuSz s - 59 \<le> flmax"
proof -
  define mf where "mf = dtlsMtuSz s - (if IsEncryptionOn True s then 34 else 25)"
  have "wolfSSL_GetMaxFragSize (int MAX_RECORD_SIZE) s = int mf"
    using assms(1,2)
    by (auto simp: wolfSSL_GetMaxFragSize_def ModifyForMTU_def build_size_def Dtls13GetRlHeaderLength_def
        Dtls13MinimumRecordLength_def Let_def mf_def)
  moreover have "hl \<le> 13" by (simp add: assms(3) Dtls13GetRlHeaderLength_def)
  moreover have "dtlsMtuSz s - 34 \<le> mf" "mf + 25 \<le> dtlsMtuSz s" using assms(1) by (auto simp: mf_def)
  moreover have "enc_extra ht \<le> 17" by (simp add: enc_extra_def)
  ultimately show thesis
    using that[of "mf - hl - 12"] assms(1) by fastforce
qed

text \<open>The receiver of fragments: the header is read and the bytes are stored.\<close>

fun receive_frags :: "u16 \<Rightarrow> bytes list \<Rightarrow> DtlsMsg option \<times> nat \<Rightarrow> WOLFSSL \<Rightarrow> (DtlsMsg option \<times> nat) option" where
  "receive_frags epoch [] st rx = Some st"
| "receive_frags epoch (fm # fms) (m, heap) rx =
     (case GetDtlsHandShakeHeader \<lparr>rl_type = handshake, rl_pvMajor = DTLS_MAJOR, rl_pvMinor = DTLSv1_2_MINOR\<rparr> fm (length fm) rx of
        (Inl rc, rx) \<Rightarrow> None
      | (Inr (type, sz, off, fragSz), rx) \<Rightarrow>
          do { (rc, m, heap) \<leftarrow> DtlsMsgSet m (ucast (dtls_peer_handshake_number (keys rx))) epoch
                 (take (unat fragSz) (drop 12 fm)) type off fragSz sz True heap;
               if rc \<noteq> RC_OK then None else receive_frags epoch fms (m, heap) rx })"

lemma receive_frags_deliver:
  "off + length (concat cs) < 2 ^ 24 \<Longrightarrow> n < 2 ^ 24 \<Longrightarrow>
   receive_frags epoch (map (frag_bytes ht n tx) (chunks_at off cs)) st rx =
   deliver (byte_of_hs ht) epoch (ucast (dtls_handshake_number (keys tx))) (of_nat n) (chunks_at off cs) st"
proof (induction cs arbitrary: off st rx)
  case (Cons c cs)
  obtain m heap where st: "st = (m, heap)" by (cases st)
  have u: "unat (of_nat off :: u32) < 2 ^ 24" "unat (of_nat (length c) :: u32) < 2 ^ 24" "unat (of_nat n :: u32) < 2 ^ 24"
    "unat (of_nat (length c) :: u32) = length c"
    using Cons.prems by (simp_all add: unat_small_nat)
  obtain rx' where rx: "GetDtlsHandShakeHeader \<lparr>rl_type = handshake, rl_pvMajor = DTLS_MAJOR, rl_pvMinor = DTLSv1_2_MINOR\<rparr>
      (frag_bytes ht n tx (of_nat off, c)) (length (frag_bytes ht n tx (of_nat off, c))) rx =
      (Inr (byte_of_hs ht, of_nat n, of_nat off, of_nat (length c)), rx')"
      "dtls_peer_handshake_number (keys rx') = dtls_handshake_number (keys tx)"
    using handshake_header_read[OF u(1,2,3), of "length c + 12" ht tx c rx] by (auto simp: frag_bytes_def add.commute)
  have d: "take (length c) (drop 12 (frag_bytes ht n tx (of_nat off, c))) = c" by (simp add: frag_bytes_def)
  have "(off + length c) + length (concat cs) < 2 ^ 24" using Cons.prems(1) by simp
  note ih = Cons.IH[OF this Cons.prems(2)]
  show ?case unfolding st by (simp add: rx u(4) d ih cong: if_cong del: handshake_def DTLS_MAJOR_def DTLSv1_2_MINOR_def)
qed (auto simp: split_paired_all)

section \<open>Properties\<close>



end
