(* ===== verification/Dtls13Rtx.thy ===== *)
theory Dtls13Rtx
  imports Dtls13Send
begin

text \<open>
  Acknowledgements and retransmission (\<open>src/dtls13.c\<close>): the list of received record numbers, the ACK
  message, the records kept for retransmission and the two timeouts.  The linked lists with their tail
  pointer are lists.

  The derivation of the traffic keys of a key update and the sending of a \<open>KeyUpdate\<close> are the parameters
  \<open>derive\<close> and \<open>update_keys\<close>.  An ACK message that is written past the end of the output buffer has no
  result (\<^const>\<open>None\<close>).
\<close>

section \<open>Received record numbers\<close>

text \<open>The search for the place of a record number; \<^const>\<open>None\<close> if it is already there.\<close>

fun ack_insert :: "u64 \<Rightarrow> u64 \<Rightarrow> Dtls13RecordNumber list \<Rightarrow> Dtls13RecordNumber list option" where
  "ack_insert epoch seq [] = Some [(epoch, seq)]"
| "ack_insert epoch seq ((e, s) # rest) =
     (if w64Equal e epoch \<and> w64Equal s seq then None
      else if w64LT epoch e \<or> w64Equal epoch e \<and> w64LT seq s then Some ((epoch, seq) # (e, s) # rest)
      else map_option ((#) (e, s)) (ack_insert epoch seq rest))"

definition Dtls13RtxAddAck :: "u64 \<Rightarrow> u64 \<Rightarrow> WOLFSSL \<Rightarrow> wolf_rc \<times> WOLFSSL" where
  "Dtls13RtxAddAck epoch seq ssl =
     (case ack_insert epoch seq (seenRecords (dtls13Rtx ssl)) of
        None \<Rightarrow> (RC_OK, ssl)
      | Some l \<Rightarrow>
          (case xmalloc ssl of
             None \<Rightarrow> (MEMORY_E, ssl)
           | Some ssl \<Rightarrow> (RC_OK, ssl\<lparr>dtls13Rtx := (dtls13Rtx ssl)\<lparr>seenRecords := l\<rparr>\<rparr>)))"

definition Dtls13RtxRemoveCurAck :: "WOLFSSL \<Rightarrow> WOLFSSL" where
  "Dtls13RtxRemoveCurAck ssl =
     ssl\<lparr>dtls13Rtx := (dtls13Rtx ssl)\<lparr>seenRecords :=
        remove1 (curEpoch64 (keys ssl), curSeq (keys ssl)) (seenRecords (dtls13Rtx ssl))\<rparr>\<rparr>"

definition Dtls13RecordRecvd :: "u8 \<Rightarrow> WOLFSSL \<Rightarrow> wolf_rc \<times> WOLFSSL" where
  "Dtls13RecordRecvd curRL_type ssl =
     (if curRL_type \<noteq> handshake then (RC_OK, ssl)
      else
        (let ssl = (if \<not> dtls13SendMoreAcks (options ssl)
                    then ssl\<lparr>timers := (timers ssl)\<lparr>dtls13FastTimeout := True\<rparr>\<rparr> else ssl)
         in Dtls13RtxAddAck (curEpoch64 (keys ssl)) (curSeq (keys ssl)) ssl))"

section \<open>Reaction to a received handshake message\<close>

definition set_rtxRecords :: "Dtls13RtxRecord list \<Rightarrow> WOLFSSL \<Rightarrow> WOLFSSL" where
  "set_rtxRecords rs ssl = ssl\<lparr>dtls13Rtx := (dtls13Rtx ssl)\<lparr>rtxRecords := rs\<rparr>\<rparr>"

definition Dtls13RtxFlushBuffered :: "bool \<Rightarrow> WOLFSSL \<Rightarrow> WOLFSSL" where
  "Dtls13RtxFlushBuffered keepNewSessionTicket ssl =
     set_rtxRecords (filter (\<lambda>r. keepNewSessionTicket \<and> r_handshakeType r = session_ticket) (rtxRecords (dtls13Rtx ssl))) ssl"

text \<open>\<open>dtls_tx_msg_list\<close> of DTLS 1.2 is empty.\<close>

definition DtlsMsgPoolReset :: "WOLFSSL \<Rightarrow> WOLFSSL" where
  "DtlsMsgPoolReset ssl = Dtls13RtxFlushBuffered True ssl"

definition Dtls13DetectDisruption :: "u32 \<Rightarrow> WOLFSSL \<Rightarrow> bool" where
  "Dtls13DetectDisruption fragOffset ssl =
     (let k = keys ssl in
      if dtls_peer_handshake_number k < dtls_expected_peer_handshake_number k then False
      else if dtls_expected_peer_handshake_number k < dtls_peer_handshake_number k then True
      else if fragOffset = 0 then False
      else (case dtls_rx_msg_list ssl of
              m # _ \<Rightarrow>
                (if m_fragBucketList m = [] then False
                 else (let b = last (m_fragBucketList m) in fb_offset b + fb_sz b \<noteq> fragOffset))
            | [] \<Rightarrow> True))"

text \<open>\<open>downgradeTo12\<close> is the condition that a downgrade to DTLS 1.2 is allowed.\<close>

definition Dtls13MaybeSaveClientHello :: "WOLFSSL \<Rightarrow> WOLFSSL" where
  "Dtls13MaybeSaveClientHello ssl =
     (if opt_side (options ssl) = WOLFSSL_CLIENT_END \<and>
         connectState (options ssl) \<in> {CLIENT_HELLO_SENT, HELLO_AGAIN, HELLO_AGAIN_REPLY} \<and>
         downgradeTo12 (options ssl)
      then (case List.extract (\<lambda>r. r_handshakeType r = client_hello) (rtxRecords (dtls13Rtx ssl)) of
              None \<Rightarrow> ssl
            | Some (pre, r, post) \<Rightarrow> (set_rtxRecords (pre @ post) ssl)\<lparr>dtls13ClientHello := Some (r_data r)\<rparr>)
      else ssl)"

definition Dtls13RtxMsgRecvd :: "HandShakeType \<Rightarrow> u32 \<Rightarrow> WOLFSSL \<Rightarrow> WOLFSSL" where
  "Dtls13RtxMsgRecvd hs fragOffset ssl =
     (let num = dtls_peer_handshake_number (keys ssl);
          expected = dtls_expected_peer_handshake_number (keys ssl);
          ssl = (if \<not> handShakeDone (options ssl) \<and> expected \<le> num
                 then (let ssl = (if hs = server_hello then Dtls13MaybeSaveClientHello ssl else ssl)
                       in if SERVER_HELLO_COMPLETE \<le> serverState (options ssl) \<or> seenUnifiedHdr (options ssl)
                          then DtlsMsgPoolReset ssl else ssl)
                 else ssl);
          ssl = (if num < expected
                 then ssl\<lparr>dtls13Rtx := (dtls13Rtx ssl)\<lparr>retransmit := True,
                        sendAcks := seenRecords (dtls13Rtx ssl) \<noteq> [] \<or> sendAcks (dtls13Rtx ssl)\<rparr>\<rparr>
                 else ssl);
          ssl = (if num = expected \<and> handShakeDone (options ssl) \<and> hs = certificate_request
                 then Dtls13RtxRemoveCurAck ssl else ssl)
      in if dtls13SendMoreAcks (options ssl) \<and> Dtls13DetectDisruption fragOffset ssl
         then ssl\<lparr>dtls13Rtx := (dtls13Rtx ssl)\<lparr>sendAcks := True\<rparr>\<rparr> else ssl)"

definition Dtls13FreeFsmResources :: "WOLFSSL \<Rightarrow> WOLFSSL" where
  "Dtls13FreeFsmResources ssl = Dtls13RtxFlushBuffered False (DtlsMsgPoolReset (Dtls13RtxFlushAcks ssl))"

section \<open>Retransmission\<close>

text \<open>The slot a new record number is stored in.\<close>

definition track_seq :: "u64 \<Rightarrow> Dtls13RtxRecord \<Rightarrow> Dtls13RtxRecord" where
  "track_seq seq r =
     (let idx = (if DTLS13_RETRANS_RN_SIZE \<le> r_rnIdx r then 0 else r_rnIdx r)
      in r\<lparr>r_seq := (r_seq r)[idx := seq], r_rnIdx := idx + 1\<rparr>)"

text \<open>The loop over the list \<open>pre @ r # post\<close>; callers have an encryption epoch.\<close>

fun rtx_loop ::
    "(bytes \<Rightarrow> wolf_rc) \<Rightarrow> (bytes \<Rightarrow> wolf_rc) \<Rightarrow> gcm \<Rightarrow> (bytes \<Rightarrow> bytes \<Rightarrow> wolf_rc + bytes) \<Rightarrow>
     Dtls13RtxRecord list \<Rightarrow> Dtls13RtxRecord list \<Rightarrow> WOLFSSL \<Rightarrow> wolf_rc \<times> WOLFSSL" where
  "rtx_loop gcm_set aes_init gcm_encrypt aes pre [] ssl = (RC_OK, ssl)"
| "rtx_loop gcm_set aes_init gcm_encrypt aes pre (r # post) ssl =
     (let isLast = (post = []);
          headerLength = Dtls13GetRlHeaderLength (\<not> w64IsZero (r_epoch r));
          sendSz = length (r_data r) + headerLength + (if \<not> w64IsZero (r_epoch r) then MAX_MSG_EXTRA else 0)
      in case CheckAvailableSize (int sendSz) ssl of
           (rc, ssl) \<Rightarrow>
             if rc \<noteq> RC_OK then (rc, ssl)
             else
               (case (if \<not> w64Equal (epochNumber (encrypt_epoch ssl)) (r_epoch r)
                      then Dtls13SetEpochKeys gcm_set aes_init (r_epoch r) ENCRYPT_SIDE_ONLY ssl else (RC_OK, ssl)) of
                  (rc, ssl) \<Rightarrow>
                    if rc \<noteq> RC_OK then (rc, ssl)
                    else
                      (let seq = nextSeqNumber (encrypt_epoch ssl) in
                       case Dtls13SendFragment gcm_encrypt aes In_output_buffer (replicate headerLength 0 @ r_data r) sendSz
                              (r_handshakeType r) False (isLast \<or> \<not> groupMessages (options ssl)) ssl of
                         (rc, ssl) \<Rightarrow>
                           if rc \<noteq> RC_OK \<and> rc \<noteq> WANT_WRITE then (rc, ssl)
                           else
                             (let r = track_seq seq r in
                              if rc = WANT_WRITE then (rc, set_rtxRecords (pre @ post @ [r]) ssl)
                              else rtx_loop gcm_set aes_init gcm_encrypt aes (pre @ [r]) post
                                     (set_rtxRecords (pre @ r # post) ssl)))))"

definition Dtls13RtxSendBuffered ::
    "(bytes \<Rightarrow> wolf_rc) \<Rightarrow> (bytes \<Rightarrow> wolf_rc) \<Rightarrow> gcm \<Rightarrow> (bytes \<Rightarrow> bytes \<Rightarrow> wolf_rc + bytes) \<Rightarrow>
     WOLFSSL \<Rightarrow> wolf_rc \<times> WOLFSSL" where
  "Dtls13RtxSendBuffered gcm_set aes_init gcm_encrypt aes ssl =
     rtx_loop gcm_set aes_init gcm_encrypt aes [] (rtxRecords (dtls13Rtx ssl)) ssl"

section \<open>ACK messages\<close>

definition DTLS13_RN_SIZE :: nat where [simp]: "DTLS13_RN_SIZE = 16"

definition Dtls13GetAckListLength :: "Dtls13RecordNumber list \<Rightarrow> u16" where
  "Dtls13GetAckListLength l = of_nat (DTLS13_RN_SIZE * length l)"

definition ack_body :: "Dtls13RecordNumber list \<Rightarrow> bytes" where
  "ack_body l = concat (map (\<lambda>(e, s). c64toa e @ c64toa s) l)"

text \<open>
  \<open>Dtls13WriteAckMessage\<close> gives the \<open>length\<close> it reports and the bytes it writes behind the room for the
  record header.  The reported length is that of the 16 bit length field.
\<close>

definition Dtls13WriteAckMessage ::
    "Dtls13RecordNumber list \<Rightarrow> WOLFSSL \<Rightarrow> ((wolf_rc + (nat \<times> bytes)) \<times> WOLFSSL) option" where
  "Dtls13WriteAckMessage recordNumberList ssl =
     (case dtls13EncryptEpoch (epochs ssl) of
        None \<Rightarrow> Some (Inl BAD_STATE_E, ssl)
      | Some i \<Rightarrow>
          (let plain = w64IsZero (epochNumber (dtls13Epochs (epochs ssl) ! i));
               headerLength = (if plain then DTLS_RECORD_HEADER_SZ else Dtls13GetRlHeaderLength True);
               msgSz = Dtls13GetAckListLength recordNumberList;
               sendSz = (if plain then 0 else MAX_MSG_EXTRA) + headerLength + 2 + unat msgSz;
               ackMessage = c16toa msgSz @ ack_body recordNumberList
           in case CheckAvailableSize (int sendSz) ssl of
                (rc, ssl) \<Rightarrow>
                  if rc \<noteq> RC_OK then Some (Inl rc, ssl)
                  else if unat (out_room (outbuf ssl)) < headerLength + length ackMessage then None
                  else Some (Inr (unat msgSz + 2, ackMessage), ssl)))"

text \<open>The ACK message becomes a record of the selected epoch and is sent.\<close>

definition ack_send ::
    "gcm \<Rightarrow> (bytes \<Rightarrow> bytes \<Rightarrow> wolf_rc + bytes) \<Rightarrow> nat \<Rightarrow> bytes \<Rightarrow> WOLFSSL \<Rightarrow> wolf_rc \<times> WOLFSSL" where
  "ack_send gcm_encrypt aes len msg ssl =
     (if w64IsZero (epochNumber (encrypt_epoch ssl))
      then (case Dtls13RlAddPlaintextHeader ack (of_nat len) ssl of
              (rc, hdr, ssl) \<Rightarrow>
                if rc \<noteq> RC_OK then (rc, ssl)
                else SendBuffered (Dtls13RtxFlushAcks (out_append (hdr @ take len msg) ssl)))
      else (case BuildTls13Message gcm_encrypt aes (unat (out_room (outbuf ssl))) (take len msg) ack ssl of
              (Inl rc, ssl) \<Rightarrow> (rc, ssl)
            | (Inr rec, ssl) \<Rightarrow> SendBuffered (Dtls13RtxFlushAcks (out_append rec ssl))))"

definition SendDtls13Ack ::
    "(bytes \<Rightarrow> wolf_rc) \<Rightarrow> (bytes \<Rightarrow> wolf_rc) \<Rightarrow> gcm \<Rightarrow> (bytes \<Rightarrow> bytes \<Rightarrow> wolf_rc + bytes) \<Rightarrow>
     WOLFSSL \<Rightarrow> (wolf_rc \<times> WOLFSSL) option" where
  "SendDtls13Ack gcm_set aes_init gcm_encrypt aes ssl =
     (case dtls13EncryptEpoch (epochs ssl) of
        None \<Rightarrow> Some (BAD_STATE_E, ssl)
      | Some i \<Rightarrow>
          (case (if opt_side (options ssl) = WOLFSSL_SERVER_END \<and> \<not> handShakeDone (options ssl) \<and>
                    w64GTE (dtls13Epoch (epochs ssl)) (w64From32 0 DTLS13_EPOCH_TRAFFIC0)
                 then Dtls13SetEpochKeys gcm_set aes_init (w64From32 0 DTLS13_EPOCH_HANDSHAKE) ENCRYPT_SIDE_ONLY ssl
                 else if \<not> w64Equal (dtls13Epoch (epochs ssl)) (epochNumber (dtls13Epochs (epochs ssl) ! i))
                 then Dtls13SetEpochKeys gcm_set aes_init (dtls13Epoch (epochs ssl)) ENCRYPT_SIDE_ONLY ssl
                 else (RC_OK, ssl)) of
             (rc, ssl) \<Rightarrow>
               if rc \<noteq> RC_OK then Some (rc, ssl)
               else
                 do { (r, ssl) \<leftarrow> Dtls13WriteAckMessage (seenRecords (dtls13Rtx ssl)) ssl;
                      (case r of
                         Inl rc \<Rightarrow> Some (rc, ssl)
                       | Inr (len, msg) \<Rightarrow> Some (ack_send gcm_encrypt aes len msg ssl)) }))"

text \<open>Is the record one that was sent under this number?\<close>

definition Dtls13RtxIsTrackedByRn :: "Dtls13RtxRecord \<Rightarrow> u64 \<Rightarrow> u64 \<Rightarrow> bool" where
  "Dtls13RtxIsTrackedByRn r epoch seq =
     (w64Equal (r_epoch r) epoch \<and> (\<exists>s\<in>set (take (r_rnIdx r) (r_seq r)). w64Equal s seq))"

fun rtx_remove :: "u64 \<Rightarrow> u64 \<Rightarrow> Dtls13RtxRecord list \<Rightarrow> Dtls13RtxRecord list" where
  "rtx_remove epoch seq [] = []"
| "rtx_remove epoch seq (r # rs) = (if Dtls13RtxIsTrackedByRn r epoch seq then rs else r # rtx_remove epoch seq rs)"

definition Dtls13RtxRemoveRecord :: "u64 \<Rightarrow> u64 \<Rightarrow> WOLFSSL \<Rightarrow> WOLFSSL" where
  "Dtls13RtxRemoveRecord epoch seq ssl = set_rtxRecords (rtx_remove epoch seq (rtxRecords (dtls13Rtx ssl))) ssl"

definition Dtls13RtxHasKeyUpdateBuffered :: "WOLFSSL \<Rightarrow> bool" where
  "Dtls13RtxHasKeyUpdateBuffered ssl = (\<exists>r\<in>set (rtxRecords (dtls13Rtx ssl)). r_handshakeType r = key_update)"

definition Dtls13KeyUpdateAckReceived ::
    "(bytes \<Rightarrow> wolf_rc) \<Rightarrow> (bytes \<Rightarrow> wolf_rc) \<Rightarrow> (WOLFSSL \<Rightarrow> wolf_rc \<times> WOLFSSL) \<Rightarrow> WOLFSSL \<Rightarrow> wolf_rc \<times> WOLFSSL" where
  "Dtls13KeyUpdateAckReceived gcm_set aes_init derive ssl =
     (case derive ssl of
        (rc, ssl) \<Rightarrow>
          if rc \<noteq> RC_OK then (rc, ssl)
          else
            (let ssl = ssl\<lparr>epochs := (epochs ssl)\<lparr>dtls13Epoch := w64Increment (dtls13Epoch (epochs ssl))\<rparr>\<rparr>
             in if w64IsZero (dtls13Epoch (epochs ssl)) then (BAD_STATE_E, ssl)
                else Dtls13SetEpochKeys gcm_set aes_init (dtls13Epoch (epochs ssl)) ENCRYPT_SIDE_ONLY ssl))"

definition DoDtls13KeyUpdateAck ::
    "(bytes \<Rightarrow> wolf_rc) \<Rightarrow> (bytes \<Rightarrow> wolf_rc) \<Rightarrow> (WOLFSSL \<Rightarrow> wolf_rc \<times> WOLFSSL) \<Rightarrow> WOLFSSL \<Rightarrow> wolf_rc \<times> WOLFSSL" where
  "DoDtls13KeyUpdateAck gcm_set aes_init derive ssl =
     (if \<not> Dtls13RtxHasKeyUpdateBuffered ssl
      then Dtls13KeyUpdateAckReceived gcm_set aes_init derive
             (ssl\<lparr>flags := (flags ssl)\<lparr>dtls13WaitKeyUpdateAck := False\<rparr>\<rparr>)
      else (RC_OK, ssl))"

fun ack_loop :: "bytes \<Rightarrow> WOLFSSL \<Rightarrow> WOLFSSL" where
  "ack_loop ackMessage ssl =
     (if length ackMessage < DTLS13_RN_SIZE then ssl
      else ack_loop (drop DTLS13_RN_SIZE ackMessage)
             (Dtls13RtxRemoveRecord (ato64 ackMessage) (ato64 (drop 8 ackMessage)) ssl))"

declare ack_loop.simps [simp del]

text \<open>The result is the status and \<open>processedSize\<close>.\<close>

definition DoDtls13Ack ::
    "(bytes \<Rightarrow> wolf_rc) \<Rightarrow> (bytes \<Rightarrow> wolf_rc) \<Rightarrow> (WOLFSSL \<Rightarrow> wolf_rc \<times> WOLFSSL) \<Rightarrow> bytes \<Rightarrow> WOLFSSL \<Rightarrow>
     (wolf_rc + nat) \<times> WOLFSSL" where
  "DoDtls13Ack gcm_set aes_init derive input ssl =
     (if length input < 2 then (Inl BUFFER_ERROR, ssl)
      else
        (let len = unat (ato16 input) in
         if length input < 2 + len then (Inl BUFFER_ERROR, ssl)
         else if len mod DTLS13_RN_SIZE \<noteq> 0 then (Inl PARSE_ERROR, ssl)
         else
           (let ssl = ack_loop (take len (drop 2 input)) ssl;
                ssl = (if opt_side (options ssl) = WOLFSSL_CLIENT_END \<and> connectState (options ssl) = WAIT_FINISHED_ACK \<and>
                          rtxRecords (dtls13Rtx ssl) = []
                       then ssl\<lparr>options := (options ssl)\<lparr>serverState := SERVER_FINISHED_ACKED\<rparr>\<rparr> else ssl);
                (rc, ssl) = (if dtls13WaitKeyUpdateAck (flags ssl) then DoDtls13KeyUpdateAck gcm_set aes_init derive ssl
                             else (RC_OK, ssl))
            in if rc \<noteq> RC_OK then (Inl rc, ssl)
               else (Inr (len + 2),
                     if rtxRecords (dtls13Rtx ssl) \<noteq> []
                     then ssl\<lparr>dtls13Rtx := (dtls13Rtx ssl)\<lparr>retransmit := True\<rparr>\<rparr> else ssl))))"

section \<open>Scheduled work and timeouts\<close>

text \<open>\<open>update_keys\<close> is \<open>Tls13UpdateKeys\<close>.  \<open>dtls13SendingAckOrRtx\<close> stays set when sending fails.\<close>

definition Dtls13DoScheduledWork ::
    "(bytes \<Rightarrow> wolf_rc) \<Rightarrow> (bytes \<Rightarrow> wolf_rc) \<Rightarrow> gcm \<Rightarrow> (bytes \<Rightarrow> bytes \<Rightarrow> wolf_rc + bytes) \<Rightarrow>
     (WOLFSSL \<Rightarrow> wolf_rc \<times> WOLFSSL) \<Rightarrow> WOLFSSL \<Rightarrow> (wolf_rc \<times> WOLFSSL) option" where
  "Dtls13DoScheduledWork gcm_set aes_init gcm_encrypt aes update_keys ssl =
     (let ssl = ssl\<lparr>flags := (flags ssl)\<lparr>dtls13SendingAckOrRtx := True\<rparr>\<rparr>;
          sa = sendAcks (dtls13Rtx ssl);
          ssl = ssl\<lparr>dtls13Rtx := (dtls13Rtx ssl)\<lparr>sendAcks := False\<rparr>\<rparr>
      in do { (rc, ssl) \<leftarrow> (if sa then SendDtls13Ack gcm_set aes_init gcm_encrypt aes ssl else Some (RC_OK, ssl));
              if rc \<noteq> RC_OK then Some (rc, ssl)
              else
                (let (rc, ssl) =
                   (if retransmit (dtls13Rtx ssl)
                    then Dtls13RtxSendBuffered gcm_set aes_init gcm_encrypt aes
                           (ssl\<lparr>dtls13Rtx := (dtls13Rtx ssl)\<lparr>retransmit := False\<rparr>\<rparr>)
                    else (RC_OK, ssl))
                 in if rc \<noteq> RC_OK then Some (rc, ssl)
                    else
                      (let ssl = ssl\<lparr>flags := (flags ssl)\<lparr>dtls13SendingAckOrRtx := False\<rparr>\<rparr>
                       in if dtls13DoKeyUpdate (flags ssl)
                          then Some (update_keys (ssl\<lparr>flags := (flags ssl)\<lparr>dtls13DoKeyUpdate := False\<rparr>\<rparr>))
                          else Some (RC_OK, ssl))) })"

definition Dtls13RtxTimeout ::
    "(bytes \<Rightarrow> wolf_rc) \<Rightarrow> (bytes \<Rightarrow> wolf_rc) \<Rightarrow> gcm \<Rightarrow> (bytes \<Rightarrow> bytes \<Rightarrow> wolf_rc + bytes) \<Rightarrow>
     WOLFSSL \<Rightarrow> (wolf_rc \<times> WOLFSSL) option" where
  "Dtls13RtxTimeout gcm_set aes_init gcm_encrypt aes ssl =
     do { (rc, ssl) \<leftarrow>
            (if seenRecords (dtls13Rtx ssl) \<noteq> [] \<and>
                (SERVER_HELLO_COMPLETE \<le> serverState (options ssl) \<or> seenUnifiedHdr (options ssl))
             then SendDtls13Ack gcm_set aes_init gcm_encrypt aes
                    (ssl\<lparr>dtls13Rtx := (dtls13Rtx ssl)\<lparr>sendAcks := False\<rparr>,
                         timers := (timers ssl)\<lparr>dtls13FastTimeout := False\<rparr>\<rparr>)
             else Some (RC_OK, ssl));
          if rc \<noteq> RC_OK then Some (rc, ssl)
          else if dtls13FastTimeout (timers ssl)
          then Some (RC_OK, ssl\<lparr>timers := (timers ssl)\<lparr>dtls13FastTimeout := False\<rparr>\<rparr>)
          else (case DtlsMsgPoolTimeout ssl of
                  (ok, ssl) \<Rightarrow>
                    if \<not> ok then Some (WOLFSSL_FATAL_ERROR, ssl)
                    else Some (Dtls13RtxSendBuffered gcm_set aes_init gcm_encrypt aes ssl)) }"

section \<open>Certificate requests\<close>

text \<open>The context is compared with the bytes after the first byte of the stored handshake message.\<close>

definition Dtls13RtxRecordMatchesReqCtx :: "Dtls13RtxRecord \<Rightarrow> bytes \<Rightarrow> bool" where
  "Dtls13RtxRecordMatchesReqCtx r ctx =
     (if r_handshakeType r \<noteq> certificate_request then False
      else if length (r_data r) \<le> length ctx + 1 then False
      else take (length ctx) (drop 1 (r_data r)) = ctx)"

definition Dtls13RtxProcessingCertificate :: "bytes \<Rightarrow> WOLFSSL \<Rightarrow> wolf_rc \<times> WOLFSSL" where
  "Dtls13RtxProcessingCertificate input ssl =
     (if length input \<le> 1 then (BAD_FUNC_ARG, ssl)
      else
        (let ctxLength = unat (input ! 0) in
         if length input < ctxLength + 1 then (BAD_FUNC_ARG, ssl)
         else (case List.extract (\<lambda>r. Dtls13RtxRecordMatchesReqCtx r (take ctxLength (drop 1 input))) (rtxRecords (dtls13Rtx ssl)) of
                 None \<Rightarrow> (RC_OK, ssl)
               | Some (pre, r, post) \<Rightarrow> (RC_OK, set_rtxRecords (pre @ post) ssl))))"

definition wolfSSL_dtls13_has_pending_msg :: "WOLFSSL \<Rightarrow> bool" where
  "wolfSSL_dtls13_has_pending_msg ssl = (rtxRecords (dtls13Rtx ssl) \<noteq> [])"

section \<open>The list of received records as a set\<close>

definition rn_less :: "Dtls13RecordNumber \<Rightarrow> Dtls13RecordNumber \<Rightarrow> bool" where
  "rn_less a b \<longleftrightarrow> fst a < fst b \<or> fst a = fst b \<and> snd a < snd b"

lemma rn_less_trans: "rn_less a b \<Longrightarrow> rn_less b c \<Longrightarrow> rn_less a c"
  by (auto simp: rn_less_def)

lemma rn_less_total: "a \<noteq> b \<Longrightarrow> \<not> rn_less a b \<Longrightarrow> rn_less b a"
  by (cases a; cases b) (auto simp: rn_less_def)

lemma ack_insert_None: "sorted_wrt rn_less l \<Longrightarrow> ack_insert e s l = None \<longleftrightarrow> (e, s) \<in> set l"
proof (induction l)
  case (Cons a l)
  have "rn_less (e, s) a \<Longrightarrow> (e, s) \<notin> set l"
    using Cons.prems by (auto simp: rn_less_def)
  then show ?case using Cons by (cases a) (auto simp: rn_less_def w64LT_def)
qed simp

lemma ack_insert_Some:
  "sorted_wrt rn_less l \<Longrightarrow> ack_insert e s l = Some l' \<Longrightarrow> sorted_wrt rn_less l' \<and> set l' = insert (e, s) (set l)"
proof (induction l arbitrary: l')
  case (Cons a l)
  obtain x y where a: "a = (x, y)" by (cases a)
  consider (front) "rn_less (e, s) a" "l' = (e, s) # a # l"
    | (later) l'' where "\<not> rn_less (e, s) a" "a \<noteq> (e, s)" "ack_insert e s l = Some l''" "l' = a # l''"
    using Cons.prems(2) unfolding a by (auto simp: rn_less_def w64LT_def split: if_splits)
  then show ?case
  proof cases
    case front
    then show ?thesis using Cons.prems(1) rn_less_trans by fastforce
  next
    case later
    have "rn_less a (e, s)" using later(1,2) rn_less_total by blast
    then show ?thesis using Cons.IH[OF _ later(3)] Cons.prems(1) later(4) by auto
  qed
qed simp

section \<open>Reading an ACK message\<close>

definition tracked :: "Dtls13RtxRecord \<Rightarrow> Dtls13RecordNumber set" where
  "tracked r = {r_epoch r} \<times> set (take (r_rnIdx r) (r_seq r))"

lemma IsTracked_iff: "Dtls13RtxIsTrackedByRn r e s \<longleftrightarrow> (e, s) \<in> tracked r"
  by (auto simp: Dtls13RtxIsTrackedByRn_def tracked_def)

text \<open>No record number stands for two records.\<close>

definition rtx_unique :: "Dtls13RtxRecord list \<Rightarrow> bool" where
  "rtx_unique rs \<longleftrightarrow> sorted_wrt (\<lambda>a b. tracked a \<inter> tracked b = {}) rs"

lemma rtx_remove_filter:
  "rtx_unique rs \<Longrightarrow> rtx_remove e s rs = filter (\<lambda>r. (e, s) \<notin> tracked r) rs"
proof (induction rs)
  case (Cons r rs)
  have "(e, s) \<in> tracked r \<Longrightarrow> filter (\<lambda>r. (e, s) \<notin> tracked r) rs = rs"
    using Cons.prems by (auto simp: rtx_unique_def intro!: filter_True)
  then show ?case using Cons by (simp add: rtx_unique_def IsTracked_iff)
qed simp

lemma rtx_unique_filter: "rtx_unique rs \<Longrightarrow> rtx_unique (filter P rs)"
  by (simp add: rtx_unique_def sorted_wrt_filter)

lemma ack_loop_body:
  "rtx_unique (rtxRecords (dtls13Rtx ssl)) \<Longrightarrow>
   ack_loop (ack_body l) ssl =
   (if l = [] then ssl else set_rtxRecords (filter (\<lambda>r. set l \<inter> tracked r = {}) (rtxRecords (dtls13Rtx ssl))) ssl)"
proof (induction l arbitrary: ssl)
  case Nil
  then show ?case by (subst ack_loop.simps) (simp add: ack_body_def)
next
  case (Cons a l)
  obtain e s where a: "a = (e, s)" by (cases a)
  let ?f = "filter (\<lambda>r. (e, s) \<notin> tracked r) (rtxRecords (dtls13Rtx ssl))"
  have rd: "ato64 (ack_body (a # l)) = e" "ato64 (drop 8 (ack_body (a # l))) = s" "drop 16 (ack_body (a # l)) = ack_body l"
      "\<not> length (ack_body (a # l)) < 16"
    by (simp_all add: ack_body_def a ato64_c64toa)
  have rm: "Dtls13RtxRemoveRecord e s ssl = set_rtxRecords ?f ssl"
    using rtx_remove_filter[OF Cons.prems] by (simp add: Dtls13RtxRemoveRecord_def)
  have "ack_loop (ack_body (a # l)) ssl = ack_loop (ack_body l) (set_rtxRecords ?f ssl)"
    by (subst ack_loop.simps) (simp add: rd rm)
  also have "\<dots> = set_rtxRecords (filter (\<lambda>r. set (a # l) \<inter> tracked r = {}) (rtxRecords (dtls13Rtx ssl))) ssl"
    using Cons.IH[of "set_rtxRecords ?f ssl"] rtx_unique_filter[OF Cons.prems]
    by (auto simp: set_rtxRecords_def a intro!: arg_cong[where f = "\<lambda>x. ssl\<lparr>dtls13Rtx := dtls13Rtx ssl\<lparr>rtxRecords := x\<rparr>\<rparr>"] filter_cong)
  finally show ?case by simp
qed

text \<open>After a successful \<open>CheckAvailableSize\<close> there is room.\<close>

lemma CheckAvailableSize_room:
  assumes "io_ok (Suc n) s" "tls1_3 (options s)" "out_idx (outbuf s) = 0" "sz < 2 ^ 32"
    and "CheckAvailableSize (int sz) s = (RC_OK, s')"
  shows "sz \<le> unat (out_room (outbuf s'))"
proof -
  obtain b where b: "SendBuffered s = (RC_OK, s\<lparr>outbuf := b\<rparr>)" "out_idx b = 0"
    using SendBuffered_all[of s] assms(1) unfolding io_ok_def by metis
  define s1 where "s1 = (if dtlsMtuSz s < sz + length (out_pending (outbuf s)) then s\<lparr>outbuf := b\<rparr> else s)"
  have s1: "heap_left s1 = heap_left s" "out_idx (outbuf s1) = 0" "tls1_3 (options s1)"
    using assms(2,3) b(2) by (auto simp: s1_def)
  have run: "CheckAvailableSize (int sz) s =
      (if out_room (outbuf s1) < of_nat sz
       then (case GrowOutputBuffer sz s1 of None \<Rightarrow> (MEMORY_E, s1) | Some t \<Rightarrow> (RC_OK, t)) else (RC_OK, s1))"
    using b(1) s1(3) unfolding CheckAvailableSize_def s1_def by (auto simp: Let_def)
  have u: "unat (of_nat sz :: u32) = sz" using assms(4) by (simp add: unsigned_of_nat take_bit_nat_eq_self)
  show ?thesis
  proof (cases "out_room (outbuf s1) < of_nat sz")
    case True
    have "GrowOutputBuffer sz s1 = Some (s1\<lparr>heap_left := heap_left s1 - 1, outbuf := (outbuf s1)\<lparr>out_dynamic := True,
        out_bufferSize := sz + length (out_pending (outbuf s1))\<rparr>\<rparr>)"
      using assms(1) s1(1) by (simp add: GrowOutputBuffer_def xmalloc_def io_ok_def)
    then have "out_room (outbuf s') = of_nat sz"
      using run True assms(5) s1(2) by (auto simp: out_room_def)
    then show ?thesis using u by simp
  next
    case False
    then have "s' = s1" using run assms(5) by simp
    with False u show ?thesis by (simp add: word_less_nat_alt)
  qed
qed

lemma length_ack_body: "length (ack_body l) = 16 * length l"
  by (induction l) (auto simp: ack_body_def)

lemma WriteAck_ok:
  assumes io: "io_ok (Suc n) s" "tls1_3 (options s)" "out_idx (outbuf s) = 0" and e: "dtls13EncryptEpoch (epochs s) \<noteq> None"
    and l: "length l < 4096"
  shows "\<exists>s'. Dtls13WriteAckMessage l s = Some (Inr (16 * length l + 2, c16toa (of_nat (16 * length l)) @ ack_body l), s')"
proof -
  obtain i where i: "dtls13EncryptEpoch (epochs s) = Some i" using e by blast
  define plain where "plain = w64IsZero (epochNumber (dtls13Epochs (epochs s) ! i))"
  define hl where "hl = (if plain then DTLS_RECORD_HEADER_SZ else Dtls13GetRlHeaderLength True)"
  define sz where "sz = (if plain then 0 else MAX_MSG_EXTRA) + hl + 2 + 16 * length l"
  have u: "unat (Dtls13GetAckListLength l) = 16 * length l"
    using l by (simp add: Dtls13GetAckListLength_def unsigned_of_nat take_bit_nat_eq_self del: of_nat_mult)
  obtain s1 where c: "CheckAvailableSize (int sz) s = (RC_OK, s1)" by (rule CheckAvailableSize_ok[OF io(1,2)])
  have "hl \<le> 13" by (simp add: hl_def Dtls13GetRlHeaderLength_def)
  then have "sz < 2 ^ 32" using l by (simp add: sz_def)
  then have r: "sz \<le> unat (out_room (outbuf s1))" using CheckAvailableSize_room[OF io _ c] by simp
  have "\<not> unat (out_room (outbuf s1)) < hl + length (c16toa (Dtls13GetAckListLength l) @ ack_body l)"
    using r by (simp add: sz_def length_ack_body)
  then have "Dtls13WriteAckMessage l s = Some (Inr (16 * length l + 2, c16toa (Dtls13GetAckListLength l) @ ack_body l), s1)"
    using i c unfolding Dtls13WriteAckMessage_def Let_def sz_def hl_def plain_def by (simp add: u)
  then show ?thesis by (simp add: Dtls13GetAckListLength_def)
qed

section \<open>Properties\<close>

text \<open>
  The list of received record numbers is a set kept in increasing order: recording a number keeps the
  order, a number is never recorded twice, and unless memory runs out the numbers are the old ones and the
  new one.
\<close>

theorem AddAck_refines_set:
  assumes "sorted_wrt rn_less (seenRecords (dtls13Rtx ssl))"
  shows "case Dtls13RtxAddAck e s ssl of (rc, ssl') \<Rightarrow>
    sorted_wrt rn_less (seenRecords (dtls13Rtx ssl')) \<and> rtxRecords (dtls13Rtx ssl') = rtxRecords (dtls13Rtx ssl) \<and>
    (if (e, s) \<in> set (seenRecords (dtls13Rtx ssl)) then rc = RC_OK \<and> ssl' = ssl
     else if heap_left ssl = 0 then rc = MEMORY_E \<and> ssl' = ssl
     else rc = RC_OK \<and> set (seenRecords (dtls13Rtx ssl')) = insert (e, s) (set (seenRecords (dtls13Rtx ssl))))"
proof (cases "ack_insert e s (seenRecords (dtls13Rtx ssl))")
  case None
  then have "(e, s) \<in> set (seenRecords (dtls13Rtx ssl))" using ack_insert_None[OF assms, of e s] by simp
  then show ?thesis using assms by (simp add: Dtls13RtxAddAck_def None)
next
  case (Some l)
  then have "(e, s) \<notin> set (seenRecords (dtls13Rtx ssl))" using ack_insert_None[OF assms, of e s] by simp
  with ack_insert_Some[OF assms Some] show ?thesis
    using assms by (simp add: Dtls13RtxAddAck_def xmalloc_def Some)
qed

theorem AddAck_refines_set_witness:
  "case Dtls13RtxAddAck 2 5 (fresh_ssl\<lparr>dtls13Rtx := (dtls13Rtx fresh_ssl)\<lparr>seenRecords := [(0, 9), (2, 7)]\<rparr>\<rparr>) of
     (rc, ssl') \<Rightarrow> rc = RC_OK \<and> set (seenRecords (dtls13Rtx ssl')) = {(2, 5), (0, 9), (2, 7)}"
  using AddAck_refines_set[of "fresh_ssl\<lparr>dtls13Rtx := (dtls13Rtx fresh_ssl)\<lparr>seenRecords := [(0, 9), (2, 7)]\<rparr>\<rparr>" 2 5]
  by (auto simp: rn_less_def fresh_ssl_def split: prod.splits)

text \<open>
  C27. Acknowledgement round trip.  The ACK message one side writes for up to 4095 record numbers makes the
  other side drop exactly the records that were sent under one of these numbers and keep all others;
  retransmission is scheduled if and only if records are left.
\<close>

theorem ack_roundtrip:
  assumes "io_ok (Suc n) s" "tls1_3 (options s)" "out_idx (outbuf s) = 0" "dtls13EncryptEpoch (epochs s) \<noteq> None"
    and "length l < 4096" and u: "rtx_unique (rtxRecords (dtls13Rtx peer))" and k: "\<not> dtls13WaitKeyUpdateAck (flags peer)"
    and rt: "\<not> retransmit (dtls13Rtx peer)"
  shows "\<exists>msg s' peer'. Dtls13WriteAckMessage l s = Some (Inr (length msg, msg), s') \<and>
    DoDtls13Ack gcm_set aes_init derive msg peer = (Inr (length msg), peer') \<and>
    rtxRecords (dtls13Rtx peer') = filter (\<lambda>r. set l \<inter> tracked r = {}) (rtxRecords (dtls13Rtx peer)) \<and>
    (retransmit (dtls13Rtx peer') \<longleftrightarrow> rtxRecords (dtls13Rtx peer') \<noteq> [])"
proof -
  define msg where "msg = c16toa (of_nat (16 * length l)) @ ack_body l"
  obtain s' where w: "Dtls13WriteAckMessage l s = Some (Inr (16 * length l + 2, msg), s')"
    using WriteAck_ok[OF assms(1-5)] unfolding msg_def by blast
  have len: "length msg = 16 * length l + 2" by (simp add: msg_def length_ack_body)
  have u16: "unat (ato16 msg) = 16 * length l"
    using assms(5) by (simp add: msg_def unsigned_of_nat take_bit_nat_eq_self del: of_nat_mult)
  have body: "take (16 * length l) (drop 2 msg) = ack_body l" by (simp add: msg_def length_ack_body)
  define p1 where "p1 = ack_loop (ack_body l) peer"
  have p1: "rtxRecords (dtls13Rtx p1) = filter (\<lambda>r. set l \<inter> tracked r = {}) (rtxRecords (dtls13Rtx peer))"
      "flags p1 = flags peer" "retransmit (dtls13Rtx p1) = retransmit (dtls13Rtx peer)"
    using ack_loop_body[OF u, of l] by (auto simp: p1_def set_rtxRecords_def)
  define p2 where "p2 = (if opt_side (options p1) = WOLFSSL_CLIENT_END \<and> connectState (options p1) = WAIT_FINISHED_ACK \<and>
        rtxRecords (dtls13Rtx p1) = [] then p1\<lparr>options := (options p1)\<lparr>serverState := SERVER_FINISHED_ACKED\<rparr>\<rparr> else p1)"
  have p2: "dtls13Rtx p2 = dtls13Rtx p1" "flags p2 = flags p1" by (simp_all add: p2_def)
  define p3 where "p3 = (if rtxRecords (dtls13Rtx p2) \<noteq> [] then p2\<lparr>dtls13Rtx := (dtls13Rtx p2)\<lparr>retransmit := True\<rparr>\<rparr> else p2)"
  have "DoDtls13Ack gcm_set aes_init derive msg peer = (Inr (length msg), p3)"
    unfolding DoDtls13Ack_def Let_def u16 body p1_def[symmetric] p2_def[symmetric]
    using k p1(2) p2(2) by (simp add: len p3_def)
  moreover have "rtxRecords (dtls13Rtx p3) = rtxRecords (dtls13Rtx p1)" "retransmit (dtls13Rtx p3) \<longleftrightarrow> rtxRecords (dtls13Rtx p3) \<noteq> []"
    using p1(3) p2(1) rt by (simp_all add: p3_def)
  ultimately show ?thesis using w len p1(1) by auto
qed

definition rtx_example :: WOLFSSL where
  "rtx_example = set_rtxRecords
     [\<lparr>r_data = [1], r_epoch = 2, r_seq = [0, 3, 0], r_rnIdx = 2, r_handshakeType = certificate\<rparr>,
      \<lparr>r_data = [2], r_epoch = 2, r_seq = [1, 4, 0], r_rnIdx = 2, r_handshakeType = finished\<rparr>] fresh_ssl"

theorem ack_roundtrip_witness:
  "\<exists>msg s' peer'. Dtls13WriteAckMessage [(2, 3), (2, 7)] fresh_ssl = Some (Inr (length msg, msg), s') \<and>
    DoDtls13Ack (\<lambda>k. RC_OK) (\<lambda>k. RC_OK) (\<lambda>s. (RC_OK, s)) msg rtx_example = (Inr (length msg), peer') \<and>
    map r_data (rtxRecords (dtls13Rtx peer')) = [[2]] \<and> retransmit (dtls13Rtx peer')"
proof -
  have "rtx_unique (rtxRecords (dtls13Rtx rtx_example))" "\<not> dtls13WaitKeyUpdateAck (flags rtx_example)"
      "\<not> retransmit (dtls13Rtx rtx_example)" "io_ok (Suc 0) fresh_ssl" "tls1_3 (options fresh_ssl)" "out_idx (outbuf fresh_ssl) = 0"
      "dtls13EncryptEpoch (epochs fresh_ssl) \<noteq> None"
    by (simp_all add: rtx_unique_def tracked_def rtx_example_def set_rtxRecords_def fresh_ssl_def io_ok_def)
  moreover have "filter (\<lambda>r. set [(2, 3), (2, 7)] \<inter> tracked r = {}) (rtxRecords (dtls13Rtx rtx_example)) =
      [\<lparr>r_data = [2], r_epoch = 2, r_seq = [1, 4, 0], r_rnIdx = 2, r_handshakeType = finished\<rparr>]"
    by (simp add: tracked_def rtx_example_def set_rtxRecords_def)
  ultimately show ?thesis
    using ack_roundtrip[of 0 fresh_ssl "[(2, 3), (2, 7)]" rtx_example "\<lambda>k. RC_OK" "\<lambda>k. RC_OK" "\<lambda>s. (RC_OK, s)"] by fastforce
qed

text \<open>
  Which record numbers acknowledge a record.  Each retransmission adds its record number while there is
  room; the fourth number restarts the table at its first entry, and from then on the numbers in the later
  entries, which are still stored, no longer acknowledge the record.
\<close>

theorem track_seq_tracked:
  assumes "length (r_seq r) = DTLS13_RETRANS_RN_SIZE" "r_rnIdx r \<le> DTLS13_RETRANS_RN_SIZE"
  shows "Dtls13RtxIsTrackedByRn (track_seq seq r) e s \<longleftrightarrow>
    e = r_epoch r \<and> s = seq \<or> r_rnIdx r < DTLS13_RETRANS_RN_SIZE \<and> Dtls13RtxIsTrackedByRn r e s"
proof (cases "r_rnIdx r < 3")
  case True
  then have "take (r_rnIdx r + 1) ((r_seq r)[r_rnIdx r := seq]) = take (r_rnIdx r) (r_seq r) @ [seq]"
    using assms(1) by (simp add: take_Suc_conv_app_nth)
  then show ?thesis using True by (auto simp: IsTracked_iff tracked_def track_seq_def Let_def)
next
  case False
  then have "take 1 ((r_seq r)[0 := seq]) = [seq]" using assms(1) by (cases "r_seq r") auto
  then show ?thesis using False by (auto simp: IsTracked_iff tracked_def track_seq_def Let_def)
qed

theorem track_seq_tracked_witness:
  "\<not> Dtls13RtxIsTrackedByRn (track_seq 8
      \<lparr>r_data = [1], r_epoch = 2, r_seq = [5, 6, 7], r_rnIdx = 3, r_handshakeType = certificate\<rparr>) 2 6"
  by (subst track_seq_tracked) simp_all


end
