(* ===== verification/Dtls13RtxInv.thy ===== *)
theory Dtls13RtxInv
  imports Dtls13Rtx
begin

text \<open>
  The records kept for retransmission over the life of a connection: what every operation of
  \<open>Dtls13Send\<close> and \<open>Dtls13Rtx\<close> does to the counters of the epochs and to the record numbers the records are
  known by, as a state machine with its invariant.
\<close>

section \<open>What sending changes\<close>

text \<open>The state retransmission depends on.\<close>

definition same_tx :: "WOLFSSL \<Rightarrow> WOLFSSL \<Rightarrow> bool" where
  "same_tx s s' \<longleftrightarrow> dtls13Epochs (epochs s') = dtls13Epochs (epochs s) \<and> dtls13EncryptEpoch (epochs s') = dtls13EncryptEpoch (epochs s) \<and>
     dtls13Rtx s' = dtls13Rtx s \<and> timers s' = timers s \<and> options s' = options s"

lemma same_tx_refl [simp]: "same_tx s s"
  by (simp add: same_tx_def)

lemma same_tx_trans: "same_tx a b \<Longrightarrow> same_tx b c \<Longrightarrow> same_tx a c"
  by (simp add: same_tx_def)

lemma xmalloc_same: "xmalloc s = Some s' \<Longrightarrow> same_tx s s'"
  by (auto simp: xmalloc_def same_tx_def split: if_splits)

lemma alloc_same: "alloc_enc s = Some s' \<Longrightarrow> same_tx s s'" "alloc_dec s = Some s' \<Longrightarrow> same_tx s s'"
  by (auto simp: alloc_enc_def alloc_dec_def xmalloc_def same_tx_def bind_eq_Some_conv split: if_splits)

lemma set_key_same: "same_tx s (snd (set_enc_key g s))" "same_tx s (snd (set_dec_key g s))" "same_tx s (mark_setup a b s)"
  by (simp_all add: set_enc_key_def set_dec_key_def mark_setup_def Let_def same_tx_def)

lemma set_rn_same: "same_tx s (snd (set_rn_enc f k s))" "same_tx s (snd (set_rn_dec f k s))"
  using InitAesCipher_form[of f k "rnEncryptKey (epochs s)" s] InitAesCipher_form[of f k "rnDecryptKey (epochs s)" s]
  by (auto simp: set_rn_enc_def set_rn_dec_def split_beta same_tx_def)

lemma SetRecordNumberKeys_same: "same_tx s (snd (Dtls13SetRecordNumberKeys f es s))"
proof -
  have "same_tx s (snd (set_rn_dec f k' (snd (set_rn_enc f k s))))" for k k' using set_rn_same same_tx_trans by blast
  then show ?thesis
    unfolding Dtls13SetRecordNumberKeys_def Let_def split_beta by (cases es) (simp_all add: set_rn_same)
qed

lemma SetKeys_same: "same_tx s (snd (SetKeys g es s))"
proof -
  let ?a = "if es \<noteq> DECRYPT_SIDE_ONLY then alloc_enc s else Some s"
  show ?thesis
  proof (cases ?a)
    case None
    then show ?thesis by (simp add: SetKeys_def Let_def)
  next
    case (Some s1)
    have s1: "same_tx s s1" using Some alloc_same(1)[of s] by (auto split: if_splits)
    let ?b = "if es \<noteq> ENCRYPT_SIDE_ONLY then alloc_dec s1 else Some s1"
    show ?thesis
    proof (cases ?b)
      case None
      then show ?thesis using Some s1 by (simp add: SetKeys_def Let_def)
    next
      case (Some s2)
      have s2: "same_tx s s2" using Some alloc_same(2)[of s1] s1 same_tx_trans by (auto split: if_splits)
      define e where "e = (if es \<noteq> DECRYPT_SIDE_ONLY then set_enc_key g s2 else (RC_OK, s2))"
      define d where "d = (if es \<noteq> ENCRYPT_SIDE_ONLY then set_dec_key g (snd e) else (RC_OK, snd e))"
      have e: "same_tx s (snd e)" using s2 set_key_same(1)[of s2 g] same_tx_trans by (auto simp: e_def)
      have d: "same_tx s (snd d)" using e set_key_same(2)[of "snd e" g] same_tx_trans by (auto simp: d_def)
      have "SetKeys g es s = (RC_OK, s) \<or> SetKeys g es s = e \<or> SetKeys g es s = d \<or>
          SetKeys g es s = (RC_OK, mark_setup (es \<noteq> DECRYPT_SIDE_ONLY) (es \<noteq> ENCRYPT_SIDE_ONLY) (snd d))"
        using Some \<open>?a = Some s1\<close> unfolding SetKeys_def Let_def e_def d_def by (simp add: split_beta)
      then show ?thesis using e d same_tx_trans[OF d set_key_same(3)] by auto
    qed
  qed
qed

lemma SetKeysSide_same: "same_tx s (snd (SetKeysSide g f es s))"
  using SetKeys_same[of s g es] SetRecordNumberKeys_same[of "snd (SetKeys g es s)" f es] same_tx_trans
  by (auto simp: SetKeysSide_def split_beta)

text \<open>Selecting an epoch for sending changes only which one is selected.\<close>

lemma SetEpochKeys_enc:
  assumes "Dtls13SetEpochKeys g f n ENCRYPT_SIDE_ONLY s = (rc, s')"
  shows "dtls13Epochs (epochs s') = dtls13Epochs (epochs s)" "dtls13Rtx s' = dtls13Rtx s" "timers s' = timers s"
    "options s' = options s"
    "rc \<noteq> RC_OK \<and> dtls13EncryptEpoch (epochs s') = dtls13EncryptEpoch (epochs s) \<or>
     (\<exists>i<length (dtls13Epochs (epochs s)). dtls13EncryptEpoch (epochs s') = Some i \<and>
        isValid (dtls13Epochs (epochs s) ! i) \<and> epochNumber (dtls13Epochs (epochs s) ! i) = n)"
proof -
  have "(dtls13Epochs (epochs s') = dtls13Epochs (epochs s) \<and> dtls13Rtx s' = dtls13Rtx s \<and> timers s' = timers s \<and> options s' = options s) \<and>
    (rc \<noteq> RC_OK \<and> dtls13EncryptEpoch (epochs s') = dtls13EncryptEpoch (epochs s) \<or>
     (\<exists>i<length (dtls13Epochs (epochs s)). dtls13EncryptEpoch (epochs s') = Some i \<and>
        isValid (dtls13Epochs (epochs s) ! i) \<and> epochNumber (dtls13Epochs (epochs s) ! i) = n))"
  proof (cases "Dtls13GetEpoch n (epochs s)")
    case None
    then show ?thesis using assms by (auto simp: Dtls13SetEpochKeys_def side_flags_def Let_def)
  next
    case (Some i)
    note g = GetEpoch_SomeD[OF Some]
    let ?s1 = "s\<lparr>epochs := (epochs s)\<lparr>dtls13EncryptEpoch := Some i\<rparr>\<rparr>"
    consider "s' = s \<and> rc \<noteq> RC_OK" | "s' = ?s1" | k where "s' = snd (SetKeysSide g f ENCRYPT_SIDE_ONLY (?s1\<lparr>keys := k\<rparr>))"
      using assms Some unfolding Dtls13SetEpochKeys_def side_flags_def Let_def
      by (auto split: if_splits dest!: arg_cong[of _ _ snd])
    then show ?thesis
    proof cases
      case 3
      with SetKeysSide_same[of "?s1\<lparr>keys := k\<rparr>" g f ENCRYPT_SIDE_ONLY] g show ?thesis
        by (simp add: same_tx_def)
    qed (use g in simp_all)
  qed
  then show "dtls13Epochs (epochs s') = dtls13Epochs (epochs s)" "dtls13Rtx s' = dtls13Rtx s" "timers s' = timers s"
    "options s' = options s"
    "rc \<noteq> RC_OK \<and> dtls13EncryptEpoch (epochs s') = dtls13EncryptEpoch (epochs s) \<or>
     (\<exists>i<length (dtls13Epochs (epochs s)). dtls13EncryptEpoch (epochs s') = Some i \<and>
        isValid (dtls13Epochs (epochs s) ! i) \<and> epochNumber (dtls13Epochs (epochs s) ! i) = n)"
    by simp_all
qed

lemma SendBuffered_same: "same_tx s (snd (SendBuffered s))"
  by (simp add: SendBuffered_def split_beta same_tx_def)

lemma CheckAvailableSize_same: "same_tx s (snd (CheckAvailableSize sz s))"
proof -
  have g: "GrowOutputBuffer n t = Some u \<Longrightarrow> same_tx t u" for n t u
    by (auto simp: GrowOutputBuffer_def xmalloc_def same_tx_def bind_eq_Some_conv split: if_splits)
  have "same_tx t (snd (case GrowOutputBuffer n t of None \<Rightarrow> (MEMORY_E, t) | Some u \<Rightarrow> (RC_OK, u)))" for n t
    using g[of n t] by (auto split: option.splits)
  note grow = this
  define r where "r = (if dtlsMtuSz s < nat sz + length (out_pending (outbuf s)) then SendBuffered s else (RC_OK, s))"
  have r: "same_tx s (snd r)" using SendBuffered_same[of s] by (simp add: r_def)
  have "snd (CheckAvailableSize sz s) \<in> {s, snd r,
      snd (case GrowOutputBuffer (nat sz) (snd r) of None \<Rightarrow> (MEMORY_E, snd r) | Some u \<Rightarrow> (RC_OK, u))}"
    unfolding CheckAvailableSize_def Let_def r_def[symmetric] split_beta by simp
  then show ?thesis using r same_tx_trans[OF r grow] by auto
qed

text \<open>The sequence number a record takes.\<close>

definition bump :: "nat \<Rightarrow> Dtls13Epoch list \<Rightarrow> Dtls13Epoch list" where
  "bump i E = E[i := (E ! i)\<lparr>nextSeqNumber := nextSeqNumber (E ! i) + 1\<rparr>]"

text \<open>A send leaves everything alone but the counter, which it has advanced if it succeeded.\<close>

definition sent_effect :: "nat \<Rightarrow> bool \<Rightarrow> WOLFSSL \<Rightarrow> WOLFSSL \<Rightarrow> bool" where
  "sent_effect i ok s s' \<longleftrightarrow> dtls13Rtx s' = dtls13Rtx s \<and> timers s' = timers s \<and> options s' = options s \<and>
     dtls13EncryptEpoch (epochs s') = Some i \<and>
     (dtls13Epochs (epochs s') = bump i (dtls13Epochs (epochs s)) \<or> \<not> ok \<and> dtls13Epochs (epochs s') = dtls13Epochs (epochs s))"

lemma sent_effect_same: "sent_effect i ok s s' \<Longrightarrow> same_tx s' s'' \<Longrightarrow> sent_effect i ok s s''"
  by (auto simp: sent_effect_def same_tx_def)

lemma sent_effect_pre: "same_tx s s' \<Longrightarrow> sent_effect i ok s' s'' \<Longrightarrow> sent_effect i ok s s''"
  by (simp add: sent_effect_def same_tx_def)

lemma sent_one_effect: "dtls13EncryptEpoch (epochs s) = Some i \<Longrightarrow> sent_effect i ok s (sent_one i s)"
  by (simp add: sent_effect_def bump_def sent_one_def set_epoch_def)

lemma PlaintextHeader_effect:
  assumes "dtls13EncryptEpoch (epochs s) = Some i"
  shows "snd (snd (Dtls13RlAddPlaintextHeader ct len s)) = sent_one i s"
  using assms by (simp add: Dtls13RlAddPlaintextHeader_def Dtls13GetSeq_def Let_def w64Increment_def sent_one_def)

lemma EncryptTls13_effect:
  assumes "dtls13EncryptEpoch (epochs s) = Some i" "EncryptTls13 gcm plain aad s = (r, s')"
  shows "sent_effect i (r \<noteq> Inl MEMORY_E) s s'"
proof (cases "if encrypt_nonce (flags s) then Some s else xmalloc s")
  case None
  then show ?thesis using assms by (auto simp: EncryptTls13_def sent_effect_def)
next
  case (Some s1)
  let ?s2 = "s1\<lparr>flags := (flags s1)\<lparr>encrypt_nonce := True\<rparr>\<rparr>"
  have s1: "same_tx s s1" using Some xmalloc_same[of s s1] by (auto split: if_splits)
  then have s2: "same_tx s ?s2" by (simp add: same_tx_def)
  have e2: "dtls13EncryptEpoch (epochs ?s2) = Some i" using s1 assms(1) by (simp add: same_tx_def)
  have "s' = sent_one i ?s2"
    using assms(2) unfolding EncryptTls13_def Some option.case Let_def BuildNonce_cur[OF e2]
    by (auto split: if_splits option.splits)
  then show ?thesis using sent_effect_pre[OF s2 sent_one_effect[OF e2]] by simp
qed

lemma BuildTls13Message_effect:
  assumes i: "dtls13EncryptEpoch (epochs s) = Some i" and b: "BuildTls13Message gcm aes outSz input type s = (r, s')"
  shows "sent_effect i (r \<noteq> Inl MEMORY_E \<and> r \<noteq> Inl BUFFER_E) s s'"
proof -
  obtain sz pad where sz: "build_size (length input) = (sz, pad)" by (cases "build_size (length input)")
  let ?n = "of_nat (sz - Dtls13GetRlHeaderLength True) :: u16"
  obtain aad where aad: "Dtls13RlAddCiphertextHeader ?n s = Inr aad"
    using i by (simp add: Dtls13RlAddCiphertextHeader_def Let_def)
  obtain q t where e: "EncryptTls13 gcm (input @ [type] @ replicate pad 0) aad s = (q, t)"
    by (cases "EncryptTls13 gcm (input @ [type] @ replicate pad 0) aad s")
  note eff = EncryptTls13_effect[OF i e]
  show ?thesis
  proof (cases "outSz < sz")
    case True
    then show ?thesis using b i by (simp add: BuildTls13Message_def sz sent_effect_def)
  next
    case False
    then have "s' = t" "q = Inl MEMORY_E \<Longrightarrow> r = Inl MEMORY_E"
      using b unfolding BuildTls13Message_def sz Let_def prod.case aad sum.case e by (auto split: sum.splits)
    then show ?thesis using eff by (auto simp: sent_effect_def)
  qed
qed

text \<open>Sending a fragment: a status of 0 or \<open>WANT_WRITE\<close> means that a number was taken.\<close>

lemma frag_record_effect:
  assumes i: "dtls13EncryptEpoch (epochs s) = Some i" and r: "frag_record gcm aes output sz ht hash s = (q, s')"
  shows "sent_effect i (q \<noteq> Inl MEMORY_E \<and> q \<noteq> Inl BUFFER_E \<and> q \<noteq> Inl BAD_FUNC_ARG) s s'"
proof (cases "Dtls13TypeIsEncrypted ht")
  case False
  then have "s' = sent_one i s"
    using r PlaintextHeader_effect[OF i] unfolding frag_record_def Let_def by (auto simp: split_beta)
  then show ?thesis using sent_one_effect[OF i] by simp
next
  case True
  let ?m = "drop (Dtls13GetRlHeaderLength True) output"
  obtain rc h where h: "(if hash then Dtls13HashHandshake ?m s else (RC_OK, s)) = (rc, h)" by fastforce
  have hs: "same_tx s h" "rc = RC_OK \<or> rc = BAD_FUNC_ARG"
    using h by (auto simp: Dtls13HashHandshake_def HashRaw_def same_tx_def split: if_splits)
  have ih: "dtls13EncryptEpoch (epochs h) = Some i" using hs(1) i by (simp add: same_tx_def)
  have run: "frag_record gcm aes output sz ht hash s =
      (if rc \<noteq> RC_OK then (Inl rc, h) else BuildTls13Message gcm aes sz ?m handshake h)"
  proof -
    have t: "Dtls13TypeIsEncrypted ht = True" using True by simp
    show ?thesis unfolding frag_record_def Let_def t h by simp
  qed
  show ?thesis
  proof (cases "rc = RC_OK")
    case True
    then have "sent_effect i (q \<noteq> Inl MEMORY_E \<and> q \<noteq> Inl BUFFER_E) h s'"
      using BuildTls13Message_effect[OF ih] r run by simp
    then show ?thesis using sent_effect_pre[OF hs(1)] by (auto simp: sent_effect_def)
  next
    case False
    then show ?thesis using r run hs i by (auto simp: sent_effect_def same_tx_def)
  qed
qed

lemma SendFragment_effect:
  assumes i: "dtls13EncryptEpoch (epochs s) = Some i"
    and r: "Dtls13SendFragment gcm aes loc output sz ht hash now s = (rc, s')"
  shows "sent_effect i (rc = RC_OK \<or> rc = WANT_WRITE) s s'"
proof -
  obtain q t where f: "frag_record gcm aes output sz ht hash s = (q, t)" by (cases "frag_record gcm aes output sz ht hash s")
  note eff = frag_record_effect[OF i f]
  have from_buffer: "same_tx u (snd (Dtls13SendFragFromBuffer loc bs u))" for bs u
  proof -
    obtain c v where c: "CheckAvailableSize (int (length bs)) u = (c, v)" by fastforce
    have v: "same_tx u v" using CheckAvailableSize_same[of u "int (length bs)"] c by simp
    have "same_tx v (out_append bs v)" by (simp add: same_tx_def out_append_def)
    then have "same_tx u (snd (SendBuffered (out_append bs v)))" using v SendBuffered_same same_tx_trans by blast
    then show ?thesis using v c by (simp add: Dtls13SendFragFromBuffer_def)
  qed
  have app: "same_tx u (out_append bs u)" "same_tx u (snd (SendBuffered (out_append bs u)))" for bs u
  proof -
    show "same_tx u (out_append bs u)" by (simp add: same_tx_def out_append_def)
    then show "same_tx u (snd (SendBuffered (out_append bs u)))" using SendBuffered_same same_tx_trans by blast
  qed
  consider (early) "rc = BUFFER_ERROR" "s' = s" | (fail) "q = Inl rc" "s' = t" | (ok) rec where "q = Inr rec" "same_tx t s'"
  proof (cases q)
    case (Inl e)
    then show thesis using that r f unfolding Dtls13SendFragment_def by (auto split: if_splits)
  next
    case (Inr rec)
    then have "rc = BUFFER_ERROR \<and> s' = s \<or> s' \<in> {snd (Dtls13SendFragFromBuffer loc rec t), out_append rec t, snd (SendBuffered (out_append rec t))}"
      using r f unfolding Dtls13SendFragment_def Let_def by (auto split: if_splits dest!: arg_cong[of _ _ snd])
    then show thesis using that Inr from_buffer[of t rec] app[of t rec] by auto
  qed
  then show ?thesis
  proof cases
    case early
    then show ?thesis using i by (simp add: sent_effect_def)
  next
    case fail
    then show ?thesis using eff by (auto simp: sent_effect_def)
  next
    case ok
    then show ?thesis using sent_effect_same[OF eff ok(2)] by (auto simp: sent_effect_def)
  qed
qed

section \<open>The numbers records are known by\<close>

text \<open>
  Every number a record is known by was taken from the counter of its epoch, and no number stands for two
  records.
\<close>

definition rtx_rec_ok :: "Dtls13Epoch list \<Rightarrow> Dtls13RtxRecord \<Rightarrow> bool" where
  "rtx_rec_ok E r \<longleftrightarrow> length (r_seq r) = 3 \<and> r_rnIdx r \<le> 3 \<and>
     (\<forall>e\<in>set E. isValid e \<and> epochNumber e = r_epoch r \<longrightarrow> (\<forall>s\<in>set (take (r_rnIdx r) (r_seq r)). s < nextSeqNumber e))"

definition rtx_ok :: "Dtls13Epoch list \<Rightarrow> Dtls13RtxRecord list \<Rightarrow> bool" where
  "rtx_ok E rs \<longleftrightarrow> rtx_unique rs \<and> (\<forall>r\<in>set rs. rtx_rec_ok E r)"

definition rtx_inv :: "WOLFSSL \<Rightarrow> bool" where
  "rtx_inv ssl \<longleftrightarrow> rtx_ok (dtls13Epochs (epochs ssl)) (rtxRecords (dtls13Rtx ssl))"

text \<open>\<open>n\<close> more records can be sent in every epoch before its counter wraps.\<close>

definition seq_room :: "nat \<Rightarrow> Dtls13Epoch list \<Rightarrow> bool" where
  "seq_room n E \<longleftrightarrow> (\<forall>e\<in>set E. unat (nextSeqNumber e) + n < 2 ^ 64)"

lemma less_bump: "seq_room (Suc n) E \<Longrightarrow> e \<in> set E \<Longrightarrow> nextSeqNumber e < nextSeqNumber e + 1"
proof -
  assume "seq_room (Suc n) E" "e \<in> set E"
  then have "unat (nextSeqNumber e) + 1 < 2 ^ 64" by (auto simp: seq_room_def)
  then show ?thesis by (simp add: word_less_nat_alt unat_word_ariths)
qed

lemma set_bump: "e \<in> set (bump i E) \<Longrightarrow> e \<in> set E \<or> e = (E ! i)\<lparr>nextSeqNumber := nextSeqNumber (E ! i) + 1\<rparr>"
  using set_update_subset_insert[of E i] by (auto simp: bump_def)

lemma seq_room_bump:
  assumes "seq_room (Suc n) E" "i < length E"
  shows "seq_room n (bump i E)"
proof -
  have "unat (nextSeqNumber (E ! i)) + Suc n < 2 ^ 64" using assms by (simp add: seq_room_def)
  then have "unat (nextSeqNumber (E ! i) + 1) + n < 2 ^ 64" by (simp add: unat_word_ariths)
  then show ?thesis
    using assms(1) unfolding seq_room_def by (auto dest!: set_bump)
qed

lemma rtx_rec_ok_bump:
  assumes "rtx_rec_ok E r" "seq_room (Suc n) E" "i < length E"
  shows "rtx_rec_ok (bump i E) r"
proof -
  have "s < nextSeqNumber e" if e: "e \<in> set (bump i E)" "isValid e \<and> epochNumber e = r_epoch r" and s: "s \<in> set (take (r_rnIdx r) (r_seq r))" for e s
    using set_bump[OF e(1)]
  proof
    assume "e \<in> set E"
    then show ?thesis using assms(1) e(2) s by (simp add: rtx_rec_ok_def)
  next
    assume b: "e = (E ! i)\<lparr>nextSeqNumber := nextSeqNumber (E ! i) + 1\<rparr>"
    have "s < nextSeqNumber (E ! i)" using assms(1,3) e(2) s b by (simp add: rtx_rec_ok_def)
    also have "\<dots> < nextSeqNumber (E ! i) + 1" using less_bump[OF assms(2)] assms(3) by simp
    finally show ?thesis by (simp add: b)
  qed
  then show ?thesis using assms(1) by (simp add: rtx_rec_ok_def)
qed

lemma tracked_track_seq:
  assumes "rtx_rec_ok E r"
  shows "tracked (track_seq s r) \<subseteq> insert (r_epoch r, s) (tracked r)" "r_epoch (track_seq s r) = r_epoch r"
    "length (r_seq (track_seq s r)) = 3" "r_rnIdx (track_seq s r) \<le> 3"
proof -
  have l: "length (r_seq r) = 3" "r_rnIdx r \<le> 3" using assms by (simp_all add: rtx_rec_ok_def)
  show "tracked (track_seq s r) \<subseteq> insert (r_epoch r, s) (tracked r)"
  proof (cases "r_rnIdx r < 3")
    case True
    then have "take (r_rnIdx r + 1) ((r_seq r)[r_rnIdx r := s]) = take (r_rnIdx r) (r_seq r) @ [s]"
      using l(1) by (simp add: take_Suc_conv_app_nth)
    then show ?thesis using True by (auto simp: tracked_def track_seq_def Let_def)
  next
    case False
    then have "take 1 ((r_seq r)[0 := s]) = [s]" using l(1) by (cases "r_seq r") auto
    then show ?thesis using False by (auto simp: tracked_def track_seq_def Let_def)
  qed
qed (use assms in \<open>auto simp: track_seq_def Let_def rtx_rec_ok_def\<close>)

lemma rtx_rec_ok_iff:
  "rtx_rec_ok E r \<longleftrightarrow> length (r_seq r) = 3 \<and> r_rnIdx r \<le> 3 \<and>
     (\<forall>e\<in>set E. isValid e \<longrightarrow> (\<forall>s. (epochNumber e, s) \<in> tracked r \<longrightarrow> s < nextSeqNumber e))"
  by (auto simp: rtx_rec_ok_def tracked_def)

text \<open>The number the next record of epoch \<open>i\<close> takes is not in use.\<close>

lemma next_seq_fresh:
  "rtx_rec_ok E r \<Longrightarrow> i < length E \<Longrightarrow> isValid (E ! i) \<Longrightarrow> (epochNumber (E ! i), nextSeqNumber (E ! i)) \<notin> tracked r"
  unfolding rtx_rec_ok_iff by (meson nth_mem order_less_irrefl)

text \<open>No two valid slots hold the same epoch (part of \<^const>\<open>epochs_wf\<close>).\<close>

definition one_slot :: "Dtls13Epoch list \<Rightarrow> bool" where
  "one_slot E \<longleftrightarrow> (\<forall>i<length E. \<forall>j<length E. isValid (E ! i) \<and> isValid (E ! j) \<and> epochNumber (E ! i) = epochNumber (E ! j) \<longrightarrow> i = j)"

lemma bump_simps [simp]:
  "length (bump i E) = length E" "j < length E \<Longrightarrow> isValid (bump i E ! j) = isValid (E ! j)"
  "j < length E \<Longrightarrow> epochNumber (bump i E ! j) = epochNumber (E ! j)"
  by (cases "j = i"; simp add: bump_def)+

lemma one_slot_bump [simp]: "one_slot (bump i E) = one_slot E"
  by (auto simp: one_slot_def)

lemma rec_ok_new:
  assumes "seq_room (Suc n) E" "i < length E" "epochNumber (E ! i) = r_epoch r"
    and "tracked r \<subseteq> insert (r_epoch r, nextSeqNumber (E ! i)) (tracked r0)" "rtx_rec_ok E r0"
    and "length (r_seq r) = 3" "r_rnIdx r \<le> 3" and valid: "isValid (E ! i)" and uniq: "one_slot E"
  shows "rtx_rec_ok (bump i E) r"
  unfolding rtx_rec_ok_iff
proof (intro conjI ballI allI impI)
  fix e s assume e: "e \<in> set (bump i E)" "isValid e" and s: "(epochNumber e, s) \<in> tracked r"
  have b: "rtx_rec_ok (bump i E) r0" by (rule rtx_rec_ok_bump[OF assms(5,1,2)])
  show "s < nextSeqNumber e"
  proof (cases "(epochNumber e, s) \<in> tracked r0")
    case True
    then show ?thesis using b e by (simp add: rtx_rec_ok_iff)
  next
    case False
    then have s: "s = nextSeqNumber (E ! i)" "epochNumber e = epochNumber (E ! i)" using s assms(3,4) by auto
    from e obtain j where j: "j < length E" "e = bump i E ! j" by (auto simp: in_set_conv_nth)
    then have "j = i" using uniq assms(2) e(2) s(2) valid unfolding one_slot_def by simp
    then have "nextSeqNumber e = nextSeqNumber (E ! i) + 1" using j assms(2) by (simp add: bump_def)
    then show ?thesis using less_bump[OF assms(1), of "E ! i"] assms(2) s(1) by simp
  qed
qed (use assms in simp_all)

lemma rtx_unique_append:
  "rtx_unique (a @ b) \<longleftrightarrow> rtx_unique a \<and> rtx_unique b \<and> (\<forall>x\<in>set a. \<forall>y\<in>set b. tracked x \<inter> tracked y = {})"
  by (auto simp: rtx_unique_def sorted_wrt_append)

lemma rtx_unique_Cons: "rtx_unique (r # b) \<longleftrightarrow> rtx_unique b \<and> (\<forall>y\<in>set b. tracked r \<inter> tracked y = {})"
  by (auto simp: rtx_unique_def)

lemma rtx_ok_move: "rtx_ok E (pre @ r # post) \<Longrightarrow> rtx_ok E (pre @ post @ [r])"
  unfolding rtx_ok_def rtx_unique_append rtx_unique_Cons by (auto simp: rtx_unique_def)

text \<open>A retransmission replaces a record by one known under a fresh number too.\<close>

lemma rtx_ok_track:
  assumes ok: "rtx_ok E (pre @ r # post)" and i: "i < length E" "isValid (E ! i)" "epochNumber (E ! i) = r_epoch r"
    and room: "seq_room (Suc n) E" and uniq: "one_slot E"
  shows "rtx_ok (bump i E) (pre @ track_seq (nextSeqNumber (E ! i)) r # post)"
proof -
  let ?r = "track_seq (nextSeqNumber (E ! i)) r"
  have rok: "rtx_rec_ok E r" using ok by (simp add: rtx_ok_def)
  note t = tracked_track_seq[OF rok, of "nextSeqNumber (E ! i)"]
  have new: "rtx_rec_ok (bump i E) ?r"
    by (rule rec_ok_new[OF room i(1) _ _ rok t(3,4) i(2) uniq]) (use t(1,2) i(3) in simp_all)
  have dis: "tracked ?r \<inter> tracked x = {}" if "x \<in> set pre \<or> x \<in> set post" for x
  proof -
    have "tracked r \<inter> tracked x = {}" "rtx_rec_ok E x"
      using ok that unfolding rtx_ok_def rtx_unique_append rtx_unique_Cons by auto
    then show ?thesis using next_seq_fresh[of E x i] i t(1) by auto
  qed
  have others: "rtx_rec_ok (bump i E) x" if "x \<in> set pre \<or> x \<in> set post" for x
    using ok that rtx_rec_ok_bump[OF _ room i(1)] by (auto simp: rtx_ok_def)
  show ?thesis
    using ok new dis others unfolding rtx_ok_def rtx_unique_append rtx_unique_Cons by auto
qed

text \<open>A record sent for the first time.\<close>

lemma rtx_ok_add:
  assumes ok: "rtx_ok E rs" and i: "i < length E" "isValid (E ! i)" and r: "r_epoch r = epochNumber (E ! i)"
      "r_seq r = [nextSeqNumber (E ! i), 0, 0]" "r_rnIdx r = 1"
    and room: "seq_room (Suc n) E" and uniq: "one_slot E"
  shows "rtx_ok (bump i E) (rs @ [r])"
proof -
  have t: "tracked r = {(r_epoch r, nextSeqNumber (E ! i))}" using r by (simp add: tracked_def)
  define r0 where "r0 = r\<lparr>r_rnIdx := 0\<rparr>"
  have "rtx_rec_ok E r0" using r(2) by (simp add: rtx_rec_ok_def r0_def)
  then have new: "rtx_rec_ok (bump i E) r"
    by (rule rec_ok_new[OF room i(1) _ _ _ _ _ i(2) uniq, rotated 2]) (use t r in simp_all)
  have others: "rtx_rec_ok (bump i E) x" if "x \<in> set rs" for x
    using ok that rtx_rec_ok_bump[OF _ room i(1)] by (auto simp: rtx_ok_def)
  have dis: "tracked x \<inter> tracked r = {}" if "x \<in> set rs" for x
    using ok that next_seq_fresh[of E x i] i t r(1) by (auto simp: rtx_ok_def)
  show ?thesis using ok new others dis unfolding rtx_ok_def rtx_unique_append by (auto simp: rtx_unique_def)
qed

lemma rtx_ok_bump: "rtx_ok E rs \<Longrightarrow> seq_room (Suc n) E \<Longrightarrow> i < length E \<Longrightarrow> rtx_ok (bump i E) rs"
  using rtx_rec_ok_bump by (auto simp: rtx_ok_def)

text \<open>The encryption epoch is a valid slot.\<close>

definition enc_valid :: "WOLFSSL \<Rightarrow> bool" where
  "enc_valid s \<longleftrightarrow> dtls13EncryptEpoch (epochs s) \<noteq> None \<and>
     the (dtls13EncryptEpoch (epochs s)) < length (dtls13Epochs (epochs s)) \<and> isValid (encrypt_epoch s)"

definition tx_inv :: "WOLFSSL \<Rightarrow> bool" where
  "tx_inv s \<longleftrightarrow> rtx_inv s \<and> enc_valid s \<and> one_slot (dtls13Epochs (epochs s))"

lemma tx_inv_cong:
  "dtls13Epochs (epochs s') = dtls13Epochs (epochs s) \<Longrightarrow> dtls13EncryptEpoch (epochs s') = dtls13EncryptEpoch (epochs s) \<Longrightarrow>
   rtxRecords (dtls13Rtx s') = rtxRecords (dtls13Rtx s) \<Longrightarrow> tx_inv s' = tx_inv s"
  by (simp add: tx_inv_def rtx_inv_def enc_valid_def encrypt_epoch_def)

lemma tx_inv_same: "same_tx s s' \<Longrightarrow> tx_inv s' = tx_inv s"
  by (rule tx_inv_cong) (simp_all add: same_tx_def)

lemma tx_inv_records: "tx_inv s \<Longrightarrow> rtx_ok (dtls13Epochs (epochs s)) rs \<Longrightarrow> tx_inv (set_rtxRecords rs s)"
  by (simp add: tx_inv_def rtx_inv_def enc_valid_def encrypt_epoch_def set_rtxRecords_def)

lemma tx_inv_filter: "tx_inv s \<Longrightarrow> tx_inv (set_rtxRecords (filter P (rtxRecords (dtls13Rtx s))) s)"
  by (rule tx_inv_records) (auto simp: tx_inv_def rtx_inv_def rtx_ok_def rtx_unique_filter)

lemma tx_inv_effect:
  assumes inv: "tx_inv s" and i: "dtls13EncryptEpoch (epochs s) = Some i" and eff: "sent_effect i ok s s'"
    and room: "seq_room (Suc n) (dtls13Epochs (epochs s))"
  shows "tx_inv s'"
proof -
  have "i < length (dtls13Epochs (epochs s))" using inv i by (simp add: tx_inv_def enc_valid_def)
  then show ?thesis
    using inv eff i rtx_ok_bump[OF _ room, of _ i] unfolding tx_inv_def rtx_inv_def enc_valid_def encrypt_epoch_def sent_effect_def by auto
qed

text \<open>Sending a new message.\<close>

lemma SendOneFragmentRtx_inv:
  assumes inv: "tx_inv s" and room: "seq_room (Suc n) (dtls13Epochs (epochs s))"
    and r: "Dtls13SendOneFragmentRtx gcm aes loc ht sz msg hash s = (rc, s')"
  shows "tx_inv s'"
proof -
  obtain i where i: "dtls13EncryptEpoch (epochs s) = Some i" "i < length (dtls13Epochs (epochs s))" "isValid (dtls13Epochs (epochs s) ! i)"
    using inv by (auto simp: tx_inv_def enc_valid_def encrypt_epoch_def)
  let ?hl = "Dtls13GetRlHeaderLength (Dtls13TypeIsEncrypted ht)"
  obtain q t where q: "(if ht \<noteq> hello_retry_request then Dtls13RtxNewRecord (drop ?hl msg) ht (nextSeqNumber (encrypt_epoch s)) s
      else (None, s)) = (q, t)" by fastforce
  have t: "same_tx s t"
    using q i(1) xmalloc_same same_tx_trans by (auto simp: Dtls13RtxNewRecord_def split: if_splits option.splits) blast+
  have qr: "r_epoch x = epochNumber (dtls13Epochs (epochs s) ! i)" "r_seq x = [nextSeqNumber (dtls13Epochs (epochs s) ! i), 0, 0]" "r_rnIdx x = 1"
    if "q = Some x" for x
    using q i(1) that xmalloc_same
    by (auto simp: Dtls13RtxNewRecord_def encrypt_epoch_def xmalloc_def numeral_3_eq_3 split: if_splits option.splits)
  have it: "dtls13EncryptEpoch (epochs t) = Some i" using t i by (simp add: same_tx_def)
  obtain rc' u where f: "Dtls13SendFragment gcm aes loc msg sz ht hash (Dtls13SendNow ht t) t = (rc', u)" by fastforce
  have eff: "sent_effect i (rc' = RC_OK \<or> rc' = WANT_WRITE) s u"
    by (rule sent_effect_pre[OF t SendFragment_effect[OF it f]])
  have iu: "tx_inv u" by (rule tx_inv_effect[OF inv i(1) eff room])
  have cases: "s' = t \<or> s' = u \<or> (\<exists>x. q = Some x \<and> (rc' = RC_OK \<or> rc' = WANT_WRITE) \<and> s' = Dtls13RtxAddRecord x u)"
    using r q f unfolding Dtls13SendOneFragmentRtx_def Let_def by (auto split: if_splits option.splits)
  moreover have "tx_inv (Dtls13RtxAddRecord x u)" if x: "q = Some x" "rc' = RC_OK \<or> rc' = WANT_WRITE" for x
  proof -
    have u: "dtls13Epochs (epochs u) = bump i (dtls13Epochs (epochs s))" "rtxRecords (dtls13Rtx u) = rtxRecords (dtls13Rtx s)"
      using eff x(2) by (auto simp: sent_effect_def)
    have "rtx_ok (bump i (dtls13Epochs (epochs s))) (rtxRecords (dtls13Rtx s) @ [x])"
      using inv rtx_ok_add[OF _ i(2,3) qr(1,2,3)[OF x(1)] room] by (simp add: tx_inv_def rtx_inv_def)
    then show ?thesis
      using iu u by (simp add: tx_inv_def rtx_inv_def enc_valid_def encrypt_epoch_def Dtls13RtxAddRecord_def)
  qed
  ultimately show ?thesis using iu tx_inv_same[OF t] inv by blast
qed

text \<open>The retransmission loop.\<close>

lemma rtx_loop_inv:
  "tx_inv s \<Longrightarrow> rtxRecords (dtls13Rtx s) = pre @ rs \<Longrightarrow> seq_room (length rs) (dtls13Epochs (epochs s)) \<Longrightarrow>
   tx_inv (snd (rtx_loop g f gcm aes pre rs s))"
proof (induction rs arbitrary: pre s)
  case (Cons r post)
  define hl sz where "hl = Dtls13GetRlHeaderLength (\<not> w64IsZero (r_epoch r))"
    and "sz = length (r_data r) + hl + (if \<not> w64IsZero (r_epoch r) then MAX_MSG_EXTRA else 0)"
  obtain rc1 s1 where c: "CheckAvailableSize (int sz) s = (rc1, s1)" by fastforce
  have s1: "same_tx s s1" using CheckAvailableSize_same[of s "int sz"] c by simp
  obtain rc2 s2 where k: "(if \<not> w64Equal (epochNumber (encrypt_epoch s1)) (r_epoch r)
      then Dtls13SetEpochKeys g f (r_epoch r) ENCRYPT_SIDE_ONLY s1 else (RC_OK, s1)) = (rc2, s2)" by fastforce
  obtain rc3 s3 where x: "Dtls13SendFragment gcm aes In_output_buffer (replicate hl 0 @ r_data r) sz (r_handshakeType r) False
      (post = [] \<or> \<not> groupMessages (options s2)) s2 = (rc3, s3)" by fastforce
  let ?r = "track_seq (nextSeqNumber (encrypt_epoch s2)) r"
  have run: "rtx_loop g f gcm aes pre (r # post) s =
      (if rc1 \<noteq> RC_OK then (rc1, s1) else if rc2 \<noteq> RC_OK then (rc2, s2)
       else if rc3 \<noteq> RC_OK \<and> rc3 \<noteq> WANT_WRITE then (rc3, s3)
       else if rc3 = WANT_WRITE then (rc3, set_rtxRecords (pre @ post @ [?r]) s3)
       else rtx_loop g f gcm aes (pre @ [?r]) post (set_rtxRecords (pre @ ?r # post) s3))"
    unfolding rtx_loop.simps Let_def hl_def[symmetric] sz_def[symmetric] c prod.case k x by simp
  have i1: "tx_inv s1" using tx_inv_same[OF s1] Cons.prems(1) by simp
  have s2: "dtls13Epochs (epochs s2) = dtls13Epochs (epochs s)" "dtls13Rtx s2 = dtls13Rtx s"
    using k SetEpochKeys_enc(1,2)[of g f "r_epoch r" s1 rc2 s2] s1 by (auto simp: same_tx_def split: if_splits)
  have sel: "dtls13EncryptEpoch (epochs s2) = dtls13EncryptEpoch (epochs s1) \<and> (rc2 = RC_OK \<longrightarrow> epochNumber (encrypt_epoch s1) = r_epoch r) \<or>
      (\<exists>i<length (dtls13Epochs (epochs s1)). dtls13EncryptEpoch (epochs s2) = Some i \<and>
        isValid (dtls13Epochs (epochs s1) ! i) \<and> epochNumber (dtls13Epochs (epochs s1) ! i) = r_epoch r)"
    using k SetEpochKeys_enc(5)[of g f "r_epoch r" s1 rc2 s2] by (auto split: if_splits)
  have e1: "dtls13Epochs (epochs s1) = dtls13Epochs (epochs s)" using s1 by (simp add: same_tx_def)
  have i2: "tx_inv s2"
    using sel i1 s2 e1 s1 unfolding tx_inv_def rtx_inv_def enc_valid_def encrypt_epoch_def same_tx_def by auto
  obtain i where i: "dtls13EncryptEpoch (epochs s2) = Some i" "i < length (dtls13Epochs (epochs s2))" "isValid (dtls13Epochs (epochs s2) ! i)"
    using i2 by (auto simp: tx_inv_def enc_valid_def encrypt_epoch_def)
  have room: "seq_room (Suc (length post)) (dtls13Epochs (epochs s2))" using Cons.prems(3) s2(1) by simp
  have eff: "sent_effect i (rc3 = RC_OK \<or> rc3 = WANT_WRITE) s2 s3" by (rule SendFragment_effect[OF i(1) x])
  have i3: "tx_inv s3" by (rule tx_inv_effect[OF i2 i(1) eff room])
  show ?case
  proof (cases "rc2 = RC_OK \<and> (rc3 = RC_OK \<or> rc3 = WANT_WRITE)")
    case False
    then show ?thesis unfolding run using i1 i2 i3 by auto
  next
    case True
    have num: "epochNumber (dtls13Epochs (epochs s2) ! i) = r_epoch r"
      using sel True i(1) s2(1) e1 by (auto simp: encrypt_epoch_def) (metis option.sel)+
    have ok: "rtx_ok (dtls13Epochs (epochs s2)) (pre @ r # post)"
      using i2 s2(2) Cons.prems(2) by (simp add: tx_inv_def rtx_inv_def)
    have e3: "dtls13Epochs (epochs s3) = bump i (dtls13Epochs (epochs s2))" using eff True by (auto simp: sent_effect_def)
    have new: "rtx_ok (dtls13Epochs (epochs s3)) (pre @ ?r # post)"
      using rtx_ok_track[OF ok i(2,3) num room] i2 i(1) unfolding e3 by (simp add: tx_inv_def encrypt_epoch_def)
    have room3: "seq_room (length post) (dtls13Epochs (epochs (set_rtxRecords (pre @ ?r # post) s3)))"
      using seq_room_bump[OF room i(2)] e3 by (simp add: set_rtxRecords_def)
    have "tx_inv (snd (rtx_loop g f gcm aes (pre @ [?r]) post (set_rtxRecords (pre @ ?r # post) s3)))"
      by (rule Cons.IH[OF tx_inv_records[OF i3 new] _ room3]) (simp add: set_rtxRecords_def)
    then show ?thesis
      unfolding run using True i1 tx_inv_records[OF i3 rtx_ok_move[OF new]] by auto
  qed
qed simp

text \<open>Selecting another epoch keeps the invariant.\<close>

lemma SetEpochKeys_inv:
  assumes "tx_inv s" "Dtls13SetEpochKeys g f n ENCRYPT_SIDE_ONLY s = (rc, s')"
  shows "tx_inv s'" "dtls13Epochs (epochs s') = dtls13Epochs (epochs s)" "dtls13Rtx s' = dtls13Rtx s"
proof -
  show e: "dtls13Epochs (epochs s') = dtls13Epochs (epochs s)" "dtls13Rtx s' = dtls13Rtx s"
    using SetEpochKeys_enc(1,2)[OF assms(2)] by simp_all
  show "tx_inv s'"
    using SetEpochKeys_enc(5)[OF assms(2)] e assms(1)
    unfolding tx_inv_def rtx_inv_def enc_valid_def encrypt_epoch_def by auto
qed

lemma WriteAck_same: "Dtls13WriteAckMessage l s = Some (r, s') \<Longrightarrow> same_tx s s'"
proof -
  assume w: "Dtls13WriteAckMessage l s = Some (r, s')"
  have "s' = s \<or> (\<exists>n. s' = snd (CheckAvailableSize n s))"
    using w unfolding Dtls13WriteAckMessage_def Let_def
    by (auto simp: split_beta split: option.splits if_splits)
  then show ?thesis using CheckAvailableSize_same by auto
qed

lemma FlushAcks_inv [simp]: "tx_inv (Dtls13RtxFlushAcks s) = tx_inv s"
  by (rule tx_inv_cong) (simp_all add: Dtls13RtxFlushAcks_def)

lemma out_append_inv [simp]: "tx_inv (out_append bs s) = tx_inv s"
  by (rule tx_inv_cong) (simp_all add: out_append_def)

lemma SendBuffered_inv [simp]: "tx_inv (snd (SendBuffered s)) = tx_inv s"
  by (rule tx_inv_same[OF SendBuffered_same])

definition few_sent :: "Dtls13Epoch list \<Rightarrow> WOLFSSL \<Rightarrow> bool" where
  "few_sent E s \<longleftrightarrow> dtls13Epochs (epochs s) = E \<or> (\<exists>i<length E. dtls13Epochs (epochs s) = bump i E)"

lemma few_sent_room: "few_sent E s \<Longrightarrow> seq_room (Suc n) E \<Longrightarrow> seq_room n (dtls13Epochs (epochs s))"
  using seq_room_bump by (auto simp: few_sent_def) (auto simp: seq_room_def)

lemma ack_send_inv:
  assumes inv: "tx_inv s" and room: "seq_room (Suc n) (dtls13Epochs (epochs s))"
  shows "tx_inv (snd (ack_send gcm aes len msg s))" "few_sent (dtls13Epochs (epochs s)) (snd (ack_send gcm aes len msg s))"
    "rtxRecords (dtls13Rtx (snd (ack_send gcm aes len msg s))) = rtxRecords (dtls13Rtx s)"
proof -
  obtain i where i: "dtls13EncryptEpoch (epochs s) = Some i" "i < length (dtls13Epochs (epochs s))"
    using inv by (auto simp: tx_inv_def enc_valid_def)
  have flush: "snd (SendBuffered (Dtls13RtxFlushAcks (out_append bs t))) = t\<lparr>outbuf := ob, dtls13Rtx := (dtls13Rtx t)\<lparr>seenRecords := []\<rparr>\<rparr>"
    if "ob = snd (send_buffered (outbuf (Dtls13RtxFlushAcks (out_append bs t))))" for bs t ob
    using that by (simp add: SendBuffered_def split_beta Dtls13RtxFlushAcks_def out_append_def)
  obtain t ok where t: "sent_effect i ok s t"
      and fin: "snd (ack_send gcm aes len msg s) = t \<or> (\<exists>bs. snd (ack_send gcm aes len msg s) = snd (SendBuffered (Dtls13RtxFlushAcks (out_append bs t))))"
  proof (cases "w64IsZero (epochNumber (encrypt_epoch s))")
    case True
    obtain rc hdr t where h: "Dtls13RlAddPlaintextHeader ack (of_nat len) s = (rc, hdr, t)" by (metis prod_cases3)
    have t: "t = sent_one i s" using PlaintextHeader_effect[OF i(1), of ack "of_nat len"] h by simp
    show thesis
      by (rule that[OF sent_one_effect[OF i(1), of True]]) (use True h t in \<open>auto simp: ack_send_def simp del: ack_def\<close>)
  next
    case False
    obtain r t where b: "BuildTls13Message gcm aes (unat (out_room (outbuf s))) (take len msg) ack s = (r, t)" by fastforce
    show thesis
      by (rule that[OF BuildTls13Message_effect[OF i(1) b]]) (use False b in \<open>auto simp: ack_send_def split: sum.splits\<close>)
  qed
  have it: "tx_inv t" by (rule tx_inv_effect[OF inv i(1) t room])
  have ft: "few_sent (dtls13Epochs (epochs s)) t" using t i(2) by (auto simp: few_sent_def sent_effect_def)
  show "tx_inv (snd (ack_send gcm aes len msg s))" using fin it by auto
  show "few_sent (dtls13Epochs (epochs s)) (snd (ack_send gcm aes len msg s))" using fin ft flush by (auto simp: few_sent_def)
  show "rtxRecords (dtls13Rtx (snd (ack_send gcm aes len msg s))) = rtxRecords (dtls13Rtx s)"
    using fin t flush by (auto simp: sent_effect_def)
qed

lemma SendDtls13Ack_inv:
  assumes inv: "tx_inv s" and room: "seq_room (Suc n) (dtls13Epochs (epochs s))"
    and r: "SendDtls13Ack g f gcm aes s = Some (rc, s')"
  shows "tx_inv s'" "few_sent (dtls13Epochs (epochs s)) s'" "rtxRecords (dtls13Rtx s') = rtxRecords (dtls13Rtx s)"
proof -
  obtain i where i: "dtls13EncryptEpoch (epochs s) = Some i" using inv by (auto simp: tx_inv_def enc_valid_def)
  obtain rc1 s1 where k: "(if opt_side (options s) = WOLFSSL_SERVER_END \<and> \<not> handShakeDone (options s) \<and>
                    w64GTE (dtls13Epoch (epochs s)) (w64From32 0 DTLS13_EPOCH_TRAFFIC0)
                 then Dtls13SetEpochKeys g f (w64From32 0 DTLS13_EPOCH_HANDSHAKE) ENCRYPT_SIDE_ONLY s
                 else if \<not> w64Equal (dtls13Epoch (epochs s)) (epochNumber (dtls13Epochs (epochs s) ! i))
                 then Dtls13SetEpochKeys g f (dtls13Epoch (epochs s)) ENCRYPT_SIDE_ONLY s
                 else (RC_OK, s)) = (rc1, s1)" by fastforce
  have s1: "tx_inv s1" "dtls13Epochs (epochs s1) = dtls13Epochs (epochs s)" "dtls13Rtx s1 = dtls13Rtx s"
    using k SetEpochKeys_inv[OF inv, of g f _ rc1 s1] inv by (auto split: if_splits)
  have run: "(if rc1 \<noteq> RC_OK then Some (rc1, s1) else
      do { (q, t) \<leftarrow> Dtls13WriteAckMessage (seenRecords (dtls13Rtx s1)) s1;
           (case q of Inl e \<Rightarrow> Some (e, t) | Inr (len, msg) \<Rightarrow> Some (ack_send gcm aes len msg t)) }) = Some (rc, s')"
    using r unfolding SendDtls13Ack_def i option.case k prod.case .
  have "s' = s1 \<or> (\<exists>t. same_tx s1 t \<and> (s' = t \<or> (\<exists>len msg. s' = snd (ack_send gcm aes len msg t))))"
  proof (cases "rc1 = RC_OK")
    case True
    then obtain q t where w: "Dtls13WriteAckMessage (seenRecords (dtls13Rtx s1)) s1 = Some (q, t)"
        and c: "(case q of Inl e \<Rightarrow> Some (e, t) | Inr (len, msg) \<Rightarrow> Some (ack_send gcm aes len msg t)) = Some (rc, s')"
      using run by (auto simp: bind_eq_Some_conv)
    have "s' = t \<or> (\<exists>len msg. s' = snd (ack_send gcm aes len msg t))"
    proof (cases q)
      case (Inr p)
      then have "ack_send gcm aes (fst p) (snd p) t = (rc, s')" using c by (simp add: split_beta)
      then show ?thesis by (metis snd_conv)
    qed (use c in simp)
    then show ?thesis using WriteAck_same[OF w] by blast
  qed (use run in simp)
  moreover have "tx_inv t \<and> few_sent (dtls13Epochs (epochs s)) t \<and> rtxRecords (dtls13Rtx t) = rtxRecords (dtls13Rtx s) \<and>
      tx_inv (snd (ack_send gcm aes len msg t)) \<and> few_sent (dtls13Epochs (epochs s)) (snd (ack_send gcm aes len msg t)) \<and>
      rtxRecords (dtls13Rtx (snd (ack_send gcm aes len msg t))) = rtxRecords (dtls13Rtx s)" if "same_tx s1 t" for t len msg
    using ack_send_inv[of t n gcm aes len msg] tx_inv_same[OF that] s1 that room by (auto simp: same_tx_def few_sent_def)
  ultimately show "tx_inv s'" "few_sent (dtls13Epochs (epochs s)) s'" "rtxRecords (dtls13Rtx s') = rtxRecords (dtls13Rtx s)"
    using s1 by (auto simp: few_sent_def)
qed

text \<open>Removing records.\<close>

lemma rtx_ok_remove: "rtx_ok E (pre @ r # post) \<Longrightarrow> rtx_ok E (pre @ post)"
  unfolding rtx_ok_def rtx_unique_append rtx_unique_Cons by auto

lemma extract_inv:
  assumes "tx_inv s" "List.extract P (rtxRecords (dtls13Rtx s)) = Some (pre, r, post)"
  shows "tx_inv (set_rtxRecords (pre @ post) s)"
proof -
  have "rtxRecords (dtls13Rtx s) = pre @ r # post" using assms(2) by (simp add: extract_Some_iff)
  then show ?thesis using assms(1) rtx_ok_remove by (intro tx_inv_records) (auto simp: tx_inv_def rtx_inv_def)
qed

lemma MaybeSaveClientHello_inv: "tx_inv s \<Longrightarrow> tx_inv (Dtls13MaybeSaveClientHello s)"
proof -
  assume inv: "tx_inv s"
  have "tx_inv ((set_rtxRecords (pre @ post) s)\<lparr>dtls13ClientHello := c\<rparr>)"
    if "List.extract P (rtxRecords (dtls13Rtx s)) = Some (pre, r, post)" for P pre r post c
    using extract_inv[OF inv that] by (subst tx_inv_cong[of _ "set_rtxRecords (pre @ post) s"]) simp_all
  then show ?thesis using inv unfolding Dtls13MaybeSaveClientHello_def by (auto split: option.splits)
qed

lemma tx_inv_rtx [simp]:
  "tx_inv (s\<lparr>dtls13Rtx := (dtls13Rtx s)\<lparr>retransmit := a, sendAcks := b\<rparr>\<rparr>) = tx_inv s"
  "tx_inv (s\<lparr>dtls13Rtx := (dtls13Rtx s)\<lparr>sendAcks := b\<rparr>\<rparr>) = tx_inv s"
  "tx_inv (s\<lparr>dtls13Rtx := (dtls13Rtx s)\<lparr>retransmit := b\<rparr>\<rparr>) = tx_inv s"
  "tx_inv (s\<lparr>dtls13Rtx := (dtls13Rtx s)\<lparr>seenRecords := l\<rparr>\<rparr>) = tx_inv s"
  "tx_inv (s\<lparr>timers := tm\<rparr>) = tx_inv s" "tx_inv (s\<lparr>flags := fl\<rparr>) = tx_inv s" "tx_inv (s\<lparr>options := op\<rparr>) = tx_inv s"
  by (rule tx_inv_cong; simp)+

lemma RtxMsgRecvd_inv:
  assumes "tx_inv s"
  shows "tx_inv (Dtls13RtxMsgRecvd hs off s)"
proof -
  have reset: "tx_inv (DtlsMsgPoolReset t)" if "tx_inv t" for t
    using that tx_inv_filter by (simp add: DtlsMsgPoolReset_def Dtls13RtxFlushBuffered_def)
  have cur: "tx_inv (Dtls13RtxRemoveCurAck t)" if "tx_inv t" for t
    using that by (simp add: Dtls13RtxRemoveCurAck_def)
  define s1 where "s1 = (if \<not> handShakeDone (options s) \<and> dtls_expected_peer_handshake_number (keys s) \<le> dtls_peer_handshake_number (keys s)
      then (let t = (if hs = server_hello then Dtls13MaybeSaveClientHello s else s)
            in if SERVER_HELLO_COMPLETE \<le> serverState (options t) \<or> seenUnifiedHdr (options t) then DtlsMsgPoolReset t else t) else s)"
  have s1: "tx_inv s1" using assms MaybeSaveClientHello_inv[OF assms] reset by (simp add: s1_def Let_def)
  define s2 where "s2 = (if dtls_peer_handshake_number (keys s) < dtls_expected_peer_handshake_number (keys s)
      then s1\<lparr>dtls13Rtx := (dtls13Rtx s1)\<lparr>retransmit := True, sendAcks := seenRecords (dtls13Rtx s1) \<noteq> [] \<or> sendAcks (dtls13Rtx s1)\<rparr>\<rparr> else s1)"
  have s2: "tx_inv s2" using s1 by (simp add: s2_def)
  define s3 where "s3 = (if dtls_peer_handshake_number (keys s) = dtls_expected_peer_handshake_number (keys s) \<and>
      handShakeDone (options s2) \<and> hs = certificate_request then Dtls13RtxRemoveCurAck s2 else s2)"
  have s3: "tx_inv s3" using s2 cur by (simp add: s3_def)
  show ?thesis
    using s3 unfolding Dtls13RtxMsgRecvd_def Let_def s1_def[unfolded Let_def, symmetric] s2_def[symmetric] s3_def[symmetric] by simp
qed

lemma rtx_remove_inv: "rtx_ok E rs \<Longrightarrow> rtx_ok E (rtx_remove e s rs)"
  using rtx_remove_filter[of rs e s] rtx_unique_filter[of rs] by (auto simp: rtx_ok_def)

lemma ack_loop_inv: "tx_inv s \<Longrightarrow> tx_inv (ack_loop m s)"
proof (induction m s rule: ack_loop.induct)
  case (1 m s)
  have "tx_inv (Dtls13RtxRemoveRecord a b s)" for a b
    using 1(2) unfolding Dtls13RtxRemoveRecord_def by (intro tx_inv_records rtx_remove_inv) (simp_all add: tx_inv_def rtx_inv_def)
  then show ?case using 1 by (subst ack_loop.simps) simp
qed

lemma DoDtls13Ack_inv:
  assumes "tx_inv s" "\<not> dtls13WaitKeyUpdateAck (flags s)"
  shows "tx_inv (snd (DoDtls13Ack g f derive input s))"
proof -
  define m where "m = take (unat (ato16 input)) (drop 2 input)"
  have a: "flags (ack_loop n t) = flags t" for n t
    by (induction n t rule: ack_loop.induct) (subst ack_loop.simps, simp add: Dtls13RtxRemoveRecord_def set_rtxRecords_def)
  have i: "tx_inv (ack_loop m s)" using ack_loop_inv[OF assms(1)] .
  show ?thesis
    unfolding DoDtls13Ack_def Let_def m_def[symmetric] using assms i by (simp add: a)
qed

lemma RtxSendBuffered_inv:
  "tx_inv s \<Longrightarrow> seq_room (length (rtxRecords (dtls13Rtx s))) (dtls13Epochs (epochs s)) \<Longrightarrow>
   tx_inv (snd (Dtls13RtxSendBuffered g f gcm aes s))"
  unfolding Dtls13RtxSendBuffered_def by (rule rtx_loop_inv) simp_all

lemma RtxTimeout_inv:
  assumes inv: "tx_inv s" and room: "seq_room (Suc (length (rtxRecords (dtls13Rtx s)))) (dtls13Epochs (epochs s))"
    and r: "Dtls13RtxTimeout g f gcm aes s = Some (rc, s')"
  shows "tx_inv s'"
proof -
  let ?s0 = "s\<lparr>dtls13Rtx := (dtls13Rtx s)\<lparr>sendAcks := False\<rparr>, timers := (timers s)\<lparr>dtls13FastTimeout := False\<rparr>\<rparr>"
  obtain rc1 s1 where s1: "(if seenRecords (dtls13Rtx s) \<noteq> [] \<and> (SERVER_HELLO_COMPLETE \<le> serverState (options s) \<or> seenUnifiedHdr (options s))
      then SendDtls13Ack g f gcm aes ?s0 else Some (RC_OK, s)) = Some (rc1, s1)"
    and rest: "(if rc1 \<noteq> RC_OK then Some (rc1, s1) else if dtls13FastTimeout (timers s1)
      then Some (RC_OK, s1\<lparr>timers := (timers s1)\<lparr>dtls13FastTimeout := False\<rparr>\<rparr>)
      else (case DtlsMsgPoolTimeout s1 of (ok, t) \<Rightarrow> if \<not> ok then Some (WOLFSSL_FATAL_ERROR, t) else Some (Dtls13RtxSendBuffered g f gcm aes t))) = Some (rc, s')"
    using r unfolding Dtls13RtxTimeout_def by (auto simp: bind_eq_Some_conv)
  have i0: "tx_inv ?s0" using inv by (simp add: tx_inv_cong[of ?s0 s])
  have p1: "tx_inv s1" "seq_room (length (rtxRecords (dtls13Rtx s1))) (dtls13Epochs (epochs s1))"
  proof -
    have "tx_inv s1 \<and> few_sent (dtls13Epochs (epochs s)) s1 \<and> rtxRecords (dtls13Rtx s1) = rtxRecords (dtls13Rtx s)"
      using s1 SendDtls13Ack_inv[OF i0 _, of _ g f gcm aes rc1 s1] room inv by (auto simp: few_sent_def split: if_splits)
    then show "tx_inv s1" "seq_room (length (rtxRecords (dtls13Rtx s1))) (dtls13Epochs (epochs s1))"
      using few_sent_room[OF _ room] by auto
  qed
  obtain ok t where t: "DtlsMsgPoolTimeout s1 = (ok, t)" by fastforce
  have it: "tx_inv t" "rtxRecords (dtls13Rtx t) = rtxRecords (dtls13Rtx s1)" "epochs t = epochs s1"
    using t p1(1) by (auto simp: DtlsMsgPoolTimeout_def split: if_splits)
  have "s' \<in> {s1, s1\<lparr>timers := (timers s1)\<lparr>dtls13FastTimeout := False\<rparr>\<rparr>, t, snd (Dtls13RtxSendBuffered g f gcm aes t)}"
    using rest t by (auto split: if_splits)
  then show ?thesis using p1 it RtxSendBuffered_inv[OF it(1), of g f gcm aes] by auto
qed

section \<open>The state machine of sending and acknowledging\<close>

text \<open>
  What happens to the records of a connection while its epochs stay: messages are sent, messages and ACKs
  arrive, timers run out and records are sent again, in any order and with any result.  No counter is about
  to wrap, and an acknowledged key update, which opens a new epoch, is not part of it.
\<close>

inductive rtx_step :: "(bytes \<Rightarrow> wolf_rc) \<Rightarrow> (bytes \<Rightarrow> wolf_rc) \<Rightarrow> gcm \<Rightarrow> (bytes \<Rightarrow> bytes \<Rightarrow> wolf_rc + bytes) \<Rightarrow> WOLFSSL \<Rightarrow> WOLFSSL \<Rightarrow> bool"
  for gcm_set aes_init gcm_encrypt aes where
  send: "seq_room (Suc (length (rtxRecords (dtls13Rtx s)))) (dtls13Epochs (epochs s)) \<Longrightarrow>
    Dtls13SendOneFragmentRtx gcm_encrypt aes loc ht sz msg hash s = (rc, s') \<Longrightarrow> rtx_step gcm_set aes_init gcm_encrypt aes s s'"
| resend: "seq_room (Suc (length (rtxRecords (dtls13Rtx s)))) (dtls13Epochs (epochs s)) \<Longrightarrow>
    Dtls13RtxSendBuffered gcm_set aes_init gcm_encrypt aes s = (rc, s') \<Longrightarrow> rtx_step gcm_set aes_init gcm_encrypt aes s s'"
| timeout: "seq_room (Suc (length (rtxRecords (dtls13Rtx s)))) (dtls13Epochs (epochs s)) \<Longrightarrow>
    Dtls13RtxTimeout gcm_set aes_init gcm_encrypt aes s = Some (rc, s') \<Longrightarrow> rtx_step gcm_set aes_init gcm_encrypt aes s s'"
| send_ack: "seq_room (Suc (length (rtxRecords (dtls13Rtx s)))) (dtls13Epochs (epochs s)) \<Longrightarrow>
    SendDtls13Ack gcm_set aes_init gcm_encrypt aes s = Some (rc, s') \<Longrightarrow> rtx_step gcm_set aes_init gcm_encrypt aes s s'"
| ack_recvd: "\<not> dtls13WaitKeyUpdateAck (flags s) \<Longrightarrow> DoDtls13Ack gcm_set aes_init derive input s = (r, s') \<Longrightarrow>
    rtx_step gcm_set aes_init gcm_encrypt aes s s'"
| msg_recvd: "Dtls13RtxMsgRecvd hs off s = s' \<Longrightarrow> rtx_step gcm_set aes_init gcm_encrypt aes s s'"
| record_recvd: "Dtls13RecordRecvd ty s = (rc, s') \<Longrightarrow> rtx_step gcm_set aes_init gcm_encrypt aes s s'"

lemma AddAck_inv: "tx_inv s \<Longrightarrow> tx_inv (snd (Dtls13RtxAddAck e q s))"
  using tx_inv_same[OF xmalloc_same, of s] by (auto simp: Dtls13RtxAddAck_def split: option.splits)

lemma rtx_step_inv: "rtx_step gcm_set aes_init gcm_encrypt aes s s' \<Longrightarrow> tx_inv s \<Longrightarrow> tx_inv s'"
proof (induction rule: rtx_step.induct)
  case (send s loc ht sz msg hash rc s')
  then show ?case using SendOneFragmentRtx_inv by blast
next
  case (resend s rc s')
  have "seq_room (length (rtxRecords (dtls13Rtx s))) (dtls13Epochs (epochs s))" using resend(1) by (auto simp: seq_room_def)
  then show ?case using RtxSendBuffered_inv[of s gcm_set aes_init gcm_encrypt aes] resend by simp
next
  case (timeout s rc s')
  then show ?case using RtxTimeout_inv by blast
next
  case (send_ack s rc s')
  then show ?case using SendDtls13Ack_inv(1) by blast
next
  case (ack_recvd s derive input r s')
  then show ?case using DoDtls13Ack_inv[of s gcm_set aes_init derive input] by simp
next
  case (msg_recvd hs off s s')
  then show ?case using RtxMsgRecvd_inv by blast
next
  case (record_recvd ty s rc s')
  then show ?case
    using AddAck_inv[of s] AddAck_inv[of "s\<lparr>timers := (timers s)\<lparr>dtls13FastTimeout := True\<rparr>\<rparr>"]
    by (auto simp: Dtls13RecordRecvd_def Let_def split: if_splits) (metis snd_conv)+
qed

section \<open>Property\<close>


definition hello_sent :: WOLFSSL where
  "hello_sent = Dtls13RtxMsgRecvd hello_verify_request 0
     (snd (Dtls13SendOneFragmentRtx (\<lambda>k n a p. Inr p) (\<lambda>k b. Inr b) In_output_buffer client_hello 100 (replicate 30 0) True fresh_ssl))"


end
