(* ===== verification/Dtls13Handshake.thy ===== *)
theory Dtls13Handshake
  imports Dtls13Rtx DtlsReassembly
begin

text \<open>
  Reception of handshake messages (\<open>src/dtls13.c\<close>): sanity checks, reassembly, and the delivery of the
  messages to the TLS 1.3 state machine in the order of their message numbers.

  \<open>RxState\<close> is the receiving half of the connection object: the input buffer, the header of the current
  record and the state of \<open>DoProcessReplyEx\<close>.  The message handlers of \<open>tls13.c\<close> and \<open>internal.c\<close> and the
  sending of alerts are parameters, the functions of a record \<open>Handlers\<close>.  A message handler gets the
  message's bytes, its type and the index the body starts at, and returns its status and the index behind
  the message.

  The log \<open>handed\<close> is not part of the program: it records every call of the message handler with the
  message number, type and body, and whether the message was counted as processed.
\<close>

section \<open>State\<close>

datatype processReply =
    doProcessInit | getRecordLayerHeader | getData | verifyEncryptedMessage | decryptMessage | verifyMessage
  | runProcessingOneRecord | runProcessingOneMessage

type_synonym delivery = "u32 \<times> u8 \<times> cell list \<times> bool"

record RxState =
  conn :: WOLFSSL
  in_buf :: bytes
  in_idx :: nat
  in_bufferSize :: nat
  in_dynamic :: bool
  curRL :: RecordLayerHeader
  curSize :: nat
  curStartIdx :: nat
  dtls13CurRL :: bytes
  decryptedCur :: bool
  replyState :: processReply
  ssl_error :: wolf_rc
  dtlsHsRetain :: bool
  got_change_cipher :: bool
  got_client_hello :: bool
  keyUpdateRespond :: bool
  has_devId :: bool
  disableRead :: bool
  downgrade :: bool
  alertCount :: nat
  isClosed :: bool
  closeNotify :: bool
  net_in :: "(wolf_rc + bytes) list"
  clearOutputBuffer :: bytes
  handed :: "delivery list"

abbreviation expected_num :: "RxState \<Rightarrow> u16" where
  "expected_num st \<equiv> dtls_expected_peer_handshake_number (keys (conn st))"

abbreviation peer_num :: "RxState \<Rightarrow> u16" where
  "peer_num st \<equiv> dtls_peer_handshake_number (keys (conn st))"

type_synonym msg_handler = "cell list \<Rightarrow> nat \<Rightarrow> u8 \<Rightarrow> u32 \<Rightarrow> nat \<Rightarrow> RxState \<Rightarrow> wolf_rc \<times> nat \<times> RxState"

record Handlers =
  SendAlert :: "u8 \<Rightarrow> RxState \<Rightarrow> RxState"
  DoTls13HandShakeMsgType :: msg_handler
  DoHandShakeMsgType :: msg_handler
  DoClientHelloStateless :: "bytes \<Rightarrow> RxState \<Rightarrow> bool \<times> RxState"
  chGoodCb :: "(RxState \<Rightarrow> int \<times> RxState) option"

definition unexpected_message :: u8 where [simp]: "unexpected_message = 10"
definition TLS13_ACCEPT_FIRST_REPLY_DONE :: nat where [simp]: "TLS13_ACCEPT_FIRST_REPLY_DONE = 4"
definition DTLS_POOL_SZ :: nat where [simp]: "DTLS_POOL_SZ = 20"

section \<open>Sanity checks\<close>

text \<open>Secure renegotiation is not compiled in.\<close>

definition MsgCheckEncryption :: "u8 \<Rightarrow> bool \<Rightarrow> WOLFSSL \<Rightarrow> wolf_rc" where
  "MsgCheckEncryption type encrypted ssl =
     (let hs = hs_of_byte type in
      if tls1_3 (options ssl)
      then
        (if hs \<in> {client_hello, server_hello, hello_verify_request, hello_retry_request, change_cipher_hs}
         then (if encrypted then OUT_OF_ORDER_E else RC_OK)
         else if hs \<in> {hello_request, session_ticket, end_of_early_data, encrypted_extensions, certificate,
                       server_key_exchange, certificate_request, server_hello_done, certificate_verify,
                       client_key_exchange, finished, certificate_status, key_update}
         then (if \<not> encrypted then OUT_OF_ORDER_E else RC_OK)
         else SANITY_MSG_E)
      else
        (if hs = client_hello
         then (if handShakeDone (options ssl) \<and> \<not> encrypted then OUT_OF_ORDER_E else RC_OK)
         else if hs \<in> {server_hello, hello_verify_request, hello_retry_request, certificate, server_key_exchange,
                       certificate_request, server_hello_done, certificate_verify, client_key_exchange,
                       certificate_status, session_ticket, change_cipher_hs}
         then (if encrypted then OUT_OF_ORDER_E else RC_OK)
         else if hs \<in> {hello_request, finished}
         then (if \<not> encrypted then OUT_OF_ORDER_E else RC_OK)
         else SANITY_MSG_E))"

definition isLastMsg :: "u32 \<Rightarrow> RxState \<Rightarrow> bool" where
  "isLastMsg msgSz st =
     (let extra = (if IsEncryptionOn False (conn st) then padSz (keys (conn st)) else 0)
      in (of_nat (in_idx st) - of_nat (curStartIdx st)) + msgSz + extra = of_nat (curSize st))"

definition MsgCheckBoundary :: "u8 \<Rightarrow> bool \<Rightarrow> u32 \<Rightarrow> RxState \<Rightarrow> wolf_rc" where
  "MsgCheckBoundary type version_negotiated msgSz st =
     (let hs = hs_of_byte type;
          last_only = (if \<not> isLastMsg msgSz st then OUT_OF_ORDER_E else RC_OK)
      in if version_negotiated
         then
           (if tls1_3 (options (conn st))
            then
              (if hs \<in> {hello_request, client_hello, server_hello, hello_verify_request, hello_retry_request,
                        finished, end_of_early_data}
               then last_only
               else if hs \<in> {session_ticket, encrypted_extensions, certificate, server_key_exchange,
                             certificate_request, certificate_verify, client_key_exchange, certificate_status,
                             key_update, change_cipher_hs}
               then RC_OK else SANITY_MSG_E)
            else
              (if hs \<in> {hello_request, client_hello, hello_verify_request} then last_only
               else if hs \<in> {server_hello, session_ticket, end_of_early_data, certificate, server_key_exchange,
                             certificate_request, server_hello_done, certificate_verify, client_key_exchange,
                             finished, certificate_status, change_cipher_hs}
               then RC_OK else SANITY_MSG_E))
         else
           (if hs \<in> {hello_request, client_hello, hello_verify_request} then last_only
            else if hs \<in> {server_hello, session_ticket, end_of_early_data, hello_retry_request,
                          encrypted_extensions, certificate, server_key_exchange, certificate_request,
                          server_hello_done, certificate_verify, client_key_exchange, finished,
                          certificate_status, key_update, change_cipher_hs}
            then RC_OK else SANITY_MSG_E))"

definition EarlySanityCheckMsgReceived :: "Handlers \<Rightarrow> u8 \<Rightarrow> u32 \<Rightarrow> RxState \<Rightarrow> wolf_rc \<times> RxState" where
  "EarlySanityCheckMsgReceived H type msgSz st =
     (let version_negotiated = SERVER_HELLO_COMPLETE \<le> serverState (options (conn st));
          ret = (if version_negotiated then MsgCheckEncryption type (decryptedCur st) (conn st) else RC_OK);
          ret = (if ret = RC_OK then MsgCheckBoundary type version_negotiated msgSz st else ret)
      in (ret, if ret \<noteq> RC_OK \<and> dtlsStateful (options (conn st)) then SendAlert H unexpected_message st else st))"

section \<open>Delivery\<close>

definition Dtls13RtxMsgNeedsAck :: "HandShakeType \<Rightarrow> WOLFSSL \<Rightarrow> bool" where
  "Dtls13RtxMsgNeedsAck hs ssl =
     (if opt_side (options ssl) = WOLFSSL_SERVER_END \<and> hs = finished then True
      else if hs = session_ticket \<or> hs = key_update then True else False)"

definition bump_expected :: "WOLFSSL \<Rightarrow> WOLFSSL" where
  "bump_expected ssl = ssl\<lparr>keys := (keys ssl)\<lparr>dtls_expected_peer_handshake_number :=
     dtls_expected_peer_handshake_number (keys ssl) + 1\<rparr>\<rparr>"

definition Dtls13MsgWasProcessed :: "HandShakeType \<Rightarrow> WOLFSSL \<Rightarrow> WOLFSSL" where
  "Dtls13MsgWasProcessed hs ssl =
     (let ssl = (if dtlsStateful (options ssl) then bump_expected ssl else ssl)
      in ssl\<lparr>dtls13Rtx := (dtls13Rtx ssl)\<lparr>sendAcks := Dtls13RtxMsgNeedsAck hs ssl\<rparr>\<rparr>)"

definition log_delivery :: "delivery \<Rightarrow> RxState \<Rightarrow> RxState" where
  "log_delivery d st = st\<lparr>handed := handed st @ [d]\<rparr>"

text \<open>
  One round of the loop of \<open>Dtls13ProcessBufferedMessages\<close>, from the call of the handler, with the index 0 of
  the assembled message, to the removal of the message.
\<close>

definition buffered_step :: "Handlers \<Rightarrow> DtlsMsg \<Rightarrow> DtlsMsg list \<Rightarrow> RxState \<Rightarrow> wolf_rc \<times> RxState" where
  "buffered_step H msg next st =
     (let body = (case m_fullMsg msg of Some b \<Rightarrow> b | None \<Rightarrow> []);
          tls13 = tls1_3 (options (conn st));
          (rc, _, st1) = (if tls13 then DoTls13HandShakeMsgType H body 0 (m_type msg) (m_sz msg) (unat (m_sz msg)) st
                          else DoHandShakeMsgType H body 0 (m_type msg) (m_sz msg) (unat (m_sz msg)) st);
          downgraded = (tls13 \<and> \<not> tls1_3 (options (conn st1)));
          counted = (rc = RC_OK \<or> rc = WANT_WRITE \<or>
                     m_type msg = byte_of_hs certificate_request \<and> handShakeDone (options (conn st1)) \<and> rc = WC_PENDING_E);
          st1 = log_delivery (m_seq msg, m_type msg, body, counted) (st1\<lparr>handed := handed st\<rparr>);
          ssl = conn st1;
          ssl = (if tls1_3 (options ssl) then Dtls13MsgWasProcessed (hs_of_byte (m_type msg)) ssl
                 else if downgraded then bump_expected ssl else ssl)
      in (rc, if counted
              then st1\<lparr>conn := ssl\<lparr>dtls_rx_msg_list := next, dtls_rx_msg_list_sz := dtls_rx_msg_list_sz ssl - 1\<rparr>\<rparr>
              else st1))"

fun buffered_loop :: "Handlers \<Rightarrow> DtlsMsg list \<Rightarrow> RxState \<Rightarrow> wolf_rc \<times> RxState" where
  "buffered_loop H [] st = (RC_OK, st)"
| "buffered_loop H (msg # next) st =
     (if ucast (expected_num st) \<noteq> m_seq msg then (RC_OK, st)
      else if \<not> m_ready msg then (RC_OK, st)
      else
        (let rc = MsgCheckEncryption (m_type msg) (m_encrypted msg) (conn st) in
         if rc \<noteq> RC_OK then (rc, SendAlert H unexpected_message st)
         else
           (let (rc, st) = buffered_step H msg next st
            in if rc \<noteq> RC_OK then (rc, st) else buffered_loop H next st)))"

definition Dtls13ProcessBufferedMessages :: "Handlers \<Rightarrow> RxState \<Rightarrow> wolf_rc \<times> RxState" where
  "Dtls13ProcessBufferedMessages H st = buffered_loop H (dtls_rx_msg_list (conn st)) st"

definition Dtls13NextMessageComplete :: "WOLFSSL \<Rightarrow> bool" where
  "Dtls13NextMessageComplete ssl =
     (case dtls_rx_msg_list ssl of
        [] \<Rightarrow> False
      | msg # _ \<Rightarrow> m_ready msg \<and> m_seq msg = ucast (dtls_expected_peer_handshake_number (keys ssl)))"

definition Dtls13AcceptFragmented :: "HandShakeType \<Rightarrow> WOLFSSL \<Rightarrow> bool" where
  "Dtls13AcceptFragmented type ssl =
     (if IsEncryptionOn False ssl then True
      else if opt_side (options ssl) = WOLFSSL_CLIENT_END \<and> type = server_hello then True
      else if opt_side (options ssl) = WOLFSSL_SERVER_END \<and> type = client_hello \<and> dtls13ChFrag (options ssl) \<and>
              dtlsStateful (options ssl) then True
      else False)"

text \<open>
  The end of \<open>_Dtls13HandshakeRecv\<close>, from the point where the fragment is known to be wanted: it is stored,
  or the message is handed over at once.
\<close>

definition store_fragment ::
    "Handlers \<Rightarrow> bytes \<Rightarrow> u8 \<Rightarrow> u32 \<Rightarrow> u32 \<Rightarrow> u32 \<Rightarrow> RxState \<Rightarrow> (wolf_rc \<times> nat \<times> RxState) option" where
  "store_fragment H input type messageLength fragOff fragLength st =
     (if dtls_rx_msg_list_sz (conn st) < DTLS_POOL_SZ
      then
        do { ssl \<leftarrow> DtlsMsgStore (ucast (w64GetLow32 (curEpoch64 (keys (conn st))))) (ucast (peer_num st))
                      (drop DTLS_HANDSHAKE_HEADER_SZ input) messageLength type fragOff fragLength (decryptedCur st) (conn st);
             let st = st\<lparr>conn := ssl\<rparr>;
             let processed = DTLS_HANDSHAKE_HEADER_SZ + unat fragLength + unat (padSz (keys (conn st)));
             if Dtls13NextMessageComplete (conn st)
             then (let (rc, st) = Dtls13ProcessBufferedMessages H st in Some (rc, processed, st))
             else Some (RC_OK, processed, st) }
      else Some (DTLS_TOO_MANY_FRAGMENTS_E, 0, st))"

definition hand_over :: "Handlers \<Rightarrow> bytes \<Rightarrow> u8 \<Rightarrow> u32 \<Rightarrow> RxState \<Rightarrow> wolf_rc \<times> nat \<times> RxState" where
  "hand_over H input type messageLength st =
     (let (rc, idx, st1) = DoTls13HandShakeMsgType H (map Some input) DTLS_HANDSHAKE_HEADER_SZ type messageLength (length input) st;
          st1 = log_delivery (ucast (peer_num st), type, map Some (take (unat messageLength) (drop DTLS_HANDSHAKE_HEADER_SZ input)), rc = RC_OK) (st1\<lparr>handed := handed st\<rparr>)
      in if rc \<noteq> RC_OK then (rc, idx, st1)
         else
           (let st1 = st1\<lparr>conn := Dtls13MsgWasProcessed (hs_of_byte type) (conn st1)\<rparr>
            in if Dtls13NextMessageComplete (conn st1)
               then (let (rc, st1) = Dtls13ProcessBufferedMessages H st1 in (rc, idx, st1))
               else (RC_OK, idx, st1)))"


text \<open>
  A fragment that may not be accepted: with fragmented \<open>ClientHello\<close>s allowed, a stateless server that finds
  a valid cookie in the first fragment goes on; everything else is ignored.
\<close>

datatype frag_decision = FragGo | FragIgnore | FragFatal

definition unaccepted_fragment :: "Handlers \<Rightarrow> bytes \<Rightarrow> u8 \<Rightarrow> u32 \<Rightarrow> u32 \<Rightarrow> RxState \<Rightarrow> frag_decision \<times> RxState" where
  "unaccepted_fragment H input type fragOff fragLength st =
     (let opts = options (conn st) in
      if dtls13ChFrag opts \<and> \<not> dtlsStateful opts \<and> fragOff = 0 \<and> type = byte_of_hs client_hello
      then
        (let (ok, st) = DoClientHelloStateless H (take (unat fragLength) (drop DTLS_HANDSHAKE_HEADER_SZ input)) st in
         if \<not> ok then (FragIgnore, st)
         else
           (case chGoodCb H of
              None \<Rightarrow> (FragGo, st)
            | Some cb \<Rightarrow>
                (let (cbret, st) = cb st in
                 if cbret < 0 then (FragFatal, st\<lparr>ssl_error := RC_OTHER cbret\<rparr>) else (FragGo, st))))
      else (FragIgnore, st))"

text \<open>The part after the checks of the header.\<close>

definition recv_fragment ::
    "Handlers \<Rightarrow> bytes \<Rightarrow> u8 \<Rightarrow> u32 \<Rightarrow> u32 \<Rightarrow> u32 \<Rightarrow> RxState \<Rightarrow> (wolf_rc \<times> nat \<times> RxState) option" where
  "recv_fragment H input type messageLength fragOff fragLength st =
     (let st = st\<lparr>conn := Dtls13RtxMsgRecvd (hs_of_byte type) fragOff (conn st)\<rparr>;
          ignored = (\<lambda>st. DTLS_HANDSHAKE_HEADER_SZ + unat fragLength + unat (padSz (keys (conn st))));
          isFirst = (fragOff = 0);
          isComplete = (isFirst \<and> fragLength = messageLength)
      in if peer_num st < expected_num st then Some (RC_OK, ignored st, st)
         else
           (let (decision, st) =
              (if \<not> isComplete \<and> \<not> Dtls13AcceptFragmented (hs_of_byte type) (conn st)
               then unaccepted_fragment H input type fragOff fragLength st else (FragGo, st))
            in case decision of
                 FragFatal \<Rightarrow> Some (WOLFSSL_FATAL_ERROR, 0, st)
               | FragIgnore \<Rightarrow> Some (RC_OK, ignored st, st)
               | FragGo \<Rightarrow>
                   if \<not> isComplete \<or> expected_num st < peer_num st \<or> has_devId st
                   then store_fragment H input type messageLength fragOff fragLength st
                   else Some (hand_over H input type messageLength st)))"

text \<open>The result is the status, \<open>processedSize\<close> and the new state; \<open>input\<close> is the rest of the input buffer.\<close>

definition Dtls13HandshakeRecv_body :: "Handlers \<Rightarrow> bytes \<Rightarrow> RxState \<Rightarrow> (wolf_rc \<times> nat \<times> RxState) option" where
  "Dtls13HandshakeRecv_body H input st =
     (case GetDtlsHandShakeHeader (curRL st) input (length input) (conn st) of
        (Inl _, ssl) \<Rightarrow> Some (PARSE_ERROR, 0, st\<lparr>conn := ssl\<rparr>)
      | (Inr (type, messageLength, fragOff, fragLength), ssl) \<Rightarrow>
          (let (ret, st) = EarlySanityCheckMsgReceived H type (of_nat DTLS_HANDSHAKE_HEADER_SZ + fragLength) (st\<lparr>conn := ssl\<rparr>) in
           if ret \<noteq> RC_OK then Some (ret, 0, st)
           else
             (let ret = Dtls13CheckEpoch (hs_of_byte type) (conn st) in
              if ret \<noteq> RC_OK then Some (ret, 0, st)
              else
                (let fresh_server = (opt_side (options (conn st)) = WOLFSSL_SERVER_END \<and>
                        acceptState (options (conn st)) < TLS13_ACCEPT_FIRST_REPLY_DONE)
                 in if fresh_server \<and> type \<noteq> byte_of_hs client_hello then Some (RC_OK, length input, st)
                    else
                      (let ssl = conn st;
                           ssl = (if fresh_server
                                  then set_epoch 0 ((dtls13Epochs (epochs ssl) ! 0)\<lparr>nextSeqNumber := curSeq (keys ssl)\<rparr>)
                                         (ssl\<lparr>keys := (keys ssl)\<lparr>dtls_expected_peer_handshake_number := peer_num st,
                                                               dtls_handshake_number := peer_num st\<rparr>\<rparr>)
                                  else ssl);
                           st = st\<lparr>conn := ssl\<rparr>
                       in if length input < DTLS_HANDSHAKE_HEADER_SZ + unat fragLength then Some (INCOMPLETE_DATA, 0, st)
                          else if messageLength < fragOff + fragLength then Some (BUFFER_ERROR, 0, st)
                          else recv_fragment H input type messageLength fragOff fragLength st)))))"

definition Dtls13HandshakeRecv :: "Handlers \<Rightarrow> RxState \<Rightarrow> (wolf_rc \<times> RxState) option" where
  "Dtls13HandshakeRecv H st =
     do { (ret, processedSize, st') \<leftarrow> Dtls13HandshakeRecv_body H (drop (in_idx st) (in_buf st)) st;
          Some (ret, st'\<lparr>in_idx := in_idx st' + processedSize\<rparr>) }"


section \<open>What the steps keep\<close>

text \<open>
  The part of the state that decides about the delivery.  \<open>same_core\<close> is what is required of the message
  handlers: they do not touch the expected message number, the buffered messages and the role.
\<close>

definition same_core :: "RxState \<Rightarrow> RxState \<Rightarrow> bool" where
  "same_core st st' \<longleftrightarrow> expected_num st' = expected_num st \<and>
     dtls_rx_msg_list (conn st') = dtls_rx_msg_list (conn st) \<and> dtls_rx_msg_list_sz (conn st') = dtls_rx_msg_list_sz (conn st) \<and>
     opt_side (options (conn st')) = opt_side (options (conn st)) \<and>
     dtlsStateful (options (conn st')) = dtlsStateful (options (conn st)) \<and> tls1_3 (options (conn st')) = tls1_3 (options (conn st))"

definition same_hs :: "RxState \<Rightarrow> RxState \<Rightarrow> bool" where
  "same_hs st st' \<longleftrightarrow> same_core st st' \<and> handed st' = handed st"

lemma same_hs_trans: "same_hs a b \<Longrightarrow> same_hs b c \<Longrightarrow> same_hs a c"
  by (simp add: same_hs_def same_core_def)

definition handlers_ok :: "Handlers \<Rightarrow> bool" where
  "handlers_ok H \<longleftrightarrow> (\<forall>d st. same_hs st (SendAlert H d st)) \<and>
     (\<forall>body idx type sz tot st. case DoTls13HandShakeMsgType H body idx type sz tot st of (rc, i, st') \<Rightarrow> same_core st st')"

lemma handlers_alert: "handlers_ok H \<Longrightarrow> same_hs st (SendAlert H d st)"
  by (simp add: handlers_ok_def)

lemma handlers_msg: "handlers_ok H \<Longrightarrow> DoTls13HandShakeMsgType H body idx type sz tot st = (rc, i, st') \<Longrightarrow> same_core st st'"
  by (simp add: handlers_ok_def split_beta) (metis prod.sel)

text \<open>A client with an established record layer state, as the firmware is.\<close>

definition dtls13_client :: "RxState \<Rightarrow> bool" where
  "dtls13_client st \<longleftrightarrow> opt_side (options (conn st)) = WOLFSSL_CLIENT_END \<and> dtlsStateful (options (conn st)) \<and> tls1_3 (options (conn st))"

lemma same_core_client: "same_core st st' \<Longrightarrow> dtls13_client st' = dtls13_client st"
  by (simp add: same_core_def dtls13_client_def)

lemma MaybeSave_keeps [simp]:
  "keys (Dtls13MaybeSaveClientHello ssl) = keys ssl" "options (Dtls13MaybeSaveClientHello ssl) = options ssl"
  "dtls_rx_msg_list (Dtls13MaybeSaveClientHello ssl) = dtls_rx_msg_list ssl"
  "dtls_rx_msg_list_sz (Dtls13MaybeSaveClientHello ssl) = dtls_rx_msg_list_sz ssl"
  "heap_left (Dtls13MaybeSaveClientHello ssl) = heap_left ssl"
  by (auto simp: Dtls13MaybeSaveClientHello_def set_rtxRecords_def Let_def split: list.splits option.splits)

lemma PoolReset_keeps [simp]:
  "keys (DtlsMsgPoolReset ssl) = keys ssl" "options (DtlsMsgPoolReset ssl) = options ssl"
  "dtls_rx_msg_list (DtlsMsgPoolReset ssl) = dtls_rx_msg_list ssl"
  "dtls_rx_msg_list_sz (DtlsMsgPoolReset ssl) = dtls_rx_msg_list_sz ssl" "heap_left (DtlsMsgPoolReset ssl) = heap_left ssl"
  by (simp_all add: DtlsMsgPoolReset_def Dtls13RtxFlushBuffered_def set_rtxRecords_def)

lemma RtxMsgRecvd_keeps [simp]:
  "keys (Dtls13RtxMsgRecvd hs off ssl) = keys ssl" "options (Dtls13RtxMsgRecvd hs off ssl) = options ssl"
  "dtls_rx_msg_list (Dtls13RtxMsgRecvd hs off ssl) = dtls_rx_msg_list ssl"
  "dtls_rx_msg_list_sz (Dtls13RtxMsgRecvd hs off ssl) = dtls_rx_msg_list_sz ssl" "heap_left (Dtls13RtxMsgRecvd hs off ssl) = heap_left ssl"
  by (simp_all add: Dtls13RtxMsgRecvd_def Dtls13RtxRemoveCurAck_def Let_def)

lemma DtlsMsgStore_keeps:
  assumes "DtlsMsgStore ep s d sz t off n enc ssl = Some ssl'"
  shows "keys ssl' = keys ssl" "options ssl' = options ssl"
  using assms by (auto simp: DtlsMsgStore_def Let_def bind_eq_Some_conv split: option.splits prod.splits if_splits)

lemma EarlySanity_keeps: "handlers_ok H \<Longrightarrow> same_hs st (snd (EarlySanityCheckMsgReceived H type sz st))"
  by (simp add: EarlySanityCheckMsgReceived_def Let_def handlers_alert) (simp add: same_hs_def same_core_def)


section \<open>Delivery in order\<close>

text \<open>
  The abstract specification of the delivery: a counter \<open>e\<close> of the message that is due; only that message
  may be handed over, and the counter advances when the message is counted.
\<close>

fun in_order :: "u16 \<Rightarrow> delivery list \<Rightarrow> u16 \<Rightarrow> bool" where
  "in_order e [] e' = (e = e')"
| "in_order e ((s, type, body, counted) # ds) e' = (s = ucast e \<and> in_order (if counted then e + 1 else e) ds e')"

lemma in_order_snoc:
  "in_order e ds e1 \<Longrightarrow> s = ucast e1 \<Longrightarrow> e2 = (if counted then e1 + 1 else e1) \<Longrightarrow> in_order e (ds @ [(s, type, body, counted)]) e2"
  by (induction e ds e1 rule: in_order.induct) auto

text \<open>A property of the deliveries and of the buffered messages that the loop keeps.\<close>

definition order_inv :: "(delivery \<Rightarrow> bool) \<Rightarrow> (DtlsMsg \<Rightarrow> bool) \<Rightarrow> u16 \<Rightarrow> RxState \<Rightarrow> bool" where
  "order_inv D B e0 st \<longleftrightarrow> dtls13_client st \<and> in_order e0 (handed st) (expected_num st) \<and>
     (\<forall>d \<in> set (handed st). D d) \<and> (\<forall>m \<in> set (dtls_rx_msg_list (conn st)). B m)"

lemma order_inv_same: "order_inv D B e0 st \<Longrightarrow> same_hs st st' \<Longrightarrow> order_inv D B e0 st'"
  by (auto simp: order_inv_def same_hs_def same_core_def dtls13_client_def)

text \<open>What a buffered message gives when it is handed over.\<close>

definition yields :: "(delivery \<Rightarrow> bool) \<Rightarrow> DtlsMsg \<Rightarrow> bool" where
  "yields D m \<longleftrightarrow> (m_ready m \<longrightarrow> (\<forall>counted. D (m_seq m, m_type m, (case m_fullMsg m of Some b \<Rightarrow> b | None \<Rightarrow> []), counted)))"

lemma processed_keeps:
  assumes "dtls13_client st" "ssl = Dtls13MsgWasProcessed hs (conn st)"
  shows "options ssl = options (conn st)" "dtls_expected_peer_handshake_number (keys ssl) = expected_num st + 1"
    "dtls_rx_msg_list ssl = dtls_rx_msg_list (conn st)" "dtls_rx_msg_list_sz ssl = dtls_rx_msg_list_sz (conn st)"
  using assms by (auto simp: Dtls13MsgWasProcessed_def bump_expected_def dtls13_client_def Let_def)

lemma buffered_step_inv:
  assumes H: "handlers_ok H" and B: "\<And>m. B m \<Longrightarrow> yields D m" and inv: "order_inv D B e0 st"
    and l: "dtls_rx_msg_list (conn st) = m # rest" and m: "ucast (expected_num st) = m_seq m" "m_ready m"
    and step: "buffered_step H m rest st = (rc, st3)"
  shows "order_inv D B e0 st3" "rc = RC_OK \<Longrightarrow> dtls_rx_msg_list (conn st3) = rest"
proof -
  define body where "body = (case m_fullMsg m of Some b \<Rightarrow> b | None \<Rightarrow> [])"
  obtain rc1 i st1 where r: "DoTls13HandShakeMsgType H body 0 (m_type m) (m_sz m) (unat (m_sz m)) st = (rc1, i, st1)"
    by (cases "DoTls13HandShakeMsgType H body 0 (m_type m) (m_sz m) (unat (m_sz m)) st")
  note same = handlers_msg[OF H r]
  have cl: "dtls13_client st" "tls1_3 (options (conn st))" and ord: "in_order e0 (handed st) (expected_num st)"
    and D: "\<forall>d \<in> set (handed st). D d" and Bs: "B m" "\<forall>m \<in> set rest. B m"
    using inv l by (auto simp: order_inv_def dtls13_client_def)
  have cl1: "dtls13_client st1" "tls1_3 (options (conn st1))" using same_core_client[OF same] cl by (simp_all add: dtls13_client_def)
  define counted where "counted = (rc1 = RC_OK \<or> rc1 = WANT_WRITE \<or>
     m_type m = byte_of_hs certificate_request \<and> handShakeDone (options (conn st1)) \<and> rc1 = WC_PENDING_E)"
  define st2 where "st2 = log_delivery (m_seq m, m_type m, body, counted) (st1\<lparr>handed := handed st\<rparr>)"
  define ssl where "ssl = Dtls13MsgWasProcessed (hs_of_byte (m_type m)) (conn st2)"
  have c2: "conn st2 = conn st1" "handed st2 = handed st @ [(m_seq m, m_type m, body, counted)]" by (simp_all add: st2_def log_delivery_def)
  have cl2: "dtls13_client st2" using cl1 by (simp add: dtls13_client_def c2)
  have "buffered_step H m rest st = (rc1, if counted then st2\<lparr>conn := ssl\<lparr>dtls_rx_msg_list := rest,
      dtls_rx_msg_list_sz := dtls_rx_msg_list_sz ssl - 1\<rparr>\<rparr> else st2)"
    unfolding buffered_step_def Let_def body_def[symmetric] if_P[OF cl(2)] r prod.case counted_def[symmetric]
    using cl1(2) by (simp only: st2_def[symmetric] c2(1) if_True ssl_def)
  then have st3: "rc = rc1" "st3 = (if counted then st2\<lparr>conn := ssl\<lparr>dtls_rx_msg_list := rest,
      dtls_rx_msg_list_sz := dtls_rx_msg_list_sz ssl - 1\<rparr>\<rparr> else st2)" using step by simp_all
  have e: "expected_num st2 = expected_num st" using same by (simp add: c2 same_core_def)
  have Dd: "D (m_seq m, m_type m, body, counted)" using B[OF Bs(1)] m by (auto simp: yields_def body_def)
  note pk = processed_keeps[OF cl2 ssl_def]
  have "in_order e0 (handed st3) (expected_num st3)"
    using in_order_snoc[OF ord, of "m_seq m" _ counted] m e by (auto simp: st3 c2 pk)
  moreover have "dtls13_client st3" using cl2 by (auto simp: st3 dtls13_client_def pk)
  moreover have "\<forall>d \<in> set (handed st3). D d" using D Dd by (auto simp: st3 c2)
  moreover have "\<forall>x \<in> set (dtls_rx_msg_list (conn st3)). B x" using Bs same l by (auto simp: st3 c2 same_core_def)
  ultimately show "order_inv D B e0 st3" by (simp add: order_inv_def)
  show "rc = RC_OK \<Longrightarrow> dtls_rx_msg_list (conn st3) = rest" by (simp add: st3 counted_def)
qed

lemma buffered_loop_inv:
  assumes H: "handlers_ok H" and B: "\<And>m. B m \<Longrightarrow> yields D m"
  shows "order_inv D B e0 st \<Longrightarrow> dtls_rx_msg_list (conn st) = msgs \<Longrightarrow> order_inv D B e0 (snd (buffered_loop H msgs st))"
proof (induction msgs arbitrary: st)
  case Nil
  then show ?case by simp
next
  case (Cons m rest)
  show ?case
  proof (cases "ucast (expected_num st) \<noteq> m_seq m \<or> \<not> m_ready m \<or> MsgCheckEncryption (m_type m) (m_encrypted m) (conn st) \<noteq> RC_OK")
    case True
    then show ?thesis using Cons.prems order_inv_same[OF Cons.prems(1) handlers_alert[OF H]] by (auto simp: Let_def)
  next
    case False
    obtain rc st3 where step: "buffered_step H m rest st = (rc, st3)" by (cases "buffered_step H m rest st")
    have "ucast (expected_num st) = m_seq m" "m_ready m" using False by auto
    note inv3 = buffered_step_inv[OF H B Cons.prems this step]
    then show ?thesis using False Cons.IH[OF inv3(1) inv3(2)] by (simp add: step)
  qed
qed


lemma ProcessBuffered_inv:
  "handlers_ok H \<Longrightarrow> (\<And>m. B m \<Longrightarrow> yields D m) \<Longrightarrow> order_inv D B e0 st \<Longrightarrow> order_inv D B e0 (snd (Dtls13ProcessBufferedMessages H st))"
  unfolding Dtls13ProcessBufferedMessages_def by (rule buffered_loop_inv) auto

lemma store_fragment_inv:
  assumes H: "handlers_ok H" and B: "\<And>m. B m \<Longrightarrow> yields D m" and inv: "order_inv D B e0 st"
    and stored: "\<And>ssl'. DtlsMsgStore (ucast (w64GetLow32 (curEpoch64 (keys (conn st))))) (ucast (peer_num st))
        (drop DTLS_HANDSHAKE_HEADER_SZ input) len type off n (decryptedCur st) (conn st) = Some ssl' \<Longrightarrow> \<forall>m \<in> set (dtls_rx_msg_list ssl'). B m"
    and step: "store_fragment H input type len off n st = Some (rc, k, st')"
  shows "order_inv D B e0 st'"
proof (cases "dtls_rx_msg_list_sz (conn st) < DTLS_POOL_SZ")
  case True
  then obtain ssl' where ssl': "DtlsMsgStore (ucast (w64GetLow32 (curEpoch64 (keys (conn st))))) (ucast (peer_num st))
        (drop DTLS_HANDSHAKE_HEADER_SZ input) len type off n (decryptedCur st) (conn st) = Some ssl'"
    using step unfolding store_fragment_def by (auto simp: bind_eq_Some_conv)
  have inv': "order_inv D B e0 (st\<lparr>conn := ssl'\<rparr>)"
    using inv stored[OF ssl'] DtlsMsgStore_keeps[OF ssl'] by (simp add: order_inv_def dtls13_client_def)
  have "st' = st\<lparr>conn := ssl'\<rparr> \<or> st' = snd (Dtls13ProcessBufferedMessages H (st\<lparr>conn := ssl'\<rparr>))"
    using step True ssl' unfolding store_fragment_def Let_def by (auto split: if_splits prod.splits)
  then show ?thesis using inv' ProcessBuffered_inv[OF H B inv'] by auto
qed (use step inv in \<open>auto simp: store_fragment_def\<close>)

lemma hand_over_inv:
  assumes H: "handlers_ok H" and B: "\<And>m. B m \<Longrightarrow> yields D m" and inv: "order_inv D B e0 st"
    and due: "peer_num st = expected_num st"
    and body: "\<And>c. D (ucast (peer_num st), type, map Some (take (unat len) (drop DTLS_HANDSHAKE_HEADER_SZ input)), c)"
    and step: "hand_over H input type len st = (rc, k, st')"
  shows "order_inv D B e0 st'"
proof -
  obtain rc1 i st1 where r: "DoTls13HandShakeMsgType H (map Some input) DTLS_HANDSHAKE_HEADER_SZ type len (length input) st = (rc1, i, st1)"
    by (cases "DoTls13HandShakeMsgType H (map Some input) DTLS_HANDSHAKE_HEADER_SZ type len (length input) st")
  note same = handlers_msg[OF H r]
  define d where "d = (ucast (peer_num st) :: u32, type, map Some (take (unat len) (drop DTLS_HANDSHAKE_HEADER_SZ input)), rc1 = RC_OK)"
  define st2 where "st2 = log_delivery d (st1\<lparr>handed := handed st\<rparr>)"
  define st3 where "st3 = st2\<lparr>conn := Dtls13MsgWasProcessed (hs_of_byte type) (conn st2)\<rparr>"
  have c2: "conn st2 = conn st1" "handed st2 = handed st @ [d]" by (simp_all add: st2_def log_delivery_def)
  have cl2: "dtls13_client st2" using same_core_client[OF same] inv by (simp add: dtls13_client_def c2 order_inv_def)
  note pk = processed_keeps[OF cl2 refl]
  have ord: "in_order e0 (handed st) (expected_num st)" and D: "\<forall>d \<in> set (handed st). D d" and Bs: "\<forall>m \<in> set (dtls_rx_msg_list (conn st)). B m"
    using inv by (auto simp: order_inv_def)
  have e: "expected_num st2 = expected_num st" "dtls_rx_msg_list (conn st2) = dtls_rx_msg_list (conn st)" using same by (simp_all add: c2 same_core_def)
  have ord': "in_order e0 (handed st2) (if rc1 = RC_OK then expected_num st + 1 else expected_num st)"
    using in_order_snoc[OF ord] due by (simp add: c2 d_def)
  have D2: "\<forall>d \<in> set (handed st2). D d" using D body by (auto simp: c2 d_def)
  have "order_inv D B e0 (if rc1 = RC_OK then st3 else st2)"
    using ord' D2 Bs cl2 e by (auto simp: order_inv_def st3_def dtls13_client_def pk)
  moreover have "st' = (if rc1 = RC_OK then st3 else st2) \<or> rc1 = RC_OK \<and> st' = snd (Dtls13ProcessBufferedMessages H st3)"
    using step unfolding hand_over_def r Let_def prod.case d_def[symmetric] st2_def[symmetric] st3_def[symmetric] by (auto split: if_splits prod.splits)
  ultimately show ?thesis using ProcessBuffered_inv[OF H B] by auto
qed

section \<open>The cases of a call\<close>

text \<open>For a client a fragment is ignored or refused, stored, or handed over at once.\<close>

lemma recv_fragment_cases:
  assumes cl: "dtls13_client st" and step: "recv_fragment H input type len off n st = Some (rc, k, st')"
  obtains (keep) "same_hs st st'"
  | (store) st1 where "same_hs st st1" "peer_num st1 = peer_num st" "heap_left (conn st1) = heap_left (conn st)"
      "expected_num st1 \<le> peer_num st1" "store_fragment H input type len off n st1 = Some (rc, k, st')"
  | (over) st1 where "same_hs st st1" "peer_num st1 = peer_num st" "off = 0" "n = len" "peer_num st1 = expected_num st1"
      "hand_over H input type len st1 = (rc, k, st')"
proof -
  define st1 where "st1 = st\<lparr>conn := Dtls13RtxMsgRecvd (hs_of_byte type) off (conn st)\<rparr>"
  have same: "same_hs st st1" and c1: "peer_num st1 = peer_num st" "heap_left (conn st1) = heap_left (conn st)"
    by (simp_all add: st1_def same_hs_def same_core_def)
  have "dtlsStateful (options (conn st1))" using cl by (simp add: st1_def dtls13_client_def)
  then have una: "unaccepted_fragment H input type off n st1 = (FragIgnore, st1)" by (simp add: unaccepted_fragment_def)
  consider "st' = st1" | "expected_num st1 \<le> peer_num st1" "store_fragment H input type len off n st1 = Some (rc, k, st')"
    | "hand_over H input type len st1 = (rc, k, st')" "off = 0" "n = len" "peer_num st1 = expected_num st1"
    using step unfolding recv_fragment_def Let_def st1_def[symmetric] una by (auto split: if_splits simp: not_less)
  then show thesis using keep store[OF same c1] over[OF same c1(1)] same by cases auto
qed

lemma HandshakeRecv_cases:
  assumes H: "handlers_ok H" and cl: "dtls13_client st" and step: "Dtls13HandshakeRecv_body H input st = Some (rc, k, st')"
  obtains (keep) "same_hs st st'"
  | (store) st1 where "same_hs st st1" "peer_num st1 = ato16 (drop 4 input)" "heap_left (conn st1) = heap_left (conn st)"
      "DTLS_HANDSHAKE_HEADER_SZ + unat (c24to32 (drop 9 input)) \<le> length input" "\<not> c24to32 (drop 1 input) < c24to32 (drop 6 input) + c24to32 (drop 9 input)"
      "expected_num st1 \<le> peer_num st1"
      "store_fragment H input (input ! 0) (c24to32 (drop 1 input)) (c24to32 (drop 6 input)) (c24to32 (drop 9 input)) st1 = Some (rc, k, st')"
  | (over) st1 where "same_hs st st1" "peer_num st1 = ato16 (drop 4 input)"
      "DTLS_HANDSHAKE_HEADER_SZ + unat (c24to32 (drop 9 input)) \<le> length input" "\<not> c24to32 (drop 1 input) < c24to32 (drop 6 input) + c24to32 (drop 9 input)"
      "c24to32 (drop 6 input) = 0" "c24to32 (drop 9 input) = c24to32 (drop 1 input)" "peer_num st1 = expected_num st1"
      "hand_over H input (input ! 0) (c24to32 (drop 1 input)) st1 = (rc, k, st')"
proof -
  obtain r ssl where g: "GetDtlsHandShakeHeader (curRL st) input (length input) (conn st) = (r, ssl)"
    by (cases "GetDtlsHandShakeHeader (curRL st) input (length input) (conn st)")
  have ssl: "ssl = conn st \<or> ssl = (conn st)\<lparr>keys := (keys (conn st))\<lparr>dtls_peer_handshake_number := ato16 (drop 4 input)\<rparr>\<rparr>"
    and r: "\<And>x. r = Inr x \<Longrightarrow> x = (input ! 0, c24to32 (drop 1 input), c24to32 (drop 6 input), c24to32 (drop 9 input)) \<and>
       dtls_peer_handshake_number (keys ssl) = ato16 (drop 4 input)"
    using g by (auto simp: GetDtlsHandShakeHeader_def Let_def split: if_splits)
  define st1 where "st1 = st\<lparr>conn := ssl\<rparr>"
  have same1: "same_hs st st1" and heap1: "heap_left (conn st1) = heap_left (conn st)"
    using ssl by (auto simp: st1_def same_hs_def same_core_def)
  show thesis
  proof (cases r)
    case (Inl e)
    then show thesis using step keep same1 by (simp add: Dtls13HandshakeRecv_body_def g st1_def)
  next
    case (Inr x)
    let ?type = "input ! 0" and ?len = "c24to32 (drop 1 input)" and ?off = "c24to32 (drop 6 input)" and ?n = "c24to32 (drop 9 input)"
    note rx = r[OF Inr]
    obtain ret st2 where es: "EarlySanityCheckMsgReceived H ?type (of_nat DTLS_HANDSHAKE_HEADER_SZ + ?n) st1 = (ret, st2)"
      by (cases "EarlySanityCheckMsgReceived H ?type (of_nat DTLS_HANDSHAKE_HEADER_SZ + ?n) st1")
    have same2: "same_hs st st2" using same_hs_trans[OF same1 EarlySanity_keeps[OF H]] es by (metis snd_conv)
    have st2: "ret = RC_OK \<Longrightarrow> st2 = st1" using es by (auto simp: EarlySanityCheckMsgReceived_def Let_def split: if_splits)
    have side: "opt_side (options (conn st2)) \<noteq> WOLFSSL_SERVER_END"
      using same2 cl by (simp add: dtls13_client_def same_hs_def same_core_def)
    consider "st' = st2" | (go) "recv_fragment H input ?type ?len ?off ?n st1 = Some (rc, k, st')"
        "DTLS_HANDSHAKE_HEADER_SZ + unat ?n \<le> length input" "\<not> ?len < ?off + ?n"
      using step side st2 unfolding Dtls13HandshakeRecv_body_def g Inr rx[THEN conjunct1] sum.case prod.case st1_def[symmetric] es Let_def
      by (auto split: if_splits simp: not_less)
    then show thesis
    proof cases
      case go
      have num: "peer_num st1 = ato16 (drop 4 input)" using rx by (simp add: st1_def)
      have "dtls13_client st1" using same1 cl by (simp add: dtls13_client_def same_hs_def same_core_def)
      from this go(1) show thesis
        by (cases rule: recv_fragment_cases)
          (use keep store[OF _ _ _ go(2,3)] over[OF _ _ go(2,3)] same_hs_trans[OF same1] num heap1 in auto)
    qed (use same2 keep in simp)
  qed
qed

text \<open>What is required of the bytes of a fragment, given the buffered messages.\<close>

definition fragment_fits :: "(delivery \<Rightarrow> bool) \<Rightarrow> (DtlsMsg \<Rightarrow> bool) \<Rightarrow> bytes \<Rightarrow> RxState \<Rightarrow> bool" where
  "fragment_fits D B input st \<longleftrightarrow>
     (let type = input ! 0; len = c24to32 (drop 1 input); num = ato16 (drop 4 input);
          off = c24to32 (drop 6 input); n = c24to32 (drop 9 input); data = drop DTLS_HANDSHAKE_HEADER_SZ input
      in DTLS_HANDSHAKE_HEADER_SZ + unat n \<le> length input \<longrightarrow> \<not> len < off + n \<longrightarrow>
         (off = 0 \<longrightarrow> n = len \<longrightarrow> (\<forall>c. D (ucast num, type, map Some (take (unat len) data), c))) \<and>
         (\<forall>ep enc ssl ssl'. dtls_rx_msg_list ssl = dtls_rx_msg_list (conn st) \<longrightarrow> heap_left ssl = heap_left (conn st) \<longrightarrow>
            DtlsMsgStore ep (ucast num) data len type off n enc ssl = Some ssl' \<longrightarrow> (\<forall>m \<in> set (dtls_rx_msg_list ssl'). B m)))"

lemma HandshakeRecv_inv:
  assumes H: "handlers_ok H" and B: "\<And>m. B m \<Longrightarrow> yields D m" and inv: "order_inv D B e0 st"
    and fits: "fragment_fits D B input st" and step: "Dtls13HandshakeRecv_body H input st = Some (rc, k, st')"
  shows "order_inv D B e0 st'"
proof -
  have cl: "dtls13_client st" using inv by (simp add: order_inv_def)
  note f = fits[unfolded fragment_fits_def Let_def, rule_format]
  from H cl step show ?thesis
  proof (cases rule: HandshakeRecv_cases)
    case keep
    then show ?thesis by (rule order_inv_same[OF inv])
  next
    case (store st1)
    have l: "dtls_rx_msg_list (conn st1) = dtls_rx_msg_list (conn st)" using store(1) by (simp add: same_hs_def same_core_def)
    show ?thesis
    proof (rule store_fragment_inv[OF H _ order_inv_same[OF inv store(1)] _ store(7)])
      show "\<And>m. B m \<Longrightarrow> yields D m" by (rule B)
    qed (use f[OF store(4,5)] l store(2,3) in auto)
  next
    case (over st1)
    show ?thesis
    proof (rule hand_over_inv[OF H _ order_inv_same[OF inv over(1)] over(7) _ over(8)])
      show "\<And>m. B m \<Longrightarrow> yields D m" by (rule B)
    qed (use f[OF over(3,4)] over(2,5,6) in simp)
  qed
qed

end
