(* ===== verification/Dtls13Delivery.thy ===== *)
theory Dtls13Delivery
  imports Dtls13Handshake
begin

text \<open>
  What the TLS 1.3 state machine gets to see: the properties of the reception of handshake messages over
  the life of a connection.  A run is any sequence of received fragments, between which everything but the
  expected message number, the buffered messages and the role of the connection may change.
\<close>

section \<open>Runs\<close>

inductive hs_run :: "(bytes \<Rightarrow> RxState \<Rightarrow> bool) \<Rightarrow> Handlers \<Rightarrow> RxState \<Rightarrow> RxState \<Rightarrow> bool"
  for P :: "bytes \<Rightarrow> RxState \<Rightarrow> bool" and H :: Handlers and st0 :: RxState where
  start: "hs_run P H st0 st0"
| recv: "hs_run P H st0 st \<Longrightarrow> P input st \<Longrightarrow> Dtls13HandshakeRecv_body H input st = Some (rc, k, st') \<Longrightarrow> hs_run P H st0 st'"
| other: "hs_run P H st0 st \<Longrightarrow> same_hs st st' \<Longrightarrow> hs_run P H st0 st'"

lemma run_order_inv:
  assumes "hs_run P H st0 st" "handlers_ok H" "\<And>m. B m \<Longrightarrow> yields D m" "order_inv D B e0 st0"
    and "\<And>input st. P input st \<Longrightarrow> \<forall>m \<in> set (dtls_rx_msg_list (conn st)). B m \<Longrightarrow> fragment_fits D B input st"
  shows "order_inv D B e0 st"
  using assms(1)
proof (induction rule: hs_run.induct)
  case (recv st input rc k st')
  have "fragment_fits D B input st" using assms(5)[OF recv.hyps(2)] recv.IH by (simp add: order_inv_def)
  with HandshakeRecv_inv[OF assms(2,3) recv.IH _ recv.hyps(3)] show ?case by blast
qed (use assms(4) order_inv_same in auto)

section \<open>Storing a fragment\<close>

lemma DtlsMsgStore_cases:
  assumes "DtlsMsgStore ep seq data sz type off n enc ssl = Some ssl'"
  obtains (same) "dtls_rx_msg_list ssl' = dtls_rx_msg_list ssl"
  | (new) new h0 h item where "DtlsMsgNew sz False (heap_left ssl) = (Some new, h0)"
      "DtlsMsgSet (Some new) seq ep data type off n sz enc h0 = Some (RC_OK, Some item, h)"
      "dtls_rx_msg_list ssl' = DtlsMsgInsert (dtls_rx_msg_list ssl) item" "msg_key item = (ep, seq)"
  | (old) cur rc m h where "cur \<in> set (dtls_rx_msg_list ssl)" "msg_key cur = (ep, seq)"
      "DtlsMsgSet (Some cur) seq ep data type off n sz enc (heap_left ssl) = Some (rc, Some m, h)"
      "dtls_rx_msg_list ssl' = msg_replace ep seq m (dtls_rx_msg_list ssl)" "msg_key m = (ep, seq)"
proof (cases "DtlsMsgFind (dtls_rx_msg_list ssl) ep seq")
  case None
  obtain nw h0 rc m h where n: "DtlsMsgNew sz False (heap_left ssl) = (nw, h0)"
    and s: "DtlsMsgSet nw seq ep data type off n sz enc h0 = Some (rc, m, h)"
    and ssl': "dtls_rx_msg_list ssl' = dtls_rx_msg_list ssl \<or> (\<exists>item. m = Some item \<and> rc = RC_OK \<and>
        dtls_rx_msg_list ssl' = DtlsMsgInsert (dtls_rx_msg_list ssl) item)"
    using assms None
    by (auto simp: DtlsMsgStore_def Let_def bind_eq_Some_conv split: prod.splits option.splits if_splits)
  from ssl' show thesis
  proof (elim disjE exE conjE)
    fix item assume i: "m = Some item" "rc = RC_OK" "dtls_rx_msg_list ssl' = DtlsMsgInsert (dtls_rx_msg_list ssl) item"
    obtain m0 where m0: "nw = Some m0" "m_type m0 = byte_of_hs no_shake" "\<not> m_ready m0"
      using n s i by (cases nw) (auto simp: DtlsMsgSet_def DtlsMsgNew_def split: option.splits)
    from DtlsMsgSet_key[OF s[unfolded m0(1)]] m0 i have "msg_key item = (ep, seq)" by auto
    with new[OF n[unfolded m0(1)] _ i(3)] s i m0(1) show thesis by simp
  qed (rule same)
next
  case (Some cur)
  then have cur: "cur \<in> set (dtls_rx_msg_list ssl)" "msg_key cur = (ep, seq)"
    by (auto simp: DtlsMsgFind_def find_Some_iff msg_key_def)
  obtain rc m h where s: "DtlsMsgSet (Some cur) seq ep data type off n sz enc (heap_left ssl) = Some (rc, m, h)"
    and ssl': "dtls_rx_msg_list ssl' = (case m of Some m \<Rightarrow> msg_replace ep seq m (dtls_rx_msg_list ssl) | None \<Rightarrow> dtls_rx_msg_list ssl)"
    using assms Some by (auto simp: DtlsMsgStore_def Let_def bind_eq_Some_conv)
  from DtlsMsgSet_key[OF s] cur obtain x where x: "m = Some x" "msg_key x = (ep, seq)" by auto
  show thesis using old[OF cur s[unfolded x(1)] _ x(2)] ssl' x(1) by simp
qed

lemma set_msg_replace: "set (msg_replace ep seq m ms) \<subseteq> insert m (set ms)"
  by (induction ms) auto

lemma new_msg_inv:
  "length M < 2 ^ 24 \<Longrightarrow> DtlsMsgNew (of_nat (length M)) False heap = (Some m, h) \<Longrightarrow>
   msg_inv M m \<and> m_type m = byte_of_hs no_shake \<and> \<not> m_ready m \<and> m_fragBucketList m = [] \<and> heap = Suc h"
  by (auto simp: DtlsMsgNew_def heap_alloc_def msg_inv_def store_ok_def buckets_ok_def gaps_def split: option.splits if_splits)

section \<open>Messages of the peer\<close>

text \<open>
  \<open>M\<close> are the handshake messages of the peer by their number, as type and body.  The fragments are cut
  from them; a fragment may not be one of those the reassembly handles wrongly (\<^const>\<open>frag_clean\<close>), and
  there is memory left.
\<close>

definition peer_fragment :: "(u16 \<Rightarrow> u8 \<times> bytes) \<Rightarrow> bytes \<Rightarrow> RxState \<Rightarrow> bool" where
  "peer_fragment M input st \<longleftrightarrow>
     (let num = ato16 (drop 4 input); off = c24to32 (drop 6 input); n = c24to32 (drop 9 input); body = snd (M num)
      in input ! 0 = fst (M num) \<and> body \<noteq> [] \<and> length body < 2 ^ 24 \<and> c24to32 (drop 1 input) = of_nat (length body) \<and>
         frag_of body off (drop DTLS_HANDSHAKE_HEADER_SZ input) n \<and> 2 \<le> heap_left (conn st) \<and>
         (\<forall>m \<in> set (dtls_rx_msg_list (conn st)). m_seq m = ucast num \<longrightarrow> \<not> m_ready m \<longrightarrow>
            frag_clean (m_fragBucketList m) (unat off) (unat off + unat n)))"

definition peer_msg :: "(u16 \<Rightarrow> u8 \<times> bytes) \<Rightarrow> DtlsMsg \<Rightarrow> bool" where
  "peer_msg M m \<longleftrightarrow> (\<exists>num. m_seq m = ucast num \<and> m_type m = fst (M num) \<and> msg_inv (snd (M num)) m)"

definition genuine :: "(u16 \<Rightarrow> u8 \<times> bytes) \<Rightarrow> delivery \<Rightarrow> bool" where
  "genuine M d \<longleftrightarrow> (\<exists>num counted. d = (ucast num, fst (M num), map Some (snd (M num)), counted))"

lemma peer_msg_yields: "peer_msg M m \<Longrightarrow> yields (genuine M) m"
  by (auto simp: peer_msg_def yields_def genuine_def msg_inv_def)

lemma ucast_inj16: "ucast (a :: u16) = (ucast b :: u32) \<longleftrightarrow> a = b"
  by (simp add: word_unat_eq_iff unat_ucast_up)


lemma peer_msg_num: "peer_msg M m \<Longrightarrow> m_seq m = ucast num \<Longrightarrow> m_type m = fst (M num) \<and> msg_inv (snd (M num)) m"
  by (auto simp: peer_msg_def ucast_inj16)

lemma store_peer_msg:
  assumes f: "peer_fragment M input st" and l: "dtls_rx_msg_list ssl = dtls_rx_msg_list (conn st)" "heap_left ssl = heap_left (conn st)"
    and ok: "\<forall>m \<in> set (dtls_rx_msg_list (conn st)). peer_msg M m"
    and s: "DtlsMsgStore ep (ucast (ato16 (drop 4 input))) (drop DTLS_HANDSHAKE_HEADER_SZ input) (c24to32 (drop 1 input)) (input ! 0)
       (c24to32 (drop 6 input)) (c24to32 (drop 9 input)) enc ssl = Some ssl'"
  shows "\<forall>m \<in> set (dtls_rx_msg_list ssl'). peer_msg M m"
proof -
  define num where "num = ato16 (drop 4 input)"
  define body where "body = snd (M num)"
  define off where "off = c24to32 (drop 6 input)"
  define n where "n = c24to32 (drop 9 input)"
  have F: "input ! 0 = fst (M num)" "body \<noteq> []" "length body < 2 ^ 24" "c24to32 (drop 1 input) = of_nat (length body)"
      "frag_of body off (drop DTLS_HANDSHAKE_HEADER_SZ input) n" "2 \<le> heap_left ssl"
    and clean: "\<And>m. m \<in> set (dtls_rx_msg_list ssl) \<Longrightarrow> m_seq m = ucast num \<Longrightarrow> \<not> m_ready m \<Longrightarrow>
       frag_clean (m_fragBucketList m) (unat off) (unat off + unat n)"
    using f unfolding peer_fragment_def Let_def num_def[symmetric] body_def[symmetric] off_def[symmetric] n_def[symmetric] l by auto
  have ok': "\<forall>m \<in> set (dtls_rx_msg_list ssl). peer_msg M m" using ok l by simp
  from s[unfolded num_def[symmetric] F(1,4) off_def[symmetric] n_def[symmetric]] show ?thesis
  proof (cases rule: DtlsMsgStore_cases)
    case same
    then show ?thesis using ok' by simp
  next
    case (new m0 h0 h item)
    note m0 = new_msg_inv[OF F(3) new(1)]
    obtain h1 where h1: "h0 = Suc h1" using m0 F(6) by (cases h0) auto
    have cl: "\<not> m_ready m0 \<longrightarrow> frag_clean (m_fragBucketList m0) (unat off) (unat off + unat n)" using m0 by simp
    have ns: "m_type m0 = byte_of_hs no_shake \<or> m_type m0 = fst (M num) \<and> m_epoch m0 = ep \<and> m_seq m0 = ucast num" using m0 by simp
    from DtlsMsgSet_step[OF _ F(5) cl ns F(2), of enc h1] m0 new(2) h1 have
      "set_result body m0 off n (fst (M num)) ep (ucast num) h1 RC_OK item h" by auto
    then have "peer_msg M item" using m0 by (auto simp: set_result_def peer_msg_def body_def)
    then show ?thesis using ok' by (simp add: new(3))
  next
    case (old cur rc m h)
    have cur: "m_seq cur = ucast num" "m_epoch cur = ep" using old(2) by (auto simp: msg_key_def)
    have pm: "m_type cur = fst (M num)" "msg_inv body cur" using peer_msg_num[OF _ cur(1)] ok' old(1) by (auto simp: body_def)
    obtain h1 where h1: "heap_left ssl = Suc h1" using F(6) by (cases "heap_left ssl") auto
    have cl: "\<not> m_ready cur \<longrightarrow> frag_clean (m_fragBucketList cur) (unat off) (unat off + unat n)" using clean[OF old(1) cur(1)] by simp
    have key: "m_type cur = byte_of_hs no_shake \<or> m_type cur = fst (M num) \<and> m_epoch cur = ep \<and> m_seq cur = ucast num" using pm cur by simp
    from DtlsMsgSet_step[OF pm(2) F(5) cl key F(2), of enc h1] old(3) h1 have
      "set_result body cur off n (fst (M num)) ep (ucast num) h1 rc m h" by auto
    then have "peer_msg M m" using pm old(5) by (auto simp: set_result_def peer_msg_def body_def msg_key_def)
    then show ?thesis using ok' set_msg_replace[of ep "ucast num" m "dtls_rx_msg_list ssl"] by (auto simp: old(4))
  qed
qed

lemma peer_fragment_fits:
  assumes f: "peer_fragment M input st" and ok: "\<forall>m \<in> set (dtls_rx_msg_list (conn st)). peer_msg M m"
  shows "fragment_fits (genuine M) (peer_msg M) input st"
proof -
  let ?num = "ato16 (drop 4 input)" and ?n = "c24to32 (drop 9 input)"
  have whole: "genuine M (ucast ?num, input ! 0, map Some (take (unat (c24to32 (drop 1 input))) (drop DTLS_HANDSHAKE_HEADER_SZ input)), c)"
    if "c24to32 (drop 6 input) = 0" "?n = c24to32 (drop 1 input)" for c
  proof -
    have "take (unat ?n) (drop DTLS_HANDSHAKE_HEADER_SZ input) = msg_slice (snd (M ?num)) 0 (unat ?n)" "unat ?n = length (snd (M ?num))"
      using f that unat_len[of "snd (M ?num)"] by (auto simp: peer_fragment_def Let_def frag_of_def)
    then show ?thesis using f that(2) by (simp add: genuine_def peer_fragment_def Let_def msg_slice_def) blast
  qed
  show ?thesis
    unfolding fragment_fits_def Let_def
    by (intro impI conjI allI) (use whole store_peer_msg[OF f _ _ ok] in \<open>simp_all\<close>)
qed

section \<open>Properties\<close>

text \<open>
  C6. Handshake messages are delivered in order.  Whatever is received, the TLS 1.3 state machine is only
  ever given the message whose number is due, starting with the number expected at the beginning, and the
  number advances by one exactly when a message has been processed: no message is skipped, repeated after
  it was processed, or delivered early.
\<close>

theorem delivery_in_order:
  assumes "handlers_ok H" "dtls13_client st0" "handed st0 = []" "hs_run (\<lambda>_ _. True) H st0 st"
  shows "in_order (expected_num st0) (handed st) (expected_num st)"
proof -
  have "order_inv (\<lambda>_. True) (\<lambda>_. True) (expected_num st0) st"
    by (rule run_order_inv[OF assms(4,1)]) (use assms(2,3) in \<open>simp_all add: order_inv_def yields_def fragment_fits_def Let_def\<close>)
  then show ?thesis by (simp add: order_inv_def)
qed

text \<open>A state to start from: a client that waits for a \<open>ServerHello\<close>, with handlers that accept everything.\<close>

definition rx0 :: RxState where
  "rx0 = \<lparr>conn = fresh_ssl\<lparr>heap_left := 100\<rparr>, in_buf = [], in_idx = 0, in_bufferSize = 5, in_dynamic = False,
     curRL = \<lparr>rl_type = handshake, rl_pvMajor = DTLS_MAJOR, rl_pvMinor = DTLSv1_2_MINOR\<rparr>, curSize = 0, curStartIdx = 0,
     dtls13CurRL = [], decryptedCur = False, replyState = doProcessInit, ssl_error = RC_OK, dtlsHsRetain = False,
     got_change_cipher = False, got_client_hello = False, keyUpdateRespond = False, has_devId = False, disableRead = False,
     downgrade = False, alertCount = 0, isClosed = False, closeNotify = False, net_in = [], clearOutputBuffer = [], handed = []\<rparr>"

definition H0 :: Handlers where
  "H0 = \<lparr>SendAlert = (\<lambda>d st. st), DoTls13HandShakeMsgType = (\<lambda>body idx type sz tot st. (RC_OK, idx + unat sz, st)),
     DoHandShakeMsgType = (\<lambda>body idx type sz tot st. (RC_OK, idx + unat sz, st)),
     DoClientHelloStateless = (\<lambda>b st. (False, st)), chGoodCb = None\<rparr>"

lemma H0_ok: "handlers_ok H0"
  by (simp add: handlers_ok_def H0_def same_hs_def same_core_def)

lemma rx0_client: "dtls13_client rx0" "handed rx0 = []" "dtls_rx_msg_list (conn rx0) = []" "expected_num rx0 = 0"
  by (simp_all add: dtls13_client_def rx0_def fresh_ssl_def)

text \<open>The two halves of a \<open>ServerHello\<close>, the second one first.\<close>

definition half2 :: bytes where "half2 = [2, 0, 0, 2, 0, 0, 0, 0, 1, 0, 0, 1, 0xbb]"
definition half1 :: bytes where "half1 = [2, 0, 0, 2, 0, 0, 0, 0, 0, 0, 0, 1, 0xaa]"

lemma two_halves_run:
  "case Dtls13HandshakeRecv_body H0 half2 rx0 of
       Some (rc, k, st1) \<Rightarrow>
         map (\<lambda>m. (m_seq m, m_fragBucketList m)) (dtls_rx_msg_list (conn st1)) = [(0, [\<lparr>fb_offset = 1, fb_sz = 1, fb_buf = [Some 0xbb]\<rparr>])] \<and>
         2 \<le> heap_left (conn st1) \<and>
         (case Dtls13HandshakeRecv_body H0 half1 st1 of
            Some (rc, k, st2) \<Rightarrow> rc = RC_OK \<and> handed st2 = [(0, 2, [Some 0xaa, Some 0xbb], True)]
          | None \<Rightarrow> False)
     | None \<Rightarrow> False"
  by code_simp

lemma two_halves:
  obtains rc1 k1 st1 rc2 k2 st2 m where "Dtls13HandshakeRecv_body H0 half2 rx0 = Some (rc1, k1, st1)"
    "Dtls13HandshakeRecv_body H0 half1 st1 = Some (rc2, k2, st2)" "handed st2 = [(0, 2, [Some 0xaa, Some 0xbb], True)]"
    "dtls_rx_msg_list (conn st1) = [m]" "m_fragBucketList m = [\<lparr>fb_offset = 1, fb_sz = 1, fb_buf = [Some 0xbb]\<rparr>]" "2 \<le> heap_left (conn st1)"
  using two_halves_run by (auto split: option.splits prod.splits)

theorem delivery_in_order_witness:
  "\<exists>st. hs_run (\<lambda>_ _. True) H0 rx0 st \<and> handed st = [(0, 2, [Some 0xaa, Some 0xbb], True)] \<and>
     in_order 0 (handed st) (expected_num st)"
proof -
  obtain rc1 k1 st1 rc2 k2 st2 where r: "Dtls13HandshakeRecv_body H0 half2 rx0 = Some (rc1, k1, st1)"
    "Dtls13HandshakeRecv_body H0 half1 st1 = Some (rc2, k2, st2)" "handed st2 = [(0, 2, [Some 0xaa, Some 0xbb], True)]"
    by (rule two_halves)
  have "hs_run (\<lambda>_ _. True) H0 rx0 st2" by (rule hs_run.recv[OF hs_run.recv[OF hs_run.start _ r(1)] _ r(2)]) simp_all
  with delivery_in_order[OF H0_ok rx0_client(1,2) this] r(3) rx0_client(4) show ?thesis by auto
qed

text \<open>
  C7. Handshake messages are delivered unchanged.  The peer's messages arrive in fragments, in any
  order and number of copies, none of them a fragment the reassembly is known to merge wrongly.  Then
  every message the TLS 1.3 state machine is given is, byte for byte, the peer's message with that number,
  and the messages come in order.
\<close>

theorem delivery_genuine:
  assumes "handlers_ok H" "dtls13_client st0" "handed st0 = []" "dtls_rx_msg_list (conn st0) = []" "hs_run (peer_fragment M) H st0 st"
  shows "in_order (expected_num st0) (handed st) (expected_num st) \<and> (\<forall>d \<in> set (handed st). genuine M d)"
proof -
  have "order_inv (genuine M) (peer_msg M) (expected_num st0) st"
    by (rule run_order_inv[OF assms(5,1) peer_msg_yields _ peer_fragment_fits]) (use assms(2-4) in \<open>simp_all add: order_inv_def\<close>)
  then show ?thesis by (simp add: order_inv_def)
qed

theorem delivery_genuine_witness:
  "\<exists>st. hs_run (peer_fragment (\<lambda>_. (2, [0xaa, 0xbb]))) H0 rx0 st \<and> handed st \<noteq> [] \<and>
     (\<forall>d \<in> set (handed st). genuine (\<lambda>_. (2, [0xaa, 0xbb])) d)"
proof -
  let ?M = "\<lambda>_ :: u16. (2 :: u8, [0xaa, 0xbb] :: bytes)"
  obtain rc1 k1 st1 rc2 k2 st2 m where r: "Dtls13HandshakeRecv_body H0 half2 rx0 = Some (rc1, k1, st1)"
    "Dtls13HandshakeRecv_body H0 half1 st1 = Some (rc2, k2, st2)" "handed st2 = [(0, 2, [Some 0xaa, Some 0xbb], True)]"
    and l: "dtls_rx_msg_list (conn st1) = [m]" "m_fragBucketList m = [\<lparr>fb_offset = 1, fb_sz = 1, fb_buf = [Some 0xbb]\<rparr>]"
      "2 \<le> heap_left (conn st1)"
    by (rule two_halves)
  have "peer_fragment ?M half2 rx0"
    by (simp add: peer_fragment_def half2_def rx0_def fresh_ssl_def frag_of_def msg_slice_def c24to32_def ato16_def Let_def)
  moreover have "peer_fragment ?M half1 st1"
    using l(3) by (simp add: peer_fragment_def half1_def l(1,2) frag_of_def msg_slice_def frag_clean_def c24to32_def ato16_def Let_def)
  ultimately have "hs_run (peer_fragment ?M) H0 rx0 st2"
    by (intro hs_run.recv[OF hs_run.recv[OF hs_run.start _ r(1)] _ r(2)])
  with delivery_genuine[OF H0_ok rx0_client(1-3) this] r(3) show ?thesis by auto
qed

section \<open>A stale fragment\<close>

definition stale_head :: "RxState \<Rightarrow> bool" where
  "stale_head st \<longleftrightarrow> (case dtls_rx_msg_list (conn st) of m # _ \<Rightarrow> m_seq m < ucast (expected_num st) | [] \<Rightarrow> False)"

lemma stale_not_complete: "stale_head st \<Longrightarrow> \<not> Dtls13NextMessageComplete (conn st)"
  by (auto simp: stale_head_def Dtls13NextMessageComplete_def split: list.splits)

lemma store_keeps_head:
  assumes "DtlsMsgStore ep seq data sz type off n enc ssl = Some ssl'" "dtls_rx_msg_list ssl = m # rest" "m_seq m < seq"
  shows "\<exists>rest'. dtls_rx_msg_list ssl' = m # rest'"
  using assms(1) by (cases rule: DtlsMsgStore_cases) (use assms(2,3) in \<open>auto simp: msg_key_def\<close>)

lemma ucast_less16: "ucast (a :: u16) < (ucast b :: u32) \<longleftrightarrow> a < b"
  by (simp add: word_less_nat_alt unat_ucast_up)

lemma stale_same: "same_hs st st' \<Longrightarrow> stale_head st \<Longrightarrow> stale_head st'"
  by (auto simp: stale_head_def same_hs_def same_core_def split: list.splits)

lemma stale_store:
  assumes cl: "dtls13_client st" and stale: "stale_head st" and le: "expected_num st \<le> peer_num st"
    and step: "store_fragment H input type len off n st = Some (rc, k, st')"
  shows "dtls13_client st' \<and> stale_head st' \<and> handed st' = handed st"
proof (cases "dtls_rx_msg_list_sz (conn st) < DTLS_POOL_SZ")
  case True
  then obtain ssl' where ssl': "DtlsMsgStore (ucast (w64GetLow32 (curEpoch64 (keys (conn st))))) (ucast (peer_num st))
        (drop DTLS_HANDSHAKE_HEADER_SZ input) len type off n (decryptedCur st) (conn st) = Some ssl'"
    using step unfolding store_fragment_def by (auto simp: bind_eq_Some_conv)
  obtain m rest where m: "dtls_rx_msg_list (conn st) = m # rest" "m_seq m < ucast (expected_num st)"
    using stale by (auto simp: stale_head_def split: list.splits)
  have "ucast (expected_num st) \<le> (ucast (peer_num st) :: u32)" using le ucast_less16[of "peer_num st" "expected_num st"] by (simp add: not_less[symmetric])
  with m(2) have "m_seq m < ucast (peer_num st)" by simp
  from store_keeps_head[OF ssl' m(1) this] have st1: "stale_head (st\<lparr>conn := ssl'\<rparr>)"
    using m(2) DtlsMsgStore_keeps(1)[OF ssl'] by (auto simp: stale_head_def)
  have "st' = st\<lparr>conn := ssl'\<rparr>"
    using step True ssl' stale_not_complete[OF st1] unfolding store_fragment_def Let_def by simp
  then show ?thesis using st1 cl DtlsMsgStore_keeps[OF ssl'] by (simp add: dtls13_client_def)
qed (use step cl stale in \<open>auto simp: store_fragment_def\<close>)

lemma stale_hand_over:
  assumes H: "handlers_ok H" and cl: "dtls13_client st" and stale: "stale_head st" and wrap: "expected_num st \<noteq> 0xffff"
    and step: "hand_over H input type len st = (rc, k, st')"
  shows "dtls13_client st' \<and> stale_head st' \<and> (\<exists>body c. handed st' = handed st @ [(ucast (peer_num st), type, body, c)])"
proof -
  obtain rc1 i st1 where r: "DoTls13HandShakeMsgType H (map Some input) DTLS_HANDSHAKE_HEADER_SZ type len (length input) st = (rc1, i, st1)"
    by (cases "DoTls13HandShakeMsgType H (map Some input) DTLS_HANDSHAKE_HEADER_SZ type len (length input) st")
  note same = handlers_msg[OF H r]
  define d where "d = (ucast (peer_num st) :: u32, type, map Some (take (unat len) (drop DTLS_HANDSHAKE_HEADER_SZ input)), rc1 = RC_OK)"
  define st2 where "st2 = log_delivery d (st1\<lparr>handed := handed st\<rparr>)"
  define st3 where "st3 = st2\<lparr>conn := Dtls13MsgWasProcessed (hs_of_byte type) (conn st2)\<rparr>"
  have c2: "conn st2 = conn st1" "handed st2 = handed st @ [d]" by (simp_all add: st2_def log_delivery_def)
  have cl2: "dtls13_client st2" using same_core_client[OF same] cl by (simp add: dtls13_client_def c2)
  note pk = processed_keeps[OF cl2 refl]
  have s2: "stale_head st2" "expected_num st2 = expected_num st" using same stale by (auto simp: c2 stale_head_def same_core_def split: list.splits)
  have "expected_num st < expected_num st + 1"
    using wrap unat_lt_pow[of "expected_num st"] by (simp add: word_less_nat_alt unat_word_ariths word_unat_eq_iff mod_Suc)
  then have "(ucast (expected_num st) :: u32) < ucast (expected_num st + 1)" by (simp add: ucast_less16)
  then have s3: "stale_head st3" "dtls13_client st3" "handed st3 = handed st2"
    using s2 cl2 by (auto simp: stale_head_def st3_def pk dtls13_client_def split: list.splits)
  have "st' = (if rc1 = RC_OK then st3 else st2)"
    using step stale_not_complete[OF s3(1)]
    unfolding hand_over_def r Let_def prod.case d_def[symmetric] st2_def[symmetric] st3_def[symmetric] by (auto split: if_splits)
  then show ?thesis using s2 s3 cl2 c2 by (auto simp: d_def)
qed

text \<open>With a stale head a call stores a fragment or hands over the message it carries, nothing else.\<close>

lemma stale_step:
  assumes H: "handlers_ok H" and cl: "dtls13_client st" and stale: "stale_head st" and wrap: "expected_num st \<noteq> 0xffff"
    and step: "Dtls13HandshakeRecv_body H input st = Some (rc, k, st')"
  shows "dtls13_client st' \<and> stale_head st' \<and> (handed st' = handed st \<or>
    c24to32 (drop 6 input) = 0 \<and> c24to32 (drop 9 input) = c24to32 (drop 1 input) \<and>
    (\<exists>type body c. handed st' = handed st @ [(ucast (ato16 (drop 4 input)), type, body, c)]))"
  using H cl step
proof (cases rule: HandshakeRecv_cases)
  case keep
  then show ?thesis using cl stale_same[OF keep stale] same_core_client[of st st'] by (simp add: same_hs_def)
next
  case (store st1)
  have "dtls13_client st1" "handed st1 = handed st" using store(1) cl same_core_client[of st st1] by (simp_all add: same_hs_def)
  then show ?thesis using stale_store[OF _ stale_same[OF store(1) stale] store(6,7)] by simp
next
  case (over st1)
  have "dtls13_client st1" "handed st1 = handed st" "expected_num st1 \<noteq> 0xffff"
    using over(1) cl wrap same_core_client[of st st1] by (simp_all add: same_hs_def same_core_def)
  then show ?thesis using stale_hand_over[OF H _ stale_same[OF over(1) stale] _ over(8)] over(2,5,6) by auto
qed

text \<open>
  C38. A left-over fragment blocks the handshake.  If the first buffered message has a number below the
  expected one (a fragment of a message that has been processed from an unfragmented copy, which anyone can
  inject before encryption is on), the buffered messages are never looked at again: a message \<open>N\<close> that
  arrives only in fragments is never delivered, however often the peer retransmits it.
\<close>

theorem stale_fragment_blocks:
  assumes "handlers_ok H" "dtls13_client st0" "stale_head st0" "handed st0 = []"
    and "hs_run (\<lambda>input st. expected_num st \<noteq> 0xffff \<and>
           (ato16 (drop 4 input) = N \<longrightarrow> c24to32 (drop 6 input) \<noteq> 0 \<or> c24to32 (drop 9 input) \<noteq> c24to32 (drop 1 input))) H st0 st"
  shows "stale_head st \<and> (\<forall>(num, type, body, counted) \<in> set (handed st). num \<noteq> ucast N)"
proof -
  have "dtls13_client st \<and> stale_head st \<and> (\<forall>(num, type, body, counted) \<in> set (handed st). num \<noteq> ucast N)"
    using assms(5)
  proof (induction rule: hs_run.induct)
    case start
    then show ?case using assms(2-4) by simp
  next
    case (recv st input rc k st')
    then show ?case using stale_step[OF assms(1) _ _ _ recv.hyps(3)] by (auto simp: ucast_inj16)
  next
    case (other st st')
    then show ?case using stale_same[OF other.hyps(2)] same_core_client[of st st'] by (simp add: same_hs_def)
  qed
  then show ?thesis by blast
qed

text \<open>
  A witness: after a first fragment of a \<open>ServerHello\<close> its complete copy is processed, then both halves of
  the next message arrive.
\<close>

definition whole_hello :: bytes where "whole_hello = [2, 0, 0, 2, 0, 0, 0, 0, 0, 0, 0, 2, 0xaa, 0xbb]"
definition next1 :: bytes where "next1 = [2, 0, 0, 2, 0, 1, 0, 0, 0, 0, 0, 1, 0xcc]"
definition next2 :: bytes where "next2 = [2, 0, 0, 2, 0, 1, 0, 0, 1, 0, 0, 1, 0xdd]"

lemma stale_run:
  "case Dtls13HandshakeRecv_body H0 half1 rx0 of
       Some (_, _, a) \<Rightarrow> (case Dtls13HandshakeRecv_body H0 whole_hello a of
         Some (_, _, b) \<Rightarrow> expected_num b = 1 \<and> map m_seq (dtls_rx_msg_list (conn b)) = [0] \<and> dtls13_client b \<and>
           (case Dtls13HandshakeRecv_body H0 next1 (b\<lparr>handed := []\<rparr>) of
              Some (_, _, c) \<Rightarrow> expected_num c = 1 \<and>
                (case Dtls13HandshakeRecv_body H0 next2 c of
                   Some (_, _, d) \<Rightarrow> map m_ready (dtls_rx_msg_list (conn d)) = [False, True] | None \<Rightarrow> False)
            | None \<Rightarrow> False)
       | None \<Rightarrow> False)
     | None \<Rightarrow> False"
  by code_simp

lemma option_tripleE:
  "(case x of Some (a, b, c) \<Rightarrow> P a b c | None \<Rightarrow> False) \<Longrightarrow> (\<And>a b c. x = Some (a, b, c) \<Longrightarrow> P a b c \<Longrightarrow> thesis) \<Longrightarrow> thesis"
  by (auto split: option.splits)

lemma stale_run_states:
  obtains b c d where "stale_head b" "dtls13_client b" "handed b = []" "expected_num b = 1" "expected_num c = 1"
    "\<exists>rc k. Dtls13HandshakeRecv_body H0 next1 b = Some (rc, k, c)" "\<exists>rc k. Dtls13HandshakeRecv_body H0 next2 c = Some (rc, k, d)"
    "map m_ready (dtls_rx_msg_list (conn d)) = [False, True]"
proof -
  obtain b c d where b: "expected_num b = 1" "map m_seq (dtls_rx_msg_list (conn b)) = [0]" "dtls13_client b"
    and c: "\<exists>rc k. Dtls13HandshakeRecv_body H0 next1 (b\<lparr>handed := []\<rparr>) = Some (rc, k, c)" "expected_num c = 1"
    and d: "\<exists>rc k. Dtls13HandshakeRecv_body H0 next2 c = Some (rc, k, d)" "map m_ready (dtls_rx_msg_list (conn d)) = [False, True]"
    using stale_run by (elim option_tripleE conjE) metis
  have "stale_head (b\<lparr>handed := []\<rparr>)" "dtls13_client (b\<lparr>handed := []\<rparr>)"
    using b by (auto simp: stale_head_def dtls13_client_def)
  from that[OF this _ _ c(2,1) d] b(1) show thesis by simp
qed

theorem stale_fragment_blocks_witness:
  "\<exists>b d. stale_head b \<and> (\<exists>m. m \<in> set (dtls_rx_msg_list (conn d)) \<and> m_ready m) \<and> stale_head d \<and>
     (\<forall>(num, type, body, counted) \<in> set (handed d). num \<noteq> ucast (1 :: u16))"
proof -
  let ?P = "\<lambda>input st. expected_num st \<noteq> 0xffff \<and>
     (ato16 (drop 4 input) = 1 \<longrightarrow> c24to32 (drop 6 input) \<noteq> 0 \<or> c24to32 (drop 9 input) \<noteq> c24to32 (drop 1 input))"
  obtain b c d where s: "stale_head b" "dtls13_client b" "handed b = []" "expected_num b = 1" "expected_num c = 1"
    and r: "\<exists>rc k. Dtls13HandshakeRecv_body H0 next1 b = Some (rc, k, c)" "\<exists>rc k. Dtls13HandshakeRecv_body H0 next2 c = Some (rc, k, d)"
    and ready: "map m_ready (dtls_rx_msg_list (conn d)) = [False, True]"
    by (rule stale_run_states)
  have p: "?P next1 b" "?P next2 c" using s(4,5) by (simp_all add: next1_def next2_def c24to32_def ato16_def)
  have "hs_run ?P H0 b d" using r hs_run.recv[OF hs_run.recv[where P = ?P, OF hs_run.start p(1)] p(2)] by blast
  from stale_fragment_blocks[OF H0_ok s(2,1,3) this] s(1) ready show ?thesis by (intro exI[of _ b] exI[of _ d]) auto
qed

end
