(* ===== verification/Dtls13Receive.thy ===== *)
theory Dtls13Receive
  imports Dtls13Delivery
begin

text \<open>
  The reception of records (\<open>src/internal.c\<close>): \<open>DoProcessReplyEx\<close> with the functions it calls.  It is a
  state machine whose states fall through to each other; a pass either returns to the caller or starts
  again (\<open>continue\<close>).  The branches for TLS and for DTLS before version 1.3 are not part of the model.

  The results of the receive callback are the list \<open>net_in\<close>.  Ciphers, the message handlers, the release of
  the handshake resources and the repetition of a pending alert are the functions of the record \<open>Env\<close>.
  Where the index of the input buffer is behind its end the code computes a negative length and stores it in
  the unsigned length field: such a call has no result (\<^const>\<open>None\<close>).
\<close>

record Env =
  gcm_set_key :: "bytes \<Rightarrow> wolf_rc"
  aes_set_key :: "bytes \<Rightarrow> wolf_rc"
  aes_ecb :: "bytes \<Rightarrow> bytes \<Rightarrow> wolf_rc + bytes"
  gcm_dec :: gcm
  derive_keys :: "WOLFSSL \<Rightarrow> wolf_rc \<times> WOLFSSL"
  handlers :: Handlers
  FreeHandshakeResources :: "RxState \<Rightarrow> RxState"
  RetrySendAlert :: "RxState \<Rightarrow> wolf_rc \<times> RxState"

datatype outcome = Return wolf_rc | Again

abbreviation alert_to_peer :: "Env \<Rightarrow> u8 \<Rightarrow> RxState \<Rightarrow> RxState" where
  "alert_to_peer E \<equiv> SendAlert (handlers E)"

definition record_overflow :: u8 where [simp]: "record_overflow = 22"
definition illegal_parameter :: u8 where [simp]: "illegal_parameter = 47"
definition protocol_version :: u8 where [simp]: "protocol_version = 70"
definition close_notify :: u8 where [simp]: "close_notify = 0"
definition decrypt_error :: u8 where [simp]: "decrypt_error = 51"
definition alert_fatal :: u8 where [simp]: "alert_fatal = 2"
definition ALERT_SIZE :: u32 where [simp]: "ALERT_SIZE = 2"
definition WOLFSSL_ALERT_COUNT_MAX :: nat where [simp]: "WOLFSSL_ALERT_COUNT_MAX = 5"
definition DTLSv1_3_MINOR :: u8 where [simp]: "DTLSv1_3_MINOR = 0xfc"
definition DTLS_MINOR :: u8 where [simp]: "DTLS_MINOR = 0xff"
definition ACCEPT_FIRST_REPLY_DONE :: nat where [simp]: "ACCEPT_FIRST_REPLY_DONE = 4"
definition MAX_RECORD_LENGTH :: nat where [simp]: "MAX_RECORD_LENGTH = 16384 + 1024 + (38 + 64)"
definition MAX_TLS13_ENC_SZ :: nat where [simp]: "MAX_TLS13_ENC_SZ = 2 ^ 14 + 256"
definition MAX_TLS13_PLAIN_SZ :: nat where [simp]: "MAX_TLS13_PLAIN_SZ = 2 ^ 14 + 1"
definition DTLS_MTU_ADDITIONAL_READ_BUFFER :: nat where [simp]: "DTLS_MTU_ADDITIONAL_READ_BUFFER = 500"
definition DTLS13_EPOCH_EARLYDATA :: u64 where [simp]: "DTLS13_EPOCH_EARLYDATA = 1"

section \<open>The input buffer\<close>

text \<open>
  The read loop of \<open>GetInputData\<close>: datagrams shorter than the wanted size are skipped.  An empty list of
  results means that nothing has arrived.
\<close>

fun recv_loop :: "nat \<Rightarrow> nat \<Rightarrow> (wolf_rc + bytes) list \<Rightarrow> bytes \<Rightarrow> wolf_rc \<times> bytes \<times> (wolf_rc + bytes) list" where
  "recv_loop sz inSz [] buf = (WANT_READ, buf, [])"
| "recv_loop sz inSz (Inl rc # q) buf = (if rc = WANT_READ then WANT_READ else SOCKET_ERROR_E, buf, q)"
| "recv_loop sz inSz (Inr d # q) buf =
     (if inSz < length d then (RECV_OVERFLOW_E, buf, q)
      else if length d < sz
      then (if length buf < sz then recv_loop sz inSz q buf else (RC_OK, buf, q))
      else if length (buf @ d) < sz then recv_loop sz (inSz - length d) q (buf @ d)
      else (RC_OK, buf @ d, q))"

definition GetInputData :: "nat \<Rightarrow> RxState \<Rightarrow> (wolf_rc \<times> RxState) option" where
  "GetInputData sz st =
     (if disableRead st then Some (WANT_READ, st)
      else if length (in_buf st) < in_idx st then None
      else
        (let used = length (in_buf st) - in_idx st;
             inSz = dtlsMtuSz (conn st) + DTLS_MTU_ADDITIONAL_READ_BUFFER;
             grown = (if in_bufferSize st < used + inSz
                      then (case xmalloc (conn st) of
                              None \<Rightarrow> None
                            | Some ssl \<Rightarrow> Some (st\<lparr>conn := ssl, in_bufferSize := max sz inSz + used, in_dynamic := True\<rparr>))
                      else Some st)
         in case grown of
              None \<Rightarrow> Some (MEMORY_E, st)
            | Some st \<Rightarrow>
                (let (rc, buf, q) = recv_loop sz inSz (net_in st) (drop (in_idx st) (in_buf st))
                 in Some (rc, st\<lparr>in_buf := buf, in_idx := 0, net_in := q\<rparr>))))"

definition ShrinkInputBuffer :: "RxState \<Rightarrow> RxState option" where
  "ShrinkInputBuffer st =
     (if STATIC_BUFFER_LEN < length (in_buf st) - in_idx st \<or> clearOutputBuffer st \<noteq> [] then Some st
      else if length (in_buf st) < in_idx st then None
      else Some (st\<lparr>in_buf := drop (in_idx st) (in_buf st), in_idx := 0, in_bufferSize := STATIC_BUFFER_LEN, in_dynamic := False\<rparr>))"

definition shrink_if_dynamic :: "wolf_rc \<Rightarrow> RxState \<Rightarrow> RxState option" where
  "shrink_if_dynamic ret st = (if ret = RC_OK \<and> in_dynamic st then ShrinkInputBuffer st else Some st)"

definition DropAndRestartProcessReply :: "RxState \<Rightarrow> RxState" where
  "DropAndRestartProcessReply st = st\<lparr>replyState := doProcessInit, in_buf := [], in_idx := 0\<rparr>"

section \<open>The record header\<close>

text \<open>The check of the version; \<open>first\<close> is the first byte of the input buffer.\<close>

definition check_version :: "RecordLayerHeader \<Rightarrow> RxState \<Rightarrow> wolf_rc" where
  "check_version rh st =
     (let opts = options (conn st) in
      if rl_pvMajor rh \<noteq> DTLS_MAJOR \<or> (rl_pvMinor rh \<noteq> DTLSv1_3_MINOR \<and> rl_pvMinor rh \<noteq> DTLSv1_2_MINOR)
      then
        (if opt_side opts = WOLFSSL_SERVER_END \<and> acceptState opts < ACCEPT_FIRST_REPLY_DONE then RC_OK
         else if opt_side opts = WOLFSSL_CLIENT_END \<and> downgrade st \<and>
                 connectState opts \<in> {CONNECT_BEGIN, CLIENT_HELLO_SENT, HELLO_AGAIN, HELLO_AGAIN_REPLY} then RC_OK
         else if rl_type rh = handshake then RC_OK
         else if \<not> handShakeDone opts
         then (if Dtls13IsUnifiedHeader (in_buf st ! 0) then SEQUENCE_ERROR else RC_OK)
         else if \<not> (opt_side opts = WOLFSSL_CLIENT_END \<and> connectState opts = CLIENT_HELLO_SENT \<and> rl_type rh = alert \<and>
                     rl_pvMajor rh = DTLS_MAJOR \<and> rl_pvMinor rh = DTLS_MINOR)
         then VERSION_ERROR
         else RC_OK)
      else RC_OK)"

definition GetRecordHeader :: "Env \<Rightarrow> RxState \<Rightarrow> wolf_rc \<times> RxState" where
  "GetRecordHeader E st =
     (let input = drop (in_idx st) (in_buf st) in
      case GetDtlsRecordHeader (gcm_set_key E) (aes_set_key E) (aes_ecb E) input (conn st) of
        (Inl rc, ssl) \<Rightarrow> (rc, st\<lparr>conn := ssl\<rparr>)
      | (Inr (rh, sz, hdrSz, input'), ssl) \<Rightarrow>
          (let st = st\<lparr>conn := ssl, in_buf := take (in_idx st) (in_buf st) @ input', in_idx := in_idx st + hdrSz,
                       curRL := rh, curSize := unat sz,
                       dtls13CurRL := (if Dtls13IsUnifiedHeader (input ! 0) then take hdrSz input' else dtls13CurRL st)\<rparr>;
               ret = check_version rh st
           in if ret \<noteq> RC_OK then (ret, st)
              else if MAX_RECORD_LENGTH < unat sz then (LENGTH_ERROR, st)
              else if sz = 0 \<and> rl_type rh \<noteq> application_data then (LENGTH_ERROR, st)
              else if rl_type rh \<notin> {handshake, change_cipher_spec, application_data, alert, ack} then (UNKNOWN_RECORD_TYPE, st)
              else (RC_OK, st\<lparr>decryptedCur := False\<rparr>)))"

definition DtlsShouldDrop :: "wolf_rc \<Rightarrow> RxState \<Rightarrow> bool" where
  "DtlsShouldDrop retcode st =
     (let opts = options (conn st) in
      if handShakeDone opts \<and> \<not> IsEncryptionOn False (conn st) \<and> \<not> dtlsHsRetain st then True
      else if handShakeDone opts \<and> retcode \<noteq> RC_OK \<or> retcode = SEQUENCE_ERROR \<or> retcode = DTLS_PARTIAL_RECORD_READ then True
      else if tls1_3 opts \<and> \<not> w64IsZero (dtls13Epoch (epochs (conn st))) \<and> w64IsZero (curEpoch64 (keys (conn st))) \<and>
              rl_type (curRL st) \<noteq> ack then True
      else if opt_side opts = WOLFSSL_SERVER_END \<and> rl_type (curRL st) \<noteq> handshake \<and> \<not> dtlsStateful opts then True
      else False)"

definition HandleDTLSDecryptFailed :: "RxState \<Rightarrow> wolf_rc \<times> RxState" where
  "HandleDTLSDecryptFailed st = (let (rc, ssl) = Dtls13CheckAEADFailLimit (conn st) in (rc, st\<lparr>conn := ssl\<rparr>))"

section \<open>Messages\<close>

definition set_sendAcks :: "RxState \<Rightarrow> RxState" where
  "set_sendAcks st = st\<lparr>conn := (conn st)\<lparr>dtls13Rtx := (dtls13Rtx (conn st))\<lparr>sendAcks := True\<rparr>\<rparr>\<rparr>"

text \<open>After data of the peer's new epoch the older ones are closed for reception, if that was planned.\<close>

definition invalidate_older :: "u64 \<Rightarrow> WOLFSSL \<Rightarrow> WOLFSSL" where
  "invalidate_older epoch ssl =
     (let eps = epochs ssl in
      if \<not> w64IsZero (dtls13InvalidateBefore eps) \<and> w64Equal epoch (dtls13InvalidateBefore eps)
      then ssl\<lparr>epochs := (Dtls13SetOlderEpochSide (dtls13InvalidateBefore eps) ENCRYPT_SIDE_ONLY eps)\<lparr>dtls13InvalidateBefore := 0\<rparr>\<rparr>
      else ssl)"

text \<open>Early data and compression are not compiled in.\<close>

definition DoApplicationData :: "Env \<Rightarrow> RxState \<Rightarrow> wolf_rc \<times> RxState" where
  "DoApplicationData E st =
     (let epoch = curEpoch64 (keys (conn st)) in
      if w64Equal epoch (w64From32 0 DTLS13_EPOCH_HANDSHAKE) \<or> w64Equal epoch (w64From32 0 0) then (SANITY_MSG_E, st)
      else if \<not> handShakeDone (options (conn st))
      then
        (let st = st\<lparr>in_idx := in_idx st + curSize st\<rparr> in
         if length (in_buf st) < in_idx st then (BUFFER_E, st)
         else (RC_OK, if \<not> w64Equal epoch DTLS13_EPOCH_EARLYDATA then set_sendAcks st else st))
      else
        (let st = st\<lparr>conn := invalidate_older epoch (conn st)\<rparr>;
             dataSz = int (curSize st) - uint (padSz (keys (conn st)))
         in if dataSz < 0 then (BUFFER_ERROR, alert_to_peer E unexpected_message st)
            else
              (let st = (if dataSz \<noteq> 0 then st\<lparr>clearOutputBuffer := take (nat dataSz) (drop (in_idx st) (in_buf st))\<rparr> else st);
                   st = st\<lparr>in_idx := in_idx st + nat dataSz + unat (padSz (keys (conn st)))\<rparr>
               in (if connectState (options (conn st)) = WAIT_FINISHED_ACK then APP_DATA_READY else RC_OK, st))))"

text \<open>The result of \<open>DoAlert\<close> is an error or the level and the description.\<close>

definition DoAlert :: "RxState \<Rightarrow> (wolf_rc + u8 \<times> u8) \<times> RxState" where
  "DoAlert st =
     (let pad = padSz (keys (conn st));
          dataSz = (of_nat (curSize st) :: u32) - (if IsEncryptionOn False (conn st) then pad else 0)
      in if dataSz \<noteq> ALERT_SIZE then (Inl BUFFER_E, st)
         else
           (let level = in_buf st ! in_idx st; code = in_buf st ! (in_idx st + 1);
                st = st\<lparr>in_idx := in_idx st + 2, isClosed := isClosed st \<or> level = alert_fatal, alertCount := alertCount st + 1\<rparr>
            in if WOLFSSL_ALERT_COUNT_MAX \<le> alertCount st then (Inl ALERT_COUNT_E, st)
               else
                 (let st = st\<lparr>closeNotify := closeNotify st \<or> code = close_notify\<rparr>
                  in (Inr (level, code),
                      if IsEncryptionOn False (conn st) then st\<lparr>in_idx := in_idx st + unat pad\<rparr> else st))))"

text \<open>The cases of the content type: \<open>Inl rc\<close> returns \<open>rc\<close> at once, \<open>Inr ret\<close> goes on with \<open>ret\<close>.\<close>

definition handshake_msg :: "Env \<Rightarrow> RxState \<Rightarrow> ((wolf_rc + wolf_rc) \<times> RxState) option" where
  "handshake_msg E st =
     do { (ret, st) \<leftarrow> Dtls13HandshakeRecv (handlers E) st;
          let st = (if ret = RC_OK \<or> ret = WC_PENDING_E
                    then st\<lparr>conn := (conn st)\<lparr>timers := (timers (conn st))\<lparr>dtls_timeout := dtls_timeout_init (timers (conn st))\<rparr>\<rparr>\<rparr>
                    else st);
          Some (if ret \<noteq> RC_OK \<and> ret \<noteq> WANT_WRITE then Inl ret else Inr ret, st) }"

definition change_cipher_msg :: "Env \<Rightarrow> RxState \<Rightarrow> (wolf_rc + wolf_rc) \<times> RxState" where
  "change_cipher_msg E st =
     (let fail = (\<lambda>desc st. (Inl UNKNOWN_RECORD_TYPE, alert_to_peer E desc st)) in
      if handShakeState (options (conn st)) = HANDSHAKE_DONE then fail unexpected_message st
      else if curSize st \<noteq> 1 \<or> in_buf st ! in_idx st \<noteq> 1 then fail unexpected_message st
      else
        (let st = st\<lparr>in_idx := in_idx st + 1\<rparr> in
         if opt_side (options (conn st)) = WOLFSSL_SERVER_END \<and> \<not> got_client_hello st then fail unexpected_message st
         else if got_change_cipher st then fail illegal_parameter st
         else
           (let st = st\<lparr>got_change_cipher := True\<rparr> in
            if decryptedCur st then fail unexpected_message st else (Inr RC_OK, st))))"

definition application_msg :: "Env \<Rightarrow> RxState \<Rightarrow> (wolf_rc + wolf_rc) \<times> RxState" where
  "application_msg E st =
     (let st = (if dtlsHsRetain st then (FreeHandshakeResources E st)\<lparr>dtlsHsRetain := False\<rparr> else st) in
      if keyUpdateRespond st then (Inl SANITY_MSG_E, st)
      else
        (let (ret, st) = DoApplicationData E st
         in (if ret \<noteq> RC_OK \<and> ret \<noteq> APP_DATA_READY then Inl ret else Inr ret, st)))"

definition alert_msg :: "RxState \<Rightarrow> (wolf_rc + wolf_rc) \<times> RxState" where
  "alert_msg st =
     (case DoAlert st of
        (Inl rc, st) \<Rightarrow> (Inl rc, st)
      | (Inr (level, type), st) \<Rightarrow>
          if level = alert_fatal then (Inl FATAL_ERROR, st)
          else if type = close_notify
          then (Inl ZERO_RETURN, st\<lparr>in_idx := length (in_buf st), replyState := doProcessInit, ssl_error := ZERO_RETURN\<rparr>)
          else if type = decrypt_error then (Inl FATAL_ERROR, st)
          else (Inr RC_OK, st))"

definition ack_msg :: "Env \<Rightarrow> RxState \<Rightarrow> (wolf_rc + wolf_rc) \<times> RxState" where
  "ack_msg E st =
     (let pad = unat (padSz (keys (conn st)));
          input = take (length (in_buf st) - in_idx st - pad) (drop (in_idx st) (in_buf st))
      in case DoDtls13Ack (gcm_set_key E) (aes_set_key E) (derive_keys E) input (conn st) of
           (Inl rc, ssl) \<Rightarrow> (Inl rc, st\<lparr>conn := ssl, in_idx := in_idx st + pad\<rparr>)
         | (Inr n, ssl) \<Rightarrow> (Inr RC_OK, st\<lparr>conn := ssl, in_idx := in_idx st + n + pad\<rparr>))"

definition process_msg :: "Env \<Rightarrow> RxState \<Rightarrow> ((wolf_rc + wolf_rc) \<times> RxState) option" where
  "process_msg E st =
     (let type = rl_type (curRL st) in
      if type = handshake then handshake_msg E st
      else if type = change_cipher_spec then Some (change_cipher_msg E st)
      else if type = application_data then Some (application_msg E st)
      else if type = alert then Some (alert_msg st)
      else if type = ack then Some (ack_msg E st)
      else Some (Inl UNKNOWN_RECORD_TYPE, st))"

section \<open>The state machine\<close>

text \<open>After a message: more messages in the record, more records, or the end of the input.\<close>

definition after_msg :: "wolf_rc \<Rightarrow> RxState \<Rightarrow> (outcome \<times> RxState) option" where
  "after_msg ret st =
     (let st = st\<lparr>replyState := doProcessInit\<rparr>;
          opts = options (conn st)
      in if length (in_buf st) \<le> in_idx st \<or> rl_type (curRL st) = application_data \<or>
            (opt_side opts = WOLFSSL_CLIENT_END \<and> serverState opts = SERVER_FINISHED_COMPLETE \<and> handShakeState opts \<noteq> HANDSHAKE_DONE)
         then do { st \<leftarrow> shrink_if_dynamic ret st; Some (Return ret, st) }
         else
           (let more = (of_nat (in_idx st) - of_nat (curStartIdx st) :: u32) < of_nat (curSize st);
                pad = unat (padSz (keys (conn st)));
                st = (if more then st\<lparr>replyState := runProcessingOneMessage\<rparr> else st)
            in if more \<and> IsEncryptionOn False (conn st) \<and> in_idx st < pad then Some (Return FATAL_ERROR, st)
               else
                 (let st = (if more \<and> IsEncryptionOn False (conn st) then st\<lparr>in_idx := in_idx st - pad\<rparr> else st)
                  in if ret = APP_DATA_READY then Some (Return ret, st)
                     else do { st \<leftarrow> shrink_if_dynamic ret st; Some (Again, st) })))"

definition one_message :: "Env \<Rightarrow> RxState \<Rightarrow> (outcome \<times> RxState) option" where
  "one_message E st =
     (if length (in_buf st) \<le> in_idx st then Some (Return BUFFER_ERROR, st)
      else
        do { (r, st) \<leftarrow> process_msg E st;
             (case r of Inl rc \<Rightarrow> Some (Return rc, st) | Inr ret \<Rightarrow> after_msg ret st) })"

definition Dtls13UpdateWindowRecordRecvd :: "u8 \<Rightarrow> WOLFSSL \<Rightarrow> wolf_rc \<times> WOLFSSL" where
  "Dtls13UpdateWindowRecordRecvd curRL_type ssl =
     (let (ret, ssl) = Dtls13UpdateWindow ssl in if ret \<noteq> RC_OK then (ret, ssl) else Dtls13RecordRecvd curRL_type ssl)"

definition one_record :: "Env \<Rightarrow> RxState \<Rightarrow> (outcome \<times> RxState) option" where
  "one_record E st =
     (if \<not> Dtls13CheckWindow (conn st)
      then
        (let st = st\<lparr>replyState := doProcessInit, in_idx := in_idx st + curSize st\<rparr>
         in Some (if length (in_buf st) < in_idx st then Return BUFFER_E else Again, st))
      else
        (let (ret, ssl) = (if dtlsStateful (options (conn st))
                           then Dtls13UpdateWindowRecordRecvd (rl_type (curRL st)) (conn st) else (RC_OK, conn st));
             st = st\<lparr>conn := ssl\<rparr>
         in if ret \<noteq> RC_OK then Some (Return ret, st)
            else one_message E (st\<lparr>replyState := runProcessingOneMessage\<rparr>)))"

definition set_padSz :: "u32 \<Rightarrow> RxState \<Rightarrow> RxState" where
  "set_padSz n st = st\<lparr>conn := (conn st)\<lparr>keys := (keys (conn st))\<lparr>padSz := n\<rparr>\<rparr>\<rparr>"

definition to_decrypt :: "RxState \<Rightarrow> bool" where
  "to_decrypt st \<longleftrightarrow> IsEncryptionOn False (conn st) \<and> \<not> decryptedCur st \<and> rl_type (curRL st) \<noteq> change_cipher_spec"

text \<open>\<open>VerifyMac\<close> of an AEAD cipher only sets the size of the padding.\<close>

definition verify_message :: "Env \<Rightarrow> RxState \<Rightarrow> (outcome \<times> RxState) option" where
  "verify_message E st =
     (let st = (if to_decrypt st then (set_padSz (of_nat aead_mac_size) st)\<lparr>decryptedCur := True\<rparr> else st);
          unpadded = (if IsEncryptionOn False (conn st) \<and> decryptedCur st
                      then (case removeMsgInnerPadding (in_buf st) (in_idx st) (curSize st) of
                              Inl rc \<Rightarrow> Inl rc
                            | Inr (type, n) \<Rightarrow> Inr (set_padSz (of_nat n) st\<lparr>curRL := (curRL st)\<lparr>rl_type := type\<rparr>\<rparr>))
                      else Inr st)
      in case unpadded of
           Inl rc \<Rightarrow> Some (Return rc, st)
         | Inr st \<Rightarrow> one_record E (st\<lparr>curStartIdx := in_idx st, replyState := runProcessingOneRecord\<rparr>))"

definition decrypt_message :: "Env \<Rightarrow> RxState \<Rightarrow> (outcome \<times> RxState) option" where
  "decrypt_message E st =
     (if to_decrypt st
      then (case DoDecrypt (gcm_dec E) (in_buf st) (in_idx st) (curSize st) (dtls13CurRL st) (conn st) of
              (Inl _, ssl) \<Rightarrow>
                (let (rc, st) = HandleDTLSDecryptFailed (DropAndRestartProcessReply (st\<lparr>conn := ssl\<rparr>)) in Some (Return rc, st))
            | (Inr buf, ssl) \<Rightarrow> verify_message E (st\<lparr>in_buf := buf, conn := ssl, replyState := verifyMessage\<rparr>))
      else verify_message E (st\<lparr>replyState := verifyMessage\<rparr>))"

definition get_data :: "Env \<Rightarrow> RxState \<Rightarrow> (outcome \<times> RxState) option" where
  "get_data E st =
     (if length (in_buf st) < in_idx st + curSize st then Some (Again, DropAndRestartProcessReply st)
      else if IsEncryptionOn False (conn st) \<and>
              (MAX_TLS13_ENC_SZ < curSize st \<or> MAX_TLS13_PLAIN_SZ < curSize st - aead_mac_size)
      then Some (Return BUFFER_ERROR, alert_to_peer E record_overflow st)
      else decrypt_message E ((set_padSz 0 st)\<lparr>replyState := decryptMessage\<rparr>))"

definition record_header :: "Env \<Rightarrow> RxState \<Rightarrow> (outcome \<times> RxState) option" where
  "record_header E st =
     (let (ret, st) = GetRecordHeader E st in
      if DtlsShouldDrop ret st
      then (let st = DropAndRestartProcessReply st
            in Some (if sendAcks (dtls13Rtx (conn st)) then Return RC_OK else Again, st))
      else if ret \<noteq> RC_OK
      then Some (Return ret, if ret = VERSION_ERROR \<and> opt_side (options (conn st)) = WOLFSSL_CLIENT_END
                             then alert_to_peer E protocol_version st else st)
      else if IsEncryptionOn False (conn st) \<and> rl_type (curRL st) \<noteq> application_data \<and> rl_type (curRL st) \<noteq> change_cipher_spec
      then Some (Return PARSE_ERROR, alert_to_peer E unexpected_message st)
      else get_data E (st\<lparr>replyState := getData\<rparr>))"

definition process_init :: "Env \<Rightarrow> RxState \<Rightarrow> (outcome \<times> RxState) option" where
  "process_init E st =
     (let readSz = (if tls1_3 (options (conn st)) then DTLS_UNIFIED_HEADER_MIN_SZ else DTLS_RECORD_HEADER_SZ)
      in if length (in_buf st) < in_idx st + readSz
         then
           (if in_idx st < length (in_buf st) then Some (Again, DropAndRestartProcessReply st)
            else do { (ret, st) \<leftarrow> GetInputData readSz st;
                      if ret \<noteq> RC_OK then Some (Return ret, st) else record_header E st })
         else record_header E st)"

definition reply_step :: "Env \<Rightarrow> RxState \<Rightarrow> (outcome \<times> RxState) option" where
  "reply_step E st =
     (case replyState st of
        doProcessInit \<Rightarrow> process_init E st
      | getRecordLayerHeader \<Rightarrow> record_header E st
      | getData \<Rightarrow> get_data E st
      | verifyEncryptedMessage \<Rightarrow> decrypt_message E (st\<lparr>replyState := decryptMessage\<rparr>)
      | decryptMessage \<Rightarrow> decrypt_message E st
      | verifyMessage \<Rightarrow> verify_message E st
      | runProcessingOneRecord \<Rightarrow> one_record E st
      | runProcessingOneMessage \<Rightarrow> one_message E st)"

text \<open>The loop with fuel; \<^const>\<open>Again\<close> means that the fuel was not enough.\<close>

fun reply_loop :: "nat \<Rightarrow> Env \<Rightarrow> RxState \<Rightarrow> (outcome \<times> RxState) option" where
  "reply_loop 0 E st = Some (Again, st)"
| "reply_loop (Suc k) E st =
     (case reply_step E st of
        None \<Rightarrow> None
      | Some (Return rc, st) \<Rightarrow> Some (Return rc, st)
      | Some (Again, st) \<Rightarrow> reply_loop k E st)"

definition DoProcessReplyEx :: "nat \<Rightarrow> Env \<Rightarrow> bool \<Rightarrow> RxState \<Rightarrow> (outcome \<times> RxState) option" where
  "DoProcessReplyEx fuel E allowSocketErr st =
     (if ssl_error st \<notin> {RC_OK, WANT_READ, WANT_WRITE, APP_DATA_READY} \<and> (\<not> allowSocketErr \<or> ssl_error st \<noteq> SOCKET_ERROR_E)
      then Some (Return (ssl_error st), st)
      else (let (ret, st) = RetrySendAlert E st in if ret \<noteq> RC_OK then Some (Return ret, st) else reply_loop fuel E st))"

definition ProcessReply :: "nat \<Rightarrow> Env \<Rightarrow> RxState \<Rightarrow> (outcome \<times> RxState) option" where
  "ProcessReply fuel E st = DoProcessReplyEx fuel E False st"

end
