(* ===== verification/Dtls13ReceiveInv.thy ===== *)
theory Dtls13ReceiveInv
  imports Dtls13Receive
begin

text \<open>
  Properties of the reception of records: a protected record that the peer has built reaches the
  application, and the same datagram is not accepted again.
\<close>

section \<open>Sender and receiver\<close>

text \<open>The keys and the epoch are shared.\<close>

definition linked :: "nat \<Rightarrow> nat \<Rightarrow> WOLFSSL \<Rightarrow> WOLFSSL \<Rightarrow> bool" where
  "linked i d tx rx \<longleftrightarrow> can_encrypt i tx \<and> can_decrypt rx \<and>
     rnEncryptKey (epochs tx) \<noteq> None \<and> rnDecryptKey (epochs rx) = rnEncryptKey (epochs tx) \<and>
     decrypt_aes (epochs rx) = encrypt_aes (epochs tx) \<and> k_aead_dec_imp_IV (keys rx) = k_aead_enc_imp_IV (keys tx) \<and>
     dtls13DecryptEpoch (epochs rx) = Some d \<and> dtls13PeerEpoch (epochs rx) = epochNumber (dtls13Epochs (epochs tx) ! i) \<and>
     epochNumber (dtls13Epochs (epochs rx) ! d) = epochNumber (dtls13Epochs (epochs tx) ! i) \<and> dtls13PeerEpoch (epochs rx) \<noteq> 0"

abbreviation sent_number :: "nat \<Rightarrow> WOLFSSL \<Rightarrow> u64" where
  "sent_number i tx \<equiv> nextSeqNumber (dtls13Epochs (epochs tx) ! i)"

abbreviation expected_number :: "nat \<Rightarrow> WOLFSSL \<Rightarrow> u64" where
  "expected_number d rx \<equiv> nextPeerSeqNumber (dtls13Epochs (epochs rx) ! d)"

text \<open>The number is close enough to the expected one to be reconstructed.\<close>

definition near :: "u64 \<Rightarrow> u64 \<Rightarrow> bool" where
  "near s n \<longleftrightarrow> unat s < unat n + 2 ^ 15 \<and> unat n < unat s + 2 ^ 15 \<and> unat n + 2 ^ 17 < 2 ^ 64"

text \<open>A receiver between two calls of \<open>ProcessReply\<close>, with the handshake done.\<close>

definition open_receiver :: "RxState \<Rightarrow> bool" where
  "open_receiver st \<longleftrightarrow> replyState st = doProcessInit \<and> in_idx st = length (in_buf st) \<and> \<not> disableRead st \<and>
     2 \<le> heap_left (conn st) \<and> tls1_3 (options (conn st)) \<and> handShakeDone (options (conn st)) \<and> dtlsStateful (options (conn st)) \<and>
     encryptionOn (options (conn st)) \<and> decrypt_setup (flags (conn st))"

text \<open>The state in which the window is consulted, for a record with the given content, type and number.\<close>

definition unprotected :: "bytes \<Rightarrow> u8 \<Rightarrow> u64 \<Rightarrow> RxState \<Rightarrow> RxState \<Rightarrow> bool" where
  "unprotected input type s st st' \<longleftrightarrow>
     (\<exists>aad tag. length aad = 5 \<and> length tag = 16 \<and> in_buf st' = aad @ input @ [type] @ tag) \<and>
     in_idx st' = 5 \<and> curStartIdx st' = 5 \<and> curSize st' = length input + 17 \<and> rl_type (curRL st') = type \<and> decryptedCur st' \<and>
     clearOutputBuffer st' = clearOutputBuffer st \<and> handed st' = handed st \<and> keyUpdateRespond st' = keyUpdateRespond st \<and>
     dtlsHsRetain st' = dtlsHsRetain st \<and> disableRead st' = disableRead st \<and> ssl_error st' = ssl_error st \<and>
     epochs (conn st') = epochs (conn st) \<and> dtls13Rtx (conn st') = dtls13Rtx (conn st) \<and> dtlsMtuSz (conn st') = dtlsMtuSz (conn st) \<and>
     options (conn st') = (options (conn st))\<lparr>seenUnifiedHdr := True\<rparr> \<and> decrypt_setup (flags (conn st')) = decrypt_setup (flags (conn st)) \<and>
     decrypt_nonce (flags (conn st')) \<and> heap_left (conn st) \<le> heap_left (conn st') + 2 \<and>
     keys (conn st') = (keys (conn st))\<lparr>curEpoch64 := dtls13PeerEpoch (epochs (conn st)), curSeq := s, padSz := 17\<rparr>"

lemma DecryptTls13_state:
  assumes "can_decrypt ssl"
  shows "snd (DecryptTls13 dec c aad ssl) =
    (if decrypt_nonce (flags ssl) then ssl else ssl\<lparr>heap_left := heap_left ssl - 1\<rparr>)\<lparr>flags := (flags ssl)\<lparr>decrypt_nonce := True\<rparr>\<rparr>"
  using assms by (auto simp: DecryptTls13_def can_decrypt_def BuildNonce_peer xmalloc_def Let_def)

text \<open>The result of the decryption depends on the key, the IV and the record number only.\<close>

lemma DoDecrypt_cong:
  assumes "can_decrypt a" "can_decrypt b" "decrypt_aes (epochs a) = decrypt_aes (epochs b)"
    "k_aead_dec_imp_IV (keys a) = k_aead_dec_imp_IV (keys b)" "curSeq (keys a) = curSeq (keys b)"
    and "DoDecrypt dec buf idx n aad a = (Inr p, x)"
  shows "DoDecrypt dec buf idx n aad b = (Inr p, snd (DecryptTls13 dec (take n (drop idx buf)) aad b))"
proof -
  have "fst (DecryptTls13 dec (take n (drop idx buf)) aad a) = fst (DecryptTls13 dec (take n (drop idx buf)) aad b)"
    using assms(1-5) by (simp add: DecryptTls13_eq)
  then show ?thesis
    using assms(6) by (cases "DecryptTls13 dec (take n (drop idx buf)) aad a"; cases "DecryptTls13 dec (take n (drop idx buf)) aad b")
      (auto simp: DoDecrypt_def Let_def split: if_splits sum.splits)
qed

lemma GetInputData_datagram:
  assumes "open_receiver st" "net_in st = Inr rec # q" "2 \<le> length rec" "length rec \<le> dtlsMtuSz (conn st) + 500"
  obtains h b dy where "GetInputData 2 st = Some (RC_OK, st\<lparr>conn := (conn st)\<lparr>heap_left := h\<rparr>, in_buf := rec, in_idx := 0,
      in_bufferSize := b, in_dynamic := dy, net_in := q\<rparr>)" "0 < h" "heap_left (conn st) \<le> h + 1"
proof (cases "in_bufferSize st < dtlsMtuSz (conn st) + 500")
  case True
  show thesis
    using that[where h = "heap_left (conn st) - 1" and b = "max 2 (dtlsMtuSz (conn st) + 500)" and dy = True] assms True
    by (simp add: GetInputData_def open_receiver_def xmalloc_def Let_def)
next
  case False
  show thesis
    using that[where h = "heap_left (conn st)" and b = "in_bufferSize st" and dy = "in_dynamic st"] assms False
    by (simp add: GetInputData_def open_receiver_def Let_def)
qed

lemma linked_record:
  assumes link: "linked i d tx rx" and tls: "tls1_3 (options rx)" and nr: "near (sent_number i tx) (expected_number d rx)"
    and crypto: "aes_total aes" "gcm_correct enc dec"
    and input: "length input + 22 \<le> outSz" "length input \<le> 2 ^ 14" "type \<noteq> 0"
  shows "\<exists>rec tx' aad ct. length aad = 5 \<and> length ct = length input + 17 \<and>
    BuildTls13Message enc aes outSz input type tx = (Inr rec, tx') \<and> length rec = length ct + 5 \<and>
    GetDtlsRecordHeader gs ai aes rec rx =
      (Inr (\<lparr>rl_type = application_data, rl_pvMajor = DTLS_MAJOR, rl_pvMinor = DTLSv1_2_MINOR\<rparr>, of_nat (length ct), 5, aad @ ct),
       rx_header (sent_number i tx) rx) \<and>
    DoDecrypt dec (aad @ ct) 5 (length ct) aad (rx_header (sent_number i tx) rx) =
      (Inr (aad @ input @ [type] @ drop (length input + 1) ct), snd (DecryptTls13 dec ct aad (rx_header (sent_number i tx) rx))) \<and>
    removeMsgInnerPadding (aad @ input @ [type] @ drop (length input + 1) ct) 5 (length ct) = Inr (type, 17)"
proof -
  obtain rk where rk: "rnEncryptKey (epochs tx) = Some rk" "rnDecryptKey (epochs rx) = Some rk" using link by (auto simp: linked_def)
  have L: "can_encrypt i tx" "can_decrypt rx" "dtls13DecryptEpoch (epochs rx) = Some d" "decrypt_aes (epochs rx) = encrypt_aes (epochs tx)"
      "k_aead_dec_imp_IV (keys rx) = k_aead_enc_imp_IV (keys tx)"
      "epochNumber (dtls13Epochs (epochs rx) ! d) = epochNumber (dtls13Epochs (epochs tx) ! i)"
      "dtls13PeerEpoch (epochs rx) = epochNumber (dtls13Epochs (epochs tx) ! i)" "dtls13PeerEpoch (epochs rx) \<noteq> 0"
    using link by (auto simp: linked_def)
  have N: "unat (sent_number i tx) < unat (expected_number d rx) + 2 ^ 15" "unat (expected_number d rx) < unat (sent_number i tx) + 2 ^ 15"
      "unat (expected_number d rx) + 2 ^ 17 < 2 ^ 64" using nr by (auto simp: near_def)
  have sz: "length input + 22 < 2 ^ 16" using input(2) by simp
  show ?thesis
    using protected_record_received[OF L(1) rk(1) L(2) rk(2) tls L(3-8) N refl refl crypto input(1) sz input(3), of gs ai] by blast
qed

lemma linked_received:
  assumes link: "linked i d tx rx" and tls: "tls1_3 (options rx)" and nr: "near (sent_number i tx) (expected_number d rx)"
    and crypto: "aes_total aes" "gcm_correct enc dec"
    and input: "length input + 22 \<le> outSz" "length input \<le> 2 ^ 14" "type \<noteq> 0"
    and rec: "BuildTls13Message enc aes outSz input type tx = (Inr rec, tx')"
  obtains aad ct where "length aad = 5" "length ct = length input + 17" "length rec = length input + 22"
    "GetDtlsRecordHeader gs ai aes rec rx =
      (Inr (\<lparr>rl_type = application_data, rl_pvMajor = DTLS_MAJOR, rl_pvMinor = DTLSv1_2_MINOR\<rparr>, of_nat (length ct), 5, aad @ ct),
       rx_header (sent_number i tx) rx)"
    "DoDecrypt dec (aad @ ct) 5 (length ct) aad (rx_header (sent_number i tx) rx) =
      (Inr (aad @ input @ [type] @ drop (length input + 1) ct), snd (DecryptTls13 dec ct aad (rx_header (sent_number i tx) rx)))"
    "removeMsgInnerPadding (aad @ input @ [type] @ drop (length input + 1) ct) 5 (length ct) = Inr (type, 17)"
    "Dtls13IsUnifiedHeader (rec ! 0)"
proof -
  obtain aad ct where r: "length aad = 5" "length ct = length input + 17" "length rec = length input + 22"
    "GetDtlsRecordHeader gs ai aes rec rx =
      (Inr (\<lparr>rl_type = application_data, rl_pvMajor = DTLS_MAJOR, rl_pvMinor = DTLSv1_2_MINOR\<rparr>, of_nat (length ct), 5, aad @ ct),
       rx_header (sent_number i tx) rx)"
    "DoDecrypt dec (aad @ ct) 5 (length ct) aad (rx_header (sent_number i tx) rx) =
      (Inr (aad @ input @ [type] @ drop (length input + 1) ct), snd (DecryptTls13 dec ct aad (rx_header (sent_number i tx) rx)))"
    "removeMsgInnerPadding (aad @ input @ [type] @ drop (length input + 1) ct) 5 (length ct) = Inr (type, 17)"
    using linked_record[OF assms(1-8), of gs ai] rec by auto
  have "Dtls13IsUnifiedHeader (rec ! 0)"
  proof (rule ccontr)
    assume "\<not> ?thesis"
    then have "length (take 5 (aad @ ct)) = 13" using r(1-4) by (auto simp: GetDtlsRecordHeader_def Let_def split: if_splits)
    then show False using r(1) by simp
  qed
  with r show thesis by (rule that)
qed

lemma record_received:
  assumes op: "open_receiver st" and link: "linked i d tx (conn st)"
    and nr: "near (sent_number i tx) (expected_number d (conn st))"
    and crypto: "aes_total (aes_ecb E)" "gcm_correct enc (gcm_dec E)"
    and input: "length input + 22 \<le> outSz" "length input \<le> 2 ^ 14" "length input + 22 \<le> dtlsMtuSz (conn st) + 500" "type \<noteq> 0"
    and rec: "BuildTls13Message enc (aes_ecb E) outSz input type tx = (Inr rec, tx')" and net: "net_in st = Inr rec # q"
  shows "\<exists>st'. reply_step E st = one_record E st' \<and> unprotected input type (sent_number i tx) st st' \<and> net_in st' = q"
proof -
  have tls: "tls1_3 (options (conn st))" using op by (simp add: open_receiver_def)
  have len_rec: "length rec = length input + 22"
    by (rule linked_received[OF link tls nr crypto input(1,2,4) rec])
  obtain h b dy where get: "GetInputData 2 st = Some (RC_OK, st\<lparr>conn := (conn st)\<lparr>heap_left := h\<rparr>, in_buf := rec, in_idx := 0,
      in_bufferSize := b, in_dynamic := dy, net_in := q\<rparr>)" "0 < h" "heap_left (conn st) \<le> h + 1"
    by (rule GetInputData_datagram[OF op net]) (use len_rec input(3) in auto)
  define rx where "rx = (conn st)\<lparr>heap_left := h\<rparr>"
  define st1 where "st1 = st\<lparr>conn := rx, in_buf := rec, in_idx := 0, in_bufferSize := b, in_dynamic := dy, net_in := q\<rparr>"
  let ?s = "sent_number i tx" and ?rh = "\<lparr>rl_type = application_data, rl_pvMajor = DTLS_MAJOR, rl_pvMinor = DTLSv1_2_MINOR\<rparr>"
  have lk: "linked i d tx rx" "tls1_3 (options rx)" "near ?s (expected_number d rx)" and cd: "can_decrypt rx"
    using link get(2) tls nr by (auto simp: linked_def can_decrypt_def rx_def)
  obtain aad ct where r: "length aad = 5" "length ct = length input + 17"
    and hdr: "GetDtlsRecordHeader (gcm_set_key E) (aes_set_key E) (aes_ecb E) rec rx = (Inr (?rh, of_nat (length ct), 5, aad @ ct), rx_header ?s rx)"
    and dec: "DoDecrypt (gcm_dec E) (aad @ ct) 5 (length ct) aad (rx_header ?s rx) =
      (Inr (aad @ input @ [type] @ drop (length input + 1) ct), snd (DecryptTls13 (gcm_dec E) ct aad (rx_header ?s rx)))"
    and unpad: "removeMsgInnerPadding (aad @ input @ [type] @ drop (length input + 1) ct) 5 (length ct) = Inr (type, 17)"
    and uni: "Dtls13IsUnifiedHeader (rec ! 0)"
    by (rule linked_received[OF lk crypto input(1,2,4) rec, where gs = "gcm_set_key E" and ai = "aes_set_key E"])
  have usz: "unat (of_nat (length ct) :: u16) = length ct" "(of_nat (length ct) :: u16) \<noteq> 0"
    unfolding r(2) using input(2) by (simp_all add: unsigned_of_nat take_bit_nat_eq_self word_unat_eq_iff del: of_nat_add)
  define st2 where "st2 = st1\<lparr>conn := rx_header ?s rx, in_buf := aad @ ct, in_idx := 5, curRL := ?rh, curSize := length ct,
     dtls13CurRL := aad, decryptedCur := False\<rparr>"
  have grh: "GetRecordHeader E st1 = (RC_OK, st2)"
    using hdr usz uni r input(2) by (simp add: GetRecordHeader_def st1_def st2_def check_version_def Let_def)
  have enc: "IsEncryptionOn False (conn st2)"
    using op lk by (auto simp: IsEncryptionOn_def open_receiver_def st2_def rx_header_def rx_def linked_def)
  have drop: "\<not> DtlsShouldDrop RC_OK st2"
    using enc op lk by (auto simp: DtlsShouldDrop_def st2_def open_receiver_def rx_header_def rx_def linked_def Let_def)
  define st3 where "st3 = (set_padSz 0 (st2\<lparr>replyState := getData\<rparr>))\<lparr>replyState := decryptMessage\<rparr>"
  have c3: "conn st3 = (rx_header ?s rx)\<lparr>keys := (keys (rx_header ?s rx))\<lparr>padSz := 0\<rparr>\<rparr>" "in_buf st3 = aad @ ct" "in_idx st3 = 5"
      "curSize st3 = length ct" "dtls13CurRL st3 = aad" "rl_type (curRL st3) = application_data" "\<not> decryptedCur st3"
    by (simp_all add: st3_def set_padSz_def st2_def)
  have enc3: "IsEncryptionOn False (conn st3)" using enc by (auto simp: IsEncryptionOn_def c3(1) st2_def split: if_splits)
  have cd3: "can_decrypt (rx_header ?s rx)" "can_decrypt (conn st3)" using cd by (simp_all add: can_decrypt_def rx_header_def c3(1))
  define ssl4 where "ssl4 = snd (DecryptTls13 (gcm_dec E) ct aad (conn st3))"
  have dec3: "DoDecrypt (gcm_dec E) (aad @ ct) 5 (length ct) aad (conn st3) = (Inr (aad @ input @ [type] @ drop (length input + 1) ct), ssl4)"
    using DoDecrypt_cong[OF cd3 _ _ _ dec] r by (simp add: c3(1) ssl4_def)
  have ssl4: "ssl4 = (if decrypt_nonce (flags (conn st3)) then conn st3 else (conn st3)\<lparr>heap_left := heap_left (conn st3) - 1\<rparr>)
      \<lparr>flags := (flags (conn st3))\<lparr>decrypt_nonce := True\<rparr>\<rparr>"
    unfolding ssl4_def by (rule DecryptTls13_state[OF cd3(2)])
  define st4 where "st4 = st3\<lparr>in_buf := aad @ input @ [type] @ drop (length input + 1) ct, conn := ssl4, replyState := verifyMessage\<rparr>"
  have enc4: "IsEncryptionOn False ssl4" using enc3 by (auto simp: ssl4 IsEncryptionOn_def split: if_splits)
  have c4: "conn st4 = ssl4" "in_buf st4 = aad @ input @ [type] @ drop (length input + 1) ct" "in_idx st4 = 5" "curSize st4 = length ct"
      "rl_type (curRL st4) = application_data" "\<not> decryptedCur st4"
    using c3 by (simp_all add: st4_def)
  have td: "to_decrypt st3" "to_decrypt st4" using enc3 enc4 c3 c4 by (simp_all add: to_decrypt_def)
  define st5 where "st5 = set_padSz 17 ((set_padSz 16 st4)\<lparr>decryptedCur := True\<rparr>)
      \<lparr>curRL := (curRL st4)\<lparr>rl_type := type\<rparr>, curStartIdx := 5, replyState := runProcessingOneRecord\<rparr>"
  have e5: "IsEncryptionOn False (conn ((set_padSz 16 st4)\<lparr>decryptedCur := True\<rparr>))" using enc4 by (auto simp: set_padSz_def c4 IsEncryptionOn_def split: if_splits)
  have v: "verify_message E st4 = one_record E st5"
    using td(2) e5 unpad c4 by (simp add: verify_message_def Let_def set_padSz_def st5_def)
  have "reply_step E st = record_header E st1"
    using op net get(1) by (simp add: reply_step_def process_init_def open_receiver_def st1_def rx_def Let_def)
  also have "\<dots> = get_data E (st2\<lparr>replyState := getData\<rparr>)"
    using drop enc unfolding record_header_def grh by (simp add: st2_def)
  also have "\<dots> = decrypt_message E st3"
    using r input(2) unfolding get_data_def st3_def by (simp add: st2_def)
  also have "\<dots> = verify_message E st4"
    using td(1) dec3 by (simp add: decrypt_message_def c3 st4_def)
  finally have "reply_step E st = one_record E st5" using v by simp
  moreover have "unprotected input type ?s st st5"
    using r op get(3) by (auto simp: unprotected_def st5_def set_padSz_def c4 ssl4 c3(1) rx_header_def rx_def st4_def st3_def st2_def st1_def)
  moreover have "net_in st5 = q" by (simp add: st5_def set_padSz_def st4_def st3_def st2_def st1_def)
  ultimately show ?thesis by blast
qed


section \<open>The window\<close>

lemma stored_window:
  assumes "dtls13DecryptEpoch (epochs ssl) = Some d" "d < length (dtls13Epochs (epochs ssl))"
    "curEpoch64 (keys ssl) = epochNumber (dtls13Epochs (epochs ssl) ! d)"
    "recorded A (expected_number d ssl) (window (dtls13Epochs (epochs ssl) ! d))" "Dtls13CheckWindow ssl" "curSeq (keys ssl) \<noteq> -1"
  shows "\<exists>n w. Dtls13UpdateWindow ssl = (RC_OK, set_epoch d ((dtls13Epochs (epochs ssl) ! d)\<lparr>nextPeerSeqNumber := n, window := w\<rparr>) ssl) \<and>
    recorded (insert (curSeq (keys ssl)) A) n w \<and> n \<in> {expected_number d ssl, curSeq (keys ssl) + 1}"
proof -
  let ?e = "dtls13Epochs (epochs ssl) ! d"
  have "check_window (nextPeerSeqNumber ?e) (window ?e) (curSeq (keys ssl))"
    using assms(1,5) by (simp add: Dtls13CheckWindow_def Let_def)
  from recorded_step[OF assms(4) this assms(6)] obtain n w where
    u: "update_window (nextPeerSeqNumber ?e) (window ?e) (curSeq (keys ssl)) = Some (n, w)" "recorded (insert (curSeq (keys ssl)) A) n w" by blast
  moreover have "n \<in> {nextPeerSeqNumber ?e, curSeq (keys ssl) + 1}"
    using u(1) by (auto simp: update_window_def Let_def split: if_splits)
  ultimately show ?thesis using assms(1,3) by (auto simp: Dtls13UpdateWindow_def Let_def)
qed

lemma recorded_rejected: "recorded A n w \<Longrightarrow> s \<in> A \<Longrightarrow> \<not> check_window n w s"
  by (auto simp: recorded_def check_window_iff)


section \<open>Application data\<close>

text \<open>What the application's data requires beyond an open receiver.\<close>

definition takes_data :: "nat \<Rightarrow> RxState \<Rightarrow> bool" where
  "takes_data d st \<longleftrightarrow> \<not> keyUpdateRespond st \<and> \<not> dtlsHsRetain st \<and> connectState (options (conn st)) \<noteq> WAIT_FINISHED_ACK \<and>
     d < length (dtls13Epochs (epochs (conn st))) \<and> dtls13PeerEpoch (epochs (conn st)) \<noteq> 2"

text \<open>The epochs as they are after a record: the window is updated, older epochs may be closed for reception.\<close>

definition epochs_after :: "nat \<Rightarrow> u64 \<Rightarrow> u32 list \<Rightarrow> Epochs \<Rightarrow> Epochs \<Rightarrow> bool" where
  "epochs_after d n w E E' \<longleftrightarrow>
     (\<exists>f inv. (\<forall>e. nextPeerSeqNumber (f e) = nextPeerSeqNumber e \<and> window (f e) = window e \<and> epochNumber (f e) = epochNumber e) \<and>
        E' = E\<lparr>dtls13Epochs := map f ((dtls13Epochs E)[d := (dtls13Epochs E ! d)\<lparr>nextPeerSeqNumber := n, window := w\<rparr>]),
               dtls13InvalidateBefore := inv\<rparr>)"

lemma invalidate_epochs:
  assumes "epochs ssl = E\<lparr>dtls13Epochs := (dtls13Epochs E)[d := (dtls13Epochs E ! d)\<lparr>nextPeerSeqNumber := n, window := w\<rparr>]\<rparr>"
  shows "epochs_after d n w E (epochs (invalidate_older ep ssl))"
proof (cases "\<not> w64IsZero (dtls13InvalidateBefore (epochs ssl)) \<and> w64Equal ep (dtls13InvalidateBefore (epochs ssl))")
  case True
  then show ?thesis unfolding epochs_after_def
    by (intro exI[of _ "\<lambda>e. if isValid e \<and> w64LT (epochNumber e) (dtls13InvalidateBefore (epochs ssl)) then e\<lparr>e_side := ENCRYPT_SIDE_ONLY\<rparr> else e"] exI[of _ 0])
      (simp add: invalidate_older_def assms Dtls13SetOlderEpochSide_def Let_def)
next
  case False
  then show ?thesis unfolding epochs_after_def
    by (intro exI[of _ "\<lambda>e. e"] exI[of _ "dtls13InvalidateBefore E"]) (auto simp: invalidate_older_def assms Let_def)
qed

lemma application_record:
  assumes up: "unprotected input application_data s st0 st" and op: "open_receiver st0" and td: "takes_data d st0"
    and de: "dtls13DecryptEpoch (epochs (conn st0)) = Some d" "epochNumber (dtls13Epochs (epochs (conn st0)) ! d) = dtls13PeerEpoch (epochs (conn st0))"
      "dtls13PeerEpoch (epochs (conn st0)) \<noteq> 0"
    and rec: "recorded A (expected_number d (conn st0)) (window (dtls13Epochs (epochs (conn st0)) ! d))"
    and fresh: "check_window (expected_number d (conn st0)) (window (dtls13Epochs (epochs (conn st0)) ! d)) s" "s \<noteq> -1" and ne: "input \<noteq> []"
  shows "\<exists>st' n w. one_record E st = Some (Return RC_OK, st') \<and> clearOutputBuffer st' = input \<and> net_in st' = net_in st \<and> handed st' = handed st \<and>
    recorded (insert s A) n w \<and> n \<in> {expected_number d (conn st0), s + 1} \<and> epochs_after d n w (epochs (conn st0)) (epochs (conn st')) \<and>
    replyState st' = doProcessInit \<and> in_idx st' = length (in_buf st') \<and> disableRead st' = disableRead st \<and> ssl_error st' = ssl_error st \<and>
    keyUpdateRespond st' = keyUpdateRespond st \<and> dtlsHsRetain st' = dtlsHsRetain st \<and>
    heap_left (conn st') = heap_left (conn st) \<and> options (conn st') = options (conn st) \<and> flags (conn st') = flags (conn st) \<and>
    keys (conn st') = keys (conn st) \<and> dtlsMtuSz (conn st') = dtlsMtuSz (conn st)"
proof -
  let ?ssl = "conn st"
  obtain aad tag where buf: "length aad = 5" "length tag = 16" "in_buf st = aad @ input @ [application_data] @ tag"
    using up by (auto simp: unprotected_def)
  have U: "in_idx st = 5" "curSize st = length input + 17" "rl_type (curRL st) = application_data" "keyUpdateRespond st = keyUpdateRespond st0"
      "dtlsHsRetain st = dtlsHsRetain st0" "epochs ?ssl = epochs (conn st0)" "options ?ssl = (options (conn st0))\<lparr>seenUnifiedHdr := True\<rparr>"
      "keys ?ssl = (keys (conn st0))\<lparr>curEpoch64 := dtls13PeerEpoch (epochs (conn st0)), curSeq := s, padSz := 17\<rparr>"
    using up by (simp_all add: unprotected_def)
  have O: "tls1_3 (options (conn st0))" "handShakeDone (options (conn st0))" "dtlsStateful (options (conn st0))"
    using op by (simp_all add: open_receiver_def)
  have T: "\<not> keyUpdateRespond st0" "\<not> dtlsHsRetain st0" "connectState (options (conn st0)) \<noteq> WAIT_FINISHED_ACK"
      "d < length (dtls13Epochs (epochs ?ssl))" "dtls13PeerEpoch (epochs ?ssl) \<noteq> 2"
    using td by (simp_all add: takes_data_def U(6))
  have cw: "Dtls13CheckWindow ?ssl" using fresh de(1) by (simp add: Dtls13CheckWindow_def U(6,8) Let_def)
  obtain n w where uw: "Dtls13UpdateWindow ?ssl = (RC_OK, set_epoch d ((dtls13Epochs (epochs ?ssl) ! d)\<lparr>nextPeerSeqNumber := n, window := w\<rparr>) ?ssl)"
    and nw: "recorded (insert s A) n w" "n \<in> {expected_number d (conn st0), s + 1}"
    using stored_window[of ?ssl d A] de rec cw fresh(2) T(4) by (auto simp: U(6,8))
  define ssl1 where "ssl1 = set_epoch d ((dtls13Epochs (epochs ?ssl) ! d)\<lparr>nextPeerSeqNumber := n, window := w\<rparr>) ?ssl"
  define st1 where "st1 = st\<lparr>conn := ssl1, replyState := runProcessingOneMessage\<rparr>"
  have s1: "options ssl1 = options ?ssl" "keys ssl1 = keys ?ssl" "flags ssl1 = flags ?ssl" "heap_left ssl1 = heap_left ?ssl" "dtlsMtuSz ssl1 = dtlsMtuSz ?ssl"
      "epochs ssl1 = (epochs ?ssl)\<lparr>dtls13Epochs := (dtls13Epochs (epochs ?ssl))[d := (dtls13Epochs (epochs ?ssl) ! d)\<lparr>nextPeerSeqNumber := n, window := w\<rparr>]\<rparr>"
    by (simp_all add: ssl1_def set_epoch_def)
  have one: "one_record E st = one_message E st1"
    using cw uw O(3) U(3,7) by (simp add: one_record_def Dtls13UpdateWindowRecordRecvd_def Dtls13RecordRecvd_def ssl1_def[symmetric] st1_def Let_def)
  define ssl2 where "ssl2 = invalidate_older (curEpoch64 (keys ssl1)) ssl1"
  have s2: "options ssl2 = options ?ssl" "keys ssl2 = keys ?ssl" "flags ssl2 = flags ?ssl" "heap_left ssl2 = heap_left ?ssl" "dtlsMtuSz ssl2 = dtlsMtuSz ?ssl"
    by (simp_all add: ssl2_def invalidate_older_def s1 Let_def)
  have ea: "epochs_after d n w (epochs (conn st0)) (epochs ssl2)"
    unfolding ssl2_def by (rule invalidate_epochs) (simp add: s1(6) U(6))
  define st2 where "st2 = st1\<lparr>conn := ssl2, clearOutputBuffer := input, in_idx := 5 + (length input + 17)\<rparr>"
  have p: "uint (padSz (keys ?ssl)) = 17" "unat (padSz (keys ?ssl)) = 17" by (simp_all add: U(8))
  have da: "DoApplicationData E st1 = (RC_OK, st2)"
  proof -
    have e: "\<not> (w64Equal (curEpoch64 (keys ?ssl)) (w64From32 0 DTLS13_EPOCH_HANDSHAKE) \<or> w64Equal (curEpoch64 (keys ?ssl)) (w64From32 0 0))"
      using T(5) de(3) by (simp add: U(6,8) w64Equal_def w64From32_def)
    have cl: "take (length input) (drop 5 (in_buf st)) = input" using buf by simp
    have hs: "handShakeDone (options (conn st1))" and cn: "conn st1 = ssl1" by (simp_all add: st1_def s1 U(7) O(2))
    show ?thesis
      unfolding DoApplicationData_def Let_def cn s1(2) if_not_P[OF e]
      using hs T(3) ne p cl U(2) by (simp add: cn ssl2_def[symmetric, unfolded s1(2)] s1(2) s2 st1_def U(1,7) st2_def)
  qed
  have am: "application_msg E st1 = (Inr RC_OK, st2)"
    using da T(1,2) U(4,5) by (simp add: application_msg_def st1_def Let_def)
  have len: "length (in_buf st1) = length input + 22" "in_idx st1 = 5" "rl_type (curRL st1) = application_data"
    using buf U by (simp_all add: st1_def)
  have "one_message E st1 = after_msg RC_OK st2"
    using am len by (simp add: one_message_def process_msg_def Let_def)
  also have "\<dots> = Some (Return RC_OK, st2\<lparr>replyState := doProcessInit\<rparr>)"
    using len ne by (simp add: after_msg_def st2_def shrink_if_dynamic_def ShrinkInputBuffer_def Let_def)
  finally have fin: "one_record E st = Some (Return RC_OK, st2\<lparr>replyState := doProcessInit\<rparr>)" using one by simp
  show ?thesis
    by (intro exI[of _ "st2\<lparr>replyState := doProcessInit\<rparr>"] exI[of _ n] exI[of _ w])
      (use fin nw ea s2 len in \<open>simp add: st2_def st1_def\<close>)
qed


lemma replayed_record:
  assumes up: "unprotected input type s st0 st" and de: "dtls13DecryptEpoch (epochs (conn st0)) = Some d"
    and rec: "recorded A (expected_number d (conn st0)) (window (dtls13Epochs (epochs (conn st0)) ! d))" "s \<in> A"
  shows "one_record E st = Some (Again, st\<lparr>replyState := doProcessInit, in_idx := length (in_buf st)\<rparr>)"
proof -
  have "length (in_buf st) = in_idx st + curSize st" and e: "epochs (conn st) = epochs (conn st0)" "curSeq (keys (conn st)) = s"
    using up by (auto simp: unprotected_def)
  moreover have "\<not> Dtls13CheckWindow (conn st)"
    using recorded_rejected[OF rec] de by (simp add: Dtls13CheckWindow_def e Let_def)
  ultimately show ?thesis by (simp add: one_record_def Let_def)
qed

text \<open>After a record the receiver is ready for the next one.\<close>

lemma linked_after:
  assumes "linked i d tx rx" "epochs_after d n w (epochs rx) (epochs rx')" "d < length (dtls13Epochs (epochs rx))"
    "k_aead_dec_imp_IV (keys rx') = k_aead_dec_imp_IV (keys rx)" "bulk_cipher_algorithm (options rx') = bulk_cipher_algorithm (options rx)"
    "decrypt_nonce (flags rx')"
  shows "linked i d tx rx'" "expected_number d rx' = n" "window (dtls13Epochs (epochs rx') ! d) = w"
    "dtls13DecryptEpoch (epochs rx') = Some d"
  using assms by (auto simp: linked_def epochs_after_def can_decrypt_def)

lemma nothing_arrived:
  assumes "open_receiver st" "net_in st = []"
  shows "\<exists>st'. reply_step E st = Some (Return WANT_READ, st') \<and> clearOutputBuffer st' = clearOutputBuffer st \<and> handed st' = handed st"
  using assms by (auto simp: reply_step_def process_init_def GetInputData_def open_receiver_def xmalloc_def Let_def)


lemma open_after:
  assumes "open_receiver st0" "unprotected input type s st0 st" "heap_left (conn st') = heap_left (conn st)" "4 \<le> heap_left (conn st0)"
    "options (conn st') = options (conn st)" "flags (conn st') = flags (conn st)" "replyState st' = doProcessInit"
    "in_idx st' = length (in_buf st')" "disableRead st' = disableRead st"
  shows "open_receiver st'"
  using assms by (auto simp: open_receiver_def unprotected_def)

section \<open>Properties\<close>

text \<open>
  C4. Application data is delivered exactly once.  Sender and receiver share the keys of an epoch.  The
  record the sender builds of its data arrives twice, as datagrams.  The first call of \<open>ProcessReply\<close>
  returns with exactly the sender's data for the application; the next call drops the copy and reports
  that there is nothing to read.
\<close>

theorem data_delivered_once:
  assumes op: "open_receiver st" "6 \<le> heap_left (conn st)" and td: "takes_data d st" and link: "linked i d tx (conn st)"
    and alerts: "\<forall>st. RetrySendAlert E st = (RC_OK, st)" "ssl_error st = RC_OK"
    and nr: "near (sent_number i tx) (expected_number d (conn st))" "unat (expected_number d (conn st)) + 2 ^ 18 < 2 ^ 64"
    and fresh: "check_window (expected_number d (conn st)) (window (dtls13Epochs (epochs (conn st)) ! d)) (sent_number i tx)"
      "length (window (dtls13Epochs (epochs (conn st)) ! d)) = 2"
    and crypto: "aes_total (aes_ecb E)" "gcm_correct enc (gcm_dec E)"
    and data: "data \<noteq> []" "length data + 22 \<le> outSz" "length data \<le> 2 ^ 14" "length data + 22 \<le> dtlsMtuSz (conn st) + 500"
    and rec: "BuildTls13Message enc (aes_ecb E) outSz data application_data tx = (Inr rec, tx')" and net: "net_in st = [Inr rec, Inr rec]"
  shows "\<exists>st1 st2. ProcessReply 1 E st = Some (Return RC_OK, st1) \<and> clearOutputBuffer st1 = data \<and>
    ProcessReply 2 E (st1\<lparr>clearOutputBuffer := []\<rparr>) = Some (Return WANT_READ, st2) \<and> clearOutputBuffer st2 = [] \<and> handed st2 = handed st"
proof -
  let ?s = "sent_number i tx"
  have ty: "application_data \<noteq> (0 :: u8)" by simp
  have L: "dtls13DecryptEpoch (epochs (conn st)) = Some d" "epochNumber (dtls13Epochs (epochs (conn st)) ! d) = dtls13PeerEpoch (epochs (conn st))"
      "dtls13PeerEpoch (epochs (conn st)) \<noteq> 0" using link by (auto simp: linked_def)
  have dl: "d < length (dtls13Epochs (epochs (conn st)))" using td by (simp add: takes_data_def)
  have big: "?s \<noteq> -1" using nr by (auto simp: near_def unsigned_minus_1_eq_mask mask_eq_exp_minus_1)
  have u1: "unat (?s + 1) = Suc (unat ?s)" using big by (rule unat_Suc64)
  obtain sta where a: "reply_step E st = one_record E sta" "unprotected data application_data ?s st sta" "net_in sta = [Inr rec]"
    using record_received[OF op(1) link nr(1) crypto data(2,3,4) ty rec net] by blast
  have r0: "recorded {} (expected_number d (conn st)) (window (dtls13Epochs (epochs (conn st)) ! d))" using fresh(2) by (simp add: recorded_def)
  obtain st1 n w where st1: "one_record E sta = Some (Return RC_OK, st1)" "clearOutputBuffer st1 = data" "net_in st1 = [Inr rec]" "handed st1 = handed sta"
    and nw: "recorded {?s} n w" "n \<in> {expected_number d (conn st), ?s + 1}" "epochs_after d n w (epochs (conn st)) (epochs (conn st1))"
    and k1: "replyState st1 = doProcessInit" "in_idx st1 = length (in_buf st1)" "disableRead st1 = disableRead sta" "ssl_error st1 = ssl_error sta"
      "heap_left (conn st1) = heap_left (conn sta)" "options (conn st1) = options (conn sta)" "flags (conn st1) = flags (conn sta)"
      "keys (conn st1) = keys (conn sta)" "dtlsMtuSz (conn st1) = dtlsMtuSz (conn sta)"
    using application_record[OF a(2) op(1) td L r0 fresh(1) big data(1), of E] a(3) by auto
  have A: "handed sta = handed st" "ssl_error sta = RC_OK" "heap_left (conn st) \<le> heap_left (conn sta) + 2" "decrypt_nonce (flags (conn sta))"
      "dtlsMtuSz (conn sta) = dtlsMtuSz (conn st)" "k_aead_dec_imp_IV (keys (conn sta)) = k_aead_dec_imp_IV (keys (conn st))"
      "bulk_cipher_algorithm (options (conn sta)) = bulk_cipher_algorithm (options (conn st))"
    using a(2) alerts(2) by (simp_all add: unprotected_def)
  define stb where "stb = st1\<lparr>clearOutputBuffer := []\<rparr>"
  have lb: "linked i d tx (conn stb)" "expected_number d (conn stb) = n" "window (dtls13Epochs (epochs (conn stb)) ! d) = w"
      "dtls13DecryptEpoch (epochs (conn stb)) = Some d"
    using linked_after[OF link nw(3) dl] A k1 by (simp_all add: stb_def)
  have ob: "open_receiver stb"
    by (rule open_after[OF op(1) a(2)]) (use k1 op(2) in \<open>simp_all add: stb_def\<close>)
  have nb: "near ?s (expected_number d (conn stb))"
    unfolding lb(2) using nw(2) nr u1 by (auto simp: near_def)
  have db: "length data + 22 \<le> dtlsMtuSz (conn stb) + 500" and netb: "net_in stb = Inr rec # []" and hb: "4 \<le> heap_left (conn stb)"
    using data(4) A k1 st1(3) op(2) by (simp_all add: stb_def)
  obtain stc where c: "reply_step E stb = one_record E stc" "unprotected data application_data ?s stb stc" "net_in stc = []"
    using record_received[OF ob lb(1) nb crypto data(2,3) db ty rec netb] by blast
  define std where "std = stc\<lparr>replyState := doProcessInit, in_idx := length (in_buf stc)\<rparr>"
  have "one_record E stc = Some (Again, std)"
    unfolding std_def by (rule replayed_record[OF c(2) lb(4), of "{?s}"]) (use nw(1) lb(2,3) in simp, simp)
  moreover have od: "open_receiver std" by (rule open_after[OF ob c(2)]) (use hb in \<open>simp_all add: std_def\<close>)
  moreover obtain ste where e: "reply_step E std = Some (Return WANT_READ, ste)" "clearOutputBuffer ste = clearOutputBuffer std" "handed ste = handed std"
    using nothing_arrived[OF od, of E] c(3) by (auto simp: std_def)
  ultimately have "reply_loop 2 E stb = Some (Return WANT_READ, ste)" using c(1) by (simp add: numeral_2_eq_2)
  moreover have "clearOutputBuffer ste = []" "handed ste = handed st"
    using e c(2) A st1(4) by (simp_all add: std_def unprotected_def stb_def)
  moreover have "ssl_error stb = RC_OK" using k1 A by (simp add: stb_def)
  moreover have "reply_loop 1 E st = Some (Return RC_OK, st1)" using a(1) st1(1) by simp
  ultimately show ?thesis
    using alerts st1(2) by (intro exI[of _ st1] exI[of _ ste]) (simp add: ProcessReply_def DoProcessReplyEx_def stb_def[symmetric])
qed


text \<open>Two ends that hold the same epoch 3; a cipher that appends a tag.\<close>

definition E0 :: Env where
  "E0 = \<lparr>gcm_set_key = (\<lambda>k. RC_OK), aes_set_key = (\<lambda>k. RC_OK), aes_ecb = (\<lambda>k b. Inr (rev b)), gcm_dec = (\<lambda>k n a c. Inr (take (length c - 16) c)),
     derive_keys = (\<lambda>ssl. (RC_OK, ssl)), handlers = H0, FreeHandshakeResources = (\<lambda>st. st), RetrySendAlert = (\<lambda>st. (RC_OK, st))\<rparr>"

definition data_ssl :: WOLFSSL where
  "data_ssl = epoch3_ssl\<lparr>epochs := (epochs epoch3_ssl)\<lparr>dtls13Epochs := [zero_epoch\<lparr>epochNumber := 3, isValid := True, window := [0, 0]\<rparr>]\<rparr>,
     options := (options epoch3_ssl)\<lparr>handShakeDone := True, encryptionOn := True\<rparr>, flags := (flags epoch3_ssl)\<lparr>decrypt_setup := True\<rparr>\<rparr>"

theorem data_delivered_once_witness:
  "\<exists>rec tx' st1 st2. BuildTls13Message (\<lambda>k n a p. Inr (p @ replicate 16 0)) (aes_ecb E0) 100 [1, 2, 3] application_data data_ssl = (Inr rec, tx') \<and>
    ProcessReply 1 E0 (rx0\<lparr>conn := data_ssl, net_in := [Inr rec, Inr rec]\<rparr>) = Some (Return RC_OK, st1) \<and> clearOutputBuffer st1 = [1, 2, 3] \<and>
    ProcessReply 2 E0 (st1\<lparr>clearOutputBuffer := []\<rparr>) = Some (Return WANT_READ, st2) \<and> clearOutputBuffer st2 = []"
proof -
  have aes: "aes_total (aes_ecb E0)" and gcm: "gcm_correct (\<lambda>k n a p. Inr (p @ replicate 16 0)) (gcm_dec E0)"
    by (simp_all add: aes_total_def gcm_correct_def E0_def)
  have link: "linked 0 0 data_ssl data_ssl"
    by (simp add: linked_def can_encrypt_def can_decrypt_def data_ssl_def epoch3_ssl_def fresh_ssl_def zero_epoch_def)
  have D: "near (sent_number 0 data_ssl) (expected_number 0 data_ssl)" "unat (expected_number 0 data_ssl) + 2 ^ 18 < 2 ^ 64"
      "check_window (expected_number 0 data_ssl) (window (dtls13Epochs (epochs data_ssl) ! 0)) (sent_number 0 data_ssl)"
      "length (window (dtls13Epochs (epochs data_ssl) ! 0)) = 2" "tls1_3 (options data_ssl)" "dtlsMtuSz data_ssl = 1400" "6 \<le> heap_left data_ssl"
    by (simp_all add: near_def data_ssl_def epoch3_ssl_def fresh_ssl_def zero_epoch_def check_window_def w64GTE_def)
  obtain rec tx' where rec: "BuildTls13Message (\<lambda>k n a p. Inr (p @ replicate 16 0)) (aes_ecb E0) 100 [1, 2, 3] application_data data_ssl = (Inr rec, tx')"
    using linked_record[OF link D(5,1) aes gcm, of "[1, 2, 3]" 100 application_data "gcm_set_key E0" "aes_set_key E0"] by auto
  let ?st = "rx0\<lparr>conn := data_ssl, net_in := [Inr rec, Inr rec]\<rparr>"
  have "open_receiver ?st" "takes_data 0 ?st" "\<forall>st. RetrySendAlert E0 st = (RC_OK, st)" "ssl_error ?st = RC_OK"
    by (simp_all add: open_receiver_def takes_data_def rx0_def E0_def data_ssl_def epoch3_ssl_def fresh_ssl_def)
  from data_delivered_once[OF this(1) _ this(2) _ this(3,4) _ _ _ _ aes gcm _ _ _ _ rec, of 0] link D rec show ?thesis by auto
qed

end
