(* ===== verification/Dtls13ReplyLoop.thy ===== *)
theory Dtls13ReplyLoop
  imports Dtls13ReceiveInv
begin

text \<open>
  The loop of \<open>DoProcessReplyEx\<close> ends: every pass that starts again has consumed input, from the input
  buffer or from the datagrams that have arrived.
\<close>

section \<open>What is left to read\<close>

abbreviation unread :: "RxState \<Rightarrow> nat" where
  "unread st \<equiv> length (in_buf st) - in_idx st"

fun queued :: "(wolf_rc + bytes) list \<Rightarrow> nat" where
  "queued [] = 0"
| "queued (Inl rc # q) = queued q"
| "queued (Inr d # q) = 2 * length d + 2 + queued q"

definition pending :: "RxState \<Rightarrow> nat" where
  "pending st = 2 * unread st + queued (net_in st) + (if replyState st = doProcessInit then 0 else 1)"

lemma recv_loop_queued:
  "recv_loop sz n q buf = (rc, buf', q') \<Longrightarrow> 2 * length buf' + queued q' + (if rc = RC_OK then 2 else 0) \<le> 2 * length buf + queued q"
proof (induction sz n q buf rule: recv_loop.induct)
  case (3 sz n d q buf)
  then show ?case by (fastforce split: if_splits)
qed (auto split: if_splits)

lemma GetInputData_queued:
  assumes "GetInputData sz st = Some (RC_OK, st')" "unread st = 0"
  shows "2 * unread st' + queued (net_in st') + 2 \<le> queued (net_in st)"
proof -
  obtain rc buf q where r: "recv_loop sz (dtlsMtuSz (conn st) + DTLS_MTU_ADDITIONAL_READ_BUFFER) (net_in st) (drop (in_idx st) (in_buf st)) = (rc, buf, q)"
    by (cases "recv_loop sz (dtlsMtuSz (conn st) + DTLS_MTU_ADDITIONAL_READ_BUFFER) (net_in st) (drop (in_idx st) (in_buf st))")
  have "rc = RC_OK" "in_buf st' = buf" "in_idx st' = 0" "net_in st' = q"
    using assms(1) r by (auto simp: GetInputData_def xmalloc_def Let_def split: if_splits option.splits)
  then show ?thesis using recv_loop_queued[OF r] assms(2) by simp
qed

section \<open>Requirements\<close>

text \<open>What the functions of the environment must leave alone.\<close>

definition keeps_input :: "RxState \<Rightarrow> RxState \<Rightarrow> bool" where
  "keeps_input st st' \<longleftrightarrow> in_buf st' = in_buf st \<and> in_bufferSize st' = in_bufferSize st \<and> in_idx st' = in_idx st \<and> net_in st' = net_in st \<and>
     padSz (keys (conn st')) = padSz (keys (conn st)) \<and> decryptedCur st' = decryptedCur st \<and> curRL st' = curRL st"

lemma keeps_input_refl [simp]: "keeps_input st st"
  by (simp add: keeps_input_def)

lemma keeps_input_trans: "keeps_input a b \<Longrightarrow> keeps_input b c \<Longrightarrow> keeps_input a c"
  by (simp add: keeps_input_def)

text \<open>A message handler that succeeds returns an index behind the padding of the record.\<close>

definition handlers_advance :: "Handlers \<Rightarrow> bool" where
  "handlers_advance H \<longleftrightarrow> (\<forall>d st. keeps_input st (SendAlert H d st)) \<and>
     (\<forall>body idx type sz tot st. case DoTls13HandShakeMsgType H body idx type sz tot st of (rc, i, st') \<Rightarrow>
        keeps_input st st' \<and> (rc = RC_OK \<or> rc = WANT_WRITE \<longrightarrow> idx + unat (padSz (keys (conn st))) \<le> i)) \<and>
     (\<forall>body idx type sz tot st. case DoHandShakeMsgType H body idx type sz tot st of (rc, i, st') \<Rightarrow> keeps_input st st') \<and>
     (\<forall>ch st. keeps_input st (snd (DoClientHelloStateless H ch st))) \<and>
     (\<forall>cb st. chGoodCb H = Some cb \<longrightarrow> keeps_input st (snd (cb st)))"

lemma handler_advances:
  assumes "handlers_advance H" "DoTls13HandShakeMsgType H body idx type sz tot st = (rc, i, st')"
  shows "keeps_input st st'" "rc = RC_OK \<or> rc = WANT_WRITE \<Longrightarrow> idx + unat (padSz (keys (conn st))) \<le> i"
proof -
  have "case DoTls13HandShakeMsgType H body idx type sz tot st of (rc, i, st') \<Rightarrow>
        keeps_input st st' \<and> (rc = RC_OK \<or> rc = WANT_WRITE \<longrightarrow> idx + unat (padSz (keys (conn st))) \<le> i)"
    by (rule conjunct1[OF conjunct2[OF assms(1)[unfolded handlers_advance_def]], THEN spec, THEN spec, THEN spec, THEN spec, THEN spec, THEN spec])
  then show "keeps_input st st'" "rc = RC_OK \<or> rc = WANT_WRITE \<Longrightarrow> idx + unat (padSz (keys (conn st))) \<le> i"
    unfolding assms(2) by auto
qed

definition env_advances :: "Env \<Rightarrow> bool" where
  "env_advances E \<longleftrightarrow> handlers_advance (handlers E) \<and> (\<forall>st. keeps_input st (FreeHandshakeResources E st)) \<and>
     (\<forall>ssl. padSz (keys (snd (derive_keys E ssl))) = padSz (keys ssl)) \<and>
     (\<forall>k b. aes_ecb E k b \<noteq> Inl RC_OK) \<and> (\<forall>k n a c p. gcm_dec E k n a c = Inr p \<longrightarrow> length p \<le> length c)"

text \<open>Outside the states before decryption, a record that was not decrypted has no padding.\<close>

definition pad_known :: "RxState \<Rightarrow> bool" where
  "pad_known st \<longleftrightarrow> decryptedCur st \<or> padSz (keys (conn st)) = 0"

definition reply_wf :: "RxState \<Rightarrow> bool" where
  "reply_wf st \<longleftrightarrow> replyState st \<in> {doProcessInit, getRecordLayerHeader, getData} \<or> pad_known st"

section \<open>Messages\<close>

lemma keeps_pad_known: "keeps_input st st' \<Longrightarrow> pad_known st' = pad_known st"
  by (simp add: keeps_input_def pad_known_def)

lemma buffered_step_keeps:
  assumes "handlers_advance H"
  shows "keeps_input st (snd (buffered_step H m rest st))"
proof -
  define r where "r = (if tls1_3 (options (conn st)) then DoTls13HandShakeMsgType H (case m_fullMsg m of Some b \<Rightarrow> b | None \<Rightarrow> []) 0 (m_type m) (m_sz m) (unat (m_sz m)) st
                          else DoHandShakeMsgType H (case m_fullMsg m of Some b \<Rightarrow> b | None \<Rightarrow> []) 0 (m_type m) (m_sz m) (unat (m_sz m)) st)"
  have "keeps_input st (snd (snd r))"
    unfolding r_def using assms by (auto simp: handlers_advance_def split_beta)
  then show ?thesis
    unfolding buffered_step_def Let_def r_def[symmetric]
    by (auto simp: split_beta keeps_input_def log_delivery_def Dtls13MsgWasProcessed_def bump_expected_def Let_def)
qed

lemma alert_keeps: "handlers_advance H \<Longrightarrow> keeps_input st (SendAlert H d st)"
  by (simp add: handlers_advance_def)

lemma buffered_loop_keeps: "handlers_advance H \<Longrightarrow> keeps_input st (snd (buffered_loop H msgs st))"
proof (induction msgs arbitrary: st)
  case (Cons m rest)
  obtain rc1 st1 where step: "buffered_step H m rest st = (rc1, st1)" by (cases "buffered_step H m rest st")
  have k: "keeps_input st st1" using buffered_step_keeps[OF Cons.prems, of st m rest] step by simp
  show ?case using Cons.IH[OF Cons.prems, of st1] keeps_input_trans[OF k] k alert_keeps[OF Cons.prems] by (simp add: step Let_def)
qed simp

lemma store_fragment_advances:
  assumes H: "handlers_advance H" and step: "store_fragment H input type len off n st = Some (rc, k, st')"
  shows "keeps_input st st'" "rc = RC_OK \<or> rc = WANT_WRITE \<Longrightarrow> 12 + unat (padSz (keys (conn st))) \<le> k"
proof -
  have "keeps_input st st' \<and> (rc = RC_OK \<or> rc = WANT_WRITE \<longrightarrow> 12 + unat (padSz (keys (conn st))) \<le> k)"
  proof (cases "dtls_rx_msg_list_sz (conn st) < DTLS_POOL_SZ")
    case True
    then obtain ssl where s: "DtlsMsgStore (ucast (w64GetLow32 (curEpoch64 (keys (conn st))))) (ucast (peer_num st))
                      (drop DTLS_HANDSHAKE_HEADER_SZ input) len type off n (decryptedCur st) (conn st) = Some ssl"
      using step unfolding store_fragment_def by (auto simp: bind_eq_Some_conv)
    have k: "keeps_input st (st\<lparr>conn := ssl\<rparr>)" using DtlsMsgStore_keeps(1)[OF s] by (simp add: keeps_input_def)
    have "st' = snd (buffered_loop H (dtls_rx_msg_list ssl) (st\<lparr>conn := ssl\<rparr>)) \<or> st' = st\<lparr>conn := ssl\<rparr>"
      and k2: "k = DTLS_HANDSHAKE_HEADER_SZ + unat n + unat (padSz (keys ssl))"
      using step s True unfolding store_fragment_def Let_def Dtls13ProcessBufferedMessages_def
      by (auto simp: bind_eq_Some_conv split: if_splits prod.splits)
    then show ?thesis
      using buffered_loop_keeps[OF H] keeps_input_trans[OF k] k k2 DtlsMsgStore_keeps(1)[OF s] by auto
  qed (use step in \<open>auto simp: store_fragment_def\<close>)
  then show "keeps_input st st'" "rc = RC_OK \<or> rc = WANT_WRITE \<Longrightarrow> 12 + unat (padSz (keys (conn st))) \<le> k" by auto
qed

lemma hand_over_advances:
  assumes H: "handlers_advance H" and step: "hand_over H input type len st = (rc, k, st')"
  shows "keeps_input st st'" "rc = RC_OK \<or> rc = WANT_WRITE \<Longrightarrow> 12 + unat (padSz (keys (conn st))) \<le> k"
proof -
  obtain rc1 i st1 where r: "DoTls13HandShakeMsgType H (map Some input) DTLS_HANDSHAKE_HEADER_SZ type len (length input) st = (rc1, i, st1)"
    by (cases "DoTls13HandShakeMsgType H (map Some input) DTLS_HANDSHAKE_HEADER_SZ type len (length input) st")
  have 1: "keeps_input st st1" "rc1 = RC_OK \<or> rc1 = WANT_WRITE \<Longrightarrow> DTLS_HANDSHAKE_HEADER_SZ + unat (padSz (keys (conn st))) \<le> i"
    using handler_advances[OF H r] by simp_all
  define d where "d = (ucast (peer_num st) :: u32, type, map Some (take (unat len) (drop DTLS_HANDSHAKE_HEADER_SZ input)), rc1 = RC_OK)"
  define st2 where "st2 = log_delivery d (st1\<lparr>handed := handed st\<rparr>)"
  define st3 where "st3 = st2\<lparr>conn := Dtls13MsgWasProcessed (hs_of_byte type) (conn st2)\<rparr>"
  have k: "keeps_input st st2" "keeps_input st st3"
    using 1(1) by (simp_all add: st3_def st2_def log_delivery_def keeps_input_def Dtls13MsgWasProcessed_def bump_expected_def Let_def)
  have *: "k = i" "rc1 = RC_OK \<or> rc1 = rc" "st' = st2 \<or> st' = st3 \<or> st' = snd (buffered_loop H (dtls_rx_msg_list (conn st3)) st3)"
    using step unfolding hand_over_def r Let_def prod.case d_def[symmetric] st2_def[symmetric] st3_def[symmetric] Dtls13ProcessBufferedMessages_def
    by (auto split: if_splits prod.splits)
  show "keeps_input st st'" using * k buffered_loop_keeps[OF H] keeps_input_trans[OF k(2)] by auto
  show "rc = RC_OK \<or> rc = WANT_WRITE \<Longrightarrow> 12 + unat (padSz (keys (conn st))) \<le> k" using * 1(2) by auto
qed

lemma recv_fragment_advances:
  assumes H: "handlers_advance H" and step: "recv_fragment H input type len off n st = Some (rc, k, st')"
  shows "keeps_input st st'" "rc = RC_OK \<or> rc = WANT_WRITE \<Longrightarrow> 12 + unat (padSz (keys (conn st))) \<le> k"
proof -
  define st1 where "st1 = st\<lparr>conn := Dtls13RtxMsgRecvd (hs_of_byte type) off (conn st)\<rparr>"
  have k1: "keeps_input st st1" by (simp add: st1_def keeps_input_def)
  define r where "r = (if \<not> (off = 0 \<and> n = len) \<and> \<not> Dtls13AcceptFragmented (hs_of_byte type) (conn st1)
               then unaccepted_fragment H input type off n st1 else (FragGo, st1))"
  define st2 where "st2 = snd r"
  have "keeps_input st1 (snd (unaccepted_fragment H input type off n st1))"
    using H unfolding handlers_advance_def unaccepted_fragment_def Let_def
    by (auto simp: split_beta keeps_input_def split: option.splits)
  then have k2: "keeps_input st st2" using k1 keeps_input_trans by (auto simp: st2_def r_def)
  have p: "padSz (keys (conn st1)) = padSz (keys (conn st))" "padSz (keys (conn st2)) = padSz (keys (conn st))"
    using k1 k2 by (simp_all add: keeps_input_def)
  have "st' = st1 \<and> k = DTLS_HANDSHAKE_HEADER_SZ + unat n + unat (padSz (keys (conn st1))) \<or>
    st' = st2 \<and> (rc = RC_OK \<and> k = DTLS_HANDSHAKE_HEADER_SZ + unat n + unat (padSz (keys (conn st2))) \<or> rc = WOLFSSL_FATAL_ERROR) \<or>
    store_fragment H input type len off n st2 = Some (rc, k, st') \<or> hand_over H input type len st2 = (rc, k, st')"
    using step unfolding recv_fragment_def Let_def st1_def[symmetric] r_def[symmetric]
    by (auto simp: st2_def split_beta split: if_splits frag_decision.splits)
  then have "keeps_input st st' \<and> (rc = RC_OK \<or> rc = WANT_WRITE \<longrightarrow> 12 + unat (padSz (keys (conn st))) \<le> k)"
    using k1 k2 p store_fragment_advances[OF H, of input type len off n st2 rc k st'] hand_over_advances[OF H, of input type len st2 rc k st']
      keeps_input_trans[OF k2] by auto
  then show "keeps_input st st'" "rc = RC_OK \<or> rc = WANT_WRITE \<Longrightarrow> 12 + unat (padSz (keys (conn st))) \<le> k" by auto
qed

text \<open>
  A message that is followed by the check for more input has moved the index behind its padding, or to the
  end of the buffer.
\<close>

definition consumed :: "RxState \<Rightarrow> RxState \<Rightarrow> bool" where
  "consumed st st' \<longleftrightarrow> in_buf st' = in_buf st \<and> net_in st' = net_in st \<and> (pad_known st \<longrightarrow> pad_known st') \<and>
     (length (in_buf st') \<le> in_idx st' \<or> rl_type (curRL st') = application_data \<or>
      in_idx st + 1 + (if IsEncryptionOn False (conn st') then unat (padSz (keys (conn st'))) else 0) \<le> in_idx st')"

lemma HandshakeRecv_consumes:
  assumes H: "handlers_advance H" and step: "Dtls13HandshakeRecv H st = Some (rc, st')" and rc: "rc = RC_OK \<or> rc = WANT_WRITE"
  shows "consumed st st'"
proof -
  let ?input = "drop (in_idx st) (in_buf st)"
  obtain k st1 where body: "Dtls13HandshakeRecv_body H ?input st = Some (rc, k, st1)" and st': "st' = st1\<lparr>in_idx := in_idx st1 + k\<rparr>"
    using step unfolding Dtls13HandshakeRecv_def by (auto simp: bind_eq_Some_conv)
  obtain r ssl where g: "GetDtlsHandShakeHeader (curRL st) ?input (length ?input) (conn st) = (r, ssl)"
    by (cases "GetDtlsHandShakeHeader (curRL st) ?input (length ?input) (conn st)")
  have pad: "padSz (keys ssl) = padSz (keys (conn st))" using g by (auto simp: GetDtlsHandShakeHeader_def Let_def split: if_splits)
  obtain type len off n where r: "r = Inr (type, len, off, n)"
  proof (cases r)
    case (Inl e)
    then have "Dtls13HandshakeRecv_body H ?input st = Some (PARSE_ERROR, 0, st\<lparr>conn := ssl\<rparr>)" using g by (simp add: Dtls13HandshakeRecv_body_def)
    then show ?thesis using body rc by auto
  qed (use that in \<open>metis prod_cases4\<close>)
  obtain ret st2 where es: "EarlySanityCheckMsgReceived H type (of_nat DTLS_HANDSHAKE_HEADER_SZ + n) (st\<lparr>conn := ssl\<rparr>) = (ret, st2)"
    by (cases "EarlySanityCheckMsgReceived H type (of_nat DTLS_HANDSHAKE_HEADER_SZ + n) (st\<lparr>conn := ssl\<rparr>)")
  have mc: "MsgCheckEncryption t e s \<noteq> WANT_WRITE" "MsgCheckBoundary t v m x \<noteq> WANT_WRITE" for t e s v m x
    by (simp_all add: MsgCheckEncryption_def MsgCheckBoundary_def Let_def)
  have st2: "ret = RC_OK \<Longrightarrow> keeps_input st st2" "ret \<noteq> WANT_WRITE"
    using es pad mc by (auto simp: EarlySanityCheckMsgReceived_def keeps_input_def Let_def split: if_splits)
  have ep: "Dtls13CheckEpoch hs s \<noteq> WANT_WRITE" for hs s by (simp add: Dtls13CheckEpoch_def Let_def)
  define fresh where "fresh \<longleftrightarrow> opt_side (options (conn st2)) = WOLFSSL_SERVER_END \<and> acceptState (options (conn st2)) < TLS13_ACCEPT_FIRST_REPLY_DONE"
  define st3 where "st3 = st2\<lparr>conn := (if fresh
      then set_epoch 0 ((dtls13Epochs (epochs (conn st2)) ! 0)\<lparr>nextSeqNumber := curSeq (keys (conn st2))\<rparr>)
             ((conn st2)\<lparr>keys := (keys (conn st2))\<lparr>dtls_expected_peer_handshake_number := peer_num st2, dtls_handshake_number := peer_num st2\<rparr>\<rparr>)
      else conn st2)\<rparr>"
  have ok: "ret = RC_OK" "Dtls13CheckEpoch (hs_of_byte type) (conn st2) = RC_OK"
    using body rc st2(2) ep[of "hs_of_byte type" "conn st2"] unfolding Dtls13HandshakeRecv_body_def g r sum.case prod.case es Let_def
    by (auto split: if_splits)
  have k3: "keeps_input st st3" using st2(1)[OF ok(1)] by (simp add: st3_def set_epoch_def keeps_input_def)
  have "st1 = st2 \<and> k = length ?input \<or> recv_fragment H ?input type len off n st3 = Some (rc, k, st1)"
    using body rc ok unfolding Dtls13HandshakeRecv_body_def g r sum.case prod.case es Let_def fresh_def[symmetric] st3_def[symmetric]
    by (auto split: if_splits)
  then consider "keeps_input st st1" "k = length ?input" | "keeps_input st st3" "recv_fragment H ?input type len off n st3 = Some (rc, k, st1)"
    using st2(1)[OF ok(1)] k3 by auto
  then show ?thesis
  proof cases
    case 1
    then show ?thesis using keeps_pad_known[OF 1(1)] by (auto simp: consumed_def st' keeps_input_def pad_known_def)
  next
    case 2
    note f = recv_fragment_advances(1)[OF H 2(2)] recv_fragment_advances(2)[OF H 2(2) rc]
    note k = keeps_input_trans[OF 2(1) f(1)]
    show ?thesis using k keeps_pad_known[OF k] 2(1) f(2) by (auto simp: consumed_def st' keeps_input_def pad_known_def)
  qed
qed

lemma ack_loop_keeps: "keys (ack_loop bs ssl) = keys ssl"
  by (induction bs ssl rule: ack_loop.induct) (subst ack_loop.simps, auto simp: Dtls13RtxRemoveRecord_def set_rtxRecords_def)

lemma SetKeysSide_pad: "padSz (keys (snd (SetKeysSide g a es ssl))) = padSz (keys ssl)"
proof -
  have set: "padSz (keys (snd (set_enc_key g s))) = padSz (keys s)" "padSz (keys (snd (set_dec_key g s))) = padSz (keys s)" for s
    by (simp_all add: set_enc_key_def set_dec_key_def Let_def)
  have 1: "padSz (keys (snd (SetKeys g es ssl))) = padSz (keys ssl)"
    unfolding SetKeys_def Let_def using alloc_enc_keeps alloc_dec_keeps
    by (auto simp: split_beta set mark_setup_def split: option.splits if_splits)
  then show ?thesis
    using SetRecordNumberKeys_keeps[of a es "snd (SetKeys g es ssl)"] by (simp add: SetKeysSide_def Let_def split_beta same_bulk_def)
qed

lemma SetEpochKeys_pad: "padSz (keys (snd (Dtls13SetEpochKeys g a n es ssl))) = padSz (keys ssl)"
  unfolding Dtls13SetEpochKeys_def Let_def by (auto simp: split_beta SetKeysSide_pad split: option.splits)

lemma DoDtls13Ack_consumes:
  assumes d: "\<And>ssl. padSz (keys (snd (derive ssl))) = padSz (keys ssl)" and step: "DoDtls13Ack g a derive input ssl = (Inr n, ssl')"
  shows "2 \<le> n" "padSz (keys ssl') = padSz (keys ssl)"
proof -
  have ku: "padSz (keys (snd (DoDtls13KeyUpdateAck g a derive s))) = padSz (keys s)" for s
    using d[of "s\<lparr>flags := (flags s)\<lparr>dtls13WaitKeyUpdateAck := False\<rparr>\<rparr>"]
    unfolding DoDtls13KeyUpdateAck_def Dtls13KeyUpdateAckReceived_def Let_def
    by (auto simp: split_beta SetEpochKeys_pad)
  show "2 \<le> n" using step unfolding DoDtls13Ack_def Let_def by (auto simp: split_beta split: if_splits)
  show "padSz (keys ssl') = padSz (keys ssl)"
    using step unfolding DoDtls13Ack_def Let_def by (auto simp: split_beta ku ack_loop_keeps split: if_splits)
qed

lemma process_msg_consumes:
  assumes E: "env_advances E" and step: "process_msg E st = Some (Inr ret, st')" and pk: "pad_known st"
  shows "consumed st st'"
proof -
  have H: "handlers_advance (handlers E)" and fr: "\<And>st. keeps_input st (FreeHandshakeResources E st)"
    and d: "\<And>ssl. padSz (keys (snd (derive_keys E ssl))) = padSz (keys ssl)"
    using E by (auto simp: env_advances_def)
  let ?t = "rl_type (curRL st)"
  consider (hs) "handshake_msg E st = Some (Inr ret, st')" | (ccs) "change_cipher_msg E st = (Inr ret, st')"
    | (app) "?t = application_data" "application_msg E st = (Inr ret, st')" | (al) "alert_msg st = (Inr ret, st')" | (ack) "ack_msg E st = (Inr ret, st')"
    using step unfolding process_msg_def Let_def by (auto split: if_splits)
  then show ?thesis
  proof cases
    case hs
    then obtain st1 where st1: "Dtls13HandshakeRecv (handlers E) st = Some (ret, st1)" "ret = RC_OK \<or> ret = WANT_WRITE"
      and same: "in_buf st' = in_buf st1" "net_in st' = net_in st1" "in_idx st' = in_idx st1" "keys (conn st') = keys (conn st1)" "decryptedCur st' = decryptedCur st1"
        "IsEncryptionOn False (conn st') = IsEncryptionOn False (conn st1)" "curRL st' = curRL st1"
      unfolding handshake_msg_def Let_def by (auto simp: bind_eq_Some_conv IsEncryptionOn_def split: if_splits)
    from HandshakeRecv_consumes[OF H st1] show ?thesis by (auto simp add: consumed_def same pad_known_def)
  next
    case ccs
    then show ?thesis using pk by (auto simp: change_cipher_msg_def consumed_def pad_known_def Let_def split: if_splits)
  next
    case app
    define st1 where "st1 = (if dtlsHsRetain st then (FreeHandshakeResources E st)\<lparr>dtlsHsRetain := False\<rparr> else st)"
    have k: "keeps_input st st1" using fr[of st] by (simp add: st1_def keeps_input_def)
    have "DoApplicationData E st1 = (ret, st')" "ret = RC_OK \<or> ret = APP_DATA_READY"
      using app(2) unfolding application_msg_def Let_def st1_def[symmetric] by (auto split: if_splits prod.splits)
    then have "in_buf st' = in_buf st1" "net_in st' = net_in st1" "curRL st' = curRL st1" "keys (conn st') = keys (conn st1)" "decryptedCur st' = decryptedCur st1"
      by (auto simp: DoApplicationData_def set_sendAcks_def invalidate_older_def Let_def split: if_splits)
    then show ?thesis using k app(1) by (simp add: consumed_def keeps_input_def pad_known_def)
  next
    case al
    then show ?thesis by (auto simp: alert_msg_def DoAlert_def consumed_def pad_known_def Let_def split: if_splits sum.splits)
  next
    case ack
    let ?pad = "unat (padSz (keys (conn st)))"
    obtain n ssl where s: "DoDtls13Ack (gcm_set_key E) (aes_set_key E) (derive_keys E)
        (take (length (in_buf st) - in_idx st - ?pad) (drop (in_idx st) (in_buf st))) (conn st) = (Inr n, ssl)"
      and st': "st' = st\<lparr>conn := ssl, in_idx := in_idx st + n + ?pad\<rparr>"
      using ack unfolding ack_msg_def Let_def by (auto split: sum.splits prod.splits)
    show ?thesis using DoDtls13Ack_consumes[OF d s] by (auto simp: consumed_def st' pad_known_def)
  qed
qed

section \<open>Passes that start again\<close>

text \<open>What a pass leaves when it starts again: at most \<open>n\<close> units of input, and a state in order.\<close>

definition left :: "nat \<Rightarrow> (outcome \<times> RxState) option \<Rightarrow> bool" where
  "left n r \<longleftrightarrow> (\<forall>st'. r = Some (Again, st') \<longrightarrow> pending st' \<le> n \<and> reply_wf st')"

lemma left_mono: "left m r \<Longrightarrow> m \<le> n \<Longrightarrow> left n r"
  by (auto simp: left_def)

lemma left_return [simp]: "left n (Some (Return rc, st))"
  by (simp add: left_def)

lemma shrink_keeps:
  assumes "shrink_if_dynamic ret st = Some st'"
  shows "unread st' = unread st" "net_in st' = net_in st" "replyState st' = replyState st" "pad_known st' = pad_known st"
  using assms by (auto simp: shrink_if_dynamic_def ShrinkInputBuffer_def pad_known_def split: if_splits)

lemma after_msg_left:
  assumes c: "consumed st0 st" and u: "in_idx st0 < length (in_buf st0)" and pk: "pad_known st0"
  shows "left (2 * unread st0 + queued (net_in st0) - 1) (after_msg ret st)"
  unfolding left_def
proof (intro allI impI)
  fix st' assume a: "after_msg ret st = Some (Again, st')"
  define enc where "enc = IsEncryptionOn False (conn st)"
  define pad where "pad = unat (padSz (keys (conn st)))"
  obtain st1 where s1: "shrink_if_dynamic ret st1 = Some st'" "in_buf st1 = in_buf st" "net_in st1 = net_in st" "pad_known st1 = pad_known st"
    and idx: "in_idx st1 = in_idx st - (if enc \<and> replyState st1 = runProcessingOneMessage then pad else 0)"
    and rs: "replyState st1 \<in> {doProcessInit, runProcessingOneMessage}" and more: "in_idx st < length (in_buf st)" "rl_type (curRL st) \<noteq> application_data"
    using a unfolding after_msg_def Let_def by (auto simp: bind_eq_Some_conv enc_def pad_def pad_known_def split: if_splits)
  have "in_idx st0 + 1 \<le> in_idx st1" using c more idx by (auto simp: consumed_def enc_def pad_def split: if_splits)
  moreover have "in_buf st1 = in_buf st0" "net_in st1 = net_in st0" "pad_known st1" using c pk s1 by (simp_all add: consumed_def)
  ultimately show "pending st' \<le> 2 * unread st0 + queued (net_in st0) - 1 \<and> reply_wf st'"
    using shrink_keeps[OF s1(1)] u by (auto simp: pending_def reply_wf_def)
qed

lemma one_message_left:
  assumes E: "env_advances E" and pk: "pad_known st"
  shows "left (2 * unread st + queued (net_in st)) (one_message E st)"
proof (cases "length (in_buf st) \<le> in_idx st \<or> (\<forall>ret st'. process_msg E st \<noteq> Some (Inr ret, st'))")
  case True
  then show ?thesis by (cases "process_msg E st") (auto simp: one_message_def left_def split: sum.splits)
next
  case False
  then obtain ret st' where p: "process_msg E st = Some (Inr ret, st')" and u: "in_idx st < length (in_buf st)" by auto
  have "one_message E st = after_msg ret st'" using p u by (simp add: one_message_def)
  then show ?thesis using after_msg_left[OF process_msg_consumes[OF E p pk] u pk, THEN left_mono] by simp
qed

lemma UpdateWindowRecordRecvd_keeps: "keys (snd (Dtls13UpdateWindowRecordRecvd t ssl)) = keys ssl"
proof -
  have w: "keys (snd (Dtls13UpdateWindow s)) = keys s" for s
    by (auto simp: Dtls13UpdateWindow_def set_epoch_def Let_def split: option.splits)
  have r: "keys (snd (Dtls13RecordRecvd t s)) = keys s" for s
    by (auto simp: Dtls13RecordRecvd_def Dtls13RtxAddAck_def xmalloc_def Let_def split: option.splits)
  show ?thesis by (simp add: Dtls13UpdateWindowRecordRecvd_def Let_def split_beta w r)
qed

lemma one_record_left:
  assumes E: "env_advances E" and pk: "pad_known st"
  shows "left (2 * unread st + queued (net_in st)) (one_record E st)"
proof (cases "Dtls13CheckWindow (conn st)")
  case True
  define u where "u = (if dtlsStateful (options (conn st)) then Dtls13UpdateWindowRecordRecvd (rl_type (curRL st)) (conn st) else (RC_OK, conn st))"
  define st1 where "st1 = st\<lparr>conn := snd u, replyState := runProcessingOneMessage\<rparr>"
  have pk1: "pad_known st1" using pk by (simp add: st1_def u_def pad_known_def UpdateWindowRecordRecvd_keeps)
  have "one_record E st = (if fst u \<noteq> RC_OK then Some (Return (fst u), st\<lparr>conn := snd u\<rparr>) else one_message E st1)"
    using True unfolding one_record_def Let_def u_def[symmetric] by (simp add: split_beta st1_def)
  then show ?thesis using one_message_left[OF E pk1] by (simp add: st1_def)
qed (auto simp: one_record_def left_def pending_def reply_wf_def Let_def)

lemma verify_message_left:
  assumes E: "env_advances E" and pk: "pad_known st"
  shows "left (2 * unread st + queued (net_in st)) (verify_message E st)"
proof -
  define st1 where "st1 = (if to_decrypt st then (set_padSz (of_nat aead_mac_size) st)\<lparr>decryptedCur := True\<rparr> else st)"
  have s1: "in_buf st1 = in_buf st" "in_idx st1 = in_idx st" "net_in st1 = net_in st" "pad_known st1"
    using pk by (simp_all add: st1_def set_padSz_def pad_known_def)
  consider rc st' where "verify_message E st = Some (Return rc, st')"
    | st' where "verify_message E st = one_record E (st'\<lparr>curStartIdx := in_idx st', replyState := runProcessingOneRecord\<rparr>)"
      "in_buf st' = in_buf st1" "in_idx st' = in_idx st1" "net_in st' = net_in st1" "pad_known st'"
  proof (cases "IsEncryptionOn False (conn st1) \<and> decryptedCur st1")
    case True
    then show thesis
      using that unfolding verify_message_def Let_def st1_def[symmetric]
      by (cases "removeMsgInnerPadding (in_buf st1) (in_idx st1) (curSize st1)") (auto simp: set_padSz_def pad_known_def)
  next
    case False
    then show thesis using that(2)[of st1] s1(4) unfolding verify_message_def Let_def st1_def[symmetric] if_not_P[OF False] by simp
  qed
  then show ?thesis
  proof cases
    case (2 st')
    then have "pad_known (st'\<lparr>curStartIdx := in_idx st', replyState := runProcessingOneRecord\<rparr>)" by (simp add: pad_known_def)
    from one_record_left[OF E this] show ?thesis using 2 s1 by simp
  qed simp
qed

lemma DoDecrypt_length:
  assumes "\<And>k n a c p. dec k n a c = Inr p \<Longrightarrow> length p \<le> length c" and d: "DoDecrypt dec buf idx n aad ssl = (Inr buf', ssl')"
  shows "length buf' = length buf" "padSz (keys ssl') = padSz (keys ssl)"
proof -
  obtain p where p: "DecryptTls13 dec (take n (drop idx buf)) aad ssl = (Inr p, ssl')" and buf': "buf' = take idx buf @ p @ drop (idx + length p) buf"
    using d by (auto simp: DoDecrypt_def Let_def split: if_splits sum.splits prod.splits)
  then obtain key nonce where "dec key nonce aad (take n (drop idx buf)) = Inr p" and k: "keys ssl' = keys ssl"
    by (auto simp: DecryptTls13_def BuildNonce_peer xmalloc_def Let_def split: option.splits if_splits)
  from assms(1)[OF this(1)] k
  show "length buf' = length buf" "padSz (keys ssl') = padSz (keys ssl)" by (auto simp: buf')
qed

lemma decrypt_message_left:
  assumes E: "env_advances E" and pk: "pad_known st"
  shows "left (2 * unread st + queued (net_in st)) (decrypt_message E st)"
proof (cases "to_decrypt st")
  case True
  have dec: "\<And>k n a c p. gcm_dec E k n a c = Inr p \<Longrightarrow> length p \<le> length c" using E by (simp add: env_advances_def)
  obtain r ssl where r: "DoDecrypt (gcm_dec E) (in_buf st) (in_idx st) (curSize st) (dtls13CurRL st) (conn st) = (r, ssl)"
    by (cases "DoDecrypt (gcm_dec E) (in_buf st) (in_idx st) (curSize st) (dtls13CurRL st) (conn st)")
  show ?thesis
  proof (cases r)
    case (Inl rc)
    then show ?thesis using True r by (simp add: decrypt_message_def split_beta left_def)
  next
    case (Inr buf)
    note l = DoDecrypt_length[OF dec r[unfolded Inr]]
    have "pad_known (st\<lparr>in_buf := buf, conn := ssl, replyState := verifyMessage\<rparr>)" using pk l(2) by (simp add: pad_known_def)
    from verify_message_left[OF E this] show ?thesis using True r Inr l(1) by (simp add: decrypt_message_def)
  qed
next
  case False
  have "pad_known (st\<lparr>replyState := verifyMessage\<rparr>)" using pk by (simp add: pad_known_def)
  from verify_message_left[OF E this] show ?thesis using False by (simp add: decrypt_message_def)
qed

lemma dropped_left: "left (queued (net_in st)) (Some (a, DropAndRestartProcessReply st))"
  by (simp add: left_def DropAndRestartProcessReply_def pending_def reply_wf_def)

lemma get_data_left:
  assumes E: "env_advances E"
  shows "left (2 * unread st + queued (net_in st)) (get_data E st)"
proof -
  have "pad_known ((set_padSz 0 st)\<lparr>replyState := decryptMessage\<rparr>)" by (simp add: pad_known_def set_padSz_def)
  from decrypt_message_left[OF E this] show ?thesis
    using left_mono[OF dropped_left[of st Again]] by (simp add: get_data_def set_padSz_def)
qed

lemma GetDtlsRecordHeader_input:
  assumes "GetDtlsRecordHeader g a aes input ssl = (Inr (rh, sz, n, input'), ssl')"
  shows "length input' \<le> length input" "0 < n" "2 \<le> length input"
proof -
  have p: "length i \<le> length input" if "Dtls13ParseUnifiedRecordLayer aes input m s = Inr (info, i)" "2 \<le> length input" for m s info i
    using that by (auto simp: Dtls13ParseUnifiedRecordLayer_def Dtls13EncryptDecryptRecordNumber_def Let_def split: if_splits sum.splits)
  have "length i \<le> length input \<and> 0 < m \<and> 2 \<le> length input" if "GetDtls13RecordHeader g a aes input s = (Inr (h, k, m, i), s')" for s h k m i s'
    using that p by (auto simp: GetDtls13RecordHeader_def Dtls13GetUnifiedHeaderSize_def Let_def split: if_splits sum.splits option.splits prod.splits)
  then show "length input' \<le> length input" "0 < n" "2 \<le> length input"
    using assms(1) unfolding GetDtlsRecordHeader_def Let_def by (auto simp: split_beta split: if_splits)
qed

lemma GetDtlsRecordHeader_error:
  assumes aes: "\<And>k b. aes k b \<noteq> Inl RC_OK" and "GetDtlsRecordHeader g a aes input ssl = (Inl e, ssl')"
  shows "e \<noteq> RC_OK"
proof -
  have "Dtls13GetRnMask aes c d s \<noteq> Inl RC_OK" for c d s
    using aes by (auto simp: Dtls13GetRnMask_def Let_def split: option.splits sum.splits)
  then have p: "Dtls13ParseUnifiedRecordLayer aes i m s \<noteq> Inl RC_OK" for i m s
    by (auto simp: Dtls13ParseUnifiedRecordLayer_def Dtls13EncryptDecryptRecordNumber_def Let_def split: if_splits sum.splits)
  have r: "Dtls13ReconstructEpochNumber b eps \<noteq> Inl RC_OK" for b eps
    by (auto simp: Dtls13ReconstructEpochNumber_def Let_def split: option.splits)
  have "fst (GetDtls13RecordHeader g a aes input s) \<noteq> Inl RC_OK" for s
    using p r by (auto simp: GetDtls13RecordHeader_def Let_def split: if_splits sum.splits option.splits prod.splits)
  then show ?thesis
    using assms(2) unfolding GetDtlsRecordHeader_def Let_def by (auto simp: split_beta split: if_splits; metis fst_conv)
qed

lemma GetRecordHeader_input:
  assumes "\<And>k b. aes_ecb E k b \<noteq> Inl RC_OK" "GetRecordHeader E st = (ret, st')"
  shows "net_in st' = net_in st" "ret = RC_OK \<Longrightarrow> unread st' < unread st"
proof -
  let ?input = "drop (in_idx st) (in_buf st)"
  obtain r ssl where r: "GetDtlsRecordHeader (gcm_set_key E) (aes_set_key E) (aes_ecb E) ?input (conn st) = (r, ssl)"
    by (cases "GetDtlsRecordHeader (gcm_set_key E) (aes_set_key E) (aes_ecb E) ?input (conn st)")
  have "net_in st' = net_in st \<and> (ret = RC_OK \<longrightarrow> unread st' < unread st)"
  proof (cases r)
    case (Inl e)
    have "e \<noteq> RC_OK" using GetDtlsRecordHeader_error[OF assms(1) r[unfolded Inl]] .
    then show ?thesis using assms r Inl by (auto simp: GetRecordHeader_def Let_def)
  next
    case (Inr x)
    obtain rh sz n input' where x: "x = (rh, sz, n, input')" by (cases x)
    note i = GetDtlsRecordHeader_input[OF r[unfolded Inr x]]
    have "in_idx st + length input' - (in_idx st + n) < unread st" using i by simp
    then show ?thesis using assms i unfolding GetRecordHeader_def Let_def r Inr x by (auto split: if_splits)
  qed
  then show "net_in st' = net_in st" "ret = RC_OK \<Longrightarrow> unread st' < unread st" by simp_all
qed

lemma record_header_left:
  assumes E: "env_advances E"
  shows "left (2 * unread st - 1 + queued (net_in st)) (record_header E st)"
proof -
  obtain ret st1 where r: "GetRecordHeader E st = (ret, st1)" by (cases "GetRecordHeader E st")
  have aes: "\<And>k b. aes_ecb E k b \<noteq> Inl RC_OK" using E by (simp add: env_advances_def)
  note i = GetRecordHeader_input[OF aes r]
  have drop: "left (2 * unread st - 1 + queued (net_in st)) (Some (a, DropAndRestartProcessReply st1))" for a
    using left_mono[OF dropped_left[of st1 a]] i(1) by simp
  show ?thesis
  proof (cases "ret = RC_OK \<and> \<not> DtlsShouldDrop ret st1")
    case True
    have "left (2 * unread st - 1 + queued (net_in st)) (get_data E (st1\<lparr>replyState := getData\<rparr>))"
      by (rule left_mono[OF get_data_left[OF E]]) (use True i in simp)
    then show ?thesis using True r by (auto simp: record_header_def)
  next
    case False
    then show ?thesis using drop r by (auto simp: record_header_def Let_def)
  qed
qed

lemma process_init_left:
  assumes E: "env_advances E" and step: "process_init E st = Some (Again, st')"
  shows "pending st' < 2 * unread st + queued (net_in st) \<and> reply_wf st'"
proof -
  define readSz where "readSz = (if tls1_3 (options (conn st)) then DTLS_UNIFIED_HEADER_MIN_SZ else DTLS_RECORD_HEADER_SZ)"
  show ?thesis
  proof (cases "unread st = 0")
    case True
    have "length (in_buf st) < in_idx st + readSz" using True by (auto simp: readSz_def)
    then obtain st1 where g: "GetInputData readSz st = Some (RC_OK, st1)" and again: "record_header E st1 = Some (Again, st')"
      using step True unfolding process_init_def Let_def readSz_def[symmetric] by (auto simp: bind_eq_Some_conv split: if_splits)
    from again record_header_left[OF E, of st1] GetInputData_queued[OF g] True show ?thesis
      by (auto simp: left_def)
  next
    case False
    have "left (2 * unread st - 1 + queued (net_in st)) (process_init E st)"
      using False record_header_left[OF E, of st] left_mono[OF dropped_left[of st Again]]
      unfolding process_init_def Let_def readSz_def[symmetric] by auto
    then show ?thesis using step False by (auto simp: left_def)
  qed
qed

text \<open>A pass that starts again has consumed something.\<close>

lemma reply_step_decreases:
  assumes E: "env_advances E" and wf: "reply_wf st" and step: "reply_step E st = Some (Again, st')"
  shows "pending st' < pending st" "reply_wf st'"
proof -
  have d: "pad_known (st\<lparr>replyState := decryptMessage\<rparr>) = pad_known st" by (simp add: pad_known_def)
  have "pending st' < pending st \<and> reply_wf st'"
    using wf step process_init_left[OF E, of st st'] record_header_left[OF E, of st] get_data_left[OF E, of st] d
      decrypt_message_left[OF E, of st] decrypt_message_left[OF E, of "st\<lparr>replyState := decryptMessage\<rparr>"]
      verify_message_left[OF E, of st] one_record_left[OF E, of st] one_message_left[OF E, of st]
    by (cases "replyState st") (auto simp: reply_step_def left_def pending_def reply_wf_def)
  then show "pending st' < pending st" "reply_wf st'" by simp_all
qed

lemma reply_loop_ends: "env_advances E \<Longrightarrow> reply_wf st \<Longrightarrow> pending st < k \<Longrightarrow> reply_loop k E st \<noteq> Some (Again, st')"
proof (induction k arbitrary: st)
  case (Suc k)
  show ?case
  proof (cases "\<exists>st1. reply_step E st = Some (Again, st1)")
    case True
    then obtain st1 where s: "reply_step E st = Some (Again, st1)" by blast
    note d = reply_step_decreases[OF Suc.prems(1,2) s]
    then show ?thesis using s Suc.IH[OF Suc.prems(1) d(2)] Suc.prems(3) by simp
  next
    case False
    then show ?thesis by (auto split: option.splits outcome.splits)
  qed
qed simp

section \<open>Properties\<close>


definition E1 :: Env where
  "E1 = E0\<lparr>handlers := H0\<lparr>DoTls13HandShakeMsgType :=
     (\<lambda>body idx type sz tot st. (RC_OK, idx + unat sz + unat (padSz (keys (conn st))), st))\<rparr>\<rparr>"


end
