(* ===== verification/Dtls13InputBuffer.thy ===== *)
theory Dtls13InputBuffer
  imports Dtls13ReplyLoop
begin

text \<open>
  The bytes in the input buffer stay within the allocated size throughout the reception of records
  (\<open>GetInputData\<close>, \<open>ShrinkInputBuffer\<close>, \<open>DoProcessReplyEx\<close> of \<open>src/internal.c\<close>).
\<close>

section \<open>The size of the input buffer\<close>

text \<open>The input stays within the allocated buffer.\<close>

definition fits :: "RxState \<Rightarrow> bool" where
  "fits st \<longleftrightarrow> length (in_buf st) \<le> in_bufferSize st"

definition keeps_buf :: "RxState \<Rightarrow> RxState \<Rightarrow> bool" where
  "keeps_buf st st' \<longleftrightarrow> in_buf st' = in_buf st \<and> in_bufferSize st' = in_bufferSize st"

lemma keeps_input_buf: "keeps_input st st' \<Longrightarrow> keeps_buf st st'"
  by (simp add: keeps_input_def keeps_buf_def)

lemma recv_loop_bound: "recv_loop sz n q buf = (rc, buf', q') \<Longrightarrow> length buf' \<le> length buf + n"
proof (induction sz n q buf rule: recv_loop.induct)
  case (3 sz n d q buf)
  then show ?case by (fastforce split: if_splits)
qed (auto split: if_splits)

lemma GetInputData_fits:
  assumes "GetInputData sz st = Some (rc, st')" "fits st"
  shows "fits st'"
proof (cases "disableRead st")
  case False
  obtain rc' buf q where r: "recv_loop sz (dtlsMtuSz (conn st) + DTLS_MTU_ADDITIONAL_READ_BUFFER) (net_in st) (drop (in_idx st) (in_buf st)) = (rc', buf, q)"
    by (cases "recv_loop sz (dtlsMtuSz (conn st) + DTLS_MTU_ADDITIONAL_READ_BUFFER) (net_in st) (drop (in_idx st) (in_buf st))")
  show ?thesis
    using assms r recv_loop_bound[OF r] False
    by (auto simp: GetInputData_def fits_def xmalloc_def Let_def split: if_splits option.splits)
qed (use assms in \<open>simp add: GetInputData_def\<close>)

lemma HandshakeRecv_buf:
  assumes H: "handlers_advance H" and step: "Dtls13HandshakeRecv H st = Some (rc, st')"
  shows "keeps_buf st st'"
proof -
  let ?input = "drop (in_idx st) (in_buf st)"
  obtain k st1 where body: "Dtls13HandshakeRecv_body H ?input st = Some (rc, k, st1)" and st': "st' = st1\<lparr>in_idx := in_idx st1 + k\<rparr>"
    using step unfolding Dtls13HandshakeRecv_def by (auto simp: bind_eq_Some_conv)
  obtain r ssl where g: "GetDtlsHandShakeHeader (curRL st) ?input (length ?input) (conn st) = (r, ssl)"
    by (cases "GetDtlsHandShakeHeader (curRL st) ?input (length ?input) (conn st)")
  have early: "keeps_buf st (snd (EarlySanityCheckMsgReceived H t m (st\<lparr>conn := s\<rparr>)))" for t m s
    using keeps_input_buf[OF alert_keeps[OF H], of "st\<lparr>conn := s\<rparr>"] by (simp add: EarlySanityCheckMsgReceived_def keeps_buf_def Let_def)
  have frag: "keeps_buf s1 s2" if "recv_fragment H ?input type len off n s1 = Some (rc, k, s2)" for type len off n s1 s2
    using keeps_input_buf[OF recv_fragment_advances(1)[OF H that]] .
  have "keeps_buf st st1"
  proof (cases r)
    case (Inl e)
    then show ?thesis using body g by (auto simp: Dtls13HandshakeRecv_body_def keeps_buf_def)
  next
    case (Inr x)
    obtain type len off n where x: "x = (type, len, off, n)" by (metis prod_cases4)
    obtain ret st2 where es: "EarlySanityCheckMsgReceived H type (of_nat DTLS_HANDSHAKE_HEADER_SZ + n) (st\<lparr>conn := ssl\<rparr>) = (ret, st2)"
      by (cases "EarlySanityCheckMsgReceived H type (of_nat DTLS_HANDSHAKE_HEADER_SZ + n) (st\<lparr>conn := ssl\<rparr>)")
    have k2: "keeps_buf st st2" using early[of type "of_nat DTLS_HANDSHAKE_HEADER_SZ + n" ssl] es by simp
    define fresh where "fresh \<longleftrightarrow> opt_side (options (conn st2)) = WOLFSSL_SERVER_END \<and> acceptState (options (conn st2)) < TLS13_ACCEPT_FIRST_REPLY_DONE"
    define st3 where "st3 = st2\<lparr>conn := (if fresh
      then set_epoch 0 ((dtls13Epochs (epochs (conn st2)) ! 0)\<lparr>nextSeqNumber := curSeq (keys (conn st2))\<rparr>)
             ((conn st2)\<lparr>keys := (keys (conn st2))\<lparr>dtls_expected_peer_handshake_number := peer_num st2, dtls_handshake_number := peer_num st2\<rparr>\<rparr>)
      else conn st2)\<rparr>"
    have k3: "keeps_buf st st3" using k2 by (simp add: st3_def keeps_buf_def)
    have "st1 = st2 \<or> st1 = st3 \<or> recv_fragment H ?input type len off n st3 = Some (rc, k, st1)"
      using body unfolding Dtls13HandshakeRecv_body_def g Inr x sum.case prod.case es Let_def fresh_def[symmetric] st3_def[symmetric]
      by (auto split: if_splits)
    then show ?thesis using k2 k3 frag[of type len off n st3 st1] by (auto simp: keeps_buf_def)
  qed
  then show ?thesis by (simp add: st' keeps_buf_def)
qed

lemma process_msg_buf:
  assumes E: "env_advances E" and step: "process_msg E st = Some (r, st')"
  shows "keeps_buf st st'"
proof -
  have H: "handlers_advance (handlers E)" and fr: "\<And>st. keeps_input st (FreeHandshakeResources E st)"
    using E by (auto simp: env_advances_def)
  note al = alert_keeps[OF H]
  have hs: "keeps_buf st st'" if "handshake_msg E st = Some (r, st')"
    using that HandshakeRecv_buf[OF H] unfolding handshake_msg_def Let_def by (fastforce simp: bind_eq_Some_conv keeps_buf_def split: if_splits)
  have ccs: "keeps_buf st (snd (change_cipher_msg E st))"
    using al by (simp add: change_cipher_msg_def keeps_input_def keeps_buf_def Let_def)
  have data: "keeps_buf s (snd (DoApplicationData E s))" for s
    using al by (simp add: DoApplicationData_def keeps_input_def keeps_buf_def set_sendAcks_def Let_def)
  have app: "keeps_buf st (snd (application_msg E st))"
    using data[of st] data[of "(FreeHandshakeResources E st)\<lparr>dtlsHsRetain := False\<rparr>"] fr[of st]
    by (simp add: application_msg_def split_beta keeps_input_def keeps_buf_def Let_def)
  have alr: "keeps_buf st (snd (alert_msg st))"
    by (auto simp: alert_msg_def DoAlert_def keeps_buf_def Let_def split: if_splits)
  have ack: "keeps_buf st (snd (ack_msg E st))"
    by (auto simp: ack_msg_def keeps_buf_def Let_def split: sum.splits prod.splits)
  show ?thesis
    using step hs ccs app alr ack unfolding process_msg_def Let_def by (auto simp: keeps_buf_def split: if_splits)
qed

definition all_fit :: "(outcome \<times> RxState) option \<Rightarrow> bool" where
  "all_fit r \<longleftrightarrow> (\<forall>a st'. r = Some (a, st') \<longrightarrow> fits st')"

lemma all_fit_Some [simp]: "all_fit (Some (a, st)) = fits st"
  by (simp add: all_fit_def)

lemma all_fit_None [simp]: "all_fit None"
  by (simp add: all_fit_def)

lemma shrink_fits: "shrink_if_dynamic ret st = Some st' \<Longrightarrow> fits st \<Longrightarrow> fits st'"
  by (auto simp: shrink_if_dynamic_def ShrinkInputBuffer_def fits_def split: if_splits)

lemma fits_update [simp]:
  "fits (st\<lparr>conn := c\<rparr>) = fits st" "fits (st\<lparr>replyState := p\<rparr>) = fits st" "fits (st\<lparr>in_idx := i\<rparr>) = fits st"
  "fits (st\<lparr>curStartIdx := i\<rparr>) = fits st" "fits (st\<lparr>decryptedCur := b\<rparr>) = fits st" "fits (st\<lparr>curRL := h\<rparr>) = fits st"
  "fits (set_padSz n st) = fits st" "fits (DropAndRestartProcessReply st)"
  by (simp_all add: fits_def set_padSz_def DropAndRestartProcessReply_def)

lemma after_msg_fits: "fits st \<Longrightarrow> all_fit (after_msg ret st)"
  unfolding after_msg_def Let_def by (auto simp: all_fit_def bind_eq_Some_conv dest: shrink_fits split: if_splits)

lemma one_message_fits:
  assumes E: "env_advances E" and f: "fits st"
  shows "all_fit (one_message E st)"
proof (cases "process_msg E st")
  case (Some p)
  obtain r st1 where p: "p = (r, st1)" by (cases p)
  have "fits st1" using process_msg_buf[OF E Some[unfolded p]] f by (simp add: keeps_buf_def fits_def)
  then show ?thesis using f by (cases r) (simp_all add: one_message_def Some p after_msg_fits)
qed (use f in \<open>simp add: one_message_def\<close>)

lemma one_record_fits: "env_advances E \<Longrightarrow> fits st \<Longrightarrow> all_fit (one_record E st)"
  unfolding one_record_def Let_def by (simp add: split_beta one_message_fits)

lemma verify_message_fits: "env_advances E \<Longrightarrow> fits st \<Longrightarrow> all_fit (verify_message E st)"
  unfolding verify_message_def Let_def
  by (auto simp: one_record_fits split: sum.splits prod.splits)

lemma decrypt_message_fits:
  assumes E: "env_advances E" and "fits st"
  shows "all_fit (decrypt_message E st)"
proof -
  have dec: "\<And>k n a c p. gcm_dec E k n a c = Inr p \<Longrightarrow> length p \<le> length c" using E by (simp add: env_advances_def)
  have ok: "fits (st\<lparr>in_buf := buf, conn := ssl, replyState := p\<rparr>)"
    if "DoDecrypt (gcm_dec E) (in_buf st) (in_idx st) (curSize st) (dtls13CurRL st) (conn st) = (Inr buf, ssl)" for buf ssl p
    using DoDecrypt_length(1)[OF dec that] assms(2) by (simp add: fits_def)
  have fail: "fits (snd (HandleDTLSDecryptFailed (DropAndRestartProcessReply s)))" for s by (simp add: HandleDTLSDecryptFailed_def split_beta)
  obtain r ssl where r: "DoDecrypt (gcm_dec E) (in_buf st) (in_idx st) (curSize st) (dtls13CurRL st) (conn st) = (r, ssl)"
    by (cases "DoDecrypt (gcm_dec E) (in_buf st) (in_idx st) (curSize st) (dtls13CurRL st) (conn st)")
  show ?thesis
    using assms ok fail r by (cases r) (simp_all add: decrypt_message_def verify_message_fits split_beta)
qed

lemma alert_fits: "env_advances E \<Longrightarrow> fits st \<Longrightarrow> fits (alert_to_peer E d st)"
  using alert_keeps[of "handlers E" st d] by (simp add: env_advances_def keeps_input_def fits_def)

lemma get_data_fits: "env_advances E \<Longrightarrow> fits st \<Longrightarrow> all_fit (get_data E st)"
  unfolding get_data_def by (simp add: decrypt_message_fits alert_fits)

lemma GetRecordHeader_fits:
  assumes "fits st"
  shows "fits (snd (GetRecordHeader E st))"
proof -
  let ?input = "drop (in_idx st) (in_buf st)"
  obtain r ssl where r: "GetDtlsRecordHeader (gcm_set_key E) (aes_set_key E) (aes_ecb E) ?input (conn st) = (r, ssl)"
    by (cases "GetDtlsRecordHeader (gcm_set_key E) (aes_set_key E) (aes_ecb E) ?input (conn st)")
  show ?thesis
  proof (cases r)
    case (Inr x)
    obtain rh sz n input' where x: "x = (rh, sz, n, input')" by (metis prod_cases4)
    have "length (take (in_idx st) (in_buf st) @ input') \<le> length (in_buf st)"
      using GetDtlsRecordHeader_input(1,3)[OF r[unfolded Inr x]] by simp
    then have "length (take (in_idx st) (in_buf st) @ input') \<le> in_bufferSize st" using assms by (simp add: fits_def)
    then show ?thesis unfolding GetRecordHeader_def Let_def r Inr x by (simp add: fits_def)
  qed (use assms r in \<open>simp add: GetRecordHeader_def Let_def\<close>)
qed

lemma record_header_fits:
  assumes "env_advances E" "fits st"
  shows "all_fit (record_header E st)"
proof -
  obtain ret st1 where r: "GetRecordHeader E st = (ret, st1)" by (cases "GetRecordHeader E st")
  have "fits st1" using GetRecordHeader_fits[OF assms(2), of E] r by simp
  then show ?thesis using assms(1) r by (simp add: record_header_def get_data_fits alert_fits Let_def)
qed

lemma process_init_fits: "env_advances E \<Longrightarrow> fits st \<Longrightarrow> all_fit (process_init E st)"
  unfolding process_init_def Let_def
  by (cases "GetInputData (if tls1_3 (options (conn st)) then DTLS_UNIFIED_HEADER_MIN_SZ else DTLS_RECORD_HEADER_SZ) st")
    (auto simp: record_header_fits dest: GetInputData_fits)

lemma reply_step_fits: "env_advances E \<Longrightarrow> fits st \<Longrightarrow> all_fit (reply_step E st)"
  by (cases "replyState st")
    (simp_all add: reply_step_def process_init_fits record_header_fits get_data_fits decrypt_message_fits verify_message_fits
       one_record_fits one_message_fits)

lemma reply_loop_fits: "env_advances E \<Longrightarrow> fits st \<Longrightarrow> all_fit (reply_loop k E st)"
proof (induction k arbitrary: st)
  case (Suc k)
  then show ?case using reply_step_fits[OF Suc.prems] by (auto simp: all_fit_def split: option.splits outcome.splits prod.splits)
qed simp

section \<open>Properties\<close>



end
