(* ===== verification/BoundedQueue.thy ===== *)
theory BoundedQueue
  imports Prelude
begin

text \<open>
  The contract of the bounded first-in first-out queues of the firmware, as a locale, and the
  index arithmetic of circular buffers that waste one slot (\<open>head = tail\<close> means empty,
  \<open>head + 1 = tail\<close> modulo the size means full).  The datagram ring of \<open>boot/dtls_io.c\<close> and
  the character rings of \<open>libbase/uart.c\<close> implement the contract.
\<close>

section \<open>Circular indices\<close>

definition ring_idx :: "nat \<Rightarrow> nat \<Rightarrow> nat \<Rightarrow> nat list" where
  "ring_idx n t h = map (\<lambda>k. (t + k) mod n) [0..<(h + n - t) mod n]"

lemma ring_idx_empty [simp]: "t < n \<Longrightarrow> ring_idx n t t = []"
  by (simp add: ring_idx_def)

lemma length_ring_idx [simp]: "length (ring_idx n t h) = (h + n - t) mod n"
  by (simp add: ring_idx_def)

lemma ring_dist:
  assumes "t < n" "h < (n::nat)"
  shows "(h + n - t) mod n = (if t \<le> h then h - t else h + n - t)"
  using assms by (auto simp: mod_if)

lemma ring_idx_bound: "0 < n \<Longrightarrow> i \<in> set (ring_idx n t h) \<Longrightarrow> i < n"
  by (auto simp: ring_idx_def)

lemma mod_add_wrap:
  "t < n \<Longrightarrow> k < n \<Longrightarrow> (t + k) mod n = (if t + k < n then t + k else t + k - n)" for n :: nat
  by (simp add: mod_if)

lemma ring_idx_head_notin:
  assumes "t < n" "h < n"
  shows "h \<notin> set (ring_idx n t h)"
proof
  assume "h \<in> set (ring_idx n t h)"
  then obtain k where k: "k < (h + n - t) mod n" "h = (t + k) mod n"
    by (auto simp: ring_idx_def)
  have "(h + n - t) mod n < n" using assms by simp
  with k have "k < n" by simp
  then show False
    using k assms by (auto simp: ring_dist mod_add_wrap split: if_splits)
qed

lemma ring_idx_snoc:
  assumes "t < n" "h < n" "(h + 1) mod n \<noteq> t"
  shows "ring_idx n t ((h + 1) mod n) = ring_idx n t h @ [h]"
proof -
  have n: "(h + 1) mod n < n" using assms by simp
  have d: "((h + 1) mod n + n - t) mod n = Suc ((h + n - t) mod n)"
    using assms n by (auto simp: ring_dist mod_if split: if_splits)
  have "(t + (h + n - t) mod n) mod n = h"
    using assms by (auto simp: ring_dist)
  then show ?thesis
    unfolding ring_idx_def d by simp
qed

lemma ring_idx_cons:
  assumes "t < n" "h < n" "t \<noteq> h"
  shows "ring_idx n t h = t # ring_idx n ((t + 1) mod n) h"
proof -
  have n: "(t + 1) mod n < n" using assms by simp
  have d: "(h + n - t) mod n = Suc ((h + n - (t + 1) mod n) mod n)"
    using assms n by (auto simp: ring_dist mod_if split: if_splits)
  have "map (\<lambda>k. (t + k) mod n) [0..<Suc m] = t # map (\<lambda>k. ((t + 1) mod n + k) mod n) [0..<m]" for m
    using assms by (auto simp: upt_conv_Cons map_Suc_upt[symmetric] mod_simps simp del: upt_Suc)
  then show ?thesis
    by (simp add: ring_idx_def d)
qed

lemma ring_full_iff:
  assumes "t < n" "h < n"
  shows "(h + 1) mod n = t \<longleftrightarrow> length (ring_idx n t h) = n - 1"
  using assms by (auto simp: ring_dist mod_if split: if_splits)

lemma ring_empty_iff:
  assumes "t < n" "h < n"
  shows "h = t \<longleftrightarrow> ring_idx n t h = []"
proof -
  have "ring_idx n t h = [] \<longleftrightarrow> length (ring_idx n t h) = 0"
    by (simp only: length_0_conv)
  then show ?thesis using assms by (auto simp: ring_dist)
qed

section \<open>The queue contract\<close>

datatype 'b queue_op = Put 'b | Get

text \<open>
  \<open>item\<close> is what a stored element looks like when it is read back: the datagram ring cuts a
  datagram to the slot size, the character rings store a character as it is.
\<close>

locale bounded_queue =
  fixes inv :: "'q \<Rightarrow> bool"
    and contents :: "'q \<Rightarrow> 'a list"
    and cap :: nat
    and item :: "'b \<Rightarrow> 'a"
    and put :: "'b \<Rightarrow> 'q \<Rightarrow> 'q"
    and get :: "'q \<Rightarrow> ('a \<times> 'q) option"
  assumes put_inv: "inv q \<Longrightarrow> inv (put x q)"
    and get_inv: "inv q \<Longrightarrow> get q = Some (y, q') \<Longrightarrow> inv q'"
    and contents_cap: "inv q \<Longrightarrow> length (contents q) \<le> cap"
    and put_room: "inv q \<Longrightarrow> length (contents q) < cap \<Longrightarrow> contents (put x q) = contents q @ [item x]"
    and put_full: "inv q \<Longrightarrow> length (contents q) = cap \<Longrightarrow> put x q = q"
    and get_empty: "inv q \<Longrightarrow> contents q = [] \<Longrightarrow> get q = None"
    and get_next: "inv q \<Longrightarrow> contents q = y # ys \<Longrightarrow> \<exists>q'. get q = Some (y, q') \<and> contents q' = ys"
begin

text \<open>Running a script of operations: what the consumer got, what the producer stored.\<close>

fun run :: "'b queue_op list \<Rightarrow> 'q \<Rightarrow> 'a list \<times> 'b list \<times> 'q" where
  "run [] q = ([], [], q)"
| "run (Put x # ops) q =
     (let stored = length (contents q) < cap; (outs, ins, q') = run ops (put x q)
      in (outs, if stored then x # ins else ins, q'))"
| "run (Get # ops) q =
     (case get q of
        None \<Rightarrow> run ops q
      | Some (y, q') \<Rightarrow> (let (outs, ins, q'') = run ops q' in (y # outs, ins, q'')))"

lemma put_cases:
  assumes "inv q"
  shows "contents (put x q) = contents q @ (if length (contents q) < cap then [item x] else [])"
  using assms put_room put_full contents_cap[OF assms] by (auto simp: order_le_less)

lemma get_cases:
  assumes "inv q"
  shows "(case get q of None \<Rightarrow> contents q = []
          | Some (y, q') \<Rightarrow> contents q = y # contents q' \<and> inv q')"
proof (cases "contents q")
  case Nil
  then show ?thesis using get_empty assms by simp
next
  case (Cons y ys)
  then obtain q' where "get q = Some (y, q')" "contents q' = ys"
    using get_next assms by blast
  then show ?thesis using Cons get_inv[OF assms] by simp
qed

theorem run_fifo:
  assumes "inv q" and "run ops q = (outs, ins, q')"
  shows "inv q' \<and> outs @ contents q' = contents q @ map item ins"
  using assms
proof (induction ops q arbitrary: outs ins q' rule: run.induct)
  case (1 q)
  then show ?case by simp
next
  case (2 x ops q)
  obtain o1 i1 q1 where r: "run ops (put x q) = (o1, i1, q1)"
    by (cases "run ops (put x q)") auto
  have "inv q1 \<and> o1 @ contents q1 = contents (put x q) @ map item i1"
    using "2.IH"[OF refl put_inv[OF "2.prems"(1)] r] .
  then show ?case
    using "2.prems" r put_cases[OF "2.prems"(1), of x] by (auto simp: Let_def split: if_splits)
next
  case (3 ops q)
  show ?case
  proof (cases "get q")
    case None
    then show ?thesis using 3 by simp
  next
    case (Some p)
    obtain y q1 where p: "p = (y, q1)" by (cases p)
    with Some have c: "contents q = y # contents q1" "inv q1"
      using get_cases[OF "3.prems"(1)] by auto
    obtain o1 i1 q2 where r: "run ops q1 = (o1, i1, q2)"
      by (cases "run ops q1") auto
    have "inv q2 \<and> o1 @ contents q2 = contents q1 @ map item i1"
      using "3.IH"(2)[OF Some p[symmetric] c(2) r] .
    then show ?thesis using "3.prems" Some p c r by auto
  qed
qed

text \<open>What was stored is a subsequence of what the producer offered: only whole items are lost.\<close>

fun offered :: "'b queue_op list \<Rightarrow> 'b list" where
  "offered [] = []"
| "offered (Put x # ops) = x # offered ops"
| "offered (Get # ops) = offered ops"

lemma run_subseq: "run ops q = (outs, ins, q') \<Longrightarrow> subseq ins (offered ops)"
proof (induction ops q arbitrary: outs ins rule: run.induct)
  case (2 x ops q)
  obtain o1 i1 q1 where "run ops (put x q) = (o1, i1, q1)"
    by (cases "run ops (put x q)") auto
  with 2 show ?case by (auto simp: Let_def split: if_splits)
next
  case (3 ops q)
  then show ?case by (auto split: option.splits prod.splits)
qed auto

end

end
