(* ===== verification/UartRing.thy ===== *)
theory UartRing
  imports BoundedQueue
begin

text \<open>
  The console driver \<open>libbase/uart.c\<close> (interrupt build): two rings of 128 characters between the
  main program and the interrupt handler \<open>uart_isr\<close>.  The UART itself is a receive FIFO, a transmit
  FIFO with a full flag and the log of the characters written to its data register.  An operation that
  would spin until the interrupt handler makes progress returns \<^const>\<open>None\<close>.
\<close>

section \<open>State and operations\<close>

definition UART_RINGBUFFER_MASK :: u32 where "UART_RINGBUFFER_MASK = 128 - 1"
definition UART_EV_TX :: u32 where "UART_EV_TX = 1"
definition UART_EV_RX :: u32 where "UART_EV_RX = 2"

text \<open>A buffer with its two indices: \<open>rx_buf\<close>, \<open>rx_produce\<close>, \<open>rx_consume\<close>, and the same for \<open>tx\<close>.\<close>

record char_ring =
  cbuf :: "u8 list"
  produce :: u32
  consume :: u32

record uart =
  rx :: char_ring
  tx :: char_ring
  ev_enable :: u32
  ev_pending :: u32
  rx_fifo :: "u8 list"
  tx_free :: nat
  tx_wire :: "u8 list"
  irq_ie :: bool

definition next_index :: "u32 \<Rightarrow> u32" where
  "next_index i = (i + 1) AND UART_RINGBUFFER_MASK"

definition ring_push :: "u8 \<Rightarrow> char_ring \<Rightarrow> char_ring" where
  "ring_push c r =
     (if next_index (produce r) \<noteq> consume r
      then r\<lparr>cbuf := (cbuf r)[unat (produce r) := c], produce := next_index (produce r)\<rparr> else r)"

definition ring_pop :: "char_ring \<Rightarrow> (u8 \<times> char_ring) option" where
  "ring_pop r =
     (if consume r = produce r then None
      else Some (cbuf r ! unat (consume r), r\<lparr>consume := next_index (consume r)\<rparr>))"

text \<open>The receive loop of the handler: it empties the hardware FIFO, dropping what does not fit.\<close>

definition isr_rx :: "uart \<Rightarrow> uart" where
  "isr_rx u = u\<lparr>rx := fold ring_push (rx_fifo u) (rx u), rx_fifo := [],
     ev_pending := (if rx_fifo u = [] then ev_pending u else ev_pending u AND NOT UART_EV_RX)\<rparr>"

text \<open>The transmit loop: until the ring is empty or the FIFO has no free place.\<close>

fun isr_tx_loop :: "nat \<Rightarrow> char_ring \<Rightarrow> u8 list \<Rightarrow> nat \<times> char_ring \<times> u8 list" where
  "isr_tx_loop 0 r w = (0, r, w)"
| "isr_tx_loop (Suc free) r w =
     (case ring_pop r of None \<Rightarrow> (Suc free, r, w) | Some (c, r') \<Rightarrow> isr_tx_loop free r' (w @ [c]))"

definition isr_tx :: "uart \<Rightarrow> uart" where
  "isr_tx u =
     (let (free, r, w) = isr_tx_loop (tx_free u) (tx u) (tx_wire u);
          u = u\<lparr>tx := r, tx_free := free, tx_wire := w\<rparr>
      in if consume (tx u) = produce (tx u) then u\<lparr>ev_enable := UART_EV_RX\<rparr> else u)"

definition uart_isr :: "uart \<Rightarrow> uart" where
  "uart_isr u =
     (let stat = ev_pending u AND ev_enable u;
          u = (if stat AND UART_EV_RX \<noteq> 0 then isr_rx u else u)
      in if stat AND UART_EV_TX \<noteq> 0 then isr_tx u else u)"

definition uart_read :: "uart \<Rightarrow> (u8 \<times> uart) option" where
  "uart_read u =
     (case ring_pop (rx u) of
        None \<Rightarrow> if irq_ie u then None else Some (0, u)
      | Some (c, r) \<Rightarrow> Some (c, u\<lparr>rx := r\<rparr>))"

definition uart_read_nonblock :: "uart \<Rightarrow> bool" where
  "uart_read_nonblock u \<longleftrightarrow> consume (rx u) \<noteq> produce (rx u)"

definition uart_write :: "u8 \<Rightarrow> uart \<Rightarrow> uart option" where
  "uart_write c u =
     (if next_index (produce (tx u)) = consume (tx u) then (if irq_ie u then None else Some u)
      else if consume (tx u) \<noteq> produce (tx u) \<or> tx_free u = 0
      then Some (u\<lparr>tx := (tx u)\<lparr>cbuf := (cbuf (tx u))[unat (produce (tx u)) := c],
                              produce := next_index (produce (tx u))\<rparr>,
                   ev_enable := UART_EV_TX OR UART_EV_RX\<rparr>)
      else Some (u\<lparr>tx_wire := tx_wire u @ [c], tx_free := tx_free u - 1\<rparr>))"

definition uart_init :: "uart \<Rightarrow> uart" where
  "uart_init u = u\<lparr>rx := (rx u)\<lparr>produce := 0, consume := 0\<rparr>, tx := (tx u)\<lparr>produce := 0, consume := 0\<rparr>,
     ev_enable := UART_EV_RX\<rparr>"

definition uart_sync :: "uart \<Rightarrow> uart option" where
  "uart_sync u = (if consume (tx u) \<noteq> produce (tx u) then None else Some u)"

section \<open>The rings as bounded queues\<close>

definition cr_wf :: "char_ring \<Rightarrow> bool" where
  "cr_wf r \<longleftrightarrow> length (cbuf r) = 128 \<and> unat (produce r) < 128 \<and> unat (consume r) < 128"

definition cr_contents :: "char_ring \<Rightarrow> u8 list" where
  "cr_contents r = map (\<lambda>i. cbuf r ! i) (ring_idx 128 (unat (consume r)) (unat (produce r)))"

lemma unat_next_index: "unat i < 128 \<Longrightarrow> unat (next_index i) = (unat i + 1) mod 128"
proof -
  assume i: "unat i < 128"
  have "next_index i = take_bit 7 (i + 1)"
    by (simp add: next_index_def UART_RINGBUFFER_MASK_def take_bit_eq_mask mask_eq_exp_minus_1)
  moreover have "unat (i + 1) = unat i + 1"
    using i by (simp add: unat_word_ariths)
  ultimately show ?thesis by (simp add: take_bit_eq_mod unat_mod)
qed

lemma next_index_eq_iff:
  "unat i < 128 \<Longrightarrow> next_index i = j \<longleftrightarrow> (unat i + 1) mod 128 = unat j"
  using unat_next_index[of i] by (auto simp: word_unat_eq_iff)

lemma cr_push_full:
  assumes "cr_wf r" "length (cr_contents r) = 127"
  shows "ring_push c r = r"
  using assms ring_full_iff[of "unat (consume r)" 128 "unat (produce r)"]
  by (simp add: ring_push_def cr_wf_def cr_contents_def next_index_eq_iff)

lemma cr_push_room:
  assumes wf: "cr_wf r" and room: "length (cr_contents r) < 127"
  shows "ring_push c r = r\<lparr>cbuf := (cbuf r)[unat (produce r) := c], produce := next_index (produce r)\<rparr>"
    and "cr_wf (ring_push c r)" and "cr_contents (ring_push c r) = cr_contents r @ [c]"
proof -
  let ?t = "unat (consume r)" and ?h = "unat (produce r)"
  have b: "length (cbuf r) = 128" "?h < 128" "?t < 128" using wf by (auto simp: cr_wf_def)
  have ne: "(?h + 1) mod 128 \<noteq> ?t"
    using room b ring_full_iff[of ?t 128 ?h] by (auto simp: cr_contents_def)
  then show e: "ring_push c r = r\<lparr>cbuf := (cbuf r)[unat (produce r) := c], produce := next_index (produce r)\<rparr>"
    using b by (simp add: ring_push_def next_index_eq_iff)
  show "cr_wf (ring_push c r)" using b by (simp add: e cr_wf_def unat_next_index)
  have "cr_contents (ring_push c r) = map (\<lambda>i. (cbuf r)[?h := c] ! i) (ring_idx 128 ?t ?h @ [?h])"
    using ring_idx_snoc[of ?t 128 ?h] b ne by (simp add: e cr_contents_def unat_next_index)
  also have "\<dots> = cr_contents r @ [c]"
    using b ring_idx_head_notin[of ?t 128 ?h] by (auto simp: cr_contents_def nth_list_update)
  finally show "cr_contents (ring_push c r) = cr_contents r @ [c]" .
qed

lemma cr_empty: "cr_wf r \<Longrightarrow> consume r = produce r \<longleftrightarrow> cr_contents r = []"
  using ring_empty_iff[of "unat (consume r)" 128 "unat (produce r)"]
  by (auto simp: cr_wf_def cr_contents_def word_unat_eq_iff)

lemma cr_pop_next:
  assumes "cr_wf r" "cr_contents r = c # cs"
  shows "\<exists>r'. ring_pop r = Some (c, r') \<and> cr_wf r' \<and> cr_contents r' = cs"
proof -
  let ?t = "unat (consume r)" and ?h = "unat (produce r)"
  have b: "?h < 128" "?t < 128" using assms by (auto simp: cr_wf_def)
  have ne: "consume r \<noteq> produce r" using assms cr_empty by auto
  then have "ring_idx 128 ?t ?h = ?t # ring_idx 128 ((?t + 1) mod 128) ?h"
    using b by (intro ring_idx_cons) (auto simp: word_unat_eq_iff)
  then show ?thesis
    using assms ne b by (auto simp: ring_pop_def cr_contents_def cr_wf_def unat_next_index)
qed

lemma cr_pop_empty: "cr_wf r \<Longrightarrow> cr_contents r = [] \<Longrightarrow> ring_pop r = None"
  by (simp add: ring_pop_def cr_empty)

lemma cr_contents_le: "cr_wf r \<Longrightarrow> length (cr_contents r) \<le> 127"
  by (auto simp: cr_contents_def cr_wf_def ring_dist)

interpretation chars: bounded_queue cr_wf cr_contents 127 "\<lambda>c. c" ring_push ring_pop
proof unfold_locales
  fix r :: char_ring and x y :: u8 and r' ys
  assume wf: "cr_wf r"
  show "length (cr_contents r) \<le> 127" by (rule cr_contents_le[OF wf])
  { assume "length (cr_contents r) < 127"
    then show "cr_contents (ring_push x r) = cr_contents r @ [x]" by (rule cr_push_room(3)[OF wf]) }
  { assume "length (cr_contents r) = 127"
    then show "ring_push x r = r" by (rule cr_push_full[OF wf]) }
  show "cr_wf (ring_push x r)"
    using cr_push_room(2)[OF wf, of x] cr_push_full[OF wf, of x] cr_contents_le[OF wf] wf
    by (cases "length (cr_contents r) = 127") auto
  { assume "ring_pop r = Some (y, r')"
    then show "cr_wf r'"
      using cr_pop_next[OF wf] cr_pop_empty[OF wf] by (cases "cr_contents r") fastforce+ }
  { assume "cr_contents r = []" then show "ring_pop r = None" by (rule cr_pop_empty[OF wf]) }
  { assume "cr_contents r = y # ys"
    then show "\<exists>q'. ring_pop r = Some (y, q') \<and> cr_contents q' = ys" using cr_pop_next[OF wf] by blast }
qed

section \<open>Output order\<close>

lemma isr_tx_loop_spec:
  assumes "cr_wf r" "isr_tx_loop free r w = (free', r', w')"
  shows "cr_wf r' \<and> w' @ cr_contents r' = w @ cr_contents r"
  using assms
proof (induction free r w rule: isr_tx_loop.induct)
  case (2 free r w)
  show ?case
  proof (cases "ring_pop r")
    case None
    then show ?thesis using 2 by simp
  next
    case (Some p)
    obtain c q where p: "p = (c, q)" by (cases p)
    then have "cr_contents r = c # cr_contents q" "cr_wf q"
      using chars.get_cases[OF "2.prems"(1)] Some by auto
    then show ?thesis using "2.IH"[OF Some p[symmetric]] "2.prems"(2) Some p by simp
  qed
qed simp

definition uart_wf :: "uart \<Rightarrow> bool" where
  "uart_wf u \<longleftrightarrow> cr_wf (rx u) \<and> cr_wf (tx u)"

definition tx_stream :: "uart \<Rightarrow> u8 list" where
  "tx_stream u = tx_wire u @ cr_contents (tx u)"

lemma isr_tx_spec:
  assumes "uart_wf u"
  shows "uart_wf (isr_tx u) \<and> tx_stream (isr_tx u) = tx_stream u"
proof -
  obtain f r w where e: "isr_tx_loop (tx_free u) (tx u) (tx_wire u) = (f, r, w)"
    by (cases "isr_tx_loop (tx_free u) (tx u) (tx_wire u)") auto
  have "cr_wf (tx u)" using assms by (simp add: uart_wf_def)
  from isr_tx_loop_spec[OF this e] show ?thesis
    using assms by (auto simp: isr_tx_def e Let_def uart_wf_def tx_stream_def)
qed

lemma fold_push_wf: "cr_wf r \<Longrightarrow> cr_wf (fold ring_push cs r)"
  by (induction cs arbitrary: r) (auto intro: chars.put_inv)

lemma uart_isr_spec:
  assumes "uart_wf u"
  shows "uart_wf (uart_isr u) \<and> tx_stream (uart_isr u) = tx_stream u"
proof -
  have rx: "uart_wf (isr_rx u) \<and> tx_stream (isr_rx u) = tx_stream u"
    using assms by (simp add: isr_rx_def uart_wf_def tx_stream_def fold_push_wf)
  show ?thesis
    using assms rx isr_tx_spec[of u] isr_tx_spec[of "isr_rx u"] by (simp add: uart_isr_def Let_def)
qed

lemma uart_write_spec:
  assumes wf: "uart_wf u"
  shows "case uart_write c u of
           None \<Rightarrow> irq_ie u \<and> length (cr_contents (tx u)) = 127
         | Some u' \<Rightarrow> uart_wf u' \<and> tx_stream u' = tx_stream u @ (if length (cr_contents (tx u)) = 127 then [] else [c])"
proof -
  have cw: "cr_wf (tx u)" using wf by (simp add: uart_wf_def)
  have full: "next_index (produce (tx u)) = consume (tx u) \<longleftrightarrow> length (cr_contents (tx u)) = 127"
    using cw ring_full_iff[of "unat (consume (tx u))" 128 "unat (produce (tx u))"]
    by (simp add: cr_wf_def cr_contents_def next_index_eq_iff)
  show ?thesis
  proof (cases "length (cr_contents (tx u)) = 127")
    case True
    then show ?thesis using wf full by (auto simp: uart_write_def)
  next
    case False
    then have room: "length (cr_contents (tx u)) < 127" using cr_contents_le[OF cw] by simp
    note push = cr_push_room[OF cw room, of c]
    show ?thesis
    proof (cases "consume (tx u) \<noteq> produce (tx u) \<or> tx_free u = 0")
      case True
      then show ?thesis
        using False full wf push by (auto simp: uart_write_def uart_wf_def tx_stream_def)
    next
      case nf: False
      then have "cr_contents (tx u) = []" using cr_empty[OF cw] by simp
      then show ?thesis
        using False nf full wf by (auto simp: uart_write_def uart_wf_def tx_stream_def)
    qed
  qed
qed

text \<open>
  A run of the console: the program writes characters, the handler runs, the FIFO drains.  A write that
  blocks is retried by the caller's spin loop, so it is not part of the script of accepted characters.
\<close>

datatype uart_event = Write u8 | Isr | Drain nat | Raise u32

fun uart_run :: "uart_event list \<Rightarrow> uart \<Rightarrow> u8 list \<times> uart" where
  "uart_run [] u = ([], u)"
| "uart_run (Write c # es) u =
     (case uart_write c u of
        None \<Rightarrow> uart_run es u
      | Some u' \<Rightarrow>
          (let (acc, v) = uart_run es u'
           in (if length (cr_contents (tx u)) = 127 then acc else c # acc, v)))"
| "uart_run (Isr # es) u = uart_run es (uart_isr u)"
| "uart_run (Drain n # es) u = uart_run es (u\<lparr>tx_free := tx_free u + n\<rparr>)"
| "uart_run (Raise e # es) u = uart_run es (u\<lparr>ev_pending := ev_pending u OR e\<rparr>)"

lemma uart_run_stream:
  "uart_wf u \<Longrightarrow> tx_stream (snd (uart_run es u)) = tx_stream u @ fst (uart_run es u)"
proof (induction es u rule: uart_run.induct)
  case (2 c es u)
  show ?case
  proof (cases "uart_write c u")
    case None
    then show ?thesis using 2 by simp
  next
    case (Some u')
    then have "uart_wf u'" "tx_stream u' = tx_stream u @ (if length (cr_contents (tx u)) = 127 then [] else [c])"
      using uart_write_spec[OF "2.prems", of c] by auto
    then show ?thesis using "2.IH"(2)[OF Some] Some by (auto simp: split_beta Let_def)
  qed
next
  case (3 es u)
  then show ?case using uart_isr_spec[of u] by simp
qed (auto simp: uart_wf_def tx_stream_def)

section \<open>Properties\<close>

text \<open>
  C34. Console output keeps its order: whatever the interleaving of writes, interrupts and FIFO drains,
  the characters on the wire followed by those in the transmit ring are the earlier ones followed by
  exactly the accepted characters in the order of the writes, although a write may bypass the ring.
\<close>

theorem uart_output_order:
  assumes "length (cbuf (rx u)) = 128" "length (cbuf (tx u)) = 128"
  shows "tx_stream (snd (uart_run es (uart_init u))) = tx_wire u @ fst (uart_run es (uart_init u))"
proof -
  have "uart_wf (uart_init u)" using assms by (simp add: uart_init_def uart_wf_def cr_wf_def)
  moreover have "tx_stream (uart_init u) = tx_wire u"
    by (simp add: uart_init_def tx_stream_def cr_contents_def)
  ultimately show ?thesis using uart_run_stream[of "uart_init u" es] by simp
qed

definition idle_uart :: uart where
  "idle_uart = \<lparr>rx = \<lparr>cbuf = replicate 128 0, produce = 5, consume = 5\<rparr>,
     tx = \<lparr>cbuf = replicate 128 0, produce = 7, consume = 9\<rparr>,
     ev_enable = 0, ev_pending = 0, rx_fifo = [], tx_free = 1, tx_wire = [10], irq_ie = True\<rparr>"

theorem uart_output_order_witness:
  "tx_stream (snd (uart_run [Write 65, Write 66, Isr, Drain 4, Raise UART_EV_TX, Isr] (uart_init idle_uart)))
     = [10] @ fst (uart_run [Write 65, Write 66, Isr, Drain 4, Raise UART_EV_TX, Isr] (uart_init idle_uart))"
  using uart_output_order[of idle_uart "[Write 65, Write 66, Isr, Drain 4, Raise UART_EV_TX, Isr]"]
  by (simp add: idle_uart_def)

end
