(* ===== verification/Crc32.thy ===== *)
theory Crc32
  imports Prelude
begin

text \<open>
  The frame check sequence of the Ethernet driver, \<open>libbase/crc32.c\<close>: the table driven routine of the
  default build with its eight-fold unrolled loop, and the bitwise routine of the \<open>SMALL_CRC\<close> build.
  Both read \<open>len\<close> bytes from the start of the buffer; the model gives \<^const>\<open>None\<close> when the buffer is
  shorter.  The theory shows that the two routines compute the same function.
\<close>

section \<open>The table driven routine\<close>

definition crc_table :: "u32 list" where
  "crc_table =
    [0x00000000, 0x77073096, 0xee0e612c, 0x990951ba, 0x076dc419, 0x706af48f, 0xe963a535, 0x9e6495a3,
     0x0edb8832, 0x79dcb8a4, 0xe0d5e91e, 0x97d2d988, 0x09b64c2b, 0x7eb17cbd, 0xe7b82d07, 0x90bf1d91,
     0x1db71064, 0x6ab020f2, 0xf3b97148, 0x84be41de, 0x1adad47d, 0x6ddde4eb, 0xf4d4b551, 0x83d385c7,
     0x136c9856, 0x646ba8c0, 0xfd62f97a, 0x8a65c9ec, 0x14015c4f, 0x63066cd9, 0xfa0f3d63, 0x8d080df5,
     0x3b6e20c8, 0x4c69105e, 0xd56041e4, 0xa2677172, 0x3c03e4d1, 0x4b04d447, 0xd20d85fd, 0xa50ab56b,
     0x35b5a8fa, 0x42b2986c, 0xdbbbc9d6, 0xacbcf940, 0x32d86ce3, 0x45df5c75, 0xdcd60dcf, 0xabd13d59,
     0x26d930ac, 0x51de003a, 0xc8d75180, 0xbfd06116, 0x21b4f4b5, 0x56b3c423, 0xcfba9599, 0xb8bda50f,
     0x2802b89e, 0x5f058808, 0xc60cd9b2, 0xb10be924, 0x2f6f7c87, 0x58684c11, 0xc1611dab, 0xb6662d3d,
     0x76dc4190, 0x01db7106, 0x98d220bc, 0xefd5102a, 0x71b18589, 0x06b6b51f, 0x9fbfe4a5, 0xe8b8d433,
     0x7807c9a2, 0x0f00f934, 0x9609a88e, 0xe10e9818, 0x7f6a0dbb, 0x086d3d2d, 0x91646c97, 0xe6635c01,
     0x6b6b51f4, 0x1c6c6162, 0x856530d8, 0xf262004e, 0x6c0695ed, 0x1b01a57b, 0x8208f4c1, 0xf50fc457,
     0x65b0d9c6, 0x12b7e950, 0x8bbeb8ea, 0xfcb9887c, 0x62dd1ddf, 0x15da2d49, 0x8cd37cf3, 0xfbd44c65,
     0x4db26158, 0x3ab551ce, 0xa3bc0074, 0xd4bb30e2, 0x4adfa541, 0x3dd895d7, 0xa4d1c46d, 0xd3d6f4fb,
     0x4369e96a, 0x346ed9fc, 0xad678846, 0xda60b8d0, 0x44042d73, 0x33031de5, 0xaa0a4c5f, 0xdd0d7cc9,
     0x5005713c, 0x270241aa, 0xbe0b1010, 0xc90c2086, 0x5768b525, 0x206f85b3, 0xb966d409, 0xce61e49f,
     0x5edef90e, 0x29d9c998, 0xb0d09822, 0xc7d7a8b4, 0x59b33d17, 0x2eb40d81, 0xb7bd5c3b, 0xc0ba6cad,
     0xedb88320, 0x9abfb3b6, 0x03b6e20c, 0x74b1d29a, 0xead54739, 0x9dd277af, 0x04db2615, 0x73dc1683,
     0xe3630b12, 0x94643b84, 0x0d6d6a3e, 0x7a6a5aa8, 0xe40ecf0b, 0x9309ff9d, 0x0a00ae27, 0x7d079eb1,
     0xf00f9344, 0x8708a3d2, 0x1e01f268, 0x6906c2fe, 0xf762575d, 0x806567cb, 0x196c3671, 0x6e6b06e7,
     0xfed41b76, 0x89d32be0, 0x10da7a5a, 0x67dd4acc, 0xf9b9df6f, 0x8ebeeff9, 0x17b7be43, 0x60b08ed5,
     0xd6d6a3e8, 0xa1d1937e, 0x38d8c2c4, 0x4fdff252, 0xd1bb67f1, 0xa6bc5767, 0x3fb506dd, 0x48b2364b,
     0xd80d2bda, 0xaf0a1b4c, 0x36034af6, 0x41047a60, 0xdf60efc3, 0xa867df55, 0x316e8eef, 0x4669be79,
     0xcb61b38c, 0xbc66831a, 0x256fd2a0, 0x5268e236, 0xcc0c7795, 0xbb0b4703, 0x220216b9, 0x5505262f,
     0xc5ba3bbe, 0xb2bd0b28, 0x2bb45a92, 0x5cb36a04, 0xc2d7ffa7, 0xb5d0cf31, 0x2cd99e8b, 0x5bdeae1d,
     0x9b64c2b0, 0xec63f226, 0x756aa39c, 0x026d930a, 0x9c0906a9, 0xeb0e363f, 0x72076785, 0x05005713,
     0x95bf4a82, 0xe2b87a14, 0x7bb12bae, 0x0cb61b38, 0x92d28e9b, 0xe5d5be0d, 0x7cdcefb7, 0x0bdbdf21,
     0x86d3d2d4, 0xf1d4e242, 0x68ddb3f8, 0x1fda836e, 0x81be16cd, 0xf6b9265b, 0x6fb077e1, 0x18b74777,
     0x88085ae6, 0xff0f6a70, 0x66063bca, 0x11010b5c, 0x8f659eff, 0xf862ae69, 0x616bffd3, 0x166ccf45,
     0xa00ae278, 0xd70dd2ee, 0x4e048354, 0x3903b3c2, 0xa7672661, 0xd06016f7, 0x4969474d, 0x3e6e77db,
     0xaed16a4a, 0xd9d65adc, 0x40df0b66, 0x37d83bf0, 0xa9bcae53, 0xdebb9ec5, 0x47b2cf7f, 0x30b5ffe9,
     0xbdbdf21c, 0xcabac28a, 0x53b39330, 0x24b4a3a6, 0xbad03605, 0xcdd70693, 0x54de5729, 0x23d967bf,
     0xb3667a2e, 0xc4614ab8, 0x5d681b02, 0x2a6f2b94, 0xb40bbe37, 0xc30c8ea1, 0x5a05df1b, 0x2d02ef8d]"

definition DO1 :: "u32 \<Rightarrow> u8 \<Rightarrow> u32" where
  "DO1 crc b = crc_table ! unat ((crc XOR ucast b) AND 0xff) XOR drop_bit 8 crc"

definition DO8 :: "u32 \<Rightarrow> bytes \<Rightarrow> u32" where
  "DO8 crc bs = DO1 (DO1 (DO1 (DO1 (DO1 (DO1 (DO1 (DO1 crc (bs ! 0)) (bs ! 1)) (bs ! 2)) (bs ! 3))
     (bs ! 4)) (bs ! 5)) (bs ! 6)) (bs ! 7)"

fun crc32_rest :: "u32 \<Rightarrow> bytes \<Rightarrow> u32" where
  "crc32_rest crc [] = crc"
| "crc32_rest crc (b # bs) = crc32_rest (DO1 crc b) bs"

function crc32_loop :: "u32 \<Rightarrow> bytes \<Rightarrow> u32" where
  "crc32_loop crc bs =
     (if 8 \<le> length bs then crc32_loop (DO8 crc bs) (drop 8 bs) else crc32_rest crc bs)"
  by auto
termination by (relation "measure (\<lambda>(crc, bs). length bs)") auto

declare crc32_loop.simps [simp del]

definition crc32 :: "bytes \<Rightarrow> u32 \<Rightarrow> u32 option" where
  "crc32 buffer len =
     do { bs \<leftarrow> peek 0 (unat len) buffer;
          Some (crc32_loop (0 XOR 0xffffffff) bs XOR 0xffffffff) }"

section \<open>The bitwise routine\<close>

definition crc_bit :: "u32 \<Rightarrow> u32" where
  "crc_bit crc = drop_bit 1 crc XOR (0xEDB88320 AND - (crc AND 1))"

definition crc_byte :: "u32 \<Rightarrow> u8 \<Rightarrow> u32" where
  "crc_byte crc b = (crc_bit ^^ 8) (crc XOR ucast b)"

definition crc32_small :: "bytes \<Rightarrow> u32 \<Rightarrow> u32 option" where
  "crc32_small message len =
     do { bs \<leftarrow> peek 0 (unat len) message; Some (NOT (foldl crc_byte 0xFFFFFFFF bs)) }"

section \<open>Linearity\<close>

lemma and_one_xor: "(x XOR y) AND 1 = (x AND 1) XOR (y AND (1 :: u32))"
  by (rule bit_word_eqI) (auto simp: bit_simps)

lemma neg_and_one: "- (x AND 1) = (if bit x 0 then -1 else (0 :: u32))"
  by (simp add: and_one_eq bit_0 mod_2_eq_odd)

lemma crc_bit_xor: "crc_bit (x XOR y) = crc_bit x XOR crc_bit y"
  unfolding crc_bit_def neg_and_one
  by (rule bit_word_eqI) (auto simp: bit_simps)

lemma crc_bits_xor: "(crc_bit ^^ n) (x XOR y) = (crc_bit ^^ n) x XOR (crc_bit ^^ n) y"
  by (induction n) (simp_all add: crc_bit_xor)

lemma crc_bit_even: "\<not> bit x 0 \<Longrightarrow> crc_bit x = drop_bit 1 x"
  by (simp add: crc_bit_def neg_and_one)

text \<open>Bits above the low byte are only shifted down.\<close>

lemma crc_bits_high:
  "take_bit n x = 0 \<Longrightarrow> (crc_bit ^^ n) x = drop_bit n x"
proof (induction n arbitrary: x)
  case (Suc n)
  have b: "bit x i \<Longrightarrow> n < i" for i
  proof (rule ccontr)
    assume "bit x i" "\<not> n < i"
    then have "bit (take_bit (Suc n) x) i" by (simp add: bit_simps)
    then show False using Suc.prems by simp
  qed
  have e: "crc_bit x = drop_bit 1 x" using b[of 0] by (intro crc_bit_even) auto
  have "take_bit n (drop_bit 1 x) = 0"
  proof (rule bit_word_eqI)
    fix i
    show "bit (take_bit n (drop_bit 1 x)) i \<longleftrightarrow> bit (0 :: u32) i"
      using b[of "Suc i"] by (auto simp: bit_simps)
  qed
  then have "(crc_bit ^^ n) (crc_bit x) = drop_bit n (drop_bit 1 x)"
    using Suc.IH e by simp
  then show ?case by (simp add: funpow_swap1)
qed simp

lemma byte_split: "x = (x AND 0xff) XOR push_bit 8 (drop_bit 8 x)" for x :: u32
proof -
  have "x AND 0xff = take_bit 8 x" by (simp add: take_bit_eq_mask mask_eq_exp_minus_1)
  then show ?thesis by (auto intro!: bit_word_eqI simp: bit_simps)
qed

lemma crc_bits_8: "(crc_bit ^^ 8) x = (crc_bit ^^ 8) (x AND 0xff) XOR drop_bit 8 x"
proof -
  have "take_bit 8 (push_bit 8 (drop_bit 8 x)) = 0"
    by (rule bit_word_eqI) (auto simp: bit_simps)
  moreover have "drop_bit 8 (push_bit 8 (drop_bit 8 x)) = drop_bit 8 x"
    by (rule bit_word_eqI) (auto simp: bit_simps dest: bit_imp_le_length)
  ultimately have "(crc_bit ^^ 8) (push_bit 8 (drop_bit 8 x)) = drop_bit 8 x"
    using crc_bits_high[of 8 "push_bit 8 (drop_bit 8 x)"] by simp
  then show ?thesis
    using crc_bits_xor[of 8 "x AND 0xff" "push_bit 8 (drop_bit 8 x)"] byte_split[of x] by simp
qed

text \<open>
  Each of the 256 constants of the table is eight steps of the bitwise division.  By linearity the
  table for \<open>k + 1\<close> bits is the table for \<open>k\<close> bits followed by the same table shifted by the entry
  of \<open>2 ^ k\<close>.
\<close>

definition bit_table :: "nat \<Rightarrow> u32 list" where
  "bit_table k = map (\<lambda>i. (crc_bit ^^ 8) (of_nat i)) [0..<2 ^ k]"

lemma of_nat_add_pow:
  assumes "i < 2 ^ k" "k < 32"
  shows "(of_nat (2 ^ k + i) :: u32) = of_nat i XOR of_nat (2 ^ k)"
proof -
  have "bit (of_nat i :: u32) n \<Longrightarrow> n < k" for n
    using assms(1) by (metis bit_nat_iff bit_of_nat_iff bit_take_bit_iff take_bit_nat_eq_self)
  then have "(of_nat i :: u32) AND of_nat (2 ^ k) = 0"
    by (intro bit_word_eqI) (auto simp: bit_simps)
  then have "(of_nat i :: u32) + of_nat (2 ^ k) = of_nat i XOR of_nat (2 ^ k)"
    by (rule disjunctive_add_eq_xor)
  then show ?thesis by (simp add: add.commute)
qed

lemma bit_table_Suc:
  assumes "k < 32"
  shows "bit_table (Suc k) = bit_table k @ map (\<lambda>v. v XOR (crc_bit ^^ 8) (of_nat (2 ^ k))) (bit_table k)"
proof -
  have "[0..<2 ^ Suc k] = [0..<2 ^ k] @ map (\<lambda>i. 2 ^ k + i) [0..<2 ^ k :: nat]"
    using upt_add_eq_append[of 0 "2 ^ k" "2 ^ k"] by (simp add: map_add_upt mult_2 add.commute)
  then have "bit_table (Suc k) = bit_table k @ map (\<lambda>i. (crc_bit ^^ 8) (of_nat (2 ^ k + i))) [0..<2 ^ k]"
    by (simp add: bit_table_def comp_def)
  also have "map (\<lambda>i. (crc_bit ^^ 8) (of_nat (2 ^ k + i))) [0..<2 ^ k] =
      map (\<lambda>v. v XOR (crc_bit ^^ 8) (of_nat (2 ^ k))) (bit_table k)"
    using assms by (auto simp: bit_table_def crc_bits_xor of_nat_add_pow simp del: of_nat_add)
  finally show ?thesis .
qed

lemma crc_basis:
  "(crc_bit ^^ 8) 0 = 0" "(crc_bit ^^ 8) 1 = 0x77073096" "(crc_bit ^^ 8) 2 = 0xee0e612c"
  "(crc_bit ^^ 8) 4 = 0x076dc419" "(crc_bit ^^ 8) 8 = 0x0edb8832" "(crc_bit ^^ 8) 16 = 0x1db71064"
  "(crc_bit ^^ 8) 32 = 0x3b6e20c8" "(crc_bit ^^ 8) 64 = 0x76dc4190" "(crc_bit ^^ 8) 128 = 0xedb88320"
  by code_simp+

lemma bit_table_0: "bit_table 0 = [0]"
  using crc_basis(1) by (simp add: bit_table_def)

definition grow :: "u32 list \<Rightarrow> u32 \<Rightarrow> u32 list" where
  "grow t v = t @ map (\<lambda>x. x XOR v) t"

lemma bit_table_grow: "k < 32 \<Longrightarrow> bit_table (Suc k) = grow (bit_table k) ((crc_bit ^^ 8) (of_nat (2 ^ k)))"
  using bit_table_Suc by (simp add: grow_def)

lemma grow_crc_table:
  "foldl grow [0] [0x77073096, 0xee0e612c, 0x076dc419, 0x0edb8832, 0x1db71064, 0x3b6e20c8, 0x76dc4190, 0xedb88320]
     = crc_table"
  by code_simp

lemma crc_table_bits: "bit_table 8 = crc_table"
proof -
  have "bit_table (Suc (Suc (Suc (Suc (Suc (Suc (Suc (Suc 0)))))))) =
      foldl grow [0] [0x77073096, 0xee0e612c, 0x076dc419, 0x0edb8832, 0x1db71064, 0x3b6e20c8, 0x76dc4190, 0xedb88320]"
    by (simp add: bit_table_grow bit_table_0 crc_basis)
  then show ?thesis unfolding grow_crc_table by (simp add: eval_nat_numeral)
qed

lemma crc_table_nth: "i < 256 \<Longrightarrow> crc_table ! i = (crc_bit ^^ 8) (of_nat i)"
  unfolding crc_table_bits[symmetric] by (simp add: bit_table_def)

lemma DO1_crc_byte: "DO1 crc b = crc_byte crc b"
proof -
  define x :: u32 where "x = crc XOR ucast b"
  have m: "x AND 0xff = take_bit 8 x" by (simp add: take_bit_eq_mask mask_eq_exp_minus_1)
  have "unat (x AND 0xff) < 256"
    unfolding m using take_bit_nat_less_exp[of 8 "unat x"] by (simp add: unsigned_take_bit_eq)
  then have "crc_table ! unat (x AND 0xff) = (crc_bit ^^ 8) (x AND 0xff)"
    by (simp add: crc_table_nth)
  moreover have "drop_bit 8 x = drop_bit 8 crc"
    unfolding x_def by (rule bit_word_eqI) (auto simp: bit_simps dest: bit_imp_le_length)
  ultimately show ?thesis
    using crc_bits_8[of x] by (simp add: DO1_def crc_byte_def x_def)
qed

lemma crc32_rest_foldl: "crc32_rest crc bs = foldl crc_byte crc bs"
  by (induction crc bs rule: crc32_rest.induct) (simp_all add: DO1_crc_byte)

lemma take_8_nth:
  "8 \<le> length bs \<Longrightarrow> take 8 bs = [bs ! 0, bs ! 1, bs ! 2, bs ! 3, bs ! 4, bs ! 5, bs ! 6, bs ! 7]"
  by (simp add: list_eq_iff_nth_eq nth_Cons' less_Suc_eq numeral_eq_Suc)

lemma crc32_loop_foldl: "crc32_loop crc bs = foldl crc_byte crc bs"
proof (induction crc bs rule: crc32_loop.induct)
  case (1 crc bs)
  show ?case
  proof (cases "8 \<le> length bs")
    case True
    have "foldl crc_byte crc (take 8 bs @ drop 8 bs) = foldl crc_byte (DO8 crc bs) (drop 8 bs)"
      by (simp only: foldl_append take_8_nth[OF True]) (simp add: DO8_def DO1_crc_byte)
    then show ?thesis using 1 True by (simp add: crc32_loop.simps[of crc bs])
  next
    case False
    then show ?thesis by (simp add: crc32_loop.simps[of crc bs] crc32_rest_foldl)
  qed
qed

section \<open>Properties\<close>

text \<open>
  C33. The unrolled table driven CRC of the default build and the bitwise CRC of the \<open>SMALL_CRC\<close> build
  agree on every buffer and length; in particular all 256 table constants are right.
\<close>

theorem crc32_small_equiv: "crc32 buffer len = crc32_small buffer len"
  proof -
  have m: "(0xffffffff :: u32) = - 1" by code_simp
  show ?thesis unfolding crc32_def crc32_small_def crc32_loop_foldl m by simp
qed

end
