(* ===== verification/LiteethUdp.thy ===== *)
theory LiteethUdp
  imports WolfMisc Crc32
begin

text \<open>
  The UDP stack of the firmware (\<open>litex/soc/software/libliteeth/udp.c\<close>) with software preamble and frame
  check sequence: ARP, IP headers and checksums, UDP, ICMP echo and the polling loop.

  The Ethernet slots are byte lists; fields are read and written at their offsets in the packed structures
  (Ethernet header 0, IP header or ARP frame 22, UDP or ICMP header 42, payload 50).  A field written with
  \<open>htons\<close> or \<open>htonl\<close> is the big endian image \<open>c16toa\<close> or \<open>c32toa\<close>, and one read with \<open>ntohs\<close> or \<open>ntohl\<close>
  is \<open>ato16\<close> or \<open>ato32\<close>.  An access outside the slot is \<^const>\<open>None\<close>.

  The MAC delivers frames as a list with one entry for each poll.  Calls of the receive callback are
  collected; the data pointer they pass is the rest of the receive slot.  The wait for a free transmit slot
  always ends.
\<close>

definition ETHERTYPE_ARP :: u16 where [simp]: "ETHERTYPE_ARP = 0x0806"
definition ETHERTYPE_IP :: u16 where [simp]: "ETHERTYPE_IP = 0x0800"
definition ARP_HWTYPE_ETHERNET :: u16 where [simp]: "ARP_HWTYPE_ETHERNET = 1"
definition ARP_PROTO_IP :: u16 where [simp]: "ARP_PROTO_IP = 0x0800"
definition ARP_PACKET_LENGTH :: u32 where [simp]: "ARP_PACKET_LENGTH = 68"
definition ARP_OPCODE_REQUEST :: u16 where [simp]: "ARP_OPCODE_REQUEST = 1"
definition ARP_OPCODE_REPLY :: u16 where [simp]: "ARP_OPCODE_REPLY = 2"
definition IP_IPV4 :: u8 where [simp]: "IP_IPV4 = 0x45"
definition IP_DONT_FRAGMENT :: u16 where [simp]: "IP_DONT_FRAGMENT = 0x4000"
definition IP_TTL :: u8 where [simp]: "IP_TTL = 64"
definition IP_PROTO_UDP :: u8 where [simp]: "IP_PROTO_UDP = 0x11"
definition IP_PROTO_ICMP :: u8 where [simp]: "IP_PROTO_ICMP = 1"
definition ICMP_ECHO_REPLY :: u8 where [simp]: "ICMP_ECHO_REPLY = 0"
definition ICMP_ECHO :: u8 where [simp]: "ICMP_ECHO = 8"
definition ETHMAC_SLOT_SIZE :: nat where [simp]: "ETHMAC_SLOT_SIZE = 2048"
definition ETHMAC_TX_SLOTS :: nat where [simp]: "ETHMAC_TX_SLOTS = 2"

section \<open>State\<close>

record udp_call =
  c_src_ip :: u32
  c_src_port :: u16
  c_dst_port :: u16
  c_data :: bytes
  c_length :: u32

record net =
  my_mac :: bytes
  my_ip :: u32
  cached_mac :: bytes
  cached_ip :: u32
  rxbuffer :: bytes
  rxlen :: u32
  tx_slots :: "bytes list"
  txslot :: nat
  txlen :: u32
  rx_callback :: bool
  calls :: "udp_call list"
  ping_seq_number :: u32
  ping_waiting :: bool
  mac_rx :: "(bytes \<times> u32) option list"
  sent_frames :: "bytes list"

abbreviation txbuffer :: "net \<Rightarrow> bytes" where "txbuffer n \<equiv> tx_slots n ! txslot n"

text \<open>Writing into the current transmit slot.\<close>

definition put :: "nat \<Rightarrow> bytes \<Rightarrow> net \<Rightarrow> net option" where
  "put off bs n =
     do { m \<leftarrow> poke off bs (txbuffer n); Some (n\<lparr>tx_slots := (tx_slots n)[txslot n := m]\<rparr>) }"

definition fld :: "nat \<Rightarrow> nat \<Rightarrow> bytes \<Rightarrow> bytes" where
  "fld off len m = take len (drop off m)"

section \<open>Frames\<close>

definition preamble :: bytes where
  "preamble = replicate 7 0x55 @ [0xd5]"

definition fill_eth_header :: "bytes \<Rightarrow> bytes \<Rightarrow> u16 \<Rightarrow> bytes" where
  "fill_eth_header destmac srcmac ethertype = preamble @ destmac @ srcmac @ c16toa ethertype"

definition crc_bytes :: "u32 \<Rightarrow> bytes" where
  "crc_bytes crc = [ucast (crc AND 0xff), ucast (drop_bit 8 (crc AND 0xff00)),
     ucast (drop_bit 16 (crc AND 0xff0000)), ucast (drop_bit 24 (crc AND 0xff000000))]"

definition send_packet :: "net \<Rightarrow> net option" where
  "send_packet n =
     do { crc \<leftarrow> crc32 (drop 8 (txbuffer n)) (txlen n - 8);
          n \<leftarrow> put (unat (txlen n)) (crc_bytes crc) n;
          let n = n\<lparr>txlen := txlen n + 4\<rparr>;
          frame \<leftarrow> peek 0 (unat (txlen n)) (txbuffer n);
          Some (n\<lparr>sent_frames := sent_frames n @ [frame], txslot := (txslot n + 1) mod ETHMAC_TX_SLOTS\<rparr>) }"

definition udp_set_ip :: "u32 \<Rightarrow> net \<Rightarrow> net" where
  "udp_set_ip ip n = n\<lparr>my_ip := ip\<rparr>"

definition udp_get_ip :: "net \<Rightarrow> u32" where
  "udp_get_ip n = my_ip n"

definition udp_set_mac :: "bytes \<Rightarrow> net \<Rightarrow> net" where
  "udp_set_mac macaddr n = n\<lparr>my_mac := macaddr\<rparr>"

section \<open>ARP\<close>

definition arp_frame :: "u16 \<Rightarrow> bytes \<Rightarrow> u32 \<Rightarrow> bytes \<Rightarrow> u32 \<Rightarrow> bytes" where
  "arp_frame opcode sender_mac sender_ip target_mac target_ip =
     c16toa ARP_HWTYPE_ETHERNET @ c16toa ARP_PROTO_IP @ [6, 4] @ c16toa opcode @
     sender_mac @ c32toa sender_ip @ target_mac @ c32toa target_ip @ replicate 18 0"

definition process_arp :: "net \<Rightarrow> net option" where
  "process_arp n =
     (let m = rxbuffer n in
      if rxlen n < ARP_PACKET_LENGTH then Some n
      else if ato16 (fld 22 2 m) \<noteq> ARP_HWTYPE_ETHERNET then Some n
      else if ato16 (fld 24 2 m) \<noteq> ARP_PROTO_IP then Some n
      else if m ! 26 \<noteq> 6 then Some n
      else if m ! 27 \<noteq> 4 then Some n
      else if ato16 (fld 28 2 m) = ARP_OPCODE_REPLY
      then Some (if ato32 (fld 36 4 m) = cached_ip n then n\<lparr>cached_mac := fld 30 6 m\<rparr> else n)
      else if ato16 (fld 28 2 m) = ARP_OPCODE_REQUEST
      then (if ato32 (fld 46 4 m) = my_ip n
            then do { n \<leftarrow> put 0 (fill_eth_header (fld 30 6 m) (my_mac n) ETHERTYPE_ARP) n;
                      n \<leftarrow> put 22 (arp_frame ARP_OPCODE_REPLY (my_mac n) (my_ip n) (fld 30 6 m) (ato32 (fld 36 4 m))) n;
                      send_packet (n\<lparr>txlen := ARP_PACKET_LENGTH\<rparr>) }
            else Some n)
      else Some n)"

section \<open>Checksums\<close>

fun sum16 :: "u32 \<Rightarrow> bytes \<Rightarrow> u32" where
  "sum16 r (a # b # rest) = sum16 (r + (push_bit 8 (ucast a) OR ucast b)) rest"
| "sum16 r _ = r"

function add_overflows :: "u32 \<Rightarrow> u32" where
  "add_overflows r = (if drop_bit 16 r \<noteq> 0 then add_overflows ((r AND 0xffff) + drop_bit 16 r) else r)"
  by auto

text \<open>The carries get fewer: \<open>r = 65536 h + l\<close> becomes \<open>h + l\<close>.\<close>

lemma carry_split: "unat r = 65536 * unat (drop_bit 16 r) + unat (r AND 0xffff)" for r :: u32
proof -
  have "r AND 0xffff = take_bit 16 r" by (simp add: take_bit_eq_mask mask_eq_exp_minus_1)
  then have "unat (r AND 0xffff) = take_bit 16 (unat r)" by (simp only: unsigned_take_bit_eq)
  then have "unat (r AND 0xffff) = unat r mod 65536" by (simp add: take_bit_nat_def)
  moreover have "unat (drop_bit 16 r) = unat r div 65536"
    by (simp only: unat_drop_bit_eq) (simp add: drop_bit_nat_def)
  ultimately show ?thesis by simp
qed

lemma carry_bounds: "unat (drop_bit 16 r) < 65536" "unat (r AND 0xffff) < 65536" for r :: u32
proof -
  have "unat r < 2 ^ 32" using unat_lt_pow[of r] by simp
  then show "unat (drop_bit 16 r) < 65536" using carry_split[of r] by simp
  have "r AND 0xffff \<le> 0xffff" by (rule word_and_le1)
  then show "unat (r AND 0xffff) < 65536" by (simp add: word_le_nat_alt)
qed

lemma carry_sum: "unat ((r AND 0xffff) + drop_bit 16 r) = unat (r AND 0xffff) + unat (drop_bit 16 r)" for r :: u32
  using carry_bounds[of r] by (simp add: unat_word_ariths)

termination add_overflows
proof (relation "measure unat")
  fix r :: u32 assume "drop_bit 16 r \<noteq> 0"
  then have "0 < unat (drop_bit 16 r)" by (simp add: unat_gt_0)
  then show "((r AND 0xffff) + drop_bit 16 r, r) \<in> measure unat"
    using carry_split[of r] carry_sum[of r] by simp
qed simp

declare add_overflows.simps [simp del]

text \<open>\<open>buffer\<close> are the \<open>length\<close> bytes that are summed; an odd last byte is left out.\<close>

definition ip_checksum :: "u32 \<Rightarrow> bytes \<Rightarrow> bool \<Rightarrow> u16" where
  "ip_checksum r buffer complete =
     (let r = add_overflows (sum16 r buffer);
          r = (if complete then (let r = NOT r AND 0xffff in if r = 0 then 0xffff else r) else r)
      in ucast r)"

section \<open>UDP\<close>

text \<open>The IP header as it is in the slot before its checksum is filled in.\<close>

definition ip_header :: "u16 \<Rightarrow> u8 \<Rightarrow> u32 \<Rightarrow> bytes \<Rightarrow> bytes" where
  "ip_header total_length proto src_ip dst_ip =
     [IP_IPV4, 0] @ c16toa total_length @ c16toa 0 @ c16toa IP_DONT_FRAGMENT @ [IP_TTL, proto] @ c16toa 0 @
     c32toa src_ip @ dst_ip"

definition put_ip_header :: "u16 \<Rightarrow> u8 \<Rightarrow> u32 \<Rightarrow> bytes \<Rightarrow> net \<Rightarrow> net option" where
  "put_ip_header total_length proto src_ip dst_ip n =
     do { n \<leftarrow> put 22 (ip_header total_length proto src_ip dst_ip) n;
          h \<leftarrow> peek 22 20 (txbuffer n);
          put 32 (c16toa (ip_checksum 0 h True)) n }"

definition pseudo_header :: "u32 \<Rightarrow> u32 \<Rightarrow> u16 \<Rightarrow> bytes" where
  "pseudo_header src_ip dst_ip len = c32toa src_ip @ c32toa dst_ip @ [0, IP_PROTO_UDP] @ c16toa len"

text \<open>\<open>udp_get_tx_buffer\<close> is the payload at offset 50 of the current transmit slot.\<close>

definition udp_send :: "u16 \<Rightarrow> u16 \<Rightarrow> u32 \<Rightarrow> net \<Rightarrow> (bool \<times> net) option" where
  "udp_send src_port dst_port len n =
     (if list_all (\<lambda>b. b = 0) (cached_mac n) then Some (False, n)
      else
        do { let n = n\<lparr>txlen := (if len + 50 < ARP_PACKET_LENGTH then ARP_PACKET_LENGTH else len + 50)\<rparr>;
             n \<leftarrow> put 0 (fill_eth_header (cached_mac n) (my_mac n) ETHERTYPE_IP) n;
             n \<leftarrow> put_ip_header (ucast (len + 28)) IP_PROTO_UDP (my_ip n) (c32toa (cached_ip n)) n;
             let udplen = ucast (len + 8);
             n \<leftarrow> put 42 (c16toa src_port @ c16toa dst_port @ c16toa udplen @ c16toa 0) n;
             let r = ip_checksum 0 (pseudo_header (my_ip n) (cached_ip n) udplen) False;
             n \<leftarrow> (if len AND 1 \<noteq> 0 then put (50 + unat len) [0] n else Some n);
             let len' = (if len AND 1 \<noteq> 0 then len + 1 else len);
             d \<leftarrow> peek 42 (8 + unat len') (txbuffer n);
             n \<leftarrow> put 48 (c16toa (ip_checksum (ucast r) d True)) n;
             n \<leftarrow> send_packet n;
             Some (True, n) })"

definition process_udp :: "net \<Rightarrow> net option" where
  "process_udp n =
     (let m = rxbuffer n in
      if rxlen n < 50 then Some n
      else if ato16 (fld 24 2 m) < 28 then Some n
      else if m ! 31 \<noteq> IP_PROTO_UDP then Some n
      else if ato16 (fld 46 2 m) < 8 then Some n
      else if ato32 (fld 38 4 m) \<noteq> my_ip n then Some n
      else if rx_callback n
      then Some (n\<lparr>calls := calls n @ [\<lparr>c_src_ip = ato32 (fld 34 4 m), c_src_port = ato16 (fld 42 2 m),
                   c_dst_port = ato16 (fld 44 2 m), c_data = drop 50 m, c_length = ucast (ato16 (fld 46 2 m)) - 8\<rparr>]\<rparr>)
      else Some n)"

definition udp_set_callback :: "bool \<Rightarrow> net \<Rightarrow> net" where
  "udp_set_callback cb n = n\<lparr>rx_callback := cb\<rparr>"

section \<open>ICMP echo\<close>

text \<open>Identifier and sequence number are copied, or written in the byte order of the CPU.\<close>

definition put_icmp :: "u8 \<Rightarrow> bytes \<Rightarrow> bytes \<Rightarrow> bytes \<Rightarrow> net \<Rightarrow> net option" where
  "put_icmp type identifier seqnum payload n =
     do { n \<leftarrow> put 42 ([type, 0] @ c16toa 0 @ identifier @ seqnum) n;
          n \<leftarrow> put 50 payload n;
          d \<leftarrow> peek 42 (8 + length payload) (txbuffer n);
          put 44 (c16toa (ip_checksum 0 d True)) n }"

definition process_icmp :: "net \<Rightarrow> net option" where
  "process_icmp n =
     (let m = rxbuffer n in
      if rxlen n < 50 then Some n
      else if ato16 (fld 24 2 m) < 28 then Some n
      else
        (let len = ato16 (fld 24 2 m) - 28 in
         if m ! 42 = ICMP_ECHO
         then do { n \<leftarrow> put 0 (fill_eth_header (fld 14 6 m) (my_mac n) ETHERTYPE_IP) n;
                   n \<leftarrow> put_ip_header (len + 28) IP_PROTO_ICMP (my_ip n) (fld 34 4 m) n;
                   payload \<leftarrow> peek 50 (unat len) m;
                   n \<leftarrow> put_icmp ICMP_ECHO_REPLY (fld 46 2 m) (fld 48 2 m) payload n;
                   send_packet (n\<lparr>txlen := ucast len + 50\<rparr>) }
         else if m ! 42 = ICMP_ECHO_REPLY
         then Some (if ucast (m ! 48) OR push_bit 8 (ucast (m ! 49)) \<noteq> ping_seq_number n then n
                    else if fld 46 2 m \<noteq> [0x7c, 0xbe] then n
                    else n\<lparr>ping_waiting := False\<rparr>)
         else Some n))"

section \<open>Reception\<close>

definition process_frame :: "net \<Rightarrow> net option" where
  "process_frame n =
     (let m = rxbuffer n in
      if take 8 m \<noteq> preamble then Some n
      else
        do { c \<leftarrow> peek (unat (rxlen n - 4)) 4 m;
             let received_crc = (push_bit 24 (ucast (c ! 3)) OR push_bit 16 (ucast (c ! 2)) OR push_bit 8 (ucast (c ! 1)) OR ucast (c ! 0) :: u32);
             computed_crc \<leftarrow> crc32 (drop 8 m) (rxlen n - 12);
             if received_crc \<noteq> computed_crc then Some n
             else
               (let n = n\<lparr>rxlen := rxlen n - 4\<rparr> in
                if ato16 (fld 20 2 m) = ETHERTYPE_ARP then process_arp n
                else if ato16 (fld 20 2 m) = ETHERTYPE_IP
                then (if m ! 22 \<noteq> IP_IPV4 then Some n
                      else if ato32 (fld 38 4 m) \<noteq> my_ip n then Some n
                      else if m ! 31 = IP_PROTO_UDP then process_udp n
                      else if m ! 31 = IP_PROTO_ICMP then process_icmp n
                      else Some n)
                else Some n) })"

text \<open>One poll: the head of \<open>mac_rx\<close> is what the MAC has received by then.\<close>

definition udp_service :: "net \<Rightarrow> net option" where
  "udp_service n =
     (case mac_rx n of
        [] \<Rightarrow> Some n
      | None # q \<Rightarrow> Some (n\<lparr>mac_rx := q\<rparr>)
      | Some (slot, len) # q \<Rightarrow> process_frame (n\<lparr>mac_rx := q, rxbuffer := slot, rxlen := len\<rparr>))"

definition udp_start :: "bytes \<Rightarrow> u32 \<Rightarrow> net \<Rightarrow> net" where
  "udp_start macaddr ip n =
     (udp_set_mac macaddr (udp_set_ip ip n))\<lparr>cached_ip := 0, cached_mac := replicate 6 0, txslot := 0, rx_callback := False\<rparr>"

section \<open>Resolving an address\<close>

definition mac_known :: "net \<Rightarrow> bool" where
  "mac_known n = list_ex (\<lambda>b. b \<noteq> 0) (cached_mac n)"

fun arp_wait :: "nat \<Rightarrow> net \<Rightarrow> (bool \<times> net) option" where
  "arp_wait 0 n = Some (False, n)"
| "arp_wait (Suc t) n =
     do { n \<leftarrow> udp_service n; if mac_known n then Some (True, n) else arp_wait t n }"

definition send_arp_request :: "u32 \<Rightarrow> net \<Rightarrow> net option" where
  "send_arp_request ip n =
     do { n \<leftarrow> put 0 (fill_eth_header (replicate 6 0xff) (my_mac n) ETHERTYPE_ARP) n;
          n \<leftarrow> put 22 (arp_frame ARP_OPCODE_REQUEST (my_mac n) (my_ip n) (replicate 6 0) ip) n;
          send_packet (n\<lparr>txlen := ARP_PACKET_LENGTH\<rparr>) }"

fun arp_tries :: "nat \<Rightarrow> u32 \<Rightarrow> net \<Rightarrow> (bool \<times> net) option" where
  "arp_tries 0 ip n = Some (False, n)"
| "arp_tries (Suc t) ip n =
     do { n \<leftarrow> send_arp_request ip n;
          (ok, n) \<leftarrow> arp_wait 100000 n;
          if ok then Some (True, n) else arp_tries t ip n }"

definition udp_arp_resolve :: "u32 \<Rightarrow> net \<Rightarrow> (bool \<times> net) option" where
  "udp_arp_resolve ip n =
     (if cached_ip n = ip \<and> mac_known n then Some (True, n)
      else arp_tries 8 ip (n\<lparr>cached_ip := ip, cached_mac := replicate 6 0\<rparr>))"

fun ping_wait :: "nat \<Rightarrow> net \<Rightarrow> (int \<times> net) option" where
  "ping_wait 0 n = Some (-2, n)"
| "ping_wait (Suc t) n =
     do { n \<leftarrow> udp_service n; if \<not> ping_waiting n then Some (0, n) else ping_wait t n }"

definition send_ping :: "u32 \<Rightarrow> u16 \<Rightarrow> net \<Rightarrow> (int \<times> net) option" where
  "send_ping ip payload_length n =
     do { (ok, n) \<leftarrow> udp_arp_resolve ip n;
          if \<not> ok then Some (-1, n)
          else
            do { n \<leftarrow> put 0 (fill_eth_header (cached_mac n) (my_mac n) ETHERTYPE_IP) n;
                 n \<leftarrow> put_ip_header (payload_length + 28) IP_PROTO_ICMP (my_ip n) (c32toa ip) n;
                 let n = n\<lparr>ping_seq_number := ping_seq_number n + 1\<rparr>;
                 let sn = [ucast (ping_seq_number n), ucast (drop_bit 8 (ping_seq_number n))];
                 n \<leftarrow> put_icmp ICMP_ECHO [0x7c, 0xbe] sn (map of_nat [0..<unat payload_length]) n;
                 n \<leftarrow> send_packet (n\<lparr>txlen := ucast payload_length + 50\<rparr>);
                 ping_wait 10000 (n\<lparr>ping_waiting := True\<rparr>) } }"

section \<open>One's complement sums\<close>

fun words_sum :: "bytes \<Rightarrow> nat" where
  "words_sum (a # b # rest) = 256 * unat a + unat b + words_sum rest"
| "words_sum _ = 0"

lemma word_bytes: "unat (push_bit 8 (ucast a) OR ucast b :: u32) = 256 * unat a + unat b" for a b :: u8
proof -
  have "push_bit 8 (ucast a) OR ucast b = push_bit 8 (ucast a) + (ucast b :: u32)"
    by (rule disjunctive_add_eq_or[symmetric]) (rule bit_word_eqI, auto simp: bit_simps dest: bit_imp_le_length)
  moreover have "push_bit 8 (ucast a) = (256 * ucast a :: u32)" by (simp add: push_bit_eq_mult)
  moreover have "unat a < 256" "unat b < 256" using unat_lt_pow[of a] unat_lt_pow[of b] by simp_all
  ultimately show ?thesis by (simp add: unat_word_ariths unat_ucast_up)
qed

lemma words_sum_bound: "words_sum bs \<le> 65535 * (length bs div 2)"
proof (induction bs rule: words_sum.induct)
  case (1 a b rest)
  have "unat a < 256" "unat b < 256" using unat_lt_pow[of a] unat_lt_pow[of b] by simp_all
  then show ?case using 1 by simp
qed simp_all

lemma sum16_words: "unat r + words_sum bs < 2 ^ 32 \<Longrightarrow> unat (sum16 r bs) = unat r + words_sum bs"
proof (induction r bs rule: sum16.induct)
  case (1 r a b rest)
  have "unat (r + (push_bit 8 (ucast a) OR ucast b)) = unat r + (256 * unat a + unat b)"
    using 1(2) by (simp add: unat_word_ariths word_bytes)
  then show ?case using 1 by simp
qed simp_all

text \<open>Folding the carries keeps the sum modulo 65535, and makes it zero only for zero.\<close>

lemma add_overflows_mod:
  "unat (add_overflows r) mod 65535 = unat r mod 65535 \<and> unat (add_overflows r) < 65536 \<and> (add_overflows r = 0 \<longleftrightarrow> r = 0)"
proof (induction r rule: add_overflows.induct)
  case (1 r)
  show ?case
  proof (cases "drop_bit 16 r = 0")
    case True
    then have "add_overflows r = r" by (subst add_overflows.simps) simp
    then show ?thesis using carry_split[of r] carry_bounds(2)[of r] True by simp
  next
    case False
    let ?s = "(r AND 0xffff) + drop_bit 16 r"
    have a: "add_overflows r = add_overflows ?s" using False by (subst add_overflows.simps) simp
    have "unat r = 65535 * unat (drop_bit 16 r) + unat ?s" using carry_split[of r] carry_sum[of r] by simp
    then have "unat r mod 65535 = unat ?s mod 65535" by simp
    moreover have "0 < unat ?s" "0 < unat r"
      using False carry_sum[of r] carry_split[of r] by (auto simp: unat_gt_0)
    then have "?s \<noteq> 0" "r \<noteq> 0" by (auto simp: unat_gt_0)
    ultimately show ?thesis using 1[OF False] a by simp
  qed
qed

text \<open>The result of a complete checksum as a number.\<close>

lemma ip_checksum_nat:
  assumes "unat r + words_sum bs < 2 ^ 32"
  shows "let v = unat (ip_checksum r bs True) in 0 < v \<and> v < 65536 \<and> (v + (unat r + words_sum bs)) mod 65535 = 0"
proof -
  define v where "v = add_overflows (sum16 r bs)"
  have v: "unat v mod 65535 = (unat r + words_sum bs) mod 65535" "unat v < 65536"
    using add_overflows_mod[of "sum16 r bs"] sum16_words[OF assms] by (simp_all add: v_def)
  have n: "unat (NOT v AND 0xffff) = 65535 - unat v"
  proof -
    have "unat v = unat (v AND 0xffff)" using carry_split[of v] v(2) by simp
    moreover have "(NOT v AND 0xffff) AND (v AND 0xffff) = 0" by (rule bit_word_eqI) (auto simp: bit_simps)
    then have "(NOT v AND 0xffff) + (v AND 0xffff) = (NOT v AND 0xffff) OR (v AND 0xffff)" by (rule disjunctive_add_eq_or)
    then have "(NOT v AND 0xffff) + (v AND 0xffff) = 0xffff" by (simp only:) (rule bit_word_eqI, auto simp: bit_simps)
    then have "unat ((NOT v AND 0xffff) + (v AND 0xffff)) = 65535" by simp
    moreover have "unat ((NOT v AND 0xffff) + (v AND 0xffff)) = unat (NOT v AND 0xffff) + unat (v AND 0xffff)"
      using carry_bounds(2)[of v] carry_bounds(2)[of "NOT v"] by (simp add: unat_word_ariths)
    ultimately show ?thesis by simp
  qed
  define w where "w = (if NOT v AND 0xffff = 0 then 0xffff else NOT v AND 0xffff)"
  have "unat w < 65536" "0 < unat w" "(unat w + unat v) mod 65535 = 0"
  proof -
    consider (z) "NOT v AND 0xffff = 0" "unat v = 65535" "w = 0xffff" | (nz) "NOT v AND 0xffff \<noteq> 0" "w = NOT v AND 0xffff"
      using n v(2) by (cases "NOT v AND 0xffff = 0") (auto simp: w_def)
    then have "unat w < 65536 \<and> 0 < unat w \<and> (unat w + unat v) mod 65535 = 0"
    proof cases
      case nz
      have "0 < unat (NOT v AND 0xffff)" using nz(1) by (simp only: unat_gt_0) simp
      then have "unat v < 65535" "unat w = 65535 - unat v" using n nz(2) by simp_all
      then show ?thesis by auto
    qed simp
    then show "unat w < 65536" "0 < unat w" "(unat w + unat v) mod 65535 = 0" by simp_all
  qed
  moreover have "unat (ip_checksum r bs True) = unat w"
    using \<open>unat w < 65536\<close> unfolding ip_checksum_def Let_def v_def[symmetric] w_def[symmetric]
    by (simp add: unsigned_ucast_eq take_bit_nat_eq_self)
  ultimately show ?thesis using v(1) by (simp add: Let_def) (metis mod_add_right_eq)
qed

lemma words_sum_append: "even (length xs) \<Longrightarrow> words_sum (xs @ ys) = words_sum xs + words_sum ys"
  by (induction xs rule: words_sum.induct) simp_all

lemma words_sum_c16toa: "words_sum (c16toa x @ ys) = unat x + words_sum ys"
proof -
  obtain a b where ab: "c16toa x = [a, b]" by (simp add: c16toa_def)
  have "ato16 [a, b] = x" using ato16_c16toa[of x "[]"] ab by simp
  then have "x = ucast (push_bit 8 (ucast a) OR ucast b :: u32)" by (simp add: ato16_def)
  moreover have "unat a < 256" "unat b < 256" using unat_lt_pow[of a] unat_lt_pow[of b] by simp_all
  ultimately have "unat x = unat (push_bit 8 (ucast a) OR ucast b :: u32)"
    using word_bytes[of a b] by (simp add: unsigned_ucast_eq take_bit_nat_eq_self)
  then show ?thesis using ab word_bytes[of a b] by simp
qed

section \<open>Datagrams\<close>

definition net_wf :: "net \<Rightarrow> bool" where
  "net_wf n \<longleftrightarrow> length (tx_slots n) = ETHMAC_TX_SLOTS \<and> txslot n < ETHMAC_TX_SLOTS \<and>
     (\<forall>m\<in>set (tx_slots n). length m = ETHMAC_SLOT_SIZE) \<and> length (my_mac n) = 6 \<and> length (cached_mac n) = 6"

text \<open>A state with the given contents of the current transmit slot.\<close>

definition with_tx :: "bytes \<Rightarrow> net \<Rightarrow> net" where
  "with_tx m n = n\<lparr>tx_slots := (tx_slots n)[txslot n := m]\<rparr>"

lemma with_tx_self: "net_wf n \<Longrightarrow> with_tx (txbuffer n) n = n"
  by (simp add: with_tx_def)

lemma with_tx_simps [simp]:
  "my_mac (with_tx m n) = my_mac n" "my_ip (with_tx m n) = my_ip n" "cached_mac (with_tx m n) = cached_mac n"
  "cached_ip (with_tx m n) = cached_ip n" "txlen (with_tx m n) = txlen n" "txslot (with_tx m n) = txslot n"
  "sent_frames (with_tx m n) = sent_frames n" "with_tx m' (with_tx m n) = with_tx m' n"
  "net_wf n \<Longrightarrow> k = txslot n \<Longrightarrow> tx_slots (with_tx m n) ! k = m" "(with_tx m n)\<lparr>txlen := l\<rparr> = with_tx m (n\<lparr>txlen := l\<rparr>)"
  by (simp_all add: with_tx_def net_wf_def)

lemma net_wf_txlen [simp]: "net_wf (n\<lparr>txlen := k\<rparr>) = net_wf n"
  by (simp add: net_wf_def)

lemma put_with_tx:
  "net_wf n \<Longrightarrow> length m = 2048 \<Longrightarrow> off + length bs \<le> 2048 \<Longrightarrow>
   put off bs (with_tx m n) = Some (with_tx (take off m @ bs @ drop (off + length bs) m) n)"
  by (simp add: put_def poke_def) (simp add: with_tx_def net_wf_def)

lemma length_fill_eth [simp]: "length (fill_eth_header d s t) = 10 + length d + length s"
  by (simp add: fill_eth_header_def preamble_def c16toa_def)

lemma length_ip_header [simp]: "length (ip_header t p s d) = 16 + length d"
  by (simp add: ip_header_def c16toa_def c32toa_def)

definition ip_header_sum :: "u16 \<Rightarrow> u8 \<Rightarrow> u32 \<Rightarrow> bytes \<Rightarrow> bytes" where
  "ip_header_sum t p s d = take 10 (ip_header t p s d) @ c16toa (ip_checksum 0 (ip_header t p s d) True) @ drop 12 (ip_header t p s d)"

lemma c16_len [simp]: "length (c16toa x) = 2"
  by (simp add: c16toa_def)

lemma length_ip_header_sum [simp]: "length d = 4 \<Longrightarrow> length (ip_header_sum t p s d) = 20"
  by (simp add: ip_header_sum_def)

lemma put_ip_header_with_tx:
  assumes "net_wf n" "length e = 22" "length rest = 2026" "length d = 4"
  shows "put_ip_header t p s d (with_tx (e @ rest) n) = Some (with_tx (e @ ip_header_sum t p s d @ drop 20 rest) n)"
proof -
  let ?h = "ip_header t p s d"
  have 1: "put 22 ?h (with_tx (e @ rest) n) = Some (with_tx (e @ ?h @ drop 20 rest) n)"
    by (subst put_with_tx) (use assms in simp_all)
  have 2: "put 32 (c16toa x) (with_tx (e @ ?h @ drop 20 rest) n) = Some (with_tx (e @ take 10 ?h @ c16toa x @ drop 12 ?h @ drop 20 rest) n)" for x
    by (subst put_with_tx) (use assms in simp_all)
  show ?thesis using assms 1 2 by (simp add: put_ip_header_def peek_def ip_header_sum_def)
qed

lemma send_packet_with_tx:
  assumes wf: "net_wf n" "length m = 2048" and L: "unat (txlen n) = L" "8 \<le> L" "L + 4 \<le> 2048"
  obtains crc where "crc = crc32_loop (0 XOR 0xffffffff) (take (L - 8) (drop 8 m)) XOR 0xffffffff"
    "\<exists>n'. send_packet (with_tx m n) = Some n' \<and> sent_frames n' = sent_frames n @ [take L m @ crc_bytes crc]"
proof -
  define crc where "crc = crc32_loop (0 XOR 0xffffffff) (take (L - 8) (drop 8 m)) XOR 0xffffffff"
  have u: "unat (txlen n - 8) = L - 8" "unat (txlen n + 4) = L + 4"
    using L by (simp_all add: unat_sub_if' word_le_nat_alt unat_word_ariths)
  have lc: "length (crc_bytes crc) = 4" by (simp add: crc_bytes_def)
  have c: "crc32 (drop 8 m) (txlen n - 8) = Some crc"
    using L wf(2) by (simp add: crc32_def peek_def u crc_def)
  have p: "put L (crc_bytes crc) (with_tx m n) = Some (with_tx (take L m @ crc_bytes crc @ drop (L + 4) m) n)"
    using put_with_tx[OF wf, of L "crc_bytes crc"] L(3) lc by simp
  have "\<exists>n'. send_packet (with_tx m n) = Some n' \<and> sent_frames n' = sent_frames n @ [take L m @ crc_bytes crc]"
    using wf L c p lc by (simp add: send_packet_def u peek_def Let_def)
  then show thesis using that crc_def by blast
qed

lemma read_crc:
  "push_bit 24 (ucast (crc_bytes c ! 3)) OR push_bit 16 (ucast (crc_bytes c ! 2)) OR push_bit 8 (ucast (crc_bytes c ! 1)) OR
   ucast (crc_bytes c ! 0) = c"
proof -
  have m: "(0xff :: u32) = mask 8" "(0xff00 :: u32) = push_bit 8 (mask 8)" "(0xff0000 :: u32) = push_bit 16 (mask 8)"
    "(0xff000000 :: u32) = push_bit 24 (mask 8)"
    by (simp_all add: mask_eq_exp_minus_1 push_bit_eq_mult)
  have nth: "crc_bytes c ! 0 = ucast (c AND mask 8)" "crc_bytes c ! 1 = ucast (drop_bit 8 (c AND push_bit 8 (mask 8)))"
    "crc_bytes c ! 2 = ucast (drop_bit 16 (c AND push_bit 16 (mask 8)))" "crc_bytes c ! 3 = ucast (drop_bit 24 (c AND push_bit 24 (mask 8)))"
    by (simp_all only: crc_bytes_def m nth_Cons_0 nth_Cons_Suc numeral_2_eq_2 numeral_3_eq_3 One_nat_def)
  have byte: "push_bit k (ucast (ucast (drop_bit k (c AND push_bit k (mask 8))) :: u8)) = c AND push_bit k (mask 8)" for k
    by (rule bit_word_eqI) (auto simp: bit_simps)
  have byte0: "ucast (ucast (c AND mask 8) :: u8) = c AND mask 8" by (rule bit_word_eqI) (auto simp: bit_simps)
  have "push_bit 24 (mask 8) OR push_bit 16 (mask 8) OR push_bit 8 (mask 8) OR mask 8 = (-1 :: u32)"
    by (simp add: mask_eq_exp_minus_1 push_bit_eq_mult)
  then have "c AND (push_bit 24 (mask 8) OR push_bit 16 (mask 8) OR push_bit 8 (mask 8) OR mask 8) = c" by simp
  then show ?thesis unfolding nth byte byte0 by (simp only: bit.conj_disj_distrib)
qed

text \<open>The frame \<open>udp_send\<close> makes: headers, payload and check sequence.\<close>

lemma udp_send_form:
  assumes wf: "net_wf n" and mac: "mac_known n" and len: "unat len \<le> 1990"
  shows "\<exists>n' us P crc. udp_send sp dp len n = Some (True, n') \<and> length P = 1998 \<and>
    take (unat len) P = take (unat len) (drop 50 (txbuffer n)) \<and>
    (let L = max 68 (unat len + 50);
         m = fill_eth_header (cached_mac n) (my_mac n) ETHERTYPE_IP @
             ip_header_sum (ucast (len + 28)) IP_PROTO_UDP (my_ip n) (c32toa (cached_ip n)) @
             c16toa sp @ c16toa dp @ c16toa (ucast (len + 8)) @ c16toa us @ P
     in crc = crc32_loop (0 XOR 0xffffffff) (take (L - 8) (drop 8 m)) XOR 0xffffffff \<and>
        sent_frames n' = sent_frames n @ [take L m @ crc_bytes crc])"
proof -
  define L where "L = max 68 (unat len + 50)"
  have u50: "unat (len + 50) = unat len + 50" using len by (simp add: unat_word_ariths)
  define n0 where "n0 = n\<lparr>txlen := (if len + 50 < ARP_PACKET_LENGTH then ARP_PACKET_LENGTH else len + 50)\<rparr>"
  have L: "unat (txlen n0) = L" "8 \<le> L" "L + 4 \<le> 2048" "unat len + 50 \<le> L"
    using len u50 by (auto simp: n0_def L_def word_less_nat_alt)
  define m0 where "m0 = txbuffer n"
  have wf0: "net_wf n0" using wf by (simp add: n0_def)
  have l0: "length m0 = 2048" using wf by (auto simp: m0_def net_wf_def)
  have n0: "n0 = with_tx m0 n0" using with_tx_self[OF wf0] by (simp add: m0_def n0_def)
  have same: "my_mac n0 = my_mac n" "my_ip n0 = my_ip n" "cached_mac n0 = cached_mac n" "cached_ip n0 = cached_ip n" "sent_frames n0 = sent_frames n"
    by (simp_all add: n0_def)
  define E where "E = fill_eth_header (cached_mac n) (my_mac n) ETHERTYPE_IP"
  define H where "H = ip_header_sum (ucast (len + 28)) IP_PROTO_UDP (my_ip n) (c32toa (cached_ip n))"
  have lE: "length E = 22" and lH: "length H = 20" using wf by (simp_all add: E_def H_def net_wf_def)
  define U where "U = c16toa sp @ c16toa dp @ c16toa (ucast (len + 8))"
  have lU: "length U = 6" by (simp add: U_def)
  have s1: "put 0 E n0 = Some (with_tx (E @ drop 22 m0) n0)"
    by (subst n0, subst put_with_tx) (use wf0 l0 lE in simp_all)
  have s2: "put_ip_header (ucast (len + 28)) IP_PROTO_UDP (my_ip n) (c32toa (cached_ip n)) (with_tx (E @ drop 22 m0) n0) =
      Some (with_tx (E @ H @ drop 42 m0) n0)"
    using put_ip_header_with_tx[OF wf0 lE, of "drop 22 m0" "c32toa (cached_ip n)"] l0 by (simp add: H_def)
  have s3: "put 42 (U @ c16toa x) (with_tx (E @ H @ drop 42 m0) n0) = Some (with_tx (E @ H @ U @ c16toa x @ drop 50 m0) n0)" for x
    by (subst put_with_tx) (use wf0 l0 lE lH lU in simp_all)
  define P where "P = (if len AND 1 \<noteq> 0 then take (unat len) (drop 50 m0) @ [0] @ drop (51 + unat len) m0 else drop 50 m0)"
  have lP: "length P = 1998" and tP: "take (unat len) P = take (unat len) (drop 50 m0)" using l0 len by (auto simp: P_def)
  have s4: "(if len AND 1 \<noteq> 0 then put (50 + unat len) [0] (with_tx (E @ H @ U @ c16toa x @ drop 50 m0) n0)
      else Some (with_tx (E @ H @ U @ c16toa x @ drop 50 m0) n0)) = Some (with_tx (E @ H @ U @ c16toa x @ P) n0)" for x
  proof (cases "len AND 1 \<noteq> 0")
    case True
    have "put (50 + unat len) [0] (with_tx (E @ H @ U @ c16toa x @ drop 50 m0) n0) = Some (with_tx (E @ H @ U @ c16toa x @ P) n0)"
      by (subst put_with_tx) (use wf0 l0 lE lH lU len True in \<open>simp_all add: P_def\<close>)
    then show ?thesis using True by simp
  qed (simp add: P_def)
  have s5: "put 48 (c16toa y) (with_tx (E @ H @ U @ c16toa x @ P) n0) = Some (with_tx (E @ H @ U @ c16toa y @ P) n0)" for x y
    by (subst put_with_tx) (use wf0 lE lH lU lP in simp_all)
  define r where "r = ip_checksum 0 (pseudo_header (my_ip n) (cached_ip n) (ucast (len + 8))) False"
  define len' where "len' = (if len AND 1 \<noteq> 0 then len + 1 else len)"
  have l': "unat len' \<le> 1991" using len by (auto simp: len'_def unat_word_ariths)
  define us where "us = ip_checksum (ucast r) (take (8 + unat len') (drop 42 (E @ H @ U @ c16toa 0 @ P))) True"
  define m where "m = E @ H @ U @ c16toa us @ P"
  have lm: "length m = 2048" using lE lH lU lP by (simp add: m_def)
  have pk: "peek 42 (8 + unat len') (E @ H @ U @ c16toa 0 @ P) = Some (take (8 + unat len') (drop 42 (E @ H @ U @ c16toa 0 @ P)))"
    using lE lH lU lP l' by (simp add: peek_def)
  obtain crc n' where crc: "crc = crc32_loop (0 XOR 0xffffffff) (take (L - 8) (drop 8 m)) XOR 0xffffffff"
    and sp: "send_packet (with_tx m n0) = Some n'" "sent_frames n' = sent_frames n0 @ [take L m @ crc_bytes crc]"
    using send_packet_with_tx[OF wf0 lm L(1-3)] by metis
  have known: "\<not> list_all (\<lambda>b. b = 0) (cached_mac n)" using mac by (auto simp: mac_known_def list_all_iff list_ex_iff)
  have run: "udp_send sp dp len n = Some (True, n')"
  proof -
    have st3: "put 42 (c16toa sp @ c16toa dp @ c16toa (ucast (len + 8)) @ c16toa 0) (with_tx (E @ H @ drop 42 m0) n0) =
        Some (with_tx (E @ H @ U @ c16toa 0 @ drop 50 m0) n0)" using s3[of 0] by (simp add: U_def)
    have e: "udp_send sp dp len n = (if list_all (\<lambda>b. b = 0) (cached_mac n) then Some (False, n) else
      do { n1 \<leftarrow> put 0 E n0;
           n2 \<leftarrow> put_ip_header (ucast (len + 28)) IP_PROTO_UDP (my_ip n1) (c32toa (cached_ip n1)) n1;
           n3 \<leftarrow> put 42 (c16toa sp @ c16toa dp @ c16toa (ucast (len + 8)) @ c16toa 0) n2;
           n4 \<leftarrow> (if len AND 1 \<noteq> 0 then put (50 + unat len) [0] n3 else Some n3);
           d \<leftarrow> peek 42 (8 + unat len') (txbuffer n4);
           n5 \<leftarrow> put 48 (c16toa (ip_checksum (ucast (ip_checksum 0 (pseudo_header (my_ip n3) (cached_ip n3) (ucast (len + 8))) False)) d True)) n4;
           n6 \<leftarrow> send_packet n5;
           Some (True, n6) })"
      unfolding udp_send_def Let_def n0_def[symmetric] same E_def[symmetric] len'_def[symmetric] ..
    have t4: "txbuffer (with_tx (E @ H @ U @ c16toa 0 @ P) n0) = E @ H @ U @ c16toa 0 @ P" using wf0 by simp
    have us: "ip_checksum (ucast (ip_checksum 0 (pseudo_header (my_ip (with_tx x n0)) (cached_ip (with_tx x n0)) (ucast (len + 8))) False))
        (take (8 + unat len') (drop 42 (E @ H @ U @ c16toa 0 @ P))) True = us" for x
      by (simp add: us_def r_def same)
    have s2': "put_ip_header (ucast (len + 28)) IP_PROTO_UDP (my_ip (with_tx x n0)) (c32toa (cached_ip (with_tx x n0))) (with_tx (E @ drop 22 m0) n0) =
      Some (with_tx (E @ H @ drop 42 m0) n0)" for x using s2 by (simp add: same)
    show ?thesis
      unfolding e if_not_P[OF known] s1 Option.bind.bind_lunit s2' st3 s4[of 0] t4 pk us s5[of us 0, folded m_def] sp(1) ..
  qed
  show ?thesis
    unfolding Let_def L_def[symmetric]
    by (intro exI[of _ n'] exI[of _ us] exI[of _ P] exI[of _ crc])
       (use run lP tP crc sp(2) in \<open>simp add: m_def E_def H_def U_def m0_def same\<close>)
qed

lemma ip_header_sum_form:
  "ip_header_sum t p s (c32toa d) = [IP_IPV4, 0] @ c16toa t @ c16toa 0 @ c16toa IP_DONT_FRAGMENT @ [IP_TTL, p] @
     c16toa (ip_checksum 0 (ip_header t p s (c32toa d)) True) @ c32toa s @ c32toa d"
  unfolding ip_header_sum_def by (simp add: ip_header_def)

lemma ato_fields [simp]: "ato16 (c16toa x) = x" "ato32 (c32toa y) = y"
  using ato16_c16toa[of x "[]"] ato32_c32toa[of y "[]"] by simp_all

text \<open>A frame with these headers and a correct check sequence reaches the callback.\<close>

lemma process_frame_udp:
  assumes E: "length dest = 6" "length src = 6"
    and hdr: "hdr = fill_eth_header dest src ETHERTYPE_IP @ ip_header_sum tlen IP_PROTO_UDP sip (c32toa dip) @
        c16toa sp @ c16toa dp @ c16toa ul @ c16toa us"
    and slot: "rxbuffer b = hdr @ Q @ crc_bytes crc @ rest" and len: "rxlen b = of_nat (length Q + 54)" "length Q + 54 \<le> 2048"
    and crc: "crc = crc32_loop (0 XOR 0xffffffff) (take (length Q + 42) (drop 8 (hdr @ Q))) XOR 0xffffffff"
    and ok: "28 \<le> unat tlen" "8 \<le> unat ul" "dip = my_ip b" "rx_callback b"
  shows "\<exists>b'. process_frame b = Some b' \<and> calls b' = calls b @ [\<lparr>c_src_ip = sip, c_src_port = sp, c_dst_port = dp,
      c_data = Q @ crc_bytes crc @ rest, c_length = ucast ul - 8\<rparr>]"
proof -
  have lh: "length hdr = 50" using E by (simp add: hdr)
  have lc: "length (crc_bytes crc) = 4" by (simp add: crc_bytes_def)
  have ul: "unat (rxlen b) = length Q + 54"
    unfolding len(1) using len(2) by (simp add: unsigned_of_nat take_bit_nat_eq_self del: of_nat_add)
  have u: "unat (rxlen b - 4) = length Q + 50" "unat (rxlen b - 12) = length Q + 42" "\<not> rxlen b - 4 < 50"
    using ul by (simp_all add: unat_sub_if' word_le_nat_alt word_less_nat_alt)
  have f: "take 8 (hdr @ R) = preamble" "fld 20 2 (hdr @ R) = c16toa ETHERTYPE_IP" "(hdr @ R) ! 22 = IP_IPV4" "fld 24 2 (hdr @ R) = c16toa tlen"
      "(hdr @ R) ! 31 = IP_PROTO_UDP" "fld 34 4 (hdr @ R) = c32toa sip" "fld 38 4 (hdr @ R) = c32toa dip" "fld 42 2 (hdr @ R) = c16toa sp"
      "fld 44 2 (hdr @ R) = c16toa dp" "fld 46 2 (hdr @ R) = c16toa ul" "drop 50 (hdr @ R) = R" for R
    using E lh by (simp_all add: hdr ip_header_sum_form fill_eth_header_def fld_def preamble_def nth_append)
  have pk: "peek (unat (rxlen b - 4)) 4 (rxbuffer b) = Some (crc_bytes crc)"
    using lh lc by (simp add: u slot peek_def)
  have "take (length Q + 42) (drop 8 (rxbuffer b)) = take (length Q + 42) (drop 8 (hdr @ Q))"
    using lh by (simp add: slot)
  then have cc: "crc32 (drop 8 (rxbuffer b)) (rxlen b - 12) = Some crc"
    using lh by (simp add: crc32_def peek_def u slot crc)
  have pu: "process_udp (b\<lparr>rxlen := rxlen b - 4\<rparr>) = Some (b\<lparr>rxlen := rxlen b - 4, calls := calls b @ [\<lparr>c_src_ip = sip, c_src_port = sp, c_dst_port = dp,
      c_data = Q @ crc_bytes crc @ rest, c_length = ucast ul - 8\<rparr>]\<rparr>)"
    using u(3) ok unfolding process_udp_def Let_def by (simp add: slot f lh word_less_nat_alt del: IP_PROTO_UDP_def)
  have "process_frame b = process_udp (b\<lparr>rxlen := rxlen b - 4\<rparr>)"
  proof -
    note g = f[of "Q @ crc_bytes crc @ rest", folded slot]
    show ?thesis
      unfolding process_frame_def Let_def pk cc Option.bind.bind_lunit read_crc g(1,2,3,5,7) ato_fields using ok(3) by simp
  qed
  then show ?thesis using pu by simp
qed

lemma udp_datagram:
  assumes "net_wf a" "mac_known a" "unat len \<le> 1990" "my_ip b = cached_ip a" "rx_callback b"
  shows "\<exists>a' frame. udp_send sp dp len a = Some (True, a') \<and> sent_frames a' = sent_frames a @ [frame] \<and> length frame \<le> 2048 \<and>
    (\<forall>rest. \<exists>b' data. process_frame (b\<lparr>rxbuffer := frame @ rest, rxlen := of_nat (length frame)\<rparr>) = Some b' \<and>
       calls b' = calls b @ [\<lparr>c_src_ip = my_ip a, c_src_port = sp, c_dst_port = dp, c_data = data, c_length = len\<rparr>] \<and>
       take (unat len) data = take (unat len) (drop 50 (txbuffer a)) \<and> length data + 50 = length (frame @ rest))"
proof -
  obtain a' us P crc where s: "udp_send sp dp len a = Some (True, a')" "length P = 1998"
      "take (unat len) P = take (unat len) (drop 50 (txbuffer a))"
    and m: "let L = max 68 (unat len + 50);
         m = fill_eth_header (cached_mac a) (my_mac a) ETHERTYPE_IP @
             ip_header_sum (ucast (len + 28)) IP_PROTO_UDP (my_ip a) (c32toa (cached_ip a)) @
             c16toa sp @ c16toa dp @ c16toa (ucast (len + 8)) @ c16toa us @ P
     in crc = crc32_loop (0 XOR 0xffffffff) (take (L - 8) (drop 8 m)) XOR 0xffffffff \<and>
        sent_frames a' = sent_frames a @ [take L m @ crc_bytes crc]"
    using udp_send_form[OF assms(1-3), of sp dp] by blast
  define hdr where "hdr = fill_eth_header (cached_mac a) (my_mac a) ETHERTYPE_IP @
       ip_header_sum (ucast (len + 28)) IP_PROTO_UDP (my_ip a) (c32toa (cached_ip a)) @
       c16toa sp @ c16toa dp @ c16toa (ucast (len + 8)) @ c16toa us"
  define Q where "Q = take (max 18 (unat len)) P"
  have lh: "length hdr = 50" using assms(1) by (simp add: hdr_def net_wf_def)
  have lQ: "length Q = max 18 (unat len)" using s(2) assms(3) by (auto simp: Q_def)
  have L: "max 68 (unat len + 50) = length Q + 50" using lQ by auto
  have e: "fill_eth_header (cached_mac a) (my_mac a) ETHERTYPE_IP @ ip_header_sum (ucast (len + 28)) IP_PROTO_UDP (my_ip a) (c32toa (cached_ip a)) @
       c16toa sp @ c16toa dp @ c16toa (ucast (len + 8)) @ c16toa us @ P = hdr @ P" by (simp add: hdr_def)
  have tk: "take (length Q + 50) (hdr @ P) = hdr @ Q" "take (length Q + 50 - 8) (drop 8 (hdr @ P)) = take (length Q + 42) (drop 8 (hdr @ Q))"
    using lh lQ by (simp_all add: Q_def)
  have frame: "sent_frames a' = sent_frames a @ [hdr @ Q @ crc_bytes crc]"
    and crc: "crc = crc32_loop (0 XOR 0xffffffff) (take (length Q + 42) (drop 8 (hdr @ Q))) XOR 0xffffffff"
    using m unfolding Let_def L e tk by simp_all
  have tQ: "take (unat len) Q = take (unat len) (drop 50 (txbuffer a))" using s(3) by (simp add: Q_def min_def)
  have lc: "length (crc_bytes crc) = 4" by (simp add: crc_bytes_def)
  have small: "unat (ucast (len + 28) :: u16) = unat len + 28" "unat (ucast (len + 8) :: u16) = unat len + 8"
    using assms(3) by (simp_all add: unsigned_ucast_eq unat_word_ariths take_bit_nat_eq_self)
  have "unat (ucast (ucast (len + 8) :: u16) :: u32) = unat len + 8" using small(2) by (simp add: unat_ucast_up)
  then have "ucast (ucast (len + 8) :: u16) = len + 8" using assms(3) by (simp add: word_unat_eq_iff unat_word_ariths)
  then have ulen: "ucast (ucast (len + 8) :: u16) - 8 = len" by simp
  have rx: "\<exists>b' data. process_frame (b\<lparr>rxbuffer := (hdr @ Q @ crc_bytes crc) @ rest, rxlen := of_nat (length (hdr @ Q @ crc_bytes crc))\<rparr>) = Some b' \<and>
       calls b' = calls b @ [\<lparr>c_src_ip = my_ip a, c_src_port = sp, c_dst_port = dp, c_data = data, c_length = len\<rparr>] \<and>
       take (unat len) data = take (unat len) (drop 50 (txbuffer a)) \<and> length data + 50 = length ((hdr @ Q @ crc_bytes crc) @ rest)" for rest
  proof -
    let ?b = "b\<lparr>rxbuffer := (hdr @ Q @ crc_bytes crc) @ rest, rxlen := of_nat (length (hdr @ Q @ crc_bytes crc))\<rparr>"
    obtain b' where b': "process_frame ?b = Some b'" "calls b' = calls ?b @ [\<lparr>c_src_ip = my_ip a, c_src_port = sp, c_dst_port = dp,
        c_data = Q @ crc_bytes crc @ rest, c_length = ucast (ucast (len + 8) :: u16) - 8\<rparr>]"
      using process_frame_udp[OF _ _ hdr_def _ _ _ crc, of ?b rest] assms lh lc lQ small by (auto simp: net_wf_def)
    have "take (unat len) (Q @ crc_bytes crc @ rest) = take (unat len) (drop 50 (txbuffer a))" using tQ lQ by simp
    then show ?thesis using b' ulen lh by auto
  qed
  show ?thesis
    by (intro exI[of _ a'] exI[of _ "hdr @ Q @ crc_bytes crc"]) (use s(1) frame rx lh lQ lc assms(3) in auto)
qed

section \<open>Properties\<close>

text \<open>
  Datagram round trip.  A datagram sent with \<open>udp_send\<close> to a host whose address is known becomes one
  frame, and that frame, whatever else is in the receive slot, makes the receiver call its callback once
  with the sender's address, both ports, the payload and its length.
\<close>

theorem udp_roundtrip:
  assumes "net_wf a" "mac_known a" "unat len \<le> 1990" "my_ip b = cached_ip a" "rx_callback b"
  shows "\<exists>a' frame. udp_send sp dp len a = Some (True, a') \<and> sent_frames a' = sent_frames a @ [frame] \<and> length frame \<le> 2048 \<and>
    (\<forall>rest. \<exists>b' data. process_frame (b\<lparr>rxbuffer := frame @ rest, rxlen := of_nat (length frame)\<rparr>) = Some b' \<and>
       calls b' = calls b @ [\<lparr>c_src_ip = my_ip a, c_src_port = sp, c_dst_port = dp, c_data = data, c_length = len\<rparr>] \<and>
       take (unat len) data = take (unat len) (drop 50 (txbuffer a)) \<and> length data + 50 = length (frame @ rest))"
  by (rule udp_datagram[OF assms])

definition net0 :: net where
  "net0 = \<lparr>my_mac = [2, 0, 0, 0, 0, 1], my_ip = 0xc0a80132, cached_mac = [2, 0, 0, 0, 0, 2], cached_ip = 0xc0a80164,
     rxbuffer = replicate 2048 0, rxlen = 0, tx_slots = replicate 2 (replicate 2048 7), txslot = 0, txlen = 0, rx_callback = True,
     calls = [], ping_seq_number = 0, ping_waiting = False, mac_rx = [], sent_frames = []\<rparr>"

theorem udp_roundtrip_witness:
  "\<exists>a' frame. udp_send 1111 2222 33 net0 = Some (True, a') \<and> sent_frames a' = [frame] \<and>
    (\<exists>b' data. process_frame (net0\<lparr>my_ip := 0xc0a80164, rxbuffer := frame @ [9, 9], rxlen := of_nat (length frame)\<rparr>) = Some b' \<and>
       calls b' = [\<lparr>c_src_ip = 0xc0a80132, c_src_port = 1111, c_dst_port = 2222, c_data = data, c_length = 33\<rparr>] \<and>
       take 33 data = replicate 33 7)"
proof -
  have "net_wf net0" "mac_known net0" by (simp_all add: net_wf_def net0_def mac_known_def)
  moreover have "txbuffer net0 = replicate 2048 7" "sent_frames net0 = []" "calls net0 = []" "my_ip net0 = 0xc0a80132" "cached_ip net0 = 0xc0a80164"
      "rx_callback net0"
    by (simp_all add: net0_def)
  ultimately show ?thesis
    using udp_roundtrip[of net0 33 "net0\<lparr>my_ip := 0xc0a80164\<rparr>" 1111 2222] by fastforce
qed

text \<open>
  Frames shorter than preamble and check sequence are not rejected before they are read: for a received
  length of 8 with a correct preamble the length of the check sequence computation underflows, and it reads
  far beyond the receive slot.
\<close>

theorem short_frame_overread:
  "process_frame (net0\<lparr>rxbuffer := preamble @ replicate 2040 0, rxlen := 8\<rparr>) = None"
  by (simp add: process_frame_def peek_def crc32_def preamble_def Let_def)

text \<open>
  C39. The length field of an ICMP echo request is not compared with the length of the frame: every request
  that claims more bytes than the receive slot holds is answered by copying past the end of the slot.
\<close>

theorem icmp_length_unchecked:
  assumes "\<not> rxlen n < 50" "rxbuffer n ! 42 = ICMP_ECHO" "28 \<le> ato16 (fld 24 2 (rxbuffer n))"
    and "length (rxbuffer n) < unat (ato16 (fld 24 2 (rxbuffer n))) + 22"
  shows "process_icmp n = None"
proof -
  let ?t = "ato16 (fld 24 2 (rxbuffer n))"
  have "unat (?t - 28) = unat ?t - 28" using assms(3) by (simp add: unat_sub_if' word_le_nat_alt)
  then have p: "peek 50 (unat (?t - 28)) (rxbuffer n) = None"
    using assms(3,4) by (simp add: peek_def word_le_nat_alt)
  have "Option.bind x (\<lambda>n. Option.bind (f n) (\<lambda>n. Option.bind None (g n))) = None" for x :: "net option" and f :: "net \<Rightarrow> net option"
      and g :: "net \<Rightarrow> bytes \<Rightarrow> net option"
    by (cases x) simp_all
  then show ?thesis
    unfolding process_icmp_def Let_def p using assms(1-3) by (simp add: not_le)
qed

definition ping_of_death :: net where
  "ping_of_death = net0\<lparr>rxbuffer := replicate 24 0 @ c16toa 2128 @ replicate 16 0 @ [8] @ replicate 2005 0, rxlen := 60\<rparr>"

theorem icmp_length_unchecked_witness: "process_icmp ping_of_death = None"
  by (rule icmp_length_unchecked) (simp_all add: ping_of_death_def fld_def nth_append)

text \<open>
  Headers carry a correct checksum.  Filling in the checksum the code computes over a block with a zero
  checksum field gives a block whose checksum verifies: the sum of all 16-bit words is zero in one's
  complement arithmetic, which the code represents as \<open>0xffff\<close>.
\<close>

theorem ip_checksum_verifies:
  assumes "even (length pre)" "length pre + length post \<le> 65534"
  shows "ip_checksum 0 (pre @ c16toa (ip_checksum 0 (pre @ c16toa 0 @ post) True) @ post) True = 0xffff"
proof -
  let ?A = "words_sum pre + words_sum post"
  let ?c = "ip_checksum 0 (pre @ c16toa 0 @ post) True"
  have "words_sum pre \<le> 65535 * (length pre div 2)" "words_sum post \<le> 65535 * (length post div 2)"
    by (rule words_sum_bound)+
  then have A: "?A \<le> 65535 * 32767" using assms(2) by linarith
  have s0: "words_sum (pre @ c16toa x @ post) = unat x + ?A" for x
    using assms(1) by (simp add: words_sum_append words_sum_c16toa)
  have c: "0 < unat ?c" "unat ?c < 65536" "(unat ?c + ?A) mod 65535 = 0"
    using ip_checksum_nat[of 0 "pre @ c16toa 0 @ post"] A s0[of 0] by (simp_all add: Let_def)
  define v where "v = unat (ip_checksum 0 (pre @ c16toa ?c @ post) True)"
  have v: "0 < v" "v < 65536" "(v + (unat ?c + ?A)) mod 65535 = 0"
    using ip_checksum_nat[of 0 "pre @ c16toa ?c @ post"] A c(2) s0[of ?c] by (simp_all add: Let_def v_def)
  then have "v mod 65535 = 0" using c(3) by (metis mod_add_right_eq add_0_right)
  then have "v = 65535" using v by (auto elim!: dvdE simp: mod_eq_0_iff_dvd)
  then show ?thesis by (simp add: v_def word_unat_eq_iff)
qed

theorem ip_checksum_verifies_witness:
  "ip_checksum 0 ([0x45, 0, 0, 0x1c] @ c16toa (ip_checksum 0 ([0x45, 0, 0, 0x1c] @ c16toa 0 @ [10, 0, 0, 1]) True) @ [10, 0, 0, 1]) True = 0xffff"
  by (rule ip_checksum_verifies) simp_all

end
