(* ===== verification/DtlsRing.thy ===== *)
theory DtlsRing
  imports BoundedQueue
begin

text \<open>
  The receive ring of \<open>boot/dtls_io.c\<close>: eight slots of whole datagrams, written by the liteeth
  callback \<open>dtls_rx_cb\<close> (in the interrupt build from inside the ethmac interrupt handler) and
  read by wolfSSL's receive callback \<open>dtls_recv_cb\<close> in the main loop.

  The state is the four file-scope variables.  Both operations return \<^const>\<open>None\<close> where the C code
  would access memory outside the buffers it was given.  The last section runs the consumer
  one memory access at a time with complete producer calls (the interrupt handler runs to
  completion) anywhere in between.
\<close>

section \<open>State and operations\<close>

definition DTLS_RX_SLOTS :: nat where [simp]: "DTLS_RX_SLOTS = 8"
definition DTLS_MAX_DGRAM :: nat where [simp]: "DTLS_MAX_DGRAM = 1536"

definition WOLFSSL_CBIO_ERR_GENERAL :: int where [simp]: "WOLFSSL_CBIO_ERR_GENERAL = -1"
definition WOLFSSL_CBIO_ERR_WANT_READ :: int where [simp]: "WOLFSSL_CBIO_ERR_WANT_READ = -2"
definition WOLFSSL_CBIO_ERR_WANT_WRITE :: int where [simp]: "WOLFSSL_CBIO_ERR_WANT_WRITE = -2"

record rx_ring =
  rx_buf :: "bytes list"
  rx_len :: "u16 list"
  rx_head :: nat
  rx_tail :: nat

text \<open>The state after \<open>dtls_io_init\<close> on zero-initialised storage.\<close>

definition rx_ring_init :: rx_ring where
  "rx_ring_init = \<lparr>rx_buf = replicate DTLS_RX_SLOTS (replicate DTLS_MAX_DGRAM 0),
     rx_len = replicate DTLS_RX_SLOTS 0, rx_head = 0, rx_tail = 0\<rparr>"

text \<open>
  The data argument of the callback is a pointer into the hardware receive slot: the model gets
  the bytes that are readable from that address on, and the length the caller claims.
\<close>

definition dtls_rx_cb ::
    "u32 \<Rightarrow> u16 \<Rightarrow> u16 \<Rightarrow> bytes \<Rightarrow> u32 \<Rightarrow> rx_ring \<Rightarrow> rx_ring option" where
  "dtls_rx_cb src_ip src_port dst_port data len r =
     (let nxt = (rx_head r + 1) mod DTLS_RX_SLOTS in
      if nxt = rx_tail r then Some r
      else
        (let n = (if of_nat DTLS_MAX_DGRAM < len then of_nat DTLS_MAX_DGRAM else len) in
         do {
           d \<leftarrow> peek 0 (unat n) data;
           slot \<leftarrow> poke 0 d (rx_buf r ! rx_head r);
           Some (r\<lparr>rx_buf := (rx_buf r)[rx_head r := slot],
                   rx_len := (rx_len r)[rx_head r := ucast n],
                   rx_head := nxt\<rparr>)
         }))"

text \<open>The number of bytes \<open>dtls_recv_cb\<close> hands out: the stored length, cut to the caller's size.\<close>

definition recv_count :: "int \<Rightarrow> rx_ring \<Rightarrow> u32" where
  "recv_count sz r =
     (let n = ucast (rx_len r ! rx_tail r) in if sz < sint n then word_of_int sz else n)"

definition dtls_recv_cb :: "bytes \<Rightarrow> int \<Rightarrow> rx_ring \<Rightarrow> (int \<times> bytes \<times> rx_ring) option" where
  "dtls_recv_cb buf sz r =
     (if rx_head r = rx_tail r then Some (WOLFSSL_CBIO_ERR_WANT_READ, buf, r)
      else
        (let n = recv_count sz r in
         do {
           d \<leftarrow> peek 0 (unat n) (rx_buf r ! rx_tail r);
           buf' \<leftarrow> poke 0 d buf;
           Some (sint n, buf', r\<lparr>rx_tail := (rx_tail r + 1) mod DTLS_RX_SLOTS\<rparr>)
         }))"

section \<open>Well-formed rings and their contents\<close>

definition slot_data :: "rx_ring \<Rightarrow> nat \<Rightarrow> bytes" where
  "slot_data r i = take (unat (rx_len r ! i)) (rx_buf r ! i)"

definition pending :: "rx_ring \<Rightarrow> bytes list" where
  "pending r = map (slot_data r) (ring_idx DTLS_RX_SLOTS (rx_tail r) (rx_head r))"

definition ring_wf :: "rx_ring \<Rightarrow> bool" where
  "ring_wf r \<longleftrightarrow>
     length (rx_buf r) = DTLS_RX_SLOTS \<and> length (rx_len r) = DTLS_RX_SLOTS \<and>
     rx_head r < DTLS_RX_SLOTS \<and> rx_tail r < DTLS_RX_SLOTS \<and>
     list_all (\<lambda>b. length b = DTLS_MAX_DGRAM) (rx_buf r) \<and>
     list_all (\<lambda>n. unat n \<le> DTLS_MAX_DGRAM) (rx_len r)"

lemma ring_wfD:
  assumes "ring_wf r"
  shows "length (rx_buf r) = 8" "length (rx_len r) = 8" "rx_head r < 8" "rx_tail r < 8"
    "i < 8 \<Longrightarrow> length (rx_buf r ! i) = 1536" "i < 8 \<Longrightarrow> unat (rx_len r ! i) \<le> 1536"
  using assms by (auto simp: ring_wf_def list_all_length)

lemma ring_wf_init: "ring_wf rx_ring_init"
  by (simp add: ring_wf_def rx_ring_init_def list_all_length)

lemma pending_init [simp]: "pending rx_ring_init = []"
  by (simp add: pending_def rx_ring_init_def)

lemma length_pending_le: "ring_wf r \<Longrightarrow> length (pending r) \<le> 7"
  using ring_wfD(3,4)[of r] by (auto simp: pending_def ring_dist)

lemma ring_full_pending:
  "ring_wf r \<Longrightarrow> (rx_head r + 1) mod 8 = rx_tail r \<longleftrightarrow> length (pending r) = 7"
  using ring_full_iff[of "rx_tail r" 8 "rx_head r"] ring_wfD(3,4)[of r]
  by (simp add: pending_def)

lemma ring_empty_pending: "ring_wf r \<Longrightarrow> rx_head r = rx_tail r \<longleftrightarrow> pending r = []"
  using ring_empty_iff[of "rx_tail r" 8 "rx_head r"] ring_wfD(3,4)[of r]
  by (simp add: pending_def)

text \<open>Storing \<open>d\<close> in the head slot and advancing the head appends \<open>d\<close> to the contents.\<close>

lemma pending_store:
  assumes wf: "ring_wf r" and room: "(rx_head r + 1) mod 8 \<noteq> rx_tail r"
    and d: "length d \<le> 1536"
    and r': "r' = r\<lparr>rx_buf := (rx_buf r)[rx_head r := d @ drop (length d) (rx_buf r ! rx_head r)],
        rx_len := (rx_len r)[rx_head r := of_nat (length d)], rx_head := (rx_head r + 1) mod 8\<rparr>"
  shows "ring_wf r'" and "pending r' = pending r @ [d]"
proof -
  note b = ring_wfD[OF wf]
  have u: "unat (of_nat (length d) :: u16) = length d"
    using d by (simp add: unat_of_nat take_bit_nat_eq_self)
  have bufs: "i < 8 \<Longrightarrow> length ((rx_buf r)[rx_head r := d @ drop (length d) (rx_buf r ! rx_head r)] ! i) = 1536"
    for i using b d by (cases "i = rx_head r") auto
  have lens: "i < 8 \<Longrightarrow> unat ((rx_len r)[rx_head r := of_nat (length d)] ! i) \<le> 1536" for i
    using b d u by (cases "i = rx_head r") auto
  show "ring_wf r'"
    using b bufs lens by (simp add: r' ring_wf_def list_all_length)
  have same: "slot_data r' i = slot_data r i" if "i \<in> set (ring_idx 8 (rx_tail r) (rx_head r))" for i
    using that ring_idx_head_notin[of "rx_tail r" 8 "rx_head r"] b
    by (cases "i = rx_head r") (auto simp: slot_data_def r')
  have new: "slot_data r' (rx_head r) = d"
    using b u by (simp add: slot_data_def r')
  have "ring_idx 8 (rx_tail r) ((rx_head r + 1) mod 8) = ring_idx 8 (rx_tail r) (rx_head r) @ [rx_head r]"
    using b room by (intro ring_idx_snoc) auto
  then show "pending r' = pending r @ [d]"
    using same new by (simp add: pending_def r')
qed

lemma pending_advance:
  assumes "ring_wf r" "rx_head r \<noteq> rx_tail r"
  shows "ring_wf (r\<lparr>rx_tail := (rx_tail r + 1) mod 8\<rparr>)"
    and "pending r = slot_data r (rx_tail r) # pending (r\<lparr>rx_tail := (rx_tail r + 1) mod 8\<rparr>)"
  using assms ring_idx_cons[of "rx_tail r" 8 "rx_head r"]
  by (auto simp: ring_wf_def pending_def slot_data_def)

text \<open>What is stored of a datagram: at most 1536 bytes of it.\<close>

definition stored_part :: "bytes \<Rightarrow> u32 \<Rightarrow> bytes" where
  "stored_part data len = take (min (unat len) DTLS_MAX_DGRAM) data"

lemma rx_cb_count:
  "unat (if of_nat DTLS_MAX_DGRAM < len then of_nat DTLS_MAX_DGRAM else len) = min (unat len) 1536"
  for len :: u32
  by (auto simp: word_less_nat_alt min_def)

lemma rx_cb_full:
  "ring_wf r \<Longrightarrow> length (pending r) = 7 \<Longrightarrow> dtls_rx_cb ip sp dp data len r = Some r"
  by (simp add: dtls_rx_cb_def ring_full_pending[symmetric])

lemma rx_cb_overread:
  assumes "ring_wf r" "length (pending r) < 7" "length data < min (unat len) 1536"
  shows "dtls_rx_cb ip sp dp data len r = None"
proof -
  have "(rx_head r + 1) mod 8 \<noteq> rx_tail r"
    using assms ring_full_pending by auto
  moreover have "peek 0 (min (unat len) 1536) data = None"
    using assms by (simp add: peek_None_iff)
  ultimately show ?thesis
    using rx_cb_count[of len] by (simp add: dtls_rx_cb_def Let_def)
qed

lemma rx_cb_store:
  assumes wf: "ring_wf r" and room: "length (pending r) < 7"
    and ok: "min (unat len) 1536 \<le> length data"
  shows "\<exists>r'. dtls_rx_cb ip sp dp data len r = Some r' \<and> ring_wf r' \<and>
      pending r' = pending r @ [stored_part data len] \<and> rx_head r' \<noteq> rx_head r \<and>
      rx_tail r' = rx_tail r"
proof -
  note b = ring_wfD[OF wf]
  define d where "d = stored_part data len"
  have ld: "length d = min (unat len) 1536" "length d \<le> 1536"
    using ok by (auto simp: d_def stored_part_def)
  have rm: "(rx_head r + 1) mod 8 \<noteq> rx_tail r"
    using room wf ring_full_pending by auto
  define r' where "r' = r\<lparr>rx_buf := (rx_buf r)[rx_head r := d @ drop (length d) (rx_buf r ! rx_head r)],
        rx_len := (rx_len r)[rx_head r := of_nat (length d)], rx_head := (rx_head r + 1) mod 8\<rparr>"
  define n :: u32 where "n = (if of_nat DTLS_MAX_DGRAM < len then of_nat DTLS_MAX_DGRAM else len)"
  have n: "unat n = length d" unfolding n_def ld rx_cb_count by simp
  then have cast: "(ucast n :: u16) = of_nat (length d)"
    by (simp add: ucast_eq_of_nat)
  have "dtls_rx_cb ip sp dp data len r = Some r'"
  proof -
    have "peek 0 (unat n) data = Some d"
      using n ld ok by (simp add: peek_def d_def stored_part_def)
    moreover have "poke 0 d (rx_buf r ! rx_head r) = Some (d @ drop (length d) (rx_buf r ! rx_head r))"
      using b ld by (simp add: poke_def)
    ultimately show ?thesis
      unfolding dtls_rx_cb_def n_def[symmetric] using rm cast by (simp add: r'_def)
  qed
  moreover have "(rx_head r + 1) mod 8 \<noteq> rx_head r"
    using b by (auto simp: mod_if)
  ultimately show ?thesis
    using pending_store[OF wf rm ld(2) r'_def] by (auto simp: d_def r'_def)
qed

lemma recv_count_cut:
  assumes "ring_wf r" "0 \<le> sz"
  shows "unat (recv_count sz r) = min (unat (rx_len r ! rx_tail r)) (nat sz)"
    and "sint (recv_count sz r) = int (unat (recv_count sz r))"
proof -
  define k where "k = unat (rx_len r ! rx_tail r)"
  have k: "k \<le> 1536" using ring_wfD(4,6)[OF assms(1)] by (simp add: k_def)
  have uk: "unat (ucast (rx_len r ! rx_tail r) :: u32) = k"
    unfolding k_def by (rule unat_ucast_up) simp
  then have sk: "sint (ucast (rx_len r ! rx_tail r) :: u32) = int k"
    using k by (simp add: sint_eq_unat)
  show 1: "unat (recv_count sz r) = min (unat (rx_len r ! rx_tail r)) (nat sz)"
  proof (cases "sz < int k")
    case True
    then have "unat (word_of_int sz :: u32) = nat sz"
      using assms(2) k by (simp add: unat_eq_nat_uint uint_word_of_int_eq take_bit_int_eq_self)
    with True show ?thesis by (simp add: recv_count_def sk uk k_def[symmetric])
  next
    case False
    then show ?thesis by (simp add: recv_count_def sk uk k_def[symmetric])
  qed
  show "sint (recv_count sz r) = int (unat (recv_count sz r))"
    using 1 k by (intro sint_eq_unat) (simp add: k_def)
qed

lemma recv_cb_empty:
  "ring_wf r \<Longrightarrow> pending r = [] \<Longrightarrow> dtls_recv_cb buf sz r = Some (WOLFSSL_CBIO_ERR_WANT_READ, buf, r)"
  by (simp add: dtls_recv_cb_def ring_empty_pending)

lemma recv_cb_next:
  assumes wf: "ring_wf r" and c: "pending r = d # ds"
    and sz: "0 \<le> sz" "min (length d) (nat sz) \<le> length buf"
  shows "\<exists>r'. dtls_recv_cb buf sz r =
           Some (int (length (take (nat sz) d)), take (nat sz) d @ drop (length (take (nat sz) d)) buf, r') \<and>
         ring_wf r' \<and> pending r' = ds \<and> rx_head r' = rx_head r \<and> rx_buf r' = rx_buf r"
proof -
  note b = ring_wfD[OF wf] and cut = recv_count_cut[OF wf sz(1)]
  have ne: "rx_head r \<noteq> rx_tail r" using ring_empty_pending[OF wf] c by auto
  note adv = pending_advance[OF wf ne]
  have d: "d = slot_data r (rx_tail r)" using adv(2) c by simp
  have ld: "length d = unat (rx_len r ! rx_tail r)" using b d by (simp add: slot_data_def)
  have "take (unat (recv_count sz r)) (rx_buf r ! rx_tail r) = take (nat sz) d"
    using b by (simp add: cut d slot_data_def min.commute)
  then have "peek 0 (unat (recv_count sz r)) (rx_buf r ! rx_tail r) = Some (take (nat sz) d)"
    using b(4) b(5)[OF b(4)] b(6)[OF b(4)] cut(1) by (simp add: peek_def min.coboundedI1)
  moreover have "poke 0 (take (nat sz) d) buf = Some (take (nat sz) d @ drop (length (take (nat sz) d)) buf)"
    using sz by (simp add: poke_def)
  moreover have "sint (recv_count sz r) = int (length (take (nat sz) d))"
    using cut ld by simp
  ultimately have "dtls_recv_cb buf sz r =
      Some (int (length (take (nat sz) d)), take (nat sz) d @ drop (length (take (nat sz) d)) buf,
            r\<lparr>rx_tail := (rx_tail r + 1) mod 8\<rparr>)"
    using ne by (simp add: dtls_recv_cb_def)
  then show ?thesis using adv c by auto
qed

section \<open>The ring as a bounded queue\<close>

text \<open>
  The producer with a datagram whose claimed length is its real length, the consumer with a buffer
  of a full slot.
\<close>

definition ring_put :: "bytes \<Rightarrow> rx_ring \<Rightarrow> rx_ring" where
  "ring_put d r = the (dtls_rx_cb 0 0 0 d (of_nat (min (length d) 1536)) r)"

definition ring_get :: "rx_ring \<Rightarrow> (bytes \<times> rx_ring) option" where
  "ring_get r =
     (case dtls_recv_cb (replicate DTLS_MAX_DGRAM 0) (int DTLS_MAX_DGRAM) r of
        Some (n, buf, r') \<Rightarrow> if n < 0 then None else Some (take (nat n) buf, r')
      | None \<Rightarrow> None)"

lemma pending_item_le: "ring_wf r \<Longrightarrow> d \<in> set (pending r) \<Longrightarrow> length d \<le> 1536"
  using ring_wfD(5,6)[of r] by (auto simp: pending_def slot_data_def dest: ring_idx_bound[rotated])

lemma ring_put_room:
  assumes "ring_wf r" "length (pending r) < 7"
  shows "ring_wf (ring_put d r) \<and> pending (ring_put d r) = pending r @ [take 1536 d]"
proof -
  have u: "unat (of_nat (min (length d) 1536) :: u32) = min (length d) 1536"
    by (simp add: unat_of_nat take_bit_nat_eq_self)
  have "stored_part d (of_nat (min (length d) 1536)) = take 1536 d"
    unfolding stored_part_def u by (simp add: min_def)
  then show ?thesis
    using rx_cb_store[OF assms, of "of_nat (min (length d) 1536)" d 0 0 0] u
    by (auto simp: ring_put_def)
qed

lemma ring_get_next:
  assumes "ring_wf r" "pending r = d # ds"
  shows "\<exists>r'. ring_get r = Some (d, r') \<and> ring_wf r' \<and> pending r' = ds"
proof -
  have "length d \<le> 1536" using pending_item_le[OF assms(1)] assms(2) by simp
  then show ?thesis
    using recv_cb_next[OF assms, of 1536 "replicate 1536 0"] by (auto simp: ring_get_def)
qed

lemma ring_get_empty: "ring_wf r \<Longrightarrow> pending r = [] \<Longrightarrow> ring_get r = None"
  by (simp add: ring_get_def recv_cb_empty)

interpretation dgram: bounded_queue ring_wf pending 7 "take 1536" ring_put ring_get
proof unfold_locales
  fix r :: rx_ring and x y :: bytes and r' ys
  assume wf: "ring_wf r"
  show "length (pending r) \<le> 7" by (rule length_pending_le[OF wf])
  { assume "length (pending r) < 7"
    then show "pending (ring_put x r) = pending r @ [take 1536 x]"
      using ring_put_room[OF wf] by simp }
  { assume "length (pending r) = 7"
    then show "ring_put x r = r" by (simp add: ring_put_def rx_cb_full[OF wf]) }
  then show "ring_wf (ring_put x r)"
    using ring_put_room[OF wf, of x] length_pending_le[OF wf] wf by (cases "length (pending r) = 7") auto
  { assume "ring_get r = Some (y, r')"
    then show "ring_wf r'"
      using ring_get_next[OF wf] ring_get_empty[OF wf] by (cases "pending r") fastforce+ }
  { assume "pending r = []"
    then show "ring_get r = None" by (rule ring_get_empty[OF wf]) }
  { assume "pending r = y # ys"
    then show "\<exists>q'. ring_get r = Some (y, q') \<and> pending q' = ys"
      using ring_get_next[OF wf] by blast }
qed

section \<open>Interrupts between the consumer's memory accesses\<close>

text \<open>
  The consumer of the interrupt build.  One step of the main loop is one memory access of
  \<open>dtls_recv_cb\<close>: the emptiness test, the read of the length, the copy of one byte, the update of
  \<open>rx_tail\<close>.  The interrupt handler can run between any two steps and stores whole datagrams.
  \<open>accepted\<close> and \<open>delivered\<close> record what the producer stored and what the consumer returned.
\<close>

datatype recv_pc = RecvIdle | RecvLen | RecvCopy nat bytes

record io_sys =
  ring :: rx_ring
  pc :: recv_pc
  accepted :: "bytes list"
  delivered :: "bytes list"

datatype io_event = RxIsr bytes | RecvStep

definition io_sys_init :: io_sys where
  "io_sys_init = \<lparr>ring = rx_ring_init, pc = RecvIdle, accepted = [], delivered = []\<rparr>"

definition rx_isr :: "bytes \<Rightarrow> io_sys \<Rightarrow> io_sys" where
  "rx_isr d s =
     (let len = of_nat (length d) in
      case dtls_rx_cb 0 0 0 d len (ring s) of
        None \<Rightarrow> s
      | Some r \<Rightarrow> s\<lparr>ring := r,
          accepted := accepted s @ (if rx_head r = rx_head (ring s) then [] else [stored_part d len])\<rparr>)"

fun recv_step :: "nat \<Rightarrow> io_sys \<Rightarrow> io_sys" where
  "recv_step sz s =
     (case pc s of
        RecvIdle \<Rightarrow> if rx_head (ring s) = rx_tail (ring s) then s else s\<lparr>pc := RecvLen\<rparr>
      | RecvLen \<Rightarrow> s\<lparr>pc := RecvCopy (unat (recv_count (int sz) (ring s))) []\<rparr>
      | RecvCopy n acc \<Rightarrow>
          if length acc < n
          then s\<lparr>pc := RecvCopy n (acc @ [rx_buf (ring s) ! rx_tail (ring s) ! length acc])\<rparr>
          else s\<lparr>ring := (ring s)\<lparr>rx_tail := (rx_tail (ring s) + 1) mod DTLS_RX_SLOTS\<rparr>,
                 pc := RecvIdle, delivered := delivered s @ [acc]\<rparr>)"

fun io_run :: "nat \<Rightarrow> io_event list \<Rightarrow> io_sys \<Rightarrow> io_sys" where
  "io_run sz [] s = s"
| "io_run sz (RxIsr d # es) s = io_run sz es (rx_isr d s)"
| "io_run sz (RecvStep # es) s = io_run sz es (recv_step sz s)"

text \<open>The producer leaves every slot but the head slot alone, and never catches up with the tail.\<close>

lemma rx_cb_frame:
  assumes "dtls_rx_cb ip sp dp data len r = Some r'"
  shows "rx_tail r' = rx_tail r"
    and "i \<noteq> rx_head r \<Longrightarrow> rx_buf r' ! i = rx_buf r ! i \<and> rx_len r' ! i = rx_len r ! i"
    and "rx_head r \<noteq> rx_tail r \<Longrightarrow> rx_head r' \<noteq> rx_tail r"
  using assms by (auto simp: dtls_rx_cb_def Let_def split: if_splits bind_splits)

lemma rx_cb_total:
  assumes "ring_wf r"
  obtains r' where "dtls_rx_cb 0 0 0 d (of_nat (length d)) r = Some r'" "ring_wf r'"
    "pending r' = pending r @
       (if rx_head r' = rx_head r then [] else [stored_part d (of_nat (length d))])"
proof (cases "length (pending r) = 7")
  case True
  then show ?thesis using that[of r] rx_cb_full[OF assms] assms by simp
next
  case False
  then have room: "length (pending r) < 7" using length_pending_le[OF assms] by simp
  have "unat (of_nat (length d) :: u32) \<le> length d"
    by (simp add: unat_of_nat)
  then have "min (unat (of_nat (length d) :: u32)) 1536 \<le> length d"
    by (simp add: min.coboundedI1)
  then show ?thesis
    using rx_cb_store[OF assms room, of "of_nat (length d)" d 0 0 0] that by auto
qed

definition copying :: "nat \<Rightarrow> io_sys \<Rightarrow> bool" where
  "copying sz s \<longleftrightarrow>
     (case pc s of
        RecvIdle \<Rightarrow> True
      | RecvLen \<Rightarrow> rx_head (ring s) \<noteq> rx_tail (ring s)
      | RecvCopy n acc \<Rightarrow>
          rx_head (ring s) \<noteq> rx_tail (ring s) \<and>
          n = min (unat (rx_len (ring s) ! rx_tail (ring s))) sz \<and> length acc \<le> n \<and>
          acc = take (length acc) (rx_buf (ring s) ! rx_tail (ring s)))"

definition io_inv :: "nat \<Rightarrow> io_sys \<Rightarrow> bool" where
  "io_inv sz s \<longleftrightarrow> ring_wf (ring s) \<and> copying sz s \<and>
     delivered s @ map (take sz) (pending (ring s)) = map (take sz) (accepted s)"

lemma io_inv_init: "io_inv sz io_sys_init"
  by (simp add: io_inv_def io_sys_init_def copying_def ring_wf_init)

lemma rx_isr_inv:
  assumes "io_inv sz s"
  shows "io_inv sz (rx_isr d s)"
proof -
  have wf: "ring_wf (ring s)" and c: "copying sz s"
    and eq: "delivered s @ map (take sz) (pending (ring s)) = map (take sz) (accepted s)"
    using assms by (auto simp: io_inv_def)
  obtain r where r: "dtls_rx_cb 0 0 0 d (of_nat (length d)) (ring s) = Some r" "ring_wf r"
    "pending r = pending (ring s) @
       (if rx_head r = rx_head (ring s) then [] else [stored_part d (of_nat (length d))])"
    using rx_cb_total[OF wf] by metis
  note fr = rx_cb_frame[OF r(1)]
  define s' where "s' = rx_isr d s"
  have s': "ring s' = r" "pc s' = pc s" "delivered s' = delivered s"
    "accepted s' = accepted s @ (if rx_head r = rx_head (ring s) then [] else [stored_part d (of_nat (length d))])"
    using r(1) by (simp_all add: s'_def rx_isr_def Let_def)
  have "copying sz s'"
    using c fr(1,3) fr(2)[of "rx_tail (ring s)"] by (auto simp: copying_def s' split: recv_pc.splits)
  moreover have "delivered s' @ map (take sz) (pending (ring s')) = map (take sz) (accepted s')"
    using eq by (simp add: s' r(3) append_assoc[symmetric] del: append_assoc)
  ultimately show ?thesis
    using r(2) by (simp add: io_inv_def s'_def[symmetric] s'(1))
qed

lemma recv_step_inv:
  assumes "io_inv sz s"
  shows "io_inv sz (recv_step sz s)"
proof -
  have wf: "ring_wf (ring s)" and c: "copying sz s"
    and eq: "delivered s @ map (take sz) (pending (ring s)) = map (take sz) (accepted s)"
    using assms by (auto simp: io_inv_def)
  note b = ring_wfD[OF wf]
  show ?thesis
  proof (cases "pc s")
    case RecvIdle
    then show ?thesis using assms by (simp add: io_inv_def copying_def)
  next
    case RecvLen
    then show ?thesis
      using assms recv_count_cut(1)[OF wf, of "int sz"] by (simp add: io_inv_def copying_def)
  next
    case (RecvCopy n acc)
    with c have ne: "rx_head (ring s) \<noteq> rx_tail (ring s)"
      and n: "n = min (unat (rx_len (ring s) ! rx_tail (ring s))) sz"
      and acc: "length acc \<le> n" "acc = take (length acc) (rx_buf (ring s) ! rx_tail (ring s))"
      by (auto simp: copying_def)
    have n1536: "n \<le> 1536" using b(6)[OF b(4)] n by simp
    show ?thesis
    proof (cases "length acc < n")
      case True
      then have "length acc < length (rx_buf (ring s) ! rx_tail (ring s))"
        using b(5)[OF b(4)] n1536 by simp
      then have "acc @ [rx_buf (ring s) ! rx_tail (ring s) ! length acc] =
          take (Suc (length acc)) (rx_buf (ring s) ! rx_tail (ring s))"
        using acc(2) by (simp add: take_Suc_conv_app_nth)
      moreover have "min (length (rx_buf (ring s) ! rx_tail (ring s))) (Suc (length acc)) = Suc (length acc)"
        using \<open>length acc < length (rx_buf (ring s) ! rx_tail (ring s))\<close> by simp
      ultimately show ?thesis
        using assms RecvCopy True ne n by (simp add: io_inv_def copying_def)
    next
      case False
      note adv = pending_advance[OF wf ne]
      have "length acc = n" using False acc(1) by simp
      then have "acc = take sz (slot_data (ring s) (rx_tail (ring s)))"
        using acc(2) n by (simp add: slot_data_def min.commute)
      then show ?thesis
        using RecvCopy False eq adv by (simp add: io_inv_def copying_def)
    qed
  qed
qed

lemma io_run_inv: "io_inv sz s \<Longrightarrow> io_inv sz (io_run sz es s)"
  by (induction sz es s rule: io_run.induct) (auto simp: rx_isr_inv recv_step_inv simp del: recv_step.simps)

text \<open>
  Progress: the main loop steps that are left until the oldest pending datagram is delivered.
  Interrupts do not change this number.
\<close>

definition recv_left :: "nat \<Rightarrow> io_sys \<Rightarrow> nat" where
  "recv_left sz s =
     (case pc s of
        RecvIdle \<Rightarrow> min (length (hd (pending (ring s)))) sz + 3
      | RecvLen \<Rightarrow> min (length (hd (pending (ring s)))) sz + 2
      | RecvCopy n acc \<Rightarrow> n - length acc + 1)"

fun main_steps :: "io_event list \<Rightarrow> nat" where
  "main_steps [] = 0"
| "main_steps (RxIsr d # es) = main_steps es"
| "main_steps (RecvStep # es) = Suc (main_steps es)"

lemma rx_isr_progress:
  assumes "io_inv sz s" "pending (ring s) \<noteq> []"
  shows "pc (rx_isr d s) = pc s" "delivered (rx_isr d s) = delivered s"
    "hd (pending (ring (rx_isr d s))) = hd (pending (ring s))" "pending (ring (rx_isr d s)) \<noteq> []"
proof -
  have wf: "ring_wf (ring s)" using assms by (simp add: io_inv_def)
  show "pc (rx_isr d s) = pc s" "delivered (rx_isr d s) = delivered s"
    by (simp_all add: rx_isr_def Let_def split: option.splits)
  show "hd (pending (ring (rx_isr d s))) = hd (pending (ring s))" "pending (ring (rx_isr d s)) \<noteq> []"
  proof -
    obtain r where "dtls_rx_cb 0 0 0 d (of_nat (length d)) (ring s) = Some r"
      "\<exists>xs. pending r = pending (ring s) @ xs"
      using rx_cb_total[OF wf, of d] by metis
    then show "hd (pending (ring (rx_isr d s))) = hd (pending (ring s))" "pending (ring (rx_isr d s)) \<noteq> []"
      using assms(2) by (auto simp: rx_isr_def Let_def)
  qed
qed

lemma io_run_isr_only: "main_steps es = 0 \<Longrightarrow> delivered (io_run sz es s) = delivered s"
proof (induction sz es s rule: io_run.induct)
  case (2 sz d es s)
  then show ?case by (simp add: rx_isr_def Let_def split: option.splits)
qed auto

lemma head_length:
  assumes "ring_wf r" "pending r \<noteq> []"
  shows "length (hd (pending r)) = unat (rx_len r ! rx_tail r)"
    and "take sz (hd (pending r)) = take (min (unat (rx_len r ! rx_tail r)) sz) (rx_buf r ! rx_tail r)"
  using pending_advance(2)[OF assms(1)] ring_empty_pending[OF assms(1)] assms(2) ring_wfD(4,5,6)[OF assms(1)]
  by (auto simp: slot_data_def min.commute)

lemma io_run_progress:
  assumes "io_inv sz s" "pending (ring s) \<noteq> []" "main_steps es = recv_left sz s"
  shows "delivered (io_run sz es s) = delivered s @ [take sz (hd (pending (ring s)))]"
  using assms
proof (induction sz es s rule: io_run.induct)
  case (1 sz s)
  then show ?case by (simp add: recv_left_def split: recv_pc.splits)
next
  case (2 sz d es s)
  note isr = rx_isr_progress[OF "2.prems"(1,2), of d]
  have "recv_left sz (rx_isr d s) = recv_left sz s"
    by (simp add: recv_left_def isr split: recv_pc.splits)
  then show ?case using "2.IH"[OF rx_isr_inv[OF "2.prems"(1)]] "2.prems" isr by simp
next
  case (3 sz es s)
  have wf: "ring_wf (ring s)" and c: "copying sz s"
    using "3.prems"(1) by (auto simp: io_inv_def)
  note inv' = recv_step_inv[OF "3.prems"(1)]
  have ne: "rx_head (ring s) \<noteq> rx_tail (ring s)"
    using ring_empty_pending[OF wf] "3.prems"(2) by auto
  note hl = head_length[OF wf "3.prems"(2)]
  show ?case
  proof (cases "\<exists>n acc. pc s = RecvCopy n acc \<and> \<not> length acc < n")
    case True
    then obtain n acc where pc: "pc s = RecvCopy n acc" "\<not> length acc < n" by blast
    then have "length acc = min (unat (rx_len (ring s) ! rx_tail (ring s))) sz"
      "acc = take (length acc) (rx_buf (ring s) ! rx_tail (ring s))"
      using c by (auto simp: copying_def)
    then have "acc = take sz (hd (pending (ring s)))"
      using hl(2)[of sz] by metis
    moreover have "main_steps es = 0" using "3.prems"(3) pc by (simp add: recv_left_def)
    ultimately show ?thesis using pc by (simp add: io_run_isr_only)
  next
    case False
    then have "ring (recv_step sz s) = ring s" "delivered (recv_step sz s) = delivered s"
      "recv_left sz s = Suc (recv_left sz (recv_step sz s))"
      using ne hl(1) recv_count_cut(1)[OF wf, of "int sz"] by (auto simp: recv_left_def split: recv_pc.splits)
    then show ?thesis using "3.IH"[OF inv'] "3.prems" by (simp del: recv_step.simps)
  qed
qed

section \<open>Properties\<close>

text \<open>
  C1. Lock freedom of the single-producer single-consumer ring.  For every interleaving of complete
  interrupt handler calls with the memory accesses of the consumer, from the initial state, the
  datagrams wolfSSL was given followed by those still in the ring are exactly the datagrams the
  producer stored, in order, each cut to the size of wolfSSL's buffer: none is torn, duplicated,
  reordered or lost after it was stored.
\<close>

theorem ring_interleaving_fifo:
  "delivered (io_run sz es io_sys_init) @ map (take sz) (pending (ring (io_run sz es io_sys_init)))
     = map (take sz) (accepted (io_run sz es io_sys_init))"
  using io_run_inv[OF io_inv_init, of sz es] by (simp add: io_inv_def)

text \<open>
  C31. Bounded delivery under interrupts.  When the consumer is about to test the ring and a datagram
  \<open>d\<close> is the oldest pending one, then after length of the copy plus three memory accesses of the main
  loop exactly that datagram has been delivered, however many interrupts come in between.
\<close>

theorem ring_bounded_delivery:
  assumes "pc (io_run sz es io_sys_init) = RecvIdle"
    and "pending (ring (io_run sz es io_sys_init)) = d # ds"
    and "main_steps es' = min (length d) sz + 3"
  shows "delivered (io_run sz es' (io_run sz es io_sys_init)) = delivered (io_run sz es io_sys_init) @ [take sz d]"
  using io_run_progress[OF io_run_inv[OF io_inv_init, of sz es], of es'] assms by (simp add: recv_left_def)

lemma first_datagram:
  "pc (io_run sz [RxIsr [1, 2]] io_sys_init) = RecvIdle \<and>
   pending (ring (io_run sz [RxIsr [1, 2]] io_sys_init)) = [[1, 2]]"
  using rx_cb_store[OF ring_wf_init, of 2 "[1, 2]" 0 0 0]
  by (auto simp: rx_isr_def io_sys_init_def Let_def stored_part_def)

theorem ring_bounded_delivery_witness:
  "main_steps [RecvStep, RecvStep, RxIsr [7], RecvStep, RecvStep, RecvStep] = 5 \<and>
   delivered (io_run 100 [RecvStep, RecvStep, RxIsr [7], RecvStep, RecvStep, RecvStep]
                (io_run 100 [RxIsr [1, 2]] io_sys_init))
     = delivered (io_run 100 [RxIsr [1, 2]] io_sys_init) @ [[1, 2]]"
  using ring_bounded_delivery[of 100 "[RxIsr [1, 2]]" "[1, 2]" "[]"
      "[RecvStep, RecvStep, RxIsr [7], RecvStep, RecvStep, RecvStep]"] first_datagram[of 100]
  by (simp del: io_run.simps)

text \<open>
  Every branch of the producer: a full ring drops the datagram and changes nothing; a claimed
  length beyond the readable bytes is an out-of-bounds read; otherwise at most 1536 bytes of the
  datagram are appended to the contents and the ring stays well formed.
\<close>

theorem dtls_rx_cb_spec:
  assumes "ring_wf r"
  shows "(length (pending r) = 7 \<longrightarrow> dtls_rx_cb ip sp dp data len r = Some r) \<and>
         (length (pending r) < 7 \<longrightarrow> length data < min (unat len) 1536 \<longrightarrow>
            dtls_rx_cb ip sp dp data len r = None) \<and>
         (length (pending r) < 7 \<longrightarrow> min (unat len) 1536 \<le> length data \<longrightarrow>
            (\<exists>r'. dtls_rx_cb ip sp dp data len r = Some r' \<and> ring_wf r' \<and>
                  pending r' = pending r @ [take (min (unat len) 1536) data]))"
proof (cases "length (pending r) = 7")
  case True
  then show ?thesis using rx_cb_full[OF assms] by simp
next
  case False
  then have room: "length (pending r) < 7" using length_pending_le[OF assms] by simp
  show ?thesis
    using False rx_cb_overread[OF assms room] rx_cb_store[OF assms room, of len data ip sp dp]
    by (auto simp: stored_part_def)
qed

theorem dtls_rx_cb_spec_witness:
  "\<exists>r'. dtls_rx_cb 0 0 0 [1, 2, 3] 3 rx_ring_init = Some r' \<and> ring_wf r' \<and> pending r' = [[1, 2, 3]]"
  using dtls_rx_cb_spec[OF ring_wf_init, of 0 0 0 "[1, 2, 3]" 3] by simp

text \<open>
  Every branch of the consumer: an empty ring gives \<open>WANT_READ\<close> and changes nothing; otherwise
  the oldest datagram, cut to the caller's size, is written to the front of the caller's buffer, its
  length is returned and exactly that datagram leaves the ring.
\<close>

theorem dtls_recv_cb_spec:
  assumes "ring_wf r" "0 \<le> sz" "nat sz \<le> length buf"
  shows "case pending r of
           [] \<Rightarrow> dtls_recv_cb buf sz r = Some (WOLFSSL_CBIO_ERR_WANT_READ, buf, r)
         | d # ds \<Rightarrow> \<exists>r'. dtls_recv_cb buf sz r =
               Some (int (min (length d) (nat sz)), take (nat sz) d @ drop (min (length d) (nat sz)) buf, r') \<and>
               ring_wf r' \<and> pending r' = ds"
proof (cases "pending r")
  case Nil
  then show ?thesis using recv_cb_empty[OF assms(1)] by simp
next
  case (Cons d ds)
  then show ?thesis
    using recv_cb_next[OF assms(1) Cons assms(2), of buf] assms(3) by (auto simp: min.coboundedI2)
qed

theorem dtls_recv_cb_spec_witness:
  "\<exists>r r'. pending r = [[1, 2, 3]] \<and> pending r' = [] \<and>
     dtls_recv_cb [9, 9] 2 r = Some (2, [1, 2], r')"
proof -
  obtain r where r: "ring_wf r" "pending r = [[1, 2, 3]]"
    using rx_cb_store[OF ring_wf_init, of 3 "[1, 2, 3]" 0 0 0] by (auto simp: stored_part_def)
  then show ?thesis using dtls_recv_cb_spec[OF r(1), of 2 "[9, 9]"] by auto
qed

end
