(* ===== verification/DtlsTimer.thy ===== *)
theory DtlsTimer
  imports Prelude
begin

text \<open>
  The monotonic clock of \<open>boot/dtls_io.c\<close> on LiteX's \<open>timer0\<close>.  The hardware counts down one per clock
  cycle while it is enabled and reloads when it reaches zero (\<open>cores/timer.py\<close>); the firmware latches
  the value and counts the wraps.  Every access to a register of the timer takes one cycle.
\<close>

section \<open>The hardware counter\<close>

record timer_hw =
  hw_load :: u32
  hw_reload :: u32
  hw_en :: bool
  hw_value :: u32
  hw_latch :: u32

definition timer_cycle :: "timer_hw \<Rightarrow> timer_hw" where
  "timer_cycle h = h\<lparr>hw_value :=
     (if hw_en h then (if hw_value h = 0 then hw_reload h else hw_value h - 1) else hw_load h)\<rparr>"

definition timer0_en_write :: "bool \<Rightarrow> timer_hw \<Rightarrow> timer_hw" where
  "timer0_en_write b h = timer_cycle (h\<lparr>hw_en := b\<rparr>)"

definition timer0_reload_write :: "u32 \<Rightarrow> timer_hw \<Rightarrow> timer_hw" where
  "timer0_reload_write v h = timer_cycle (h\<lparr>hw_reload := v\<rparr>)"

definition timer0_load_write :: "u32 \<Rightarrow> timer_hw \<Rightarrow> timer_hw" where
  "timer0_load_write v h = timer_cycle (h\<lparr>hw_load := v\<rparr>)"

definition timer0_update_value_write :: "timer_hw \<Rightarrow> timer_hw" where
  "timer0_update_value_write h = timer_cycle (h\<lparr>hw_latch := hw_value h\<rparr>)"

definition timer0_value_read :: "timer_hw \<Rightarrow> u32 \<times> timer_hw" where
  "timer0_value_read h = (hw_latch h, timer_cycle h)"

section \<open>The firmware clock\<close>

record dtls_timer =
  timer_hw_state :: timer_hw
  timer_last_val :: u32
  timer_wrap_acc :: u64

definition CONFIG_CLOCK_FREQUENCY :: u32 where [simp]: "CONFIG_CLOCK_FREQUENCY = 1000000"

definition dtls_timer_init :: "dtls_timer \<Rightarrow> dtls_timer" where
  "dtls_timer_init s =
     (let h = timer0_en_write False (timer_hw_state s);
          h = timer0_reload_write 0xFFFFFFFF h;
          h = timer0_load_write 0xFFFFFFFF h;
          h = timer0_en_write True h;
          h = timer0_update_value_write h;
          (v, h) = timer0_value_read h
      in \<lparr>timer_hw_state = h, timer_last_val = v, timer_wrap_acc = 0\<rparr>)"

definition dtls_timer_ticks :: "dtls_timer \<Rightarrow> u64 \<times> dtls_timer" where
  "dtls_timer_ticks s =
     (let h = timer0_update_value_write (timer_hw_state s);
          (v, h) = timer0_value_read h;
          acc = (if timer_last_val s < v then timer_wrap_acc s + 0x100000000 else timer_wrap_acc s)
      in (acc + ucast (0xFFFFFFFF - v), \<lparr>timer_hw_state = h, timer_last_val = v, timer_wrap_acc = acc\<rparr>))"

definition dtls_uptime_seconds :: "dtls_timer \<Rightarrow> u32 \<times> dtls_timer" where
  "dtls_uptime_seconds s =
     (let (t, s') = dtls_timer_ticks s in (ucast (t div ucast CONFIG_CLOCK_FREQUENCY), s'))"

definition dtls_uptime_millis :: "dtls_timer \<Rightarrow> u32 \<times> dtls_timer" where
  "dtls_uptime_millis s =
     (let (t, s') = dtls_timer_ticks s in (ucast (t div ucast (CONFIG_CLOCK_FREQUENCY div 1000)), s'))"

definition LowResTimer :: "dtls_timer \<Rightarrow> u32 \<times> dtls_timer" where
  "LowResTimer s = dtls_uptime_seconds s"

text \<open>The rest of the program between two polls: cycles pass.\<close>

definition timer_elapse :: "nat \<Rightarrow> dtls_timer \<Rightarrow> dtls_timer" where
  "timer_elapse n s = s\<lparr>timer_hw_state := (timer_cycle ^^ n) (timer_hw_state s)\<rparr>"

fun timer_polls :: "nat list \<Rightarrow> dtls_timer \<Rightarrow> u64 list \<times> dtls_timer" where
  "timer_polls [] s = ([], s)"
| "timer_polls (g # gs) s =
     (let (t, s') = dtls_timer_ticks (timer_elapse g s); (ts, s'') = timer_polls gs s' in (t # ts, s''))"

text \<open>
  The cycle numbers, counted from the one that enabled the counter, at which the polls latch it: each
  poll takes two cycles itself, the end of the initialisation three.
\<close>

fun latch_times :: "nat \<Rightarrow> nat list \<Rightarrow> nat list" where
  "latch_times t [] = []"
| "latch_times t (g # gs) = (t + g) # latch_times (t + g + 2) gs"

section \<open>Exactness\<close>

definition down :: "nat \<Rightarrow> u32" where
  "down t = of_nat (2 ^ 32 - 1 - t mod 2 ^ 32)"

definition running :: "nat \<Rightarrow> timer_hw \<Rightarrow> bool" where
  "running t h \<longleftrightarrow> hw_en h \<and> hw_reload h = 0xFFFFFFFF \<and> hw_value h = down t"

lemma unat_down: "unat (down t) = 2 ^ 32 - 1 - t mod 2 ^ 32"
  by (simp only: down_def unat_of_nat) (simp add: take_bit_nat_eq_self)

lemma down_less_iff: "down t < down t' \<longleftrightarrow> t' mod 2 ^ 32 < t mod 2 ^ 32"
proof -
  have "t mod 2 ^ 32 < 2 ^ 32" "t' mod 2 ^ 32 < (2 ^ 32 :: nat)" by simp_all
  then show ?thesis unfolding word_less_nat_alt unat_down by linarith
qed

lemma down_step: "(if down t = 0 then 0xFFFFFFFF else down t - 1) = down (Suc t)"
proof (cases "t mod 2 ^ 32 = 2 ^ 32 - 1")
  case True
  then have "Suc t mod 2 ^ 32 = 0" by (simp add: mod_Suc)
  with True show ?thesis by (simp add: down_def)
next
  case False
  have lt: "t mod 2 ^ 32 < 2 ^ 32" by simp
  with False have ne: "down t \<noteq> 0"
    by (simp add: unat_eq_zero[symmetric] unat_down del: unat_eq_zero)
  have s: "Suc t mod 2 ^ 32 = Suc (t mod 2 ^ 32)" using False by (simp add: mod_Suc)
  have "2 ^ 32 - 1 - t mod 2 ^ 32 = Suc (2 ^ 32 - 1 - Suc (t mod 2 ^ 32))" using False lt by linarith
  then have "down t = down (Suc t) + 1" unfolding down_def s by (metis of_nat_Suc add.commute)
  with ne show ?thesis by simp
qed

lemma running_cycle: "running t h \<Longrightarrow> running (Suc t) (timer_cycle h)"
  using down_step[of t] by (auto simp: running_def timer_cycle_def split: if_splits)

lemma running_cycles: "running t h \<Longrightarrow> running (t + n) ((timer_cycle ^^ n) h)"
  by (induction n) (auto intro: running_cycle)

lemma running_latch:
  "running t h \<Longrightarrow> running (Suc t) (timer0_update_value_write h) \<and> hw_latch (timer0_update_value_write h) = down t"
  using running_cycle[of t "h\<lparr>hw_latch := hw_value h\<rparr>"]
  by (simp add: timer0_update_value_write_def running_def timer_cycle_def)

text \<open>The clock invariant: the counter has run for \<open>t\<close> cycles and was last latched at \<open>l\<close>.\<close>

definition clock_inv :: "nat \<Rightarrow> nat \<Rightarrow> dtls_timer \<Rightarrow> bool" where
  "clock_inv l t s \<longleftrightarrow> running t (timer_hw_state s) \<and> timer_last_val s = down l \<and>
     timer_wrap_acc s = of_nat (2 ^ 32 * (l div 2 ^ 32))"

lemma clock_inv_init: "clock_inv 1 3 (dtls_timer_init s)"
proof -
  have "running 1 (timer0_en_write True (timer0_load_write 0xFFFFFFFF
      (timer0_reload_write 0xFFFFFFFF (timer0_en_write False h))))" for h
    by (simp add: running_def timer0_en_write_def timer0_load_write_def timer0_reload_write_def
        timer_cycle_def down_def)
  note latch = running_latch[OF this, of "timer_hw_state s"]
  have "running 3 (timer_cycle (timer0_update_value_write (timer0_en_write True (timer0_load_write 0xFFFFFFFF
      (timer0_reload_write 0xFFFFFFFF (timer0_en_write False (timer_hw_state s)))))))"
    using running_cycle[OF conjunct1[OF latch]] by (simp add: numeral_3_eq_3)
  then show ?thesis
    using conjunct2[OF latch] by (simp add: clock_inv_def dtls_timer_init_def timer0_value_read_def)
qed

lemma div_next:
  fixes l t n :: nat
  assumes "l \<le> t" "t < l + n"
  shows "(t mod n < l mod n \<and> t div n = l div n + 1) \<or> (l mod n \<le> t mod n \<and> t div n = l div n)"
proof -
  have n: "0 < n" using assms by simp
  have lb: "l div n \<le> t div n" using assms(1) by (rule div_le_mono)
  have "t div n \<le> (l + n) div n" using assms(2) by (intro div_le_mono) simp
  then have ub: "t div n \<le> l div n + 1" using n div_add_self2[of n l] by simp
  have l: "l = n * (l div n) + l mod n" and t: "t = n * (t div n) + t mod n" by simp_all
  show ?thesis
  proof (cases "t div n = l div n")
    case True
    then show ?thesis using l t assms(1) by (metis nat_add_left_cancel_le)
  next
    case False
    then have e: "t div n = l div n + 1" using lb ub by simp
    then have "t = n * (l div n) + n + t mod n" using t by (simp add: algebra_simps)
    then show ?thesis using l e assms(2) by linarith
  qed
qed

lemma ucast_down_complement: "(ucast (0xFFFFFFFF - down t) :: u64) = of_nat (t mod 2 ^ 32)"
proof -
  have "unat (0xFFFFFFFF - down t) = t mod 2 ^ 32"
  proof -
    have "down t \<le> 0xFFFFFFFF" by (simp add: word_le_nat_alt unat_down)
    then have "unat (0xFFFFFFFF - down t) = unat (0xFFFFFFFF :: u32) - unat (down t)"
      by (rule unat_sub)
    then show ?thesis
      unfolding unat_down using mod_less_divisor[of "2 ^ 32" t] by simp
  qed
  then show ?thesis by (simp add: ucast_eq_of_nat)
qed

lemma ticks_exact:
  assumes inv: "clock_inv l t s" and l: "l \<le> t" "t < l + 2 ^ 32"
  shows "fst (dtls_timer_ticks s) = of_nat t \<and> clock_inv t (t + 2) (snd (dtls_timer_ticks s))"
proof -
  define h where "h = timer0_update_value_write (timer_hw_state s)"
  have r: "running (Suc t) h" "hw_latch h = down t"
    using inv running_latch[of t "timer_hw_state s"] by (auto simp: clock_inv_def h_def)
  define acc where "acc = (if timer_last_val s < down t then timer_wrap_acc s + 0x100000000 else timer_wrap_acc s)"
  note div_next[OF l]
  then have acc: "acc = of_nat (2 ^ 32 * (t div 2 ^ 32))"
    using inv by (auto simp: acc_def clock_inv_def down_less_iff algebra_simps)
  have "acc + ucast (0xFFFFFFFF - down t) = (of_nat (2 ^ 32 * (t div 2 ^ 32) + t mod 2 ^ 32) :: u64)"
    unfolding acc ucast_down_complement by (simp only: of_nat_add)
  also have "2 ^ 32 * (t div 2 ^ 32) + t mod 2 ^ 32 = t" by simp
  finally have "acc + ucast (0xFFFFFFFF - down t) = of_nat t" .
  moreover have "dtls_timer_ticks s = (acc + ucast (0xFFFFFFFF - down t),
      \<lparr>timer_hw_state = timer_cycle h, timer_last_val = down t, timer_wrap_acc = acc\<rparr>)"
    by (simp add: dtls_timer_ticks_def Let_def h_def[symmetric] timer0_value_read_def r acc_def)
  ultimately show ?thesis
    using running_cycle[OF r(1)] acc by (simp add: clock_inv_def)
qed

lemma elapse_inv: "clock_inv l t s \<Longrightarrow> clock_inv l (t + g) (timer_elapse g s)"
  by (simp add: clock_inv_def timer_elapse_def running_cycles)

lemma latch_times_ne: "latch_times t (gs @ [g]) \<noteq> []"
  by (cases gs) auto

lemma polls_exact:
  assumes "clock_inv l t s" "t = l + 2" "list_all (\<lambda>g. g + 2 < 2 ^ 32) gs"
  shows "fst (timer_polls gs s) = map of_nat (latch_times t gs) \<and>
    (\<exists>l'. clock_inv l' (l' + 2) (snd (timer_polls gs s)) \<and> (\<forall>g. last (latch_times t (gs @ [g])) = l' + 2 + g))"
  using assms
proof (induction gs arbitrary: l t s)
  case (Cons g gs)
  have step: "fst (dtls_timer_ticks (timer_elapse g s)) = of_nat (t + g) \<and>
      clock_inv (t + g) (t + g + 2) (snd (dtls_timer_ticks (timer_elapse g s)))"
    using Cons.prems by (intro ticks_exact[OF elapse_inv[OF Cons.prems(1)]]) auto
  then show ?case
    using Cons.IH[of "t + g" "t + g + 2" "snd (dtls_timer_ticks (timer_elapse g s))"] Cons.prems(3)
    by (auto simp: split_beta Let_def latch_times_ne)
qed auto

text \<open>The two clocks when the counter is known.\<close>

lemma uptime_of_inv:
  assumes "clock_inv l t s" "l \<le> t" "t < l + 2 ^ 32" "t < 2 ^ 64"
  shows "fst (dtls_uptime_seconds s) = of_nat (t div 1000000)" "fst (dtls_uptime_millis s) = of_nat (t div 1000)"
    "clock_inv t (t + 2) (snd (dtls_uptime_seconds s))" "clock_inv t (t + 2) (snd (dtls_uptime_millis s))"
proof -
  have ticks: "fst (dtls_timer_ticks s) = of_nat t" "clock_inv t (t + 2) (snd (dtls_timer_ticks s))"
    using ticks_exact[OF assms(1-3)] by simp_all
  then have u: "unat (fst (dtls_timer_ticks s)) = t"
    using assms(4) by (simp add: unat_of_nat take_bit_nat_eq_self)
  have div: "(ucast (fst (dtls_timer_ticks s) div d) :: u32) = of_nat (t div unat d)" for d
    by (simp add: ucast_eq_of_nat unat_div u)
  have c: "unat (ucast (1000000 :: u32) :: u64) = 1000000" "unat (ucast (1000 :: u32) :: u64) = 1000"
    "(1000000 :: u32) div 1000 = 1000"
    by (simp_all add: unat_ucast_up word_div_def)
  show "fst (dtls_uptime_seconds s) = of_nat (t div 1000000)" "fst (dtls_uptime_millis s) = of_nat (t div 1000)"
    by (simp_all only: dtls_uptime_millis_def dtls_uptime_seconds_def split_beta Let_def fst_conv CONFIG_CLOCK_FREQUENCY_def div c)
  show "clock_inv t (t + 2) (snd (dtls_uptime_seconds s))" "clock_inv t (t + 2) (snd (dtls_uptime_millis s))"
    using ticks(2) by (simp_all add: dtls_uptime_seconds_def dtls_uptime_millis_def split_beta Let_def)
qed

section \<open>Properties\<close>

text \<open>
  C32. Exactness of the clock: after the initialisation, and as long as consecutive polls are less than
  \<open>2 ^ 32\<close> cycles apart, every poll returns the exact number of cycles since the counter was enabled
  (modulo \<open>2 ^ 64\<close>), whatever state the timer had before.
\<close>

theorem timer_ticks_exact:
  assumes "list_all (\<lambda>g. g + 2 < 2 ^ 32) gs"
  shows "fst (timer_polls gs (dtls_timer_init s)) = map of_nat (latch_times 3 gs)"
  using polls_exact[OF clock_inv_init _ assms] by simp

theorem timer_ticks_exact_witness:
  "\<forall>s. fst (timer_polls [4000000000, 4000000000] (dtls_timer_init s)) = [4000000003, 8000000005]"
  using timer_ticks_exact[of "[4000000000, 4000000000]"] by simp

text \<open>
  The second and millisecond clocks wolfSSL uses for its retransmission timeouts: as long as polls
  are less than \<open>2 ^ 32\<close> cycles apart (71 minutes at 1 MHz) and the device is up for less than
  \<open>2 ^ 64\<close> cycles they return the exact uptime, rounded down, modulo \<open>2 ^ 32\<close>.
\<close>

theorem uptime_exact:
  assumes "list_all (\<lambda>g. g + 2 < 2 ^ 32) (gs @ [g])"
    and "last (latch_times 3 (gs @ [g])) < 2 ^ 64"
  shows "fst (dtls_uptime_millis (timer_elapse g (snd (timer_polls gs (dtls_timer_init s)))))
           = of_nat (last (latch_times 3 (gs @ [g])) div 1000) \<and>
         fst (LowResTimer (timer_elapse g (snd (timer_polls gs (dtls_timer_init s)))))
           = of_nat (last (latch_times 3 (gs @ [g])) div 1000000)"
proof -
  define s' where "s' = timer_elapse g (snd (timer_polls gs (dtls_timer_init s)))"
  define T where "T = last (latch_times 3 (gs @ [g]))"
  obtain l where l: "clock_inv l (l + 2) (snd (timer_polls gs (dtls_timer_init s)))" "T = l + 2 + g"
    using polls_exact[OF clock_inv_init, of gs s] assms(1) by (auto simp: T_def)
  have "clock_inv l T s'" "l \<le> T" "T < l + 2 ^ 32" "T < 2 ^ 64"
    using elapse_inv[OF l(1), of g] assms by (auto simp: s'_def l(2) T_def[symmetric])
  then show ?thesis
    unfolding s'_def[symmetric] T_def[symmetric] using uptime_of_inv by (simp add: LowResTimer_def)
qed

theorem uptime_exact_witness:
  "\<forall>s. fst (dtls_uptime_millis (timer_elapse 4000000000 (snd (timer_polls [4000000000] (dtls_timer_init s))))) = 8000000"
  using uptime_exact[of "[4000000000]" 4000000000] by simp

end
