(* ===== verification/Irq.thy ===== *)
theory Irq
  imports Prelude
begin

text \<open>
  Interrupt dispatch, \<open>libbase/isr.c\<close> (the generic section for CPUs with an interrupt table, which the
  VexRiscv build uses): the table of handlers and the dispatch loop over the pending and enabled lines.
  A handler is a function on the state of the devices.
\<close>

section \<open>State and operations\<close>

definition CONFIG_CPU_INTERRUPTS :: nat where [simp]: "CONFIG_CPU_INTERRUPTS = 3"
definition UART_INTERRUPT :: nat where [simp]: "UART_INTERRUPT = 0"
definition ETHMAC_INTERRUPT :: nat where [simp]: "ETHMAC_INTERRUPT = 2"

record 's irq_sys =
  irq_table :: "('s \<Rightarrow> 's) option list"
  irq_mask :: u32
  irq_ie :: bool
  dev :: 's

definition irq_attach :: "nat \<Rightarrow> ('s \<Rightarrow> 's) option \<Rightarrow> 's irq_sys \<Rightarrow> int \<times> 's irq_sys" where
  "irq_attach irq h s =
     (if CONFIG_CPU_INTERRUPTS \<le> irq then (-1, s)
      else
        (let ie = irq_ie s;
             s = s\<lparr>irq_ie := False\<rparr>;
             s = s\<lparr>irq_table := (irq_table s)[irq := h]\<rparr>;
             s = s\<lparr>irq_ie := ie\<rparr>
         in (int irq, s)))"

definition irq_detach :: "nat \<Rightarrow> 's irq_sys \<Rightarrow> int \<times> 's irq_sys" where
  "irq_detach irq s = irq_attach irq None s"

text \<open>The compiler's count of trailing zero bits, for a nonzero argument.\<close>

definition builtin_ctz :: "u32 \<Rightarrow> nat" where
  "builtin_ctz x = length (takeWhile (\<lambda>i. \<not> bit x i) [0..<32])"

definition isr_dispatch :: "nat \<Rightarrow> 's irq_sys \<Rightarrow> 's irq_sys" where
  "isr_dispatch irq s =
     (case (if irq < CONFIG_CPU_INTERRUPTS then irq_table s ! irq else None) of
        Some h \<Rightarrow> s\<lparr>dev := h (dev s)\<rparr>
      | None \<Rightarrow> s\<lparr>irq_mask := irq_mask s AND NOT (push_bit irq 1)\<rparr>)"

section \<open>Clearing the lowest set bit\<close>

lemma ctz_spec:
  assumes "x \<noteq> 0"
  shows "builtin_ctz x < 32" "bit x (builtin_ctz x)" "i < builtin_ctz x \<Longrightarrow> \<not> bit x i"
proof -
  let ?P = "\<lambda>i. \<not> bit x i"
  obtain j where j: "bit x j" using assms by (auto simp: bit_eq_iff)
  then have "j < 32" using bit_imp_le_length[of x j] by simp
  then have "\<exists>i\<in>set [0..<32]. \<not> ?P i" using j by (auto simp: Bex_def)
  then have "takeWhile ?P [0..<32] \<noteq> [0..<32]" by (metis set_takeWhileD)
  then have l: "length (takeWhile ?P [0..<32]) < length [0..<32]"
    by (metis length_takeWhile_le nat_less_le takeWhile_eq_take take_all)
  then show "builtin_ctz x < 32" by (simp add: builtin_ctz_def)
  show "bit x (builtin_ctz x)"
    using nth_length_takeWhile[OF l] l by (simp add: builtin_ctz_def)
  assume i: "i < builtin_ctz x"
  then have "takeWhile ?P [0..<32] ! i = i"
    using l by (simp add: builtin_ctz_def takeWhile_nth)
  moreover have "takeWhile ?P [0..<32] ! i \<in> set (takeWhile ?P [0..<32])"
    using i by (simp add: builtin_ctz_def)
  ultimately show "\<not> bit x i" by (metis set_takeWhileD)
qed

lemma bit_clear_lowest:
  assumes "x \<noteq> 0"
  shows "bit (x AND (x - 1)) i \<longleftrightarrow> bit x i \<and> i \<noteq> builtin_ctz x"
proof -
  define k where "k = builtin_ctz x"
  have k: "k < 32" "bit x k" "\<And>i. i < k \<Longrightarrow> \<not> bit x i"
    using ctz_spec[OF assms] by (auto simp: k_def)
  define H where "H = push_bit (Suc k) (drop_bit (Suc k) x)"
  have Hb: "bit H i \<longleftrightarrow> k < i \<and> bit x i" for i
    by (auto simp: H_def bit_push_bit_iff bit_drop_bit_eq dest: bit_imp_le_length simp del: push_bit_Suc)
  have lt: "bit x i \<Longrightarrow> k \<le> i" for i using k(3) by (meson not_le)
  have "x = push_bit k 1 OR H"
    using k by (intro bit_word_eqI) (auto simp: bit_simps Hb dest: lt le_neq_implies_less)
  also have "\<dots> = push_bit k 1 + H"
    by (intro disjunctive_add_eq_or[symmetric] bit_word_eqI) (auto simp: bit_simps Hb)
  finally have "x - 1 = (push_bit k 1 - 1) + H" by simp
  also have "push_bit k 1 - 1 = (mask k :: u32)" by (simp add: mask_eq_exp_minus_1 push_bit_eq_mult)
  also have "mask k + H = mask k OR H"
    by (intro disjunctive_add_eq_or bit_word_eqI) (auto simp: bit_simps Hb)
  finally have e: "x - 1 = mask k OR H" .
  show ?thesis
    unfolding bit_and_iff e k_def[symmetric]
    using lt[of i] by (auto simp: bit_simps Hb dest: bit_imp_le_length)
qed

lemma clear_lowest_less:
  assumes "x \<noteq> 0"
  shows "card {i. bit (x AND (x - 1)) i} < card {i. bit (x :: u32) i}"
proof (rule psubset_card_mono)
  show "finite {i. bit x i}"
    by (rule finite_subset[of _ "{..<32}"]) (auto dest: bit_imp_le_length)
  show "{i. bit (x AND (x - 1)) i} \<subset> {i. bit x i}"
    using bit_clear_lowest[OF assms] ctz_spec(2)[OF assms] by auto
qed

section \<open>The dispatch loop\<close>

function isr_loop :: "u32 \<Rightarrow> 's irq_sys \<Rightarrow> 's irq_sys" where
  "isr_loop irqs s =
     (if irqs = 0 then s else isr_loop (irqs AND (irqs - 1)) (isr_dispatch (builtin_ctz irqs) s))"
  by auto
termination
  by (relation "measure (\<lambda>(irqs, s). card {i. bit irqs i})") (auto simp: clear_lowest_less)

declare isr_loop.simps [simp del]

definition isr :: "u32 \<Rightarrow> 's irq_sys \<Rightarrow> 's irq_sys" where
  "isr pending s = isr_loop (pending AND irq_mask s) s"

text \<open>The lines of a set in ascending order.\<close>

definition lines_of :: "u32 \<Rightarrow> nat list" where
  "lines_of x = filter (bit x) [0..<32]"

lemma lines_of_0 [simp]: "lines_of 0 = []"
  by (simp add: lines_of_def)

lemma lines_of_lowest:
  assumes "x \<noteq> 0"
  shows "lines_of x = builtin_ctz x # lines_of (x AND (x - 1))"
proof -
  let ?k = "builtin_ctz x"
  note k = ctz_spec[OF assms]
  have split: "[0..<32] = [0..<?k] @ ?k # [Suc ?k..<32]"
    using k(1) upt_add_eq_append[of 0 ?k "32 - ?k"] upt_conv_Cons[of ?k 32] by simp
  have lo: "filter (bit x) [0..<?k] = []" "filter (bit (x AND (x - 1))) [0..<?k] = []"
    using k(3) bit_clear_lowest[OF assms] by (auto simp: filter_empty_conv)
  have hi: "filter (bit (x AND (x - 1))) [Suc ?k..<32] = filter (bit x) [Suc ?k..<32]"
    by (rule filter_cong) (auto simp: bit_clear_lowest[OF assms])
  show ?thesis
    unfolding lines_of_def split using k(2) lo hi bit_clear_lowest[OF assms, of ?k] by simp
qed

lemma isr_loop_fold: "isr_loop irqs s = fold isr_dispatch (lines_of irqs) s"
proof (induction irqs s rule: isr_loop.induct)
  case (1 irqs s)
  then show ?case
    using isr_loop.simps[of irqs s] by (cases "irqs = 0") (simp_all add: lines_of_lowest[of irqs])
qed

section \<open>Properties\<close>

text \<open>
  The interrupt service routine terminates and serves every line that is pending and enabled at
  entry exactly once, in ascending order: an attached handler is run, a line without a handler is
  masked.
\<close>

theorem isr_serves_each_once:
  "isr pending s = fold isr_dispatch (filter (\<lambda>i. bit pending i \<and> bit (irq_mask s) i) [0..<32]) s"
proof -
  have "bit (pending AND irq_mask s) = (\<lambda>i. bit pending i \<and> bit (irq_mask s) i)"
    by (auto simp: bit_and_iff)
  then show ?thesis unfolding isr_def isr_loop_fold lines_of_def by simp
qed

end
