(* ===== verification/DtlsIo.thy ===== *)
theory DtlsIo
  imports LiteethUdp DtlsRing DtlsTimer Irq
begin

text \<open>
  The transport glue of \<open>boot/dtls_io.c\<close>: wolfSSL's send callback on the UDP stack, the initialisation, and
  the interrupt handler that moves received datagrams from the Ethernet slots to the ring.  The state puts
  together the UDP stack, the ring, the clock and the ports.  The stack's callback is \<open>dtls_rx_cb\<close>.
\<close>

record dtls_io =
  io_net :: net
  io_ring :: rx_ring
  io_timer :: dtls_timer
  g_local_port :: u16
  g_peer_port :: u16

definition dtls_send_cb :: "bytes \<Rightarrow> int \<Rightarrow> dtls_io \<Rightarrow> (int \<times> dtls_io) option" where
  "dtls_send_cb buf sz s =
     (if sz \<le> 0 then Some (WOLFSSL_CBIO_ERR_GENERAL, s)
      else if int DTLS_MAX_DGRAM < sz then Some (WOLFSSL_CBIO_ERR_GENERAL, s)
      else
        do { d \<leftarrow> peek 0 (nat sz) buf;
             n \<leftarrow> put 50 d (io_net s);
             (ok, n) \<leftarrow> udp_send (g_local_port s) (g_peer_port s) (word_of_int sz) n;
             Some (if \<not> ok then WOLFSSL_CBIO_ERR_WANT_WRITE else sz, s\<lparr>io_net := n\<rparr>) })"

definition dtls_io_init :: "u16 \<Rightarrow> u16 \<Rightarrow> dtls_io \<Rightarrow> dtls_io" where
  "dtls_io_init local_port peer_port s =
     s\<lparr>g_local_port := local_port, g_peer_port := peer_port, io_ring := (io_ring s)\<lparr>rx_head := 0, rx_tail := 0\<rparr>,
       io_timer := dtls_timer_init (io_timer s), io_net := udp_set_callback True (io_net s)\<rparr>"

text \<open>The calls the stack has made of its callback.\<close>

fun run_calls :: "udp_call list \<Rightarrow> rx_ring \<Rightarrow> rx_ring option" where
  "run_calls [] r = Some r"
| "run_calls (c # cs) r =
     do { r \<leftarrow> dtls_rx_cb (c_src_ip c) (c_src_port c) (c_dst_port c) (c_data c) (c_length c) r; run_calls cs r }"

definition io_service :: "dtls_io \<Rightarrow> dtls_io option" where
  "io_service s =
     do { n \<leftarrow> udp_service ((io_net s)\<lparr>calls := []\<rparr>);
          r \<leftarrow> run_calls (calls n) (io_ring s);
          Some (s\<lparr>io_net := n, io_ring := r\<rparr>) }"

definition ethmac_pending :: "dtls_io \<Rightarrow> bool" where
  "ethmac_pending s = (case mac_rx (io_net s) of Some _ # _ \<Rightarrow> True | _ \<Rightarrow> False)"

text \<open>The loop of the handler; every round takes a frame, so the number of frames is enough fuel.\<close>

fun isr_rounds :: "nat \<Rightarrow> dtls_io \<Rightarrow> dtls_io option" where
  "isr_rounds 0 s = Some s"
| "isr_rounds (Suc k) s = (if ethmac_pending s then do { s \<leftarrow> io_service s; isr_rounds k s } else Some s)"

definition ethmac_rx_isr :: "dtls_io \<Rightarrow> dtls_io option" where
  "ethmac_rx_isr s = isr_rounds (length (mac_rx (io_net s))) s"

text \<open>The handler is attached to its line and the line is enabled; \<open>h\<close> is the handler on the devices.\<close>

definition dtls_io_enable_irq :: "('s \<Rightarrow> 's) \<Rightarrow> 's irq_sys \<Rightarrow> 's irq_sys" where
  "dtls_io_enable_irq h s =
     (let s = snd (irq_attach ETHMAC_INTERRUPT (Some h) s)
      in s\<lparr>irq_mask := irq_mask s OR push_bit ETHMAC_INTERRUPT 1\<rparr>)"

definition dtls_io_pump :: "bool \<Rightarrow> dtls_io \<Rightarrow> dtls_io option" where
  "dtls_io_pump DTLS_RX_IRQ s = (if DTLS_RX_IRQ then Some s else io_service s)"

section \<open>Draining the receive slots\<close>

lemma put_mac_rx: "put off bs n = Some n' \<Longrightarrow> mac_rx n' = mac_rx n"
  by (auto simp: put_def bind_eq_Some_conv)

lemma send_packet_mac_rx: "send_packet n = Some n' \<Longrightarrow> mac_rx n' = mac_rx n"
  by (auto simp: send_packet_def bind_eq_Some_conv Let_def dest!: put_mac_rx)

lemma put_ip_mac_rx: "put_ip_header t p s d n = Some n' \<Longrightarrow> mac_rx n' = mac_rx n"
  by (auto simp: put_ip_header_def bind_eq_Some_conv dest!: put_mac_rx)

lemma put_icmp_mac_rx: "put_icmp t i s d n = Some n' \<Longrightarrow> mac_rx n' = mac_rx n"
  by (auto simp: put_icmp_def bind_eq_Some_conv dest!: put_mac_rx)

lemma process_frame_mac_rx: "process_frame n = Some n' \<Longrightarrow> mac_rx n' = mac_rx n"
proof -
  have arp: "process_arp n = Some n' \<Longrightarrow> mac_rx n' = mac_rx n" for n n'
    by (auto simp: process_arp_def Let_def bind_eq_Some_conv split: if_splits dest!: put_mac_rx send_packet_mac_rx)
  have icmp: "process_icmp n = Some n' \<Longrightarrow> mac_rx n' = mac_rx n" for n n'
    by (auto simp: process_icmp_def Let_def bind_eq_Some_conv split: if_splits
        dest!: put_mac_rx put_ip_mac_rx put_icmp_mac_rx send_packet_mac_rx)
  have udp: "process_udp n = Some n' \<Longrightarrow> mac_rx n' = mac_rx n" for n n'
    by (auto simp: process_udp_def Let_def split: if_splits)
  show "process_frame n = Some n' \<Longrightarrow> mac_rx n' = mac_rx n"
    by (auto simp: process_frame_def Let_def bind_eq_Some_conv split: if_splits dest!: arp icmp udp)
qed

lemma io_service_mac_rx: "io_service s = Some s' \<Longrightarrow> mac_rx (io_net s') = tl (mac_rx (io_net s))"
  by (auto simp: io_service_def udp_service_def bind_eq_Some_conv split: list.splits option.splits dest!: process_frame_mac_rx)

lemma isr_rounds_drained:
  "isr_rounds k s = Some s' \<Longrightarrow> length (mac_rx (io_net s)) \<le> k \<Longrightarrow> \<not> ethmac_pending s'"
proof (induction k arbitrary: s)
  case 0
  then show ?case by (simp add: ethmac_pending_def)
next
  case (Suc k)
  show ?case
  proof (cases "ethmac_pending s")
    case True
    then obtain t where t: "io_service s = Some t" "isr_rounds k t = Some s'" using Suc.prems(1) by (auto simp: bind_eq_Some_conv)
    then show ?thesis using Suc.IH[OF t(2)] io_service_mac_rx[OF t(1)] Suc.prems(2) by simp
  qed (use Suc.prems(1) in simp)
qed

section \<open>From callback to callback\<close>

lemma put_payload:
  assumes "net_wf n" "length d \<le> 1536"
  obtains n' where "put 50 d n = Some n'" "net_wf n'" "txbuffer n' = take 50 (txbuffer n) @ d @ drop (50 + length d) (txbuffer n)"
    "my_ip n' = my_ip n" "cached_ip n' = cached_ip n" "cached_mac n' = cached_mac n" "sent_frames n' = sent_frames n"
    "length (txbuffer n) = 2048"
proof -
  let ?m = "take 50 (txbuffer n) @ d @ drop (50 + length d) (txbuffer n)"
  have l: "length (txbuffer n) = 2048" using assms(1) by (auto simp: net_wf_def)
  have p: "put 50 d n = Some (with_tx ?m n)"
    using assms l by (simp add: put_def poke_def with_tx_def)
  have "net_wf (with_tx ?m n)"
    using assms l by (auto simp: net_wf_def with_tx_def dest!: set_update_subset_insert[THEN subsetD])
  then show thesis using that[OF p] assms(1) l by simp
qed


lemma io_service_delivers:
  assumes rx: "process_frame (n\<lparr>calls := [], mac_rx := q, rxbuffer := slot, rxlen := len\<rparr>) = Some n'"
    and call: "calls n' = [c]" "min (unat (c_length c)) 1536 \<le> length (c_data c)"
    and ring: "ring_wf (io_ring b)" "length (pending (io_ring b)) < 7"
    and n: "io_net b = n\<lparr>mac_rx := Some (slot, len) # q\<rparr>"
  shows "\<exists>b'. io_service b = Some b' \<and> ring_wf (io_ring b') \<and>
    pending (io_ring b') = pending (io_ring b) @ [stored_part (c_data c) (c_length c)]"
proof -
  obtain r' where r': "dtls_rx_cb (c_src_ip c) (c_src_port c) (c_dst_port c) (c_data c) (c_length c) (io_ring b) = Some r'"
      "ring_wf r'" "pending r' = pending (io_ring b) @ [stored_part (c_data c) (c_length c)]"
    using rx_cb_store[OF ring call(2)] by blast
  have "udp_service ((io_net b)\<lparr>calls := []\<rparr>) = Some n'" using rx by (simp add: udp_service_def n)
  then have "io_service b = Some (b\<lparr>io_net := n', io_ring := r'\<rparr>)" using call(1) r'(1) by (simp add: io_service_def)
  then show ?thesis using r' by simp
qed

lemma dtls_send_cb_sends:
  assumes a: "net_wf (io_net a)" "mac_known (io_net a)" and sz: "0 < sz" "sz \<le> 1536" "nat sz \<le> length buf"
    and b: "my_ip nb = cached_ip (io_net a)" "rx_callback nb"
  obtains a' frame where "dtls_send_cb buf sz a = Some (sz, a')" "sent_frames (io_net a') = sent_frames (io_net a) @ [frame]"
    "length frame \<le> 2048"
    "\<forall>rest. \<exists>n' data. process_frame (nb\<lparr>rxbuffer := frame @ rest, rxlen := of_nat (length frame)\<rparr>) = Some n' \<and>
       calls n' = calls nb @ [\<lparr>c_src_ip = my_ip (io_net a), c_src_port = g_local_port a, c_dst_port = g_peer_port a, c_data = data, c_length = word_of_int sz\<rparr>] \<and>
       take (nat sz) data = take (nat sz) buf \<and> length data + 50 = length (frame @ rest)"
proof -
  let ?d = "take (nat sz) buf" and ?len = "word_of_int sz :: u32"
  have d: "length ?d = nat sz" "length ?d \<le> 1536" using sz by simp_all
  have u: "unat ?len = nat sz" using sz by (simp add: unsigned_of_int take_bit_int_eq_self)
  obtain n where n: "put 50 ?d (io_net a) = Some n" "net_wf n" "txbuffer n = take 50 (txbuffer (io_net a)) @ ?d @ drop (50 + length ?d) (txbuffer (io_net a))"
    "my_ip n = my_ip (io_net a)" "cached_ip n = cached_ip (io_net a)" "cached_mac n = cached_mac (io_net a)" "sent_frames n = sent_frames (io_net a)"
    "length (txbuffer (io_net a)) = 2048"
    using put_payload[OF a(1) d(2)] by blast
  have pre: "mac_known n" "unat ?len \<le> 1990" "my_ip nb = cached_ip n" "rx_callback nb"
    using a(2) u sz b n(5) by (simp_all add: mac_known_def n(6))
  obtain n' frame where s: "udp_send (g_local_port a) (g_peer_port a) ?len n = Some (True, n')" "sent_frames n' = sent_frames n @ [frame]" "length frame \<le> 2048"
    and rx: "\<And>rest. \<exists>b' data. process_frame (nb\<lparr>rxbuffer := frame @ rest, rxlen := of_nat (length frame)\<rparr>) = Some b' \<and>
       calls b' = calls nb @ [\<lparr>c_src_ip = my_ip n, c_src_port = g_local_port a, c_dst_port = g_peer_port a, c_data = data, c_length = ?len\<rparr>] \<and>
       take (unat ?len) data = take (unat ?len) (drop 50 (txbuffer n)) \<and> length data + 50 = length (frame @ rest)"
    using udp_datagram[OF n(2) pre, of "g_local_port a" "g_peer_port a"] by blast
  have payload: "take (nat sz) (drop 50 (txbuffer n)) = ?d" using n(8) d by (simp add: n(3))
  have "peek 0 (nat sz) buf = Some ?d" using sz by (simp add: peek_def)
  then have "dtls_send_cb buf sz a = Some (sz, a\<lparr>io_net := n'\<rparr>)" using sz n(1) s(1) by (simp add: dtls_send_cb_def)
  then show thesis using that[of "a\<lparr>io_net := n'\<rparr>" frame] s(2,3) rx n(7) unfolding u payload n(4) by simp
qed

section \<open>Properties\<close>

text \<open>
  C20. Transport round trip.  A record given to the send callback leaves as one frame, and when the peer's
  Ethernet MAC has received that frame, servicing it appends exactly the record to the peer's datagram ring.
\<close>

theorem transport_roundtrip:
  assumes "net_wf (io_net a)" "mac_known (io_net a)" "0 < sz" "sz \<le> 1536" "nat sz \<le> length buf"
    and "my_ip (io_net b) = cached_ip (io_net a)" "rx_callback (io_net b)" "ring_wf (io_ring b)" "length (pending (io_ring b)) < 7"
  shows "\<exists>a' frame. dtls_send_cb buf sz a = Some (sz, a') \<and> sent_frames (io_net a') = sent_frames (io_net a) @ [frame] \<and>
    (\<forall>rest. length (frame @ rest) = 2048 \<longrightarrow>
      (\<exists>b'. io_service (b\<lparr>io_net := (io_net b)\<lparr>mac_rx := Some (frame @ rest, of_nat (length frame)) # mac_rx (io_net b)\<rparr>\<rparr>) = Some b' \<and>
        ring_wf (io_ring b') \<and> pending (io_ring b') = pending (io_ring b) @ [take (nat sz) buf]))"
proof -
  let ?nb = "(io_net b)\<lparr>calls := []\<rparr>"
  have nb: "my_ip ?nb = cached_ip (io_net a)" "rx_callback ?nb" using assms(6,7) by simp_all
  obtain a' frame where s: "dtls_send_cb buf sz a = Some (sz, a')" "sent_frames (io_net a') = sent_frames (io_net a) @ [frame]" "length frame \<le> 2048"
    and rx: "\<forall>rest. \<exists>n' data. process_frame (?nb\<lparr>rxbuffer := frame @ rest, rxlen := of_nat (length frame)\<rparr>) = Some n' \<and>
       calls n' = calls ?nb @ [\<lparr>c_src_ip = my_ip (io_net a), c_src_port = g_local_port a, c_dst_port = g_peer_port a, c_data = data, c_length = word_of_int sz\<rparr>] \<and>
       take (nat sz) data = take (nat sz) buf \<and> length data + 50 = length (frame @ rest)"
    by (rule dtls_send_cb_sends[OF assms(1-5) nb])
  have u: "unat (word_of_int sz :: u32) = nat sz" using assms(3,4) by (simp add: unsigned_of_int take_bit_int_eq_self)
  have "\<exists>b'. io_service (b\<lparr>io_net := (io_net b)\<lparr>mac_rx := Some (frame @ rest, of_nat (length frame)) # mac_rx (io_net b)\<rparr>\<rparr>) = Some b' \<and>
        ring_wf (io_ring b') \<and> pending (io_ring b') = pending (io_ring b) @ [take (nat sz) buf]"
    if l: "length (frame @ rest) = 2048" for rest
  proof -
    obtain n' data where n': "process_frame (?nb\<lparr>rxbuffer := frame @ rest, rxlen := of_nat (length frame)\<rparr>) = Some n'"
       "calls n' = [\<lparr>c_src_ip = my_ip (io_net a), c_src_port = g_local_port a, c_dst_port = g_peer_port a, c_data = data, c_length = word_of_int sz\<rparr>]"
       "take (nat sz) data = take (nat sz) buf" "length data + 50 = length (frame @ rest)"
      using rx[rule_format, of rest] by auto
    have "stored_part data (word_of_int sz) = take (nat sz) buf"
      using n'(3) assms(3,4) by (simp add: stored_part_def u min_def)
    then show ?thesis
      using io_service_delivers[where n = "io_net b" and q = "mac_rx (io_net b)" and slot = "frame @ rest" and len = "of_nat (length frame)"
          and b = "b\<lparr>io_net := (io_net b)\<lparr>mac_rx := Some (frame @ rest, of_nat (length frame)) # mac_rx (io_net b)\<rparr>\<rparr>", OF _ n'(2)] n'(1,4) l assms(8,9) u by simp
  qed
  then show ?thesis using s(1,2) by blast
qed

definition io0 :: dtls_io where
  "io0 = \<lparr>io_net = net0, io_ring = rx_ring_init,
     io_timer = \<lparr>timer_hw_state = \<lparr>hw_load = 0, hw_reload = 0, hw_en = False, hw_value = 0, hw_latch = 0\<rparr>, timer_last_val = 0, timer_wrap_acc = 0\<rparr>,
     g_local_port = 5555, g_peer_port = 4444\<rparr>"

theorem transport_roundtrip_witness:
  "\<exists>a' frame. dtls_send_cb [1, 2, 3] 3 io0 = Some (3, a') \<and> sent_frames (io_net a') = [frame] \<and>
    (\<forall>rest. length (frame @ rest) = 2048 \<longrightarrow>
      (\<exists>b'. io_service (io0\<lparr>io_net := net0\<lparr>my_ip := 0xc0a80164, mac_rx := [Some (frame @ rest, of_nat (length frame))]\<rparr>\<rparr>) = Some b' \<and>
        pending (io_ring b') = [[1, 2, 3]]))"
proof -
  have "net_wf (io_net io0)" "mac_known (io_net io0)" "ring_wf (io_ring io0)"
    by (simp_all add: io0_def net0_def net_wf_def mac_known_def ring_wf_init)
  moreover have "io_net io0 = net0" "pending (io_ring io0) = []" by (simp_all add: io0_def)
  moreover have "sent_frames net0 = []" "mac_rx net0 = []" "rx_callback net0" "cached_ip net0 = 0xc0a80164" by (simp_all add: net0_def)
  ultimately show ?thesis
    using transport_roundtrip[of io0 3 "[1, 2, 3]" "io0\<lparr>io_net := net0\<lparr>my_ip := 0xc0a80164\<rparr>\<rparr>"] by fastforce
qed

end
