(* ===== verification/LiteethArp.thy ===== *)
theory LiteethArp
  imports LiteethUdp
begin

text \<open>
  Address resolution of the UDP stack (\<open>libliteeth/udp.c\<close>): a request frame makes the host with that address
  answer, and the answer makes the requester know the address.
\<close>

section \<open>ARP frames\<close>

definition arp_packet :: "bytes \<Rightarrow> bytes \<Rightarrow> u16 \<Rightarrow> bytes \<Rightarrow> u32 \<Rightarrow> bytes \<Rightarrow> u32 \<Rightarrow> bytes" where
  "arp_packet dest src opc smac sip tmac tip = fill_eth_header dest src ETHERTYPE_ARP @ arp_frame opc smac sip tmac tip"

definition with_crc :: "bytes \<Rightarrow> bytes" where
  "with_crc m = m @ crc_bytes (crc32_loop (0 XOR 0xffffffff) (drop 8 m) XOR 0xffffffff)"

lemma length_arp_frame: "length smac = 6 \<Longrightarrow> length tmac = 6 \<Longrightarrow> length (arp_frame opc smac sip tmac tip) = 46"
  by (simp add: arp_frame_def c16toa_def c32toa_def)

lemma length_with_crc [simp]: "length (with_crc m) = length m + 4"
  by (simp add: with_crc_def crc_bytes_def)

lemma length_arp_packet:
  "length dest = 6 \<Longrightarrow> length src = 6 \<Longrightarrow> length smac = 6 \<Longrightarrow> length tmac = 6 \<Longrightarrow> length (arp_packet dest src opc smac sip tmac tip) = 68"
  by (simp add: arp_packet_def length_arp_frame)

text \<open>Sending: both parts are written into the slot and the check sequence is added.\<close>

lemma send_arp_frame:
  assumes wf: "net_wf n" and E: "length E = 22" and A: "length A = 46"
  shows "\<exists>n'. do { n \<leftarrow> put 0 E n; n \<leftarrow> put 22 A n; send_packet (n\<lparr>txlen := ARP_PACKET_LENGTH\<rparr>) } = Some n' \<and>
    sent_frames n' = sent_frames n @ [with_crc (E @ A)]"
proof -
  let ?m = "txbuffer n"
  have l: "length ?m = 2048" using wf by (auto simp: net_wf_def)
  have n: "n = with_tx ?m n" using with_tx_self[OF wf] by simp
  have 1: "put 0 E n = Some (with_tx (E @ drop 22 ?m) n)" by (subst n, subst put_with_tx) (use wf l E in simp_all)
  have 2: "put 22 A (with_tx (E @ drop 22 ?m) n) = Some (with_tx (E @ A @ drop 68 ?m) n)"
    by (subst put_with_tx) (use wf l E A in simp_all)
  let ?n = "n\<lparr>txlen := ARP_PACKET_LENGTH\<rparr>" and ?f = "E @ A @ drop 68 ?m"
  obtain crc where crc: "crc = crc32_loop (0 XOR 0xffffffff) (take (68 - 8) (drop 8 ?f)) XOR 0xffffffff"
    and s: "\<exists>n'. send_packet (with_tx ?f ?n) = Some n' \<and> sent_frames n' = sent_frames ?n @ [take 68 ?f @ crc_bytes crc]"
    by (rule send_packet_with_tx[of ?n ?f 68]) (use wf l E A in simp_all)
  have "take (68 - 8) (drop 8 ?f) = drop 8 (E @ A)" "take 68 ?f = E @ A" using E A by simp_all
  then show ?thesis using 1 2 s crc by (simp add: with_crc_def)
qed

text \<open>Reception of a frame that carries an ARP packet.\<close>

lemma process_frame_arp:
  assumes l: "length dest = 6" "length src = 6" "length A = 46"
    and m: "m = fill_eth_header dest src ETHERTYPE_ARP @ A" and slot: "rxbuffer b = with_crc m @ rest" "rxlen b = 72"
  shows "process_frame b = process_arp (b\<lparr>rxlen := 68\<rparr>)"
proof -
  define crc where "crc = crc32_loop (0 XOR 0xffffffff) (drop 8 m) XOR 0xffffffff"
  have lm: "length m = 68" using l by (simp add: m)
  have lc: "length (crc_bytes crc) = 4" by (simp add: crc_bytes_def)
  have sl: "rxbuffer b = m @ crc_bytes crc @ rest" using slot(1) by (simp add: with_crc_def crc_def)
  have f: "take 8 (rxbuffer b) = preamble" "fld 20 2 (rxbuffer b) = c16toa ETHERTYPE_ARP"
    using l by (simp_all add: sl m fill_eth_header_def fld_def preamble_def)
  have u: "unat (rxlen b - 4) = 68" "unat (rxlen b - 12) = 60" "rxlen b - 4 = 68" by (simp_all add: slot(2))
  have pk: "peek (unat (rxlen b - 4)) 4 (rxbuffer b) = Some (crc_bytes crc)" using lm lc by (simp add: u sl peek_def)
  have cc: "crc32 (drop 8 (rxbuffer b)) (rxlen b - 12) = Some crc" using lm by (simp add: crc32_def peek_def u sl crc_def)
  show ?thesis
    unfolding process_frame_def Let_def pk cc Option.bind.bind_lunit read_crc f ato_fields by (simp add: u(3))
qed

lemma arp_fields:
  assumes l: "length dest = 6" "length src = 6" "length smac = 6" "length tmac = 6"
    and slot: "rxbuffer b = with_crc (arp_packet dest src opc smac sip tmac tip) @ rest"
  shows "fld 22 2 (rxbuffer b) = c16toa ARP_HWTYPE_ETHERNET" "fld 24 2 (rxbuffer b) = c16toa ARP_PROTO_IP" "rxbuffer b ! 26 = 6" "rxbuffer b ! 27 = 4"
    "fld 28 2 (rxbuffer b) = c16toa opc" "fld 30 6 (rxbuffer b) = smac" "fld 36 4 (rxbuffer b) = c32toa sip" "fld 46 4 (rxbuffer b) = c32toa tip"
proof -
  have e: "rxbuffer b = fill_eth_header dest src ETHERTYPE_ARP @ arp_frame opc smac sip tmac tip @ (drop 68 (with_crc (arp_packet dest src opc smac sip tmac tip)) @ rest)"
    using l by (simp add: slot with_crc_def arp_packet_def length_arp_frame)
  have l4: "length (c32toa x) = 4" for x by (simp add: c32toa_def)
  note s = e arp_frame_def fld_def nth_append l l4
  show "fld 22 2 (rxbuffer b) = c16toa ARP_HWTYPE_ETHERNET" "fld 24 2 (rxbuffer b) = c16toa ARP_PROTO_IP" "rxbuffer b ! 26 = 6" "rxbuffer b ! 27 = 4"
    "fld 28 2 (rxbuffer b) = c16toa opc" "fld 30 6 (rxbuffer b) = smac" "fld 36 4 (rxbuffer b) = c32toa sip" "fld 46 4 (rxbuffer b) = c32toa tip"
    by (simp_all add: s del: ARP_HWTYPE_ETHERNET_def ARP_PROTO_IP_def)
qed

lemma arp_reply_received:
  assumes l: "length dest = 6" "length src = 6" "length smac = 6" "length tmac = 6"
    and slot: "rxbuffer b = with_crc (arp_packet dest src ARP_OPCODE_REPLY smac sip tmac tip) @ rest" "rxlen b = 72" and ip: "cached_ip b = sip"
  shows "process_frame b = Some (b\<lparr>rxlen := 68, cached_mac := smac\<rparr>)"
proof -
  note f = arp_fields[OF l slot(1)]
  have "process_frame b = process_arp (b\<lparr>rxlen := 68\<rparr>)"
    by (rule process_frame_arp[OF l(1,2) length_arp_frame[OF l(3,4)] refl, of b _ _ _ rest]) (use slot in \<open>simp_all add: arp_packet_def\<close>)
  then show ?thesis using ip by (simp add: process_arp_def f Let_def)
qed

lemma arp_request_answered:
  assumes l: "length dest = 6" "length src = 6" "length smac = 6" "length tmac = 6" and wf: "net_wf b"
    and slot: "rxbuffer b = with_crc (arp_packet dest src ARP_OPCODE_REQUEST smac sip tmac tip) @ rest" "rxlen b = 72" and ip: "my_ip b = tip"
  shows "\<exists>b'. process_frame b = Some b' \<and> sent_frames b' = sent_frames b @ [with_crc (arp_packet smac (my_mac b) ARP_OPCODE_REPLY (my_mac b) (my_ip b) smac sip)]"
proof -
  note f = arp_fields[OF l slot(1)]
  have pf: "process_frame b = process_arp (b\<lparr>rxlen := 68\<rparr>)"
    by (rule process_frame_arp[OF l(1,2) length_arp_frame[OF l(3,4)] refl, of b _ _ _ rest]) (use slot in \<open>simp_all add: arp_packet_def\<close>)
  have lm: "length (my_mac b) = 6" using wf by (simp add: net_wf_def)
  let ?b = "b\<lparr>rxlen := 68\<rparr>"
  have "put 0 x ?b = Some n \<Longrightarrow> my_mac n = my_mac b \<and> my_ip n = my_ip b" for x n by (auto simp: put_def bind_eq_Some_conv)
  then have "process_arp ?b = do { n \<leftarrow> put 0 (fill_eth_header smac (my_mac b) ETHERTYPE_ARP) ?b;
      n \<leftarrow> put 22 (arp_frame ARP_OPCODE_REPLY (my_mac b) (my_ip b) smac sip) n; send_packet (n\<lparr>txlen := ARP_PACKET_LENGTH\<rparr>) }"
    using ip by (cases "put 0 (fill_eth_header smac (my_mac b) ETHERTYPE_ARP) ?b") (simp_all add: process_arp_def f Let_def)
  then show ?thesis
    using send_arp_frame[of ?b "fill_eth_header smac (my_mac b) ETHERTYPE_ARP" "arp_frame ARP_OPCODE_REPLY (my_mac b) (my_ip b) smac sip"] l lm wf
    by (simp add: pf arp_packet_def length_arp_frame net_wf_def)
qed

lemma arp_request_sent:
  assumes wf: "net_wf n"
  shows "\<exists>n'. send_arp_request ip n = Some n' \<and>
    sent_frames n' = sent_frames n @ [with_crc (arp_packet (replicate 6 0xff) (my_mac n) ARP_OPCODE_REQUEST (my_mac n) (my_ip n) (replicate 6 0) ip)]"
proof -
  let ?E = "fill_eth_header (replicate 6 0xff) (my_mac n) ETHERTYPE_ARP"
  have lm: "length (my_mac n) = 6" using wf by (simp add: net_wf_def)
  have "put 0 x n = Some n1 \<Longrightarrow> my_mac n1 = my_mac n \<and> my_ip n1 = my_ip n" for x n1 by (auto simp: put_def bind_eq_Some_conv)
  then have "send_arp_request ip n = do { n1 \<leftarrow> put 0 ?E n;
      n1 \<leftarrow> put 22 (arp_frame ARP_OPCODE_REQUEST (my_mac n) (my_ip n) (replicate 6 0) ip) n1; send_packet (n1\<lparr>txlen := ARP_PACKET_LENGTH\<rparr>) }"
    by (cases "put 0 ?E n") (simp_all add: send_arp_request_def)
  then show ?thesis
    using send_arp_frame[OF wf, of ?E "arp_frame ARP_OPCODE_REQUEST (my_mac n) (my_ip n) (replicate 6 0) ip"] lm
    by (simp add: arp_packet_def length_arp_frame)
qed

section \<open>Waiting for the answer\<close>

definition same_host :: "net \<Rightarrow> net \<Rightarrow> bool" where
  "same_host n n' \<longleftrightarrow> my_mac n' = my_mac n \<and> my_ip n' = my_ip n \<and> cached_ip n' = cached_ip n \<and> cached_mac n' = cached_mac n \<and> mac_rx n' = mac_rx n"

lemma put_same_host: "put off bs n = Some n' \<Longrightarrow> same_host n n'"
  by (auto simp: put_def bind_eq_Some_conv same_host_def)

lemma send_packet_same_host: "send_packet n = Some n' \<Longrightarrow> same_host n n'"
  by (auto simp: send_packet_def bind_eq_Some_conv Let_def same_host_def dest!: put_same_host)

lemma send_arp_request_same_host: "send_arp_request ip n = Some n' \<Longrightarrow> same_host n n'"
  by (auto simp: send_arp_request_def bind_eq_Some_conv same_host_def dest!: put_same_host send_packet_same_host)

text \<open>The MAC has nothing for \<open>k\<close> polls and then the answer.\<close>

lemma arp_wait_answer:
  assumes "mac_rx n = replicate k None @ Some (with_crc (arp_packet dest src ARP_OPCODE_REPLY smac sip tmac tip) @ rest, 72) # q"
    "length dest = 6" "length src = 6" "length smac = 6" "length tmac = 6" "cached_ip n = sip" "list_ex (\<lambda>b. b \<noteq> 0) smac" "k < budget" "\<not> mac_known n"
  shows "\<exists>n'. arp_wait budget n = Some (True, n') \<and> cached_ip n' = sip \<and> cached_mac n' = smac"
  using assms
proof (induction k arbitrary: n budget)
  case 0
  then obtain b where b: "budget = Suc b" by (cases budget) auto
  let ?n = "n\<lparr>mac_rx := q, rxbuffer := with_crc (arp_packet dest src ARP_OPCODE_REPLY smac sip tmac tip) @ rest, rxlen := 72\<rparr>"
  have "process_frame ?n = Some (?n\<lparr>rxlen := 68, cached_mac := smac\<rparr>)"
    by (rule arp_reply_received[OF 0(2-5)]) (use 0 in simp_all)
  then have "udp_service n = Some (?n\<lparr>rxlen := 68, cached_mac := smac\<rparr>)" using 0(1) by (simp add: udp_service_def)
  then show ?case using 0(6,7) by (simp add: b mac_known_def)
next
  case (Suc k)
  then obtain b where b: "budget = Suc b" by (cases budget) auto
  let ?n = "n\<lparr>mac_rx := tl (mac_rx n)\<rparr>"
  have s: "udp_service n = Some ?n" using Suc.prems(1) by (simp add: udp_service_def)
  have "\<exists>n'. arp_wait b ?n = Some (True, n') \<and> cached_ip n' = sip \<and> cached_mac n' = smac"
    by (rule Suc.IH) (use Suc.prems b in \<open>simp_all add: mac_known_def\<close>)
  then show ?case using Suc.prems(9) s by (simp add: b mac_known_def)
qed

lemma arp_resolved:
  assumes wf: "net_wf n" and new: "cached_ip n \<noteq> ip \<or> \<not> mac_known n"
    and rx: "mac_rx n = replicate k None @ Some (with_crc (arp_packet dest src ARP_OPCODE_REPLY smac ip tmac tip) @ rest, 72) # q" "k < 100000"
    and l: "length dest = 6" "length src = 6" "length smac = 6" "length tmac = 6" "list_ex (\<lambda>b. b \<noteq> 0) smac"
  shows "\<exists>n'. udp_arp_resolve ip n = Some (True, n') \<and> cached_mac n' = smac"
proof -
  let ?n = "n\<lparr>cached_ip := ip, cached_mac := replicate 6 0\<rparr>"
  have "net_wf ?n" using wf by (simp add: net_wf_def)
  then obtain n1 where n1: "send_arp_request ip ?n = Some n1" using arp_request_sent by blast
  have h: "mac_rx n1 = mac_rx n" "cached_ip n1 = ip" "cached_mac n1 = replicate 6 0" using send_arp_request_same_host[OF n1] by (simp_all add: same_host_def)
  have nk: "\<not> mac_known n1" unfolding mac_known_def h(3) by (simp add: list_ex_iff)
  obtain n2 where n2: "arp_wait 100000 n1 = Some (True, n2)" "cached_mac n2 = smac"
    using arp_wait_answer[OF _ l(1-4) h(2) l(5) rx(2) nk, of tip rest q] rx(1) h(1) by auto
  have "(8 :: nat) = Suc 7" by simp
  then have "arp_tries 8 ip ?n = arp_tries (Suc 7) ip ?n" by (simp only:)
  also have "\<dots> = Some (True, n2)" unfolding arp_tries.simps(2) n1 Option.bind.bind_lunit n2(1) prod.case by simp
  finally show ?thesis using new n2(2) by (auto simp: udp_arp_resolve_def)
qed

section \<open>Properties\<close>

text \<open>
  C35. Address resolution round trip.  The request of \<open>a\<close> for the address of \<open>b\<close>, received by \<open>b\<close>, makes \<open>b\<close> send
  one frame; \<open>a\<close> finds the MAC address of \<open>b\<close> when that frame arrives within the first wait, whatever follows in
  the receive slots.
\<close>

theorem arp_roundtrip:
  assumes "net_wf a" "net_wf b" "cached_ip a \<noteq> my_ip b" "list_ex (\<lambda>x. x \<noteq> 0) (my_mac b)" "k < 100000"
  shows "\<exists>a' req b' rep. send_arp_request (my_ip b) a = Some a' \<and> sent_frames a' = sent_frames a @ [req] \<and>
    process_frame (b\<lparr>rxbuffer := req @ rest, rxlen := of_nat (length req)\<rparr>) = Some b' \<and> sent_frames b' = sent_frames b @ [rep] \<and>
    (\<exists>a''. udp_arp_resolve (my_ip b) (a\<lparr>mac_rx := replicate k None @ Some (rep @ rest', of_nat (length rep)) # q\<rparr>) = Some (True, a'') \<and>
      cached_mac a'' = my_mac b)"
proof -
  let ?req = "arp_packet (replicate 6 0xff) (my_mac a) ARP_OPCODE_REQUEST (my_mac a) (my_ip a) (replicate 6 0) (my_ip b)"
  let ?rep = "arp_packet (my_mac a) (my_mac b) ARP_OPCODE_REPLY (my_mac b) (my_ip b) (my_mac a) (my_ip a)"
  have l: "length (my_mac a) = 6" "length (my_mac b) = 6" using assms(1,2) by (simp_all add: net_wf_def)
  have len: "of_nat (length (with_crc ?req)) = (72 :: u32)" "of_nat (length (with_crc ?rep)) = (72 :: u32)"
    using l by (simp_all add: length_arp_packet)
  obtain a' where a': "send_arp_request (my_ip b) a = Some a'" "sent_frames a' = sent_frames a @ [with_crc ?req]"
    using arp_request_sent[OF assms(1)] by blast
  let ?b = "b\<lparr>rxbuffer := with_crc ?req @ rest, rxlen := 72\<rparr>"
  have wb: "net_wf ?b" using assms(2) by (simp add: net_wf_def)
  obtain b' where b': "process_frame ?b = Some b'" "sent_frames b' = sent_frames b @ [with_crc ?rep]"
    using arp_request_answered[OF _ l(1) l(1) _ wb, of "replicate 6 0xff" "replicate 6 0" "my_ip a" "my_ip b" rest] by auto
  let ?a = "a\<lparr>mac_rx := replicate k None @ Some (with_crc ?rep @ rest', 72) # q\<rparr>"
  have wa: "net_wf ?a" using assms(1) by (simp add: net_wf_def)
  obtain a'' where "udp_arp_resolve (my_ip b) ?a = Some (True, a'')" "cached_mac a'' = my_mac b"
    using arp_resolved[OF wa _ _ assms(5) l l(2,1) assms(4), of "my_ip b" "my_ip a" rest' q] assms(3) by auto
  then show ?thesis using a' b' len by (intro exI[of _ a'] exI[of _ "with_crc ?req"] exI[of _ b'] exI[of _ "with_crc ?rep"]) simp
qed

theorem arp_roundtrip_witness:
  "\<exists>a' req b' rep. send_arp_request 0xc0a80165 net0 = Some a' \<and> sent_frames a' = [req] \<and>
    process_frame (net0\<lparr>my_ip := 0xc0a80165, rxbuffer := req, rxlen := of_nat (length req)\<rparr>) = Some b' \<and> sent_frames b' = [rep] \<and>
    (\<exists>a''. udp_arp_resolve 0xc0a80165 (net0\<lparr>mac_rx := [None, None, Some (rep, of_nat (length rep))]\<rparr>) = Some (True, a'') \<and>
      cached_mac a'' = my_mac net0)"
proof -
  let ?b = "net0\<lparr>my_ip := 0xc0a80165\<rparr>"
  have "net_wf net0" "net_wf ?b" "cached_ip net0 \<noteq> my_ip ?b" "list_ex (\<lambda>x. x \<noteq> 0) (my_mac ?b)" "(2 :: nat) < 100000" "sent_frames net0 = []"
    by (simp_all add: net0_def net_wf_def)
  then show ?thesis using arp_roundtrip[of net0 ?b 2 "[]" "[]" "[]"] by (auto simp: numeral_2_eq_2)
qed

end
