(* ===== verification/Firmware.thy ===== *)
theory Firmware
  imports UartRing DtlsIo LiteethArp
begin

text \<open>
  The client firmware, \<open>boot/main.c\<close>: set-up of the transport, the handshake loop with its retransmission and
  overall timeouts, the exchange of one message and the end in the service loop.  The devices are the UART and
  the transport state of \<open>dtls_io.c\<close>; the functions of the wolfSSL library are parameters, the record \<open>Wolf\<close>,
  on the whole firmware state, because they call back into the transport and time passes in them.  Printing is
  the log \<open>out\<close>.  A loop that does not end has no result (\<^const>\<open>None\<close>).
\<close>

section \<open>State\<close>

record devices =
  d_uart :: uart
  d_io :: dtls_io

datatype log =
    Banner | Resolving | Resolved | IrqRxEnabled | CtxNewFailed | LoadVerifyFailed | NewFailed | KeyShareFailed | Starting
  | ConnectErr int u32 | Alive u32 u32 | HandshakeTimedOut u32 | ConnectFailed int | HandshakeComplete u32
  | Wrote int | ServerSays bytes | ReadError int | SessionDone

record 't fw =
  fw_sys :: "devices irq_sys"
  fw_tls :: 't
  rng_s :: u32
  out :: "log list"

record 't Wolf =
  wolfSSL_Init :: "'t fw \<Rightarrow> 't fw"
  wolfSSL_CTX_new :: "'t fw \<Rightarrow> bool \<times> 't fw"
  wolfSSL_CTX_load_verify_buffer :: "'t fw \<Rightarrow> int \<times> 't fw"
  wolfSSL_new :: "'t fw \<Rightarrow> bool \<times> 't fw"
  wolfSSL_dtls_set_using_nonblock :: "'t fw \<Rightarrow> 't fw"
  wolfSSL_dtls_set_mtu :: "nat \<Rightarrow> 't fw \<Rightarrow> 't fw"
  wolfSSL_UseKeyShare :: "'t fw \<Rightarrow> int \<times> 't fw"
  wolfSSL_connect :: "'t fw \<Rightarrow> int \<times> 't fw"
  wolfSSL_get_error :: "'t fw \<Rightarrow> int \<Rightarrow> int"
  wolfSSL_dtls_get_current_timeout :: "'t fw \<Rightarrow> int"
  wolfSSL_dtls_got_timeout :: "'t fw \<Rightarrow> 't fw"
  wolfSSL_write :: "bytes \<Rightarrow> 't fw \<Rightarrow> int \<times> 't fw"
  wolfSSL_read :: "nat \<Rightarrow> 't fw \<Rightarrow> int \<times> bytes \<times> 't fw"
  wolfSSL_cleanup :: "'t fw \<Rightarrow> 't fw"

definition MY_IP :: u32 where "MY_IP = 0xC0A80132"
definition SERVER_IP :: u32 where "SERVER_IP = 0xC0A80164"
definition MY_MAC :: bytes where "MY_MAC = [0x02, 0x00, 0x00, 0x00, 0x00, 0x01]"
definition CLIENT_PORT :: u16 where "CLIENT_PORT = 5555"
definition SERVER_PORT :: u16 where "SERVER_PORT = 11111"
definition HANDSHAKE_TIMEOUT_S :: u32 where "HANDSHAKE_TIMEOUT_S = 120"
definition WOLFSSL_SUCCESS :: int where "WOLFSSL_SUCCESS = 1"
definition WOLFSSL_ERROR_WANT_READ :: int where "WOLFSSL_ERROR_WANT_READ = 2"
definition WOLFSSL_ERROR_WANT_WRITE :: int where "WOLFSSL_ERROR_WANT_WRITE = 3"

abbreviation io_of :: "'t fw \<Rightarrow> dtls_io" where
  "io_of s \<equiv> d_io (dev (fw_sys s))"

abbreviation clock_of :: "'t fw \<Rightarrow> dtls_timer" where
  "clock_of s \<equiv> io_timer (io_of s)"

definition set_dev :: "devices \<Rightarrow> 't fw \<Rightarrow> 't fw" where
  "set_dev d s = s\<lparr>fw_sys := (fw_sys s)\<lparr>dev := d\<rparr>\<rparr>"

definition set_io :: "dtls_io \<Rightarrow> 't fw \<Rightarrow> 't fw" where
  "set_io io s = set_dev ((dev (fw_sys s))\<lparr>d_io := io\<rparr>) s"

definition say :: "log \<Rightarrow> 't fw \<Rightarrow> 't fw" where
  "say m s = s\<lparr>out := out s @ [m]\<rparr>"

definition ascii :: "string \<Rightarrow> bytes" where
  "ascii = map of_char"

section \<open>Entropy\<close>

text \<open>One byte of \<open>CustomRngGenerateBlock\<close>: the timer is latched and mixed into a linear congruential generator.\<close>

definition rng_byte :: "timer_hw \<times> u32 \<Rightarrow> u8 \<times> timer_hw \<times> u32" where
  "rng_byte p =
     (let h = timer0_update_value_write (fst p);
          (v, h) = timer0_value_read h;
          s = snd p XOR v;
          s = s * 1664525 + 1013904223
      in (ucast (drop_bit 24 s), h, s))"

fun rng_bytes :: "nat \<Rightarrow> timer_hw \<times> u32 \<Rightarrow> bytes \<times> timer_hw \<times> u32" where
  "rng_bytes 0 p = ([], p)"
| "rng_bytes (Suc n) p = (let (b, p) = rng_byte p; (bs, p) = rng_bytes n p in (b # bs, p))"

definition CustomRngGenerateBlock :: "u32 \<Rightarrow> 't fw \<Rightarrow> int \<times> bytes \<times> 't fw" where
  "CustomRngGenerateBlock sz s =
     (let t = clock_of s; (bs, h, r) = rng_bytes (unat sz) (timer_hw_state t, rng_s s)
      in (0, bs, (set_io ((io_of s)\<lparr>io_timer := t\<lparr>timer_hw_state := h\<rparr>\<rparr>) s)\<lparr>rng_s := r\<rparr>))"

text \<open>
  Mixing loses nothing: with the same timer readings, different generator states stay different.  All the
  entropy is in the readings; the initial state is a constant of the program.
\<close>

lemma lcg_inverse: "(x * 1664525 + 1013904223 - 1013904223) * 4276115653 = x" for x :: u32
proof -
  have "(1664525 :: u32) * 4276115653 = 1" by simp
  then show ?thesis by (simp only: add_diff_cancel mult.assoc mult_1_right)
qed

lemma rng_bytes_injective: "snd (snd (rng_bytes n (h, s))) = snd (snd (rng_bytes n (h, s'))) \<Longrightarrow> s = s'"
proof (induction n arbitrary: h s s')
  case (Suc n)
  define v h1 where "v = fst (timer0_value_read (timer0_update_value_write h))" and "h1 = snd (timer0_value_read (timer0_update_value_write h))"
  define f where "f x = (x XOR v) * 1664525 + 1013904223" for x :: u32
  have step: "snd (rng_byte (h, x)) = (h1, f x)" for x by (simp add: rng_byte_def v_def h1_def f_def split_beta Let_def)
  have "snd (snd (rng_bytes n (h1, f s))) = snd (snd (rng_bytes n (h1, f s')))"
    using Suc.prems by (simp add: split_beta Let_def step)
  then have "f s = f s'" by (rule Suc.IH)
  then have "s XOR v = s' XOR v" using lcg_inverse[of "s XOR v"] lcg_inverse[of "s' XOR v"] by (simp add: f_def)
  then show ?case by (metis bit.xor_left_self xor.commute)
qed simp

section \<open>Set-up\<close>

definition irq_setmask :: "u32 \<Rightarrow> 't fw \<Rightarrow> 't fw" where
  "irq_setmask m s = s\<lparr>fw_sys := (fw_sys s)\<lparr>irq_mask := m\<rparr>\<rparr>"

definition irq_setie :: "bool \<Rightarrow> 't fw \<Rightarrow> 't fw" where
  "irq_setie b s = s\<lparr>fw_sys := (fw_sys s)\<lparr>irq_sys.irq_ie := b\<rparr>\<rparr>"

text \<open>The handlers in the interrupt table, on the devices.\<close>

definition uart_handler :: "devices \<Rightarrow> devices" where
  "uart_handler d = d\<lparr>d_uart := uart_isr (d_uart d)\<rparr>"

definition ethmac_handler :: "devices \<Rightarrow> devices" where
  "ethmac_handler d = (case ethmac_rx_isr (d_io d) of Some io \<Rightarrow> d\<lparr>d_io := io\<rparr> | None \<Rightarrow> d)"

definition fw_uart_init :: "'t fw \<Rightarrow> 't fw" where
  "fw_uart_init s =
     (let s = set_dev ((dev (fw_sys s))\<lparr>d_uart := uart_init (d_uart (dev (fw_sys s)))\<rparr>) s;
          s = s\<lparr>fw_sys := snd (irq_attach UART_INTERRUPT (Some uart_handler) (fw_sys s))\<rparr>
      in irq_setmask (irq_mask (fw_sys s) OR push_bit UART_INTERRUPT 1) s)"

text \<open>\<open>while (udp_arp_resolve(SERVER_IP) == 0) udp_service();\<close>\<close>

partial_function (option) arp_loop :: "net \<Rightarrow> net option" where
  "arp_loop n =
     do { (ok, n) \<leftarrow> udp_arp_resolve SERVER_IP n;
          if ok then Some n else do { n \<leftarrow> udp_service n; arp_loop n } }"

definition transport_setup :: "bool \<Rightarrow> 't fw \<Rightarrow> 't fw option" where
  "transport_setup DTLS_RX_IRQ s =
     (let s = irq_setie True (irq_setmask 0 s);
          s = say Resolving (say Banner (fw_uart_init s));
          n = udp_start MY_MAC MY_IP (io_net (io_of s))
      in do { n \<leftarrow> arp_loop n;
              let s = say Resolved (set_io ((io_of s)\<lparr>io_net := n\<rparr>) s);
              let s = set_io (dtls_io_init CLIENT_PORT SERVER_PORT (io_of s)) s;
              Some (if DTLS_RX_IRQ
                    then say IrqRxEnabled (s\<lparr>fw_sys := dtls_io_enable_irq ethmac_handler (fw_sys s)\<rparr>)
                    else s) })"

text \<open>The session object; the result is the reason why it could not be made.\<close>

definition wolf_setup :: "'t Wolf \<Rightarrow> 't fw \<Rightarrow> log option \<times> 't fw" where
  "wolf_setup W s =
     (let (ok, s) = wolfSSL_CTX_new W (wolfSSL_Init W s) in
      if \<not> ok then (Some CtxNewFailed, s)
      else
        (let (r, s) = wolfSSL_CTX_load_verify_buffer W s in
         if r \<noteq> WOLFSSL_SUCCESS then (Some LoadVerifyFailed, s)
         else
           (let (ok, s) = wolfSSL_new W s in
            if \<not> ok then (Some NewFailed, s)
            else
              (let (r, s) = wolfSSL_UseKeyShare W (wolfSSL_dtls_set_mtu W 1400 (wolfSSL_dtls_set_using_nonblock W s))
               in (if r \<noteq> WOLFSSL_SUCCESS then Some KeyShareFailed else None, s)))))"

section \<open>The handshake loop\<close>

definition uptime_seconds :: "'t fw \<Rightarrow> u32 \<times> 't fw" where
  "uptime_seconds s = (let (t, c) = dtls_uptime_seconds (clock_of s) in (t, set_io ((io_of s)\<lparr>io_timer := c\<rparr>) s))"

definition uptime_millis :: "'t fw \<Rightarrow> u32 \<times> 't fw" where
  "uptime_millis s = (let (t, c) = dtls_uptime_millis (clock_of s) in (t, set_io ((io_of s)\<lparr>io_timer := c\<rparr>) s))"

definition fw_pump :: "bool \<Rightarrow> 't fw \<Rightarrow> 't fw option" where
  "fw_pump DTLS_RX_IRQ s = map_option (\<lambda>io. set_io io s) (dtls_io_pump DTLS_RX_IRQ (io_of s))"

datatype hs_end = Connected | TimedOut | Failed int

record hs =
  rtx_mark :: u32
  last_err :: int
  pumps :: u32

text \<open>One round, from the call of \<open>wolfSSL_connect\<close>.\<close>

definition report_err :: "u32 \<Rightarrow> int \<Rightarrow> hs \<Rightarrow> 't fw \<Rightarrow> hs \<times> 't fw" where
  "report_err t_start err h s =
     (if err \<noteq> last_err h
      then (let (t, s) = uptime_seconds s in (h\<lparr>last_err := err\<rparr>, say (ConnectErr err (t - t_start)) s))
      else (h, s))"

definition report_alive :: "u32 \<Rightarrow> u32 \<Rightarrow> 't fw \<Rightarrow> 't fw" where
  "report_alive t_start n s =
     (if n mod 20000 = 0 then (let (t, s) = uptime_seconds s in say (Alive n (t - t_start)) s) else s)"

definition hs_wait :: "'t Wolf \<Rightarrow> bool \<Rightarrow> u32 \<Rightarrow> hs \<Rightarrow> 't fw \<Rightarrow> ((hs_end + hs) \<times> 't fw) option" where
  "hs_wait W DTLS_RX_IRQ t_start h s =
     do { s \<leftarrow> fw_pump DTLS_RX_IRQ s;
          let h = h\<lparr>pumps := pumps h + 1\<rparr>;
          let (now, s) = uptime_seconds (report_alive t_start (pumps h) s);
          let to = wolfSSL_dtls_get_current_timeout W s;
          let (h, s) = (if 0 < to \<and> to \<le> sint (now - rtx_mark h)
                        then (h\<lparr>rtx_mark := now\<rparr>, wolfSSL_dtls_got_timeout W s) else (h, s));
          Some (if HANDSHAKE_TIMEOUT_S \<le> now - t_start then (Inl TimedOut, say (HandshakeTimedOut (now - t_start)) s)
                else (Inr h, s)) }"

definition hs_round :: "'t Wolf \<Rightarrow> bool \<Rightarrow> u32 \<Rightarrow> hs \<Rightarrow> 't fw \<Rightarrow> ((hs_end + hs) \<times> 't fw) option" where
  "hs_round W DTLS_RX_IRQ t_start h s =
     (let (ret, s) = wolfSSL_connect W s in
      if ret = WOLFSSL_SUCCESS then Some (Inl Connected, s)
      else
        (let err = wolfSSL_get_error W s ret; (h, s) = report_err t_start err h s
         in if err = WOLFSSL_ERROR_WANT_READ \<or> err = WOLFSSL_ERROR_WANT_WRITE
            then hs_wait W DTLS_RX_IRQ t_start h s
            else Some (Inl (Failed err), say (ConnectFailed err) s)))"

partial_function (option) handshake_loop ::
    "'t Wolf \<Rightarrow> bool \<Rightarrow> u32 \<Rightarrow> hs \<Rightarrow> 't fw \<Rightarrow> (hs_end \<times> 't fw) option" where
  "handshake_loop W DTLS_RX_IRQ t_start h s =
     do { (r, s) \<leftarrow> hs_round W DTLS_RX_IRQ t_start h s;
          (case r of Inl e \<Rightarrow> Some (e, s) | Inr h \<Rightarrow> handshake_loop W DTLS_RX_IRQ t_start h s) }"

section \<open>The message exchange and the end\<close>

text \<open>One round of the read loop; the result tells whether to go on.\<close>

definition read_round :: "'t Wolf \<Rightarrow> bool \<Rightarrow> u32 \<Rightarrow> 't fw \<Rightarrow> (bool \<times> 't fw) option" where
  "read_round W DTLS_RX_IRQ rd_start s =
     (let (got, data, s) = wolfSSL_read W 127 s in
      if 0 < got then Some (False, say (ServerSays (take (nat got) data)) s)
      else
        (let err = wolfSSL_get_error W s got in
         if err = WOLFSSL_ERROR_WANT_READ
         then do { s \<leftarrow> fw_pump DTLS_RX_IRQ s; let (t, s) = uptime_seconds s; Some (t - rd_start < 10, s) }
         else Some (False, say (ReadError err) s)))"

partial_function (option) read_loop :: "'t Wolf \<Rightarrow> bool \<Rightarrow> u32 \<Rightarrow> 't fw \<Rightarrow> 't fw option" where
  "read_loop W DTLS_RX_IRQ rd_start s =
     do { (more, s) \<leftarrow> read_round W DTLS_RX_IRQ rd_start s;
          if more then read_loop W DTLS_RX_IRQ rd_start s else Some s }"

definition exchange :: "'t Wolf \<Rightarrow> bool \<Rightarrow> 't fw \<Rightarrow> 't fw option" where
  "exchange W DTLS_RX_IRQ s =
     (let (n, s) = wolfSSL_write W (ascii ''Hello from RISC-V DTLS 1.3 client!'') s;
          (rd_start, s) = uptime_seconds (say (Wrote n) s)
      in map_option (say SessionDone) (read_loop W DTLS_RX_IRQ rd_start s))"

text \<open>\<open>main\<close> returns after a fatal error; otherwise it ends in the service loop.\<close>

datatype fw_end = Returned int | Serving

definition main :: "'t Wolf \<Rightarrow> bool \<Rightarrow> 't fw \<Rightarrow> (fw_end \<times> 't fw) option" where
  "main W DTLS_RX_IRQ s =
     do { s \<leftarrow> transport_setup DTLS_RX_IRQ s;
          let (fatal, s) = wolf_setup W s;
          (case fatal of
             Some m \<Rightarrow> Some (Returned (-1), say m s)
           | None \<Rightarrow>
               (let (t_start, s) = uptime_seconds (say Starting s);
                    (t_start_ms, s) = uptime_millis s
                in do { (e, s) \<leftarrow> handshake_loop W DTLS_RX_IRQ t_start \<lparr>rtx_mark = t_start, last_err = 0, pumps = 0\<rparr> s;
                        s \<leftarrow> (if e = Connected
                              then (let (t, s) = uptime_millis s
                                    in exchange W DTLS_RX_IRQ (say (HandshakeComplete (t - t_start_ms)) s))
                              else Some s);
                        Some (Serving, wolfSSL_cleanup W s) })) }"

section \<open>Time\<close>

text \<open>
  \<open>t\<close> is the number of cycles since the timer was started; the clock was read at most \<open>g\<close> cycles ago.
\<close>

definition ticking :: "nat \<Rightarrow> nat \<Rightarrow> 't fw \<Rightarrow> bool" where
  "ticking g t s \<longleftrightarrow> (\<exists>l. clock_inv l t (clock_of s) \<and> l \<le> t \<and> t \<le> l + g)"

text \<open>A call that takes at least one and at most \<open>b\<close> cycles and leaves the timer to the clock functions.\<close>

definition takes :: "nat \<Rightarrow> ('t fw \<Rightarrow> 't fw) \<Rightarrow> bool" where
  "takes b f \<longleftrightarrow> (\<forall>g t s. ticking g t s \<longrightarrow> g + b < 2 ^ 32 \<longrightarrow> (\<exists>t'. ticking (g + b) t' (f s) \<and> t < t' \<and> t' \<le> t + b))"

text \<open>No library call takes longer than \<open>2 ^ 28\<close> cycles, more than four minutes at 1 MHz.\<close>

definition call_time :: nat where "call_time = 2 ^ 28"

definition timely :: "'t Wolf \<Rightarrow> bool" where
  "timely W \<longleftrightarrow> takes call_time (wolfSSL_Init W) \<and> takes call_time (\<lambda>s. snd (wolfSSL_CTX_new W s)) \<and>
     takes call_time (\<lambda>s. snd (wolfSSL_CTX_load_verify_buffer W s)) \<and> takes call_time (\<lambda>s. snd (wolfSSL_new W s)) \<and>
     takes call_time (wolfSSL_dtls_set_using_nonblock W) \<and> (\<forall>n. takes call_time (wolfSSL_dtls_set_mtu W n)) \<and>
     takes call_time (\<lambda>s. snd (wolfSSL_UseKeyShare W s)) \<and> takes call_time (\<lambda>s. snd (wolfSSL_connect W s)) \<and>
     takes call_time (wolfSSL_dtls_got_timeout W) \<and> (\<forall>m. takes call_time (\<lambda>s. snd (wolfSSL_write W m s))) \<and>
     (\<forall>n. takes call_time (\<lambda>s. snd (snd (wolfSSL_read W n s)))) \<and> takes call_time (wolfSSL_cleanup W)"

definition pumps_always :: "bool \<Rightarrow> bool" where
  "pumps_always DTLS_RX_IRQ \<longleftrightarrow> (\<forall>io. dtls_io_pump DTLS_RX_IRQ io \<noteq> None)"

lemma takesD:
  assumes "takes b f" "ticking g t s" "g + b < 2 ^ 32"
  obtains t' where "ticking (g + b) t' (f s)" "t < t'" "t' \<le> t + b"
  using assms unfolding takes_def by metis

lemma ticking_mono: "ticking g t s \<Longrightarrow> g \<le> g' \<Longrightarrow> ticking g' t s"
  by (fastforce simp: ticking_def)

lemma ticking_say [simp]: "ticking g t (say m s) = ticking g t s"
  by (simp add: ticking_def say_def)

lemma clock_set_io [simp]: "clock_of (set_io io s) = io_timer io"
  by (simp add: set_io_def set_dev_def)

abbreviation secs :: "nat \<Rightarrow> u32" where
  "secs t \<equiv> of_nat (t div 1000000)"

lemma uptime_seconds_ticking:
  assumes "ticking g t s" "g < 2 ^ 32" "t < 2 ^ 64"
  obtains s' where "uptime_seconds s = (secs t, s')" "ticking 2 (t + 2) s'"
proof -
  obtain l where l: "clock_inv l t (clock_of s)" "l \<le> t" "t \<le> l + g" using assms(1) by (auto simp: ticking_def)
  have "t < l + 2 ^ 32" using l(3) assms(2) by linarith
  note u = uptime_of_inv(1,3)[OF l(1,2) this assms(3)]
  have "uptime_seconds s = (secs t, snd (uptime_seconds s))" using u(1) by (simp add: uptime_seconds_def split_beta Let_def)
  moreover have "ticking 2 (t + 2) (snd (uptime_seconds s))"
    unfolding ticking_def using u(2) by (intro exI[of _ t]) (simp add: uptime_seconds_def split_beta Let_def)
  ultimately show thesis by (rule that)
qed

lemma uptime_millis_ticking:
  assumes "ticking g t s" "g < 2 ^ 32" "t < 2 ^ 64"
  shows "ticking 2 (t + 2) (snd (uptime_millis s))"
proof -
  obtain l where l: "clock_inv l t (clock_of s)" "l \<le> t" "t \<le> l + g" using assms(1) by (auto simp: ticking_def)
  have "t < l + 2 ^ 32" using l(3) assms(2) by linarith
  note u = uptime_of_inv(4)[OF l(1,2) this assms(3)]
  then show ?thesis unfolding ticking_def by (intro exI[of _ t]) (simp add: uptime_millis_def split_beta Let_def)
qed

lemma secs_diff:
  assumes "t0 \<le> t" "t < t0 + 2 ^ 32"
  shows "unat (secs t - secs t0) = t div 1000000 - t0 div 1000000"
proof -
  have le: "t0 div 1000000 \<le> t div 1000000" using assms(1) by (rule div_le_mono)
  have "secs t - secs t0 = of_nat (t div 1000000 - t0 div 1000000)" using le by (simp add: of_nat_diff)
  moreover have "t div 1000000 - t0 div 1000000 < 2 ^ 32" using assms by linarith
  ultimately show ?thesis by (simp add: unsigned_of_nat take_bit_nat_eq_self)
qed

lemma pump_ticking:
  assumes "pumps_always irq" "ticking g t s"
  obtains s' where "fw_pump irq s = Some s'" "ticking g t s'"
proof -
  obtain io where io: "dtls_io_pump irq (io_of s) = Some io" using assms(1) by (auto simp: pumps_always_def)
  have "io_timer io = clock_of s"
    using io by (auto simp: dtls_io_pump_def io_service_def bind_eq_Some_conv split: if_splits)
  then show thesis using that[of "set_io io s"] io assms(2) by (simp add: fw_pump_def ticking_def)
qed

lemma report_alive_ticking:
  assumes "ticking g t s" "2 \<le> g" "g < 2 ^ 32" "t < 2 ^ 64"
  obtains t' where "ticking g t' (report_alive t0 n s)" "t \<le> t'" "t' \<le> t + 2"
proof (cases "n mod 20000 = 0")
  case True
  obtain s' where "uptime_seconds s = (secs t, s')" "ticking 2 (t + 2) s'" using uptime_seconds_ticking[OF assms(1,3,4)] by blast
  then show thesis using that[of "t + 2"] True ticking_mono[of 2 "t + 2" s' g] assms(2) by (simp add: report_alive_def)
qed (use that[of t] assms in \<open>simp add: report_alive_def\<close>)

lemma report_err_ticking:
  assumes "ticking g t s" "2 \<le> g" "g < 2 ^ 32" "t < 2 ^ 64"
  obtains t' h' s' where "report_err t0 err h s = (h', s')" "ticking g t' s'" "t \<le> t'" "t' \<le> t + 2"
proof (cases "err = last_err h")
  case False
  obtain s' where "uptime_seconds s = (secs t, s')" "ticking 2 (t + 2) s'" using uptime_seconds_ticking[OF assms(1,3,4)] by blast
  then show thesis using that[of _ _ "t + 2"] False ticking_mono[of 2 "t + 2" s' g] assms(2) by (simp add: report_err_def)
qed (use that[of h s t] assms in \<open>simp add: report_err_def\<close>)

text \<open>Waiting reads the clock, and goes on only before the time limit.\<close>

lemma hs_wait_ticking:
  assumes W: "timely W" and p: "pumps_always irq" and s: "ticking g t s" "2 \<le> g" "g + call_time < 2 ^ 32" "t + 2 < 2 ^ 64"
  obtains r s' t' where "hs_wait W irq t0 h s = Some (r, s')" "ticking (2 + call_time) t' s'" "t < t'" "t' \<le> t + 4 + call_time"
    "\<exists>tn. t \<le> tn \<and> tn \<le> t' \<and> t' \<le> tn + 2 + call_time \<and> (case r of Inl e \<Rightarrow> e = TimedOut \<and> 120 \<le> secs tn - t0 | Inr h \<Rightarrow> secs tn - t0 < 120)"
proof -
  have g: "g < 2 ^ 32" using s(3) by simp
  obtain s1 where s1: "fw_pump irq s = Some s1" "ticking g t s1" by (rule pump_ticking[OF p s(1)])
  obtain tn where s2: "ticking g tn (report_alive t0 (pumps h + 1) s1)" "t \<le> tn" "tn \<le> t + 2"
    by (rule report_alive_ticking[OF s1(2) s(2) g]) (use s(4) in auto)
  obtain s3 where s3: "uptime_seconds (report_alive t0 (pumps h + 1) s1) = (secs tn, s3)" "ticking 2 (tn + 2) s3"
    by (rule uptime_seconds_ticking[OF s2(1) g]) (use s2(3) s(4) in auto)
  define b where "b \<longleftrightarrow> 0 < wolfSSL_dtls_get_current_timeout W s3 \<and> wolfSSL_dtls_get_current_timeout W s3 \<le> sint (secs tn - rtx_mark h)"
  define s4 where "s4 = (if b then wolfSSL_dtls_got_timeout W s3 else s3)"
  define h4 where "h4 = (if b then h\<lparr>pumps := pumps h + 1, rtx_mark := secs tn\<rparr> else h\<lparr>pumps := pumps h + 1\<rparr>)"
  have "\<exists>t'. ticking (2 + call_time) t' s4 \<and> tn + 2 \<le> t' \<and> t' \<le> tn + 2 + call_time"
  proof (cases b)
    case True
    have "takes call_time (wolfSSL_dtls_got_timeout W)" using W by (simp add: timely_def)
    from takesD[OF this s3(2)] show ?thesis using True by (auto simp: s4_def call_time_def intro: less_imp_le)
  qed (use ticking_mono[OF s3(2), of "2 + call_time"] in \<open>auto simp: s4_def intro!: exI[of _ "tn + 2"]\<close>)
  then obtain t' where t': "ticking (2 + call_time) t' s4" "tn + 2 \<le> t'" "t' \<le> tn + 2 + call_time" by blast
  have run: "hs_wait W irq t0 h s = Some (if HANDSHAKE_TIMEOUT_S \<le> secs tn - t0 then (Inl TimedOut, say (HandshakeTimedOut (secs tn - t0)) s4) else (Inr h4, s4))"
    unfolding hs_wait_def s1(1) by (simp add: s3(1) s4_def h4_def b_def Let_def)
  show thesis
  proof (cases "HANDSHAKE_TIMEOUT_S \<le> secs tn - t0")
    case True
    show thesis
      by (rule that[where t' = t', OF run[unfolded if_P[OF True]]]) (use t' s2 True in \<open>auto simp: HANDSHAKE_TIMEOUT_S_def\<close>)
  next
    case False
    show thesis
      by (rule that[where t' = t', OF run[unfolded if_not_P[OF False]]]) (use t' s2 False in \<open>auto simp: HANDSHAKE_TIMEOUT_S_def\<close>)
  qed
qed

lemma hs_round_ticking:
  assumes W: "timely W" and p: "pumps_always irq" and s: "ticking (2 + call_time) t s" "t + 4 + call_time < 2 ^ 64"
  obtains r s' t' where "hs_round W irq t0 h s = Some (r, s')" "ticking (2 + 2 * call_time) t' s'" "t < t'" "t' \<le> t + 6 + 2 * call_time"
    "case r of Inl e \<Rightarrow> e = TimedOut \<longrightarrow> (\<exists>tn. t \<le> tn \<and> tn \<le> t' \<and> t' \<le> tn + 2 + call_time \<and> 120 \<le> secs tn - t0)
       | Inr h \<Rightarrow> ticking (2 + call_time) t' s' \<and> (\<exists>tn. t \<le> tn \<and> tn \<le> t' \<and> t' \<le> tn + 2 + call_time \<and> secs tn - t0 < 120)"
proof -
  obtain ret s1 where c: "wolfSSL_connect W s = (ret, s1)" by (cases "wolfSSL_connect W s")
  have "takes call_time (\<lambda>s. snd (wolfSSL_connect W s))" using W by (simp add: timely_def)
  then obtain t1 where t1: "ticking (2 + 2 * call_time) t1 s1" "t < t1" "t1 \<le> t + call_time"
    by (rule takesD[OF _ s(1)]) (use c in \<open>auto simp: call_time_def\<close>)
  show thesis
  proof (cases "ret = WOLFSSL_SUCCESS")
    case True
    then have "hs_round W irq t0 h s = Some (Inl Connected, s1)" using c by (simp add: hs_round_def)
    from that[OF this t1(1,2)] t1(3) show thesis by simp
  next
    case False
    define err where "err = wolfSSL_get_error W s1 ret"
    obtain t2 h2 s2 where s2: "report_err t0 err h s1 = (h2, s2)" "ticking (2 + 2 * call_time) t2 s2" "t1 \<le> t2" "t2 \<le> t1 + 2"
      by (rule report_err_ticking[OF t1(1)]) (use t1(3) s(2) in \<open>auto simp: call_time_def\<close>)
    show thesis
    proof (cases "err = WOLFSSL_ERROR_WANT_READ \<or> err = WOLFSSL_ERROR_WANT_WRITE")
      case True
      obtain r s3 t3 where w: "hs_wait W irq t0 h2 s2 = Some (r, s3)" "ticking (2 + call_time) t3 s3" "t2 < t3" "t3 \<le> t2 + 4 + call_time"
        and tn: "\<exists>tn. t2 \<le> tn \<and> tn \<le> t3 \<and> t3 \<le> tn + 2 + call_time \<and> (case r of Inl e \<Rightarrow> e = TimedOut \<and> 120 \<le> secs tn - t0 | Inr h \<Rightarrow> secs tn - t0 < 120)"
        by (rule hs_wait_ticking[OF W p s2(2), of t0 h2]) (use t1(3) s2(4) s(2) in \<open>auto simp: call_time_def\<close>)
      have run: "hs_round W irq t0 h s = Some (r, s3)" using c False True s2(1) w(1) by (simp add: hs_round_def err_def[symmetric])
      show thesis
      proof (rule that[OF run])
        show "ticking (2 + 2 * call_time) t3 s3" using ticking_mono[OF w(2)] by simp
        show "t < t3" "t3 \<le> t + 6 + 2 * call_time" using w t1 s2 by simp_all
        show "case r of Inl e \<Rightarrow> e = TimedOut \<longrightarrow> (\<exists>tn. t \<le> tn \<and> tn \<le> t3 \<and> t3 \<le> tn + 2 + call_time \<and> 120 \<le> secs tn - t0)
           | Inr h \<Rightarrow> ticking (2 + call_time) t3 s3 \<and> (\<exists>tn. t \<le> tn \<and> tn \<le> t3 \<and> t3 \<le> tn + 2 + call_time \<and> secs tn - t0 < 120)"
        proof -
          obtain tn where tn': "t2 \<le> tn" "tn \<le> t3" "t3 \<le> tn + 2 + call_time" "case r of Inl e \<Rightarrow> e = TimedOut \<and> 120 \<le> secs tn - t0 | Inr h \<Rightarrow> secs tn - t0 < 120"
            using tn by blast
          have "t \<le> tn" using tn'(1) t1(2) s2(3) by simp
          then show ?thesis using tn' w(2) by (cases r) (auto intro!: exI[of _ tn])
        qed
      qed
    next
      case no: False
      then have "hs_round W irq t0 h s = Some (Inl (Failed err), say (ConnectFailed err) s2)"
        using c False s2(1) by (simp add: hs_round_def err_def[symmetric])
      from that[OF this _ _ _] s2 t1 show thesis by simp
    qed
  qed
qed

text \<open>
  The loop.  \<open>T\<close> is the cycle at which \<open>t_start\<close> was read.  A round that goes on has read a time within the
  limit, so the loop cannot pass the limit by more than one round.
\<close>

lemma handshake_loop_ends:
  assumes W: "timely W" and p: "pumps_always irq" and T: "T < 2 ^ 63"
  shows "ticking (2 + call_time) t s \<Longrightarrow> T \<le> t \<Longrightarrow> t \<le> T + 122000002 + call_time \<Longrightarrow>
    \<exists>e s' t'. handshake_loop W irq (secs T) h s = Some (e, s') \<and> ticking (2 + 2 * call_time) t' s' \<and> T < t' \<and> t' \<le> T + 122000008 + 3 * call_time \<and>
      (e = TimedOut \<longrightarrow> T div 1000000 + 120 \<le> t' div 1000000)"
proof (induction "T + 122000002 + call_time - t" arbitrary: t s h rule: less_induct)
  case less
  obtain r s1 t1 where r: "hs_round W irq (secs T) h s = Some (r, s1)" "ticking (2 + 2 * call_time) t1 s1" "t < t1" "t1 \<le> t + 6 + 2 * call_time"
    and c: "case r of Inl e \<Rightarrow> e = TimedOut \<longrightarrow> (\<exists>tn. t \<le> tn \<and> tn \<le> t1 \<and> t1 \<le> tn + 2 + call_time \<and> 120 \<le> secs tn - secs T)
       | Inr h \<Rightarrow> ticking (2 + call_time) t1 s1 \<and> (\<exists>tn. t \<le> tn \<and> tn \<le> t1 \<and> t1 \<le> tn + 2 + call_time \<and> secs tn - secs T < 120)"
    by (rule hs_round_ticking[OF W p less.prems(1)]) (use less.prems T in \<open>auto simp: call_time_def\<close>)
  have diff: "unat (secs tn - secs T) = tn div 1000000 - T div 1000000" if "t \<le> tn" "tn \<le> t1" for tn
    by (rule secs_diff) (use that r(4) less.prems in \<open>auto simp: call_time_def\<close>)
  show ?case
  proof (cases r)
    case (Inl e)
    have run: "handshake_loop W irq (secs T) h s = Some (e, s1)" by (subst handshake_loop.simps) (simp add: r(1) Inl)
    have "T div 1000000 + 120 \<le> t1 div 1000000" if "e = TimedOut"
    proof -
      obtain tn where tn: "t \<le> tn" "tn \<le> t1" "120 \<le> secs tn - secs T" using c Inl \<open>e = TimedOut\<close> by auto
      have "120 \<le> tn div 1000000 - T div 1000000" using tn(3) diff[OF tn(1,2)] by (simp add: word_le_nat_alt)
      then show ?thesis using div_le_mono[OF tn(2), of 1000000] by simp
    qed
    then show ?thesis using run r less.prems by auto
  next
    case (Inr h1)
    obtain tn where tn: "t \<le> tn" "tn \<le> t1" "t1 \<le> tn + 2 + call_time" "secs tn - secs T < 120" and tick: "ticking (2 + call_time) t1 s1"
      using c Inr by auto
    have "tn div 1000000 - T div 1000000 < 120" using tn(4) diff[OF tn(1,2)] by (simp add: word_less_nat_alt)
    then have "tn < T + 122000000" by linarith
    then have t1: "t1 \<le> T + 122000002 + call_time" using tn(3) by (simp add: call_time_def)
    have "handshake_loop W irq (secs T) h s = handshake_loop W irq (secs T) h1 s1" by (subst handshake_loop.simps) (simp add: r(1) Inr)
    then show ?thesis using less.hyps[OF _ tick _ t1, of h1] r(3) t1 less.prems(2) by simp
  qed
qed

lemma read_round_ticking:
  assumes W: "timely W" and p: "pumps_always irq" and s: "ticking 2 t s" "t + call_time < 2 ^ 64"
  obtains more s' t' where "read_round W irq rd s = Some (more, s')" "ticking (2 + call_time) t' s'" "t < t'" "t' \<le> t + 2 + call_time"
    "more \<Longrightarrow> ticking 2 t' s' \<and> secs (t' - 2) - rd < 10 \<and> t < t' - 2"
proof -
  obtain got data s1 where c: "wolfSSL_read W 127 s = (got, data, s1)" by (cases "wolfSSL_read W 127 s")
  have "takes call_time (\<lambda>s. snd (snd (wolfSSL_read W 127 s)))" using W by (simp add: timely_def)
  then obtain t1 where t1: "ticking (2 + call_time) t1 s1" "t < t1" "t1 \<le> t + call_time"
    by (rule takesD[OF _ s(1)]) (use c in \<open>auto simp: call_time_def\<close>)
  have "(\<exists>m. read_round W irq rd s = Some (False, say m s1)) \<or>
    read_round W irq rd s = do { s \<leftarrow> fw_pump irq s1; let (t, s) = uptime_seconds s; Some (t - rd < 10, s) }"
    using c by (cases "0 < got"; cases "wolfSSL_get_error W s1 got = WOLFSSL_ERROR_WANT_READ") (auto simp: read_round_def)
  then consider m where "read_round W irq rd s = Some (False, say m s1)"
    | "read_round W irq rd s = do { s \<leftarrow> fw_pump irq s1; let (t, s) = uptime_seconds s; Some (t - rd < 10, s) }" by blast
  then show thesis
  proof cases
    case 1
    from that[OF 1, of t1] t1 show thesis by simp
  next
    case 2
    obtain s2 where s2: "fw_pump irq s1 = Some s2" "ticking (2 + call_time) t1 s2" by (rule pump_ticking[OF p t1(1)])
    obtain s3 where s3: "uptime_seconds s2 = (secs t1, s3)" "ticking 2 (t1 + 2) s3"
      by (rule uptime_seconds_ticking[OF s2(2)]) (use t1(3) s(2) in \<open>auto simp: call_time_def\<close>)
    have "read_round W irq rd s = Some (secs t1 - rd < 10, s3)" using 2 s2(1) s3(1) by simp
    from that[OF this, of "t1 + 2"] s3(2) ticking_mono[OF s3(2), of "2 + call_time"] t1 show thesis by simp
  qed
qed

lemma read_loop_ends:
  assumes W: "timely W" and p: "pumps_always irq" and T: "T < 2 ^ 63"
  shows "ticking 2 t s \<Longrightarrow> T \<le> t \<Longrightarrow> t \<le> T + 2 ^ 29 \<Longrightarrow>
    \<exists>s' t'. read_loop W irq (secs T) s = Some s' \<and> ticking (2 + call_time) t' s' \<and> t' \<le> T + 2 ^ 31"
proof (induction "T + 2 ^ 29 - t" arbitrary: t s rule: less_induct)
  case less
  obtain more s1 t1 where r: "read_round W irq (secs T) s = Some (more, s1)" "ticking (2 + call_time) t1 s1" "t < t1" "t1 \<le> t + 2 + call_time"
    and m: "more \<Longrightarrow> ticking 2 t1 s1 \<and> secs (t1 - 2) - secs T < 10 \<and> t < t1 - 2"
    by (rule read_round_ticking[OF W p less.prems(1)]) (use less.prems T in \<open>auto simp: call_time_def\<close>)
  show ?case
  proof (cases more)
    case False
    then have "read_loop W irq (secs T) s = Some s1" by (subst read_loop.simps) (simp add: r(1))
    then show ?thesis using r less.prems by (auto simp: call_time_def)
  next
    case True
    have "unat (secs (t1 - 2) - secs T) = (t1 - 2) div 1000000 - T div 1000000"
      by (rule secs_diff) (use m[OF True] r(4) less.prems in \<open>auto simp: call_time_def\<close>)
    then have "(t1 - 2) div 1000000 - T div 1000000 < 10" using m[OF True] by (simp add: word_less_nat_alt)
    then have "t1 < T + 12000000" by linarith
    then have t1: "t1 \<le> T + 2 ^ 29" by simp
    have "read_loop W irq (secs T) s = read_loop W irq (secs T) s1" using True by (subst read_loop.simps) (simp add: r(1))
    then show ?thesis using less.hyps[of t1 s1] m[OF True] r(3) t1 less.prems(2) by simp
  qed
qed

lemma exchange_ends:
  assumes W: "timely W" and p: "pumps_always irq" and s: "ticking 2 t s" "t < 2 ^ 62"
  shows "\<exists>s' t'. exchange W irq s = Some s' \<and> ticking (2 + call_time) t' s' \<and> t' \<le> t + 2 ^ 32"
proof -
  obtain n s1 where w: "wolfSSL_write W (ascii ''Hello from RISC-V DTLS 1.3 client!'') s = (n, s1)"
    by (cases "wolfSSL_write W (ascii ''Hello from RISC-V DTLS 1.3 client!'') s")
  have "takes call_time (\<lambda>s. snd (wolfSSL_write W (ascii ''Hello from RISC-V DTLS 1.3 client!'') s))" using W by (simp add: timely_def)
  then obtain t1 where t1: "ticking (2 + call_time) t1 s1" "t < t1" "t1 \<le> t + call_time"
    by (rule takesD[OF _ s(1)]) (use w in \<open>auto simp: call_time_def\<close>)
  have t1': "ticking (2 + call_time) t1 (say (Wrote n) s1)" using t1(1) by simp
  obtain s2 where s2: "uptime_seconds (say (Wrote n) s1) = (secs t1, s2)" "ticking 2 (t1 + 2) s2"
    by (rule uptime_seconds_ticking[OF t1']) (use t1(3) s(2) in \<open>auto simp: call_time_def\<close>)
  obtain s3 t3 where s3: "read_loop W irq (secs t1) s2 = Some s3" "ticking (2 + call_time) t3 s3" "t3 \<le> t1 + 2 ^ 31"
    using read_loop_ends[OF W p _ s2(2), of t1] t1(3) s(2) by (auto simp: call_time_def)
  have "exchange W irq s = Some (say SessionDone s3)" using w s2(1) s3(1) by (simp add: exchange_def)
  then show ?thesis using s3(2,3) t1(3) by (intro exI[of _ "say SessionDone s3"] exI[of _ t3]) (simp add: call_time_def)
qed

lemma takes_comp:
  assumes "takes a f" "takes b g"
  shows "takes (a + b) (\<lambda>s. g (f s))"
  unfolding takes_def
proof (intro allI impI)
  fix k t and s :: "'a fw" assume tick: "ticking k t s" and lim: "k + (a + b) < 2 ^ 32"
  obtain t1 where t1: "ticking (k + a) t1 (f s)" "t < t1" "t1 \<le> t + a" by (rule takesD[OF assms(1) tick]) (use lim in auto)
  obtain t2 where t2: "ticking (k + a + b) t2 (g (f s))" "t1 < t2" "t2 \<le> t1 + b" by (rule takesD[OF assms(2) t1(1)]) (use lim in auto)
  show "\<exists>t'. ticking (k + (a + b)) t' (g (f s)) \<and> t < t' \<and> t' \<le> t + (a + b)"
    using t1 t2 by (intro exI[of _ t2]) (simp add: add.assoc)
qed

lemma takes_mono: "takes a f \<Longrightarrow> a \<le> b \<Longrightarrow> takes b f"
  unfolding takes_def
proof (intro allI impI)
  fix k t and s :: "'a fw" assume *: "\<forall>g t s. ticking g t s \<longrightarrow> g + a < 2 ^ 32 \<longrightarrow> (\<exists>t'. ticking (g + a) t' (f s) \<and> t < t' \<and> t' \<le> t + a)"
    "a \<le> b" "ticking k t s" "k + b < 2 ^ 32"
  then obtain t' where "ticking (k + a) t' (f s)" "t < t'" "t' \<le> t + a" by (metis add_le_cancel_left order_le_less_trans)
  then show "\<exists>t'. ticking (k + b) t' (f s) \<and> t < t' \<and> t' \<le> t + b"
    using ticking_mono[of "k + a" t' "f s" "k + b"] *(2) by (intro exI[of _ t']) simp
qed

lemma wolf_setup_ticking:
  assumes "timely W"
  shows "takes (7 * call_time) (\<lambda>s. snd (wolf_setup W s))"
proof -
  define F1 where "F1 s = snd (wolfSSL_CTX_new W (wolfSSL_Init W s))" for s
  define F2 where "F2 s = snd (wolfSSL_CTX_load_verify_buffer W (F1 s))" for s
  define F3 where "F3 s = snd (wolfSSL_new W (F2 s))" for s
  define F4 where "F4 s = snd (wolfSSL_UseKeyShare W (wolfSSL_dtls_set_mtu W 1400 (wolfSSL_dtls_set_using_nonblock W (F3 s))))" for s
  have 1: "takes (2 * call_time) F1"
    unfolding F1_def mult_2 by (rule takes_comp[where g = "\<lambda>s. snd (wolfSSL_CTX_new W s)"]) (use assms in \<open>simp_all add: timely_def\<close>)
  have 2: "takes (2 * call_time + call_time) F2"
    unfolding F2_def by (rule takes_comp[OF 1, where g = "\<lambda>s. snd (wolfSSL_CTX_load_verify_buffer W s)"]) (use assms in \<open>simp add: timely_def\<close>)
  have 3: "takes (2 * call_time + call_time + call_time) F3"
    unfolding F3_def by (rule takes_comp[OF 2, where g = "\<lambda>s. snd (wolfSSL_new W s)"]) (use assms in \<open>simp add: timely_def\<close>)
  have 4: "takes (2 * call_time + call_time + call_time + (call_time + call_time + call_time)) F4"
    unfolding F4_def by (rule takes_comp[OF 3 takes_comp[OF takes_comp, where g = "\<lambda>s. snd (wolfSSL_UseKeyShare W s)"]])
      (use assms in \<open>simp_all add: timely_def\<close>)
  have all: "takes (7 * call_time) F1" "takes (7 * call_time) F2" "takes (7 * call_time) F3" "takes (7 * call_time) F4"
    using 1 2 3 4 by (auto elim!: takes_mono)
  have "snd (wolf_setup W s) \<in> {F1 s, F2 s, F3 s, F4 s}" for s
    by (simp add: wolf_setup_def F1_def F2_def F3_def F4_def split_beta Let_def)
  with all show ?thesis unfolding takes_def by (metis (no_types, lifting) empty_iff insert_iff)
qed

section \<open>After the set-up\<close>

lemma put_cached_ip: "put off bs n = Some n' \<Longrightarrow> cached_ip n' = cached_ip n"
  by (auto simp: put_def bind_eq_Some_conv)

lemma send_packet_cached_ip: "send_packet n = Some n' \<Longrightarrow> cached_ip n' = cached_ip n"
  by (auto simp: send_packet_def bind_eq_Some_conv Let_def dest!: put_cached_ip)

lemma process_frame_cached_ip:
  assumes "process_frame n = Some n'"
  shows "cached_ip n' = cached_ip n"
proof -
  have arp: "process_arp n = Some n' \<Longrightarrow> cached_ip n' = cached_ip n" for n n'
    by (auto simp: process_arp_def Let_def bind_eq_Some_conv split: if_splits dest!: put_cached_ip send_packet_cached_ip)
  have icmp: "process_icmp n = Some n' \<Longrightarrow> cached_ip n' = cached_ip n" for n n'
    by (auto simp: process_icmp_def put_ip_header_def put_icmp_def Let_def bind_eq_Some_conv split: if_splits
        dest!: put_cached_ip send_packet_cached_ip)
  have udp: "process_udp n = Some n' \<Longrightarrow> cached_ip n' = cached_ip n" for n n'
    by (auto simp: process_udp_def Let_def split: if_splits)
  show ?thesis
    using assms by (auto simp: process_frame_def Let_def bind_eq_Some_conv split: if_splits dest!: arp icmp udp)
qed

lemma udp_service_cached_ip: "udp_service n = Some n' \<Longrightarrow> cached_ip n' = cached_ip n"
  by (auto simp: udp_service_def split: list.splits option.splits dest!: process_frame_cached_ip)

lemma arp_wait_result: "arp_wait k n = Some (ok, n') \<Longrightarrow> cached_ip n' = cached_ip n \<and> (ok \<longrightarrow> mac_known n')"
  by (induction k arbitrary: n) (auto simp: bind_eq_Some_conv split: if_splits dest!: udp_service_cached_ip)

lemma send_arp_request_cached_ip: "send_arp_request ip n = Some n' \<Longrightarrow> cached_ip n' = cached_ip n"
  by (auto simp: send_arp_request_def bind_eq_Some_conv Let_def dest!: put_cached_ip send_packet_cached_ip)

lemma arp_tries_result: "arp_tries k ip n = Some (ok, n') \<Longrightarrow> cached_ip n' = cached_ip n \<and> (ok \<longrightarrow> mac_known n')"
proof (induction k arbitrary: n)
  case (Suc k)
  then obtain n1 ok1 n2 where "send_arp_request ip n = Some n1" "arp_wait 100000 n1 = Some (ok1, n2)"
    "(if ok1 then Some (True, n2) else arp_tries k ip n2) = Some (ok, n')"
    by (auto simp: bind_eq_Some_conv simp del: arp_wait.simps)
  then show ?case
    using send_arp_request_cached_ip[of ip n n1] arp_wait_result[of 100000 n1 ok1 n2] Suc.IH[of n2] by (simp split: if_splits)
qed simp

lemma udp_arp_resolve_result: "udp_arp_resolve ip n = Some (True, n') \<Longrightarrow> cached_ip n' = ip \<and> mac_known n'"
  by (auto simp: udp_arp_resolve_def split: if_splits dest!: arp_tries_result)

lemma arp_loop_resolves: "arp_loop n = Some n' \<Longrightarrow> cached_ip n' = SERVER_IP \<and> mac_known n'"
proof (induction rule: arp_loop.raw_induct[rotated, consumes 1, where P = "\<lambda>n n'. cached_ip n' = SERVER_IP \<and> mac_known n'"])
  case (1 f n n')
  then show ?case by (auto simp: bind_eq_Some_conv split: if_splits dest!: udp_arp_resolve_result)
qed

lemma setup_clock:
  assumes "transport_setup irq s = Some s1"
  shows "ticking 2 3 s1"
proof -
  obtain u where "clock_of s1 = dtls_timer_init u"
    using assms by (auto simp: transport_setup_def bind_eq_Some_conv dtls_io_enable_irq_def irq_attach_def dtls_io_init_def say_def set_io_def set_dev_def Let_def
        split: if_splits)
  then show ?thesis unfolding ticking_def using clock_inv_init[of u] by (intro exI[of _ 1]) simp
qed

section \<open>Properties\<close>

text \<open>
  C17. The handshake loop ends in time.  If no library call takes longer than \<open>call_time\<close> cycles and the clock
  is started, the loop returns, whatever the library answers; it goes on at most one round (three calls) after
  the 120 seconds, and it reports a timeout only after 120 seconds.
\<close>

theorem handshake_returns:
  assumes "timely W" "pumps_always DTLS_RX_IRQ" "ticking g T s" "g < 2 ^ 32" "T < 2 ^ 62"
  shows "\<exists>t_start s1 e s' t'. uptime_seconds s = (t_start, s1) \<and>
    handshake_loop W DTLS_RX_IRQ t_start \<lparr>rtx_mark = t_start, last_err = 0, pumps = 0\<rparr> s1 = Some (e, s') \<and>
    ticking (2 + 2 * call_time) t' s' \<and> t' \<le> T + 122 * 10 ^ 6 + 8 + 3 * call_time \<and>
    (e = TimedOut \<longrightarrow> T div 10 ^ 6 + 120 \<le> t' div 10 ^ 6)"
proof -
  obtain s1 where s1: "uptime_seconds s = (secs T, s1)" "ticking 2 (T + 2) s1"
    by (rule uptime_seconds_ticking[OF assms(3,4)]) (use assms(5) in auto)
  have tick: "ticking (2 + call_time) (T + 2) s1" by (rule ticking_mono[OF s1(2)]) simp
  have "T < 2 ^ 63" using assms(5) by simp
  from handshake_loop_ends[OF assms(1,2) this tick, of "\<lparr>rtx_mark = secs T, last_err = 0, pumps = 0\<rparr>"]
  obtain e s' t' where "handshake_loop W DTLS_RX_IRQ (secs T) \<lparr>rtx_mark = secs T, last_err = 0, pumps = 0\<rparr> s1 = Some (e, s')"
    "ticking (2 + 2 * call_time) t' s'" "t' \<le> T + 122000008 + 3 * call_time" "e = TimedOut \<longrightarrow> T div 1000000 + 120 \<le> t' div 1000000" by auto
  then show ?thesis using s1(1) by (intro exI[of _ "secs T"] exI[of _ s1] exI[of _ e] exI[of _ s'] exI[of _ t']) simp
qed

text \<open>A library on which every call takes a cycle and nothing ever arrives.\<close>

definition tick_once :: "'t fw \<Rightarrow> 't fw" where
  "tick_once s = set_io ((io_of s)\<lparr>io_timer := timer_elapse 1 (clock_of s)\<rparr>) s"

definition W0 :: "unit Wolf" where
  "W0 = \<lparr>wolfSSL_Init = tick_once, wolfSSL_CTX_new = (\<lambda>s. (True, tick_once s)), wolfSSL_CTX_load_verify_buffer = (\<lambda>s. (1, tick_once s)),
     wolfSSL_new = (\<lambda>s. (True, tick_once s)), wolfSSL_dtls_set_using_nonblock = tick_once, wolfSSL_dtls_set_mtu = (\<lambda>n. tick_once),
     wolfSSL_UseKeyShare = (\<lambda>s. (1, tick_once s)), wolfSSL_connect = (\<lambda>s. (-1, tick_once s)), wolfSSL_get_error = (\<lambda>s r. 2),
     wolfSSL_dtls_get_current_timeout = (\<lambda>s. 1), wolfSSL_dtls_got_timeout = tick_once, wolfSSL_write = (\<lambda>m s. (-1, tick_once s)),
     wolfSSL_read = (\<lambda>n s. (-1, [], tick_once s)), wolfSSL_cleanup = tick_once\<rparr>"

lemma takes_tick_once: "takes call_time tick_once"
  unfolding takes_def
proof (intro allI impI)
  fix g t and s :: "'a fw" assume "ticking g t s"
  then obtain l where l: "clock_inv l t (clock_of s)" "l \<le> t" "t \<le> l + g" by (auto simp: ticking_def)
  have "ticking (g + call_time) (t + 1) (tick_once s)"
    unfolding ticking_def using elapse_inv[OF l(1), of 1] l by (intro exI[of _ l]) (simp add: tick_once_def call_time_def)
  then show "\<exists>t'. ticking (g + call_time) t' (tick_once s) \<and> t < t' \<and> t' \<le> t + call_time"
    by (intro exI[of _ "t + 1"]) (simp add: call_time_def)
qed

lemma W0_timely: "timely W0"
  by (simp add: timely_def W0_def takes_tick_once)

lemma irq_pumps: "pumps_always True"
  by (simp add: pumps_always_def dtls_io_pump_def)

definition fw0 :: "unit fw" where
  "fw0 = \<lparr>fw_sys = \<lparr>irq_table = [None, None, None], irq_mask = 0, irq_ie = False,
      dev = \<lparr>d_uart = \<lparr>rx = \<lparr>cbuf = replicate 128 0, produce = 0, consume = 0\<rparr>, tx = \<lparr>cbuf = replicate 128 0, produce = 0, consume = 0\<rparr>,
         ev_enable = 0, ev_pending = 0, rx_fifo = [], tx_free = 16, tx_wire = [], irq_ie = False\<rparr>, d_io = io0\<rparr>\<rparr>,
      fw_tls = (), rng_s = 0x2545F491, out = []\<rparr>"

theorem handshake_returns_witness:
  "\<exists>s1 e s'. uptime_seconds (set_io (dtls_io_init 5555 11111 io0) fw0) = (0, s1) \<and>
     handshake_loop W0 True 0 \<lparr>rtx_mark = 0, last_err = 0, pumps = 0\<rparr> s1 = Some (e, s')"
proof -
  let ?s = "set_io (dtls_io_init 5555 11111 io0) fw0"
  have t: "ticking 2 3 ?s" unfolding ticking_def using clock_inv_init[of "io_timer io0"] by (intro exI[of _ 1]) (simp add: dtls_io_init_def)
  obtain s1 where "uptime_seconds ?s = (secs 3, s1)" by (rule uptime_seconds_ticking[OF t]) auto
  with handshake_returns[OF W0_timely irq_pumps t] show ?thesis by auto
qed

text \<open>
  C19. The transport is ready when the library starts.  When the set-up of \<open>main\<close> ends, the server's MAC address
  is resolved, the receive callback is installed on an empty ring, the ports are set, the clock runs, and the
  interrupt handlers of the console and, in the interrupt build, of the Ethernet MAC are attached and unmasked.
\<close>

theorem transport_ready:
  assumes "transport_setup DTLS_RX_IRQ s = Some s'" "length (irq_table (fw_sys s)) = CONFIG_CPU_INTERRUPTS"
  shows "mac_known (io_net (io_of s')) \<and> cached_ip (io_net (io_of s')) = SERVER_IP \<and> rx_callback (io_net (io_of s')) \<and>
    rx_head (io_ring (io_of s')) = 0 \<and> rx_tail (io_ring (io_of s')) = 0 \<and>
    g_local_port (io_of s') = CLIENT_PORT \<and> g_peer_port (io_of s') = SERVER_PORT \<and> ticking 2 3 s' \<and>
    irq_sys.irq_ie (fw_sys s') \<and> irq_table (fw_sys s') ! UART_INTERRUPT = Some uart_handler \<and> bit (irq_mask (fw_sys s')) UART_INTERRUPT \<and>
    (DTLS_RX_IRQ \<longrightarrow> irq_table (fw_sys s') ! ETHMAC_INTERRUPT = Some ethmac_handler \<and> bit (irq_mask (fw_sys s')) ETHMAC_INTERRUPT)"
proof -
  define s0 where "s0 = say Resolving (say Banner (fw_uart_init (irq_setie True (irq_setmask 0 s))))"
  obtain n where n: "arp_loop (udp_start MY_MAC MY_IP (io_net (io_of s0))) = Some n"
    and s': "s' = (let s = say Resolved (set_io ((io_of s0)\<lparr>io_net := n\<rparr>) s0); s = set_io (dtls_io_init CLIENT_PORT SERVER_PORT (io_of s)) s
       in if DTLS_RX_IRQ then say IrqRxEnabled (s\<lparr>fw_sys := dtls_io_enable_irq ethmac_handler (fw_sys s)\<rparr>) else s)"
    using assms(1) unfolding transport_setup_def Let_def s0_def by (auto simp: bind_eq_Some_conv)
  note arp = arp_loop_resolves[OF n]
  have sys0: "irq_sys.irq_ie (fw_sys s0)" "irq_table (fw_sys s0) = (irq_table (fw_sys s))[0 := Some uart_handler]" "irq_mask (fw_sys s0) = 1"
    by (simp_all add: s0_def fw_uart_init_def irq_attach_def irq_setmask_def irq_setie_def say_def set_dev_def Let_def)
  have tick: "ticking 2 3 s'" by (rule setup_clock[OF assms(1)])
  have m: "bit (1 OR 4 :: u32) 0" "bit (1 OR 4 :: u32) 2" by (simp_all add: bit_simps)
  show ?thesis
    using arp sys0 tick assms(2)
    by (cases DTLS_RX_IRQ) (simp_all add: s' dtls_io_enable_irq_def irq_attach_def dtls_io_init_def udp_set_callback_def say_def set_io_def set_dev_def mac_known_def m Let_def)
qed

text \<open>The server's answer to the address request, waiting in the MAC.\<close>

definition server_reply :: "bytes \<Rightarrow> bytes" where
  "server_reply mac = with_crc (arp_packet MY_MAC mac ARP_OPCODE_REPLY mac SERVER_IP MY_MAC MY_IP)"

lemma setup_finishes:
  assumes wf: "net_wf (io_net (io_of s))" and rx: "mac_rx (io_net (io_of s)) = replicate k None @ Some (server_reply mac @ rest, 72) # q" "k < 100000"
    and mac: "length mac = 6" "list_ex (\<lambda>b. b \<noteq> 0) mac"
  shows "\<exists>s'. transport_setup DTLS_RX_IRQ s = Some s'"
proof -
  define s0 where "s0 = say Resolving (say Banner (fw_uart_init (irq_setie True (irq_setmask 0 s))))"
  have io: "io_of s0 = io_of s" by (simp add: s0_def fw_uart_init_def irq_attach_def irq_setmask_def irq_setie_def say_def set_dev_def Let_def)
  let ?n = "udp_start MY_MAC MY_IP (io_net (io_of s))"
  have lm: "length MY_MAC = 6" by (simp add: MY_MAC_def)
  have n: "net_wf ?n" "mac_rx ?n = mac_rx (io_net (io_of s))" "\<not> mac_known ?n"
    using wf by (auto simp: udp_start_def udp_set_mac_def udp_set_ip_def net_wf_def mac_known_def list_ex_iff lm)
  obtain n' where "udp_arp_resolve SERVER_IP ?n = Some (True, n')"
    using arp_resolved[OF n(1) _ _ rx(2) lm mac(1) mac(1) lm mac(2), of SERVER_IP MY_IP rest q] rx(1) n(2,3) by (auto simp: server_reply_def)
  then have "arp_loop ?n = Some n'" by (subst arp_loop.simps) simp
  then show ?thesis unfolding transport_setup_def Let_def s0_def[symmetric] io by simp
qed

definition fw1 :: "unit fw" where
  "fw1 = set_io (io0\<lparr>io_net := net0\<lparr>mac_rx := [None, Some (server_reply [2, 0, 0, 0, 0, 2], 72)]\<rparr>\<rparr>) fw0"

lemma fw1_setup: "\<exists>s'. transport_setup DTLS_RX_IRQ fw1 = Some s'"
  by (rule setup_finishes[where k = 1 and mac = "[2, 0, 0, 0, 0, 2]" and rest = "[]" and q = "[]"])
    (simp_all add: fw1_def set_io_def set_dev_def net_wf_def net0_def)

theorem transport_ready_witness:
  "\<exists>s'. transport_setup True fw1 = Some s' \<and> mac_known (io_net (io_of s')) \<and> irq_table (fw_sys s') ! ETHMAC_INTERRUPT = Some ethmac_handler"
proof -
  obtain s' where s': "transport_setup True fw1 = Some s'" using fw1_setup by blast
  have "length (irq_table (fw_sys fw1)) = CONFIG_CPU_INTERRUPTS" by (simp add: fw1_def fw0_def set_io_def set_dev_def)
  from transport_ready[OF s' this] s' show ?thesis by auto
qed

text \<open>
  C18. \<open>main\<close> never hangs before its service loop: once the server's address is resolved, it returns an error or
  reaches the final loop, whatever the library answers.
\<close>

theorem main_finishes:
  assumes W: "timely W" and p: "pumps_always DTLS_RX_IRQ" and s: "transport_setup DTLS_RX_IRQ s = Some s0"
  shows "\<exists>e s'. main W DTLS_RX_IRQ s = Some (e, s') \<and> (e = Serving \<or> e = Returned (-1))"
proof -
  obtain fatal s1 where f: "wolf_setup W s0 = (fatal, s1)" by (cases "wolf_setup W s0")
  obtain t1 where t1: "ticking (2 + 7 * call_time) t1 s1" "t1 \<le> 3 + 7 * call_time"
    by (rule takesD[OF wolf_setup_ticking[OF W] setup_clock[OF s]]) (use f in \<open>auto simp: call_time_def\<close>)
  show ?thesis
  proof (cases fatal)
    case (Some m)
    then show ?thesis using s f by (simp add: main_def)
  next
    case None
    have t1': "ticking (2 + 7 * call_time) t1 (say Starting s1)" using t1(1) by simp
    obtain s2 where s2: "uptime_seconds (say Starting s1) = (secs t1, s2)" "ticking 2 (t1 + 2) s2"
      by (rule uptime_seconds_ticking[OF t1']) (use t1(2) in \<open>auto simp: call_time_def\<close>)
    obtain ms s3 where s3: "uptime_millis s2 = (ms, s3)" by (cases "uptime_millis s2")
    have e4: "t1 + 4 = t1 + 2 + 2" by simp
    have "ticking 2 (t1 + 2 + 2) s3" using uptime_millis_ticking[OF s2(2)] s3 t1(2) by (simp add: call_time_def)
    then have t3: "ticking (2 + call_time) (t1 + 4) s3" unfolding e4 by (rule ticking_mono) simp
    obtain e s4 t4 where h: "handshake_loop W DTLS_RX_IRQ (secs t1) \<lparr>rtx_mark = secs t1, last_err = 0, pumps = 0\<rparr> s3 = Some (e, s4)"
      "ticking (2 + 2 * call_time) t4 s4" "t4 \<le> t1 + 122000008 + 3 * call_time"
      using handshake_loop_ends[OF W p _ t3, of t1 "\<lparr>rtx_mark = secs t1, last_err = 0, pumps = 0\<rparr>"] t1(2) by (auto simp: call_time_def)
    obtain t s5 where s5: "uptime_millis s4 = (t, s5)" by (cases "uptime_millis s4")
    have "ticking 2 (t4 + 2) s5" using uptime_millis_ticking[OF h(2)] h(3) t1(2) s5 by (simp add: call_time_def)
    then have t5: "ticking 2 (t4 + 2) (say (HandshakeComplete (t - ms)) s5)" by simp
    obtain s6 where s6: "exchange W DTLS_RX_IRQ (say (HandshakeComplete (t - ms)) s5) = Some s6"
      using exchange_ends[OF W p t5] h(3) t1(2) by (auto simp: call_time_def)
    show ?thesis using s f None s2(1) s3 h(1) s5 s6 by (simp add: main_def)
  qed
qed

theorem main_finishes_witness:
  "\<exists>e s'. main W0 True fw1 = Some (e, s')"
proof -
  obtain s0 where "transport_setup True fw1 = Some s0" using fw1_setup by blast
  from main_finishes[OF W0_timely irq_pumps this] show ?thesis by blast
qed

end
