(* ===== verification/HostServer.thy ===== *)
theory HostServer
  imports Prelude
begin

text \<open>
  The host's test server, \<open>host/server_dtls.c\<close>: the paced send callback and the loop that serves one client
  after the other.  Sockets and the wolfSSL library are parameters, the record \<open>Host\<close>; the state has what the
  program itself manages: the peer the socket is connected to, the session objects not yet freed, and the
  pause between datagrams.  Connecting the socket to an unspecified address is taken to end its connection;
  the program ignores the result.
\<close>

section \<open>State\<close>

record 'w host =
  g_pace_us :: int
  sock_peer :: "bytes option"
  live_ssl :: nat
  slept :: "(int \<times> int) list"
  world :: 'w

record 'w Host =
  recvfrom_peek :: "'w host \<Rightarrow> bytes option \<times> 'w host"
  sock_connect :: "bytes \<Rightarrow> 'w host \<Rightarrow> bool \<times> 'w host"
  ssl_new :: "'w host \<Rightarrow> bool \<times> 'w host"
  ssl_accept :: "'w host \<Rightarrow> bool \<times> 'w host"
  ssl_read :: "nat \<Rightarrow> 'w host \<Rightarrow> int \<times> bytes \<times> 'w host"
  ssl_write :: "bytes \<Rightarrow> 'w host \<Rightarrow> 'w host"
  ssl_shutdown :: "'w host \<Rightarrow> 'w host"
  EmbedSendTo :: "bytes \<Rightarrow> 'w host \<Rightarrow> int \<times> 'w host"

section \<open>The send callback\<close>

text \<open>
  The pause is split into seconds and nanoseconds with C's division.  The variable is a \<open>long\<close> read from the
  environment; values that are not positive give no pause.
\<close>

definition pace_timespec :: "int \<Rightarrow> int \<times> int" where
  "pace_timespec us = (us div 1000000, us mod 1000000 * 1000)"

definition PacedSend :: "'w Host \<Rightarrow> bytes \<Rightarrow> 'w host \<Rightarrow> int \<times> 'w host" where
  "PacedSend H buf s =
     (let (sent, s) = EmbedSendTo H buf s
      in (sent, if 0 < sent \<and> 0 < g_pace_us s then s\<lparr>slept := slept s @ [pace_timespec (g_pace_us s)]\<rparr> else s))"

section \<open>One client\<close>

datatype round_end = Continue | Break

definition session :: "'w Host \<Rightarrow> 'w host \<Rightarrow> 'w host" where
  "session H s =
     (let (ok, s) = ssl_accept H s in
      if \<not> ok then s
      else (let (n, data, s) = ssl_read H 255 s in ssl_write H (map of_char ''Hello from PQC-DTLS 1.3 Linux server!'') s))"

definition serve_one :: "'w Host \<Rightarrow> 'w host \<Rightarrow> round_end \<times> 'w host" where
  "serve_one H s =
     (case recvfrom_peek H s of
        (None, s) \<Rightarrow> (Continue, s)
      | (Some peer, s) \<Rightarrow>
          (let (ok, s) = sock_connect H peer s in
           if \<not> ok then (Continue, s)
           else
             (let s = s\<lparr>sock_peer := Some peer\<rparr>; (ok, s) = ssl_new H s in
              if \<not> ok then (Break, s)
              else
                (let s = session H (s\<lparr>live_ssl := live_ssl s + 1\<rparr>);
                     s = ssl_shutdown H s;
                     s = s\<lparr>live_ssl := live_ssl s - 1\<rparr>
                 in (Continue, s\<lparr>sock_peer := None\<rparr>)))))"

text \<open>The states in which the loop starts a round.\<close>

inductive served :: "'w Host \<Rightarrow> 'w host \<Rightarrow> 'w host \<Rightarrow> bool" for H s0 where
  start: "served H s0 s0"
| round: "served H s0 s \<Longrightarrow> serve_one H s = (Continue, s') \<Longrightarrow> served H s0 s'"

section \<open>Properties\<close>

text \<open>The library and the system calls leave the program's own variables alone.\<close>

definition keeps_own :: "('w host \<Rightarrow> 'w host) \<Rightarrow> bool" where
  "keeps_own f \<longleftrightarrow> (\<forall>s. sock_peer (f s) = sock_peer s \<and> live_ssl (f s) = live_ssl s)"

definition host_ok :: "'w Host \<Rightarrow> bool" where
  "host_ok H \<longleftrightarrow> keeps_own (\<lambda>s. snd (recvfrom_peek H s)) \<and> (\<forall>p. keeps_own (\<lambda>s. snd (sock_connect H p s))) \<and>
     keeps_own (\<lambda>s. snd (ssl_new H s)) \<and> keeps_own (\<lambda>s. snd (ssl_accept H s)) \<and> (\<forall>n. keeps_own (\<lambda>s. snd (snd (ssl_read H n s)))) \<and>
     (\<forall>m. keeps_own (ssl_write H m)) \<and> keeps_own (ssl_shutdown H)"

lemma session_keeps: "host_ok H \<Longrightarrow> sock_peer (session H s) = sock_peer s \<and> live_ssl (session H s) = live_ssl s"
  by (simp add: session_def host_ok_def keeps_own_def split_beta Let_def)

lemma serve_one_clean:
  assumes "host_ok H" "sock_peer s = None" "live_ssl s = 0" "serve_one H s = (Continue, s')"
  shows "sock_peer s' = None \<and> live_ssl s' = 0"
proof -
  have k: "sock_peer (snd (recvfrom_peek H s)) = sock_peer s" "live_ssl (snd (recvfrom_peek H s)) = live_ssl s"
    "sock_peer (snd (sock_connect H p t)) = sock_peer t" "live_ssl (snd (sock_connect H p t)) = live_ssl t"
    "live_ssl (snd (ssl_new H t)) = live_ssl t" "live_ssl (ssl_shutdown H t) = live_ssl t" for p t
    using assms(1) by (simp_all add: host_ok_def keeps_own_def)
  show ?thesis
    using assms(2-4) k session_keeps[OF assms(1)]
    by (cases "recvfrom_peek H s") (auto simp: serve_one_def split_beta Let_def split: option.splits if_splits)
qed


definition host0 :: "unit Host" where
  "host0 = \<lparr>recvfrom_peek = (\<lambda>s. (Some [10, 0, 0, 1], s)), sock_connect = (\<lambda>p s. (True, s)), ssl_new = (\<lambda>s. (True, s)), ssl_accept = (\<lambda>s. (True, s)),
     ssl_read = (\<lambda>n s. (1, [65], s)), ssl_write = (\<lambda>m s. s), ssl_shutdown = (\<lambda>s. s), EmbedSendTo = (\<lambda>b s. (int (length b), s))\<rparr>"


text \<open>The pause handed to \<open>nanosleep\<close> is well formed and as long as configured.\<close>

lemma pace_exact: "0 < us \<Longrightarrow> pace_timespec us = (sec, ns) \<Longrightarrow> 0 \<le> ns \<and> ns < 10 ^ 9 \<and> sec * 10 ^ 9 + ns = us * 1000"
  by (auto simp: pace_timespec_def) (use mult_div_mod_eq[of 1000000 us] in linarith)

end
