(* ===== verification/MlkemField.thy ===== *)
theory MlkemField
  imports Prelude
begin

text \<open>
  Arithmetic modulo 3329 of ML-KEM (\<open>wolfcrypt/src/wc_mlkem_poly.c\<close>): the Montgomery and the Barrett reduction
  and the conditional subtraction.  Coefficients are integers; the casts to \<open>sword16\<close> and \<open>sword32\<close>, which the
  compiler implements by wrapping, are written out.  Residues are elements of the ring \<^typ>\<open>3329\<close>.
\<close>

section \<open>Casts and constants\<close>

definition sword16 :: "int \<Rightarrow> int" where
  "sword16 x = (x + 32768) mod 65536 - 32768"

definition sword32 :: "int \<Rightarrow> int" where
  "sword32 x = (x + 2147483648) mod 4294967296 - 2147483648"

definition MLKEM_N :: nat where [simp]: "MLKEM_N = 256"
definition MLKEM_Q :: int where [simp]: "MLKEM_Q = 3329"
definition MLKEM_QINV :: int where [simp]: "MLKEM_QINV = 62209"
definition MLKEM_V :: int where [simp]: "MLKEM_V = (2 ^ 26 + MLKEM_Q div 2) div MLKEM_Q"
definition MLKEM_F :: int where [simp]: "MLKEM_F = 2 ^ 32 mod MLKEM_Q"

section \<open>Reductions\<close>

definition MLKEM_MONT_RED :: "int \<Rightarrow> int" where
  "MLKEM_MONT_RED a = sword16 (sword32 (a - sword16 (sword16 a * sword16 MLKEM_QINV) * MLKEM_Q) div 2 ^ 16)"

definition MLKEM_BARRETT_RED :: "int \<Rightarrow> int" where
  "MLKEM_BARRETT_RED a =
     sword16 (sword16 a - sword16 (sword16 (sword32 (MLKEM_V * sword16 a) div 2 ^ 26) * MLKEM_Q))"

text \<open>
  The loop body of \<open>mlkem_csubq_c\<close>: the sign bit of the difference, as a mask, selects whether \<open>q\<close> is added back.
\<close>

definition csubq :: "int \<Rightarrow> int" where
  "csubq x = (let t = sword16 (x - MLKEM_Q)
              in sword16 (sword16 ((- ((t mod 2 ^ 16) div 2 ^ 15)) mod 2 ^ 16 AND MLKEM_Q) + t))"

definition mlkem_csubq_c :: "int list \<Rightarrow> int list" where
  "mlkem_csubq_c p = map csubq p"

section \<open>Residues\<close>

type_synonym zq = 3329

abbreviation Zq :: "int \<Rightarrow> zq" where
  "Zq x \<equiv> of_int x"

lemma Zq_eq_iff: "Zq x = Zq y \<longleftrightarrow> x mod 3329 = y mod 3329"
proof -
  have "Zq x = Zq y \<longleftrightarrow> Zq (x - y) = 0" by (simp only: of_int_diff right_minus_eq)
  also have "\<dots> \<longleftrightarrow> (3329 :: int) dvd x - y" by (simp only: of_int_eq_0_iff_char_dvd) simp
  finally show ?thesis by (simp add: mod_eq_dvd_iff)
qed

lemma minus_mult_mod_q: "(a - m * 3329) mod 3329 = a mod (3329 :: int)"
  using mod_mult_self1[of a "- m" 3329] by simp

lemma sword16_id: "- 32768 \<le> x \<Longrightarrow> x \<le> 32767 \<Longrightarrow> sword16 x = x"
  by (simp add: sword16_def)

lemma sword16_abs: "\<bar>x\<bar> \<le> 32767 \<Longrightarrow> sword16 x = x"
  by (rule sword16_id) auto

lemma sword32_id: "\<bar>x\<bar> \<le> 2147483647 \<Longrightarrow> sword32 x = x"
  by (simp add: sword32_def)

lemma sword16_range: "- 32768 \<le> sword16 x" "sword16 x \<le> 32767"
proof -
  have "0 \<le> (x + 32768) mod 65536" "(x + 32768) mod 65536 < 65536" by simp_all
  then show "- 32768 \<le> sword16 x" "sword16 x \<le> 32767" by (simp_all add: sword16_def)
qed

lemma sword16_cong: "\<exists>k. sword16 x = x - 65536 * k"
proof
  show "sword16 x = x - 65536 * ((x + 32768) div 65536)"
    unfolding sword16_def minus_mult_div_eq_mod[symmetric] by simp
qed

section \<open>Correctness of the reductions\<close>

text \<open>
  A reduction divides a residue by a fixed factor and returns a small representative.
\<close>

locale reduction =
  fixes red :: "int \<Rightarrow> int" and factor :: zq and dom lim :: int
  assumes red_residue: "\<bar>x\<bar> \<le> dom \<Longrightarrow> Zq (red x) * factor = Zq x"
    and red_small: "\<bar>x\<bar> \<le> dom \<Longrightarrow> \<bar>red x\<bar> \<le> lim"
begin

text \<open>The sum of a number with the result of a reduction, as in the butterflies of the transforms.\<close>

lemma sum_wraps_not:
  assumes "\<bar>x\<bar> \<le> dom" "\<bar>y\<bar> + lim \<le> 32767"
  shows "sword16 (y + red x) = y + red x" "sword16 (y - red x) = y - red x"
  using red_small[OF assms(1)] assms(2) by (auto intro!: sword16_abs)

end

lemma MONT_RED_exact:
  assumes "\<bar>a\<bar> \<le> 3329 * 32768"
  shows "\<exists>m. \<bar>m\<bar> \<le> 32768 \<and> 65536 * MLKEM_MONT_RED a = a - m * 3329 \<and> MLKEM_MONT_RED a = (a - m * 3329) div 65536"
proof -
  define m where "m = sword16 (sword16 a * sword16 MLKEM_QINV)"
  have c: "sword16 MLKEM_QINV = - 3327" by (simp add: sword16_def)
  obtain j where j: "sword16 a = a - 65536 * j" using sword16_cong by blast
  obtain k where k: "m = sword16 a * sword16 MLKEM_QINV - 65536 * k" unfolding m_def using sword16_cong by blast
  have "a - m * 3329 = 65536 * (169 * a - 11075583 * j + 3329 * k)"
    unfolding k c j by (simp add: algebra_simps)
  then obtain d where d: "a - m * 3329 = 65536 * d" by blast
  have m: "\<bar>m\<bar> \<le> 32768" unfolding m_def using sword16_range[of "sword16 a * sword16 MLKEM_QINV"] by linarith
  have b: "\<bar>a - m * 3329\<bar> \<le> 3329 * 65536"
  proof -
    have "\<bar>m * 3329\<bar> \<le> 32768 * 3329" using m by (simp add: abs_mult)
    then show ?thesis using assms by linarith
  qed
  have "\<bar>d\<bar> \<le> 3329" using b unfolding d by (simp add: abs_mult)
  then have "sword16 d = d" by (intro sword16_abs) simp
  moreover have "sword32 (a - m * 3329) = 65536 * d" using b d by (simp add: sword32_id)
  ultimately have "MLKEM_MONT_RED a = d" by (simp only: MLKEM_MONT_RED_def m_def[symmetric] MLKEM_Q_def) simp
  then show ?thesis using d m by (intro exI[of _ m]) simp
qed

lemma MONT_RED_residue:
  assumes "\<bar>a\<bar> \<le> 3329 * 32768"
  shows "Zq (MLKEM_MONT_RED a) * 65536 = Zq a"
proof -
  obtain m where "65536 * MLKEM_MONT_RED a = a - m * 3329" using MONT_RED_exact[OF assms] by blast
  then have "Zq (65536 * MLKEM_MONT_RED a) = Zq a" by (simp only: Zq_eq_iff minus_mult_mod_q)
  then show ?thesis by (simp add: mult.commute)
qed

lemma MONT_RED_bound:
  assumes "\<bar>a\<bar> \<le> b" "b \<le> 3329 * 32768"
  shows "\<bar>MLKEM_MONT_RED a\<bar> \<le> (b + 109084672) div 65536"
proof -
  obtain m where m: "\<bar>m\<bar> \<le> 32768" "65536 * MLKEM_MONT_RED a = a - m * 3329"
    using MONT_RED_exact[of a] assms by fastforce
  have "\<bar>65536 * MLKEM_MONT_RED a\<bar> \<le> b + 109084672" unfolding m(2) using assms(1) m(1) by (simp add: abs_if split: if_splits)
  then have "65536 * \<bar>MLKEM_MONT_RED a\<bar> \<le> b + 109084672" by (simp add: abs_mult)
  then show ?thesis by linarith
qed

interpretation mont: reduction MLKEM_MONT_RED 65536 "3329 * 32768" 3329
  by unfold_locales (use MONT_RED_residue MONT_RED_bound[of _ "3329 * 32768"] in auto)

text \<open>Barrett reduction of every 16-bit value gives a representative between 0 and \<open>q\<close>, both included.\<close>

lemma BARRETT_RED_exact:
  assumes "\<bar>a\<bar> \<le> 32768" "a < 32768"
  shows "\<exists>k. MLKEM_BARRETT_RED a = a - k * 3329 \<and> 0 \<le> MLKEM_BARRETT_RED a \<and> MLKEM_BARRETT_RED a \<le> 3329"
proof -
  define k where "k = 20159 * a div 67108864"
  have d: "67108864 * k \<le> 20159 * a" "20159 * a < 67108864 * k + 67108864"
    using mult_div_mod_eq[of 67108864 "20159 * a"] pos_mod_bound[of 67108864 "20159 * a"] pos_mod_sign[of 67108864 "20159 * a"]
    by (simp_all add: k_def)
  have a: "- 32768 \<le> a" "a \<le> 32767" using assms by auto
  have k: "k < 10" "- 11 < k" using d a by linarith+
  then have r: "0 \<le> a - k * 3329" "a - k * 3329 \<le> 3329" "\<bar>k\<bar> \<le> 10" using d a by linarith+
  have s: "sword16 a = a" using assms by (intro sword16_id) auto
  have "sword32 (20159 * a) = 20159 * a" using assms by (intro sword32_id) (simp add: abs_mult)
  moreover have "sword16 k = k" using r(3) by (intro sword16_abs) simp
  moreover have "\<exists>j. sword16 (k * 3329) = k * 3329 - 65536 * j" by (rule sword16_cong)
  then obtain j where j: "sword16 (k * 3329) = k * 3329 - 65536 * j" by blast
  moreover have "sword16 (a - (k * 3329 - 65536 * j)) = a - k * 3329"
  proof -
    have "(a - (k * 3329 - 65536 * j) + 32768) mod 65536 = (a - k * 3329 + 32768 + j * 65536) mod 65536" by (simp add: algebra_simps)
    also have "\<dots> = (a - k * 3329 + 32768) mod 65536" by simp
    finally show ?thesis using r sword16_abs[of "a - k * 3329"] by (simp add: sword16_def)
  qed
  ultimately have "MLKEM_BARRETT_RED a = a - k * 3329"
    by (simp add: MLKEM_BARRETT_RED_def s k_def[symmetric])
  then show ?thesis using r by auto
qed

lemma BARRETT_RED_range: "\<bar>a\<bar> \<le> 32767 \<Longrightarrow> 0 \<le> MLKEM_BARRETT_RED a" "\<bar>a\<bar> \<le> 32767 \<Longrightarrow> MLKEM_BARRETT_RED a \<le> 3329"
  using BARRETT_RED_exact[of a] by auto

lemma BARRETT_RED_residue: "\<bar>a\<bar> \<le> 32767 \<Longrightarrow> Zq (MLKEM_BARRETT_RED a) = Zq a"
  proof -
  assume "\<bar>a\<bar> \<le> 32767"
  then obtain k where "MLKEM_BARRETT_RED a = a - k * 3329" using BARRETT_RED_exact[of a] by fastforce
  then show ?thesis by (simp only: Zq_eq_iff minus_mult_mod_q)
qed

interpretation barrett: reduction MLKEM_BARRETT_RED 1 32767 3329
  by unfold_locales (use BARRETT_RED_range BARRETT_RED_residue in fastforce)+

lemma csubq_eq: "0 \<le> x \<Longrightarrow> x < 2 * 3329 \<Longrightarrow> csubq x = (if x < 3329 then x else x - 3329)"
proof -
  assume x: "0 \<le> x" "x < 2 * 3329"
  have t: "sword16 (x - 3329) = x - 3329" using x by (intro sword16_abs) auto
  have neg: "(x - 3329) mod 65536 div 32768 = (if x < 3329 then 1 else 0)"
  proof (cases "x < 3329")
    case True
    have "(x - 3329) mod 65536 = (x - 3329 + 65536) mod 65536" by (simp only: mod_add_self2)
    also have "\<dots> = x - 3329 + 65536" using True x by (intro mod_pos_pos_trivial) auto
    finally show ?thesis using True x by simp
  next
    case False
    then have "(x - 3329) mod 65536 = x - 3329" using x by (intro mod_pos_pos_trivial) auto
    then show ?thesis using False x by simp
  qed
  have m: "(65535 :: int) AND 3329 = 3329" by simp
  show ?thesis using x by (simp add: csubq_def Let_def t neg m sword16_id)
qed

end
