(* ===== verification/MlkemNtt.thy ===== *)
theory MlkemNtt
  imports MlkemField
begin

text \<open>
  The number theoretic transforms and the multiplication of ML-KEM (\<open>wolfcrypt/src/wc_mlkem_poly.c\<close>), in the variant
  the firmware is built with (two or three layers of butterflies per pass over the polynomial) and, for the forward
  transform, also in the plain variant (\<open>WOLFSSL_MLKEM_SMALL\<close>), which serves as its reference.  A polynomial is the list
  of its 256 coefficients, a vector a list of polynomials.  The body of a loop is a definition that reads eight
  coefficients, transforms them and writes them back; the loop is a \<^const>\<open>fold\<close> over the values of its counter.
\<close>

section \<open>Forward transform\<close>

definition zetas :: "int list" where
  "zetas =
    [2285, 2571, 2970, 1812, 1493, 1422, 287, 202, 3158, 622, 1577, 182, 962, 2127, 1855, 1468,
     573, 2004, 264, 383, 2500, 1458, 1727, 3199, 2648, 1017, 732, 608, 1787, 411, 3124, 1758,
     1223, 652, 2777, 1015, 2036, 1491, 3047, 1785, 516, 3321, 3009, 2663, 1711, 2167, 126, 1469,
     2476, 3239, 3058, 830, 107, 1908, 3082, 2378, 2931, 961, 1821, 2604, 448, 2264, 677, 2054,
     2226, 430, 555, 843, 2078, 871, 1550, 105, 422, 587, 177, 3094, 3038, 2869, 1574, 1653,
     3083, 778, 1159, 3182, 2552, 1483, 2727, 1119, 1739, 644, 2457, 349, 418, 329, 3173, 3254,
     817, 1097, 603, 610, 1322, 2044, 1864, 384, 2114, 3193, 1218, 1994, 2455, 220, 2142, 1670,
     2144, 1799, 2051, 794, 1819, 2475, 2459, 478, 3221, 3021, 996, 991, 958, 1869, 1522, 1628]"

text \<open>\<open>for (j = 0; j < n; j += s)\<close>\<close>

definition steps :: "nat \<Rightarrow> nat \<Rightarrow> nat list" where
  "steps n s = map (\<lambda>i. s * i) [0..<n div s]"

text \<open>Layers of length 128 and 64; layers of length 32, 16 and 8; layers of length 4 and 2.\<close>

definition ntt_body_128 :: "nat \<Rightarrow> int list \<Rightarrow> int list" where
  "ntt_body_128 j r =
     (let zeta128 = zetas ! 1;
          zeta64_0 = zetas ! 2;
          zeta64_1 = zetas ! 3;
          r0 = r ! (j + 0);
          r1 = r ! (j + 32);
          r2 = r ! (j + 64);
          r3 = r ! (j + 96);
          r4 = r ! (j + 128);
          r5 = r ! (j + 160);
          r6 = r ! (j + 192);
          r7 = r ! (j + 224);
          t0 = MLKEM_MONT_RED (zeta128 * r4);
          t1 = MLKEM_MONT_RED (zeta128 * r5);
          t2 = MLKEM_MONT_RED (zeta128 * r6);
          t3 = MLKEM_MONT_RED (zeta128 * r7);
          r4 = sword16 (r0 - t0);
          r5 = sword16 (r1 - t1);
          r6 = sword16 (r2 - t2);
          r7 = sword16 (r3 - t3);
          r0 = sword16 (r0 + t0);
          r1 = sword16 (r1 + t1);
          r2 = sword16 (r2 + t2);
          r3 = sword16 (r3 + t3);
          t0 = MLKEM_MONT_RED (zeta64_0 * r2);
          t1 = MLKEM_MONT_RED (zeta64_0 * r3);
          t2 = MLKEM_MONT_RED (zeta64_1 * r6);
          t3 = MLKEM_MONT_RED (zeta64_1 * r7);
          r2 = sword16 (r0 - t0);
          r3 = sword16 (r1 - t1);
          r6 = sword16 (r4 - t2);
          r7 = sword16 (r5 - t3);
          r0 = sword16 (r0 + t0);
          r1 = sword16 (r1 + t1);
          r4 = sword16 (r4 + t2);
          r5 = sword16 (r5 + t3)
      in r[j + 0 := r0, j + 32 := r1, j + 64 := r2, j + 96 := r3, j + 128 := r4, j + 160 := r5, j + 192 := r6, j + 224 := r7])"

definition ntt_body_32 :: "nat \<Rightarrow> nat \<Rightarrow> int list \<Rightarrow> int list" where
  "ntt_body_32 j i r =
     (let zeta32 = zetas ! (4 + j div 64);
          zeta16_0 = zetas ! (8 + j div 32);
          zeta16_1 = zetas ! (8 + j div 32 + 1);
          zeta8_0 = zetas ! (16 + j div 16 + 0);
          zeta8_1 = zetas ! (16 + j div 16 + 1);
          zeta8_2 = zetas ! (16 + j div 16 + 2);
          zeta8_3 = zetas ! (16 + j div 16 + 3);
          r0 = r ! (j + i + 0);
          r1 = r ! (j + i + 8);
          r2 = r ! (j + i + 16);
          r3 = r ! (j + i + 24);
          r4 = r ! (j + i + 32);
          r5 = r ! (j + i + 40);
          r6 = r ! (j + i + 48);
          r7 = r ! (j + i + 56);
          t0 = MLKEM_MONT_RED (zeta32 * r4);
          t1 = MLKEM_MONT_RED (zeta32 * r5);
          t2 = MLKEM_MONT_RED (zeta32 * r6);
          t3 = MLKEM_MONT_RED (zeta32 * r7);
          r4 = sword16 (r0 - t0);
          r5 = sword16 (r1 - t1);
          r6 = sword16 (r2 - t2);
          r7 = sword16 (r3 - t3);
          r0 = sword16 (r0 + t0);
          r1 = sword16 (r1 + t1);
          r2 = sword16 (r2 + t2);
          r3 = sword16 (r3 + t3);
          t0 = MLKEM_MONT_RED (zeta16_0 * r2);
          t1 = MLKEM_MONT_RED (zeta16_0 * r3);
          t2 = MLKEM_MONT_RED (zeta16_1 * r6);
          t3 = MLKEM_MONT_RED (zeta16_1 * r7);
          r2 = sword16 (r0 - t0);
          r3 = sword16 (r1 - t1);
          r6 = sword16 (r4 - t2);
          r7 = sword16 (r5 - t3);
          r0 = sword16 (r0 + t0);
          r1 = sword16 (r1 + t1);
          r4 = sword16 (r4 + t2);
          r5 = sword16 (r5 + t3);
          t0 = MLKEM_MONT_RED (zeta8_0 * r1);
          t1 = MLKEM_MONT_RED (zeta8_1 * r3);
          t2 = MLKEM_MONT_RED (zeta8_2 * r5);
          t3 = MLKEM_MONT_RED (zeta8_3 * r7);
          r1 = sword16 (r0 - t0);
          r3 = sword16 (r2 - t1);
          r5 = sword16 (r4 - t2);
          r7 = sword16 (r6 - t3);
          r0 = sword16 (r0 + t0);
          r2 = sword16 (r2 + t1);
          r4 = sword16 (r4 + t2);
          r6 = sword16 (r6 + t3)
      in r[j + i + 0 := r0, j + i + 8 := r1, j + i + 16 := r2, j + i + 24 := r3, j + i + 32 := r4, j + i + 40 := r5, j + i + 48 := r6, j + i + 56 := r7])"

definition ntt_vals_4 :: "nat \<Rightarrow> int list \<Rightarrow> int list" where
  "ntt_vals_4 j r =
     (let zeta4 = zetas ! (32 + j div 8);
          zeta2_0 = zetas ! (64 + j div 4);
          zeta2_1 = zetas ! (64 + j div 4 + 1);
          r0 = r ! (j + 0);
          r1 = r ! (j + 1);
          r2 = r ! (j + 2);
          r3 = r ! (j + 3);
          r4 = r ! (j + 4);
          r5 = r ! (j + 5);
          r6 = r ! (j + 6);
          r7 = r ! (j + 7);
          t0 = MLKEM_MONT_RED (zeta4 * r4);
          t1 = MLKEM_MONT_RED (zeta4 * r5);
          t2 = MLKEM_MONT_RED (zeta4 * r6);
          t3 = MLKEM_MONT_RED (zeta4 * r7);
          r4 = sword16 (r0 - t0);
          r5 = sword16 (r1 - t1);
          r6 = sword16 (r2 - t2);
          r7 = sword16 (r3 - t3);
          r0 = sword16 (r0 + t0);
          r1 = sword16 (r1 + t1);
          r2 = sword16 (r2 + t2);
          r3 = sword16 (r3 + t3);
          t0 = MLKEM_MONT_RED (zeta2_0 * r2);
          t1 = MLKEM_MONT_RED (zeta2_0 * r3);
          t2 = MLKEM_MONT_RED (zeta2_1 * r6);
          t3 = MLKEM_MONT_RED (zeta2_1 * r7);
          r2 = sword16 (r0 - t0);
          r3 = sword16 (r1 - t1);
          r6 = sword16 (r4 - t2);
          r7 = sword16 (r5 - t3);
          r0 = sword16 (r0 + t0);
          r1 = sword16 (r1 + t1);
          r4 = sword16 (r4 + t2);
          r5 = sword16 (r5 + t3)
      in [r0, r1, r2, r3, r4, r5, r6, r7])"

definition ntt_body_4 :: "nat \<Rightarrow> int list \<Rightarrow> int list" where
  "ntt_body_4 j r =
     (let v = ntt_vals_4 j r
      in r[j + 0 := MLKEM_BARRETT_RED (v ! 0), j + 1 := MLKEM_BARRETT_RED (v ! 1), j + 2 := MLKEM_BARRETT_RED (v ! 2),
           j + 3 := MLKEM_BARRETT_RED (v ! 3), j + 4 := MLKEM_BARRETT_RED (v ! 4), j + 5 := MLKEM_BARRETT_RED (v ! 5),
           j + 6 := MLKEM_BARRETT_RED (v ! 6), j + 7 := MLKEM_BARRETT_RED (v ! 7)])"

definition ntt_pass_128 :: "int list \<Rightarrow> int list" where
  "ntt_pass_128 r = fold ntt_body_128 [0..<MLKEM_N div 8] r"

definition ntt_pass_32 :: "int list \<Rightarrow> int list" where
  "ntt_pass_32 r = fold (\<lambda>j r. fold (ntt_body_32 j) [0..<8] r) (steps MLKEM_N 64) r"

definition mlkem_ntt :: "int list \<Rightarrow> int list" where
  "mlkem_ntt r = fold ntt_body_4 (steps MLKEM_N 8) (ntt_pass_32 (ntt_pass_128 r))"

text \<open>The variant that adds the transform of \<open>r\<close> to \<open>a\<close>; \<open>r\<close> is left after its first two passes.\<close>

definition ntt_add_body :: "int list \<Rightarrow> nat \<Rightarrow> int list \<Rightarrow> int list" where
  "ntt_add_body r j a =
     (let v = ntt_vals_4 j r; s = (\<lambda>c. MLKEM_BARRETT_RED (sword16 (v ! c + a ! (j + c))))
      in a[j + 0 := s 0, j + 1 := s 1, j + 2 := s 2, j + 3 := s 3, j + 4 := s 4, j + 5 := s 5, j + 6 := s 6, j + 7 := s 7])"

definition mlkem_ntt_add_to :: "int list \<Rightarrow> int list \<Rightarrow> int list \<times> int list" where
  "mlkem_ntt_add_to r a =
     (let r = ntt_pass_32 (ntt_pass_128 r) in (r, fold (ntt_add_body r) (steps MLKEM_N 8) a))"

text \<open>The plain variant: one butterfly at a time; \<open>k\<close> counts the roots used.\<close>

definition butterfly :: "int \<Rightarrow> nat \<Rightarrow> nat \<Rightarrow> int list \<Rightarrow> int list" where
  "butterfly zeta len j r =
     (let p = zeta * r ! (j + len); t = MLKEM_MONT_RED p; rj = r ! j
      in r[j + len := sword16 (rj - t), j := sword16 (rj + t)])"

definition ntt_small_block :: "nat \<Rightarrow> nat \<Rightarrow> nat \<times> int list \<Rightarrow> nat \<times> int list" where
  "ntt_small_block len start = (\<lambda>(k, r). (k + 1, fold (butterfly (zetas ! k) len) [start..<start + len] r))"

definition ntt_small_layer :: "nat \<Rightarrow> nat \<times> int list \<Rightarrow> nat \<times> int list" where
  "ntt_small_layer len s = fold (ntt_small_block len) (steps MLKEM_N (2 * len)) s"

definition mlkem_ntt_small :: "int list \<Rightarrow> int list" where
  "mlkem_ntt_small r = map MLKEM_BARRETT_RED (snd (fold ntt_small_layer [128, 64, 32, 16, 8, 4, 2] (1, r)))"

section \<open>Inverse transform\<close>

definition zetas_inv :: "int list" where
  "zetas_inv =
    [1701, 1807, 1460, 2371, 2338, 2333, 308, 108, 2851, 870, 854, 1510, 2535, 1278, 1530, 1185,
     1659, 1187, 3109, 874, 1335, 2111, 136, 1215, 2945, 1465, 1285, 2007, 2719, 2726, 2232, 2512,
     75, 156, 3000, 2911, 2980, 872, 2685, 1590, 2210, 602, 1846, 777, 147, 2170, 2551, 246,
     1676, 1755, 460, 291, 235, 3152, 2742, 2907, 3224, 1779, 2458, 1251, 2486, 2774, 2899, 1103,
     1275, 2652, 1065, 2881, 725, 1508, 2368, 398, 951, 247, 1421, 3222, 2499, 271, 90, 853,
     1860, 3203, 1162, 1618, 666, 320, 8, 2813, 1544, 282, 1838, 1293, 2314, 552, 2677, 2106,
     1571, 205, 2918, 1542, 2721, 2597, 2312, 681, 130, 1602, 1871, 829, 2946, 3065, 1325, 2756,
     1861, 1474, 1202, 2367, 3147, 1752, 2707, 171, 3127, 3042, 1907, 1836, 1517, 359, 758, 1441]"

definition invntt_body_2 :: "nat \<Rightarrow> int list \<Rightarrow> int list" where
  "invntt_body_2 j r =
     (let zeta2_0 = zetas_inv ! (j div 4);
          zeta2_1 = zetas_inv ! (j div 4 + 1);
          zeta4 = zetas_inv ! (64 + j div 8);
          r0 = r ! (j + 0);
          r1 = r ! (j + 1);
          r2 = r ! (j + 2);
          r3 = r ! (j + 3);
          r4 = r ! (j + 4);
          r5 = r ! (j + 5);
          r6 = r ! (j + 6);
          r7 = r ! (j + 7);
          t0 = MLKEM_MONT_RED (zeta2_0 * sword16 (r0 - r2));
          t1 = MLKEM_MONT_RED (zeta2_0 * sword16 (r1 - r3));
          t2 = MLKEM_MONT_RED (zeta2_1 * sword16 (r4 - r6));
          t3 = MLKEM_MONT_RED (zeta2_1 * sword16 (r5 - r7));
          r0 = sword16 (r0 + r2);
          r1 = sword16 (r1 + r3);
          r4 = sword16 (r4 + r6);
          r5 = sword16 (r5 + r7);
          r2 = t0;
          r3 = t1;
          r6 = t2;
          r7 = t3;
          t0 = MLKEM_MONT_RED (zeta4 * sword16 (r0 - r4));
          t1 = MLKEM_MONT_RED (zeta4 * sword16 (r1 - r5));
          t2 = MLKEM_MONT_RED (zeta4 * sword16 (r2 - r6));
          t3 = MLKEM_MONT_RED (zeta4 * sword16 (r3 - r7));
          r0 = sword16 (r0 + r4);
          r1 = sword16 (r1 + r5);
          r2 = sword16 (r2 + r6);
          r3 = sword16 (r3 + r7);
          r4 = t0;
          r5 = t1;
          r6 = t2;
          r7 = t3
      in r[j + 0 := r0, j + 1 := r1, j + 2 := r2, j + 3 := r3, j + 4 := r4, j + 5 := r5, j + 6 := r6, j + 7 := r7])"

definition invntt_body_8 :: "nat \<Rightarrow> nat \<Rightarrow> int list \<Rightarrow> int list" where
  "invntt_body_8 j i r =
     (let zeta8_0 = zetas_inv ! (96 + j div 16 + 0);
          zeta8_1 = zetas_inv ! (96 + j div 16 + 1);
          zeta8_2 = zetas_inv ! (96 + j div 16 + 2);
          zeta8_3 = zetas_inv ! (96 + j div 16 + 3);
          zeta16_0 = zetas_inv ! (112 + j div 32);
          zeta16_1 = zetas_inv ! (112 + j div 32 + 1);
          zeta32 = zetas_inv ! (120 + j div 64);
          r0 = r ! (j + i + 0);
          r1 = r ! (j + i + 8);
          r2 = r ! (j + i + 16);
          r3 = r ! (j + i + 24);
          r4 = r ! (j + i + 32);
          r5 = r ! (j + i + 40);
          r6 = r ! (j + i + 48);
          r7 = r ! (j + i + 56);
          t0 = MLKEM_MONT_RED (zeta8_0 * sword16 (r0 - r1));
          t1 = MLKEM_MONT_RED (zeta8_1 * sword16 (r2 - r3));
          t2 = MLKEM_MONT_RED (zeta8_2 * sword16 (r4 - r5));
          t3 = MLKEM_MONT_RED (zeta8_3 * sword16 (r6 - r7));
          r0 = MLKEM_BARRETT_RED (r0 + r1);
          r2 = MLKEM_BARRETT_RED (r2 + r3);
          r4 = MLKEM_BARRETT_RED (r4 + r5);
          r6 = MLKEM_BARRETT_RED (r6 + r7);
          r1 = t0;
          r3 = t1;
          r5 = t2;
          r7 = t3;
          t0 = MLKEM_MONT_RED (zeta16_0 * sword16 (r0 - r2));
          t1 = MLKEM_MONT_RED (zeta16_0 * sword16 (r1 - r3));
          t2 = MLKEM_MONT_RED (zeta16_1 * sword16 (r4 - r6));
          t3 = MLKEM_MONT_RED (zeta16_1 * sword16 (r5 - r7));
          r0 = sword16 (r0 + r2);
          r1 = sword16 (r1 + r3);
          r4 = sword16 (r4 + r6);
          r5 = sword16 (r5 + r7);
          r2 = t0;
          r3 = t1;
          r6 = t2;
          r7 = t3;
          t0 = MLKEM_MONT_RED (zeta32 * sword16 (r0 - r4));
          t1 = MLKEM_MONT_RED (zeta32 * sword16 (r1 - r5));
          t2 = MLKEM_MONT_RED (zeta32 * sword16 (r2 - r6));
          t3 = MLKEM_MONT_RED (zeta32 * sword16 (r3 - r7));
          r0 = sword16 (r0 + r4);
          r1 = sword16 (r1 + r5);
          r2 = sword16 (r2 + r6);
          r3 = sword16 (r3 + r7);
          r4 = t0;
          r5 = t1;
          r6 = t2;
          r7 = t3
      in r[j + i + 0 := r0, j + i + 8 := r1, j + i + 16 := r2, j + i + 24 := r3, j + i + 32 := r4, j + i + 40 := r5, j + i + 48 := r6, j + i + 56 := r7])"

definition invntt_body_64 :: "nat \<Rightarrow> int list \<Rightarrow> int list" where
  "invntt_body_64 j r =
     (let zeta64_0 = zetas_inv ! 124;
          zeta64_1 = zetas_inv ! 125;
          zeta128 = zetas_inv ! 126;
          zeta256 = zetas_inv ! 127;
          r0 = r ! (j + 0);
          r1 = r ! (j + 32);
          r2 = r ! (j + 64);
          r3 = r ! (j + 96);
          r4 = r ! (j + 128);
          r5 = r ! (j + 160);
          r6 = r ! (j + 192);
          r7 = r ! (j + 224);
          t0 = MLKEM_MONT_RED (zeta64_0 * sword16 (r0 - r2));
          t1 = MLKEM_MONT_RED (zeta64_0 * sword16 (r1 - r3));
          t2 = MLKEM_MONT_RED (zeta64_1 * sword16 (r4 - r6));
          t3 = MLKEM_MONT_RED (zeta64_1 * sword16 (r5 - r7));
          r0 = MLKEM_BARRETT_RED (r0 + r2);
          r1 = MLKEM_BARRETT_RED (r1 + r3);
          r4 = MLKEM_BARRETT_RED (r4 + r6);
          r5 = MLKEM_BARRETT_RED (r5 + r7);
          r2 = t0;
          r3 = t1;
          r6 = t2;
          r7 = t3;
          t0 = MLKEM_MONT_RED (zeta128 * sword16 (r0 - r4));
          t1 = MLKEM_MONT_RED (zeta128 * sword16 (r1 - r5));
          t2 = MLKEM_MONT_RED (zeta128 * sword16 (r2 - r6));
          t3 = MLKEM_MONT_RED (zeta128 * sword16 (r3 - r7));
          r0 = sword16 (r0 + r4);
          r1 = sword16 (r1 + r5);
          r2 = sword16 (r2 + r6);
          r3 = sword16 (r3 + r7);
          r4 = t0;
          r5 = t1;
          r6 = t2;
          r7 = t3;
          r0 = MLKEM_MONT_RED (zeta256 * r0);
          r1 = MLKEM_MONT_RED (zeta256 * r1);
          r2 = MLKEM_MONT_RED (zeta256 * r2);
          r3 = MLKEM_MONT_RED (zeta256 * r3);
          r4 = MLKEM_MONT_RED (zeta256 * r4);
          r5 = MLKEM_MONT_RED (zeta256 * r5);
          r6 = MLKEM_MONT_RED (zeta256 * r6);
          r7 = MLKEM_MONT_RED (zeta256 * r7)
      in r[j + 0 := r0, j + 32 := r1, j + 64 := r2, j + 96 := r3, j + 128 := r4, j + 160 := r5, j + 192 := r6, j + 224 := r7])"


definition mlkem_invntt :: "int list \<Rightarrow> int list" where
  "mlkem_invntt r =
     (let r = fold invntt_body_2 (steps MLKEM_N 8) r;
          r = fold (\<lambda>j r. fold (invntt_body_8 j) [0..<8] r) (steps MLKEM_N 64) r
      in fold invntt_body_64 [0..<MLKEM_N div 8] r)"

section \<open>Multiplication\<close>

definition mlkem_basemul :: "int \<times> int \<Rightarrow> int \<times> int \<Rightarrow> int \<Rightarrow> int \<times> int" where
  "mlkem_basemul = (\<lambda>(a0, a1) (b0, b1) zeta.
     (let p1 = a0 * b0; p2 = a1 * b1; r0 = MLKEM_MONT_RED p2; p2 = zeta * r0; p2 = sword32 (p2 + p1);
          p1' = a0 * b1; p2' = a1 * b0; p1' = sword32 (p1' + p2')
      in (MLKEM_MONT_RED p2, MLKEM_MONT_RED p1')))"

definition pair_at :: "int list \<Rightarrow> nat \<Rightarrow> int \<times> int" where
  "pair_at a i = (a ! i, a ! (i + 1))"

definition mul_at :: "int list \<Rightarrow> int list \<Rightarrow> nat \<Rightarrow> int \<Rightarrow> int list \<Rightarrow> int list" where
  "mul_at a b i zeta r = (let (x, y) = mlkem_basemul (pair_at a i) (pair_at b i) zeta in r[i := x, i + 1 := y])"

definition basemul_body :: "int list \<Rightarrow> int list \<Rightarrow> nat \<Rightarrow> int list \<Rightarrow> int list" where
  "basemul_body a b i r =
     (let zeta = (\<lambda>m. zetas ! (64 + i div 4 + m));
          r = mul_at a b (i + 0) (zeta 0) r; r = mul_at a b (i + 2) (sword16 (- zeta 0)) r;
          r = mul_at a b (i + 4) (zeta 1) r; r = mul_at a b (i + 6) (sword16 (- zeta 1)) r;
          r = mul_at a b (i + 8) (zeta 2) r; r = mul_at a b (i + 10) (sword16 (- zeta 2)) r;
          r = mul_at a b (i + 12) (zeta 3) r; r = mul_at a b (i + 14) (sword16 (- zeta 3)) r
      in r)"

definition mlkem_basemul_mont :: "int list \<Rightarrow> int list \<Rightarrow> int list \<Rightarrow> int list" where
  "mlkem_basemul_mont r a b = fold (basemul_body a b) (steps MLKEM_N 16) r"

text \<open>\<open>mlkem_decapsulate\<close> calls it with the result in place of the second factor: every product reads the array as it is then.\<close>

definition basemul_inplace_body :: "int list \<Rightarrow> nat \<Rightarrow> int list \<Rightarrow> int list" where
  "basemul_inplace_body a i r =
     (let zeta = (\<lambda>m. zetas ! (64 + i div 4 + m));
          r = mul_at a r (i + 0) (zeta 0) r; r = mul_at a r (i + 2) (sword16 (- zeta 0)) r;
          r = mul_at a r (i + 4) (zeta 1) r; r = mul_at a r (i + 6) (sword16 (- zeta 1)) r;
          r = mul_at a r (i + 8) (zeta 2) r; r = mul_at a r (i + 10) (sword16 (- zeta 2)) r;
          r = mul_at a r (i + 12) (zeta 3) r; r = mul_at a r (i + 14) (sword16 (- zeta 3)) r
      in r)"

definition mlkem_basemul_mont_inplace :: "int list \<Rightarrow> int list \<Rightarrow> int list" where
  "mlkem_basemul_mont_inplace r a = fold (basemul_inplace_body a) (steps MLKEM_N 16) r"

definition add_at :: "int \<times> int \<Rightarrow> nat \<Rightarrow> int list \<Rightarrow> int list" where
  "add_at t i r = r[i := sword16 (r ! i + fst t), i + 1 := sword16 (r ! (i + 1) + snd t)]"

definition basemul_add_body :: "int list \<Rightarrow> int list \<Rightarrow> nat \<Rightarrow> int list \<Rightarrow> int list" where
  "basemul_add_body a b i r =
     (let zeta = (\<lambda>m. zetas ! (64 + i div 4 + m));
          mul = (\<lambda>c z. mlkem_basemul (pair_at a (i + c)) (pair_at b (i + c)) z);
          t0 = mul 0 (zeta 0); t2 = mul 2 (sword16 (- zeta 0)); t4 = mul 4 (zeta 1); t6 = mul 6 (sword16 (- zeta 1));
          t8 = mul 8 (zeta 2); t10 = mul 10 (sword16 (- zeta 2)); t12 = mul 12 (zeta 3); t14 = mul 14 (sword16 (- zeta 3));
          r = add_at t0 (i + 0) r; r = add_at t2 (i + 2) r; r = add_at t4 (i + 4) r; r = add_at t6 (i + 6) r;
          r = add_at t8 (i + 8) r; r = add_at t10 (i + 10) r; r = add_at t12 (i + 12) r; r = add_at t14 (i + 14) r
      in r)"

definition mlkem_basemul_mont_add :: "int list \<Rightarrow> int list \<Rightarrow> int list \<Rightarrow> int list" where
  "mlkem_basemul_mont_add r a b = fold (basemul_add_body a b) (steps MLKEM_N 16) r"

definition mlkem_pointwise_acc_mont :: "int list \<Rightarrow> int list list \<Rightarrow> int list list \<Rightarrow> nat \<Rightarrow> int list" where
  "mlkem_pointwise_acc_mont r a b k =
     (let r = mlkem_basemul_mont r (a ! 0) (b ! 0);
          r = fold (\<lambda>i r. mlkem_basemul_mont_add r (a ! i) (b ! i)) [1..<k - 1] r
      in mlkem_basemul_mont_add r (a ! (k - 1)) (b ! (k - 1)))"

text \<open>The same with the result in place of the first polynomial of \<open>b\<close>.\<close>

definition pointwise_acc_inplace :: "int list list \<Rightarrow> int list list \<Rightarrow> nat \<Rightarrow> int list" where
  "pointwise_acc_inplace a b k =
     (let r = mlkem_basemul_mont_inplace (b ! 0) (a ! 0);
          r = fold (\<lambda>i r. mlkem_basemul_mont_add r (a ! i) (b ! i)) [1..<k - 1] r
      in mlkem_basemul_mont_add r (a ! (k - 1)) (b ! (k - 1)))"

end
