(* ===== verification/MlkemCodec.thy ===== *)
theory MlkemCodec
  imports MlkemNtt
begin

text \<open>
  Compression, decompression and the byte formats of ML-KEM (\<open>wolfcrypt/src/wc_mlkem_poly.c\<close>): ciphertexts with 10, 11, 4
  and 5 bits a coefficient, messages with one bit, keys with 12 bits.  A vector is the list of its polynomials, an
  output buffer the list of the bytes stored, in order.  Functions that first reduce their polynomials in place
  (\<open>mlkem_csubq_c\<close>) return them too.
\<close>

section \<open>Words\<close>

definition MLKEM_Q_1_HALF :: int where [simp]: "MLKEM_Q_1_HALF = (MLKEM_Q + 1) div 2"
definition MLKEM_Q_HALF :: int where [simp]: "MLKEM_Q_HALF = MLKEM_Q div 2"
definition WC_ML_KEM_POLY_SIZE :: nat where [simp]: "WC_ML_KEM_POLY_SIZE = 384"

definition MLKEM_V53 :: u64 where "MLKEM_V53 = 0x275f6ed0176"
definition MLKEM_V53_HALF :: u64 where "MLKEM_V53_HALF = 0x10013afb768076"
definition MLKEM_V54 :: u64 where "MLKEM_V54 = 0x4ebedda02ec"
definition MLKEM_V54_HALF :: u64 where "MLKEM_V54_HALF = 0x200275f6ed00ec"
definition MLKEM_V28 :: u32 where "MLKEM_V28 = word_of_int ((2 ^ 28 + MLKEM_Q_HALF) div MLKEM_Q)"
definition MLKEM_V28_HALF :: u32 where "MLKEM_V28_HALF = MLKEM_V28 * word_of_int (MLKEM_Q_HALF + 1)"
definition MLKEM_V27 :: u32 where "MLKEM_V27 = word_of_int ((2 ^ 27 + MLKEM_Q_HALF) div MLKEM_Q)"
definition MLKEM_V27_HALF :: u32 where "MLKEM_V27_HALF = MLKEM_V27 * word_of_int MLKEM_Q_HALF"
definition MLKEM_V31 :: u32 where "MLKEM_V31 = word_of_int ((2 ^ 31 + MLKEM_Q div 2) div MLKEM_Q)"
definition MLKEM_V31_2 :: u32 where "MLKEM_V31_2 = MLKEM_V31 * 2"
definition MLKEM_V31_HALF :: u32 where "MLKEM_V31_HALF = MLKEM_V31 * word_of_int MLKEM_Q_HALF"

text \<open>A coefficient is sign extended to the width of the multiplication, which wraps.\<close>

definition TO_COMP_WORD_10 :: "int \<Rightarrow> u64" where
  "TO_COMP_WORD_10 x = drop_bit 54 (push_bit 10 MLKEM_V54 * word_of_int x + MLKEM_V54_HALF)"

definition TO_COMP_WORD_11 :: "int \<Rightarrow> u64" where
  "TO_COMP_WORD_11 x = drop_bit 53 (push_bit 11 MLKEM_V53 * word_of_int x + MLKEM_V53_HALF)"

definition TO_COMP_WORD_4 :: "int \<Rightarrow> u32" where
  "TO_COMP_WORD_4 x = drop_bit 28 (push_bit 4 MLKEM_V28 * word_of_int x + MLKEM_V28_HALF)"

definition TO_COMP_WORD_5 :: "int \<Rightarrow> u32" where
  "TO_COMP_WORD_5 x = drop_bit 27 (push_bit 5 MLKEM_V27 * word_of_int x + MLKEM_V27_HALF)"

definition TO_MSG_BIT :: "int \<Rightarrow> u32" where
  "TO_MSG_BIT x = drop_bit 31 (MLKEM_V31_2 * word_of_int x + MLKEM_V31_HALF)"

definition DECOMP_10 :: "int \<Rightarrow> int" where
  "DECOMP_10 t = sword16 ((((t AND 0x3ff) * MLKEM_Q + 512) mod 2 ^ 32 div 2 ^ 10) mod 2 ^ 16)"

definition DECOMP_11 :: "int \<Rightarrow> int" where
  "DECOMP_11 t = sword16 ((((t AND 0x7ff) * MLKEM_Q + 1024) mod 2 ^ 32 div 2 ^ 11) mod 2 ^ 16)"

definition DECOMP_4 :: "int \<Rightarrow> int" where
  "DECOMP_4 t = sword16 (((t * MLKEM_Q) mod 2 ^ 16 + 8) div 2 ^ 4)"

definition DECOMP_5 :: "int \<Rightarrow> int" where
  "DECOMP_5 t = sword16 (((t AND 0x1f) * MLKEM_Q + 16) mod 2 ^ 32 div 2 ^ 5)"

section \<open>Packing\<close>

text \<open>
  One round of a loop: the values \<open>t 0, t 1, \<dots>\<close> into bytes, the bytes \<open>b 0, b 1, \<dots>\<close> into values.  The shifts are
  on \<open>int\<close>, to which C promotes both operands; storing into a byte keeps the low eight bits.
\<close>

definition byte_of :: "int \<Rightarrow> u8" where
  "byte_of x = word_of_int x"

definition pack_10 :: "(nat \<Rightarrow> int) \<Rightarrow> bytes" where
  "pack_10 t = [byte_of (drop_bit 0 (t 0)),
     byte_of (drop_bit 8 (t 0) OR push_bit 2 (t 1)),
     byte_of (drop_bit 6 (t 1) OR push_bit 4 (t 2)),
     byte_of (drop_bit 4 (t 2) OR push_bit 6 (t 3)),
     byte_of (drop_bit 2 (t 3))]"

definition unpack_10 :: "(nat \<Rightarrow> int) \<Rightarrow> int list" where
  "unpack_10 b = [sword16 (drop_bit 0 (b 0) OR push_bit 8 (b 1)),
     sword16 (drop_bit 2 (b 1) OR push_bit 6 (b 2)),
     sword16 (drop_bit 4 (b 2) OR push_bit 4 (b 3)),
     sword16 (drop_bit 6 (b 3) OR push_bit 2 (b 4))]"

definition pack_11 :: "(nat \<Rightarrow> int) \<Rightarrow> bytes" where
  "pack_11 t = [byte_of (drop_bit 0 (t 0)),
     byte_of (drop_bit 8 (t 0) OR push_bit 3 (t 1)),
     byte_of (drop_bit 5 (t 1) OR push_bit 6 (t 2)),
     byte_of (drop_bit 2 (t 2)),
     byte_of (drop_bit 10 (t 2) OR push_bit 1 (t 3)),
     byte_of (drop_bit 7 (t 3) OR push_bit 4 (t 4)),
     byte_of (drop_bit 4 (t 4) OR push_bit 7 (t 5)),
     byte_of (drop_bit 1 (t 5)),
     byte_of (drop_bit 9 (t 5) OR push_bit 2 (t 6)),
     byte_of (drop_bit 6 (t 6) OR push_bit 5 (t 7)),
     byte_of (drop_bit 3 (t 7))]"

definition unpack_11 :: "(nat \<Rightarrow> int) \<Rightarrow> int list" where
  "unpack_11 b = [sword16 (drop_bit 0 (b 0) OR push_bit 8 (b 1)),
     sword16 (drop_bit 3 (b 1) OR push_bit 5 (b 2)),
     sword16 (drop_bit 6 (b 2) OR push_bit 2 (b 3) OR push_bit 10 (b 4)),
     sword16 (drop_bit 1 (b 4) OR push_bit 7 (b 5)),
     sword16 (drop_bit 4 (b 5) OR push_bit 4 (b 6)),
     sword16 (drop_bit 7 (b 6) OR push_bit 1 (b 7) OR push_bit 9 (b 8)),
     sword16 (drop_bit 2 (b 8) OR push_bit 6 (b 9)),
     sword16 (drop_bit 5 (b 9) OR push_bit 3 (b 10))]"

definition pack_4 :: "(nat \<Rightarrow> int) \<Rightarrow> bytes" where
  "pack_4 t = [byte_of (t 0 OR push_bit 4 (t 1)), byte_of (t 2 OR push_bit 4 (t 3)),
     byte_of (t 4 OR push_bit 4 (t 5)), byte_of (t 6 OR push_bit 4 (t 7))]"

definition unpack_4 :: "(nat \<Rightarrow> int) \<Rightarrow> int list" where
  "unpack_4 b = [b 0 AND 0xf, drop_bit 4 (b 0)]"

definition pack_5 :: "(nat \<Rightarrow> int) \<Rightarrow> bytes" where
  "pack_5 t = [byte_of (drop_bit 0 (t 0) OR push_bit 5 (t 1)),
     byte_of (drop_bit 3 (t 1) OR push_bit 2 (t 2) OR push_bit 7 (t 3)),
     byte_of (drop_bit 1 (t 3) OR push_bit 4 (t 4)),
     byte_of (drop_bit 4 (t 4) OR push_bit 1 (t 5) OR push_bit 6 (t 6)),
     byte_of (drop_bit 2 (t 6) OR push_bit 3 (t 7))]"

definition unpack_5 :: "(nat \<Rightarrow> int) \<Rightarrow> int list" where
  "unpack_5 b = map (\<lambda>x. uint (byte_of x)) [drop_bit 0 (b 0),
     drop_bit 5 (b 0) OR push_bit 3 (b 1),
     drop_bit 2 (b 1),
     drop_bit 7 (b 1) OR push_bit 1 (b 2),
     drop_bit 4 (b 2) OR push_bit 4 (b 3),
     drop_bit 1 (b 3),
     drop_bit 6 (b 3) OR push_bit 2 (b 4),
     drop_bit 3 (b 4)]"

definition pack_12 :: "(nat \<Rightarrow> int) \<Rightarrow> bytes" where
  "pack_12 t = [byte_of (drop_bit 0 (t 0)), byte_of (drop_bit 8 (t 0) OR push_bit 4 (t 1)), byte_of (drop_bit 4 (t 1))]"

definition unpack_12 :: "(nat \<Rightarrow> int) \<Rightarrow> int list" where
  "unpack_12 b = [(drop_bit 0 (b 0) OR push_bit 8 (b 1)) AND 0xfff, (drop_bit 4 (b 1) OR push_bit 4 (b 2)) AND 0xfff]"

definition mlkem_opt_blocker :: int where "mlkem_opt_blocker = 0"

definition FROM_MSG_BIT :: "int \<Rightarrow> nat \<Rightarrow> int" where
  "FROM_MSG_BIT m j = sword16 (((0 - sword16 (drop_bit j m AND 1)) XOR mlkem_opt_blocker) AND MLKEM_Q_1_HALF)"

definition pack_msg :: "(nat \<Rightarrow> int) \<Rightarrow> bytes" where
  "pack_msg t = [fold (\<lambda>j m. m OR byte_of (uint (push_bit j (TO_MSG_BIT (t j))))) [0, 1, 2, 3, 4, 5, 6, 7] 0]"

definition unpack_msg :: "(nat \<Rightarrow> int) \<Rightarrow> int list" where
  "unpack_msg b = map (FROM_MSG_BIT (b 0)) [0, 1, 2, 3, 4, 5, 6, 7]"

section \<open>Polynomials\<close>

definition mlkem_vec_compress_10_c :: "int list list \<Rightarrow> nat \<Rightarrow> bytes \<times> int list list" where
  "mlkem_vec_compress_10_c v k =
     (let v = map mlkem_csubq_c v
      in (concat (map (\<lambda>i. concat (map (\<lambda>j. pack_10 (\<lambda>l. sword16 (uint (TO_COMP_WORD_10 (v ! i ! (j + l)))))) (steps MLKEM_N 4))) [0..<k]), v))"

definition mlkem_vec_compress_11_c :: "int list list \<Rightarrow> bytes \<times> int list list" where
  "mlkem_vec_compress_11_c v =
     (let v = map mlkem_csubq_c v
      in (concat (map (\<lambda>i. concat (map (\<lambda>j. pack_11 (\<lambda>l. sword16 (uint (TO_COMP_WORD_11 (v ! i ! (j + l)))))) (steps MLKEM_N 8))) [0..<4]), v))"

definition mlkem_vec_decompress_10_c :: "bytes \<Rightarrow> nat \<Rightarrow> int list list" where
  "mlkem_vec_decompress_10_c b k =
     map (\<lambda>i. concat (map (\<lambda>j. map DECOMP_10 (unpack_10 (\<lambda>c. uint (b ! (320 * i + 5 * j + c))))) [0..<MLKEM_N div 4])) [0..<k]"

definition mlkem_vec_decompress_11_c :: "bytes \<Rightarrow> int list list" where
  "mlkem_vec_decompress_11_c b =
     map (\<lambda>i. concat (map (\<lambda>j. map DECOMP_11 (unpack_11 (\<lambda>c. uint (b ! (352 * i + 11 * j + c))))) [0..<MLKEM_N div 8])) [0..<4]"

definition mlkem_compress_4_c :: "int list \<Rightarrow> bytes \<times> int list" where
  "mlkem_compress_4_c p =
     (let p = mlkem_csubq_c p
      in (concat (map (\<lambda>i. pack_4 (\<lambda>l. uint (byte_of (uint (TO_COMP_WORD_4 (p ! (i + l))))))) (steps MLKEM_N 8)), p))"

definition mlkem_compress_5_c :: "int list \<Rightarrow> bytes \<times> int list" where
  "mlkem_compress_5_c p =
     (let p = mlkem_csubq_c p
      in (concat (map (\<lambda>i. pack_5 (\<lambda>l. uint (byte_of (uint (TO_COMP_WORD_5 (p ! (i + l))))))) (steps MLKEM_N 8)), p))"

definition mlkem_decompress_4_c :: "bytes \<Rightarrow> int list" where
  "mlkem_decompress_4_c b = concat (map (\<lambda>i. map DECOMP_4 (unpack_4 (\<lambda>c. uint (b ! (i + c))))) [0..<MLKEM_N div 2])"

definition mlkem_decompress_5_c :: "bytes \<Rightarrow> int list" where
  "mlkem_decompress_5_c b = concat (map (\<lambda>i. map DECOMP_5 (unpack_5 (\<lambda>c. uint (b ! (5 * i + c))))) [0..<MLKEM_N div 8])"

definition mlkem_from_msg_c :: "bytes \<Rightarrow> int list" where
  "mlkem_from_msg_c msg = concat (map (\<lambda>i. unpack_msg (\<lambda>c. uint (msg ! (i + c)))) [0..<MLKEM_N div 8])"

definition mlkem_to_msg_c :: "int list \<Rightarrow> bytes \<times> int list" where
  "mlkem_to_msg_c p =
     (let p = mlkem_csubq_c p
      in (concat (map (\<lambda>i. pack_msg (\<lambda>j. p ! (8 * i + j))) [0..<MLKEM_N div 8]), p))"

definition mlkem_from_bytes_c :: "bytes \<Rightarrow> nat \<Rightarrow> int list list" where
  "mlkem_from_bytes_c b k =
     map (\<lambda>j. concat (map (\<lambda>i. unpack_12 (\<lambda>c. uint (b ! (WC_ML_KEM_POLY_SIZE * j + 3 * i + c)))) [0..<MLKEM_N div 2])) [0..<k]"

definition mlkem_to_bytes_c :: "int list list \<Rightarrow> nat \<Rightarrow> bytes \<times> int list list" where
  "mlkem_to_bytes_c p k =
     (let p = map mlkem_csubq_c p
      in (concat (map (\<lambda>j. concat (map (\<lambda>i. pack_12 (\<lambda>l. p ! j ! (2 * i + l) mod 2 ^ 16)) [0..<MLKEM_N div 2])) [0..<k]), p))"

end
