(* ===== verification/MlkemSample.thy ===== *)
theory MlkemSample
  imports MlkemCodec
begin

text \<open>
  Sampling of ML-KEM (\<open>wolfcrypt/src/wc_mlkem_poly.c\<close>): rejection sampling of the matrix from an extendable output function,
  and the centred binomial distributions of the noise.  The Keccak based functions are parameters, collected in a
  record: absorbing and squeezing blocks (SHAKE-128), the pseudo-random function (SHAKE-256), the hashes (SHA3-512,
  SHA3-256) and the derivation of the rejection secret (SHAKE-256).  Each returns the code of the C function first; memory
  allocation of a number of bytes may fail, and a fresh polynomial holds the values \<open>garbage\<close>.
\<close>

section \<open>Parameters\<close>

record 'x hashes =
  xof_absorb :: "bytes \<Rightarrow> int \<times> 'x"
  xof_squeezeblocks :: "'x \<Rightarrow> nat \<Rightarrow> int \<times> bytes \<times> 'x"
  prf_bytes :: "bytes \<Rightarrow> nat \<Rightarrow> int \<times> bytes"
  hash_g :: "bytes \<Rightarrow> int \<times> bytes"
  hash_h :: "bytes \<Rightarrow> int \<times> bytes"
  derive_secret :: "bytes \<Rightarrow> bytes \<Rightarrow> int \<times> bytes"
  alloc :: "nat \<Rightarrow> bool"
  garbage :: "int list"

abbreviation E_MEMORY :: int where "E_MEMORY \<equiv> -125"
abbreviation E_BUFFER :: int where "E_BUFFER \<equiv> -132"
abbreviation E_BAD_FUNC_ARG :: int where "E_BAD_FUNC_ARG \<equiv> -173"
abbreviation E_NOT_COMPILED_IN :: int where "E_NOT_COMPILED_IN \<equiv> -174"
abbreviation E_BAD_STATE :: int where "E_BAD_STATE \<equiv> -192"

definition WC_ML_KEM_SYM_SZ :: nat where [simp]: "WC_ML_KEM_SYM_SZ = 32"
definition XOF_BLOCK_SIZE :: nat where [simp]: "XOF_BLOCK_SIZE = 168"
definition GEN_MATRIX_NBLOCKS :: nat where "GEN_MATRIX_NBLOCKS = (12 * MLKEM_N div 8 * 2 ^ 12 div 3329 + XOF_BLOCK_SIZE) div XOF_BLOCK_SIZE"
definition GEN_MATRIX_SIZE :: nat where "GEN_MATRIX_SIZE = GEN_MATRIX_NBLOCKS * XOF_BLOCK_SIZE"
definition ETA3_RAND_SIZE :: nat where [simp]: "ETA3_RAND_SIZE = (3 * MLKEM_N) div 4"
definition ETA2_RAND_SIZE :: nat where [simp]: "ETA2_RAND_SIZE = (2 * MLKEM_N) div 4"

section \<open>Uniform integers\<close>

text \<open>
  The loop of \<open>mlkem_rej_uniform_c\<close> on the part of the polynomial \<open>p\<close> that begins at \<open>off\<close>: \<open>i\<close> integers are stored, \<open>j\<close> bytes
  are used.  Both callers pass at least three bytes.
\<close>

function rej_loop :: "nat \<Rightarrow> nat \<Rightarrow> bytes \<Rightarrow> nat \<Rightarrow> int list \<Rightarrow> nat \<Rightarrow> nat \<Rightarrow> int list \<times> nat" where
  "rej_loop off len r rLen p i j =
     (if i < len \<and> j \<le> rLen - 3
      then let v0 = sword16 ((drop_bit 0 (uint (r ! j)) OR push_bit 8 (uint (r ! (j + 1)))) AND 0xFFF);
               v1 = sword16 ((drop_bit 4 (uint (r ! (j + 1))) OR push_bit 4 (uint (r ! (j + 2)))) AND 0xFFF);
               (p, i) = (if v0 < MLKEM_Q then (p[off + i := v0], i + 1) else (p, i));
               (p, i) = (if i < len \<and> v1 < MLKEM_Q then (p[off + i := v1], i + 1) else (p, i))
           in rej_loop off len r rLen p i (j + 3)
      else (p, i))"
  by pat_completeness auto
termination by (relation "measure (\<lambda>(off, len, r, rLen, p, i, j). Suc rLen - j)") auto

declare rej_loop.simps [simp del]

definition mlkem_rej_uniform_c :: "int list \<Rightarrow> nat \<Rightarrow> nat \<Rightarrow> bytes \<Rightarrow> nat \<Rightarrow> int list \<times> nat" where
  "mlkem_rej_uniform_c p off len r rLen = rej_loop off len r rLen p 0 0"

text \<open>
  The loop that squeezes one more block while integers are missing.  It ignores the code \<open>mlkem_xof_squeezeblocks\<close> returns,
  and ends only when the blocks hold enough integers below \<open>q\<close>; \<^const>\<open>None\<close> is a loop that does not end.
\<close>

partial_function (option) sample_more :: "'x hashes \<Rightarrow> 'x \<Rightarrow> int list \<Rightarrow> nat \<Rightarrow> int list option" where
  "sample_more hs x p ctr =
     (if ctr < MLKEM_N
      then let (ret, rand, x) = xof_squeezeblocks hs x 1;
               (p, n) = mlkem_rej_uniform_c p ctr (MLKEM_N - ctr) rand XOF_BLOCK_SIZE
           in sample_more hs x p (ctr + n)
      else Some p)"

definition gen_poly :: "'x hashes \<Rightarrow> bytes \<Rightarrow> int list \<Rightarrow> (int \<times> int list) option" where
  "gen_poly hs extSeed p =
     (case xof_absorb hs extSeed of (ret, x) \<Rightarrow>
        if ret \<noteq> 0 then Some (ret, p)
        else case xof_squeezeblocks hs x GEN_MATRIX_NBLOCKS of (ret, rand, x) \<Rightarrow>
          if ret \<noteq> 0 then Some (ret, p)
          else let (p, ctr) = mlkem_rej_uniform_c p 0 MLKEM_N rand GEN_MATRIX_SIZE
               in map_option (Pair 0) (sample_more hs x p ctr))"

fun gen_matrix_loop :: "'x hashes \<Rightarrow> bytes \<Rightarrow> nat \<Rightarrow> bool \<Rightarrow> nat list \<Rightarrow> int list list \<Rightarrow> (int \<times> int list list) option" where
  "gen_matrix_loop hs seed i transposed [] a = Some (0, a)"
| "gen_matrix_loop hs seed i transposed (j # js) a =
     (let extSeed = take WC_ML_KEM_SYM_SZ seed @ (if transposed then [of_nat i, of_nat j] else [of_nat j, of_nat i])
      in case gen_poly hs extSeed (a ! j) of
           None \<Rightarrow> None
         | Some (ret, p) \<Rightarrow> if ret \<noteq> 0 then Some (ret, a[j := p]) else gen_matrix_loop hs seed i transposed js (a[j := p]))"

definition mlkem_gen_matrix_i :: "'x hashes \<Rightarrow> int list list \<Rightarrow> nat \<Rightarrow> bytes \<Rightarrow> nat \<Rightarrow> bool \<Rightarrow> (int \<times> int list list) option" where
  "mlkem_gen_matrix_i hs a k seed i transposed =
     (if alloc hs (GEN_MATRIX_SIZE + 2) then gen_matrix_loop hs seed i transposed [0..<k] a else Some (E_MEMORY, a))"

section \<open>Noise\<close>

text \<open>A load of eight bytes on the little endian processor.\<close>

definition readUnalignedWord64 :: "bytes \<Rightarrow> u64" where
  "readUnalignedWord64 b = word_of_int (horner_sum uint 256 (take 8 b))"

definition ETA2_SUB :: "u64 \<Rightarrow> nat \<Rightarrow> int" where
  "ETA2_SUB d i = sword16 (uint (drop_bit (i * 4 + 0) d AND 0x3)) - sword16 (uint (drop_bit (i * 4 + 2) d AND 0x3))"

definition ETA3_SUB :: "u64 \<Rightarrow> nat \<Rightarrow> int" where
  "ETA3_SUB d i = sword16 (uint (drop_bit (i * 6 + 0) d AND 0x7)) - sword16 (uint (drop_bit (i * 6 + 3) d AND 0x7))"

definition eta2_word :: "u64 \<Rightarrow> u64" where
  "eta2_word t = (drop_bit 0 t AND 0x5555555555555555) + (drop_bit 1 t AND 0x5555555555555555)"

definition eta3_word :: "u64 \<Rightarrow> u64" where
  "eta3_word t = (drop_bit 0 t AND 0x0000249249249249) + (drop_bit 1 t AND 0x0000249249249249) + (drop_bit 2 t AND 0x0000249249249249)"

definition mlkem_cbd_eta2 :: "bytes \<Rightarrow> int list" where
  "mlkem_cbd_eta2 r =
     concat (map (\<lambda>i. let d = eta2_word (readUnalignedWord64 (drop (8 * i) r))
                      in map (\<lambda>j. sword16 (ETA2_SUB d j)) [0, 1, 2, 3, 4, 5, 6, 7, 8, 9, 10, 11, 12, 13, 14, 15]) [0..<MLKEM_N div 16])"

definition load_48 :: "(nat \<Rightarrow> u8) \<Rightarrow> u64" where
  "load_48 r = push_bit 0 (ucast (r 0)) OR push_bit 8 (ucast (r 1)) OR push_bit 16 (ucast (r 2)) OR
     push_bit 24 (ucast (r 3)) OR push_bit 32 (ucast (r 4)) OR push_bit 40 (ucast (r 5))"

definition mlkem_cbd_eta3 :: "bytes \<Rightarrow> int list" where
  "mlkem_cbd_eta3 r =
     concat (map (\<lambda>i. let d = eta3_word (load_48 (\<lambda>c. r ! (6 * i + c)))
                      in map (\<lambda>j. sword16 (ETA3_SUB d j)) [0, 1, 2, 3, 4, 5, 6, 7]) [0..<MLKEM_N div 8])"

datatype cbd_eta = MLKEM_CBD_ETA2 | MLKEM_CBD_ETA3

text \<open>A polynomial is written only when the pseudo-random function succeeds.\<close>

definition mlkem_get_noise_eta1_c :: "'x hashes \<Rightarrow> int list \<Rightarrow> bytes \<Rightarrow> cbd_eta \<Rightarrow> int \<times> int list" where
  "mlkem_get_noise_eta1_c hs p seed eta1 =
     (if eta1 = MLKEM_CBD_ETA3
      then case prf_bytes hs seed ETA3_RAND_SIZE of (ret, rand) \<Rightarrow> (ret, if ret = 0 then mlkem_cbd_eta3 rand else p)
      else case prf_bytes hs seed ETA2_RAND_SIZE of (ret, rand) \<Rightarrow> (ret, if ret = 0 then mlkem_cbd_eta2 rand else p))"

definition mlkem_get_noise_eta2_c :: "'x hashes \<Rightarrow> int list \<Rightarrow> bytes \<Rightarrow> int \<times> int list" where
  "mlkem_get_noise_eta2_c hs p seed =
     (case prf_bytes hs seed ETA2_RAND_SIZE of (ret, rand) \<Rightarrow> (ret, if ret = 0 then mlkem_cbd_eta2 rand else p))"

text \<open>The loop over a vector: the last byte of the seed counts up, after a failure too.\<close>

fun noise_loop :: "'x hashes \<Rightarrow> cbd_eta \<Rightarrow> nat list \<Rightarrow> bytes \<Rightarrow> int list list \<Rightarrow> int \<times> bytes \<times> int list list" where
  "noise_loop hs eta [] seed vec = (0, seed, vec)"
| "noise_loop hs eta (i # is) seed vec =
     (case mlkem_get_noise_eta1_c hs (vec ! i) seed eta of (ret, p) \<Rightarrow>
        let vec = vec[i := p]; seed = seed[WC_ML_KEM_SYM_SZ := seed ! WC_ML_KEM_SYM_SZ + 1]
        in if ret \<noteq> 0 then (ret, seed, vec) else noise_loop hs eta is seed vec)"

definition mlkem_get_noise_c ::
  "'x hashes \<Rightarrow> nat \<Rightarrow> int list list \<Rightarrow> cbd_eta \<Rightarrow> int list list option \<Rightarrow> cbd_eta \<Rightarrow> int list option \<Rightarrow> bytes \<Rightarrow>
    int \<times> int list list \<times> int list list option \<times> int list option \<times> bytes" where
  "mlkem_get_noise_c hs k vec1 eta1 vec2 eta2 poly seed =
     (let seed = seed[WC_ML_KEM_SYM_SZ := 0];
          (ret, seed, vec1) = noise_loop hs eta1 [0..<k] seed vec1;
          (ret, seed, vec2) =
            (if ret = 0 \<and> vec2 \<noteq> None
             then let (ret, seed, v) = noise_loop hs eta2 [0..<k] seed (the vec2) in (ret, seed, Some v)
             else (ret, seed[WC_ML_KEM_SYM_SZ := of_nat (2 * k)], vec2));
          (ret, poly) =
            (if ret = 0 \<and> poly \<noteq> None
             then let (ret, p) = mlkem_get_noise_eta2_c hs (the poly) seed in (ret, Some p)
             else (ret, poly))
      in (ret, vec1, vec2, poly, seed))"

definition mlkem_get_noise ::
  "'x hashes \<Rightarrow> nat \<Rightarrow> int list list \<Rightarrow> int list list option \<Rightarrow> int list option \<Rightarrow> bytes \<Rightarrow>
    int \<times> int list list \<times> int list list option \<times> int list option \<times> bytes" where
  "mlkem_get_noise hs k vec1 vec2 poly seed =
     (if k = 2 then
        (if poly = None then mlkem_get_noise_c hs k vec1 MLKEM_CBD_ETA3 vec2 MLKEM_CBD_ETA3 None seed
         else mlkem_get_noise_c hs k vec1 MLKEM_CBD_ETA3 vec2 MLKEM_CBD_ETA2 poly seed)
      else if k = 3 \<or> k = 4 then mlkem_get_noise_c hs k vec1 MLKEM_CBD_ETA2 vec2 MLKEM_CBD_ETA2 poly seed
      else (E_BAD_STATE, vec1, vec2, poly, seed))"

definition mlkem_get_noise_i :: "'x hashes \<Rightarrow> nat \<Rightarrow> int list \<Rightarrow> bytes \<Rightarrow> nat \<Rightarrow> bool \<Rightarrow> int \<times> int list \<times> bytes" where
  "mlkem_get_noise_i hs k vec2 seed i making =
     (let seed = seed[WC_ML_KEM_SYM_SZ := of_nat (k + i)];
          (ret, p) = mlkem_get_noise_eta1_c hs vec2 seed (if k = 2 \<and> making then MLKEM_CBD_ETA3 else MLKEM_CBD_ETA2)
      in (ret, p, seed))"

definition mlkem_cmp_c :: "bytes \<Rightarrow> bytes \<Rightarrow> nat \<Rightarrow> int" where
  "mlkem_cmp_c a b sz =
     (let r = fold (\<lambda>i r. r OR (a ! i XOR b ! i)) [0..<sz] (0 :: u8)
      in sint (0 - drop_bit 31 (- ucast r :: u32)))"

end
