(* ===== verification/MlkemPke.thy ===== *)
theory MlkemPke
  imports MlkemSample
begin

text \<open>
  The public key encryption K-PKE inside ML-KEM (\<open>wolfcrypt/src/wc_mlkem_poly.c\<close>, the variants for small memory): key
  generation, encapsulation and decapsulation of a message.  \<^const>\<open>None\<close> is a sampling loop that does not end.  The buffer \<open>tv\<close> or
  \<open>tp\<close> is shared: its first polynomial is a row of the matrix first, then noise, then the result.
\<close>

section \<open>Key generation\<close>

fun keygen_loop ::
  "'x hashes \<Rightarrow> int list list \<Rightarrow> nat \<Rightarrow> bytes \<Rightarrow> nat list \<Rightarrow> int list list \<Rightarrow> int list list \<Rightarrow> bytes \<Rightarrow>
    (int \<times> int list list \<times> int list list \<times> bytes) option" where
  "keygen_loop hs s k rho [] t tv sigma = Some (0, t, tv, sigma)"
| "keygen_loop hs s k rho (i # is) t tv sigma =
     (case mlkem_gen_matrix_i hs tv k rho i False of
        None \<Rightarrow> None
      | Some (ret, ai) \<Rightarrow>
          if ret \<noteq> 0 then Some (ret, t, ai, sigma)
          else let ti = mlkem_pointwise_acc_mont (t ! i) ai s k;
                   ti = map (\<lambda>x. MLKEM_MONT_RED (sword32 (x * MLKEM_F))) ti
               in case mlkem_get_noise_i hs k (ai ! 0) sigma i True of (ret, e, sigma) \<Rightarrow>
                    if ret \<noteq> 0 then Some (ret, t[i := ti], ai[0 := e], sigma)
                    else let (e, ti) = mlkem_ntt_add_to e ti
                         in keygen_loop hs s k rho is (t[i := ti]) (ai[0 := e]) sigma)"

definition mlkem_keygen_seeds ::
  "'x hashes \<Rightarrow> int list list \<Rightarrow> int list list \<Rightarrow> int list list \<Rightarrow> nat \<Rightarrow> bytes \<Rightarrow> bytes \<Rightarrow> (int \<times> int list list \<times> int list list) option" where
  "mlkem_keygen_seeds hs s t tv k rho sigma =
     (let s = map mlkem_ntt s
      in map_option (\<lambda>(ret, t, tv, sigma). (ret, s, t)) (keygen_loop hs s k rho [0..<k] t tv sigma))"

section \<open>Encapsulation\<close>

definition add_reduce :: "int list \<Rightarrow> int list \<Rightarrow> int list" where
  "add_reduce u e = map (\<lambda>j. MLKEM_BARRETT_RED (sword16 (u ! j + e ! j))) [0..<MLKEM_N]"

fun encapsulate_loop ::
  "'x hashes \<Rightarrow> int list list \<Rightarrow> nat \<Rightarrow> bytes \<Rightarrow> nat list \<Rightarrow> int list list \<Rightarrow> int list list \<Rightarrow> bytes \<Rightarrow>
    (int \<times> int list list \<times> int list list \<times> bytes) option" where
  "encapsulate_loop hs y k seed [] u tp coins = Some (0, u, tp, coins)"
| "encapsulate_loop hs y k seed (i # is) u tp coins =
     (case mlkem_gen_matrix_i hs tp k seed i True of
        None \<Rightarrow> None
      | Some (ret, a) \<Rightarrow>
          if ret \<noteq> 0 then Some (ret, u, a, coins)
          else let ui = mlkem_invntt (mlkem_pointwise_acc_mont (u ! i) a y k)
               in case mlkem_get_noise_i hs k (a ! 0) coins i False of (ret, e1, coins) \<Rightarrow>
                    if ret \<noteq> 0 then Some (ret, u[i := ui], a[0 := e1], coins)
                    else encapsulate_loop hs y k seed is (u[i := add_reduce ui e1]) (a[0 := e1]) coins)"

text \<open>
  The code of a failure in the loop is overwritten: the steps after the loop run in any case, and the result is the code of the last
  noise sampling.  The message polynomial takes the place of the first polynomial of \<open>y\<close>, the second noise that of the second
  polynomial of \<open>tp\<close>.
\<close>

definition mlkem_encapsulate_seeds ::
  "'x hashes \<Rightarrow> int list list \<Rightarrow> int list list \<Rightarrow> int list list \<Rightarrow> int list list \<Rightarrow> nat \<Rightarrow> bytes \<Rightarrow> bytes \<Rightarrow> bytes \<Rightarrow>
    (int \<times> int list list \<times> int list) option" where
  "mlkem_encapsulate_seeds hs pub u tp y k msg seed coins =
     (let y = map mlkem_ntt y
      in case encapsulate_loop hs y k seed [0..<k] u tp coins of
           None \<Rightarrow> None
         | Some (ret, u, tp, coins) \<Rightarrow>
             let v = mlkem_invntt (mlkem_pointwise_acc_mont (tp ! 0) pub y k);
                 m = mlkem_from_msg_c msg;
                 coins = coins[WC_ML_KEM_SYM_SZ := of_nat (2 * k)];
                 (ret, e2) = mlkem_get_noise_eta2_c hs (tp ! 1) coins;
                 v = (if ret = 0 then map (\<lambda>i. MLKEM_BARRETT_RED (sword16 (v ! i + e2 ! i + m ! i))) [0..<MLKEM_N] else v)
             in Some (ret, u, v))"

section \<open>Decapsulation\<close>

text \<open>The result takes the place of the first polynomial of \<open>u\<close>.\<close>

definition mlkem_decapsulate_c :: "int list list \<Rightarrow> int list list \<Rightarrow> int list \<Rightarrow> nat \<Rightarrow> int list" where
  "mlkem_decapsulate_c s u v k =
     (let u = map mlkem_ntt u;
          w = mlkem_invntt (pointwise_acc_inplace s u k)
      in map (\<lambda>i. MLKEM_BARRETT_RED (sword16 (v ! i - w ! i))) [0..<MLKEM_N])"

end
