(* ===== verification/MlkemKey.thy ===== *)
theory MlkemKey
  imports MlkemPke
begin

text \<open>
  The ML-KEM key object and its operations (\<open>wolfcrypt/src/wc_mlkem.c\<close>): making a key from random bytes, encapsulation and decapsulation of
  a shared secret with implicit rejection, and the encodings of keys.  Pointers are not NULL.  The three flags of the key are
  booleans.  Sizes are those of \<open>wolfssl/wolfcrypt/mlkem.h\<close>.  \<^const>\<open>None\<close> is a sampling loop that does not end.
\<close>

section \<open>Keys\<close>

datatype mlkem_type = WC_ML_KEM_512 | WC_ML_KEM_768 | WC_ML_KEM_1024 | UNKNOWN_TYPE

record MlKemKey =
  key_type :: mlkem_type
  priv :: "int list list"
  pub :: "int list list"
  pubSeed :: bytes
  key_h :: bytes
  key_z :: bytes
  PRIV_SET :: bool
  PUB_SET :: bool
  H_SET :: bool

fun mlkem_k :: "mlkem_type \<Rightarrow> nat option" where
  "mlkem_k WC_ML_KEM_512 = Some 2"
| "mlkem_k WC_ML_KEM_768 = Some 3"
| "mlkem_k WC_ML_KEM_1024 = Some 4"
| "mlkem_k UNKNOWN_TYPE = None"

definition compVecSz :: "nat \<Rightarrow> nat" where
  "compVecSz k = k * ((if k = 4 then 11 else 10) * (MLKEM_N div 8))"

definition cipherTextSize :: "nat \<Rightarrow> nat" where
  "cipherTextSize k = compVecSz k + (if k = 4 then 5 else 4) * (MLKEM_N div 8)"

definition publicKeySize :: "nat \<Rightarrow> nat" where
  "publicKeySize k = k * WC_ML_KEM_POLY_SIZE + WC_ML_KEM_SYM_SZ"

definition privateKeySize :: "nat \<Rightarrow> nat" where
  "privateKeySize k = k * WC_ML_KEM_POLY_SIZE + publicKeySize k + 2 * WC_ML_KEM_SYM_SZ"

definition wc_MlKemKey_CipherTextSize :: "MlKemKey \<Rightarrow> int \<times> nat option" where
  "wc_MlKemKey_CipherTextSize key = (case mlkem_k (key_type key) of None \<Rightarrow> (E_NOT_COMPILED_IN, None) | Some k \<Rightarrow> (0, Some (cipherTextSize k)))"

definition wc_MlKemKey_PublicKeySize :: "MlKemKey \<Rightarrow> int \<times> nat option" where
  "wc_MlKemKey_PublicKeySize key = (case mlkem_k (key_type key) of None \<Rightarrow> (E_NOT_COMPILED_IN, None) | Some k \<Rightarrow> (0, Some (publicKeySize k)))"

definition wc_MlKemKey_PrivateKeySize :: "MlKemKey \<Rightarrow> int \<times> nat option" where
  "wc_MlKemKey_PrivateKeySize key = (case mlkem_k (key_type key) of None \<Rightarrow> (E_NOT_COMPILED_IN, None) | Some k \<Rightarrow> (0, Some (privateKeySize k)))"

definition wc_MlKemKey_SharedSecretSize :: nat where
  "wc_MlKemKey_SharedSecretSize = 32"

text \<open>The key object is initialised; the contents of its arrays stay as they were.\<close>

definition wc_MlKemKey_Init :: "MlKemKey \<Rightarrow> mlkem_type \<Rightarrow> int \<times> MlKemKey" where
  "wc_MlKemKey_Init key type =
     (if type = UNKNOWN_TYPE then (E_BAD_FUNC_ARG, key)
      else (0, key\<lparr>key_type := type, PRIV_SET := False, PUB_SET := False, H_SET := False\<rparr>))"

section \<open>Making a key\<close>

text \<open>The byte after the two seeds, which the hash does not write, is the counter that \<open>mlkem_get_noise\<close> sets.\<close>

definition wc_MlKemKey_MakeKeyWithRandom :: "'x hashes \<Rightarrow> MlKemKey \<Rightarrow> bytes \<Rightarrow> (int \<times> MlKemKey) option" where
  "wc_MlKemKey_MakeKeyWithRandom hs key rand =
     (if length rand \<noteq> 2 * WC_ML_KEM_SYM_SZ then Some (E_BUFFER, key)
      else let key = key\<lparr>PRIV_SET := False, PUB_SET := False, H_SET := False\<rparr>
      in case mlkem_k (key_type key) of
           None \<Rightarrow> Some (E_NOT_COMPILED_IN, key)
         | Some k \<Rightarrow>
             if \<not> alloc hs (k * MLKEM_N * 2) then Some (E_MEMORY, key)
             else case hash_g hs (take WC_ML_KEM_SYM_SZ rand @ [of_nat k]) of (ret, buf) \<Rightarrow>
               if ret \<noteq> 0 then Some (ret, key)
               else let rho = take WC_ML_KEM_SYM_SZ buf; sigma = take WC_ML_KEM_SYM_SZ (drop WC_ML_KEM_SYM_SZ buf) @ [0];
                        key = key\<lparr>pubSeed := rho, key_z := drop WC_ML_KEM_SYM_SZ rand\<rparr>
                    in case mlkem_get_noise hs k (priv key) None None sigma of (ret, s, _, _, sigma) \<Rightarrow>
                         if ret \<noteq> 0 then Some (ret, key\<lparr>priv := s\<rparr>)
                         else case mlkem_keygen_seeds hs s (pub key) (replicate k (garbage hs)) k rho sigma of
                                None \<Rightarrow> None
                              | Some (ret, s, t) \<Rightarrow>
                                  Some (ret, if ret = 0 then key\<lparr>priv := s, pub := t, PRIV_SET := True, PUB_SET := True\<rparr>
                                             else key\<lparr>priv := s, pub := t\<rparr>))"

section \<open>Encodings\<close>

definition wc_MlKemKey_EncodePublicKey :: "'x hashes \<Rightarrow> MlKemKey \<Rightarrow> nat \<Rightarrow> int \<times> MlKemKey \<times> bytes" where
  "wc_MlKemKey_EncodePublicKey hs key len =
     (if \<not> PUB_SET key then (E_BAD_FUNC_ARG, key, [])
      else case mlkem_k (key_type key) of
        None \<Rightarrow> (E_NOT_COMPILED_IN, key, [])
      | Some k \<Rightarrow>
          if len \<noteq> publicKeySize k then (E_BUFFER, key, [])
          else let (p, t) = mlkem_to_bytes_c (pub key) k; key = key\<lparr>pub := t\<rparr>; out = p @ pubSeed key
               in if H_SET key then (0, key, out)
                  else case hash_h hs out of (ret, h) \<Rightarrow>
                    if ret \<noteq> 0 then (ret, key, out) else (0, key\<lparr>key_h := h, H_SET := True\<rparr>, out))"

definition wc_MlKemKey_EncodePrivateKey :: "'x hashes \<Rightarrow> MlKemKey \<Rightarrow> nat \<Rightarrow> int \<times> MlKemKey \<times> bytes" where
  "wc_MlKemKey_EncodePrivateKey hs key len =
     (if \<not> (PRIV_SET key \<and> PUB_SET key) then (E_BAD_FUNC_ARG, key, [])
      else case mlkem_k (key_type key) of
        None \<Rightarrow> (E_NOT_COMPILED_IN, key, [])
      | Some k \<Rightarrow>
          if len \<noteq> privateKeySize k then (E_BUFFER, key, [])
          else let (p, s) = mlkem_to_bytes_c (priv key) k; key = key\<lparr>priv := s\<rparr>
               in case wc_MlKemKey_EncodePublicKey hs key (publicKeySize k) of (ret, key, out) \<Rightarrow>
                    if ret \<noteq> 0 then (ret, key, p @ out)
                    else case (if H_SET key then (0, key_h key) else hash_h hs out) of (ret, h) \<Rightarrow>
                      if ret \<noteq> 0 then (ret, key, p @ out)
                      else (0, key\<lparr>key_h := h, H_SET := True\<rparr>, p @ out @ h @ key_z key))"

definition mlkemkey_decode_public :: "bytes \<Rightarrow> nat \<Rightarrow> int list list \<times> bytes" where
  "mlkemkey_decode_public p k = (mlkem_from_bytes_c p k, take WC_ML_KEM_SYM_SZ (drop (k * WC_ML_KEM_POLY_SIZE) p))"

definition wc_MlKemKey_DecodePublicKey :: "'x hashes \<Rightarrow> MlKemKey \<Rightarrow> bytes \<Rightarrow> int \<times> MlKemKey" where
  "wc_MlKemKey_DecodePublicKey hs key inp =
     (case mlkem_k (key_type key) of
        None \<Rightarrow> (E_NOT_COMPILED_IN, key)
      | Some k \<Rightarrow>
          if length inp \<noteq> publicKeySize k then (E_BUFFER, key)
          else let (t, rho) = mlkemkey_decode_public inp k; key = key\<lparr>pub := t, pubSeed := rho\<rparr>
               in case hash_h hs inp of (ret, h) \<Rightarrow>
                    if ret \<noteq> 0 then (ret, key) else (0, key\<lparr>key_h := h, PUB_SET := True, H_SET := True\<rparr>))"

definition wc_MlKemKey_DecodePrivateKey :: "MlKemKey \<Rightarrow> bytes \<Rightarrow> int \<times> MlKemKey" where
  "wc_MlKemKey_DecodePrivateKey key inp =
     (case mlkem_k (key_type key) of
        None \<Rightarrow> (E_NOT_COMPILED_IN, key)
      | Some k \<Rightarrow>
          if length inp \<noteq> privateKeySize k then (E_BUFFER, key)
          else let s = mlkem_from_bytes_c inp k; p = drop (k * WC_ML_KEM_POLY_SIZE) inp;
                   (t, rho) = mlkemkey_decode_public p k; p = drop (publicKeySize k) p
               in (0, key\<lparr>priv := s, pub := t, pubSeed := rho, key_h := take WC_ML_KEM_SYM_SZ p,
                       key_z := take WC_ML_KEM_SYM_SZ (drop WC_ML_KEM_SYM_SZ p), PRIV_SET := True, PUB_SET := True, H_SET := True\<rparr>))"

section \<open>Encapsulation\<close>

definition mlkemkey_encapsulate :: "'x hashes \<Rightarrow> MlKemKey \<Rightarrow> bytes \<Rightarrow> bytes \<Rightarrow> (int \<times> bytes) option" where
  "mlkemkey_encapsulate hs key m r =
     (case mlkem_k (key_type key) of
        None \<Rightarrow> Some (E_NOT_COMPILED_IN, [])
      | Some k \<Rightarrow>
          if \<not> alloc hs (3 * k * MLKEM_N * 2) then Some (E_MEMORY, [])
          else let fresh = replicate k (garbage hs)
               in case mlkem_get_noise hs k fresh None None r of (ret, y, _, _, r) \<Rightarrow>
                    if ret \<noteq> 0 then Some (ret, [])
                    else case mlkem_encapsulate_seeds hs (pub key) fresh fresh y k m (pubSeed key) r of
                           None \<Rightarrow> None
                         | Some (ret, u, v) \<Rightarrow>
                             if ret \<noteq> 0 then Some (ret, [])
                             else Some (0, if k = 4 then fst (mlkem_vec_compress_11_c u) @ fst (mlkem_compress_5_c v)
                                           else fst (mlkem_vec_compress_10_c u k) @ fst (mlkem_compress_4_c v)))"

text \<open>The hash of the public key is computed when it is missing: encoding the key stores it.\<close>

definition wc_MlKemKey_EncapsulateWithRandom :: "'x hashes \<Rightarrow> MlKemKey \<Rightarrow> bytes \<Rightarrow> (int \<times> MlKemKey \<times> bytes \<times> bytes) option" where
  "wc_MlKemKey_EncapsulateWithRandom hs key m =
     (if length m \<noteq> WC_ML_KEM_SYM_SZ then Some (E_BUFFER, key, [], [])
      else let (ret, key) =
                 (if H_SET key then (0, key)
                  else case wc_MlKemKey_PublicKeySize key of (ret, len) \<Rightarrow>
                    if ret \<noteq> 0 then (ret, key)
                    else if \<not> alloc hs (the len) then (E_MEMORY, key)
                    else case wc_MlKemKey_EncodePublicKey hs key (the len) of (ret, key, _) \<Rightarrow> (ret, key));
               ret = (if ret = 0 \<and> \<not> H_SET key then E_BAD_STATE else ret)
           in if ret \<noteq> 0 then Some (ret, key, [], [])
              else case hash_g hs (m @ key_h key) of (ret, kr) \<Rightarrow>
                if ret \<noteq> 0 then Some (ret, key, [], [])
                else case mlkemkey_encapsulate hs key m (drop WC_ML_KEM_SYM_SZ kr @ [0]) of
                       None \<Rightarrow> None
                     | Some (ret, c) \<Rightarrow>
                         if ret \<noteq> 0 then Some (ret, key, c, []) else Some (0, key, c, take WC_ML_KEM_SYM_SZ kr))"

section \<open>Decapsulation\<close>

definition mlkemkey_decapsulate :: "'x hashes \<Rightarrow> MlKemKey \<Rightarrow> bytes \<Rightarrow> int \<times> bytes" where
  "mlkemkey_decapsulate hs key c =
     (case mlkem_k (key_type key) of
        None \<Rightarrow> (E_NOT_COMPILED_IN, [])
      | Some k \<Rightarrow>
          if \<not> alloc hs ((k + 1) * MLKEM_N * 2) then (E_MEMORY, [])
          else let c2 = drop (compVecSz k) c;
                   (u, v) = (if k = 4 then (mlkem_vec_decompress_11_c c, mlkem_decompress_5_c c2)
                             else (mlkem_vec_decompress_10_c c k, mlkem_decompress_4_c c2))
               in (0, fst (mlkem_to_msg_c (mlkem_decapsulate_c (priv key) u v k))))"

text \<open>
  The secret is selected without a branch: \<open>fail\<close> is 0 or -1, and its low byte masks the difference of the two candidates.
\<close>

definition select_secret :: "bytes \<Rightarrow> bytes \<Rightarrow> int \<Rightarrow> bytes" where
  "select_secret kr k_bar fail = map (\<lambda>i. kr ! i XOR ((kr ! i XOR k_bar ! i) AND word_of_int fail)) [0..<WC_ML_KEM_SYM_SZ]"

definition wc_MlKemKey_Decapsulate :: "'x hashes \<Rightarrow> MlKemKey \<Rightarrow> bytes \<Rightarrow> (int \<times> bytes) option" where
  "wc_MlKemKey_Decapsulate hs key ct =
     (case mlkem_k (key_type key) of
        None \<Rightarrow> Some (E_NOT_COMPILED_IN, [])
      | Some k \<Rightarrow>
          if length ct \<noteq> cipherTextSize k then Some (E_BUFFER, [])
          else if \<not> alloc hs (cipherTextSize k) then Some (E_MEMORY, [])
          else case mlkemkey_decapsulate hs key ct of (ret, msg) \<Rightarrow>
            if ret \<noteq> 0 then Some (ret, [])
            else case hash_g hs (msg @ key_h key) of (ret, kr) \<Rightarrow>
              if ret \<noteq> 0 then Some (ret, [])
              else case mlkemkey_encapsulate hs key msg (drop WC_ML_KEM_SYM_SZ kr @ [0]) of
                     None \<Rightarrow> None
                   | Some (ret, cmp) \<Rightarrow>
                       if ret \<noteq> 0 then Some (ret, [])
                       else let fail = mlkem_cmp_c ct cmp (cipherTextSize k)
                            in case derive_secret hs (key_z key) ct of (ret, k_bar) \<Rightarrow>
                                 Some (ret, if ret = 0 then select_secret kr k_bar fail else []))"

end
