(* ===== verification/LocalUpdate.thy ===== *)
theory LocalUpdate
  imports Prelude
begin

text \<open>
  Loops over an array whose rounds work on disjoint cells.  The contract of a loop body: it keeps the length of
  the array, changes only the cells of its round, and what it stores there depends only on these cells.  Then
  every round sees the array as it was before the loop.
\<close>

lemma nth_upd: "r[i := x] ! j = (if i = j \<and> j < length r then x else r ! j)"
  by (cases "i < length r") (auto simp: nth_list_update list_update_beyond)

locale local_update =
  fixes body :: "'j \<Rightarrow> 'a list \<Rightarrow> 'a list" and cells :: "'j \<Rightarrow> nat set"
  assumes length_body: "length (body j r) = length r"
    and body_frame: "i \<notin> cells j \<Longrightarrow> body j r ! i = r ! i"
    and body_local: "length r = length r' \<Longrightarrow> (\<forall>i \<in> cells j. r ! i = r' ! i) \<Longrightarrow> i \<in> cells j \<Longrightarrow> body j r ! i = body j r' ! i"
begin

lemma length_fold: "length (fold body js r) = length r"
  by (induction js arbitrary: r) (simp_all add: length_body)

lemma fold_frame: "(\<forall>j \<in> set js. i \<notin> cells j) \<Longrightarrow> fold body js r ! i = r ! i"
  by (induction js arbitrary: r) (simp_all add: body_frame)

lemma fold_round:
  assumes "distinct js" "pairwise (\<lambda>j j'. cells j \<inter> cells j' = {}) (set js)" "j \<in> set js" "i \<in> cells j"
  shows "fold body js r ! i = body j r ! i"
  using assms
proof (induction js arbitrary: r)
  case (Cons a js)
  have dis: "cells a \<inter> cells b = {}" if "b \<in> set js" for b
    using Cons.prems(1,2) that by (auto simp: pairwise_def)
  show ?case
  proof (cases "j = a")
    case True
    then have "\<forall>b \<in> set js. i \<notin> cells b" using dis Cons.prems(4) by blast
    then show ?thesis using True by (simp add: fold_frame)
  next
    case False
    then have j: "j \<in> set js" using Cons.prems(3) by simp
    have "fold body js (body a r) ! i = body j (body a r) ! i"
      using Cons.IH Cons.prems j by (simp add: pairwise_insert)
    also have "\<dots> = body j r ! i"
      by (rule body_local) (use dis[OF j] body_frame length_body Cons.prems(4) in auto)
    finally show ?thesis by simp
  qed
qed simp

text \<open>A loop is itself the body of an outer loop.\<close>

lemma fold_local:
  assumes "distinct js" "pairwise (\<lambda>j j'. cells j \<inter> cells j' = {}) (set js)"
    "length r = length r'" "\<forall>i \<in> \<Union> (cells ` set js). r ! i = r' ! i" "i \<in> \<Union> (cells ` set js)"
  shows "fold body js r ! i = fold body js r' ! i"
proof -
  from assms(5) obtain j where j: "j \<in> set js" "i \<in> cells j" by blast
  have "fold body js r ! i = body j r ! i" "fold body js r' ! i = body j r' ! i"
    using fold_round[OF assms(1,2) j] by auto
  moreover have "body j r ! i = body j r' ! i" by (rule body_local) (use assms(3,4) j in auto)
  ultimately show ?thesis by simp
qed

end

end
