(* ===== verification/MlkemLayers.thy ===== *)
theory MlkemLayers
  imports LocalUpdate MlkemNtt
begin

text \<open>
  The passes of the transforms as layers of butterflies.  A layer of length \<open>len\<close> combines the coefficients at
  distance \<open>len\<close> in blocks of \<open>2 * len\<close>; block \<open>b\<close> uses root number \<open>128 div len + b\<close>.  Two or three consecutive layers
  act on groups of eight coefficients, which is what the passes of the C code compute.
\<close>

section \<open>Layers\<close>

definition layer_with :: "(nat \<Rightarrow> 'a \<Rightarrow> 'a \<Rightarrow> 'a) \<Rightarrow> (nat \<Rightarrow> 'a \<Rightarrow> 'a \<Rightarrow> 'a) \<Rightarrow> nat \<Rightarrow> 'a list \<Rightarrow> 'a list" where
  "layer_with f g len v =
     map (\<lambda>p. let t = 128 div len + p div (2 * len)
              in if p mod (2 * len) < len then f t (v ! p) (v ! (p + len)) else g t (v ! (p - len)) (v ! p)) [0..<256]"

lemma length_layer [simp]: "length (layer_with f g len v) = 256"
  by (simp add: layer_with_def)

lemma layer_lo:
  assumes "k < len" "2 * len * b + k < 256"
  shows "layer_with f g len v ! (2 * len * b + k) =
    f (128 div len + b) (v ! (2 * len * b + k)) (v ! (2 * len * b + k + len))"
proof -
  have "(2 * len * b + k) div (2 * len) = b" "(2 * len * b + k) mod (2 * len) = k" using assms(1) by simp_all
  then show ?thesis using assms by (simp add: layer_with_def Let_def)
qed

lemma layer_hi:
  assumes "k < len" "2 * len * b + k + len < 256"
  shows "layer_with f g len v ! (2 * len * b + k + len) =
    g (128 div len + b) (v ! (2 * len * b + k)) (v ! (2 * len * b + k + len))"
proof -
  have "(2 * len * b + (k + len)) div (2 * len) = b" "(2 * len * b + (k + len)) mod (2 * len) = k + len" using assms(1) by simp_all
  then show ?thesis using assms by (simp add: layer_with_def Let_def add.assoc)
qed

section \<open>Groups of eight\<close>

definition group :: "nat \<Rightarrow> nat \<Rightarrow> nat \<Rightarrow> 'a list \<Rightarrow> 'a list" where
  "group s b j v = map (\<lambda>c. v ! (8 * s * b + j + s * c)) [0..<8]"

lemma group_unfold:
  "group s b j v = [v ! (8*s*b + j), v ! (8*s*b + j + s), v ! (8*s*b + j + 2*s), v ! (8*s*b + j + 3*s),
     v ! (8*s*b + j + 4*s), v ! (8*s*b + j + 5*s), v ! (8*s*b + j + 6*s), v ! (8*s*b + j + 7*s)]"
  by (simp add: group_def upt_rec ac_simps)

lemma groups_eqI:
  assumes "length v = 256" "length w = 256" "s * n = 32" "\<And>b j. b < n \<Longrightarrow> j < s \<Longrightarrow> group s b j v = group s b j w"
  shows "v = w"
proof (rule nth_equalityI)
  fix p assume "p < length v"
  then have p: "p < 256" using assms(1) by simp
  have s0: "0 < s" using assms(3) by (cases s) auto
  let ?b = "p div (8 * s)" and ?c = "p mod (8 * s) div s" and ?j = "p mod s"
  have "p < 8 * s * n" using p assms(3) by (simp add: mult.assoc)
  then have b: "?b < n" using s0 by (simp add: less_mult_imp_div_less mult.commute)
  have c: "?c < 8" using s0 by (simp add: less_mult_imp_div_less)
  have "p mod (8 * s) mod s = p mod s" by (rule mod_mod_cancel) simp
  then have "p mod (8 * s) = s * ?c + ?j" by (metis mult_div_mod_eq)
  then have e: "8 * s * ?b + ?j + s * ?c = p" by (metis add.assoc add.commute mult_div_mod_eq)
  have "group s ?b ?j v ! ?c = group s ?b ?j w ! ?c" using assms(4)[OF b] s0 by simp
  then show "v ! p = w ! p" using c e by (simp add: group_def)
qed (use assms in simp)

text \<open>The three kinds of layers a group of stride \<open>s\<close> meets: distance \<open>4 * s\<close>, \<open>2 * s\<close> and \<open>s\<close>.\<close>

definition net4 :: "(nat \<Rightarrow> 'a \<Rightarrow> 'a \<Rightarrow> 'a) \<Rightarrow> (nat \<Rightarrow> 'a \<Rightarrow> 'a \<Rightarrow> 'a) \<Rightarrow> nat \<Rightarrow> 'a list \<Rightarrow> 'a list" where
  "net4 f g t x =
     [f t (x!0) (x!4), f t (x!1) (x!5), f t (x!2) (x!6), f t (x!3) (x!7),
      g t (x!0) (x!4), g t (x!1) (x!5), g t (x!2) (x!6), g t (x!3) (x!7)]"

definition net2 :: "(nat \<Rightarrow> 'a \<Rightarrow> 'a \<Rightarrow> 'a) \<Rightarrow> (nat \<Rightarrow> 'a \<Rightarrow> 'a \<Rightarrow> 'a) \<Rightarrow> nat \<Rightarrow> 'a list \<Rightarrow> 'a list" where
  "net2 f g t x =
     [f t (x!0) (x!2), f t (x!1) (x!3), g t (x!0) (x!2), g t (x!1) (x!3),
      f (t+1) (x!4) (x!6), f (t+1) (x!5) (x!7), g (t+1) (x!4) (x!6), g (t+1) (x!5) (x!7)]"

definition net1 :: "(nat \<Rightarrow> 'a \<Rightarrow> 'a \<Rightarrow> 'a) \<Rightarrow> (nat \<Rightarrow> 'a \<Rightarrow> 'a \<Rightarrow> 'a) \<Rightarrow> nat \<Rightarrow> 'a list \<Rightarrow> 'a list" where
  "net1 f g t x =
     [f t (x!0) (x!1), g t (x!0) (x!1), f (t+1) (x!2) (x!3), g (t+1) (x!2) (x!3),
      f (t+2) (x!4) (x!5), g (t+2) (x!4) (x!5), f (t+3) (x!6) (x!7), g (t+3) (x!6) (x!7)]"

lemma group_room: "s * n = 32 \<Longrightarrow> b < n \<Longrightarrow> 8 * s * b + 8 * s \<le> (256 :: nat)"
proof -
  assume s: "s * n = 32" and b: "b < n"
  have "8 * s * b + 8 * s = 8 * s * (b + 1)" by simp
  also have "\<dots> \<le> 8 * s * n" using b by (intro mult_le_mono2) simp
  finally show ?thesis using s by (simp add: ac_simps)
qed

lemma div_of_mult: "a * b = c \<Longrightarrow> 0 < a \<Longrightarrow> c div a = (b :: nat)"
  by auto

lemma layer_pair:
  assumes "k < len" "p = 2 * len * b + k" "q = p + len" "q < 256" "128 div len + b = t"
  shows "layer_with f g len v ! p = f t (v ! p) (v ! q)" "layer_with f g len v ! q = g t (v ! p) (v ! q)"
  using layer_lo[of k len b f g v] layer_hi[of k len b f g v] assms by auto

lemma group_layer4:
  assumes "s * n = 32" "b < n" "j < s"
  shows "group s b j (layer_with f g (4 * s) v) = net4 f g (1 * n + 1 * b) (group s b j v)"
proof -
  have "4 * s * (1 * n) = 128" using assms(1) by (simp add: ac_simps)
  moreover have "0 < s" using assms by simp
  ultimately have d: "128 div (4 * s) = 1 * n" by (intro div_of_mult) simp_all
  note r = group_room[OF assms(1,2)] and P = layer_pair[where len = "4 * s", of _ _ _ _ _ f g v]
  have "layer_with f g (4 * s) v ! (8*s*b + j + 4*s) = g (1 * n + 1 * b + 0) (v ! (8*s*b + j)) (v ! (8*s*b + j + 4*s))"
       "layer_with f g (4 * s) v ! (8*s*b + j) = f (1 * n + 1 * b + 0) (v ! (8*s*b + j)) (v ! (8*s*b + j + 4*s))"
    using P[of "j + 0*s" "8*s*b + j" "1 * b + 0" "8*s*b + j + 4*s" "1 * n + 1 * b + 0"] assms(3) r d by (auto simp: algebra_simps)
  moreover have "layer_with f g (4 * s) v ! (8*s*b + j + 5*s) = g (1 * n + 1 * b + 0) (v ! (8*s*b + j + 1*s)) (v ! (8*s*b + j + 5*s))"
       "layer_with f g (4 * s) v ! (8*s*b + j + 1*s) = f (1 * n + 1 * b + 0) (v ! (8*s*b + j + 1*s)) (v ! (8*s*b + j + 5*s))"
    using P[of "j + 1*s" "8*s*b + j + 1*s" "1 * b + 0" "8*s*b + j + 5*s" "1 * n + 1 * b + 0"] assms(3) r d by (auto simp: algebra_simps)
  moreover have "layer_with f g (4 * s) v ! (8*s*b + j + 6*s) = g (1 * n + 1 * b + 0) (v ! (8*s*b + j + 2*s)) (v ! (8*s*b + j + 6*s))"
       "layer_with f g (4 * s) v ! (8*s*b + j + 2*s) = f (1 * n + 1 * b + 0) (v ! (8*s*b + j + 2*s)) (v ! (8*s*b + j + 6*s))"
    using P[of "j + 2*s" "8*s*b + j + 2*s" "1 * b + 0" "8*s*b + j + 6*s" "1 * n + 1 * b + 0"] assms(3) r d by (auto simp: algebra_simps)
  moreover have "layer_with f g (4 * s) v ! (8*s*b + j + 7*s) = g (1 * n + 1 * b + 0) (v ! (8*s*b + j + 3*s)) (v ! (8*s*b + j + 7*s))"
       "layer_with f g (4 * s) v ! (8*s*b + j + 3*s) = f (1 * n + 1 * b + 0) (v ! (8*s*b + j + 3*s)) (v ! (8*s*b + j + 7*s))"
    using P[of "j + 3*s" "8*s*b + j + 3*s" "1 * b + 0" "8*s*b + j + 7*s" "1 * n + 1 * b + 0"] assms(3) r d by (auto simp: algebra_simps)
  ultimately show ?thesis by (simp add: group_unfold net4_def)
qed

lemma group_layer2:
  assumes "s * n = 32" "b < n" "j < s"
  shows "group s b j (layer_with f g (2 * s) v) = net2 f g (2 * n + 2 * b) (group s b j v)"
proof -
  have "2 * s * (2 * n) = 128" using assms(1) by (simp add: ac_simps)
  moreover have "0 < s" using assms by simp
  ultimately have d: "128 div (2 * s) = 2 * n" by (intro div_of_mult) simp_all
  note r = group_room[OF assms(1,2)] and P = layer_pair[where len = "2 * s", of _ _ _ _ _ f g v]
  have "layer_with f g (2 * s) v ! (8*s*b + j + 2*s) = g (2 * n + 2 * b + 0) (v ! (8*s*b + j)) (v ! (8*s*b + j + 2*s))"
       "layer_with f g (2 * s) v ! (8*s*b + j) = f (2 * n + 2 * b + 0) (v ! (8*s*b + j)) (v ! (8*s*b + j + 2*s))"
    using P[of "j + 0*s" "8*s*b + j" "2 * b + 0" "8*s*b + j + 2*s" "2 * n + 2 * b + 0"] assms(3) r d by (auto simp: algebra_simps)
  moreover have "layer_with f g (2 * s) v ! (8*s*b + j + 3*s) = g (2 * n + 2 * b + 0) (v ! (8*s*b + j + 1*s)) (v ! (8*s*b + j + 3*s))"
       "layer_with f g (2 * s) v ! (8*s*b + j + 1*s) = f (2 * n + 2 * b + 0) (v ! (8*s*b + j + 1*s)) (v ! (8*s*b + j + 3*s))"
    using P[of "j + 1*s" "8*s*b + j + 1*s" "2 * b + 0" "8*s*b + j + 3*s" "2 * n + 2 * b + 0"] assms(3) r d by (auto simp: algebra_simps)
  moreover have "layer_with f g (2 * s) v ! (8*s*b + j + 6*s) = g (2 * n + 2 * b + 1) (v ! (8*s*b + j + 4*s)) (v ! (8*s*b + j + 6*s))"
       "layer_with f g (2 * s) v ! (8*s*b + j + 4*s) = f (2 * n + 2 * b + 1) (v ! (8*s*b + j + 4*s)) (v ! (8*s*b + j + 6*s))"
    using P[of "j + 0*s" "8*s*b + j + 4*s" "2 * b + 1" "8*s*b + j + 6*s" "2 * n + 2 * b + 1"] assms(3) r d by (auto simp: algebra_simps)
  moreover have "layer_with f g (2 * s) v ! (8*s*b + j + 7*s) = g (2 * n + 2 * b + 1) (v ! (8*s*b + j + 5*s)) (v ! (8*s*b + j + 7*s))"
       "layer_with f g (2 * s) v ! (8*s*b + j + 5*s) = f (2 * n + 2 * b + 1) (v ! (8*s*b + j + 5*s)) (v ! (8*s*b + j + 7*s))"
    using P[of "j + 1*s" "8*s*b + j + 5*s" "2 * b + 1" "8*s*b + j + 7*s" "2 * n + 2 * b + 1"] assms(3) r d by (auto simp: algebra_simps)
  ultimately show ?thesis by (simp add: group_unfold net2_def)
qed

lemma group_layer1:
  assumes "s * n = 32" "b < n" "j < s"
  shows "group s b j (layer_with f g (1 * s) v) = net1 f g (4 * n + 4 * b) (group s b j v)"
proof -
  have "1 * s * (4 * n) = 128" using assms(1) by (simp add: ac_simps)
  moreover have "0 < s" using assms by simp
  ultimately have d: "128 div (1 * s) = 4 * n" by (intro div_of_mult) simp_all
  note r = group_room[OF assms(1,2)] and P = layer_pair[where len = "1 * s", of _ _ _ _ _ f g v]
  have "layer_with f g (1 * s) v ! (8*s*b + j + 1*s) = g (4 * n + 4 * b + 0) (v ! (8*s*b + j)) (v ! (8*s*b + j + 1*s))"
       "layer_with f g (1 * s) v ! (8*s*b + j) = f (4 * n + 4 * b + 0) (v ! (8*s*b + j)) (v ! (8*s*b + j + 1*s))"
    using P[of "j + 0*s" "8*s*b + j" "4 * b + 0" "8*s*b + j + 1*s" "4 * n + 4 * b + 0"] assms(3) r d by (auto simp: algebra_simps)
  moreover have "layer_with f g (1 * s) v ! (8*s*b + j + 3*s) = g (4 * n + 4 * b + 1) (v ! (8*s*b + j + 2*s)) (v ! (8*s*b + j + 3*s))"
       "layer_with f g (1 * s) v ! (8*s*b + j + 2*s) = f (4 * n + 4 * b + 1) (v ! (8*s*b + j + 2*s)) (v ! (8*s*b + j + 3*s))"
    using P[of "j + 0*s" "8*s*b + j + 2*s" "4 * b + 1" "8*s*b + j + 3*s" "4 * n + 4 * b + 1"] assms(3) r d by (auto simp: algebra_simps)
  moreover have "layer_with f g (1 * s) v ! (8*s*b + j + 5*s) = g (4 * n + 4 * b + 2) (v ! (8*s*b + j + 4*s)) (v ! (8*s*b + j + 5*s))"
       "layer_with f g (1 * s) v ! (8*s*b + j + 4*s) = f (4 * n + 4 * b + 2) (v ! (8*s*b + j + 4*s)) (v ! (8*s*b + j + 5*s))"
    using P[of "j + 0*s" "8*s*b + j + 4*s" "4 * b + 2" "8*s*b + j + 5*s" "4 * n + 4 * b + 2"] assms(3) r d by (auto simp: algebra_simps)
  moreover have "layer_with f g (1 * s) v ! (8*s*b + j + 7*s) = g (4 * n + 4 * b + 3) (v ! (8*s*b + j + 6*s)) (v ! (8*s*b + j + 7*s))"
       "layer_with f g (1 * s) v ! (8*s*b + j + 6*s) = f (4 * n + 4 * b + 3) (v ! (8*s*b + j + 6*s)) (v ! (8*s*b + j + 7*s))"
    using P[of "j + 0*s" "8*s*b + j + 6*s" "4 * b + 3" "8*s*b + j + 7*s" "4 * n + 4 * b + 3"] assms(3) r d by (auto simp: algebra_simps)
  ultimately show ?thesis by (simp add: group_unfold net1_def)
qed

section \<open>The loops\<close>

lemma set_steps: "s dvd n \<Longrightarrow> 0 < s \<Longrightarrow> set (steps n s) = {s * b |b. b < n div s}"
  by (auto simp: steps_def)

lemma distinct_steps: "0 < s \<Longrightarrow> distinct (steps n s)"
  by (auto simp: steps_def distinct_map inj_on_def)

lemma mult_add_inj: "y < s \<Longrightarrow> y' < s \<Longrightarrow> s * x + y = s * x' + y' \<Longrightarrow> x = x' \<and> y = (y' :: nat)"
proof -
  assume a: "y < s" "y' < s" "s * x + y = s * x' + y'"
  have "(s * x + y) mod s = y" "(s * x' + y') mod s = y'" using a(1,2) by simp_all
  then have "y = y'" using a(3) by metis
  then show ?thesis using a by simp
qed

lemma fold_product: "fold (\<lambda>j. fold (f j) is) js r = fold (\<lambda>(j, i). f j i) (List.product js is) r"
proof (induction js arbitrary: r)
  case (Cons j js)
  have "fold (\<lambda>(j, i). f j i) (map (Pair j) is) r = fold (f j) is r" for r
    by (simp add: fold_map comp_def)
  with Cons show ?case by simp
qed simp

text \<open>The cells of a round: a group of eight.\<close>

definition octet :: "nat \<Rightarrow> nat \<Rightarrow> nat set" where
  "octet s j = {j, j + s, j + 2*s, j + 3*s, j + 4*s, j + 5*s, j + 6*s, j + 7*s}"

lemma octet_iff: "i \<in> octet s j \<longleftrightarrow> (\<exists>c < 8. i = j + s * c)"
proof
  show "i \<in> octet s j \<Longrightarrow> \<exists>c < 8. i = j + s * c"
    by (auto simp: octet_def intro: exI[of _ 0] exI[of _ 1] exI[of _ 2] exI[of _ 3] exI[of _ 4] exI[of _ 5] exI[of _ 6] exI[of _ 7])
  assume "\<exists>c < 8. i = j + s * c"
  then obtain c where c: "c < 8" "i = j + s * c" by blast
  then have "c \<in> {0, 1, 2, 3, 4, 5, 6, 7}" by auto
  then show "i \<in> octet s j" using c(2) by (auto simp: octet_def)
qed

lemma octets_disjoint:
  assumes "j < s" "j' < s" "octet s (8 * s * b + j) \<inter> octet s (8 * s * b' + j') \<noteq> {}"
  shows "b = b' \<and> j = j'"
proof -
  obtain c c' where c: "c < 8" "c' < 8" "8 * s * b + j + s * c = 8 * s * b' + j' + s * c'"
    using assms(3) by (auto simp: octet_iff)
  have e: "(8 * b + c) * s + j = (8 * b' + c') * s + j'" using c(3) by (simp add: algebra_simps)
  have "8 * b + c = 8 * b' + c' \<and> j = j'" using assms(1,2) e by (intro mult_add_inj[of j s j']) (simp_all add: mult.commute)
  then show ?thesis using mult_add_inj[of c 8 c' b b'] c(1,2) by simp
qed

text \<open>
  A loop whose rounds are local updates of groups of eight: after it, every group is what the body of its round
  makes of the group.
\<close>

locale octet_loop = local_update body "\<lambda>j. octet s (cell j)" for body :: "'j \<Rightarrow> 'a list \<Rightarrow> 'a list" and s and cell :: "'j \<Rightarrow> nat" +
  fixes js :: "'j list"
  assumes rounds: "distinct js" "j \<in> set js \<Longrightarrow> \<exists>b i. i < s \<and> cell j = 8 * s * b + i" "inj_on cell (set js)"
begin

lemma octets_pairwise: "pairwise (\<lambda>j j'. octet s (cell j) \<inter> octet s (cell j') = {}) (set js)"
proof (rule pairwiseI, rule ccontr)
  fix j j' assume a: "j \<in> set js" "j' \<in> set js" "j \<noteq> j'" "octet s (cell j) \<inter> octet s (cell j') \<noteq> {}"
  obtain b i b' i' where "i < s" "cell j = 8 * s * b + i" "i' < s" "cell j' = 8 * s * b' + i'" using rounds(2) a(1,2) by blast
  with octets_disjoint[of i s i' b b'] a(4) have "cell j = cell j'" by simp
  with rounds(3) a show False by (auto simp: inj_on_def)
qed

lemma group_fold:
  assumes "j \<in> set js" "cell j = 8 * s * b + i"
  shows "group s b i (fold body js r) = group s b i (body j r)"
proof -
  have "fold body js r ! (8 * s * b + i + s * c) = body j r ! (8 * s * b + i + s * c)" if "c < 8" for c
    by (rule fold_round[OF rounds(1) octets_pairwise assms(1)]) (use that assms(2) in \<open>auto simp: octet_iff\<close>)
  then show ?thesis by (simp add: group_def)
qed

end

interpretation n128: octet_loop "ntt_body_128" 32 "\<lambda>j. j" "[0..<MLKEM_N div 8]"
proof unfold_locales
  fix j
  show "length (ntt_body_128 j r) = length r" for r by (simp add: ntt_body_128_def Let_def)
  show "i \<notin> octet 32 j \<Longrightarrow> ntt_body_128 j r ! i = r ! i" for i r
    by (simp add: ntt_body_128_def Let_def nth_upd octet_def)
  show "length r = length r' \<Longrightarrow> \<forall>i \<in> octet 32 j. r ! i = r' ! i \<Longrightarrow> i \<in> octet 32 j \<Longrightarrow> ntt_body_128 j r ! i = ntt_body_128 j r' ! i" for r r' i
    unfolding octet_def by (elim insertE emptyE; simp add: ntt_body_128_def Let_def nth_upd)
  show "distinct [0..<MLKEM_N div 8]" by simp
  show "j \<in> set [0..<MLKEM_N div 8] \<Longrightarrow> \<exists>b i. i < 32 \<and> j = 8 * 32 * b + i" for j by (intro exI[of _ 0] exI[of _ j]) simp
  show "inj_on (\<lambda>j. j) (set [0..<MLKEM_N div 8])" by simp
qed

interpretation n32: octet_loop "(\<lambda>(j, i). ntt_body_32 j i)" 8 "\<lambda>(j, i). j + i" "List.product (steps MLKEM_N 64) [0..<8]"
proof unfold_locales
  fix p :: "nat \<times> nat"
  obtain j k where p: "p = (j, k)" by (cases p)
  show "length ((\<lambda>(j, i). ntt_body_32 j i) p r) = length r" for r by (simp add: p ntt_body_32_def Let_def)
  show "i \<notin> octet 8 (case p of (j, i) \<Rightarrow> j + i) \<Longrightarrow> (\<lambda>(j, i). ntt_body_32 j i) p r ! i = r ! i" for i r
    by (simp add: p ntt_body_32_def Let_def nth_upd octet_def)
  show "length r = length r' \<Longrightarrow> \<forall>i \<in> octet 8 (case p of (j, i) \<Rightarrow> j + i). r ! i = r' ! i \<Longrightarrow> i \<in> octet 8 (case p of (j, i) \<Rightarrow> j + i) \<Longrightarrow> (\<lambda>(j, i). ntt_body_32 j i) p r ! i = (\<lambda>(j, i). ntt_body_32 j i) p r' ! i" for r r' i
    unfolding octet_def p prod.case by (elim insertE emptyE; simp add: p ntt_body_32_def Let_def nth_upd)
  show "distinct (List.product (steps MLKEM_N 64) [0..<8])" by (simp add: distinct_product distinct_steps)
  show "q \<in> set (List.product (steps MLKEM_N 64) [0..<8]) \<Longrightarrow> \<exists>b i. i < 8 \<and> (case q of (j, i) \<Rightarrow> j + i) = 8 * 8 * b + i" for q by (auto simp: steps_def) blast
  show "inj_on (\<lambda>(j, i). j + i) (set (List.product (steps MLKEM_N 64) [0..<8]))" 
  proof (rule inj_onI)
    fix q q' assume q: "q \<in> set (List.product (steps MLKEM_N 64) [0..<8])" "q' \<in> set (List.product (steps MLKEM_N 64) [0..<8])"
      and e: "(case q of (j, i) \<Rightarrow> j + i) = (case q' of (j, i) \<Rightarrow> j + i)"
    obtain x y where "q = (64 * x, y)" "y < 8" using q(1) by (auto simp: steps_def)
    moreover obtain x' y' where "q' = (64 * x', y')" "y' < 8" using q(2) by (auto simp: steps_def)
    ultimately show "q = q'" using mult_add_inj[of y 64 y' x x'] e by simp
  qed
qed

interpretation n4: octet_loop "ntt_body_4" 1 "\<lambda>j. j" "steps MLKEM_N 8"
proof unfold_locales
  fix j
  show "length (ntt_body_4 j r) = length r" for r by (simp add: ntt_body_4_def ntt_vals_4_def Let_def)
  show "i \<notin> octet 1 j \<Longrightarrow> ntt_body_4 j r ! i = r ! i" for i r
    by (simp add: ntt_body_4_def ntt_vals_4_def Let_def nth_upd octet_def)
  show "length r = length r' \<Longrightarrow> \<forall>i \<in> octet 1 j. r ! i = r' ! i \<Longrightarrow> i \<in> octet 1 j \<Longrightarrow> ntt_body_4 j r ! i = ntt_body_4 j r' ! i" for r r' i
    unfolding octet_def by (elim insertE emptyE; simp add: ntt_body_4_def ntt_vals_4_def Let_def nth_upd)
  show "distinct (steps MLKEM_N 8)" by (rule distinct_steps) simp
  show "j \<in> set (steps MLKEM_N 8) \<Longrightarrow> \<exists>b i. i < 1 \<and> j = 8 * 1 * b + i" for j by (auto simp: steps_def)
  show "inj_on (\<lambda>j. j) (set (steps MLKEM_N 8))" by simp
qed

section \<open>The forward transform is its plain variant\<close>

definition F16 :: "nat \<Rightarrow> int \<Rightarrow> int \<Rightarrow> int" where
  "F16 t x y = sword16 (x + MLKEM_MONT_RED (zetas ! t * y))"

definition G16 :: "nat \<Rightarrow> int \<Rightarrow> int \<Rightarrow> int" where
  "G16 t x y = sword16 (x - MLKEM_MONT_RED (zetas ! t * y))"

abbreviation layer16 :: "nat \<Rightarrow> int list \<Rightarrow> int list" where
  "layer16 \<equiv> layer_with F16 G16"

lemma pass_128_layers: "length r = 256 \<Longrightarrow> ntt_pass_128 r = layer16 64 (layer16 128 r)"
proof (rule groups_eqI[of _ _ 32 1])
  assume r: "length r = 256"
  show "length (ntt_pass_128 r) = 256" using r by (simp add: ntt_pass_128_def n128.length_fold del: MLKEM_N_def)
  fix b j :: nat assume b: "b < 1" and j: "j < 32"
  have "group 32 0 j (ntt_pass_128 r) = group 32 0 j (ntt_body_128 j r)"
    unfolding ntt_pass_128_def by (rule n128.group_fold) (use j in auto)
  also have "\<dots> = net2 F16 G16 2 (net4 F16 G16 1 (group 32 0 j r))"
    using j r by (simp add: group_unfold net2_def net4_def ntt_body_128_def Let_def nth_upd F16_def G16_def)
  also have "\<dots> = group 32 0 j (layer16 64 (layer16 128 r))"
    using group_layer2[of 32 1 0 j F16 G16] group_layer4[of 32 1 0 j F16 G16] j by simp
  finally show "group 32 b j (ntt_pass_128 r) = group 32 b j (layer16 64 (layer16 128 r))" using b by simp
qed simp_all

lemma pass_32_layers: "length r = 256 \<Longrightarrow> ntt_pass_32 r = layer16 8 (layer16 16 (layer16 32 r))"
proof (rule groups_eqI[of _ _ 8 4])
  assume r: "length r = 256"
  have p: "ntt_pass_32 r = fold (\<lambda>(j, i). ntt_body_32 j i) (List.product (steps MLKEM_N 64) [0..<8]) r"
    unfolding ntt_pass_32_def by (rule fold_product)
  show "length (ntt_pass_32 r) = 256" using r by (simp add: p n32.length_fold del: MLKEM_N_def)
  fix b j :: nat assume b: "b < 4" and j: "j < 8"
  have "(64 * b, j) \<in> set (List.product (steps MLKEM_N 64) [0..<8])" using b j by (auto simp: steps_def)
  then have "group 8 b j (ntt_pass_32 r) = group 8 b j (ntt_body_32 (64 * b) j r)"
    unfolding p using n32.group_fold[of "(64 * b, j)" b j r] by simp
  also have "\<dots> = net1 F16 G16 (16 + 4 * b) (net2 F16 G16 (8 + 2 * b) (net4 F16 G16 (4 + b) (group 8 b j r)))"
  proof -
    have d: "64 * b div 64 = b" "64 * b div 32 = 2 * b" "64 * b div 16 = 4 * b" by simp_all
    show ?thesis
      using b j r by (simp add: group_unfold net1_def net2_def net4_def ntt_body_32_def Let_def nth_upd F16_def G16_def d ac_simps)
  qed
  also have "\<dots> = group 8 b j (layer16 8 (layer16 16 (layer16 32 r)))"
    using group_layer1[of 8 4 b j F16 G16] group_layer2[of 8 4 b j F16 G16] group_layer4[of 8 4 b j F16 G16] b j by simp
  finally show "group 8 b j (ntt_pass_32 r) = group 8 b j (layer16 8 (layer16 16 (layer16 32 r)))" .
qed simp_all

lemma ntt_layers: "length r = 256 \<Longrightarrow>
  mlkem_ntt r = map MLKEM_BARRETT_RED (layer16 2 (layer16 4 (ntt_pass_32 (ntt_pass_128 r))))"
proof -
  assume "length r = 256"
  then have r: "length (ntt_pass_32 (ntt_pass_128 r)) = 256" by (simp add: pass_128_layers pass_32_layers)
  define q where "q = ntt_pass_32 (ntt_pass_128 r)"
  have "fold ntt_body_4 (steps MLKEM_N 8) q = map MLKEM_BARRETT_RED (layer16 2 (layer16 4 q))"
  proof (rule groups_eqI[of _ _ 1 32])
    show "length (fold ntt_body_4 (steps MLKEM_N 8) q) = 256" using r by (simp add: q_def n4.length_fold del: MLKEM_N_def)
    fix b j :: nat assume b: "b < 32" and j: "j < 1"
    have "8 * b \<in> set (steps MLKEM_N 8)" using b by (auto simp: steps_def)
    then have "group 1 b 0 (fold ntt_body_4 (steps MLKEM_N 8) q) = group 1 b 0 (ntt_body_4 (8 * b) q)"
      by (rule n4.group_fold) simp
    also have "\<dots> = map MLKEM_BARRETT_RED (net2 F16 G16 (64 + 2 * b) (net4 F16 G16 (32 + b) (group 1 b 0 q)))"
    proof -
      have d: "8 * b div 8 = b" "8 * b div 4 = 2 * b" by simp_all
      show ?thesis
        using b r by (simp add: group_unfold net2_def net4_def ntt_body_4_def ntt_vals_4_def Let_def nth_upd F16_def G16_def d q_def[symmetric] ac_simps)
    qed
    also have "\<dots> = map MLKEM_BARRETT_RED (group 1 b 0 (layer16 2 (layer16 4 q)))"
      using group_layer2[of 1 32 b 0 F16 G16] group_layer4[of 1 32 b 0 F16 G16] b by simp
    also have "\<dots> = group 1 b 0 (map MLKEM_BARRETT_RED (layer16 2 (layer16 4 q)))"
      using b by (simp add: group_def)
    finally show "group 1 b j (fold ntt_body_4 (steps MLKEM_N 8) q) = group 1 b j (map MLKEM_BARRETT_RED (layer16 2 (layer16 4 q)))"
      using j by simp
  qed simp_all
  then show ?thesis by (simp add: mlkem_ntt_def q_def del: MLKEM_N_def)
qed

text \<open>The plain variant.\<close>

abbreviation pair_body :: "nat \<Rightarrow> nat \<Rightarrow> nat \<times> nat \<Rightarrow> int list \<Rightarrow> int list" where
  "pair_body k len \<equiv> (\<lambda>(b, i). butterfly (zetas ! (k + b)) len (2 * len * b + i))"

interpretation plain: local_update "pair_body k len" "\<lambda>(b, i). {2 * len * b + i, 2 * len * b + i + len}" for k len
proof unfold_locales
  fix p :: "nat \<times> nat"
  obtain b j where p: "p = (b, j)" by (cases p)
  show "length (pair_body k len p r) = length r" for r by (simp add: p butterfly_def Let_def)
  show "i \<notin> (case p of (b, i) \<Rightarrow> {2 * len * b + i, 2 * len * b + i + len}) \<Longrightarrow> pair_body k len p r ! i = r ! i" for i r
    by (auto simp: p butterfly_def Let_def nth_upd)
  show "length r = length r' \<Longrightarrow> \<forall>i \<in> (case p of (b, i) \<Rightarrow> {2 * len * b + i, 2 * len * b + i + len}). r ! i = r' ! i \<Longrightarrow>
      i \<in> (case p of (b, i) \<Rightarrow> {2 * len * b + i, 2 * len * b + i + len}) \<Longrightarrow> pair_body k len p r ! i = pair_body k len p r' ! i" for r r' i
    by (auto simp: p butterfly_def Let_def nth_upd)
qed

lemma small_blocks:
  "m \<le> n \<Longrightarrow> fold (ntt_small_block len) (map (\<lambda>i. 2 * len * i) [m..<n]) (k + m, r) =
     (k + n, fold (pair_body k len) (List.product [m..<n] [0..<len]) r)"
proof (induction "n - m" arbitrary: m r)
  case (Suc d)
  have upt: "[m..<n] = m # [Suc m..<n]" using Suc.hyps(2) by (simp add: upt_conv_Cons)
  have inner: "fold (butterfly z len) [s..<s + len] r = fold (\<lambda>i. butterfly z len (s + i)) [0..<len] r" for z s r
  proof -
    have "[s..<s + len] = map (\<lambda>i. s + i) [0..<len]" using map_add_upt[of s len] by (simp add: add.commute)
    then show ?thesis by (simp add: fold_map comp_def)
  qed
  show ?case
    using Suc.hyps(1)[of "Suc m"] Suc.hyps(2)
    by (simp add: upt ntt_small_block_def inner fold_map comp_def)
qed simp

lemma small_layer:
  assumes "len * n = 128" "length r = 256"
  shows "ntt_small_layer len (n, r) = (2 * n, layer16 len r)"
proof -
  have l: "0 < len" using assms(1) by (cases len) auto
  have nb: "256 div (2 * len) = n" using assms(1) l by (intro div_of_mult) simp_all
  define js where "js = List.product [0..<n] [0..<len]"
  have pw: "pairwise (\<lambda>p p'. (case p of (b, i) \<Rightarrow> {2 * len * b + i, 2 * len * b + i + len}) \<inter>
      (case p' of (b, i) \<Rightarrow> {2 * len * b + i, 2 * len * b + i + len}) = {}) (set js)"
  proof (rule pairwiseI, rule ccontr)
    fix p p' assume p: "p \<in> set js" "p' \<in> set js" "p \<noteq> p'"
      and ne: "(case p of (b, i) \<Rightarrow> {2 * len * b + i, 2 * len * b + i + len}) \<inter> (case p' of (b, i) \<Rightarrow> {2 * len * b + i, 2 * len * b + i + len}) \<noteq> {}"
    obtain b i b' i' where e: "p = (b, i)" "p' = (b', i')" "i < len" "i' < len" 
      by (cases p, cases p', use p(1,2) in \<open>simp add: js_def\<close>)
    obtain c c' where c: "c < 2" "c' < 2" "2 * len * b + i + len * c = 2 * len * b' + i' + len * c'"
      using ne e(1,2) by (auto intro: that[of 0 0] that[of 0 1] that[of 1 0] that[of 1 1])
    have q: "(2 * b + c) * len + i = (2 * b' + c') * len + i'" using c(3) by (simp add: algebra_simps)
    then have "2 * b + c = 2 * b' + c' \<and> i = i'" using e(3,4) by (intro mult_add_inj[of i len i']) (simp_all add: mult.commute)
    then show False using mult_add_inj[of c 2 c' b b'] c(1,2) p(3) e by simp
  qed
  have "fold (pair_body n len) js r = layer16 len r"
  proof (rule nth_equalityI)
    show "length (fold (pair_body n len) js r) = length (layer16 len r)" using assms(2) by (simp add: plain.length_fold)
    fix p assume "p < length (fold (pair_body n len) js r)"
    then have p: "p < 256" using assms(2) by (simp add: plain.length_fold)
    let ?b = "p div (2 * len)" and ?k = "p mod (2 * len)"
    have "p < n * (2 * len)" using p assms(1) by (simp add: ac_simps)
    then have b: "?b < n" by (rule less_mult_imp_div_less)
    have e: "2 * len * ?b + ?k = p" by (rule mult_div_mod_eq)
    define i where "i = (if ?k < len then ?k else ?k - len)"
    have i: "i < len" using l mod_less_divisor[of "2 * len" p] by (auto simp: i_def simp del: mod_less_divisor)
    have "(?b, i) \<in> set js" using b i by (simp add: js_def)
    moreover have "p = 2 * len * ?b + i \<or> p = 2 * len * ?b + i + len" using e by (auto simp: i_def)
    ultimately have "fold (pair_body n len) js r ! p = pair_body n len (?b, i) r ! p"
      by (intro plain.fold_round[OF _ pw]) (auto simp: js_def distinct_product)
    moreover have "2 * len * ?b + i + len < 256"
    proof -
      have "2 * len * (?b + 1) \<le> 2 * len * n" using b by (intro mult_le_mono2) simp
      then show ?thesis using i assms(1) by (simp add: algebra_simps)
    qed
    moreover have "128 div len = n" using assms(1) l by (intro div_of_mult)
    ultimately show "fold (pair_body n len) js r ! p = layer16 len r ! p"
      using layer_pair[of i len "2 * len * ?b + i" ?b "2 * len * ?b + i + len" "n + ?b" F16 G16 r] i assms(2)
        \<open>p = 2 * len * ?b + i \<or> p = 2 * len * ?b + i + len\<close>
      by (auto simp: butterfly_def Let_def nth_upd F16_def G16_def)
  qed
  then show ?thesis
    using small_blocks[of 0 n len n r] nb by (simp add: ntt_small_layer_def steps_def js_def)
qed

text \<open>
  C23. The transform the firmware runs, which merges two or three layers per pass and keeps eight coefficients in
  registers, is the plain algorithm: on every input, also where 16-bit arithmetic wraps, both give the same result.
\<close>

theorem ntt_equals_plain:
  assumes "length r = 256"
  shows "mlkem_ntt r = mlkem_ntt_small r"
proof -
  have "mlkem_ntt_small r = map MLKEM_BARRETT_RED (layer16 2 (layer16 4 (layer16 8 (layer16 16 (layer16 32 (layer16 64 (layer16 128 r)))))))"
    using assms small_layer[of 128 1 r] by (simp add: mlkem_ntt_small_def small_layer)
  then show ?thesis using assms by (simp add: ntt_layers pass_128_layers pass_32_layers)
qed

theorem ntt_equals_plain_witness:
  "length (map int [0..<256]) = 256 \<and> mlkem_ntt (map int [0..<256]) = mlkem_ntt_small (map int [0..<256])"
  using ntt_equals_plain[of "map int [0..<256]"] by simp

end
