(* ===== verification/MlkemInvLayers.thy ===== *)
theory MlkemInvLayers
  imports MlkemLayers
begin

text \<open>
  The passes of the inverse transform as layers, from short to long distances.  The first layer of the second and
  of the third pass applies the Barrett reduction; the other sums are not reduced.
\<close>

interpretation i2: octet_loop "invntt_body_2" 1 "\<lambda>j. j" "steps MLKEM_N 8"
proof unfold_locales
  fix j
  show "length (invntt_body_2 j r) = length r" for r by (simp add: invntt_body_2_def Let_def)
  show "i \<notin> octet 1 j \<Longrightarrow> invntt_body_2 j r ! i = r ! i" for i r
    by (simp add: invntt_body_2_def Let_def nth_upd octet_def)
  show "length r = length r' \<Longrightarrow> \<forall>i \<in> octet 1 j. r ! i = r' ! i \<Longrightarrow> i \<in> octet 1 j \<Longrightarrow> invntt_body_2 j r ! i = invntt_body_2 j r' ! i" for r r' i
    unfolding octet_def by (elim insertE emptyE; simp add: invntt_body_2_def Let_def nth_upd)
  show "distinct (steps MLKEM_N 8)" by (rule distinct_steps) simp
  show "j \<in> set (steps MLKEM_N 8) \<Longrightarrow> \<exists>b i. i < 1 \<and> j = 8 * 1 * b + i" for j by (auto simp: steps_def)
  show "inj_on (\<lambda>j. j) (set (steps MLKEM_N 8))" by simp
qed

interpretation i8: octet_loop "(\<lambda>(j, i). invntt_body_8 j i)" 8 "\<lambda>(j, i). j + i" "List.product (steps MLKEM_N 64) [0..<8]"
proof unfold_locales
  fix p :: "nat \<times> nat"
  obtain j k where p: "p = (j, k)" by (cases p)
  show "length ((\<lambda>(j, i). invntt_body_8 j i) p r) = length r" for r by (simp add: p invntt_body_8_def Let_def)
  show "i \<notin> octet 8 (case p of (j, i) \<Rightarrow> j + i) \<Longrightarrow> (\<lambda>(j, i). invntt_body_8 j i) p r ! i = r ! i" for i r
    by (simp add: p invntt_body_8_def Let_def nth_upd octet_def)
  show "length r = length r' \<Longrightarrow> \<forall>i \<in> octet 8 (case p of (j, i) \<Rightarrow> j + i). r ! i = r' ! i \<Longrightarrow> i \<in> octet 8 (case p of (j, i) \<Rightarrow> j + i) \<Longrightarrow> (\<lambda>(j, i). invntt_body_8 j i) p r ! i = (\<lambda>(j, i). invntt_body_8 j i) p r' ! i" for r r' i
    unfolding octet_def p prod.case by (elim insertE emptyE; simp add: p invntt_body_8_def Let_def nth_upd)
  show "distinct (List.product (steps MLKEM_N 64) [0..<8])" by (simp add: distinct_product distinct_steps)
  show "q \<in> set (List.product (steps MLKEM_N 64) [0..<8]) \<Longrightarrow> \<exists>b i. i < 8 \<and> (case q of (j, i) \<Rightarrow> j + i) = 8 * 8 * b + i" for q by (auto simp: steps_def) blast
  show "inj_on (\<lambda>(j, i). j + i) (set (List.product (steps MLKEM_N 64) [0..<8]))" 
  proof (rule inj_onI)
    fix q q' assume q: "q \<in> set (List.product (steps MLKEM_N 64) [0..<8])" "q' \<in> set (List.product (steps MLKEM_N 64) [0..<8])"
      and e: "(case q of (j, i) \<Rightarrow> j + i) = (case q' of (j, i) \<Rightarrow> j + i)"
    obtain x y where "q = (64 * x, y)" "y < 8" using q(1) by (auto simp: steps_def)
    moreover obtain x' y' where "q' = (64 * x', y')" "y' < 8" using q(2) by (auto simp: steps_def)
    ultimately show "q = q'" using mult_add_inj[of y 64 y' x x'] e by simp
  qed
qed

interpretation i64: octet_loop "invntt_body_64" 32 "\<lambda>j. j" "[0..<MLKEM_N div 8]"
proof unfold_locales
  fix j
  show "length (invntt_body_64 j r) = length r" for r by (simp add: invntt_body_64_def Let_def)
  show "i \<notin> octet 32 j \<Longrightarrow> invntt_body_64 j r ! i = r ! i" for i r
    by (simp add: invntt_body_64_def Let_def nth_upd octet_def)
  show "length r = length r' \<Longrightarrow> \<forall>i \<in> octet 32 j. r ! i = r' ! i \<Longrightarrow> i \<in> octet 32 j \<Longrightarrow> invntt_body_64 j r ! i = invntt_body_64 j r' ! i" for r r' i
    unfolding octet_def by (elim insertE emptyE; simp add: invntt_body_64_def Let_def nth_upd)
  show "distinct [0..<MLKEM_N div 8]" by simp
  show "j \<in> set [0..<MLKEM_N div 8] \<Longrightarrow> \<exists>b i. i < 32 \<and> j = 8 * 32 * b + i" for j by (intro exI[of _ 0] exI[of _ j]) simp
  show "inj_on (\<lambda>j. j) (set [0..<MLKEM_N div 8])" by simp
qed

definition S16 :: "nat \<Rightarrow> int \<Rightarrow> int \<Rightarrow> int" where
  "S16 t x y = sword16 (x + y)"

definition B16 :: "nat \<Rightarrow> int \<Rightarrow> int \<Rightarrow> int" where
  "B16 t x y = MLKEM_BARRETT_RED (x + y)"

text \<open>In a layer of \<open>n\<close> blocks, block \<open>b\<close> uses entry \<open>128 - 2 * n + b\<close> of the table.\<close>

definition D16 :: "nat \<Rightarrow> nat \<Rightarrow> int \<Rightarrow> int \<Rightarrow> int" where
  "D16 n t x y = MLKEM_MONT_RED (zetas_inv ! (t + 128 - 3 * n) * sword16 (x - y))"

lemma inv_pass_2:
  assumes r: "length r = 256"
  shows "fold invntt_body_2 (steps MLKEM_N 8) r = layer_with S16 (D16 32) 4 (layer_with S16 (D16 64) 2 r)"
proof (rule groups_eqI[of _ _ 1 32])
  show "length (fold invntt_body_2 (steps MLKEM_N 8) r) = 256" using r by (simp add: i2.length_fold del: MLKEM_N_def)
  fix b j :: nat assume b: "b < 32" and j: "j < 1"
  have "8 * b \<in> set (steps MLKEM_N 8)" using b by (auto simp: steps_def)
  then have "group 1 b 0 (fold invntt_body_2 (steps MLKEM_N 8) r) = group 1 b 0 (invntt_body_2 (8 * b) r)"
    by (rule i2.group_fold) simp
  also have "\<dots> = net4 S16 (D16 32) (32 + b) (net2 S16 (D16 64) (64 + 2 * b) (group 1 b 0 r))"
  proof -
    have d: "8 * b div 8 = b" "8 * b div 4 = 2 * b" by simp_all
    show ?thesis
      using b r by (simp add: group_unfold net2_def net4_def invntt_body_2_def Let_def nth_upd S16_def D16_def d)
  qed
  also have "\<dots> = group 1 b 0 (layer_with S16 (D16 32) 4 (layer_with S16 (D16 64) 2 r))"
    using group_layer2[of 1 32 b 0 S16 "D16 64"] group_layer4[of 1 32 b 0 S16 "D16 32"] b by simp
  finally show "group 1 b j (fold invntt_body_2 (steps MLKEM_N 8) r) = group 1 b j (layer_with S16 (D16 32) 4 (layer_with S16 (D16 64) 2 r))"
    using j by simp
qed simp_all

lemma inv_pass_8:
  assumes r: "length r = 256"
  shows "fold (\<lambda>j r. fold (invntt_body_8 j) [0..<8] r) (steps MLKEM_N 64) r =
    layer_with S16 (D16 4) 32 (layer_with S16 (D16 8) 16 (layer_with B16 (D16 16) 8 r))" (is "?L = ?R")
proof (rule groups_eqI[of _ _ 8 4])
  have p: "?L = fold (\<lambda>(j, i). invntt_body_8 j i) (List.product (steps MLKEM_N 64) [0..<8]) r"
    by (rule fold_product)
  show "length ?L = 256" using r by (simp add: p i8.length_fold del: MLKEM_N_def)
  fix b j :: nat assume b: "b < 4" and j: "j < 8"
  have "(64 * b, j) \<in> set (List.product (steps MLKEM_N 64) [0..<8])" using b j by (auto simp: steps_def)
  then have "group 8 b j ?L = group 8 b j (invntt_body_8 (64 * b) j r)"
    unfolding p using i8.group_fold[of "(64 * b, j)" b j r] by simp
  also have "\<dots> = net4 S16 (D16 4) (4 + b) (net2 S16 (D16 8) (8 + 2 * b) (net1 B16 (D16 16) (16 + 4 * b) (group 8 b j r)))"
  proof -
    have d: "64 * b div 64 = b" "64 * b div 32 = 2 * b" "64 * b div 16 = 4 * b" by simp_all
    show ?thesis
      using b j r by (simp add: group_unfold net1_def net2_def net4_def invntt_body_8_def Let_def nth_upd S16_def D16_def B16_def d)
  qed
  also have "\<dots> = group 8 b j ?R"
    using group_layer1[of 8 4 b j B16 "D16 16"] group_layer2[of 8 4 b j S16 "D16 8"] group_layer4[of 8 4 b j S16 "D16 4"] b j by simp
  finally show "group 8 b j ?L = group 8 b j ?R" .
qed simp_all

lemma inv_pass_64:
  assumes r: "length r = 256"
  shows "fold invntt_body_64 [0..<MLKEM_N div 8] r =
    map (\<lambda>x. MLKEM_MONT_RED (zetas_inv ! 127 * x)) (layer_with S16 (D16 1) 128 (layer_with B16 (D16 2) 64 r))" (is "?L = map ?h ?R")
proof (rule groups_eqI[of _ _ 32 1])
  show "length ?L = 256" using r by (simp add: i64.length_fold del: MLKEM_N_def)
  fix b j :: nat assume b: "b < 1" and j: "j < 32"
  have "group 32 0 j ?L = group 32 0 j (invntt_body_64 j r)" by (rule i64.group_fold) (use j in auto)
  also have "\<dots> = map ?h (net4 S16 (D16 1) 1 (net2 B16 (D16 2) 2 (group 32 0 j r)))"
    using j r by (simp add: group_unfold net2_def net4_def invntt_body_64_def Let_def nth_upd S16_def D16_def B16_def)
  also have "\<dots> = map ?h (group 32 0 j ?R)"
    using group_layer2[of 32 1 0 j B16 "D16 2"] group_layer4[of 32 1 0 j S16 "D16 1"] j by simp
  also have "\<dots> = group 32 0 j (map ?h ?R)" using j by (simp add: group_def)
  finally show "group 32 b j ?L = group 32 b j (map ?h ?R)" using b by simp
qed simp_all

lemma invntt_layers:
  assumes "length r = 256"
  shows "mlkem_invntt r = map (\<lambda>x. MLKEM_MONT_RED (zetas_inv ! 127 * x))
    (layer_with S16 (D16 1) 128 (layer_with B16 (D16 2) 64
      (layer_with S16 (D16 4) 32 (layer_with S16 (D16 8) 16 (layer_with B16 (D16 16) 8
        (layer_with S16 (D16 32) 4 (layer_with S16 (D16 64) 2 r)))))))"
  unfolding mlkem_invntt_def Let_def inv_pass_2[OF assms] inv_pass_8[OF length_layer] inv_pass_64[OF length_layer] ..

end
