(* ===== verification/MlkemRing.thy ===== *)
theory MlkemRing
  imports MlkemInvLayers
begin

text \<open>
  What the transforms compute.  Over the ring of residues, the forward transform maps a polynomial to its residues
  modulo the 128 factors \<open>X^2 - c\<close> of \<open>X^256 + 1\<close>, the inverse transform undoes it up to the Montgomery factor, and
  multiplication of residues is multiplication of polynomials modulo \<open>X^256 + 1\<close>.
\<close>

section \<open>Layers under a map of the elements\<close>

lemma layer_cell:
  assumes "len * n = 128" "p < (256 :: nat)"
  obtains b k where "b < n" "k < len" "p = 2 * len * b + k \<or> p = 2 * len * b + k + len" "2 * len * b + k + len < 256"
    "128 div len + b = n + b"
proof -
  have l: "0 < len" using assms(1) by (cases len) auto
  let ?b = "p div (2 * len)" and ?m = "p mod (2 * len)"
  define k where "k = (if ?m < len then ?m else ?m - len)"
  have "p < n * (2 * len)" using assms by (simp add: ac_simps)
  then have b: "?b < n" by (rule less_mult_imp_div_less)
  have "?m < 2 * len" using l by simp
  then have k: "k < len" by (auto simp: k_def)
  have "2 * len * ?b + ?m = p" by (rule mult_div_mod_eq)
  then have p: "p = 2 * len * ?b + k \<or> p = 2 * len * ?b + k + len" by (auto simp: k_def)
  have "2 * len * (?b + 1) \<le> 2 * len * n" using b by (intro mult_le_mono2) simp
  then have "2 * len * ?b + k + len < 256" using k assms(1) by (simp add: algebra_simps)
  moreover have "128 div len = n" using assms(1) l by (intro div_of_mult)
  ultimately show thesis using that[of ?b k] b k p by simp
qed

lemma layer_sim:
  assumes l: "len * n = 128" and v: "length v = 256" "set v \<subseteq> A"
    and fg: "\<And>t x y. n \<le> t \<Longrightarrow> t < 2 * n \<Longrightarrow> x \<in> A \<Longrightarrow> y \<in> A \<Longrightarrow>
      h (f t x y) = f' t (h x) (h y) \<and> h (g t x y) = g' t (h x) (h y) \<and> f t x y \<in> A' \<and> g t x y \<in> A'"
  shows "map h (layer_with f g len v) = layer_with f' g' len (map h v) \<and> set (layer_with f g len v) \<subseteq> A'"
proof -
  have "h (layer_with f g len v ! p) = layer_with f' g' len (map h v) ! p \<and> layer_with f g len v ! p \<in> A'" if p: "p < 256" for p
  proof -
    obtain b k where b: "b < n" "k < len" "p = 2 * len * b + k \<or> p = 2 * len * b + k + len" "2 * len * b + k + len < 256"
      "128 div len + b = n + b" by (rule layer_cell[OF l p])
    let ?x = "v ! (2 * len * b + k)" and ?y = "v ! (2 * len * b + k + len)"
    have xy: "?x \<in> A" "?y \<in> A" using v b(4) by (auto intro!: subsetD[OF v(2)] nth_mem)
    have "map h v ! (2 * len * b + k) = h ?x" "map h v ! (2 * len * b + k + len) = h ?y" using v b(4) by simp_all
    then show ?thesis
      using layer_pair[OF b(2) refl refl b(4,5), of f g v] layer_pair[OF b(2) refl refl b(4,5), of f' g' "map h v"]
        fg[OF _ _ xy, of "n + b"] b(1,3) by auto
  qed
  then show ?thesis by (auto intro!: nth_equalityI simp: in_set_conv_nth subset_iff)
qed

section \<open>Roots\<close>

definition zroot :: "nat \<Rightarrow> zq" where
  "zroot t = Zq (zetas ! t) * 169"

text \<open>Node \<open>t\<close> of the tree of factors stands for \<open>X^(2 * len) - znode t\<close>; \<open>zroot t\<close> is a square root of \<open>znode t\<close>.\<close>

definition znode :: "nat \<Rightarrow> zq" where
  "znode t = (if t = 1 then - 1 else if even t then zroot (t div 2) else - zroot (t div 2))"

lemma roots_table:
  "\<forall>t \<in> set [1..<128]. ((zetas ! t * 169)\<^sup>2 - (if t = 1 then - 1 else if even t then zetas ! (t div 2) * 169 else - (zetas ! (t div 2) * 169))) mod 3329 = 0"
  by code_simp

lemma inv_table: "\<forall>n \<in> {1, 2, 4, 8, 16, 32, 64}. \<forall>t \<in> set [n..<2 * n]. (zetas_inv ! (t + 128 - 3 * n) * 169 * (zetas ! t * 169)) mod 3329 = 1"
  by code_simp

lemma tables_small: "\<forall>z \<in> set zetas. \<bar>z\<bar> \<le> 3328" "\<forall>z \<in> set zetas_inv. \<bar>z\<bar> \<le> 3328" "length zetas = 128" "length zetas_inv = 128"
  by code_simp+

lemma zetas_bound: "t < 128 \<Longrightarrow> \<bar>zetas ! t\<bar> \<le> 3328" "t < 128 \<Longrightarrow> \<bar>zetas_inv ! t\<bar> \<le> 3328"
  using tables_small by (metis nth_mem)+

lemma zroot_squared: "1 \<le> t \<Longrightarrow> t < 128 \<Longrightarrow> (zroot t)\<^sup>2 = znode t"
proof -
  assume t: "1 \<le> t" "t < 128"
  let ?e = "if t = 1 then - 1 else if even t then zetas ! (t div 2) * 169 else - (zetas ! (t div 2) * 169)"
  have "((zetas ! t * 169)\<^sup>2 - ?e) mod 3329 = 0" using roots_table t by auto
  then have "3329 dvd (zetas ! t * 169)\<^sup>2 - ?e" by (simp only: dvd_eq_mod_eq_0)
  then have "Zq ((zetas ! t * 169)\<^sup>2) = Zq ?e" by (simp only: Zq_eq_iff mod_eq_dvd_iff)
  then show ?thesis by (simp add: zroot_def znode_def split: if_splits)
qed

lemma znode_tree: "1 \<le> t \<Longrightarrow> znode (2 * t) = zroot t" "1 \<le> t \<Longrightarrow> znode (2 * t + 1) = - zroot t"
  by (simp_all add: znode_def)

lemma znode_power: "2 ^ m \<le> t \<Longrightarrow> t < 2 ^ Suc m \<Longrightarrow> m < 8 \<Longrightarrow> znode t ^ 2 ^ m = - 1"
proof (induction m arbitrary: t)
  case 0
  then have "t = 1" by simp
  then show ?case by (simp add: znode_def)
next
  case (Suc m)
  let ?h = "t div 2"
  have h: "2 ^ m \<le> ?h" "?h < 2 ^ Suc m" using Suc.prems by auto
  have "1 \<le> ?h" using h(1) one_le_power[of "2 :: nat" m] by linarith
  moreover have "(2 :: nat) ^ Suc m \<le> 2 ^ 7" using Suc.prems(3) by (intro power_increasing) auto
  then have "?h < 128" using h(2) by simp
  ultimately have w2: "(zroot ?h)\<^sup>2 = znode ?h" by (rule zroot_squared)
  have "2 \<le> (2 :: nat) ^ Suc m" by simp
  then have "t \<noteq> 1" using Suc.prems(1) by linarith
  then have "znode t = zroot ?h \<or> znode t = - zroot ?h" by (simp add: znode_def[of t])
  then have "(znode t)\<^sup>2 = znode ?h" using w2 by auto
  then have "znode t ^ 2 ^ Suc m = znode ?h ^ 2 ^ m" by (simp add: power_mult)
  also have "\<dots> = - 1" using Suc.IH h Suc.prems(3) by simp
  finally show ?case .
qed

section \<open>The forward transform\<close>

abbreviation rlayer :: "nat \<Rightarrow> zq list \<Rightarrow> zq list" where
  "rlayer \<equiv> layer_with (\<lambda>t x y. x + zroot t * y) (\<lambda>t x y. x - zroot t * y)"

definition rntt :: "zq list \<Rightarrow> zq list" where
  "rntt v = rlayer 2 (rlayer 4 (rlayer 8 (rlayer 16 (rlayer 32 (rlayer 64 (rlayer 128 v))))))"

lemma mont_residue:
  assumes "\<bar>x\<bar> \<le> 3329 * 32768"
  shows "Zq (MLKEM_MONT_RED x) = Zq x * 169"
proof -
  have c: "(65536 :: zq) * 169 = 1" by simp
  have "Zq (MLKEM_MONT_RED x) = Zq (MLKEM_MONT_RED x) * (65536 * 169)" unfolding c by simp
  also have "\<dots> = Zq x * 169" using mont.red_residue[OF assms] by (simp only: mult.assoc[symmetric])
  finally show ?thesis .
qed

lemma mont_root:
  assumes "t < 128" "\<bar>y\<bar> \<le> 32767"
  shows "Zq (MLKEM_MONT_RED (zetas ! t * y)) = zroot t * Zq y" "\<bar>MLKEM_MONT_RED (zetas ! t * y)\<bar> \<le> 3329"
proof -
  have "\<bar>zetas ! t\<bar> * \<bar>y\<bar> \<le> 3328 * 32768" using zetas_bound(1)[OF assms(1)] assms(2) by (intro mult_mono) auto
  then have d: "\<bar>zetas ! t * y\<bar> \<le> 3329 * 32768" by (simp add: abs_mult)
  then show "\<bar>MLKEM_MONT_RED (zetas ! t * y)\<bar> \<le> 3329" by (rule mont.red_small)
  show "Zq (MLKEM_MONT_RED (zetas ! t * y)) = zroot t * Zq y" using mont_residue[OF d] by (simp add: zroot_def)
qed

lemma layer16_residues:
  assumes "len * n = 128" "n \<le> 64" "length v = 256" "set v \<subseteq> {- b..b}" "b + 3329 \<le> 32767"
  shows "map Zq (layer16 len v) = rlayer len (map Zq v) \<and> set (layer16 len v) \<subseteq> {- (b + 3329)..b + 3329}"
proof (rule layer_sim[OF assms(1,3,4)])
  fix t x y assume t: "n \<le> t" "t < 2 * n" and xy: "x \<in> {- b..b}" "y \<in> {- b..b}"
  have "t < 128" "\<bar>y\<bar> \<le> 32767" using t xy assms(2,5) by auto
  note m = mont_root[OF this]
  have "sword16 (x + MLKEM_MONT_RED (zetas ! t * y)) = x + MLKEM_MONT_RED (zetas ! t * y)"
    "sword16 (x - MLKEM_MONT_RED (zetas ! t * y)) = x - MLKEM_MONT_RED (zetas ! t * y)"
    using m(2) xy assms(5) by (auto intro!: sword16_abs)
  then show "Zq (F16 t x y) = Zq x + zroot t * Zq y \<and> Zq (G16 t x y) = Zq x - zroot t * Zq y \<and>
      F16 t x y \<in> {- (b + 3329)..b + 3329} \<and> G16 t x y \<in> {- (b + 3329)..b + 3329}"
    using m xy by (auto simp: F16_def G16_def)
qed

text \<open>Seven layers let a coefficient grow by less than \<open>7 * q\<close>.\<close>

lemma passes_residues:
  assumes "length v = 256" "set v \<subseteq> {- b..b}" "b \<le> 9464"
  shows "map Zq (layer16 2 (layer16 4 (ntt_pass_32 (ntt_pass_128 v)))) = rntt (map Zq v) \<and>
    set (layer16 2 (layer16 4 (ntt_pass_32 (ntt_pass_128 v)))) \<subseteq> {- (b + 23303)..b + 23303}"
proof -
  note l1 = layer16_residues[of 128 1 v b]
  note l2 = layer16_residues[of 64 2 "layer16 128 v" "b + 3329"]
  note l3 = layer16_residues[of 32 4 "layer16 64 (layer16 128 v)" "b + 3329 + 3329"]
  note l4 = layer16_residues[of 16 8 "layer16 32 (layer16 64 (layer16 128 v))" "b + 3329 + 3329 + 3329"]
  note l5 = layer16_residues[of 8 16 "layer16 16 (layer16 32 (layer16 64 (layer16 128 v)))" "b + 3329 + 3329 + 3329 + 3329"]
  note l6 = layer16_residues[of 4 32 "layer16 8 (layer16 16 (layer16 32 (layer16 64 (layer16 128 v))))" "b + 3329 + 3329 + 3329 + 3329 + 3329"]
  note l7 = layer16_residues[of 2 64 "layer16 4 (layer16 8 (layer16 16 (layer16 32 (layer16 64 (layer16 128 v)))))" "b + 3329 + 3329 + 3329 + 3329 + 3329 + 3329"]
  show ?thesis
    using l1 l2 l3 l4 l5 l6 l7 assms by (simp add: rntt_def pass_128_layers pass_32_layers add.commute)
qed

lemma ntt_residues:
  assumes "length v = 256" "set v \<subseteq> {- b..b}" "b \<le> 9464"
  shows "map Zq (mlkem_ntt v) = rntt (map Zq v)" "set (mlkem_ntt v) \<subseteq> {0..3329}" "length (mlkem_ntt v) = 256"
proof -
  let ?u = "layer16 2 (layer16 4 (ntt_pass_32 (ntt_pass_128 v)))"
  have u: "map Zq ?u = rntt (map Zq v)" "set ?u \<subseteq> {- (b + 23303)..b + 23303}" using passes_residues[OF assms] by auto
  have "\<bar>x\<bar> \<le> 32767" if "x \<in> set ?u" for x using subsetD[OF u(2) that] assms(3) by auto
  then show "map Zq (mlkem_ntt v) = rntt (map Zq v)" "set (mlkem_ntt v) \<subseteq> {0..3329}" "length (mlkem_ntt v) = 256"
    unfolding ntt_layers[OF assms(1)] u(1)[symmetric] using BARRETT_RED_range BARRETT_RED_residue by auto
qed

section \<open>Residues of polynomials\<close>

text \<open>The monomial \<open>X^i\<close> modulo \<open>X^L - c\<close>, and a polynomial modulo \<open>X^L - c\<close>: the coefficient of \<open>X^k\<close>.\<close>

definition monom :: "nat \<Rightarrow> zq \<Rightarrow> nat \<Rightarrow> nat \<Rightarrow> zq" where
  "monom L c i k = (if i mod L = k then c ^ (i div L) else 0)"

definition residue :: "nat \<Rightarrow> zq \<Rightarrow> zq list \<Rightarrow> nat \<Rightarrow> zq" where
  "residue L c a k = (\<Sum>i<256. a ! i * monom L c i k)"

definition residues :: "nat \<Rightarrow> zq list \<Rightarrow> zq list" where
  "residues L a = map (\<lambda>p. residue L (znode (256 div L + p div L)) a (p mod L)) [0..<256]"

lemma mono_split: "k < L \<Longrightarrow> monom (2 * L) (c\<^sup>2) i k + c * monom (2 * L) (c\<^sup>2) i (k + L) = monom L c i k"
proof -
  assume k: "k < L"
  define q m where "q = i div L" and "m = i mod L"
  have i: "i = q * L + m" "m < L" using k by (simp_all add: q_def m_def)
  have d: "i div (2 * L) = q div 2" by (simp add: q_def div_mult2_eq[symmetric] mult.commute)
  have e: "i mod (2 * L) = L * (q mod 2) + m" by (simp add: q_def m_def mod_mult2_eq mult.commute)
  have p: "(c\<^sup>2) ^ (q div 2) * c ^ (q mod 2) = c ^ q" by (metis mult_div_mod_eq power_add power_mult)
  show ?thesis
  proof (cases "even q")
    case True
    then have "q mod 2 = 0" by simp
    then show ?thesis using p k i(2) unfolding monom_def d e q_def[symmetric] m_def[symmetric] by auto
  next
    case False
    then have "q mod 2 = 1" by (simp add: odd_iff_mod_2_eq_one)
    then show ?thesis using p k i(2) unfolding monom_def d e q_def[symmetric] m_def[symmetric] by (auto simp: mult.commute)
  qed
qed

lemma residue_split:
  assumes "k < L"
  shows "residue (2 * L) (c\<^sup>2) a k + c * residue (2 * L) (c\<^sup>2) a (k + L) = residue L c a k"
    "residue (2 * L) (c\<^sup>2) a k - c * residue (2 * L) (c\<^sup>2) a (k + L) = residue L (- c) a k"
proof -
  have s: "residue (2 * L) (c\<^sup>2) a k + c * residue (2 * L) (c\<^sup>2) a (k + L) = residue L c a k" for c
    unfolding residue_def sum_distrib_left sum.distrib[symmetric]
    by (rule sum.cong) (simp_all flip: mono_split[OF assms] add: algebra_simps)
  show "residue (2 * L) (c\<^sup>2) a k + c * residue (2 * L) (c\<^sup>2) a (k + L) = residue L c a k" by (rule s)
  show "residue (2 * L) (c\<^sup>2) a k - c * residue (2 * L) (c\<^sup>2) a (k + L) = residue L (- c) a k" using s[of "- c"] by simp
qed

lemma residues_256: "length a = 256 \<Longrightarrow> residues 256 a = a"
proof (rule nth_equalityI)
  fix p assume a: "length a = 256" and "p < length (residues 256 a)"
  then have p: "p < 256" by (simp add: residues_def)
  have "residues 256 a ! p = residue 256 (znode 1) a p" using p by (simp add: residues_def)
  also have "\<dots> = (\<Sum>i<256. if i = p then a ! i else 0)"
    unfolding residue_def by (rule sum.cong) (auto simp: monom_def)
  finally have "residues 256 a ! p = (\<Sum>i<256. if i = p then a ! i else 0)" .
  then show "residues 256 a ! p = a ! p" using p by simp
qed (simp add: residues_def)

lemma rlayer_residues:
  assumes "len * n = 128" "n \<le> 64" "1 \<le> n"
  shows "rlayer len (residues (2 * len) a) = residues len a"
proof (rule nth_equalityI)
  fix p assume "p < length (rlayer len (residues (2 * len) a))"
  then have "p < 256" by simp
  then obtain b k where b: "b < n" "k < len" "p = 2 * len * b + k \<or> p = 2 * len * b + k + len" "2 * len * b + k + len < 256"
    "128 div len + b = n + b" by (rule layer_cell[OF assms(1)])
  have t: "1 \<le> n + b" "n + b < 128" using assms(2,3) b(1) by auto
  have n: "256 div (2 * len) = n" "256 div len = 2 * n" using assms(1) b(2) by (auto intro!: div_of_mult)
  have d: "(2 * len * b + k) div (2 * len) = b" "(2 * len * b + k) mod (2 * len) = k"
    "(2 * len * b + k + len) div (2 * len) = b" "(2 * len * b + k + len) mod (2 * len) = k + len"
    "(2 * len * b + k) div len = 2 * b" "(2 * len * b + k) mod len = k"
    "(2 * len * b + k + len) div len = 2 * b + 1" "(2 * len * b + k + len) mod len = k"
    using b(2) div_mult_self4[of len "2 * b" k] div_mult_self4[of len "2 * b + 1" k] div_mult_self4[of "2 * len" b "k + len"]
      mod_mult_self4[of len "2 * b" k] mod_mult_self4[of len "2 * b + 1" k] mod_mult_self4[of "2 * len" b "k + len"]
    by (simp_all add: algebra_simps)
  have r: "residues (2 * len) a ! (2 * len * b + k) = residue (2 * len) ((zroot (n + b))\<^sup>2) a k"
    "residues (2 * len) a ! (2 * len * b + k + len) = residue (2 * len) ((zroot (n + b))\<^sup>2) a (k + len)"
    "residues len a ! (2 * len * b + k) = residue len (zroot (n + b)) a k"
    "residues len a ! (2 * len * b + k + len) = residue len (- zroot (n + b)) a k"
    using b(2,4) t znode_tree[OF t(1)] by (simp_all add: residues_def d n zroot_squared)
  then show "rlayer len (residues (2 * len) a) ! p = residues len a ! p"
    using layer_pair[OF b(2) refl refl b(4,5), of "\<lambda>t x y. x + zroot t * y" "\<lambda>t x y. x - zroot t * y" "residues (2 * len) a"]
      b(3) residue_split[OF b(2), of "zroot (n + b)" a] by auto
qed (simp add: residues_def)

lemma rntt_residues: "length a = 256 \<Longrightarrow> rntt a = residues 2 a"
  using rlayer_residues[of 128 1 a] rlayer_residues[of 64 2 a] rlayer_residues[of 32 4 a] rlayer_residues[of 16 8 a]
    rlayer_residues[of 8 16 a] rlayer_residues[of 4 32 a] rlayer_residues[of 2 64 a] residues_256[of a]
  by (simp add: rntt_def)

section \<open>Multiplication\<close>

text \<open>The product modulo \<open>X^256 + 1\<close>.\<close>

definition pmul :: "zq list \<Rightarrow> zq list \<Rightarrow> zq list" where
  "pmul a b = map (\<lambda>k. \<Sum>i<256. \<Sum>j<256. a ! i * b ! j * monom 256 (- 1) (i + j) k) [0..<256]"

text \<open>The product modulo \<open>X^2 - c\<close>.\<close>

definition bmul :: "zq \<Rightarrow> zq \<times> zq \<Rightarrow> zq \<times> zq \<Rightarrow> zq \<times> zq" where
  "bmul c = (\<lambda>(a0, a1) (b0, b1). (a0 * b0 + c * (a1 * b1), a0 * b1 + a1 * b0))"

definition residue2 :: "zq \<Rightarrow> zq list \<Rightarrow> zq \<times> zq" where
  "residue2 c a = (residue 2 c a 0, residue 2 c a 1)"

lemma mono_mono:
  assumes "c ^ 128 = - 1" "k < 2"
  shows "(\<Sum>m<256. monom 256 (- 1) i m * monom 2 c m k) = monom 2 c i k"
proof -
  have "(\<Sum>m<256. monom 256 (- 1) i m * monom 2 c m k) = (\<Sum>m<256. if m = i mod 256 then (- 1) ^ (i div 256) * monom 2 c (i mod 256) k else 0)"
    by (rule sum.cong) (auto simp: monom_def)
  also have "\<dots> = (- 1) ^ (i div 256) * monom 2 c (i mod 256) k" by simp
  also have "\<dots> = monom 2 c i k"
  proof -
    have "i div 2 = (2 * (128 * (i div 256)) + i mod 256) div 2" by (simp add: mult.assoc[symmetric])
    also have "\<dots> = 128 * (i div 256) + i mod 256 div 2" by (rule div_mult_self4) simp
    finally have "i div 2 = 128 * (i div 256) + i mod 256 div 2" .
    then have "c ^ (i div 2) = (- 1) ^ (i div 256) * c ^ (i mod 256 div 2)"
      by (simp add: power_add power_mult assms(1))
    moreover have "i mod 256 mod 2 = i mod 2" by (rule mod_mod_cancel) simp
    ultimately show ?thesis by (simp add: monom_def)
  qed
  finally show ?thesis .
qed

lemma residue_pmul:
  assumes "c ^ 128 = - 1" "k < 2"
  shows "residue 2 c (pmul a b) k = (\<Sum>i<256. \<Sum>j<256. a ! i * b ! j * monom 2 c (i + j) k)"
proof -
  have "residue 2 c (pmul a b) k = (\<Sum>m<256. \<Sum>i<256. \<Sum>j<256. a ! i * b ! j * (monom 256 (- 1) (i + j) m * monom 2 c m k))"
    unfolding residue_def by (rule sum.cong) (simp_all add: pmul_def sum_distrib_right mult.assoc)
  also have "\<dots> = (\<Sum>i<256. \<Sum>m<256. \<Sum>j<256. a ! i * b ! j * (monom 256 (- 1) (i + j) m * monom 2 c m k))"
    by (rule sum.swap)
  also have "\<dots> = (\<Sum>i<256. \<Sum>j<256. \<Sum>m<256. a ! i * b ! j * (monom 256 (- 1) (i + j) m * monom 2 c m k))"
    by (rule sum.cong[OF refl], rule sum.swap)
  also have "\<dots> = (\<Sum>i<256. \<Sum>j<256. a ! i * b ! j * monom 2 c (i + j) k)"
    by (simp add: sum_distrib_left[symmetric] mono_mono[OF assms])
  finally show ?thesis .
qed

lemma mono2_add:
  "monom 2 c (i + j) 0 = monom 2 c i 0 * monom 2 c j 0 + c * (monom 2 c i 1 * monom 2 c j 1)"
  "monom 2 c (i + j) 1 = monom 2 c i 0 * monom 2 c j 1 + monom 2 c i 1 * monom 2 c j 0"
proof -
  consider x y where "i = 2 * x" "j = 2 * y" | x y where "i = 2 * x" "j = 2 * y + 1"
    | x y where "i = 2 * x + 1" "j = 2 * y" | x y where "i = 2 * x + 1" "j = 2 * y + 1"
    by (metis oddE evenE)
  then show "monom 2 c (i + j) 0 = monom 2 c i 0 * monom 2 c j 0 + c * (monom 2 c i 1 * monom 2 c j 1)"
    "monom 2 c (i + j) 1 = monom 2 c i 0 * monom 2 c j 1 + monom 2 c i 1 * monom 2 c j 0"
    by (cases; simp add: monom_def power_add)+
qed

lemma residue2_pmul:
  assumes "c ^ 128 = - 1"
  shows "residue2 c (pmul a b) = bmul c (residue2 c a) (residue2 c b)"
proof -
  have p: "residue 2 c a k * residue 2 c b l = (\<Sum>i<256. \<Sum>j<256. a ! i * b ! j * (monom 2 c i k * monom 2 c j l))" for k l
    by (simp add: residue_def sum_product ac_simps)
  have lt0: "0 < (2 :: nat)" and lt2: "1 < (2 :: nat)" by simp_all
  have "residue 2 c (pmul a b) 0 = residue 2 c a 0 * residue 2 c b 0 + c * (residue 2 c a 1 * residue 2 c b 1)"
    unfolding p residue_pmul[OF assms lt0] mono2_add by (simp add: sum_distrib_left sum.distrib distrib_left ac_simps)
  moreover have "residue 2 c (pmul a b) 1 = residue 2 c a 0 * residue 2 c b 1 + residue 2 c a 1 * residue 2 c b 0"
    unfolding p residue_pmul[OF assms lt2] mono2_add by (simp add: sum.distrib distrib_left ac_simps)
  ultimately show ?thesis by (simp add: residue2_def bmul_def)
qed

section \<open>The inverse transform\<close>

definition winv :: "nat \<Rightarrow> nat \<Rightarrow> zq" where
  "winv n t = Zq (zetas_inv ! (t + 128 - 3 * n)) * 169"

abbreviation rinv_layer :: "nat \<Rightarrow> nat \<Rightarrow> zq list \<Rightarrow> zq list" where
  "rinv_layer n \<equiv> layer_with (\<lambda>t x y. x + y) (\<lambda>t x y. winv n t * (x - y))"

definition rinvntt :: "zq list \<Rightarrow> zq list" where
  "rinvntt v = map (\<lambda>x. Zq 1441 * 169 * x) (rinv_layer 1 128 (rinv_layer 2 64 (rinv_layer 4 32 (rinv_layer 8 16
     (rinv_layer 16 8 (rinv_layer 32 4 (rinv_layer 64 2 v)))))))"

lemma mont_inv_root:
  assumes "n \<in> {1, 2, 4, 8, 16, 32, 64}" "n \<le> t" "t < 2 * n" "\<bar>y\<bar> \<le> 32767"
  shows "Zq (MLKEM_MONT_RED (zetas_inv ! (t + 128 - 3 * n) * y)) = winv n t * Zq y"
    "\<bar>MLKEM_MONT_RED (zetas_inv ! (t + 128 - 3 * n) * y)\<bar> \<le> 3329"
proof -
  let ?z = "zetas_inv ! (t + 128 - 3 * n)"
  have "t + 128 - 3 * n < 128" using assms(1-3) by auto
  then have "\<bar>?z\<bar> * \<bar>y\<bar> \<le> 3328 * 32768" using zetas_bound(2) assms(4) by (intro mult_mono) auto
  then have d: "\<bar>?z * y\<bar> \<le> 3329 * 32768" by (simp add: abs_mult)
  then show "\<bar>MLKEM_MONT_RED (?z * y)\<bar> \<le> 3329" by (rule mont.red_small)
  show "Zq (MLKEM_MONT_RED (?z * y)) = winv n t * Zq y" using mont_residue[OF d] by (simp add: winv_def)
qed

lemma winv_zroot:
  assumes "n \<in> {1, 2, 4, 8, 16, 32, 64}" "n \<le> t" "t < 2 * n"
  shows "winv n t * zroot t = 1"
proof -
  let ?x = "zetas_inv ! (t + 128 - 3 * n) * 169 * (zetas ! t * 169)"
  have "?x mod 3329 = 1 mod 3329" using inv_table assms by auto
  then have "Zq ?x = Zq 1" by (simp only: Zq_eq_iff)
  then show ?thesis by (simp add: winv_def zroot_def)
qed

lemma inverse_layer:
  assumes "len * n = 128" "n \<in> {1, 2, 4, 8, 16, 32, 64}" "length v = 256"
  shows "rinv_layer n len (rlayer len v) = map ((*) 2) v"
proof (rule nth_equalityI)
  fix p assume "p < length (rinv_layer n len (rlayer len v))"
  then have "p < 256" by simp
  then obtain b k where b: "b < n" "k < len" "p = 2 * len * b + k \<or> p = 2 * len * b + k + len" "2 * len * b + k + len < 256"
    "128 div len + b = n + b" by (rule layer_cell[OF assms(1)])
  let ?x = "v ! (2 * len * b + k)" and ?y = "v ! (2 * len * b + k + len)" and ?t = "n + b"
  have "winv n ?t * (?x + zroot ?t * ?y - (?x - zroot ?t * ?y)) = 2 * (winv n ?t * zroot ?t) * ?y" by (simp add: algebra_simps)
  also have "\<dots> = 2 * ?y" using winv_zroot[OF assms(2), of ?t] b(1) by simp
  finally have g: "winv n ?t * (?x + zroot ?t * ?y - (?x - zroot ?t * ?y)) = 2 * ?y" .
  show "rinv_layer n len (rlayer len v) ! p = map ((*) 2) v ! p"
    using layer_pair[OF b(2) refl refl b(4,5), of "\<lambda>t x y. x + y" "\<lambda>t x y. winv n t * (x - y)" "rlayer len v"]
      layer_pair[OF b(2) refl refl b(4,5), of "\<lambda>t x y. x + zroot t * y" "\<lambda>t x y. x - zroot t * y" v] b(3,4) assms(3) g
    by auto
qed (use assms in simp)

lemma rinv_layer_scale: "len * n = 128 \<Longrightarrow> length v = 256 \<Longrightarrow> rinv_layer n len (map ((*) c) v) = map ((*) c) (rinv_layer n len v)"
  using layer_sim[of len n v UNIV "(*) c" "\<lambda>t x y. x + y" "\<lambda>t x y. x + y" "\<lambda>t x y. winv n t * (x - y)" "\<lambda>t x y. winv n t * (x - y)" UNIV]
  by (simp add: algebra_simps)

text \<open>The inverse transform of the transform is the polynomial times the Montgomery factor.\<close>

lemma rinvntt_rntt:
  assumes "length v = 256"
  shows "rinvntt (rntt v) = map ((*) 65536) v"
proof -
  have "rinvntt (rntt v) = map (\<lambda>x. Zq 1441 * 169 * x) (map ((*) 128) v)"
    using assms by (simp add: rinvntt_def rntt_def inverse_layer rinv_layer_scale comp_def mult.assoc[symmetric])
  also have "\<dots> = map ((*) (Zq 1441 * 169 * 128)) v" by (simp only: map_map comp_def mult.assoc[symmetric])
  also have "Zq 1441 * 169 * 128 = (65536 :: zq)" by simp
  finally show ?thesis .
qed

lemma sum_layer_residues:
  assumes "len * n = 128" "n \<in> {1, 2, 4, 8, 16, 32, 64}" "length v = 256" "set v \<subseteq> {- b..b}" "1665 \<le> b" "2 * b \<le> 32767"
  shows "map Zq (layer_with S16 (D16 n) len v) = rinv_layer n len (map Zq v) \<and> set (layer_with S16 (D16 n) len v) \<subseteq> {- (2 * b)..2 * b}"
proof (rule layer_sim[OF assms(1,3,4)])
  fix t x y assume t: "n \<le> t" "t < 2 * n" and xy: "x \<in> {- b..b}" "y \<in> {- b..b}"
  have s: "sword16 (x + y) = x + y" "sword16 (x - y) = x - y" using xy assms(6) by (auto intro!: sword16_abs)
  have "\<bar>x - y\<bar> \<le> 32767" using xy assms(6) by auto
  note m = mont_inv_root[OF assms(2) t this]
  show "Zq (S16 t x y) = Zq x + Zq y \<and> Zq (D16 n t x y) = winv n t * (Zq x - Zq y) \<and>
      S16 t x y \<in> {- (2 * b)..2 * b} \<and> D16 n t x y \<in> {- (2 * b)..2 * b}"
    using m xy assms(5) by (auto simp: S16_def D16_def s)
qed

lemma barrett_layer_residues:
  assumes "len * n = 128" "n \<in> {1, 2, 4, 8, 16, 32, 64}" "length v = 256" "set v \<subseteq> {- b..b}" "2 * b \<le> 32767"
  shows "map Zq (layer_with B16 (D16 n) len v) = rinv_layer n len (map Zq v) \<and> set (layer_with B16 (D16 n) len v) \<subseteq> {- 3329..3329}"
proof (rule layer_sim[OF assms(1,3,4)])
  fix t x y assume t: "n \<le> t" "t < 2 * n" and xy: "x \<in> {- b..b}" "y \<in> {- b..b}"
  have s: "sword16 (x - y) = x - y" using xy assms(5) by (auto intro!: sword16_abs)
  have "\<bar>x - y\<bar> \<le> 32767" and a: "\<bar>x + y\<bar> \<le> 32767" using xy assms(5) by auto
  note m = mont_inv_root[OF assms(2) t this(1)]
  show "Zq (B16 t x y) = Zq x + Zq y \<and> Zq (D16 n t x y) = winv n t * (Zq x - Zq y) \<and>
      B16 t x y \<in> {- 3329..3329} \<and> D16 n t x y \<in> {- 3329..3329}"
    using m BARRETT_RED_residue[OF a] BARRETT_RED_range[OF a] by (auto simp: B16_def D16_def s)
qed

text \<open>
  The sums of the first two layers are not reduced before the third one adds them again: coefficients up to 4095
  are safe.
\<close>

lemma invntt_residues:
  assumes "length v = 256" "set v \<subseteq> {- 4095..4095}"
  shows "map Zq (mlkem_invntt v) = rinvntt (map Zq v)" "set (mlkem_invntt v) \<subseteq> {- 3329..3329}" "length (mlkem_invntt v) = 256"
proof -
  let ?a = "layer_with S16 (D16 64) 2 v"
  let ?b = "layer_with S16 (D16 32) 4 ?a"
  let ?c = "layer_with B16 (D16 16) 8 ?b"
  let ?d = "layer_with S16 (D16 8) 16 ?c"
  let ?e = "layer_with S16 (D16 4) 32 ?d"
  let ?f = "layer_with B16 (D16 2) 64 ?e"
  let ?g = "layer_with S16 (D16 1) 128 ?f"
  have a: "map Zq ?a = rinv_layer 64 2 (map Zq v)" "set ?a \<subseteq> {- 8190..8190}" using sum_layer_residues[of 2 64 v 4095] assms by simp_all
  have b: "map Zq ?b = rinv_layer 32 4 (map Zq ?a)" "set ?b \<subseteq> {- 16380..16380}" using sum_layer_residues[of 4 32 ?a 8190] a by simp_all
  have c: "map Zq ?c = rinv_layer 16 8 (map Zq ?b)" "set ?c \<subseteq> {- 3329..3329}" using barrett_layer_residues[of 8 16 ?b 16380] b by simp_all
  have d: "map Zq ?d = rinv_layer 8 16 (map Zq ?c)" "set ?d \<subseteq> {- 6658..6658}" using sum_layer_residues[of 16 8 ?c 3329] c by simp_all
  have e: "map Zq ?e = rinv_layer 4 32 (map Zq ?d)" "set ?e \<subseteq> {- 13316..13316}" using sum_layer_residues[of 32 4 ?d 6658] d by simp_all
  have f: "map Zq ?f = rinv_layer 2 64 (map Zq ?e)" "set ?f \<subseteq> {- 3329..3329}" using barrett_layer_residues[of 64 2 ?e 13316] e by simp_all
  have g: "map Zq ?g = rinv_layer 1 128 (map Zq ?f)" "set ?g \<subseteq> {- 6658..6658}" using sum_layer_residues[of 128 1 ?f 3329] f by simp_all
  have z: "zetas_inv ! 127 = 1441" by (simp add: zetas_inv_def)
  have m: "Zq (MLKEM_MONT_RED (1441 * x)) = Zq 1441 * 169 * Zq x \<and> MLKEM_MONT_RED (1441 * x) \<in> {- 3329..3329}" if "x \<in> set ?g" for x
  proof -
    have "\<bar>x\<bar> \<le> 6658" using subsetD[OF g(2) that] by auto
    then have "\<bar>1441 * x\<bar> \<le> 3329 * 32768" by (simp add: abs_mult)
    from mont_residue[OF this] mont.red_small[OF this] show ?thesis by (simp add: abs_le_iff)
  qed
  have e: "mlkem_invntt v = map (\<lambda>x. MLKEM_MONT_RED (1441 * x)) ?g" unfolding invntt_layers[OF assms(1)] z ..
  show "length (mlkem_invntt v) = 256" by (simp add: e)
  show "set (mlkem_invntt v) \<subseteq> {- 3329..3329}" unfolding e using m by auto
  have "map Zq (mlkem_invntt v) = map (\<lambda>x. Zq 1441 * 169 * x) (map Zq ?g)" unfolding e using m by simp
  then show "map Zq (mlkem_invntt v) = rinvntt (map Zq v)"
    unfolding g(1) f(1) \<open>map Zq ?e = _\<close> d(1) c(1) b(1) a(1) rinvntt_def .
qed

end
