(* ===== verification/MlkemMul.thy ===== *)
theory MlkemMul
  imports MlkemRing
begin

text \<open>
  Multiplication in the transformed domain, and the theorem that transforming, multiplying and transforming back is
  the multiplication of polynomials modulo \<open>X^256 + 1\<close> and 3329.
\<close>

section \<open>The loops over pairs\<close>

definition pair_root :: "nat \<Rightarrow> int" where
  "pair_root i = (if even i then zetas ! (64 + i div 2) else sword16 (- zetas ! (64 + i div 2)))"

lemma fold_blocks: "fold (\<lambda>m. fold h [8 * m..<8 * m + 8]) [0..<n] r = fold h [0..<8 * n] r"
proof (induction n)
  case (Suc n)
  have "[0..<8 * Suc n] = [0..<8 * n] @ [8 * n..<8 * n + 8]" by (metis add.commute le0 mult_Suc_right upt_add_eq_append)
  with Suc show ?case by simp
qed simp

lemma upt_eight: "[x..<x + 8] = [x, x + 1, x + 2, x + 3, x + 4, x + 5, x + 6, x + 7]"
  by (simp add: upt_rec)

lemma fold_steps_16:
  assumes "\<And>m r. body (16 * m) r = fold h [8 * m..<8 * m + 8] r"
  shows "fold body (steps MLKEM_N 16) r = fold h [0..<128] r"
proof -
  have "body (16 * m) = fold h [8 * m..<8 * m + 8]" for m using assms by blast
  then have "fold body (steps MLKEM_N 16) r = fold (\<lambda>m. fold h [8 * m..<8 * m + 8]) [0..<16] r"
    by (simp add: steps_def fold_map comp_def)
  then show ?thesis by (simp only: fold_blocks)  simp
qed

lemma pair_root_eight:
  "pair_root (8 * m) = zetas ! (64 + 4 * m)" "pair_root (8 * m + 1) = sword16 (- zetas ! (64 + 4 * m))"
  "pair_root (8 * m + 2) = zetas ! (64 + 4 * m + 1)" "pair_root (8 * m + 3) = sword16 (- zetas ! (64 + 4 * m + 1))"
  "pair_root (8 * m + 4) = zetas ! (64 + 4 * m + 2)" "pair_root (8 * m + 5) = sword16 (- zetas ! (64 + 4 * m + 2))"
  "pair_root (8 * m + 6) = zetas ! (64 + 4 * m + 3)" "pair_root (8 * m + 7) = sword16 (- zetas ! (64 + 4 * m + 3))"
proof -
  have "(8 * m + 1) div 2 = 4 * m" "(8 * m + 2) div 2 = 4 * m + 1" "(8 * m + 3) div 2 = 4 * m + 1" "(8 * m + 4) div 2 = 4 * m + 2"
    "(8 * m + 5) div 2 = 4 * m + 2" "(8 * m + 6) div 2 = 4 * m + 3" "(8 * m + 7) div 2 = 4 * m + 3" by presburger+
  then show "pair_root (8 * m) = zetas ! (64 + 4 * m)" "pair_root (8 * m + 1) = sword16 (- zetas ! (64 + 4 * m))"
    "pair_root (8 * m + 2) = zetas ! (64 + 4 * m + 1)" "pair_root (8 * m + 3) = sword16 (- zetas ! (64 + 4 * m + 1))"
    "pair_root (8 * m + 4) = zetas ! (64 + 4 * m + 2)" "pair_root (8 * m + 5) = sword16 (- zetas ! (64 + 4 * m + 2))"
    "pair_root (8 * m + 6) = zetas ! (64 + 4 * m + 3)" "pair_root (8 * m + 7) = sword16 (- zetas ! (64 + 4 * m + 3))"
    by (simp_all add: pair_root_def)
qed

lemma basemul_mont_pairs: "mlkem_basemul_mont r a b = fold (\<lambda>i. mul_at a b (2 * i) (pair_root i)) [0..<128] r"
  unfolding mlkem_basemul_mont_def
  by (rule fold_steps_16) (simp add: basemul_body_def upt_eight pair_root_eight Let_def del: One_nat_def add_2_eq_Suc add_2_eq_Suc')

lemma basemul_inplace_pairs: "mlkem_basemul_mont_inplace r a = fold (\<lambda>i r. mul_at a r (2 * i) (pair_root i) r) [0..<128] r"
  unfolding mlkem_basemul_mont_inplace_def
  by (rule fold_steps_16) (simp add: basemul_inplace_body_def upt_eight pair_root_eight Let_def del: One_nat_def add_2_eq_Suc add_2_eq_Suc')

lemma basemul_add_pairs:
  "mlkem_basemul_mont_add r a b = fold (\<lambda>i. add_at (mlkem_basemul (pair_at a (2 * i)) (pair_at b (2 * i)) (pair_root i)) (2 * i)) [0..<128] r"
  unfolding mlkem_basemul_mont_add_def
  by (rule fold_steps_16) (simp add: basemul_add_body_def upt_eight pair_root_eight Let_def del: One_nat_def add_2_eq_Suc add_2_eq_Suc')

section \<open>What the loops compute\<close>

lemma pairs_disjoint: "pairwise (\<lambda>i i'. {2 * i, 2 * i + 1} \<inter> {2 * i', 2 * i' + 1} = {}) (S :: nat set)"
  unfolding pairwise_def by (auto; presburger)

lemma pair_at_cong: "a ! (2 * i) = b ! (2 * i) \<Longrightarrow> a ! (2 * i + 1) = b ! (2 * i + 1) \<Longrightarrow> pair_at a (2 * i) = pair_at b (2 * i)"
  by (simp add: pair_at_def)

lemma pairs_eqI:
  assumes "length v = 256" "length u = 256" "\<And>i. i < 128 \<Longrightarrow> pair_at v (2 * i) = pair_at u (2 * i)"
  shows "v = u"
proof (rule nth_equalityI)
  fix p assume "p < length v"
  then have "p div 2 < 128" using assms(1) by auto
  from assms(3)[OF this] have "v ! (2 * (p div 2)) = u ! (2 * (p div 2))" "v ! (2 * (p div 2) + 1) = u ! (2 * (p div 2) + 1)"
    by (simp_all add: pair_at_def)
  then show "v ! p = u ! p" by (cases "even p") auto
qed (use assms in simp)

interpretation mul: local_update "\<lambda>i. mul_at a b (2 * i) (pair_root i)" "\<lambda>i. {2 * i, 2 * i + 1}" for a b
  by unfold_locales (auto simp: mul_at_def nth_upd split: prod.splits)

interpretation muli: local_update "\<lambda>i r. mul_at a r (2 * i) (pair_root i) r" "\<lambda>i. {2 * i, 2 * i + 1}" for a
  by unfold_locales (auto simp: mul_at_def nth_upd pair_at_def split: prod.splits)

interpretation madd: local_update "\<lambda>i. add_at (mlkem_basemul (pair_at a (2 * i)) (pair_at b (2 * i)) (pair_root i)) (2 * i)" "\<lambda>i. {2 * i, 2 * i + 1}" for a b
  by unfold_locales (auto simp: add_at_def nth_upd)

lemma pair_at_mul_at: "i + 1 < length r \<Longrightarrow> pair_at (mul_at a b i z r) i = mlkem_basemul (pair_at a i) (pair_at b i) z"
  by (simp add: mul_at_def pair_at_def nth_upd split: prod.splits)

lemma basemul_mont_at:
  assumes "length r = 256" "i < 128"
  shows "pair_at (mlkem_basemul_mont r a b) (2 * i) = mlkem_basemul (pair_at a (2 * i)) (pair_at b (2 * i)) (pair_root i)"
proof -
  have "pair_at (mlkem_basemul_mont r a b) (2 * i) = pair_at (mul_at a b (2 * i) (pair_root i) r) (2 * i)"
    unfolding basemul_mont_pairs by (rule pair_at_cong; rule mul.fold_round[OF _ pairs_disjoint, of _ i]) (use assms in auto)
  then show ?thesis using assms by (simp add: pair_at_mul_at)
qed

lemma basemul_inplace_eq:
  assumes "length r = 256"
  shows "mlkem_basemul_mont_inplace r a = mlkem_basemul_mont r a r"
proof (rule pairs_eqI)
  fix i :: nat assume i: "i < 128"
  have "pair_at (mlkem_basemul_mont_inplace r a) (2 * i) = pair_at (mul_at a r (2 * i) (pair_root i) r) (2 * i)"
    unfolding basemul_inplace_pairs by (rule pair_at_cong; rule muli.fold_round[OF _ pairs_disjoint, of _ i]) (use assms i in auto)
  then show "pair_at (mlkem_basemul_mont_inplace r a) (2 * i) = pair_at (mlkem_basemul_mont r a r) (2 * i)"
    using assms i by (simp add: pair_at_mul_at basemul_mont_at)
qed (use assms in \<open>simp_all add: basemul_inplace_pairs basemul_mont_pairs muli.length_fold mul.length_fold\<close>)

lemma basemul_add_at:
  assumes "length r = 256" "i < 128" "mlkem_basemul (pair_at a (2 * i)) (pair_at b (2 * i)) (pair_root i) = (x, y)"
  shows "pair_at (mlkem_basemul_mont_add r a b) (2 * i) = (sword16 (r ! (2 * i) + x), sword16 (r ! (2 * i + 1) + y))"
proof -
  have "pair_at (mlkem_basemul_mont_add r a b) (2 * i) = pair_at (add_at (mlkem_basemul (pair_at a (2 * i)) (pair_at b (2 * i)) (pair_root i)) (2 * i) r) (2 * i)"
    unfolding basemul_add_pairs by (rule pair_at_cong; rule madd.fold_round[OF _ pairs_disjoint, of _ i]) (use assms in auto)
  then show ?thesis using assms by (simp add: add_at_def pair_at_def nth_upd)
qed

lemma length_basemul [simp]: "length (mlkem_basemul_mont r a b) = length r" "length (mlkem_basemul_mont_add r a b) = length r"
  by (simp_all add: basemul_mont_pairs basemul_add_pairs mul.length_fold madd.length_fold)

section \<open>Products of residues\<close>

definition small :: "int list \<Rightarrow> bool" where
  "small a \<longleftrightarrow> length a = 256 \<and> set a \<subseteq> {- 3329..3329}"

lemma small_nth: "small a \<Longrightarrow> p < 256 \<Longrightarrow> \<bar>a ! p\<bar> \<le> 3329"
proof -
  assume a: "small a" "p < 256"
  then have "a ! p \<in> set a" by (simp add: small_def)
  then have "a ! p \<in> {- 3329..3329}" using a(1) unfolding small_def by blast
  then show ?thesis by auto
qed

lemma pair_root_residue:
  assumes "i < 128"
  shows "Zq (pair_root i) * 169 = znode (128 + i)" "\<bar>pair_root i\<bar> \<le> 3328"
proof -
  have t: "64 + i div 2 < 128" using assms by auto
  have s: "sword16 (- zetas ! (64 + i div 2)) = - zetas ! (64 + i div 2)" using zetas_bound(1)[OF t] by (intro sword16_abs) simp
  have "znode (2 * (64 + i div 2)) = zroot (64 + i div 2)" "znode (2 * (64 + i div 2) + 1) = - zroot (64 + i div 2)" by (rule znode_tree; simp)+
  note tree = this
  show "Zq (pair_root i) * 169 = znode (128 + i)"
  proof (cases "even i")
    case True
    then have "128 + i = 2 * (64 + i div 2)" by simp
    then show ?thesis using True tree(1) by (simp only: pair_root_def zroot_def if_True)
  next
    case False
    then have "128 + i = 2 * (64 + i div 2) + 1" using odd_two_times_div_two_succ[of i] by simp
    then show ?thesis using False tree(2) by (simp only: pair_root_def zroot_def s if_False of_int_minus mult_minus_left)
  qed
  show "\<bar>pair_root i\<bar> \<le> 3328" using zetas_bound(1)[OF t] by (simp add: pair_root_def s)
qed

lemma basemul_residues:
  assumes "\<bar>a0\<bar> \<le> 3329" "\<bar>a1\<bar> \<le> 3329" "\<bar>b0\<bar> \<le> 3329" "\<bar>b1\<bar> \<le> 3329" "\<bar>z\<bar> \<le> 3328" "mlkem_basemul (a0, a1) (b0, b1) z = (x, y)"
  shows "Zq x = 169 * (Zq a0 * Zq b0 + Zq z * 169 * (Zq a1 * Zq b1))" "Zq y = 169 * (Zq a0 * Zq b1 + Zq a1 * Zq b0)"
    "\<bar>x\<bar> \<le> 2002" "\<bar>y\<bar> \<le> 2002"
proof -
  have p: "\<bar>u * v\<bar> \<le> 3329 * 3329" if "\<bar>u\<bar> \<le> 3329" "\<bar>v\<bar> \<le> 3329" for u v :: int
    using mult_mono[OF that] by (simp add: abs_mult)
  let ?r = "MLKEM_MONT_RED (a1 * b1)"
  have r: "Zq ?r = Zq (a1 * b1) * 169" "\<bar>?r\<bar> \<le> 1833"
    using mont_residue[of "a1 * b1"] MONT_RED_bound[of "a1 * b1" "3329 * 3329"] p[OF assms(2,4)] by simp_all
  have zr: "\<bar>z * ?r\<bar> \<le> 3328 * 1833" using mult_mono[OF assms(5) r(2)] by (simp add: abs_mult)
  have s1: "\<bar>z * ?r + a0 * b0\<bar> \<le> 17182465" using zr p[OF assms(1,3)] by linarith
  have s2: "\<bar>a0 * b1 + a1 * b0\<bar> \<le> 22164482" using p[OF assms(1,4)] p[OF assms(2,3)] by linarith
  have xy: "x = MLKEM_MONT_RED (z * ?r + a0 * b0)" "y = MLKEM_MONT_RED (a0 * b1 + a1 * b0)"
    using assms(6) s1 s2 by (simp_all add: mlkem_basemul_def Let_def sword32_id)
  show "\<bar>x\<bar> \<le> 2002" "\<bar>y\<bar> \<le> 2002" unfolding xy using MONT_RED_bound[OF s1] MONT_RED_bound[OF s2] by simp_all
  show "Zq x = 169 * (Zq a0 * Zq b0 + Zq z * 169 * (Zq a1 * Zq b1))" "Zq y = 169 * (Zq a0 * Zq b1 + Zq a1 * Zq b0)"
    unfolding xy using mont_residue[of "z * ?r + a0 * b0"] mont_residue[of "a0 * b1 + a1 * b0"] s1 s2 r(1) by (simp_all add: algebra_simps)
qed

text \<open>The product of two transformed polynomials.\<close>

definition nmul :: "zq list \<Rightarrow> zq list \<Rightarrow> zq list" where
  "nmul u v = map (\<lambda>p. if even p then u ! p * v ! p + znode (128 + p div 2) * (u ! (p + 1) * v ! (p + 1))
                       else u ! (p - 1) * v ! p + u ! p * v ! (p - 1)) [0..<256]"

lemma length_nmul [simp]: "length (nmul u v) = 256"
  by (simp add: nmul_def)

lemma nmul_pair:
  assumes "i < 128"
  shows "nmul u v ! (2 * i) = u ! (2 * i) * v ! (2 * i) + znode (128 + i) * (u ! (2 * i + 1) * v ! (2 * i + 1))"
    "nmul u v ! (2 * i + 1) = u ! (2 * i) * v ! (2 * i + 1) + u ! (2 * i + 1) * v ! (2 * i)"
  using assms by (simp_all add: nmul_def)

lemma pair_indices:
  assumes "\<And>i. i < 128 \<Longrightarrow> P (2 * i) \<and> P (2 * i + 1)" "p < (256 :: nat)"
  shows "P p"
proof -
  have "p div 2 < 128" using assms(2) by auto
  from assms(1)[OF this] show ?thesis by (cases "even p") auto
qed

lemma basemul_cell:
  assumes "small a" "small b" "i < 128" "mlkem_basemul (pair_at a (2 * i)) (pair_at b (2 * i)) (pair_root i) = (x, y)"
  shows "Zq x = 169 * nmul (map Zq a) (map Zq b) ! (2 * i)" "Zq y = 169 * nmul (map Zq a) (map Zq b) ! (2 * i + 1)" "\<bar>x\<bar> \<le> 2002" "\<bar>y\<bar> \<le> 2002"
proof -
  have l: "length a = 256" "length b = 256" "2 * i < 256" "2 * i + 1 < 256" using assms(1-3) by (simp_all add: small_def)
  note m = basemul_residues[OF small_nth[OF assms(1) l(3)] small_nth[OF assms(1) l(4)] small_nth[OF assms(2) l(3)] small_nth[OF assms(2) l(4)]
    pair_root_residue(2)[OF assms(3)] assms(4)[unfolded pair_at_def], unfolded pair_root_residue(1)[OF assms(3)]]
  show "\<bar>x\<bar> \<le> 2002" "\<bar>y\<bar> \<le> 2002" by (rule m)+
  show "Zq x = 169 * nmul (map Zq a) (map Zq b) ! (2 * i)" "Zq y = 169 * nmul (map Zq a) (map Zq b) ! (2 * i + 1)"
    using m(1,2) l unfolding nmul_pair[OF assms(3)] by simp_all
qed

lemma basemul_mont_residues:
  assumes "small a" "small b" "length r = 256" "p < 256"
  shows "Zq (mlkem_basemul_mont r a b ! p) = 169 * nmul (map Zq a) (map Zq b) ! p \<and> \<bar>mlkem_basemul_mont r a b ! p\<bar> \<le> 2002"
proof (rule pair_indices[OF _ assms(4)])
  fix i :: nat assume i: "i < 128"
  obtain x y where xy: "mlkem_basemul (pair_at a (2 * i)) (pair_at b (2 * i)) (pair_root i) = (x, y)" by fastforce
  then show "(Zq (mlkem_basemul_mont r a b ! (2 * i)) = 169 * nmul (map Zq a) (map Zq b) ! (2 * i) \<and> \<bar>mlkem_basemul_mont r a b ! (2 * i)\<bar> \<le> 2002) \<and>
    Zq (mlkem_basemul_mont r a b ! (2 * i + 1)) = 169 * nmul (map Zq a) (map Zq b) ! (2 * i + 1) \<and> \<bar>mlkem_basemul_mont r a b ! (2 * i + 1)\<bar> \<le> 2002"
    using basemul_mont_at[OF assms(3) i, of a b] basemul_cell[OF assms(1,2) i xy] by (simp add: pair_at_def)
qed

lemma basemul_add_residues:
  assumes "small a" "small b" "length r = 256" "\<And>p. p < 256 \<Longrightarrow> \<bar>r ! p\<bar> \<le> c" "c + 2002 \<le> 32767" "p < 256"
  shows "Zq (mlkem_basemul_mont_add r a b ! p) = Zq (r ! p) + 169 * nmul (map Zq a) (map Zq b) ! p \<and> \<bar>mlkem_basemul_mont_add r a b ! p\<bar> \<le> c + 2002"
proof (rule pair_indices[OF _ assms(6)])
  fix i :: nat assume i: "i < 128"
  obtain x y where xy: "mlkem_basemul (pair_at a (2 * i)) (pair_at b (2 * i)) (pair_root i) = (x, y)" by fastforce
  note m = basemul_cell[OF assms(1,2) i xy]
  have r: "\<bar>r ! (2 * i)\<bar> \<le> c" "\<bar>r ! (2 * i + 1)\<bar> \<le> c" using assms(4) i by simp_all
  have "sword16 (r ! (2 * i) + x) = r ! (2 * i) + x" "sword16 (r ! (2 * i + 1) + y) = r ! (2 * i + 1) + y"
    using r m(3,4) assms(5) by (intro sword16_abs; linarith)+
  then have "mlkem_basemul_mont_add r a b ! (2 * i) = r ! (2 * i) + x" "mlkem_basemul_mont_add r a b ! (2 * i + 1) = r ! (2 * i + 1) + y"
    using basemul_add_at[OF assms(3) i xy] by (simp_all add: pair_at_def)
  then show "(Zq (mlkem_basemul_mont_add r a b ! (2 * i)) = Zq (r ! (2 * i)) + 169 * nmul (map Zq a) (map Zq b) ! (2 * i) \<and>
      \<bar>mlkem_basemul_mont_add r a b ! (2 * i)\<bar> \<le> c + 2002) \<and>
    Zq (mlkem_basemul_mont_add r a b ! (2 * i + 1)) = Zq (r ! (2 * i + 1)) + 169 * nmul (map Zq a) (map Zq b) ! (2 * i + 1) \<and>
      \<bar>mlkem_basemul_mont_add r a b ! (2 * i + 1)\<bar> \<le> c + 2002"
    using m r by (simp, linarith)
qed

section \<open>Products of vectors\<close>

text \<open>The inner product of two vectors of transformed polynomials.\<close>

definition dot :: "nat \<Rightarrow> zq list list \<Rightarrow> zq list list \<Rightarrow> zq list" where
  "dot k u v = map (\<lambda>p. \<Sum>j<k. nmul (u ! j) (v ! j) ! p) [0..<256]"

lemma length_dot [simp]: "length (dot k u v) = 256"
  by (simp add: dot_def)

definition small_vec :: "nat \<Rightarrow> int list list \<Rightarrow> bool" where
  "small_vec k a \<longleftrightarrow> length a = k \<and> (\<forall>j<k. small (a ! j))"

lemma acc_residues:
  assumes "\<forall>j<Suc m. small (a ! j) \<and> small (b ! j)" "2002 * int (Suc m) \<le> 32767" "length r = 256" "p < 256"
  shows "Zq (fold (\<lambda>i r. mlkem_basemul_mont_add r (a ! i) (b ! i)) [1..<Suc m] (mlkem_basemul_mont r (a ! 0) (b ! 0)) ! p) =
      169 * (\<Sum>j<Suc m. nmul (map Zq (a ! j)) (map Zq (b ! j)) ! p) \<and>
    \<bar>fold (\<lambda>i r. mlkem_basemul_mont_add r (a ! i) (b ! i)) [1..<Suc m] (mlkem_basemul_mont r (a ! 0) (b ! 0)) ! p\<bar> \<le> 2002 * int (Suc m) \<and>
    length (fold (\<lambda>i r. mlkem_basemul_mont_add r (a ! i) (b ! i)) [1..<Suc m] (mlkem_basemul_mont r (a ! 0) (b ! 0))) = 256"
  using assms(1,2,4)
proof (induction m arbitrary: p)
  case 0
  then show ?case using basemul_mont_residues[of "a ! 0" "b ! 0" r p] assms(3) by simp
next
  case (Suc m)
  let ?r = "fold (\<lambda>i r. mlkem_basemul_mont_add r (a ! i) (b ! i)) [1..<Suc m] (mlkem_basemul_mont r (a ! 0) (b ! 0))"
  have "2002 * int (Suc m) \<le> 32767" "2002 * int (Suc m) + 2002 \<le> 32767" using Suc.prems(2) by simp_all
  moreover have ih: "Zq (?r ! p) = 169 * (\<Sum>j<Suc m. nmul (map Zq (a ! j)) (map Zq (b ! j)) ! p) \<and> \<bar>?r ! p\<bar> \<le> 2002 * int (Suc m) \<and> length ?r = 256" if "p < 256" for p
    using Suc.IH[OF _ calculation(1) that] Suc.prems(1) by simp
  ultimately have "Zq (mlkem_basemul_mont_add ?r (a ! Suc m) (b ! Suc m) ! p) = Zq (?r ! p) + 169 * nmul (map Zq (a ! Suc m)) (map Zq (b ! Suc m)) ! p \<and>
      \<bar>mlkem_basemul_mont_add ?r (a ! Suc m) (b ! Suc m) ! p\<bar> \<le> 2002 * int (Suc m) + 2002"
    using basemul_add_residues[of "a ! Suc m" "b ! Suc m" ?r "2002 * int (Suc m)" p] Suc.prems(1,3) ih[of 0] by simp
  moreover have "fold (\<lambda>i r. mlkem_basemul_mont_add r (a ! i) (b ! i)) [1..<Suc (Suc m)] (mlkem_basemul_mont r (a ! 0) (b ! 0)) =
      mlkem_basemul_mont_add ?r (a ! Suc m) (b ! Suc m)" by simp
  ultimately show ?case using ih[OF Suc.prems(3)] by (simp only: sum.lessThan_Suc[of _ "Suc m"] distrib_left length_basemul) simp
qed

lemma pointwise_acc_residues:
  assumes "2 \<le> k" "k \<le> 16" "small_vec k a" "small_vec k b" "length r = 256"
  shows "map Zq (mlkem_pointwise_acc_mont r a b k) = map ((*) 169) (dot k (map (map Zq) a) (map (map Zq) b))"
    "set (mlkem_pointwise_acc_mont r a b k) \<subseteq> {- (2002 * int k)..2002 * int k}" "length (mlkem_pointwise_acc_mont r a b k) = 256"
proof -
  define m where "m = k - 2"
  have k: "k = Suc (Suc m)" using assms(1) by (simp add: m_def)
  have i: "2002 * int (Suc (Suc m)) \<le> 32767" "\<forall>j<Suc (Suc m). small (a ! j) \<and> small (b ! j)" using assms(2-4) by (simp_all add: k small_vec_def)
  define x where "x = mlkem_pointwise_acc_mont r a b k"
  have e: "fold (\<lambda>i r. mlkem_basemul_mont_add r (a ! i) (b ! i)) [1..<Suc (Suc m)] (mlkem_basemul_mont r (a ! 0) (b ! 0)) = x"
    by (simp add: x_def mlkem_pointwise_acc_mont_def k)
  note acc = acc_residues[OF i(2,1) assms(5), unfolded e, folded k]
  show l: "length x = 256" using acc[of 0] by simp
  have "x ! p \<in> {- (2002 * int k)..2002 * int k}" if "p < 256" for p using acc[OF that] by (simp add: abs_le_iff)
  then show "set x \<subseteq> {- (2002 * int k)..2002 * int k}" using l by (auto simp: in_set_conv_nth)
  have "map Zq x ! p = map ((*) 169) (dot k (map (map Zq) a) (map (map Zq) b)) ! p" if p: "p < 256" for p
  proof -
    have "(\<Sum>j<k. nmul (map Zq (a ! j)) (map Zq (b ! j)) ! p) = dot k (map (map Zq) a) (map (map Zq) b) ! p"
      using p assms(3,4) by (simp add: dot_def small_vec_def)
    then show ?thesis using acc[OF p] p l by simp
  qed
  then show "map Zq x = map ((*) 169) (dot k (map (map Zq) a) (map (map Zq) b))" using l by (auto intro!: nth_equalityI)
qed

section \<open>The ring\<close>

lemma rntt_pmul:
  assumes "length x = 256" "length y = 256"
  shows "rntt (pmul x y) = nmul (rntt x) (rntt y)"
proof (rule nth_equalityI)
  have l: "length (pmul x y) = 256" by (simp add: pmul_def)
  fix p assume "p < length (rntt (pmul x y))"
  then have "p < 256" by (simp add: rntt_def)
  then show "rntt (pmul x y) ! p = nmul (rntt x) (rntt y) ! p"
  proof (rule pair_indices[rotated])
    fix i :: nat assume i: "i < 128"
    have "znode (128 + i) ^ 2 ^ 7 = - 1" by (rule znode_power) (use i in simp_all)
    then have "znode (128 + i) ^ 128 = - 1" by simp
    note m = residue2_pmul[OF this, of x y]
    have r: "residues 2 z ! (2 * i) = residue 2 (znode (128 + i)) z 0" "residues 2 z ! (2 * i + 1) = residue 2 (znode (128 + i)) z 1" for z
      using i by (simp_all add: residues_def)
    show "rntt (pmul x y) ! (2 * i) = nmul (rntt x) (rntt y) ! (2 * i) \<and> rntt (pmul x y) ! (2 * i + 1) = nmul (rntt x) (rntt y) ! (2 * i + 1)"
      using m by (simp add: rntt_residues[OF l] rntt_residues[OF assms(1)] rntt_residues[OF assms(2)] nmul_pair[OF i] r residue2_def bmul_def del: One_nat_def)
  qed
qed (simp add: rntt_def)

lemma length_rntt [simp]: "length (rntt v) = 256" "length (rinvntt v) = 256" "length (pmul x y) = 256"
  by (simp_all add: rntt_def rinvntt_def pmul_def)

lemma rinvntt_scale: "length v = 256 \<Longrightarrow> rinvntt (map ((*) c) v) = map ((*) c) (rinvntt v)"
  by (simp add: rinvntt_def rinv_layer_scale comp_def mult.left_commute)

text \<open>The inverse transform of a product in the transformed domain, one Montgomery factor short, is the product.\<close>

lemma rinvntt_product: "length x = 256 \<Longrightarrow> rinvntt (map ((*) 169) (rntt x)) = x"
proof -
  assume x: "length x = 256"
  have one: "(169 :: zq) * 65536 = 1" by simp
  have y: "169 * (65536 * y) = y" for y :: zq by (simp only: mult.assoc[symmetric] one mult_1_left)
  have "rinvntt (map ((*) 169) (rntt x)) = map (\<lambda>y. 169 * (65536 * y)) x" using x by (simp add: rinvntt_scale rinvntt_rntt comp_def)
  then show ?thesis by (simp only: y list.map_ident)
qed

text \<open>
  C10. The number theoretic transform multiplies polynomials.  For all polynomials with coefficients in
  \<open>-9464..9464\<close>, transforming both (\<open>mlkem_ntt\<close>), multiplying the pairs (\<open>mlkem_basemul_mont\<close>) and transforming back
  (\<open>mlkem_invntt\<close>) gives the product modulo \<open>X^256 + 1\<close> and 3329: no 16-bit or 32-bit operation on the way wraps around
  harmfully, and every result is between -3329 and 3329.
\<close>

theorem ntt_multiplies:
  assumes "length a = 256" "length b = 256" "length r = 256" "set a \<subseteq> {- 9464..9464}" "set b \<subseteq> {- 9464..9464}"
  shows "map Zq (mlkem_invntt (mlkem_basemul_mont r (mlkem_ntt a) (mlkem_ntt b))) = pmul (map Zq a) (map Zq b)
    \<and> set (mlkem_invntt (mlkem_basemul_mont r (mlkem_ntt a) (mlkem_ntt b))) \<subseteq> {- 3329..3329}"
proof -
  let ?m = "mlkem_basemul_mont r (mlkem_ntt a) (mlkem_ntt b)"
  note na = ntt_residues[OF assms(1,4) order_refl] and nb = ntt_residues[OF assms(2,5) order_refl]
  have s: "small (mlkem_ntt a)" "small (mlkem_ntt b)" using na nb by (auto simp: small_def)
  note m = basemul_mont_residues[OF s assms(3)]
  have l: "length ?m = 256" using assms(3) by simp
  have "\<bar>x\<bar> \<le> 2002" if "x \<in> set ?m" for x using that m l by (auto simp: in_set_conv_nth)
  then have b: "set ?m \<subseteq> {- 4095..4095}" by (fastforce simp: abs_le_iff)
  have "map Zq ?m = map ((*) 169) (nmul (rntt (map Zq a)) (rntt (map Zq b)))"
    using m l unfolding na(1)[symmetric] nb(1)[symmetric] by (auto intro!: nth_equalityI)
  then have "map Zq ?m = map ((*) 169) (rntt (pmul (map Zq a) (map Zq b)))" using assms(1,2) by (simp add: rntt_pmul)
  then show ?thesis using invntt_residues[OF l b] by (simp add: rinvntt_product)
qed

text \<open>At \<open>X^255\<close> and \<open>-9464 * X^255\<close>, the largest coefficient the bound allows.\<close>

theorem ntt_multiplies_witness:
  "map Zq (mlkem_invntt (mlkem_basemul_mont (replicate 256 7) (mlkem_ntt (replicate 255 0 @ [1])) (mlkem_ntt (replicate 255 0 @ [- 9464])))) =
     pmul (map Zq (replicate 255 0 @ [1])) (map Zq (replicate 255 0 @ [- 9464])) \<and>
   set (mlkem_invntt (mlkem_basemul_mont (replicate 256 7) (mlkem_ntt (replicate 255 0 @ [1])) (mlkem_ntt (replicate 255 0 @ [- 9464])))) \<subseteq> {- 3329..3329}"
  using ntt_multiplies[of "replicate 255 0 @ [1]" "replicate 255 0 @ [- 9464]" "replicate 256 7"] by simp

end
