(* ===== verification/MlkemAlgebra.thy ===== *)
theory MlkemAlgebra
  imports MlkemMul
begin

text \<open>
  The transform as an isomorphism: it is linear, it has an inverse, and products of transformed polynomials obey the laws of
  multiplication.  The cancellation that lets a receiver remove the mask of a message is an identity of this ring.
\<close>

section \<open>Linearity\<close>

definition radd :: "zq list \<Rightarrow> zq list \<Rightarrow> zq list" where
  "radd a b = map (\<lambda>p. a ! p + b ! p) [0..<256]"

definition rsub :: "zq list \<Rightarrow> zq list \<Rightarrow> zq list" where
  "rsub a b = map (\<lambda>p. a ! p - b ! p) [0..<256]"

lemma radd_nth [simp]: "p < 256 \<Longrightarrow> radd a b ! p = a ! p + b ! p" "p < 256 \<Longrightarrow> rsub a b ! p = a ! p - b ! p"
  by (simp_all add: radd_def rsub_def)

lemma length_radd [simp]: "length (radd a b) = 256" "length (rsub a b) = 256"
  by (simp_all add: radd_def rsub_def)

lemma residue_linear: "residue L c (radd a b) k = residue L c a k + residue L c b k" "residue L c (rsub a b) k = residue L c a k - residue L c b k"
  by (simp_all add: residue_def distrib_right left_diff_distrib sum.distrib sum_subtractf)

lemma rntt_linear:
  assumes "length a = 256" "length b = 256"
  shows "rntt (radd a b) = radd (rntt a) (rntt b)" "rntt (rsub a b) = rsub (rntt a) (rntt b)"
  by (rule nth_equalityI; simp add: rntt_residues assms; simp add: residues_def residue_linear)+

lemma rntt_zero: "rntt (replicate 256 0) = replicate 256 0"
  by (rule nth_equalityI) (simp_all add: rntt_residues[OF length_replicate] residues_def residue_def)

lemma rntt_inject:
  assumes "length a = 256" "length b = 256" "rntt a = rntt b"
  shows "a = b"
proof -
  have "a = rinvntt (map ((*) 169) (rntt a))" using rinvntt_product[OF assms(1)] by simp
  also have "\<dots> = b" unfolding assms(3) by (rule rinvntt_product[OF assms(2)])
  finally show ?thesis .
qed

text \<open>An injection of a finite set into itself is onto, so the inverse transform is an inverse on both sides.\<close>

lemma rntt_rinvntt:
  assumes "length v = 256"
  shows "rntt (rinvntt (map ((*) 169) v)) = v"
proof -
  let ?P = "{x :: zq list. length x = 256}"
  have "finite ?P" using finite_lists_length_eq[of "UNIV :: zq set" 256] by simp
  moreover have "rntt ` ?P \<subseteq> ?P" by auto
  moreover have "inj_on rntt ?P" by (auto intro!: inj_onI rntt_inject)
  ultimately have "rntt ` ?P = ?P" by (rule endo_inj_surj)
  then obtain x where "length x = 256" "v = rntt x" using assms by (metis (mono_tags, lifting) imageE mem_Collect_eq)
  then show ?thesis by (simp add: rinvntt_product)
qed

section \<open>Cancellation\<close>

lemma dot_2: "p < 256 \<Longrightarrow> dot 2 u v ! p = nmul (u ! 0) (v ! 0) ! p + nmul (u ! 1) (v ! 1) ! p"
  by (simp add: dot_def numeral_2_eq_2)

lemma second: "[a, b] ! 1 = b"
  by simp

text \<open>
  A receiver with secret \<open>s\<close> removes from \<open>(A s + e) y + v\<close> the product of \<open>s\<close> and \<open>A\<^sup>T y + f\<close>: the matrix cancels.  All
  polynomials are transformed.
\<close>

lemma mask_cancels:
  assumes t: "\<And>i. i < 2 \<Longrightarrow> t ! i = radd (dot 2 (A ! i) s) (e ! i)"
    and u: "\<And>i. i < 2 \<Longrightarrow> u ! i = radd (dot 2 [A ! 0 ! i, A ! 1 ! i] y) (f ! i)"
  shows "rsub (radd (dot 2 t y) v) (dot 2 s u) = rsub (radd (dot 2 e y) v) (dot 2 s f)"
proof (rule nth_equalityI)
  fix p assume "p < length (rsub (radd (dot 2 t y) v) (dot 2 s u))"
  then have "p < 256" by simp
  then show "rsub (radd (dot 2 t y) v) (dot 2 s u) ! p = rsub (radd (dot 2 e y) v) (dot 2 s f) ! p"
  proof (rule pair_indices[rotated])
    fix i :: nat assume i: "i < 128"
    define P Q c where "P = 2 * i" and "Q = 2 * i + 1" and "c = znode (128 + i)"
    have l: "P < 256" "Q < 256" using i by (simp_all add: P_def Q_def)
    have n: "nmul x z ! P = x ! P * z ! P + c * (x ! Q * z ! Q)" "nmul x z ! Q = x ! P * z ! Q + x ! Q * z ! P" for x z
      unfolding P_def Q_def c_def by (rule nmul_pair[OF i])+
    note at = radd_nth[OF l(1)] radd_nth[OF l(2)] dot_2[OF l(1)] dot_2[OF l(2)] n
    define t0 t1 u0 u1 where "t0 = t ! 0" and "t1 = t ! 1" and "u0 = u ! 0" and "u1 = u ! 1"
    have "t0 = radd (dot 2 (A ! 0) s) (e ! 0)" "t1 = radd (dot 2 (A ! 1) s) (e ! 1)"
      "u0 = radd (dot 2 [A ! 0 ! 0, A ! 1 ! 0] y) (f ! 0)" "u1 = radd (dot 2 [A ! 0 ! 1, A ! 1 ! 1] y) (f ! 1)"
      unfolding t0_def t1_def u0_def u1_def using t[of 0] t[of 1] u[of 0] u[of 1] by simp_all
    note tu = this
    define a00 a01 a10 a11 s0 s1 y0 y1 e0 e1 f0 f1 where "a00 = A ! 0 ! 0" and "a01 = A ! 0 ! 1" and "a10 = A ! 1 ! 0" and "a11 = A ! 1 ! 1"
      and "s0 = s ! 0" and "s1 = s ! 1" and "y0 = y ! 0" and "y1 = y ! 1" and "e0 = e ! 0" and "e1 = e ! 1" and "f0 = f ! 0" and "f1 = f ! 1"
    note names = a00_def[symmetric] a01_def[symmetric] a10_def[symmetric] a11_def[symmetric] s0_def[symmetric] s1_def[symmetric]
      y0_def[symmetric] y1_def[symmetric] e0_def[symmetric] e1_def[symmetric] f0_def[symmetric] f1_def[symmetric]
    have "rsub (radd (dot 2 t y) v) (dot 2 s u) ! P = rsub (radd (dot 2 e y) v) (dot 2 s f) ! P"
      "rsub (radd (dot 2 t y) v) (dot 2 s u) ! Q = rsub (radd (dot 2 e y) v) (dot 2 s f) ! Q"
      unfolding at t0_def[symmetric] t1_def[symmetric] u0_def[symmetric] u1_def[symmetric] tu nth_Cons_0 nth_Cons_Suc One_nat_def[symmetric] second names
      by (simp_all add: algebra_simps)
    then show "rsub (radd (dot 2 t y) v) (dot 2 s u) ! (2 * i) = rsub (radd (dot 2 e y) v) (dot 2 s f) ! (2 * i) \<and>
      rsub (radd (dot 2 t y) v) (dot 2 s u) ! (2 * i + 1) = rsub (radd (dot 2 e y) v) (dot 2 s f) ! (2 * i + 1)"
      unfolding P_def Q_def by blast
  qed
qed simp

end
