(* ===== verification/MlkemPkeArith.thy ===== *)
theory MlkemPkeArith
  imports MlkemAlgebra
begin

text \<open>The operations of key generation, encapsulation and decapsulation on residues.\<close>

section \<open>Transform and add\<close>

interpretation nadd: octet_loop "ntt_add_body r" 1 "\<lambda>j. j" "steps MLKEM_N 8" for r
proof unfold_locales
  fix j
  show "length (ntt_add_body r j a) = length a" for a by (simp add: ntt_add_body_def Let_def)
  show "i \<notin> octet 1 j \<Longrightarrow> ntt_add_body r j a ! i = a ! i" for i a by (simp add: ntt_add_body_def Let_def nth_upd octet_def)
  show "length a = length a' \<Longrightarrow> \<forall>i \<in> octet 1 j. a ! i = a' ! i \<Longrightarrow> i \<in> octet 1 j \<Longrightarrow> ntt_add_body r j a ! i = ntt_add_body r j a' ! i" for a a' i
    unfolding octet_def by (elim insertE emptyE; simp add: ntt_add_body_def Let_def nth_upd)
  show "distinct (steps MLKEM_N 8)" by (rule distinct_steps) simp
  show "j \<in> set (steps MLKEM_N 8) \<Longrightarrow> \<exists>b i. i < 1 \<and> j = 8 * 1 * b + i" for j by (auto simp: steps_def)
  show "inj_on (\<lambda>j. j) (set (steps MLKEM_N 8))" by simp
qed

lemma vals_4_layers:
  assumes "b < 32" "length q = 256"
  shows "ntt_vals_4 (8 * b) q = group 1 b 0 (layer16 2 (layer16 4 q))"
proof -
  have d: "8 * b div 8 = b" "8 * b div 4 = 2 * b" by simp_all
  have "ntt_vals_4 (8 * b) q = net2 F16 G16 (64 + 2 * b) (net4 F16 G16 (32 + b) (group 1 b 0 q))"
    using assms by (simp add: group_unfold net2_def net4_def ntt_vals_4_def Let_def F16_def G16_def d ac_simps)
  then show ?thesis using group_layer2[of 1 32 b 0 F16 G16] group_layer4[of 1 32 b 0 F16 G16] assms by simp
qed

lemma ntt_add_to_eq:
  assumes "length r = 256" "length a = 256"
  shows "snd (mlkem_ntt_add_to r a) =
    map (\<lambda>p. MLKEM_BARRETT_RED (sword16 (layer16 2 (layer16 4 (ntt_pass_32 (ntt_pass_128 r))) ! p + a ! p))) [0..<256]"
proof -
  define q where "q = ntt_pass_32 (ntt_pass_128 r)"
  have q: "length q = 256" using assms(1) by (simp add: q_def pass_128_layers pass_32_layers)
  let ?l = "layer16 2 (layer16 4 q)"
  have "fold (ntt_add_body q) (steps MLKEM_N 8) a = map (\<lambda>p. MLKEM_BARRETT_RED (sword16 (?l ! p + a ! p))) [0..<256]"
  proof (rule groups_eqI[of _ _ 1 32])
    show "length (fold (ntt_add_body q) (steps MLKEM_N 8) a) = 256" using assms(2) by (simp add: nadd.length_fold del: MLKEM_N_def)
    fix b j :: nat assume b: "b < 32" and j: "j < 1"
    have "8 * b \<in> set (steps MLKEM_N 8)" using b by (auto simp: steps_def)
    then have "group 1 b 0 (fold (ntt_add_body q) (steps MLKEM_N 8) a) = group 1 b 0 (ntt_add_body q (8 * b) a)"
      by (rule nadd.group_fold) simp
    also have "\<dots> = map (\<lambda>c. MLKEM_BARRETT_RED (sword16 (ntt_vals_4 (8 * b) q ! c + a ! (8 * b + c)))) [0, 1, 2, 3, 4, 5, 6, 7]"
      using b assms(2) by (simp add: group_unfold ntt_add_body_def Let_def nth_upd)
    also have "\<dots> = group 1 b 0 (map (\<lambda>p. MLKEM_BARRETT_RED (sword16 (?l ! p + a ! p))) [0..<256])"
      using b by (simp add: vals_4_layers[OF b q] group_unfold)
    finally show "group 1 b j (fold (ntt_add_body q) (steps MLKEM_N 8) a) = group 1 b j (map (\<lambda>p. MLKEM_BARRETT_RED (sword16 (?l ! p + a ! p))) [0..<256])"
      using j by simp
  qed simp_all
  then show ?thesis by (simp add: mlkem_ntt_add_to_def q_def[symmetric] Let_def)
qed

lemma barrett_sum:
  assumes "\<bar>x\<bar> \<le> 32767"
  shows "Zq (MLKEM_BARRETT_RED (sword16 x)) = Zq x" "MLKEM_BARRETT_RED (sword16 x) \<in> {0..3329}"
  using BARRETT_RED_residue[of x] BARRETT_RED_range[of x] assms by (auto simp: sword16_abs)

lemma ntt_add_to_residues:
  assumes "length r = 256" "set r \<subseteq> {- b..b}" "b \<le> 6135" "small a"
  shows "map Zq (snd (mlkem_ntt_add_to r a)) = radd (rntt (map Zq r)) (map Zq a)" "set (snd (mlkem_ntt_add_to r a)) \<subseteq> {0..3329}"
    "length (snd (mlkem_ntt_add_to r a)) = 256"
proof -
  let ?l = "layer16 2 (layer16 4 (ntt_pass_32 (ntt_pass_128 r)))"
  have l: "map Zq ?l = rntt (map Zq r)" "set ?l \<subseteq> {- (b + 23303)..b + 23303}" using passes_residues[of r b] assms by auto
  have a: "length a = 256" using assms(4) by (simp add: small_def)
  have len: "length ?l = 256" by simp
  have s: "\<bar>?l ! p + a ! p\<bar> \<le> 32767" if "p < 256" for p
  proof -
    have "?l ! p \<in> {- (b + 23303)..b + 23303}" using that len by (intro subsetD[OF l(2)] nth_mem) simp
    then show ?thesis using small_nth[OF assms(4) that] assms(3) by auto
  qed
  have z: "Zq (?l ! p) = rntt (map Zq r) ! p" if "p < 256" for p using that len by (simp flip: l(1))
  note e = ntt_add_to_eq[OF assms(1) a]
  show "length (snd (mlkem_ntt_add_to r a)) = 256" by (simp add: e)
  show "set (snd (mlkem_ntt_add_to r a)) \<subseteq> {0..3329}" unfolding e using barrett_sum(2)[OF s] by auto
  show "map Zq (snd (mlkem_ntt_add_to r a)) = radd (rntt (map Zq r)) (map Zq a)"
    unfolding e using barrett_sum(1)[OF s] z a by (auto intro!: nth_equalityI)
qed

end
