(* ===== verification/MlkemPack.thy ===== *)
theory MlkemPack
  imports MlkemCodec
begin

text \<open>
  Packing of fixed width values into bytes.  The contract of a pair of loop bodies, packing and unpacking, gives the
  round trip of the loops.
\<close>

section \<open>Chunks\<close>

lemma length_chunks: "(\<And>j. j < g \<Longrightarrow> length (f j) = m) \<Longrightarrow> length (concat (map f [0..<g])) = m * g"
  by (induction g) auto

lemma nth_chunks:
  assumes "\<And>j. j < g \<Longrightarrow> length (f j) = m" "j < g" "c < m"
  shows "concat (map f [0..<g]) ! (m * j + c) = f j ! c"
  using assms
proof (induction g)
  case (Suc g)
  have l: "length (concat (map f [0..<g])) = m * g" using Suc.prems(1) by (intro length_chunks) simp
  show ?case
  proof (cases "j < g")
    case True
    then have "m * Suc j \<le> m * g" by (intro mult_le_mono2) simp
    then have "m * j + c < m * g" using Suc.prems(3) by simp
    then show ?thesis using Suc True l by (simp add: nth_append)
  next
    case False
    then have "j = g" using Suc.prems(2) by simp
    then show ?thesis using l by (simp add: nth_append)
  qed
qed simp

lemma chunks_upt: "concat (map (\<lambda>j. map (\<lambda>l. t (n * j + l)) [0..<n]) [0..<g]) = map t [0..<n * g]"
proof (induction g)
  case (Suc g)
  have "[0..<n * Suc g] = [0..<n * g] @ map (\<lambda>l. n * g + l) [0..<n]"
    using map_add_upt[of "n * g" n] upt_add_eq_append[of 0 "n * g" n] by (simp add: add.commute)
  with Suc show ?case by simp
qed simp

section \<open>Round trips\<close>

locale bit_packing =
  fixes n m w :: nat and pack :: "(nat \<Rightarrow> int) \<Rightarrow> bytes" and unpack :: "(nat \<Rightarrow> int) \<Rightarrow> int list"
  assumes pack_length: "length (pack t) = m"
    and unpack_cong: "(\<And>c. c < m \<Longrightarrow> b c = b' c) \<Longrightarrow> unpack b = unpack b'"
    and unpack_pack: "(\<And>l. l < n \<Longrightarrow> 0 \<le> t l \<and> t l < 2 ^ w) \<Longrightarrow> map (take_bit w) (unpack (\<lambda>c. uint (pack t ! c))) = map t [0..<n]"
begin

lemma decode_encode:
  assumes t: "\<And>p. p < n * g \<Longrightarrow> 0 \<le> t p \<and> t p < 2 ^ w"
    and b: "\<And>q. q < m * g \<Longrightarrow> b ! (off + q) = concat (map (\<lambda>j. pack (\<lambda>l. t (n * j + l))) [0..<g]) ! q"
  shows "map (take_bit w) (concat (map (\<lambda>j. unpack (\<lambda>c. uint (b ! (off + m * j + c)))) [0..<g])) = map t [0..<n * g]"
proof -
  have "map (take_bit w) (unpack (\<lambda>c. uint (b ! (off + m * j + c)))) = map (\<lambda>l. t (n * j + l)) [0..<n]" if j: "j < g" for j
  proof -
    have lim: "r * j + c < r * g" if "c < r" for r c
    proof -
      have "r * Suc j \<le> r * g" using j by (intro mult_le_mono2) simp
      then show ?thesis using that by simp
    qed
    have "unpack (\<lambda>c. uint (b ! (off + m * j + c))) = unpack (\<lambda>c. uint (pack (\<lambda>l. t (n * j + l)) ! c))"
    proof (rule unpack_cong)
      fix c assume c: "c < m"
      have "b ! (off + (m * j + c)) = concat (map (\<lambda>j. pack (\<lambda>l. t (n * j + l))) [0..<g]) ! (m * j + c)" by (rule b[OF lim[OF c]])
      also have "\<dots> = pack (\<lambda>l. t (n * j + l)) ! c" by (rule nth_chunks[OF pack_length j c])
      finally show "uint (b ! (off + m * j + c)) = uint (pack (\<lambda>l. t (n * j + l)) ! c)" by (simp add: add.assoc)
    qed
    then show ?thesis using unpack_pack[of "\<lambda>l. t (n * j + l)"] t lim by simp
  qed
  then have "map (take_bit w) (concat (map (\<lambda>j. unpack (\<lambda>c. uint (b ! (off + m * j + c)))) [0..<g])) =
      concat (map (\<lambda>j. map (\<lambda>l. t (n * j + l)) [0..<n]) [0..<g])"
    by (auto simp: map_concat comp_def intro!: arg_cong[where f = concat])
  then show ?thesis by (simp only: chunks_upt)
qed

lemma length_encode: "length (concat (map (\<lambda>j. pack (f j)) [0..<g])) = m * g"
  by (rule length_chunks) (rule pack_length)

lemma vector_decode_encode:
  assumes t: "\<And>p. p < n * g \<Longrightarrow> 0 \<le> t i p \<and> t i p < 2 ^ w" and i: "i < k"
  shows "map (take_bit w) (concat (map (\<lambda>j. unpack (\<lambda>c. uint ((concat (map (\<lambda>i. concat (map (\<lambda>j. pack (\<lambda>l. t i (n * j + l))) [0..<g])) [0..<k]) @ rest) !
      (m * g * i + m * j + c)))) [0..<g])) = map (t i) [0..<n * g]"
proof (rule decode_encode[OF t])
  let ?e = "\<lambda>i. concat (map (\<lambda>j. pack (\<lambda>l. t i (n * j + l))) [0..<g])"
  fix q assume q: "q < m * g"
  have "m * g * Suc i \<le> m * g * k" using i by (intro mult_le_mono2) simp
  then have "m * g * i + q < length (concat (map ?e [0..<k]))" using q length_chunks[of k ?e, OF length_encode] by simp
  then show "(concat (map ?e [0..<k]) @ rest) ! (m * g * i + q) = ?e i ! q"
    using nth_chunks[of k ?e, OF length_encode i q] by (simp add: nth_append)
qed

end

section \<open>The formats\<close>

lemma bit_small: "0 \<le> (x :: int) \<Longrightarrow> x < 2 ^ w \<Longrightarrow> bit x i \<Longrightarrow> i < w"
  by (metis bit_take_bit_iff take_bit_int_eq_self)

lemma sword16_bits: "sword16 x = signed_take_bit 15 x"
  by (simp add: sword16_def signed_take_bit_eq_take_bit_shift take_bit_eq_mod)

lemma bit_byte_of: "bit (byte_of x) i \<longleftrightarrow> i < 8 \<and> bit x i"
  by (simp add: byte_of_def bit_simps)

lemma take_bit_sword16: "w \<le> 16 \<Longrightarrow> take_bit w (sword16 x) = take_bit w x"
  by (simp add: sword16_bits take_bit_signed_take_bit)

lemmas pack_bits = bit_byte_of bit_simps

lemma upt_numerals: "[0..<2] = [0, 1 :: nat]" "[0..<4] = [0, 1, 2, 3 :: nat]" "[0..<8] = [0, 1, 2, 3, 4, 5, 6, 7 :: nat]"
  by (simp_all add: upt_rec)

interpretation p10: bit_packing 4 5 10 pack_10 unpack_10
proof
  fix t :: "nat \<Rightarrow> int"
  assume t: "\<And>l. l < 4 \<Longrightarrow> 0 \<le> t l \<and> t l < 2 ^ 10"
  have s: "bit (t l) i \<Longrightarrow> l < 4 \<Longrightarrow> i < 10" for l i using t[of l] bit_small by blast
  show "map (take_bit 10) (unpack_10 (\<lambda>c. uint (pack_10 t ! c))) = map t [0..<4]"
    by (simp add: upt_numerals unpack_10_def pack_10_def take_bit_sword16 del: One_nat_def) (intro conjI; rule bit_eqI; auto simp: pack_bits dest: s simp del: One_nat_def add_2_eq_Suc add_2_eq_Suc')
qed (auto simp: pack_10_def unpack_10_def)

interpretation p11: bit_packing 8 11 11 pack_11 unpack_11
proof
  fix t :: "nat \<Rightarrow> int"
  assume t: "\<And>l. l < 8 \<Longrightarrow> 0 \<le> t l \<and> t l < 2 ^ 11"
  have s: "bit (t l) i \<Longrightarrow> l < 8 \<Longrightarrow> i < 11" for l i using t[of l] bit_small by blast
  have e: "i < 11 \<Longrightarrow> 10 \<le> i \<Longrightarrow> i = 10" for i :: nat by simp
  show "map (take_bit 11) (unpack_11 (\<lambda>c. uint (pack_11 t ! c))) = map t [0..<8]"
    by (simp add: upt_numerals unpack_11_def pack_11_def take_bit_sword16 del: One_nat_def) (intro conjI; rule bit_eqI; auto simp: pack_bits dest: s e simp del: One_nat_def add_2_eq_Suc add_2_eq_Suc')
qed (auto simp: pack_11_def unpack_11_def)

interpretation p12: bit_packing 2 3 12 pack_12 unpack_12
proof
  fix t :: "nat \<Rightarrow> int"
  assume t: "\<And>l. l < 2 \<Longrightarrow> 0 \<le> t l \<and> t l < 2 ^ 12"
  have s: "bit (t l) i \<Longrightarrow> l < 2 \<Longrightarrow> i < 12" for l i using t[of l] bit_small by blast
  have m: "0xfff = (mask 12 :: int)" by (simp add: mask_eq_exp_minus_1)
  show "map (take_bit 12) (unpack_12 (\<lambda>c. uint (pack_12 t ! c))) = map t [0..<2]"
    by (simp add: upt_numerals unpack_12_def pack_12_def m del: One_nat_def) (intro conjI; rule bit_eqI; auto simp: pack_bits dest: s simp del: One_nat_def add_2_eq_Suc add_2_eq_Suc')
qed (auto simp: pack_12_def unpack_12_def)

interpretation p5: bit_packing 8 5 5 pack_5 unpack_5
proof
  fix t :: "nat \<Rightarrow> int"
  assume t: "\<And>l. l < 8 \<Longrightarrow> 0 \<le> t l \<and> t l < 2 ^ 5"
  have s: "bit (t l) i \<Longrightarrow> l < 8 \<Longrightarrow> i < 5" for l i using t[of l] bit_small by blast
  have e: "i < 5 \<Longrightarrow> 4 \<le> i \<Longrightarrow> i = 4" for i :: nat by simp
  show "map (take_bit 5) (unpack_5 (\<lambda>c. uint (pack_5 t ! c))) = map t [0..<8]"
    by (simp add: upt_numerals unpack_5_def pack_5_def del: One_nat_def) (intro conjI; rule bit_eqI; auto simp: pack_bits dest: s e simp del: One_nat_def add_2_eq_Suc add_2_eq_Suc')
qed (auto simp: pack_5_def unpack_5_def)

text \<open>Four bits: the compression stores four bytes a round, the decompression reads one.\<close>

definition pack_byte :: "(nat \<Rightarrow> int) \<Rightarrow> bytes" where
  "pack_byte t = [byte_of (t 0 OR push_bit 4 (t 1))]"

interpretation p4: bit_packing 2 1 4 pack_byte unpack_4
proof
  fix t :: "nat \<Rightarrow> int"
  assume t: "\<And>l. l < 2 \<Longrightarrow> 0 \<le> t l \<and> t l < 2 ^ 4"
  have s: "bit (t l) i \<Longrightarrow> l < 2 \<Longrightarrow> i < 4" for l i using t[of l] bit_small by blast
  have m: "0xf = (mask 4 :: int)" by (simp add: mask_eq_exp_minus_1)
  show "map (take_bit 4) (unpack_4 (\<lambda>c. uint (pack_byte t ! c))) = map t [0..<2]"
    by (simp add: upt_numerals unpack_4_def pack_byte_def m del: One_nat_def) (intro conjI; rule bit_eqI; auto simp: pack_bits dest: s simp del: One_nat_def add_2_eq_Suc add_2_eq_Suc')
qed (auto simp: pack_byte_def unpack_4_def)

lemma pack_4_bytes: "concat (map (\<lambda>i. pack_4 (\<lambda>l. t (8 * i + l))) [0..<g]) = concat (map (\<lambda>j. pack_byte (\<lambda>l. t (2 * j + l))) [0..<4 * g])"
proof (induction g)
  case (Suc g)
  have "[0..<4 * Suc g] = [0..<4 * g] @ [4 * g, 4 * g + 1, 4 * g + 2, 4 * g + 3]"
  proof -
    have "[4 * g..<4 * g + 4] = [4 * g, 4 * g + 1, 4 * g + 2, 4 * g + 3]" by (simp add: upt_rec)
    then show ?thesis using upt_add_eq_append[of 0 "4 * g" 4] by (simp add: add.commute)
  qed
  moreover have "2 * (4 * g + 1) = 8 * g + 2" "8 * g + 2 + 1 = 8 * g + 3" "2 * (4 * g + 2) = 8 * g + 4"
    "8 * g + 4 + 1 = 8 * g + 5" "2 * (4 * g + 3) = 8 * g + 6" "8 * g + 6 + 1 = 8 * g + 7" "2 * (4 * g) = 8 * g" by simp_all
  note idx = this
  have "concat (map (\<lambda>j. pack_byte (\<lambda>l. t (2 * j + l))) [4 * g, 4 * g + 1, 4 * g + 2, 4 * g + 3]) = pack_4 (\<lambda>l. t (8 * g + l))"
    unfolding pack_byte_def pack_4_def list.map concat.simps append.simps idx add_0_right by (rule refl)
  ultimately show ?case using Suc by (simp del: mult_Suc_right)
qed simp

end
