(* ===== verification/MlkemSampling.thy ===== *)
theory MlkemSampling
  imports MlkemSample MlkemPack
begin

text \<open>
  Sampling computes what FIPS 203 says: \<open>SampleNTT\<close> (Algorithm 7) for the matrix, \<open>SamplePolyCBD\<close> (Algorithm 8) for the noise.
\<close>

section \<open>Rejection sampling\<close>

text \<open>The integers below \<open>q\<close> among the pairs of 12-bit integers of the bytes.\<close>

fun accepted :: "bytes \<Rightarrow> int list" where
  "accepted (a # b # c # r) = filter (\<lambda>d. d < 3329) [uint a + 256 * (uint b mod 16), uint b div 16 + 16 * uint c] @ accepted r"
| "accepted r = []"

lemma twelve_bits:
  fixes a b c :: u8
  shows "sword16 ((drop_bit 0 (uint a) OR push_bit 8 (uint b)) AND 0xFFF) = uint a + 256 * (uint b mod 16)"
    "sword16 ((drop_bit 4 (uint b) OR push_bit 4 (uint c)) AND 0xFFF) = uint b div 16 + 16 * uint c"
proof -
  have m: "0xFFF = (mask 12 :: int)" by (simp add: mask_eq_exp_minus_1)
  have lt: "uint x < 256" for x :: u8 using uint_lt2p[of x] by simp
  have d: "drop_bit 4 (uint b) < 2 ^ 4" "0 \<le> drop_bit 4 (uint b)" using lt[of b] by (simp_all add: drop_bit_eq_div pos_imp_zdiv_nonneg_iff)
  have "(uint a OR push_bit 8 (uint b)) AND mask 12 = uint a OR push_bit 8 (take_bit 4 (uint b))"
    using bit_small[of "uint a" 8] lt[of a] by (intro bit_eqI) (fastforce simp: bit_simps)
  also have "\<dots> = uint a + push_bit 8 (take_bit 4 (uint b))"
    using bit_small[of "uint a" 8] lt[of a] by (intro disjunctive_add[symmetric]) (fastforce simp: bit_simps)
  finally show "sword16 ((drop_bit 0 (uint a) OR push_bit 8 (uint b)) AND 0xFFF) = uint a + 256 * (uint b mod 16)"
  proof -
    assume e: "(uint a OR push_bit 8 (uint b)) AND mask 12 = uint a + push_bit 8 (take_bit 4 (uint b))"
    have "0 \<le> uint b mod 16" "uint b mod 16 < 16" by simp_all
    then have "sword16 (uint a + uint b mod 16 * 256) = uint a + uint b mod 16 * 256" using lt[of a] uint_ge_0[of a] by (intro sword16_id; linarith)
    then show ?thesis using e by (simp add: m push_bit_eq_mult take_bit_eq_mod mult.commute)
  qed
  have "(drop_bit 4 (uint b) OR push_bit 4 (uint c)) AND mask 12 = drop_bit 4 (uint b) OR push_bit 4 (uint c)"
    using bit_small[OF d(2,1)] bit_small[of "uint c" 8] lt[of c] by (intro bit_eqI) (fastforce simp: bit_simps)
  also have "\<dots> = drop_bit 4 (uint b) + push_bit 4 (uint c)"
    using bit_small[OF d(2,1)] by (intro disjunctive_add[symmetric]) (fastforce simp: bit_simps)
  finally show "sword16 ((drop_bit 4 (uint b) OR push_bit 4 (uint c)) AND 0xFFF) = uint b div 16 + 16 * uint c"
  proof -
    assume e: "(drop_bit 4 (uint b) OR push_bit 4 (uint c)) AND mask 12 = drop_bit 4 (uint b) + push_bit 4 (uint c)"
    have "0 \<le> uint b div 16" "uint b div 16 < 16" using lt[of b] by (simp_all add: pos_imp_zdiv_nonneg_iff)
    then have "sword16 (uint b div 16 + uint c * 16) = uint b div 16 + uint c * 16" using lt[of c] uint_ge_0[of c] by (intro sword16_id; linarith)
    then show ?thesis using e by (simp add: m push_bit_eq_mult drop_bit_eq_div mult.commute)
  qed
qed

lemma accepted_split: "j + 3 \<le> length r \<Longrightarrow> accepted (drop j r) =
    filter (\<lambda>d. d < 3329) [uint (r ! j) + 256 * (uint (r ! (j + 1)) mod 16), uint (r ! (j + 1)) div 16 + 16 * uint (r ! (j + 2))] @ accepted (drop (j + 3) r)"
proof -
  assume "j + 3 \<le> length r"
  then have "drop j r = r ! j # r ! (j + 1) # r ! (j + 2) # drop (j + 3) r"
    by (simp add: Cons_nth_drop_Suc numeral_3_eq_3 Suc_le_eq numeral_2_eq_2)
  then show ?thesis by simp
qed

text \<open>What the loop writes: the accepted integers from \<open>off + i\<close> on, as many as fit.\<close>

definition put :: "nat \<Rightarrow> int list \<Rightarrow> int list \<Rightarrow> int list" where
  "put n xs p = take n p @ xs @ drop (n + length xs) p"

lemma put_Cons: "n < length p \<Longrightarrow> put n (x # xs) p = put (Suc n) xs (p[n := x])"
  by (simp add: put_def take_Suc_conv_app_nth drop_update_cancel)

lemma put_Nil [simp]: "put n [] p = p"
  by (simp add: put_def)

lemma put_append: "n + length xs \<le> length p \<Longrightarrow> put (n + length xs) ys (put n xs p) = put n (xs @ ys) p"
  by (simp add: put_def ac_simps)

lemma length_put: "n + length xs \<le> length p \<Longrightarrow> length (put n xs p) = length p"
  by (simp add: put_def)

definition pair_accepted :: "bytes \<Rightarrow> nat \<Rightarrow> int list" where
  "pair_accepted r j = filter (\<lambda>d. d < 3329) [uint (r ! j) + 256 * (uint (r ! (j + 1)) mod 16), uint (r ! (j + 1)) div 16 + 16 * uint (r ! (j + 2))]"

lemma rej_step:
  assumes "i < len" "j + 3 \<le> length r" "off + len \<le> length p"
  shows "rej_loop off len r (length r) p i j =
    rej_loop off len r (length r) (put (off + i) (take (len - i) (pair_accepted r j)) p) (i + length (take (len - i) (pair_accepted r j))) (j + 3)"
proof -
  have lim: "i < len \<and> j \<le> length r - 3" "off + i < length p" "i + 1 < len \<or> len = i + 1" "i + 1 < len \<Longrightarrow> off + i + 1 < length p"
    using assms by auto
  let ?v0 = "uint (r ! j) + 256 * (uint (r ! (j + 1)) mod 16)" and ?v1 = "uint (r ! (j + 1)) div 16 + 16 * uint (r ! (j + 2))"
  have "rej_loop off len r (length r) p i j =
      (let (p, i) = (if ?v0 < 3329 then (p[off + i := ?v0], i + 1) else (p, i));
           (p, i) = (if i < len \<and> ?v1 < 3329 then (p[off + i := ?v1], i + 1) else (p, i))
       in rej_loop off len r (length r) p i (j + 3))"
    unfolding rej_loop.simps[of off len r "length r" p i j] twelve_bits MLKEM_Q_def using lim(1) by (simp only: Let_def simp_thms if_True)
  also have "\<dots> = rej_loop off len r (length r) (put (off + i) (take (len - i) (pair_accepted r j)) p) (i + length (take (len - i) (pair_accepted r j))) (j + 3)"
    using lim by (cases "?v0 < 3329"; cases "?v1 < 3329") (auto simp: pair_accepted_def put_Cons)
  finally show ?thesis .
qed

lemma rej_loop_eq:
  assumes "length r = 3 * m" "j = 3 * n" "n \<le> m" "off + len \<le> length p" "i \<le> len" "0 < m"
  shows "rej_loop off len r (length r) p i j =
    (put (off + i) (take (len - i) (accepted (drop j r))) p, i + length (take (len - i) (accepted (drop j r))))"
  using assms
proof (induction "m - n" arbitrary: n j p i)
  case 0
  then have "length r \<le> j" "\<not> j \<le> length r - 3" by auto
  then show ?case by (subst rej_loop.simps) simp
next
  case (Suc x)
  have j: "j + 3 \<le> length r" "j + 3 = 3 * Suc n" "x = m - Suc n" "Suc n \<le> m" using Suc.hyps(2) Suc.prems by auto
  show ?case
  proof (cases "i < len")
    case False
    then show ?thesis using Suc.prems(5) by (subst rej_loop.simps) simp
  next
    case True
    let ?xs = "take (len - i) (pair_accepted r j)" and ?ys = "accepted (drop (j + 3) r)"
    have l: "i + length ?xs \<le> len" using True by simp
    have e: "accepted (drop j r) = pair_accepted r j @ ?ys" unfolding pair_accepted_def by (rule accepted_split[OF j(1)])
    have "rej_loop off len r (length r) p i j = rej_loop off len r (length r) (put (off + i) ?xs p) (i + length ?xs) (j + 3)"
      by (rule rej_step[OF True j(1) Suc.prems(4)])
    also have "\<dots> = (put (off + (i + length ?xs)) (take (len - (i + length ?xs)) ?ys) (put (off + i) ?xs p),
        i + length ?xs + length (take (len - (i + length ?xs)) ?ys))"
      using Suc.prems l by (intro Suc.hyps(1)[OF j(3) _ j(2,4)]) (simp_all add: length_put)
    also have "take (len - (i + length ?xs)) ?ys = take (len - i - length (pair_accepted r j)) ?ys" by (cases "len - i \<le> length (pair_accepted r j)") auto
    finally show ?thesis using l Suc.prems(4) put_append[of "off + i" ?xs p]
      by (simp add: e take_append add.assoc)
  qed
qed

lemma rej_uniform_eq:
  assumes "length r = 3 * m" "0 < m" "off + len \<le> length p"
  shows "mlkem_rej_uniform_c p off len r (length r) = (put off (take len (accepted r)) p, length (take len (accepted r)))"
  using rej_loop_eq[OF assms(1), of 0 0 off len p 0] assms by (simp add: mlkem_rej_uniform_c_def)

section \<open>The matrix\<close>

lemma accepted_append: "length r = 3 * m \<Longrightarrow> accepted (r @ r') = accepted r @ accepted r'"
proof (induction m arbitrary: r)
  case (Suc m)
  then obtain a b c s where "r = a # b # c # s" "length s = 3 * m" by (auto simp: length_Suc_conv numeral_3_eq_3)
  then show ?case using Suc.IH by simp
qed simp

text \<open>The blocks the extendable output function gives one by one after the state \<open>x\<close>.\<close>

fun blocks :: "'x hashes \<Rightarrow> 'x \<Rightarrow> nat \<Rightarrow> bytes list" where
  "blocks hs x 0 = []"
| "blocks hs x (Suc n) = (case xof_squeezeblocks hs x 1 of (ret, rand, x) \<Rightarrow> rand # blocks hs x n)"

lemma sample_more_eq:
  assumes "length p = 256" "ctr \<le> 256" "\<forall>b \<in> set (blocks hs x n). length b = 168" "256 \<le> ctr + length (accepted (concat (blocks hs x n)))"
  shows "sample_more hs x p ctr = Some (put ctr (take (256 - ctr) (accepted (concat (blocks hs x n)))) p)"
  using assms
proof (induction n arbitrary: x p ctr)
  case 0
  then show ?case by (subst sample_more.simps) simp
next
  case (Suc n)
  show ?case
  proof (cases "ctr < 256")
    case False
    then show ?thesis using Suc.prems(2) by (subst sample_more.simps) simp
  next
    case True
    obtain ret b x' where x: "xof_squeezeblocks hs x 1 = (ret, b, x')" by (metis prod_cases3)
    have b: "length b = 3 * 56" "length b = 168" using Suc.prems(3) x by simp_all
    let ?xs = "take (256 - ctr) (accepted b)" and ?ys = "accepted (concat (blocks hs x' n))"
    have e: "accepted (concat (blocks hs x (Suc n))) = accepted b @ ?ys" using x accepted_append[OF b(1)] by simp
    have l: "ctr + length ?xs \<le> 256" using True by simp
    have "sample_more hs x p ctr = sample_more hs x' (put ctr ?xs p) (ctr + length ?xs)"
      using rej_uniform_eq[OF b(1), of ctr "256 - ctr" p] True Suc.prems(1) x b(2) by (subst sample_more.simps) simp
    also have "\<dots> = Some (put (ctr + length ?xs) (take (256 - (ctr + length ?xs)) ?ys) (put ctr ?xs p))"
      using Suc.prems l e x by (intro Suc.IH) (auto simp: length_put)
    also have "take (256 - (ctr + length ?xs)) ?ys = take (256 - ctr - length (accepted b)) ?ys" by (cases "256 - ctr \<le> length (accepted b)") auto
    finally show ?thesis using l Suc.prems(1) put_append[of ctr ?xs p] by (simp add: e take_append del: blocks.simps)
  qed
qed

lemma gen_matrix_sizes [simp]: "GEN_MATRIX_NBLOCKS = 3" "GEN_MATRIX_SIZE = 504"
  by (simp_all add: GEN_MATRIX_NBLOCKS_def GEN_MATRIX_SIZE_def)

lemma gen_poly_eq:
  assumes "xof_absorb hs seed = (0, x)" "xof_squeezeblocks hs x 3 = (0, r, x')" "length r = 504" "length p = 256"
    "\<forall>b \<in> set (blocks hs x' n). length b = 168" "256 \<le> length (accepted (r @ concat (blocks hs x' n)))"
  shows "gen_poly hs seed p = Some (0, take 256 (accepted (r @ concat (blocks hs x' n))))"
proof -
  have r: "length r = 3 * 168" using assms(3) by simp
  let ?xs = "take 256 (accepted r)" and ?ys = "accepted (concat (blocks hs x' n))"
  have a: "accepted (r @ concat (blocks hs x' n)) = accepted r @ ?ys" by (rule accepted_append[OF r])
  have "gen_poly hs seed p = map_option (Pair 0) (sample_more hs x' (put 0 ?xs p) (length ?xs))"
    using assms(1-4) rej_uniform_eq[OF r, of 0 256 p] by (simp add: gen_poly_def)
  also have "sample_more hs x' (put 0 ?xs p) (length ?xs) = Some (put (0 + length ?xs) (take (256 - length ?xs) ?ys) (put 0 ?xs p))"
    using assms(4-6) a by (subst sample_more_eq[of _ _ hs x' n]) (auto simp: length_put)
  also have "put (0 + length ?xs) (take (256 - length ?xs) ?ys) (put 0 ?xs p) = put 0 (?xs @ take (256 - length ?xs) ?ys) p"
    using assms(4) by (intro put_append) simp
  also have "?xs @ take (256 - length ?xs) ?ys = take 256 (accepted r @ ?ys)" by (cases "256 \<le> length (accepted r)") auto
  also have "put 0 (take 256 (accepted r @ ?ys)) p = take 256 (accepted r @ ?ys)" using assms(4,6) a by (simp add: put_def)
  finally show ?thesis by (simp add: a)
qed

end
