(* ===== verification/MlkemCbd.thy ===== *)
theory MlkemCbd
  imports MlkemSampling
begin

text \<open>The noise: sums of bits in parallel in the fields of a word.\<close>

section \<open>Fields of a word\<close>

fun ones :: "nat \<Rightarrow> nat \<Rightarrow> int" where
  "ones w 0 = 0"
| "ones w (Suc n) = 1 + 2 ^ w * ones w n"

lemma and_ones:
  assumes "0 < w"
  shows "a AND ones w (Suc n) = a mod 2 + 2 ^ w * (drop_bit w a AND ones w n)"
proof -
  have "ones w (Suc n) = 1 OR push_bit w (ones w n)"
  proof -
    have "1 OR push_bit w (ones w n) = 1 + push_bit w (ones w n)" using assms by (intro disjunctive_add[symmetric]) (auto simp: bit_simps)
    then show ?thesis by (simp add: push_bit_eq_mult)
  qed
  then have "a AND ones w (Suc n) = (a AND 1) OR push_bit w (drop_bit w a AND ones w n)"
    by (intro bit_eqI) (auto simp: bit_simps)
  also have "\<dots> = (a AND 1) + push_bit w (drop_bit w a AND ones w n)"
    using assms by (intro disjunctive_add[symmetric]) (auto simp: bit_simps)
  finally show ?thesis by (simp add: and_one_eq push_bit_eq_mult)
qed

definition field_sum :: "nat \<Rightarrow> nat \<Rightarrow> int list \<Rightarrow> int" where
  "field_sum w n as = sum_list (map (\<lambda>a. a AND ones w n) as)"

lemma field_sum_Suc: "0 < w \<Longrightarrow> field_sum w (Suc n) as = sum_list (map (\<lambda>a. a mod 2) as) + 2 ^ w * field_sum w n (map (drop_bit w) as)"
  unfolding field_sum_def by (induction as) (simp_all add: and_ones algebra_simps del: ones.simps)

lemma bits_sum: "0 \<le> sum_list (map (\<lambda>a. a mod 2 :: int) as) \<and> sum_list (map (\<lambda>a. a mod 2) as) \<le> int (length as)"
proof (induction as)
  case (Cons a as)
  moreover have "0 \<le> a mod 2" "a mod 2 \<le> 1" by (simp_all add: mod_2_eq_odd)
  ultimately show ?case by simp
qed simp

text \<open>Fields do not carry into each other: field \<open>m\<close> of the sum counts the bits at its position.\<close>

lemma field_count:
  assumes "0 < w" "int (length as) < 2 ^ w" "m < n"
  shows "field_sum w n as div 2 ^ (w * m) mod 2 ^ w = sum_list (map (\<lambda>a. of_bool (bit a (w * m))) as)"
  using assms(2,3)
proof (induction m arbitrary: n as)
  case 0
  then obtain n' where n: "n = Suc n'" by (cases n) auto
  have "field_sum w n as mod 2 ^ w = sum_list (map (\<lambda>a. a mod 2) as)"
  proof -
    have "sum_list (map (\<lambda>a. a mod 2) as) < 2 ^ w" using bits_sum[of as] 0(1) by linarith
    then show ?thesis using bits_sum[of as] by (simp add: n field_sum_Suc[OF assms(1)])
  qed
  moreover have "of_bool (bit a 0) = a mod 2" for a :: int by (simp add: bit_0 mod_2_eq_odd)
  ultimately show ?case by simp
next
  case (Suc m)
  then obtain n' where n: "n = Suc n'" "m < n'" by (cases n) auto
  let ?s = "sum_list (map (\<lambda>a. a mod 2) as)"
  have s: "?s div 2 ^ w = 0" using bits_sum[of as] Suc.prems(1) by (intro div_pos_pos_trivial) (simp, linarith)
  have "field_sum w n as div 2 ^ w = field_sum w n' (map (drop_bit w) as)"
    using s by (simp add: n field_sum_Suc[OF assms(1)])
  moreover have "field_sum w n as div 2 ^ (w * Suc m) = field_sum w n as div 2 ^ w div 2 ^ (w * m)"
    by (simp add: power_add zdiv_zmult2_eq)
  ultimately have "field_sum w n as div 2 ^ (w * Suc m) mod 2 ^ w = field_sum w n' (map (drop_bit w) as) div 2 ^ (w * m) mod 2 ^ w" by simp
  also have "\<dots> = sum_list (map (\<lambda>a. of_bool (bit a (w * m))) (map (drop_bit w) as))"
    using Suc.IH[of "map (drop_bit w) as" n'] Suc.prems(1) n(2) by simp
  finally show ?case by (simp add: comp_def bit_drop_bit_eq ac_simps)
qed

section \<open>Coefficients\<close>

lemma uint_drop: "uint (drop_bit n (x :: u64)) = drop_bit n (uint x)"
  by (rule bit_eqI) (auto simp: bit_simps dest: bit_imp_le_length)

lemma uint_field: "uint (drop_bit n (d :: u64) AND 0x3) = uint d div 2 ^ n mod 4" "uint (drop_bit n d AND 0x7) = uint d div 2 ^ n mod 8"
proof -
  have m: "uint (drop_bit n d AND mask k) = uint d div 2 ^ n mod 2 ^ k" for k
  proof -
    have "uint (drop_bit n d AND mask k) = take_bit k (drop_bit n (uint d))" by (rule bit_eqI) (auto simp: bit_simps dest: bit_imp_le_length)
    then show ?thesis by (simp only: drop_bit_eq_div take_bit_eq_mod)
  qed
  show "uint (drop_bit n (d :: u64) AND 0x3) = uint d div 2 ^ n mod 4" using m[of 2] by (simp add: mask_eq_exp_minus_1)
  show "uint (drop_bit n d AND 0x7) = uint d div 2 ^ n mod 8" using m[of 3] by (simp add: mask_eq_exp_minus_1)
qed

lemma ones_numerals: "ones 2 32 = 0x5555555555555555" "ones 3 16 = 0x249249249249"
  by (simp_all add: numeral_eq_Suc)

lemma p64: "(2 :: int) ^ 64 = 18446744073709551616"
  by simp

lemma eta2_fields: "uint (eta2_word t) = field_sum 2 32 [uint t, drop_bit 1 (uint t)]"
proof -
  have b: "0 \<le> a AND (m :: int)" "a AND m \<le> m" if "0 \<le> a" "0 \<le> m" for a m using that by (simp_all add: and_nonnegative_int_iff AND_upper2)
  have "0 \<le> drop_bit 1 (uint t)" by simp
  note b1 = b[OF uint_ge_0[of t], of "0x5555555555555555", OF zero_le_numeral] and b2 = b[OF this, of "0x5555555555555555", OF zero_le_numeral]
  have "uint (eta2_word t) = ((uint t AND 0x5555555555555555) + (drop_bit 1 (uint t) AND 0x5555555555555555)) mod 2 ^ 64"
    by (simp add: eta2_word_def uint_word_ariths(1) uint_and uint_drop)
  also have "\<dots> = (uint t AND 0x5555555555555555) + (drop_bit 1 (uint t) AND 0x5555555555555555)"
  proof (rule mod_pos_pos_trivial)
    show "0 \<le> (uint t AND 0x5555555555555555) + (drop_bit 1 (uint t) AND 0x5555555555555555)" using b1 b2 by linarith
    show "(uint t AND 0x5555555555555555) + (drop_bit 1 (uint t) AND 0x5555555555555555) < 2 ^ 64" using b1 b2 p64 by linarith
  qed
  finally show ?thesis by (simp add: field_sum_def ones_numerals)
qed

lemma eta3_fields: "uint (eta3_word t) = field_sum 3 16 [uint t, drop_bit 1 (uint t), drop_bit 2 (uint t)]"
proof -
  have b: "0 \<le> a AND (m :: int)" "a AND m \<le> m" if "0 \<le> a" "0 \<le> m" for a m using that by (simp_all add: and_nonnegative_int_iff AND_upper2)
  have "0 \<le> drop_bit 1 (uint t)" "0 \<le> drop_bit 2 (uint t)" by simp_all
  note b1 = b[OF uint_ge_0[of t], of "0x249249249249", OF zero_le_numeral] and b2 = b[OF this(1), of "0x249249249249", OF zero_le_numeral] and b3 = b[OF this(2), of "0x249249249249", OF zero_le_numeral]
  have "uint (eta3_word t) = ((uint t AND 0x249249249249) + (drop_bit 1 (uint t) AND 0x249249249249) + (drop_bit 2 (uint t) AND 0x249249249249)) mod 2 ^ 64"
    by (simp add: eta3_word_def uint_word_ariths(1) uint_and uint_drop mod_add_left_eq)
  also have "\<dots> = (uint t AND 0x249249249249) + (drop_bit 1 (uint t) AND 0x249249249249) + (drop_bit 2 (uint t) AND 0x249249249249)"
  proof (rule mod_pos_pos_trivial)
    show "0 \<le> (uint t AND 0x249249249249) + (drop_bit 1 (uint t) AND 0x249249249249) + (drop_bit 2 (uint t) AND 0x249249249249)" using b1 b2 b3 by linarith
    show "(uint t AND 0x249249249249) + (drop_bit 1 (uint t) AND 0x249249249249) + (drop_bit 2 (uint t) AND 0x249249249249) < 2 ^ 64" using b1 b2 b3 p64 by linarith
  qed
  finally show ?thesis by (simp add: field_sum_def ones_numerals)
qed

text \<open>Coefficient \<open>i\<close> of \<open>SamplePolyCBD\<close>: the bits of the first half of its field minus those of the second.\<close>

definition cbd :: "nat \<Rightarrow> (nat \<Rightarrow> bool) \<Rightarrow> nat \<Rightarrow> int" where
  "cbd eta b i = (\<Sum>j<eta. of_bool (b (2 * i * eta + j))) - (\<Sum>j<eta. of_bool (b (2 * i * eta + eta + j)))"

lemma cbd_bound: "\<bar>cbd eta b i\<bar> \<le> int eta"
proof -
  have c: "0 \<le> (\<Sum>j<eta. of_bool (c j) :: int) \<and> (\<Sum>j<eta. of_bool (c j) :: int) \<le> int eta" for c :: "nat \<Rightarrow> bool"
    using sum_bounded_above[of "{..<eta}" "\<lambda>j. of_bool (c j) :: int" 1] by (auto intro!: sum_nonneg)
  show ?thesis unfolding cbd_def using c[of "\<lambda>j. b (2 * i * eta + j)"] c[of "\<lambda>j. b (2 * i * eta + eta + j)"] by linarith
qed

lemma cbd_2: "cbd 2 b i = (of_bool (b (4 * i)) + of_bool (b (4 * i + 1))) - (of_bool (b (4 * i + 2)) + of_bool (b (4 * i + 3)))"
proof -
  have s: "(\<Sum>j<2. f j) = f 0 + f 1" for f :: "nat \<Rightarrow> int" by (simp add: numeral_2_eq_2)
  have "2 * i * 2 + 0 = 4 * i" "2 * i * 2 + 1 = 4 * i + 1" "2 * i * 2 + 2 + 0 = 4 * i + 2" "2 * i * 2 + 2 + 1 = 4 * i + 3" by simp_all
  then show ?thesis unfolding cbd_def s by metis
qed

lemma cbd_3: "cbd 3 b i = (of_bool (b (6 * i)) + of_bool (b (6 * i + 1)) + of_bool (b (6 * i + 2))) -
    (of_bool (b (6 * i + 3)) + of_bool (b (6 * i + 4)) + of_bool (b (6 * i + 5)))"
proof -
  have s: "(\<Sum>j<3. f j) = f 0 + f 1 + f 2" for f :: "nat \<Rightarrow> int" by (simp add: numeral_3_eq_3 numeral_2_eq_2)
  have "2 * i * 3 + 0 = 6 * i" "2 * i * 3 + 1 = 6 * i + 1" "2 * i * 3 + 2 = 6 * i + 2" "2 * i * 3 + 3 + 0 = 6 * i + 3"
    "2 * i * 3 + 3 + 1 = 6 * i + 4" "2 * i * 3 + 3 + 2 = 6 * i + 5" by simp_all
  then show ?thesis unfolding cbd_def s by metis
qed

lemma ETA2_SUB_eq:
  assumes "i < 16"
  shows "sword16 (ETA2_SUB (eta2_word t) i) = cbd 2 (bit t) i"
proof -
  have f: "uint (eta2_word t) div 2 ^ (2 * m) mod 4 = of_bool (bit t (2 * m)) + of_bool (bit t (2 * m + 1))" if "m < 32" for m
    using field_count[of 2 "[uint t, drop_bit 1 (uint t)]" m 32] that by (simp add: eta2_fields bit_drop_bit_eq bit_uint_iff)
  have m: "i * 4 = 2 * (2 * i)" "2 * (2 * i) + 2 = 2 * (2 * i + 1)" "2 * i < 32" "2 * i + 1 < 32" using assms by auto
  have s: "sword16 (of_bool x + of_bool y) = of_bool x + of_bool y" for x y by (auto simp: sword16_def)
  have i: "2 * (2 * i) = 4 * i" "2 * (2 * i + 1) = 4 * i + 2" "4 * i + 2 + 1 = 4 * i + 3" by simp_all
  have "ETA2_SUB (eta2_word t) i = (of_bool (bit t (2 * (2 * i))) + of_bool (bit t (2 * (2 * i) + 1))) -
      (of_bool (bit t (2 * (2 * i + 1))) + of_bool (bit t (2 * (2 * i + 1) + 1)))"
    unfolding ETA2_SUB_def uint_field m(1,2) add_0_right f[OF m(3)] f[OF m(4)] s ..
  also have "\<dots> = cbd 2 (bit t) i" unfolding cbd_2 i ..
  finally show ?thesis using cbd_bound[of 2 "bit t" i] by (simp add: sword16_abs)
qed

lemma ETA3_SUB_eq:
  assumes "i < 8"
  shows "sword16 (ETA3_SUB (eta3_word t) i) = cbd 3 (bit t) i"
proof -
  have f: "uint (eta3_word t) div 2 ^ (3 * m) mod 8 = of_bool (bit t (3 * m)) + of_bool (bit t (3 * m + 1)) + of_bool (bit t (3 * m + 2))" if "m < 16" for m
    using field_count[of 3 "[uint t, drop_bit 1 (uint t), drop_bit 2 (uint t)]" m 16] that by (simp add: eta3_fields bit_drop_bit_eq bit_uint_iff)
  have m: "i * 6 = 3 * (2 * i)" "3 * (2 * i) + 3 = 3 * (2 * i + 1)" "2 * i < 16" "2 * i + 1 < 16" using assms by auto
  have s: "sword16 (of_bool x + of_bool y + of_bool z) = of_bool x + of_bool y + of_bool z" for x y z by (auto simp: sword16_def)
  have i: "3 * (2 * i) = 6 * i" "3 * (2 * i + 1) = 6 * i + 3" "6 * i + 3 + 1 = 6 * i + 4" "6 * i + 3 + 2 = 6 * i + 5" by simp_all
  have "ETA3_SUB (eta3_word t) i = (of_bool (bit t (3 * (2 * i))) + of_bool (bit t (3 * (2 * i) + 1)) + of_bool (bit t (3 * (2 * i) + 2))) -
      (of_bool (bit t (3 * (2 * i + 1))) + of_bool (bit t (3 * (2 * i + 1) + 1)) + of_bool (bit t (3 * (2 * i + 1) + 2)))"
    unfolding ETA3_SUB_def uint_field m(1,2) add_0_right f[OF m(3)] f[OF m(4)] s ..
  also have "\<dots> = cbd 3 (bit t) i" unfolding cbd_3 i ..
  finally show ?thesis using cbd_bound[of 3 "bit t" i] by (simp add: sword16_abs)
qed

section \<open>Polynomials\<close>

definition bits_of :: "bytes \<Rightarrow> nat \<Rightarrow> bool" where
  "bits_of r n = bit (r ! (n div 8)) (n mod 8)"

definition SamplePolyCBD :: "nat \<Rightarrow> bytes \<Rightarrow> int list" where
  "SamplePolyCBD eta r = map (cbd eta (bits_of r)) [0..<256]"

lemma cbd_shift: "(\<And>j. j < 2 * eta * g \<Longrightarrow> b j = c (2 * eta * (g * m) + j)) \<Longrightarrow> i < g \<Longrightarrow> cbd eta b i = cbd eta c (g * m + i)"
proof -
  assume b: "\<And>j. j < 2 * eta * g \<Longrightarrow> b j = c (2 * eta * (g * m) + j)" and i: "i < g"
  have lim: "2 * eta * Suc i \<le> 2 * eta * g" using i by (intro mult_le_mono2) simp
  have "b (2 * i * eta + j) = c (2 * (g * m + i) * eta + j)" "b (2 * i * eta + eta + j) = c (2 * (g * m + i) * eta + eta + j)" if "j < eta" for j
    using that lim b[of "2 * i * eta + j"] b[of "2 * i * eta + eta + j"] by (simp_all add: algebra_simps)
  then show ?thesis by (simp add: cbd_def)
qed

lemma bit_horner_bytes: "bit (horner_sum uint 256 (bs :: bytes)) n \<longleftrightarrow> n div 8 < length bs \<and> bit (bs ! (n div 8)) (n mod 8)"
proof (induction bs arbitrary: n)
  case (Cons x bs)
  let ?h = "horner_sum uint 256 bs :: int"
  have "uint x + 256 * ?h = uint x + push_bit 8 ?h" by (simp add: push_bit_eq_mult mult.commute)
  also have "\<dots> = uint x OR push_bit 8 ?h" by (rule disjunctive_add) (auto simp: bit_simps dest: bit_imp_le_length)
  finally have e: "horner_sum uint 256 (x # bs) = uint x OR push_bit 8 ?h" by simp
  show ?case
  proof (cases "n < 8")
    case True
    then show ?thesis unfolding e by (simp add: bit_simps)
  next
    case False
    then have n: "n div 8 = Suc ((n - 8) div 8)" "(n - 8) mod 8 = n mod 8" by (simp_all add: div_if mod_if)
    have "\<not> bit x n" using False bit_imp_le_length[of x n] by auto
    then show ?thesis unfolding e using False Cons.IH[of "n - 8"] by (simp add: bit_simps n)
  qed
qed simp

lemma bit_load_64: "8 \<le> length b \<Longrightarrow> n < 64 \<Longrightarrow> bit (readUnalignedWord64 b) n = bits_of b n"
proof -
  assume "8 \<le> length b" "n < 64"
  moreover from this have "n div 8 < 8" by auto
  ultimately show ?thesis by (simp add: readUnalignedWord64_def bits_of_def bit_horner_bytes bit_simps)
qed

lemma bit_load_48:
  assumes "n < 48"
  shows "bit (load_48 f) n = bit (f (n div 8)) (n mod 8)"
proof -
  have "n = 8 * (n div 8) + n mod 8" "n mod 8 < 8" "n div 8 < 6" using assms by auto
  then obtain q k where q: "n = 8 * q + k" "k < 8" "q < 6" "n div 8 = q" "n mod 8 = k" by blast
  have z: "\<not> bit (f c) m" if "8 \<le> m" for c m using that bit_imp_le_length[of "f c" m] by auto
  from q(3) consider "q = 0" | "q = 1" | "q = 2" | "q = 3" | "q = 4" | "q = 5" by fastforce
  then show ?thesis unfolding q(4,5) using q(1,2) by cases (simp_all add: load_48_def bit_simps z)
qed

lemma cbd_eta2_samples:
  assumes "length r = 128"
  shows "mlkem_cbd_eta2 r = SamplePolyCBD 2 r"
proof -
  have u: "[0, 1, 2, 3, 4, 5, 6, 7, 8, 9, 10, 11, 12, 13, 14, 15] = [0..<16 :: nat]" by (simp add: upt_rec)
  have "sword16 (ETA2_SUB (eta2_word (readUnalignedWord64 (drop (8 * m) r))) i) = cbd 2 (bits_of r) (16 * m + i)" if "m < 16" "i < 16" for m i
  proof -
    have l: "8 \<le> length (drop (8 * m) r)" using that(1) assms by simp
    have "bit (readUnalignedWord64 (drop (8 * m) r)) j = bits_of r (2 * 2 * (16 * m) + j)" if "j < 64" for j
    proof -
      have "8 * m + j div 8 < length r" using that l by auto
      moreover have "(64 * m + j) div 8 = 8 * m + j div 8" "(64 * m + j) mod 8 = j mod 8" by presburger+
      ultimately show ?thesis using bit_load_64[OF l that] by (simp add: bits_of_def)
    qed
    then show ?thesis using ETA2_SUB_eq[OF that(2)] cbd_shift[of 2 16 _ "bits_of r" m i] that(2) by simp
  qed
  then have "mlkem_cbd_eta2 r = concat (map (\<lambda>m. map (\<lambda>i. cbd 2 (bits_of r) (16 * m + i)) [0..<16]) [0..<16])"
    unfolding mlkem_cbd_eta2_def u by (auto simp: Let_def intro!: arg_cong[where f = concat])
  then show ?thesis using chunks_upt[of "cbd 2 (bits_of r)" 16 16] by (simp add: SamplePolyCBD_def)
qed

lemma cbd_eta3_samples:
  assumes "length r = 192"
  shows "mlkem_cbd_eta3 r = SamplePolyCBD 3 r"
proof -
  have "sword16 (ETA3_SUB (eta3_word (load_48 (\<lambda>c. r ! (6 * m + c)))) i) = cbd 3 (bits_of r) (8 * m + i)" if "m < 32" "i < 8" for m i
  proof -
    have "bit (load_48 (\<lambda>c. r ! (6 * m + c))) j = bits_of r (2 * 3 * (8 * m) + j)" if "j < 48" for j
    proof -
      have "(48 * m + j) div 8 = 6 * m + j div 8" "(48 * m + j) mod 8 = j mod 8" by presburger+
      then show ?thesis using bit_load_48[OF that] by (simp add: bits_of_def)
    qed
    then show ?thesis using ETA3_SUB_eq[OF that(2)] cbd_shift[of 3 8 _ "bits_of r" m i] that(2) by simp
  qed
  then have "mlkem_cbd_eta3 r = concat (map (\<lambda>m. map (\<lambda>i. cbd 3 (bits_of r) (8 * m + i)) [0..<8]) [0..<32])"
    unfolding mlkem_cbd_eta3_def upt_numerals(3)[symmetric] by (auto simp: Let_def intro!: arg_cong[where f = concat])
  then show ?thesis using chunks_upt[of "cbd 3 (bits_of r)" 8 32] by (simp add: SamplePolyCBD_def)
qed

text \<open>
  C25. The noise polynomials, whose coefficients the code computes for a whole 64-bit or 48-bit word at a time, are those of
  \<open>SamplePolyCBD\<close> of FIPS 203 (Algorithm 8): each coefficient is the difference of two sums of \<open>eta\<close> bits of the bytes, and at most \<open>eta\<close> in size.
\<close>

theorem noise_samples:
  assumes "length r2 = 128" "length r3 = 192"
  shows "mlkem_cbd_eta2 r2 = SamplePolyCBD 2 r2 \<and> mlkem_cbd_eta3 r3 = SamplePolyCBD 3 r3 \<and>
    set (mlkem_cbd_eta2 r2) \<subseteq> {- 2..2} \<and> set (mlkem_cbd_eta3 r3) \<subseteq> {- 3..3}"
proof -
  have "set (SamplePolyCBD eta r) \<subseteq> {- int eta..int eta}" for eta r
    using cbd_bound[of eta "bits_of r"] by (auto simp: SamplePolyCBD_def abs_le_iff minus_le_iff)
  from this[of 2 r2] this[of 3 r3] show ?thesis using cbd_eta2_samples[OF assms(1)] cbd_eta3_samples[OF assms(2)] by simp
qed

text \<open>A witness: 27 has the bits 11011000 in the order of the sampling.\<close>

theorem noise_samples_witness:
  "mlkem_cbd_eta2 (replicate 128 27) = SamplePolyCBD 2 (replicate 128 27) \<and> mlkem_cbd_eta3 (replicate 192 27) = SamplePolyCBD 3 (replicate 192 27) \<and>
    set (mlkem_cbd_eta2 (replicate 128 27)) \<subseteq> {- 2..2} \<and> set (mlkem_cbd_eta3 (replicate 192 27)) \<subseteq> {- 3..3}"
  by (rule noise_samples) simp_all

end
