(* ===== verification/MlkemRound.thy ===== *)
theory MlkemRound
  imports MlkemPack Complex_Main
begin

text \<open>
  Compression and decompression are the rounded scalings of FIPS 203, Section 4.2.1, and lose no more than half a step.
\<close>

section \<open>The specification\<close>

definition Compress :: "nat \<Rightarrow> int \<Rightarrow> int" where
  "Compress d x = round (real_of_int (2 ^ d * x) / 3329) mod 2 ^ d"

definition Decompress :: "nat \<Rightarrow> int \<Rightarrow> int" where
  "Decompress d y = round (real_of_int (3329 * y) / 2 ^ d)"

lemma round_divide:
  assumes "0 < b"
  shows "round (real_of_int a / real_of_int b) = (2 * a + b) div (2 * b)"
proof -
  have "real_of_int a / real_of_int b + 1 / 2 = real_of_int (2 * a + b) / real_of_int (2 * b)" using assms by (simp add: field_simps)
  then show ?thesis unfolding round_def by (simp only: floor_divide_of_int_eq)
qed

lemma Compress_eq: "Compress d x = ((2 ^ d * x + 1664) div 3329) mod 2 ^ d"
proof -
  let ?a = "2 ^ d * x"
  have "(2 * ?a + 3329) div (2 * 3329) = (2 * ?a + 3329) div 2 div 3329" by (rule zdiv_zmult2_eq) simp
  also have "(2 * ?a + 3329) div 2 = ?a + 1664" by simp
  finally show ?thesis using round_divide[of 3329 ?a] by (simp add: Compress_def)
qed

lemma Decompress_eq: "0 < d \<Longrightarrow> Decompress d y = (3329 * y + 2 ^ (d - 1)) div 2 ^ d"
proof -
  assume d: "0 < d"
  have "(2 * (3329 * y) + 2 ^ d) div (2 * 2 ^ d) = (2 * (3329 * y) + 2 ^ d) div 2 div 2 ^ d" by (rule zdiv_zmult2_eq) simp
  also have "(2 * (3329 * y) + 2 ^ d) div 2 = 3329 * y + (2 :: int) ^ (d - 1)" using d by (cases d) simp_all
  finally show ?thesis using round_divide[of "2 ^ d" "3329 * y"] by (simp add: Decompress_def)
qed

section \<open>Division by multiplication\<close>

lemma div_by_mult_above:
  fixes q V M e y :: int
  assumes "0 < q" "q * V = M + e" "0 \<le> e" "0 \<le> y" "y * e < M"
  shows "V * y div M = y div q"
proof -
  let ?a = "y div q" and ?r = "y mod q"
  have r: "0 \<le> ?r" "?r < q" using assms(1) by simp_all
  have M: "0 < M" using assms(3-5) mult_nonneg_nonneg[of y e] by linarith
  have "q * (V * y - M * ?a) = (q * V) * y - M * (q * ?a)" by (simp add: algebra_simps)
  also have "q * ?a = y - ?r" by (rule minus_mod_eq_mult_div[symmetric])
  finally have k: "q * (V * y - M * ?a) = y * e + M * ?r" unfolding assms(2) by (simp add: algebra_simps)
  have "M * ?r \<le> M * (q - 1)" using r M by (intro mult_left_mono) simp_all
  then have "q * (V * y - M * ?a) < q * M" unfolding k using assms(5) by (simp add: algebra_simps)
  then have u: "V * y - M * ?a < M" using assms(1) by simp
  have "0 \<le> q * (V * y - M * ?a)" unfolding k using assms(3,4) r M by simp
  then have "0 \<le> V * y - M * ?a" using assms(1) by (simp add: zero_le_mult_iff)
  then show ?thesis using u by (intro int_div_pos_eq[where r = "V * y - M * ?a"]) simp_all
qed

lemma div_by_mult_below:
  fixes q V M e y :: int
  assumes "0 < q" "q * V = M - e" "0 < e" "0 < y" "y * e \<le> M"
  shows "V * y div M = (y - 1) div q"
proof -
  let ?a = "(y - 1) div q" and ?r = "(y - 1) mod q"
  have r: "0 \<le> ?r" "?r < q" using assms(1) by simp_all
  have ye: "0 < y * e" using assms(3,4) by simp
  then have M: "0 < M" using assms(5) by linarith
  have "q * (V * y - M * ?a) = (q * V) * y - M * (q * ?a)" by (simp add: algebra_simps)
  also have "q * ?a = y - 1 - ?r" by (rule minus_mod_eq_mult_div[symmetric])
  finally have k: "q * (V * y - M * ?a) = M * ?r + M - y * e" unfolding assms(2) by (simp add: algebra_simps)
  have "M * ?r \<le> M * (q - 1)" using r M by (intro mult_left_mono) simp_all
  then have "q * (V * y - M * ?a) < q * M" unfolding k using ye by (simp add: algebra_simps)
  then have u: "V * y - M * ?a < M" using assms(1) by simp
  have "0 \<le> M * ?r" using r M by simp
  then have "0 \<le> q * (V * y - M * ?a)" unfolding k using assms(5) by linarith
  then have "0 \<le> V * y - M * ?a" using assms(1) by (simp add: zero_le_mult_iff)
  then show ?thesis using u by (intro int_div_pos_eq[where r = "V * y - M * ?a"]) simp_all
qed

lemma uint_drop_word: "uint (drop_bit s (word_of_int n :: 'a :: len word)) = n mod 2 ^ LENGTH('a) div 2 ^ s"
proof -
  have "uint (drop_bit s w) = drop_bit s (uint w)" for w :: "'a word" by (rule bit_eqI) (auto simp: bit_simps dest: bit_imp_le_length)
  then show ?thesis by (simp only: drop_bit_eq_div uint_word_of_int)
qed

lemma mod_div_power: "s \<le> l \<Longrightarrow> (n :: int) mod 2 ^ l div 2 ^ s = n div 2 ^ s mod 2 ^ (l - s)"
  by (metis drop_bit_eq_div drop_bit_take_bit take_bit_eq_mod)

section \<open>The words of the code\<close>

lemma TO_COMP_WORD_10_eq:
  assumes "0 \<le> x" "x \<le> 3328"
  shows "uint (TO_COMP_WORD_10 x) = Compress 10 x"
proof -
  have "TO_COMP_WORD_10 x = drop_bit 54 (word_of_int (5411354313452 * (1024 * x + 1665)))"
    unfolding TO_COMP_WORD_10_def MLKEM_V54_def MLKEM_V54_HALF_def by (simp add: push_bit_eq_mult algebra_simps)
  then have "uint (TO_COMP_WORD_10 x) = 5411354313452 * (1024 * x + 1665) div 2 ^ 54 mod 2 ^ 10"
    using mod_div_power[of 54 64] by (simp only: uint_drop_word) simp
  also have "5411354313452 * (1024 * x + 1665) div 2 ^ 54 = (1024 * x + 1665 - 1) div 3329"
    by (rule div_by_mult_below[where e = 276]) (use assms in simp_all)
  finally show ?thesis by (simp add: Compress_eq add.commute)
qed

lemma TO_COMP_WORD_11_eq:
  assumes "0 \<le> x" "x \<le> 3328"
  shows "uint (TO_COMP_WORD_11 x) = Compress 11 x"
proof -
  have "TO_COMP_WORD_11 x = drop_bit 53 (word_of_int (2705677156726 * (2048 * x + 1665)))"
    unfolding TO_COMP_WORD_11_def MLKEM_V53_def MLKEM_V53_HALF_def by (simp add: push_bit_eq_mult algebra_simps)
  then have "uint (TO_COMP_WORD_11 x) = 2705677156726 * (2048 * x + 1665) div 2 ^ 53 mod 2 ^ 11"
    using mod_div_power[of 53 64] by (simp only: uint_drop_word) simp
  also have "2705677156726 * (2048 * x + 1665) div 2 ^ 53 = (2048 * x + 1665 - 1) div 3329"
    by (rule div_by_mult_below[where e = 138]) (use assms in simp_all)
  finally show ?thesis by (simp add: Compress_eq add.commute)
qed

lemma TO_COMP_WORD_4_eq:
  assumes "0 \<le> x" "x \<le> 3328"
  shows "uint (TO_COMP_WORD_4 x) = Compress 4 x"
proof -
  have "TO_COMP_WORD_4 x = drop_bit 28 (word_of_int (80635 * (16 * x + 1665)))"
    unfolding TO_COMP_WORD_4_def MLKEM_V28_def MLKEM_V28_HALF_def by (simp add: push_bit_eq_mult algebra_simps)
  then have "uint (TO_COMP_WORD_4 x) = 80635 * (16 * x + 1665) div 2 ^ 28 mod 2 ^ 4"
    using mod_div_power[of 28 32] by (simp only: uint_drop_word) simp
  also have "80635 * (16 * x + 1665) div 2 ^ 28 = (16 * x + 1665 - 1) div 3329"
    by (rule div_by_mult_below[where e = 1541]) (use assms in simp_all)
  finally show ?thesis by (simp add: Compress_eq add.commute)
qed

lemma TO_COMP_WORD_5_eq:
  assumes "0 \<le> x" "x \<le> 3328"
  shows "uint (TO_COMP_WORD_5 x) = Compress 5 x"
proof -
  have "TO_COMP_WORD_5 x = drop_bit 27 (word_of_int (40318 * (32 * x + 1664)))"
    unfolding TO_COMP_WORD_5_def MLKEM_V27_def MLKEM_V27_HALF_def by (simp add: push_bit_eq_mult algebra_simps)
  then have "uint (TO_COMP_WORD_5 x) = 40318 * (32 * x + 1664) div 2 ^ 27 mod 2 ^ 5"
    using mod_div_power[of 27 32] by (simp only: uint_drop_word) simp
  also have "40318 * (32 * x + 1664) div 2 ^ 27 = (32 * x + 1664) div 3329"
    by (rule div_by_mult_above[where e = 894]) (use assms in simp_all)
  finally show ?thesis by (simp add: Compress_eq add.commute)
qed

lemma TO_MSG_BIT_eq:
  assumes "0 \<le> x" "x \<le> 3328"
  shows "uint (TO_MSG_BIT x) = Compress 1 x"
proof -
  have "TO_MSG_BIT x = drop_bit 31 (word_of_int (645084 * (2 * x + 1664)))"
    unfolding TO_MSG_BIT_def MLKEM_V31_def MLKEM_V31_2_def MLKEM_V31_HALF_def by (simp add: push_bit_eq_mult algebra_simps)
  then have "uint (TO_MSG_BIT x) = 645084 * (2 * x + 1664) div 2 ^ 31 mod 2 ^ 1"
    using mod_div_power[of 31 32] by (simp only: uint_drop_word) simp
  also have "645084 * (2 * x + 1664) div 2 ^ 31 = (2 * x + 1664) div 3329"
    by (rule div_by_mult_above[where e = 988]) (use assms in simp_all)
  finally show ?thesis by (simp add: Compress_eq add.commute)
qed

lemma DECOMP_eq:
  assumes "0 \<le> y"
  shows "y < 2 ^ 10 \<Longrightarrow> DECOMP_10 y = Decompress 10 y" "y < 2 ^ 11 \<Longrightarrow> DECOMP_11 y = Decompress 11 y"
    "y < 2 ^ 4 \<Longrightarrow> DECOMP_4 y = Decompress 4 y" "y < 2 ^ 5 \<Longrightarrow> DECOMP_5 y = Decompress 5 y"
proof -
  have m: "0x3ff = (mask 10 :: int)" "0x7ff = (mask 11 :: int)" "0x1f = (mask 5 :: int)" by (simp_all add: mask_eq_exp_minus_1)
  have a: "y AND mask d = y" if "y < 2 ^ d" for d using that assms by (simp add: take_bit_eq_mask[symmetric] take_bit_int_eq_self)
  show "DECOMP_10 y = Decompress 10 y" if y: "y < 2 ^ 10"
  proof -
    have "0 \<le> (y * 3329 + 512) div 1024" "(y * 3329 + 512) div 1024 < 32768" using y assms by (simp_all add: pos_imp_zdiv_nonneg_iff)
    then show ?thesis using y assms a[OF y] by (simp add: DECOMP_10_def Decompress_eq m sword16_id mult.commute)
  qed
  show "DECOMP_11 y = Decompress 11 y" if y: "y < 2 ^ 11"
  proof -
    have "0 \<le> (y * 3329 + 1024) div 2048" "(y * 3329 + 1024) div 2048 < 32768" using y assms by (simp_all add: pos_imp_zdiv_nonneg_iff)
    then show ?thesis using y assms a[OF y] by (simp add: DECOMP_11_def Decompress_eq m sword16_id mult.commute)
  qed
  show "DECOMP_4 y = Decompress 4 y" if y: "y < 2 ^ 4"
  proof -
    have "0 \<le> (y * 3329 + 8) div 16" "(y * 3329 + 8) div 16 < 32768" using y assms by (simp_all add: pos_imp_zdiv_nonneg_iff)
    then show ?thesis using y assms a[OF y] by (simp add: DECOMP_4_def Decompress_eq m sword16_id mult.commute)
  qed
  show "DECOMP_5 y = Decompress 5 y" if y: "y < 2 ^ 5"
  proof -
    have "0 \<le> (y * 3329 + 16) div 32" "(y * 3329 + 16) div 32 < 32768" using y assms by (simp_all add: pos_imp_zdiv_nonneg_iff)
    then show ?thesis using y assms a[OF y] by (simp add: DECOMP_5_def Decompress_eq m sword16_id mult.commute)
  qed
qed



section \<open>The loss\<close>

lemma Compress_range: "0 \<le> Compress d x \<and> Compress d x < 2 ^ d"
  by (simp add: Compress_def)

lemma Decompress_wrap:
  assumes "0 < d"
  shows "Decompress d (y mod 2 ^ d) mod 3329 = Decompress d y mod 3329"
proof -
  have "3329 * y + 2 ^ (d - 1) = 3329 * (y mod 2 ^ d) + 2 ^ (d - 1) + 2 ^ d * (3329 * (y div 2 ^ d))"
    using mult_div_mod_eq[of "2 ^ d" y] mult.left_commute[of "2 ^ d" 3329 "y div 2 ^ d"] by linarith
  then have "Decompress d y = 3329 * (y div 2 ^ d) + Decompress d (y mod 2 ^ d)"
    unfolding Decompress_eq[OF assms] by (simp only: div_mult_self2[of "2 ^ d"]) simp
  then show ?thesis by simp
qed

lemma loss_10: "\<bar>Decompress 10 ((1024 * x + 1664) div 3329) - x\<bar> \<le> 2"
  and loss_11: "\<bar>Decompress 11 ((2048 * x + 1664) div 3329) - x\<bar> \<le> 1"
  and loss_4: "\<bar>Decompress 4 ((16 * x + 1664) div 3329) - x\<bar> \<le> 104"
  and loss_5: "\<bar>Decompress 5 ((32 * x + 1664) div 3329) - x\<bar> \<le> 52"
  by (simp_all add: Decompress_eq)

lemmas loss_lemmas = loss_4 loss_5 loss_10 loss_11

definition loss :: "nat \<Rightarrow> int" where
  "loss d = round (3329 / 2 ^ (d + 1) :: real)"

lemma loss_values: "loss 4 = 104" "loss 5 = 52" "loss 10 = 2" "loss 11 = 1"
  using round_divide[of 32 3329] round_divide[of 64 3329] round_divide[of 2048 3329] round_divide[of 4096 3329] by (simp_all add: loss_def)

lemma Decompress_Compress:
  assumes "d \<in> {4, 5, 10, 11}"
  shows "\<exists>e. \<bar>e\<bar> \<le> loss d \<and> Decompress d (Compress d x) mod 3329 = (x + e) mod 3329"
proof -
  let ?e = "Decompress d ((2 ^ d * x + 1664) div 3329) - x"
  have "\<bar>?e\<bar> \<le> loss d" using assms loss_lemmas by (auto simp: loss_values)
  moreover have "Decompress d (Compress d x) mod 3329 = (x + ?e) mod 3329" using assms Decompress_wrap[of d "(2 ^ d * x + 1664) div 3329"] by (auto simp: Compress_eq)
  ultimately show ?thesis by blast
qed

section \<open>Round trips of polynomials\<close>

definition reduced :: "int list \<Rightarrow> bool" where
  "reduced p \<longleftrightarrow> length p = 256 \<and> set p \<subseteq> {0..3329}"

lemma csubq_reduced:
  assumes "reduced p" "i < 256"
  shows "0 \<le> mlkem_csubq_c p ! i" "mlkem_csubq_c p ! i \<le> 3328" "mlkem_csubq_c p ! i mod 3329 = p ! i mod 3329"
proof -
  have "p ! i \<in> {0..3329}" using assms nth_mem[of i p] unfolding reduced_def by fastforce
  then show "0 \<le> mlkem_csubq_c p ! i" "mlkem_csubq_c p ! i \<le> 3328" "mlkem_csubq_c p ! i mod 3329 = p ! i mod 3329"
    using assms by (auto simp: mlkem_csubq_c_def reduced_def csubq_eq)
qed

lemma take_bit_masks:
  "DECOMP_10 (take_bit 10 t) = DECOMP_10 t" "DECOMP_11 (take_bit 11 t) = DECOMP_11 t" "DECOMP_5 (take_bit 5 t) = DECOMP_5 t"
proof -
  have m: "0x3ff = (mask 10 :: int)" "0x7ff = (mask 11 :: int)" "0x1f = (mask 5 :: int)" by (simp_all add: mask_eq_exp_minus_1)
  show "DECOMP_10 (take_bit 10 t) = DECOMP_10 t" "DECOMP_11 (take_bit 11 t) = DECOMP_11 t" "DECOMP_5 (take_bit 5 t) = DECOMP_5 t"
    by (simp_all add: DECOMP_10_def DECOMP_11_def DECOMP_5_def m take_bit_eq_mask)
qed

lemma map_DECOMP:
  assumes "map (take_bit w) xs = map t is" "\<And>x. D (take_bit w x) = D x"
  shows "map D xs = map (\<lambda>i. D (t i)) is"
proof -
  have "map D xs = map D (map (take_bit w) xs)" by (simp add: assms(2))
  then show ?thesis by (simp add: assms(1))
qed

text \<open>A vector in 10 bits a coefficient, followed by other bytes.\<close>

abbreviation compressed :: "nat \<Rightarrow> int list \<Rightarrow> int list" where
  "compressed d p \<equiv> map (\<lambda>i. Decompress d (Compress d (mlkem_csubq_c p ! i))) [0..<256]"

lemma vec_compress_10:
  assumes "length v = k" "\<forall>p \<in> set v. reduced p"
  shows "mlkem_vec_decompress_10_c (fst (mlkem_vec_compress_10_c v k) @ rest) k = map (compressed 10) v" "length (fst (mlkem_vec_compress_10_c v k)) = 320 * k"
proof -
  define t where "t i p = sword16 (uint (TO_COMP_WORD_10 (mlkem_csubq_c (v ! i) ! p)))" for i p
  have t: "t i p = Compress 10 (mlkem_csubq_c (v ! i) ! p)" if "i < k" "p < 256" for i p
    using TO_COMP_WORD_10_eq[of "mlkem_csubq_c (v ! i) ! p"] csubq_reduced[of "v ! i" p] assms that Compress_range[of 10 "mlkem_csubq_c (v ! i) ! p"]
    by (simp add: t_def sword16_id)
  have e: "fst (mlkem_vec_compress_10_c v k) = concat (map (\<lambda>i. concat (map (\<lambda>j. pack_10 (\<lambda>l. t i (4 * j + l))) [0..<64])) [0..<k])"
    using assms(1) by (auto simp: mlkem_vec_compress_10_c_def Let_def steps_def t_def comp_def intro!: arg_cong[where f = concat])
  show "length (fst (mlkem_vec_compress_10_c v k)) = 320 * k" unfolding e by (rule length_chunks) (use p10.length_encode[of _ 64] in simp)
  have "map DECOMP_10 (concat (map (\<lambda>j. unpack_10 (\<lambda>c. uint ((fst (mlkem_vec_compress_10_c v k) @ rest) ! (320 * i + 5 * j + c)))) [0..<64])) = compressed 10 (v ! i)"
    if i: "i < k" for i
  proof -
    have "0 \<le> t i p \<and> t i p < 2 ^ 10" if "p < 4 * 64" for p using that Compress_range[of 10] by (simp add: t[OF i])
    note enc = p10.vector_decode_encode[where t = t and g = 64 and rest = rest, OF this i]
    from map_DECOMP[where t = "t i" and D = DECOMP_10, OF enc take_bit_masks(1)] show ?thesis
      unfolding e using Compress_range[of 10] by (simp add: t[OF i] DECOMP_eq)
  qed
  then show "mlkem_vec_decompress_10_c (fst (mlkem_vec_compress_10_c v k) @ rest) k = map (compressed 10) v"
    unfolding mlkem_vec_decompress_10_c_def using assms(1) by (auto simp: map_concat comp_def intro!: nth_equalityI)
qed

lemma vec_compress_11:
  assumes "length v = 4" "\<forall>p \<in> set v. reduced p"
  shows "mlkem_vec_decompress_11_c (fst (mlkem_vec_compress_11_c v) @ rest) = map (compressed 11) v" "length (fst (mlkem_vec_compress_11_c v)) = 352 * 4"
proof -
  define t where "t i p = sword16 (uint (TO_COMP_WORD_11 (mlkem_csubq_c (v ! i) ! p)))" for i p
  have t: "t i p = Compress 11 (mlkem_csubq_c (v ! i) ! p)" if "i < 4" "p < 256" for i p
    using TO_COMP_WORD_11_eq[of "mlkem_csubq_c (v ! i) ! p"] csubq_reduced[of "v ! i" p] assms that Compress_range[of 11 "mlkem_csubq_c (v ! i) ! p"]
    by (simp add: t_def sword16_id)
  have e: "fst (mlkem_vec_compress_11_c v) = concat (map (\<lambda>i. concat (map (\<lambda>j. pack_11 (\<lambda>l. t i (8 * j + l))) [0..<32])) [0..<4])"
    using assms(1) by (auto simp: mlkem_vec_compress_11_c_def Let_def steps_def t_def comp_def intro!: arg_cong[where f = concat])
  show "length (fst (mlkem_vec_compress_11_c v)) = 352 * 4" unfolding e by (rule length_chunks) (use p11.length_encode[of _ 32] in simp)
  have "map DECOMP_11 (concat (map (\<lambda>j. unpack_11 (\<lambda>c. uint ((fst (mlkem_vec_compress_11_c v) @ rest) ! (352 * i + 11 * j + c)))) [0..<32])) = compressed 11 (v ! i)"
    if i: "i < 4" for i
  proof -
    have "0 \<le> t i p \<and> t i p < 2 ^ 11" if "p < 8 * 32" for p using that Compress_range[of 11] by (simp add: t[OF i])
    note enc = p11.vector_decode_encode[where t = t and g = 32 and rest = rest, OF this i]
    from map_DECOMP[where t = "t i" and D = DECOMP_11, OF enc take_bit_masks(2)] show ?thesis
      unfolding e using Compress_range[of 11] by (simp add: t[OF i] DECOMP_eq)
  qed
  then show "mlkem_vec_decompress_11_c (fst (mlkem_vec_compress_11_c v) @ rest) = map (compressed 11) v"
    unfolding mlkem_vec_decompress_11_c_def using assms(1) by (auto simp: map_concat comp_def intro!: nth_equalityI)
qed

text \<open>A polynomial in 4 or 5 bits a coefficient.\<close>

lemma comp_byte: "0 \<le> x \<Longrightarrow> x < 256 \<Longrightarrow> uint (byte_of x) = x"
  by (simp add: byte_of_def uint_word_of_int)

lemma unpack_4_range: "map (take_bit 4) (unpack_4 (\<lambda>c. uint (b c :: u8))) = unpack_4 (\<lambda>c. uint (b c))"
proof -
  have "uint (b 0) < 256" using uint_lt2p[of "b 0"] by simp
  then have "drop_bit 4 (uint (b 0)) < 2 ^ 4" by (simp add: drop_bit_eq_div)
  moreover have m: "0xf = (mask 4 :: int)" by (simp add: mask_eq_exp_minus_1)
  ultimately show ?thesis by (simp add: unpack_4_def m take_bit_int_eq_self flip: take_bit_eq_mask)
qed

lemma compress_4:
  assumes "reduced p"
  shows "mlkem_decompress_4_c (fst (mlkem_compress_4_c p) @ rest) = compressed 4 p" "length (fst (mlkem_compress_4_c p)) = 128"
proof -
  define t where "t i = uint (byte_of (uint (TO_COMP_WORD_4 (mlkem_csubq_c p ! i))))" for i
  have t: "t i = Compress 4 (mlkem_csubq_c p ! i)" if "i < 256" for i
    using TO_COMP_WORD_4_eq[of "mlkem_csubq_c p ! i"] csubq_reduced[OF assms that] Compress_range[of 4 "mlkem_csubq_c p ! i"] by (simp add: t_def comp_byte)
  have e: "fst (mlkem_compress_4_c p) = concat (map (\<lambda>j. pack_byte (\<lambda>l. t (2 * j + l))) [0..<128])"
    using pack_4_bytes[of t 32] by (simp add: mlkem_compress_4_c_def Let_def steps_def t_def comp_def)
  show l: "length (fst (mlkem_compress_4_c p)) = 128" unfolding e using p4.length_encode[of _ 128] by simp
  have r: "0 \<le> t i \<and> t i < 2 ^ 4" if "i < 2 * 128" for i using that Compress_range[of 4] by (simp add: t)
  have "map (take_bit 4) (concat (map (\<lambda>j. unpack_4 (\<lambda>c. uint ((fst (mlkem_compress_4_c p) @ rest) ! (0 + 1 * j + c)))) [0..<128])) = map t [0..<2 * 128]"
    by (rule p4.decode_encode[OF r]) (use l in \<open>simp_all add: nth_append e\<close>)
  then have "concat (map (\<lambda>j. unpack_4 (\<lambda>c. uint ((fst (mlkem_compress_4_c p) @ rest) ! (j + c)))) [0..<128]) = map t [0..<256]"
    by (simp add: map_concat comp_def unpack_4_range)
  from arg_cong[OF this, of "map DECOMP_4"] have "mlkem_decompress_4_c (fst (mlkem_compress_4_c p) @ rest) = map (\<lambda>i. DECOMP_4 (t i)) [0..<256]"
    by (simp add: mlkem_decompress_4_c_def map_concat comp_def)
  then show "mlkem_decompress_4_c (fst (mlkem_compress_4_c p) @ rest) = compressed 4 p" using Compress_range[of 4] by (simp add: t DECOMP_eq)
qed

lemma compress_5:
  assumes "reduced p"
  shows "mlkem_decompress_5_c (fst (mlkem_compress_5_c p) @ rest) = compressed 5 p" "length (fst (mlkem_compress_5_c p)) = 160"
proof -
  define t where "t i = uint (byte_of (uint (TO_COMP_WORD_5 (mlkem_csubq_c p ! i))))" for i
  have t: "t i = Compress 5 (mlkem_csubq_c p ! i)" if "i < 256" for i
    using TO_COMP_WORD_5_eq[of "mlkem_csubq_c p ! i"] csubq_reduced[OF assms that] Compress_range[of 5 "mlkem_csubq_c p ! i"] by (simp add: t_def comp_byte)
  have e: "fst (mlkem_compress_5_c p) = concat (map (\<lambda>j. pack_5 (\<lambda>l. t (8 * j + l))) [0..<32])"
    by (simp add: mlkem_compress_5_c_def Let_def steps_def t_def comp_def)
  show l: "length (fst (mlkem_compress_5_c p)) = 160" unfolding e using p5.length_encode[of _ 32] by simp
  have r: "0 \<le> t i \<and> t i < 2 ^ 5" if "i < 8 * 32" for i using that Compress_range[of 5] by (simp add: t)
  have "map (take_bit 5) (concat (map (\<lambda>j. unpack_5 (\<lambda>c. uint ((fst (mlkem_compress_5_c p) @ rest) ! (0 + 5 * j + c)))) [0..<32])) = map t [0..<8 * 32]"
    by (rule p5.decode_encode[OF r]) (use l in \<open>simp_all add: nth_append e\<close>)
  from map_DECOMP[where t = t and D = DECOMP_5, OF this take_bit_masks(3)]
  show "mlkem_decompress_5_c (fst (mlkem_compress_5_c p) @ rest) = compressed 5 p"
    unfolding mlkem_decompress_5_c_def using Compress_range[of 5] by (simp add: t DECOMP_eq map_concat comp_def)
qed

text \<open>Keys: 12 bits a coefficient.\<close>

lemma bytes_roundtrip:
  assumes "length v = k" "\<forall>p \<in> set v. reduced p"
  shows "mlkem_from_bytes_c (fst (mlkem_to_bytes_c v k) @ rest) k = map mlkem_csubq_c v" "length (fst (mlkem_to_bytes_c v k)) = 384 * k"
proof -
  define t where "t i p = mlkem_csubq_c (v ! i) ! p mod 65536" for i p
  have t: "t i p = mlkem_csubq_c (v ! i) ! p" "0 \<le> t i p \<and> t i p < 2 ^ 12" if "i < k" "p < 256" for i p
    using csubq_reduced[of "v ! i" p] assms that by (simp_all add: t_def)
  have e: "fst (mlkem_to_bytes_c v k) = concat (map (\<lambda>i. concat (map (\<lambda>j. pack_12 (\<lambda>l. t i (2 * j + l))) [0..<128])) [0..<k])"
    using assms(1) by (auto simp: mlkem_to_bytes_c_def Let_def t_def intro!: arg_cong[where f = concat])
  show "length (fst (mlkem_to_bytes_c v k)) = 384 * k" unfolding e by (rule length_chunks) (use p12.length_encode[of _ 128] in simp)
  have m: "map (take_bit 12) (unpack_12 b) = unpack_12 b" for b
  proof -
    have m: "0xfff = (mask 12 :: int)" by (simp add: mask_eq_exp_minus_1)
    show ?thesis by (simp add: unpack_12_def m flip: take_bit_eq_mask)
  qed
  have "concat (map (\<lambda>j. unpack_12 (\<lambda>c. uint ((fst (mlkem_to_bytes_c v k) @ rest) ! (384 * i + 3 * j + c)))) [0..<128]) = mlkem_csubq_c (v ! i)"
    if i: "i < k" for i
  proof -
    have "0 \<le> t i p \<and> t i p < 2 ^ 12" if "p < 2 * 128" for p using t(2)[OF i] that by simp
    note enc = p12.vector_decode_encode[where t = t and g = 128 and rest = rest, OF this i]
    have "length (mlkem_csubq_c (v ! i)) = 256" using assms i by (auto simp: mlkem_csubq_c_def reduced_def)
    then have "map (t i) [0..<256] = mlkem_csubq_c (v ! i)" by (auto intro!: nth_equalityI simp: t(1)[OF i])
    then show ?thesis using enc by (simp add: map_concat comp_def m flip: e)
  qed
  then show "mlkem_from_bytes_c (fst (mlkem_to_bytes_c v k) @ rest) k = map mlkem_csubq_c v"
    unfolding mlkem_from_bytes_c_def using assms(1) by (auto intro!: nth_equalityI)
qed

section \<open>Messages\<close>

definition msg_bit :: "bytes \<Rightarrow> nat \<Rightarrow> bool" where
  "msg_bit msg n = bit (msg ! (n div 8)) (n mod 8)"

lemma FROM_MSG_BIT_eq: "FROM_MSG_BIT m j = (if bit m j then 1665 else 0)"
proof -
  have "drop_bit j m AND 1 = of_bool (bit m j)" by (auto simp: and_one_eq bit_iff_odd_drop_bit odd_iff_mod_2_eq_one)
  then show ?thesis by (simp add: FROM_MSG_BIT_def mlkem_opt_blocker_def sword16_def)
qed

lemma from_msg_nth:
  assumes "n < 256"
  shows "mlkem_from_msg_c msg ! n = (if msg_bit msg n then 1665 else 0)"
proof -
  let ?f = "\<lambda>i. unpack_msg (\<lambda>c. uint (msg ! (i + c)))"
  have n: "n div 8 < 32" "n mod 8 < 8" using assms by auto
  have u: "?f i = map (FROM_MSG_BIT (uint (msg ! i))) [0..<8]" for i unfolding unpack_msg_def upt_numerals(3) by simp
  have "concat (map ?f [0..<32]) ! (8 * (n div 8) + n mod 8) = ?f (n div 8) ! (n mod 8)"
    by (rule nth_chunks[OF _ n]) (simp add: u)
  also have "\<dots> = FROM_MSG_BIT (uint (msg ! (n div 8))) (n mod 8)" using n(2) unfolding u by simp
  finally have "concat (map ?f [0..<32]) ! n = FROM_MSG_BIT (uint (msg ! (n div 8))) (n mod 8)" by (simp only: mult_div_mod_eq)
  then show ?thesis using n(2) by (simp add: mlkem_from_msg_c_def FROM_MSG_BIT_eq msg_bit_def bit_uint_iff)
qed

lemma length_from_msg: "length (mlkem_from_msg_c msg) = 256"
  unfolding mlkem_from_msg_c_def using length_chunks[of 32 "\<lambda>i. unpack_msg (\<lambda>c. uint (msg ! (i + c)))" 8] by (simp add: unpack_msg_def)

lemma bit_fold_or: "bit (fold (\<lambda>j m. m OR g j) js (m :: u8)) n \<longleftrightarrow> bit m n \<or> (\<exists>j \<in> set js. bit (g j) n)"
  by (induction js arbitrary: m) (auto simp: bit_or_iff)

lemma pack_msg_eq:
  assumes "\<And>j. j < 8 \<Longrightarrow> uint (TO_MSG_BIT (t j)) = of_bool (bit b j)"
  shows "pack_msg t = [b]"
proof -
  have "TO_MSG_BIT (t j) = of_bool (bit b j)" if "j < 8" for j
    by (rule word_uint_eqI) (use assms[OF that] in \<open>cases "bit b j"; simp\<close>)
  then have t: "bit (byte_of (uint (push_bit j (TO_MSG_BIT (t j))))) n \<longleftrightarrow> bit b j \<and> n = j" if "j < 8" for j n
    using that by (auto simp: bit_byte_of bit_uint_iff bit_push_bit_iff bit_of_bool_iff)
  have "set [0, 1, 2, 3, 4, 5, 6, 7] = {j :: nat. j < 8}" unfolding upt_numerals(3)[symmetric] by auto
  then have "fold (\<lambda>j m. m OR byte_of (uint (push_bit j (TO_MSG_BIT (t j))))) [0, 1, 2, 3, 4, 5, 6, 7] 0 = b"
    by (intro bit_word_eqI) (simp only: bit_fold_or bit_0_eq, auto simp: t)
  then show ?thesis by (simp only: pack_msg_def)
qed

text \<open>A coefficient within 831 of \<open>0\<close> or \<open>1665\<close> gives that bit.\<close>

lemma Compress_1_bit:
  assumes "0 \<le> x" "x \<le> 3328" "\<bar>e\<bar> \<le> 831" "x mod 3329 = ((if b then 1665 else 0) + e) mod 3329"
  shows "Compress 1 x = of_bool b"
proof -
  have x: "x = ((if b then 1665 else 0) + e) mod 3329" using assms(1,2,4) by simp
  show ?thesis
  proof (cases b)
    case True
    then have "x = 1665 + e" using x assms(3) by simp
    then have "(2 * x + 1664) div 3329 = 1" using assms(3) by (intro int_div_pos_eq[where r = "2 * x + 1664 - 3329"]) auto
    then show ?thesis using True by (simp add: Compress_eq)
  next
    case False
    then have "x = e mod 3329" using x by simp
    then have "x = e \<or> x = e + 3329" using assms(3) mod_add_self2[of e 3329] mod_pos_pos_trivial[of e 3329] mod_pos_pos_trivial[of "e + 3329" 3329]
      by (cases "0 \<le> e") auto
    then have "(2 * x + 1664) div 3329 = 0 \<or> (2 * x + 1664) div 3329 = 2"
    proof
      assume "x = e"
      then show ?thesis using assms(1,3) by (intro disjI1 div_pos_pos_trivial) auto
    next
      assume "x = e + 3329"
      then show ?thesis using assms(2,3) by (intro disjI2 int_div_pos_eq[where r = "2 * x + 1664 - 6658"]) auto
    qed
    then show ?thesis using False by (auto simp: Compress_eq)
  qed
qed

lemma to_msg_close:
  assumes "reduced p" "length msg = 32"
    and close: "\<And>n. n < 256 \<Longrightarrow> \<exists>e. \<bar>e\<bar> \<le> 831 \<and> p ! n mod 3329 = (mlkem_from_msg_c msg ! n + e) mod 3329"
  shows "fst (mlkem_to_msg_c p) = msg"
proof -
  have b: "uint (TO_MSG_BIT (mlkem_csubq_c p ! n)) = of_bool (msg_bit msg n)" if n: "n < 256" for n
  proof -
    obtain e where e: "\<bar>e\<bar> \<le> 831" "p ! n mod 3329 = (mlkem_from_msg_c msg ! n + e) mod 3329" using close[OF n] by blast
    note c = csubq_reduced[OF assms(1) n]
    show ?thesis unfolding TO_MSG_BIT_eq[OF c(1,2)]
      by (rule Compress_1_bit[OF c(1,2) e(1)]) (use c(3) e(2) from_msg_nth[OF n] in simp)
  qed
  have "pack_msg (\<lambda>j. mlkem_csubq_c p ! (8 * i + j)) = [msg ! i]" if "i < 32" for i
  proof (rule pack_msg_eq)
    fix j :: nat assume "j < 8"
    moreover from this have "(8 * i + j) div 8 = i" "(8 * i + j) mod 8 = j" by simp_all
    ultimately show "uint (TO_MSG_BIT (mlkem_csubq_c p ! (8 * i + j))) = of_bool (bit (msg ! i) j)"
      using b[of "8 * i + j"] that by (simp add: msg_bit_def)
  qed
  then have "fst (mlkem_to_msg_c p) = concat (map (\<lambda>i. [msg ! i]) [0..<32])"
    by (auto simp: mlkem_to_msg_c_def Let_def simp del: concat_map_singleton intro!: arg_cong[where f = concat])
  also have "\<dots> = msg" using assms(2) by (auto simp: concat_map_singleton intro!: nth_equalityI)
  finally show ?thesis .
qed

end
