(* ===== verification/MlkemKem.thy ===== *)
theory MlkemKem
  imports MlkemKey MlkemPkeArith MlkemCbd MlkemRound
begin

text \<open>
  Correctness of ML-KEM-512: what key generation, encapsulation and decapsulation compute on residues, and that the two parties
  agree on the secret whenever the noise of the ciphertext is small.
\<close>

section \<open>Sampling\<close>

text \<open>The pseudo-random function succeeds and fills its buffer, as its description says.\<close>

definition prf_ok :: "'x hashes \<Rightarrow> bool" where
  "prf_ok hs \<longleftrightarrow> (\<forall>seed n. fst (prf_bytes hs seed n) = 0 \<and> length (snd (prf_bytes hs seed n)) = n)"

definition noise_poly :: "'x hashes \<Rightarrow> nat \<Rightarrow> bytes \<Rightarrow> int list" where
  "noise_poly hs eta seed = SamplePolyCBD eta (snd (prf_bytes hs seed (64 * eta)))"

lemma noise_poly_range: "length (noise_poly hs eta seed) = 256" "set (noise_poly hs eta seed) \<subseteq> {- int eta..int eta}"
proof -
  show "length (noise_poly hs eta seed) = 256" by (simp add: noise_poly_def SamplePolyCBD_def)
  have "cbd eta b i \<in> {- int eta..int eta}" for b i using cbd_bound[of eta b i] by auto
  then show "set (noise_poly hs eta seed) \<subseteq> {- int eta..int eta}" by (auto simp: noise_poly_def SamplePolyCBD_def)
qed

lemma get_noise_poly:
  assumes "prf_ok hs"
  shows "mlkem_get_noise_eta1_c hs p seed MLKEM_CBD_ETA3 = (0, noise_poly hs 3 seed)"
    "mlkem_get_noise_eta1_c hs p seed MLKEM_CBD_ETA2 = (0, noise_poly hs 2 seed)"
    "mlkem_get_noise_eta2_c hs p seed = (0, noise_poly hs 2 seed)"
proof -
  obtain r where r: "prf_bytes hs seed 192 = (0, r)" "length r = 192" using assms unfolding prf_ok_def by (metis prod.collapse)
  obtain r' where r': "prf_bytes hs seed 128 = (0, r')" "length r' = 128" using assms unfolding prf_ok_def by (metis prod.collapse)
  show "mlkem_get_noise_eta1_c hs p seed MLKEM_CBD_ETA3 = (0, noise_poly hs 3 seed)"
    using r by (simp add: mlkem_get_noise_eta1_c_def noise_poly_def cbd_eta3_samples)
  show "mlkem_get_noise_eta1_c hs p seed MLKEM_CBD_ETA2 = (0, noise_poly hs 2 seed)"
    using r' by (simp add: mlkem_get_noise_eta1_c_def noise_poly_def cbd_eta2_samples)
  show "mlkem_get_noise_eta2_c hs p seed = (0, noise_poly hs 2 seed)"
    using r' by (simp add: mlkem_get_noise_eta2_c_def noise_poly_def cbd_eta2_samples)
qed

text \<open>The counter byte of a seed.\<close>

definition with_counter :: "bytes \<Rightarrow> nat \<Rightarrow> bytes" where
  "with_counter seed n = seed[32 := of_nat n]"

lemma get_noise_vector:
  assumes "prf_ok hs" "length v = 2" "length seed = 33"
  shows "mlkem_get_noise hs 2 v None None seed =
    (0, [noise_poly hs 3 (with_counter seed 0), noise_poly hs 3 (with_counter seed 1)], None, None, with_counter seed 4)"
proof -
  obtain a b where v: "v = [a, b]" using assms(2) by (auto simp: length_Suc_conv numeral_2_eq_2)
  have "[0..<2] = [0, 1 :: nat]" by (simp add: upt_rec)
  then show ?thesis using assms(3)
    by (simp add: mlkem_get_noise_def mlkem_get_noise_c_def get_noise_poly[OF assms(1)] v with_counter_def)
qed

text \<open>A polynomial of the matrix: the sampling ends, with the same integers whatever the buffer held.\<close>

definition entry_ok :: "'x hashes \<Rightarrow> bytes \<Rightarrow> int list \<Rightarrow> bool" where
  "entry_ok hs ext a \<longleftrightarrow> (\<forall>p. length p = 256 \<longrightarrow> gen_poly hs ext p = Some (0, a)) \<and> length a = 256 \<and> set a \<subseteq> {0..3328}"

definition matrix_ok :: "'x hashes \<Rightarrow> bytes \<Rightarrow> int list list list \<Rightarrow> bool" where
  "matrix_ok hs rho A \<longleftrightarrow> alloc hs 506 \<and> (\<forall>i<2. \<forall>j<2. entry_ok hs (take 32 rho @ [of_nat j, of_nat i]) (A ! i ! j))"

lemma gen_matrix_rows:
  assumes "matrix_ok hs rho A" "i < 2" "length a = 2" "\<forall>p \<in> set a. length p = 256"
  shows "mlkem_gen_matrix_i hs a 2 rho i False = Some (0, [A ! i ! 0, A ! i ! 1])"
    "mlkem_gen_matrix_i hs a 2 rho i True = Some (0, [A ! 0 ! i, A ! 1 ! i])"
proof -
  obtain b c where a: "a = [b, c]" "length b = 256" "length c = 256" using assms(3,4) by (auto simp: length_Suc_conv numeral_2_eq_2)
  have u: "[0..<2] = [0, 1 :: nat]" by (simp add: upt_rec)
  have g: "gen_poly hs (take 32 rho @ [of_nat y, of_nat x]) p = Some (0, A ! x ! y)" if "length p = 256" "x < 2" "y < 2" for p x y
    using assms(1) that by (simp add: matrix_ok_def entry_ok_def)
  have al: "alloc hs (GEN_MATRIX_SIZE + 2)" using assms(1) by (simp add: matrix_ok_def)
  show "mlkem_gen_matrix_i hs a 2 rho i False = Some (0, [A ! i ! 0, A ! i ! 1])"
    using g[of b i 0] g[of c i 1] a assms(2) al by (simp add: mlkem_gen_matrix_i_def u)
  show "mlkem_gen_matrix_i hs a 2 rho i True = Some (0, [A ! 0 ! i, A ! 1 ! i])"
    using g[of b 0 i] g[of c 1 i] a assms(2) al by (simp add: mlkem_gen_matrix_i_def u)
qed

section \<open>Key generation\<close>

lemma reduced_small: "reduced p \<Longrightarrow> small p"
  by (auto simp: reduced_def small_def)

lemma entry_small: "matrix_ok hs seed A \<Longrightarrow> i < 2 \<Longrightarrow> j < 2 \<Longrightarrow> small (A ! i ! j)"
  by (force simp: matrix_ok_def entry_ok_def small_def)

lemma small_vec_2: "small a \<Longrightarrow> small b \<Longrightarrow> small_vec 2 [a, b]"
  by (auto simp: small_vec_def less_2_cases_iff)

lemma ntt_noise:
  assumes "length p = 256" "set p \<subseteq> {- 3..3}"
  shows "map Zq (mlkem_ntt p) = rntt (map Zq p)" "small (mlkem_ntt p)" "reduced (mlkem_ntt p)"
proof -
  note n = ntt_residues[OF assms(1), of 3] assms(2)
  show "map Zq (mlkem_ntt p) = rntt (map Zq p)" using n by simp
  show "reduced (mlkem_ntt p)" using n by (simp add: reduced_def)
  then show "small (mlkem_ntt p)" by (rule reduced_small)
qed

text \<open>A row of the matrix times the secret, in Montgomery form and back.\<close>

lemma row_product:
  assumes "small_vec 2 a" "small_vec 2 s" "length t = 256"
  defines "r \<equiv> map (\<lambda>x. MLKEM_MONT_RED (sword32 (x * MLKEM_F))) (mlkem_pointwise_acc_mont t a s 2)"
  shows "map Zq r = dot 2 (map (map Zq) a) (map (map Zq) s)" "small r"
proof -
  let ?x = "mlkem_pointwise_acc_mont t a s 2"
  have x: "map Zq ?x = map ((*) 169) (dot 2 (map (map Zq) a) (map (map Zq) s))" "set ?x \<subseteq> {- 4004..4004}" "length ?x = 256"
    using pointwise_acc_residues[of 2 a s t] assms(1-3) by simp_all
  have F: "MLKEM_F = 1353" by simp
  have m: "Zq (MLKEM_MONT_RED (sword32 (y * MLKEM_F))) = Zq y * (1353 * 169)" "\<bar>MLKEM_MONT_RED (sword32 (y * MLKEM_F))\<bar> \<le> 3329" if "y \<in> set ?x" for y
  proof -
    have "\<bar>y\<bar> \<le> 4004" using subsetD[OF x(2) that] by auto
    then have y: "\<bar>y * 1353\<bar> \<le> 4004 * 1353" by (simp add: abs_mult)
    then have s: "sword32 (y * 1353) = y * 1353" by (intro sword32_id) auto
    have b: "\<bar>y * 1353\<bar> \<le> 3329 * 32768" using y by simp
    show "Zq (MLKEM_MONT_RED (sword32 (y * MLKEM_F))) = Zq y * (1353 * 169)" unfolding F s mont_residue[OF b] by (simp only: of_int_mult of_int_numeral mult.assoc)
    show "\<bar>MLKEM_MONT_RED (sword32 (y * MLKEM_F))\<bar> \<le> 3329" unfolding F s by (rule mont.red_small[OF b])
  qed
  show "small r" using m(2) x(3) by (force simp: r_def small_def abs_le_iff)
  have one: "(169 :: zq) * (1353 * 169) = 1" by simp
  have c: "169 * z * (1353 * 169) = z" for z :: zq
  proof -
    have "169 * z * (1353 * 169) = 169 * (1353 * 169) * z" by (simp add: algebra_simps)
    then show ?thesis by (simp only: one mult_1_left)
  qed
  have "map Zq r = map (\<lambda>z. z * (1353 * 169)) (map Zq ?x)" using m(1) by (simp add: r_def)
  also have "\<dots> = map (\<lambda>z. 169 * z * (1353 * 169)) (dot 2 (map (map Zq) a) (map (map Zq) s))" unfolding x(1) by (simp only: map_map comp_def)
  finally show "map Zq r = dot 2 (map (map Zq) a) (map (map Zq) s)" by (simp only: c list.map_ident)
qed

lemma radd_commute: "radd a b = radd b a"
  by (simp add: radd_def add.commute)

lemma with_counter_again [simp]: "with_counter (with_counter s m) n = with_counter s n" "length (with_counter s n) = length s"
  by (simp_all add: with_counter_def)

abbreviation Zqs :: "int list list \<Rightarrow> zq list list" where
  "Zqs v \<equiv> map (map Zq) v"

lemma keygen_step:
  assumes "matrix_ok hs seed A" "prf_ok hs" "i < 2" "small_vec 2 s" "length (t ! i) = 256" "length tv = 2" "\<forall>p \<in> set tv. length p = 256"
  obtains ti e where "keygen_loop hs s 2 seed (i # is) t tv sigma = keygen_loop hs s 2 seed is (t[i := ti]) [e, A ! i ! 1] (with_counter sigma (2 + i))"
    "length e = 256" "reduced ti" "map Zq ti = radd (dot 2 [map Zq (A ! i ! 0), map Zq (A ! i ! 1)] (Zqs s)) (rntt (map Zq (noise_poly hs 3 (with_counter sigma (2 + i)))))"
proof -
  let ?a = "[A ! i ! 0, A ! i ! 1]" and ?n = "noise_poly hs 3 (with_counter sigma (2 + i))"
  let ?r = "map (\<lambda>x. MLKEM_MONT_RED (sword32 (x * MLKEM_F))) (mlkem_pointwise_acc_mont (t ! i) ?a s 2)"
  have a: "small_vec 2 ?a" using entry_small[OF assms(1,3)] by (intro small_vec_2) simp_all
  note row = row_product[OF a assms(4,5)]
  have n: "length ?n = 256" "set ?n \<subseteq> {- 3..3}" using noise_poly_range[of hs 3] by simp_all
  note ad = ntt_add_to_residues[OF n(1,2) _ row(2)]
  have g: "mlkem_get_noise_i hs 2 p sigma i True = (0, ?n, with_counter sigma (2 + i))" for p
    by (simp add: mlkem_get_noise_i_def get_noise_poly[OF assms(2)] with_counter_def Let_def)
  obtain e ti where e: "mlkem_ntt_add_to ?n ?r = (e, ti)" by fastforce
  have le: "length e = 256" using e n(1) by (auto simp: mlkem_ntt_add_to_def Let_def pass_128_layers pass_32_layers)
  show thesis
  proof (rule that[of ti e])
    show "keygen_loop hs s 2 seed (i # is) t tv sigma = keygen_loop hs s 2 seed is (t[i := ti]) [e, A ! i ! 1] (with_counter sigma (2 + i))"
      using gen_matrix_rows(1)[OF assms(1,3,6,7)] g e by (simp add: Let_def)
    show "reduced ti" using ad(2,3) e by (simp add: reduced_def)
    show "map Zq ti = radd (dot 2 [map Zq (A ! i ! 0), map Zq (A ! i ! 1)] (Zqs s)) (rntt (map Zq ?n))"
      using ad(1) e row(1) by (simp add: radd_commute)
  qed (rule le)
qed

lemma keygen_eq:
  assumes "matrix_ok hs seed A" "prf_ok hs" "small_vec 2 (map mlkem_ntt s)" "length t = 2" "\<forall>p \<in> set t. length p = 256" "length tv = 2" "\<forall>p \<in> set tv. length p = 256"
  obtains t0 t1 where "mlkem_keygen_seeds hs s t tv 2 seed sigma = Some (0, map mlkem_ntt s, [t0, t1])" "reduced t0" "reduced t1"
    "map Zq t0 = radd (dot 2 [map Zq (A ! 0 ! 0), map Zq (A ! 0 ! 1)] (Zqs (map mlkem_ntt s))) (rntt (map Zq (noise_poly hs 3 (with_counter sigma 2))))"
    "map Zq t1 = radd (dot 2 [map Zq (A ! 1 ! 0), map Zq (A ! 1 ! 1)] (Zqs (map mlkem_ntt s))) (rntt (map Zq (noise_poly hs 3 (with_counter sigma 3))))"
proof -
  let ?s = "map mlkem_ntt s"
  obtain a b where t: "t = [a, b]" "length a = 256" "length b = 256" using assms(4,5) by (auto simp: length_Suc_conv numeral_2_eq_2)
  have l: "(0 :: nat) < 2" "(1 :: nat) < 2" "length (t ! 0) = 256" using t by simp_all
  obtain t0 e where 1: "keygen_loop hs ?s 2 seed [0, 1] t tv sigma = keygen_loop hs ?s 2 seed [1] (t[0 := t0]) [e, A ! 0 ! 1] (with_counter sigma (2 + 0))"
    "length e = 256" "reduced t0" "map Zq t0 = radd (dot 2 [map Zq (A ! 0 ! 0), map Zq (A ! 0 ! 1)] (Zqs ?s)) (rntt (map Zq (noise_poly hs 3 (with_counter sigma (2 + 0)))))"
    by (rule keygen_step[OF assms(1,2) l(1) assms(3) l(3) assms(6,7)])
  have v: "length [e, A ! 0 ! 1] = 2" "\<forall>p \<in> set [e, A ! 0 ! 1]. length p = 256" using 1(2) entry_small[OF assms(1), of 0 1] by (auto simp: small_def)
  have l1: "length (t[0 := t0] ! 1) = 256" using t by simp
  obtain t1 e' where 2: "keygen_loop hs ?s 2 seed [1] (t[0 := t0]) [e, A ! 0 ! 1] (with_counter sigma (2 + 0)) =
      keygen_loop hs ?s 2 seed [] (t[0 := t0, 1 := t1]) [e', A ! 1 ! 1] (with_counter (with_counter sigma (2 + 0)) (2 + 1))"
    "length e' = 256" "reduced t1" "map Zq t1 = radd (dot 2 [map Zq (A ! 1 ! 0), map Zq (A ! 1 ! 1)] (Zqs ?s))
       (rntt (map Zq (noise_poly hs 3 (with_counter (with_counter sigma (2 + 0)) (2 + 1)))))"
    by (rule keygen_step[OF assms(1,2) l(2) assms(3) l1 v])
  have c: "2 + 0 = (2 :: nat)" "2 + 1 = (3 :: nat)" by simp_all
  note 1 = 1[unfolded c] and 2 = 2[unfolded c with_counter_again]
  have u: "[0..<2] = [0, 1 :: nat]" by (simp add: upt_rec)
  have "keygen_loop hs ?s 2 seed [0, 1] t tv sigma = Some (0, [t0, t1], [e', A ! 1 ! 1], with_counter sigma 3)"
    unfolding 1(1) 2(1) by (simp add: t)
  then have "mlkem_keygen_seeds hs s t tv 2 seed sigma = Some (0, ?s, [t0, t1])" unfolding mlkem_keygen_seeds_def Let_def u by simp
  then show thesis using that 1(3,4) 2(3,4) by blast
qed

section \<open>Encapsulation\<close>

lemma add_reduce_residues:
  assumes "length u = 256" "set u \<subseteq> {- 3329..3329}" "length e = 256" "set e \<subseteq> {- 3..3}"
  shows "map Zq (add_reduce u e) = radd (map Zq u) (map Zq e)" "reduced (add_reduce u e)"
proof -
  have b: "\<bar>u ! p + e ! p\<bar> \<le> 32767" if "p < 256" for p
    using subsetD[OF assms(2) nth_mem[of p u]] subsetD[OF assms(4) nth_mem[of p e]] that assms(1,3) by auto
  show "map Zq (add_reduce u e) = radd (map Zq u) (map Zq e)"
    using barrett_sum(1)[OF b] assms(1,3) by (auto simp: add_reduce_def intro!: nth_equalityI)
  show "reduced (add_reduce u e)" using barrett_sum(2)[OF b] by (auto simp: add_reduce_def reduced_def)
qed

lemma inner_product:
  assumes "small_vec 2 a" "small_vec 2 y" "length t = 256"
  shows "map Zq (mlkem_invntt (mlkem_pointwise_acc_mont t a y 2)) = rinvntt (map ((*) 169) (dot 2 (Zqs a) (Zqs y)))"
    "set (mlkem_invntt (mlkem_pointwise_acc_mont t a y 2)) \<subseteq> {- 3329..3329}" "length (mlkem_invntt (mlkem_pointwise_acc_mont t a y 2)) = 256"
proof -
  let ?x = "mlkem_pointwise_acc_mont t a y 2"
  have x: "map Zq ?x = map ((*) 169) (dot 2 (Zqs a) (Zqs y))" "set ?x \<subseteq> {- 4004..4004}" "length ?x = 256"
    using pointwise_acc_residues[of 2 a y t] assms by simp_all
  have "set ?x \<subseteq> {- 4095..4095}" using x(2) by auto
  note i = invntt_residues[OF x(3) this]
  show "map Zq (mlkem_invntt ?x) = rinvntt (map ((*) 169) (dot 2 (Zqs a) (Zqs y)))" using i(1) x(1) by simp
  show "set (mlkem_invntt ?x) \<subseteq> {- 3329..3329}" "length (mlkem_invntt ?x) = 256" by (rule i)+
qed

text \<open>Column \<open>i\<close> of the matrix, and the residues of polynomial \<open>i\<close> of the first part of a ciphertext.\<close>

abbreviation column :: "int list list list \<Rightarrow> nat \<Rightarrow> int list list" where
  "column A i \<equiv> [A ! 0 ! i, A ! 1 ! i]"

definition u_residues :: "'x hashes \<Rightarrow> int list list list \<Rightarrow> zq list list \<Rightarrow> bytes \<Rightarrow> nat \<Rightarrow> zq list" where
  "u_residues hs A y coins i = radd (rinvntt (map ((*) 169) (dot 2 (Zqs (column A i)) y))) (map Zq (noise_poly hs 2 (with_counter coins (2 + i))))"

lemma encapsulate_step:
  assumes "matrix_ok hs seed A" "prf_ok hs" "i < 2" "small_vec 2 y" "length (u ! i) = 256" "length tp = 2" "\<forall>p \<in> set tp. length p = 256"
  obtains ui e where "encapsulate_loop hs y 2 seed (i # is) u tp coins = encapsulate_loop hs y 2 seed is (u[i := ui]) [e, A ! 1 ! i] (with_counter coins (2 + i))"
    "length e = 256" "reduced ui" "map Zq ui = u_residues hs A (Zqs y) coins i"
proof -
  let ?a = "column A i" and ?n = "noise_poly hs 2 (with_counter coins (2 + i))"
  let ?r = "mlkem_invntt (mlkem_pointwise_acc_mont (u ! i) ?a y 2)"
  have a: "small_vec 2 ?a" using entry_small[OF assms(1) _ assms(3)] by (intro small_vec_2) simp_all
  note ip = inner_product[OF a assms(4,5)]
  have n: "length ?n = 256" "set ?n \<subseteq> {- 3..3}" using noise_poly_range[of hs 2 "with_counter coins (2 + i)"] by auto
  note ar = add_reduce_residues[OF ip(3,2) n]
  have g: "mlkem_get_noise_i hs 2 p coins i False = (0, ?n, with_counter coins (2 + i))" for p
    by (simp add: mlkem_get_noise_i_def get_noise_poly[OF assms(2)] with_counter_def Let_def)
  show thesis
  proof (rule that[of "add_reduce ?r ?n" ?n])
    show "encapsulate_loop hs y 2 seed (i # is) u tp coins = encapsulate_loop hs y 2 seed is (u[i := add_reduce ?r ?n]) [?n, A ! 1 ! i] (with_counter coins (2 + i))"
      using gen_matrix_rows(2)[OF assms(1,3,6,7)] g by (simp add: Let_def)
    show "map Zq (add_reduce ?r ?n) = u_residues hs A (Zqs y) coins i" using ar(1) ip(1) by (simp add: u_residues_def)
  qed (rule n(1), rule ar(2))
qed

text \<open>The masked message.\<close>

definition v_residues :: "'x hashes \<Rightarrow> zq list list \<Rightarrow> zq list list \<Rightarrow> bytes \<Rightarrow> bytes \<Rightarrow> zq list" where
  "v_residues hs t y msg coins = radd (rinvntt (map ((*) 169) (dot 2 t y))) (radd (map Zq (noise_poly hs 2 (with_counter coins 4))) (map Zq (mlkem_from_msg_c msg)))"

lemma masked_message:
  fixes msg :: bytes
  assumes "length v = 256" "set v \<subseteq> {- 3329..3329}" "length e = 256" "set e \<subseteq> {- 3..3}"
  defines "r \<equiv> map (\<lambda>i. MLKEM_BARRETT_RED (sword16 (v ! i + e ! i + mlkem_from_msg_c msg ! i))) [0..<MLKEM_N]"
  shows "map Zq r = radd (map Zq v) (radd (map Zq e) (map Zq (mlkem_from_msg_c msg)))" "reduced r"
proof -
  have m: "0 \<le> mlkem_from_msg_c msg ! p" "mlkem_from_msg_c msg ! p \<le> 1665" if "p < 256" for p using from_msg_nth[OF that] by simp_all
  have b: "\<bar>v ! p + e ! p + mlkem_from_msg_c msg ! p\<bar> \<le> 32767" if "p < 256" for p
    using subsetD[OF assms(2) nth_mem[of p v]] subsetD[OF assms(4) nth_mem[of p e]] that assms(1,3) m[OF that] by auto
  show "map Zq r = radd (map Zq v) (radd (map Zq e) (map Zq (mlkem_from_msg_c msg)))"
    using barrett_sum(1)[OF b] assms(1,3) length_from_msg[of msg] by (auto simp: r_def add.assoc intro!: nth_equalityI)
  show "reduced r" using barrett_sum(2)[OF b] by (auto simp: r_def reduced_def)
qed

lemma u_residues_counter [simp]: "u_residues hs A y (with_counter coins n) i = u_residues hs A y coins i"
  by (simp add: u_residues_def)

lemma encapsulate_eq:
  assumes "matrix_ok hs seed A" "prf_ok hs" "small_vec 2 pk" "small_vec 2 (map mlkem_ntt y)" "length u = 2" "\<forall>p \<in> set u. length p = 256"
    "length tp = 2" "\<forall>p \<in> set tp. length p = 256"
  obtains u0 u1 v where "mlkem_encapsulate_seeds hs pk u tp y 2 msg seed coins = Some (0, [u0, u1], v)" "reduced u0" "reduced u1" "reduced v"
    "map Zq u0 = u_residues hs A (Zqs (map mlkem_ntt y)) coins 0" "map Zq u1 = u_residues hs A (Zqs (map mlkem_ntt y)) coins 1"
    "map Zq v = v_residues hs (Zqs pk) (Zqs (map mlkem_ntt y)) msg coins"
proof -
  let ?y = "map mlkem_ntt y"
  obtain a b where u: "u = [a, b]" "length a = 256" "length b = 256" using assms(5,6) by (auto simp: length_Suc_conv numeral_2_eq_2)
  have l: "(0 :: nat) < 2" "(1 :: nat) < 2" "length (u ! 0) = 256" using u by simp_all
  obtain u0 e where 1: "encapsulate_loop hs ?y 2 seed [0, 1] u tp coins = encapsulate_loop hs ?y 2 seed [1] (u[0 := u0]) [e, A ! 1 ! 0] (with_counter coins (2 + 0))"
    "length e = 256" "reduced u0" "map Zq u0 = u_residues hs A (Zqs ?y) coins 0"
    by (rule encapsulate_step[OF assms(1,2) l(1) assms(4) l(3) assms(7,8)])
  have v: "length [e, A ! 1 ! 0] = 2" "\<forall>p \<in> set [e, A ! 1 ! 0]. length p = 256" using 1(2) entry_small[OF assms(1), of 1 0] by (auto simp: small_def)
  have l1: "length (u[0 := u0] ! 1) = 256" using u by simp
  obtain u1 e' where 2: "encapsulate_loop hs ?y 2 seed [1] (u[0 := u0]) [e, A ! 1 ! 0] (with_counter coins (2 + 0)) =
      encapsulate_loop hs ?y 2 seed [] (u[0 := u0, 1 := u1]) [e', A ! 1 ! 1] (with_counter (with_counter coins (2 + 0)) (2 + 1))"
    "length e' = 256" "reduced u1" "map Zq u1 = u_residues hs A (Zqs ?y) (with_counter coins (2 + 0)) 1"
    by (rule encapsulate_step[OF assms(1,2) l(2) assms(4) l1 v])
  have c: "2 + 1 = (3 :: nat)" by simp
  have "encapsulate_loop hs ?y 2 seed [0, 1] u tp coins = Some (0, [u0, u1], [e', A ! 1 ! 1], with_counter coins 3)"
    unfolding 1(1) 2(1) c by (simp add: u)
  note loop = this
  let ?v = "mlkem_invntt (mlkem_pointwise_acc_mont e' pk ?y 2)" and ?n = "noise_poly hs 2 (with_counter coins 4)"
  let ?r = "map (\<lambda>i. MLKEM_BARRETT_RED (sword16 (?v ! i + ?n ! i + mlkem_from_msg_c msg ! i))) [0..<MLKEM_N]"
  note ip = inner_product[OF assms(3,4) 2(2)]
  have n: "length ?n = 256" "set ?n \<subseteq> {- 3..3}" using noise_poly_range[of hs 2 "with_counter coins 4"] by auto
  note mm = masked_message[OF ip(3,2) n, of msg]
  have u2: "[0..<2] = [0, 1 :: nat]" by (simp add: upt_rec)
  have cc: "(with_counter coins 3)[WC_ML_KEM_SYM_SZ := of_nat (2 * 2)] = with_counter coins 4" by (simp add: with_counter_def)
  have "mlkem_encapsulate_seeds hs pk u tp y 2 msg seed coins = Some (0, [u0, u1], ?r)"
    unfolding mlkem_encapsulate_seeds_def Let_def u2 loop option.case prod.case cc get_noise_poly(3)[OF assms(2)] by simp
  then show thesis using that 1(3,4) 2(3,4) mm ip(1) by (simp add: v_residues_def)
qed

section \<open>Decapsulation\<close>

lemma acc_inplace_eq: "length (b ! 0) = 256 \<Longrightarrow> pointwise_acc_inplace a b k = mlkem_pointwise_acc_mont (b ! 0) a b k"
  by (simp add: pointwise_acc_inplace_def mlkem_pointwise_acc_mont_def basemul_inplace_eq)

lemma decapsulate_eq:
  assumes "small_vec 2 s" "reduced u0" "reduced u1" "reduced v"
  shows "map Zq (mlkem_decapsulate_c s [u0, u1] v 2) =
      rsub (map Zq v) (rinvntt (map ((*) 169) (dot 2 (Zqs s) [rntt (map Zq u0), rntt (map Zq u1)])))" "reduced (mlkem_decapsulate_c s [u0, u1] v 2)"
proof -
  have n: "map Zq (mlkem_ntt u) = rntt (map Zq u) \<and> small (mlkem_ntt u)" if "reduced u" for u
  proof -
    have "length u = 256" "set u \<subseteq> {- 9464..9464}" using that by (auto simp: reduced_def)
    from ntt_residues[OF this order_refl] show ?thesis by (auto simp: small_def)
  qed
  let ?u = "[mlkem_ntt u0, mlkem_ntt u1]" and ?w = "mlkem_invntt (mlkem_pointwise_acc_mont (mlkem_ntt u0) s [mlkem_ntt u0, mlkem_ntt u1] 2)"
  have l: "length (mlkem_ntt u0) = 256" and sv: "small_vec 2 ?u" using n[OF assms(2)] n[OF assms(3)] by (auto intro: small_vec_2 simp: small_def)
  note ip = inner_product[OF assms(1) sv l]
  have v: "length v = 256" "set v \<subseteq> {0..3329}" using assms(4) by (auto simp: reduced_def)
  have b: "\<bar>v ! p - ?w ! p\<bar> \<le> 32767" if "p < 256" for p
    using subsetD[OF ip(2) nth_mem[of p ?w]] subsetD[OF v(2) nth_mem[of p v]] that ip(3) v(1) by auto
  have e: "mlkem_decapsulate_c s [u0, u1] v 2 = map (\<lambda>p. MLKEM_BARRETT_RED (sword16 (v ! p - ?w ! p))) [0..<256]"
    using acc_inplace_eq[of ?u s 2] l by (simp add: mlkem_decapsulate_c_def Let_def)
  show "reduced (mlkem_decapsulate_c s [u0, u1] v 2)" unfolding e using barrett_sum(2)[OF b] by (auto simp: reduced_def)
  have "rinvntt (map ((*) 169) (dot 2 (Zqs s) [rntt (map Zq u0), rntt (map Zq u1)])) = map Zq ?w"
    using ip(1) n[OF assms(2)] n[OF assms(3)] by simp
  then show "map Zq (mlkem_decapsulate_c s [u0, u1] v 2) = rsub (map Zq v) (rinvntt (map ((*) 169) (dot 2 (Zqs s) [rntt (map Zq u0), rntt (map Zq u1)])))"
    unfolding e using barrett_sum(1)[OF b] v(1) ip(3) by (auto intro!: nth_equalityI)
qed

section \<open>The message comes back\<close>

text \<open>
  The noise of a ciphertext: \<open>e\<close> is the noise of the key, \<open>y\<close> the secret of the sender, \<open>s\<close> that of the receiver; \<open>f\<close> is the noise of the
  first part of the ciphertext with what its compression lost, \<open>g\<close> that of the second.
\<close>

definition decrypt_noise :: "zq list list \<Rightarrow> zq list list \<Rightarrow> zq list list \<Rightarrow> zq list list \<Rightarrow> zq list \<Rightarrow> zq list" where
  "decrypt_noise e y s f g =
     rsub (radd (radd (pmul (e ! 0) (y ! 0)) (pmul (e ! 1) (y ! 1))) g) (radd (pmul (s ! 0) (f ! 0)) (pmul (s ! 1) (f ! 1)))"

lemma unmask:
  assumes s: "length s0 = 256" "length s1 = 256" and y: "length y0 = 256" "length y1 = 256" and e: "length e0 = 256" "length e1 = 256"
    and f: "length f0 = 256" "length f1 = 256" and g: "length g = 256" and m: "length m = 256"
    and t: "t0 = radd (dot 2 [a00, a01] [rntt s0, rntt s1]) (rntt e0)" "t1 = radd (dot 2 [a10, a11] [rntt s0, rntt s1]) (rntt e1)"
    and u: "u0 = radd (rinvntt (map ((*) 169) (dot 2 [a00, a10] [rntt y0, rntt y1]))) f0"
      "u1 = radd (rinvntt (map ((*) 169) (dot 2 [a01, a11] [rntt y0, rntt y1]))) f1"
    and v: "v = radd (rinvntt (map ((*) 169) (dot 2 [t0, t1] [rntt y0, rntt y1]))) (radd g m)"
  shows "rsub v (rinvntt (map ((*) 169) (dot 2 [rntt s0, rntt s1] [rntt u0, rntt u1]))) = radd m (decrypt_noise [e0, e1] [y0, y1] [s0, s1] [f0, f1] g)"
    (is "?l = ?r")
proof (rule rntt_inject)
  let ?S = "[rntt s0, rntt s1]" and ?Y = "[rntt y0, rntt y1]" and ?E = "[rntt e0, rntt e1]" and ?F = "[rntt f0, rntt f1]"
  have U: "rntt u0 = radd (dot 2 [a00, a10] ?Y) (rntt f0)" "rntt u1 = radd (dot 2 [a01, a11] ?Y) (rntt f1)"
    using f by (simp_all add: u rntt_linear rntt_rinvntt)
  have V: "rntt v = radd (dot 2 [t0, t1] ?Y) (rntt (radd g m))" using g m by (simp add: v rntt_linear rntt_rinvntt)
  have "rntt ?l = rsub (rntt v) (dot 2 ?S [rntt u0, rntt u1])" by (simp add: rntt_linear rntt_rinvntt v)
  also have "\<dots> = rsub (radd (dot 2 [t0, t1] ?Y) (rntt (radd g m))) (dot 2 ?S [rntt u0, rntt u1])" unfolding V ..
  also have "\<dots> = rsub (radd (dot 2 ?E ?Y) (rntt (radd g m))) (dot 2 ?S ?F)"
    by (rule mask_cancels[where A = "[[a00, a01], [a10, a11]]"]) (auto simp: less_2_cases_iff t U)
  also have "\<dots> = rntt ?r"
    using s y e f g m by (auto intro!: nth_equalityI simp: decrypt_noise_def rntt_linear rntt_pmul dot_2)
  finally show "rntt ?l = rntt ?r" .
qed simp_all

end
