(* ===== verification/MlkemAgree.thy ===== *)
theory MlkemAgree
  imports MlkemKem
begin

text \<open>
  Agreement on the secret: key generation, encoding of the public key, encapsulation by the peer and decapsulation, through the
  operations of the key object.
\<close>

section \<open>Compression\<close>

definition loss_of :: "nat \<Rightarrow> int list \<Rightarrow> zq list" where
  "loss_of d p = rsub (map Zq (compressed d p)) (map Zq p)"

lemma loss_of_add: "length p = 256 \<Longrightarrow> map Zq (compressed d p) = radd (map Zq p) (loss_of d p)" "length (loss_of d p) = 256"
  by (auto simp: loss_of_def intro!: nth_equalityI)

lemma compressed_reduced:
  assumes "d \<in> {4, 10}"
  shows "reduced (compressed d p)"
proof -
  have "0 \<le> Decompress d (Compress d x) \<and> Decompress d (Compress d x) \<le> 3329" for x
    using Compress_range[of d x] assms by (auto simp: Decompress_eq pos_imp_zdiv_nonneg_iff)
  then show ?thesis by (auto simp: reduced_def)
qed

section \<open>The message\<close>

definition ciphertext_noise :: "'x hashes \<Rightarrow> bytes \<Rightarrow> bytes \<Rightarrow> int list list \<Rightarrow> int list \<Rightarrow> zq list" where
  "ciphertext_noise hs sigma coins u v =
     decrypt_noise
       [map Zq (noise_poly hs 3 (with_counter sigma 2)), map Zq (noise_poly hs 3 (with_counter sigma 3))]
       [map Zq (noise_poly hs 3 (with_counter coins 0)), map Zq (noise_poly hs 3 (with_counter coins 1))]
       [map Zq (noise_poly hs 3 (with_counter sigma 0)), map Zq (noise_poly hs 3 (with_counter sigma 1))]
       [radd (map Zq (noise_poly hs 2 (with_counter coins 2))) (loss_of 10 (u ! 0)),
        radd (map Zq (noise_poly hs 2 (with_counter coins 3))) (loss_of 10 (u ! 1))]
       (radd (map Zq (noise_poly hs 2 (with_counter coins 4))) (loss_of 4 v))"

definition small_noise :: "zq list \<Rightarrow> bool" where
  "small_noise n \<longleftrightarrow> (\<forall>p<256. \<exists>e. \<bar>e\<bar> \<le> 831 \<and> n ! p = Zq e)"

definition secret_of :: "'x hashes \<Rightarrow> bytes \<Rightarrow> int list list" where
  "secret_of hs seed = [noise_poly hs 3 (with_counter seed 0), noise_poly hs 3 (with_counter seed 1)]"

lemma secret_small: "small_vec 2 (map mlkem_ntt (secret_of hs seed))"
  and secret_residues: "Zqs (map mlkem_ntt (secret_of hs seed)) = map (\<lambda>p. rntt (map Zq p)) (secret_of hs seed)"
  using ntt_noise[OF noise_poly_range[of hs 3, simplified]] by (auto simp: secret_of_def intro: small_vec_2)

lemma radd_assoc: "radd (radd a b) c = radd a (radd b c)"
  by (auto intro!: nth_equalityI)

lemma message_returns:
  assumes A: "matrix_ok hs seed A" and pk: "map Zq t0 = radd (dot 2 [map Zq (A ! 0 ! 0), map Zq (A ! 0 ! 1)] (Zqs (map mlkem_ntt (secret_of hs sigma)))) (rntt (map Zq (noise_poly hs 3 (with_counter sigma 2))))"
      "map Zq t1 = radd (dot 2 [map Zq (A ! 1 ! 0), map Zq (A ! 1 ! 1)] (Zqs (map mlkem_ntt (secret_of hs sigma)))) (rntt (map Zq (noise_poly hs 3 (with_counter sigma 3))))"
    and ct: "reduced u0" "reduced u1" "reduced v" "map Zq u0 = u_residues hs A (Zqs (map mlkem_ntt (secret_of hs coins))) coins 0"
      "map Zq u1 = u_residues hs A (Zqs (map mlkem_ntt (secret_of hs coins))) coins 1"
      "map Zq v = v_residues hs [map Zq t0, map Zq t1] (Zqs (map mlkem_ntt (secret_of hs coins))) msg coins"
    and msg: "length msg = 32" and noise: "small_noise (ciphertext_noise hs sigma coins [u0, u1] v)"
  shows "fst (mlkem_to_msg_c (mlkem_decapsulate_c (map mlkem_ntt (secret_of hs sigma)) (map (compressed 10) [u0, u1]) (compressed 4 v) 2)) = msg"
proof -
  let ?s = "secret_of hs sigma" and ?y = "secret_of hs coins"
  let ?w = "mlkem_decapsulate_c (map mlkem_ntt ?s) [compressed 10 u0, compressed 10 u1] (compressed 4 v) 2"
  have l: "length u0 = 256" "length u1 = 256" "length v = 256" using ct(1-3) by (simp_all add: reduced_def)
  note d = decapsulate_eq[OF secret_small[of hs sigma] compressed_reduced[of 10 u0] compressed_reduced[of 10 u1] compressed_reduced[of 4 v]]
  let ?n = "\<lambda>eta seed i. map Zq (noise_poly hs eta (with_counter seed i))"
  have ln: "length (?n eta sd i) = 256" for eta sd i by (simp add: noise_poly_range)
  have sy: "Zqs (map mlkem_ntt ?s) = [rntt (?n 3 sigma 0), rntt (?n 3 sigma 1)]" "Zqs (map mlkem_ntt ?y) = [rntt (?n 3 coins 0), rntt (?n 3 coins 1)]"
    unfolding secret_residues by (simp_all add: secret_of_def)
  have c: "2 + 0 = (2 :: nat)" "2 + 1 = (3 :: nat)" by simp_all
  have zw: "map Zq ?w = radd (map Zq (mlkem_from_msg_c msg)) (ciphertext_noise hs sigma coins [u0, u1] v)"
  proof -
    have u: "map Zq (compressed 10 u0) = radd (rinvntt (map ((*) 169) (dot 2 [map Zq (A ! 0 ! 0), map Zq (A ! 1 ! 0)] [rntt (?n 3 coins 0), rntt (?n 3 coins 1)])))
        (radd (?n 2 coins 2) (loss_of 10 u0))"
      "map Zq (compressed 10 u1) = radd (rinvntt (map ((*) 169) (dot 2 [map Zq (A ! 0 ! 1), map Zq (A ! 1 ! 1)] [rntt (?n 3 coins 0), rntt (?n 3 coins 1)])))
        (radd (?n 2 coins 3) (loss_of 10 u1))"
      unfolding loss_of_add(1)[OF l(1)] loss_of_add(1)[OF l(2)] ct(4,5) u_residues_def sy radd_assoc c by simp_all
    have v: "map Zq (compressed 4 v) = radd (rinvntt (map ((*) 169) (dot 2 [map Zq t0, map Zq t1] [rntt (?n 3 coins 0), rntt (?n 3 coins 1)])))
        (radd (radd (?n 2 coins 4) (loss_of 4 v)) (map Zq (mlkem_from_msg_c msg)))"
      unfolding loss_of_add(1)[OF l(3)] ct(6) v_residues_def sy radd_assoc radd_commute[of "map Zq (mlkem_from_msg_c msg)"] ..
    have lm: "length (map Zq (mlkem_from_msg_c msg)) = 256" by (simp add: length_from_msg)
    have lf: "length (radd a b) = 256" for a b by simp
    have nc: "ciphertext_noise hs sigma coins [u0, u1] v = decrypt_noise [?n 3 sigma 2, ?n 3 sigma 3] [?n 3 coins 0, ?n 3 coins 1] [?n 3 sigma 0, ?n 3 sigma 1]
        [radd (?n 2 coins 2) (loss_of 10 u0), radd (?n 2 coins 3) (loss_of 10 u1)] (radd (?n 2 coins 4) (loss_of 4 v))"
      by (simp add: ciphertext_noise_def)
    have "map Zq ?w = rsub (map Zq (compressed 4 v)) (rinvntt (map ((*) 169) (dot 2 [rntt (?n 3 sigma 0), rntt (?n 3 sigma 1)]
        [rntt (map Zq (compressed 10 u0)), rntt (map Zq (compressed 10 u1))])))" using d(1) unfolding sy by simp
    also have "\<dots> = radd (map Zq (mlkem_from_msg_c msg)) (ciphertext_noise hs sigma coins [u0, u1] v)"
      unfolding nc by (rule unmask[OF ln ln ln ln ln ln lf lf lf lm pk(1)[unfolded sy] pk(2)[unfolded sy] u v])
    finally show ?thesis .
  qed
  have rw: "reduced ?w" using d(2) by simp
  have "fst (mlkem_to_msg_c ?w) = msg"
  proof (rule to_msg_close[OF rw msg])
    fix p :: nat assume p: "p < 256"
    obtain e where e: "\<bar>e\<bar> \<le> 831" "ciphertext_noise hs sigma coins [u0, u1] v ! p = Zq e" using noise p by (auto simp: small_noise_def)
    have "Zq (?w ! p) = map Zq ?w ! p" using rw p by (simp add: reduced_def)
    also have "\<dots> = Zq (mlkem_from_msg_c msg ! p + e)" unfolding zw using p e(2) by (simp add: length_from_msg)
    finally show "\<exists>e. \<bar>e\<bar> \<le> 831 \<and> ?w ! p mod 3329 = (mlkem_from_msg_c msg ! p + e) mod 3329" using e(1) Zq_eq_iff by blast
  qed
  then show ?thesis by simp
qed

section \<open>Comparison and selection\<close>

lemma fold_or_zero: "fold (\<lambda>i r. r OR f i) xs (r :: u8) = 0 \<longleftrightarrow> r = 0 \<and> (\<forall>i \<in> set xs. f i = 0)"
  by (induction xs arbitrary: r) (auto simp: or_eq_0_iff)

lemma xor_zero: "(a :: u8) XOR b = 0 \<longleftrightarrow> a = b"
  by (auto simp: bit_eq_iff bit_xor_iff)

lemma cmp_eq:
  assumes "length a = n" "length b = n"
  shows "mlkem_cmp_c a b n = (if a = b then 0 else - 1)"
proof -
  define r where "r = fold (\<lambda>i r. r OR (a ! i XOR b ! i)) [0..<n] (0 :: u8)"
  have "r = 0 \<longleftrightarrow> (\<forall>i \<in> set [0..<n]. a ! i XOR b ! i = 0)" unfolding r_def fold_or_zero by blast
  also have "\<dots> \<longleftrightarrow> (\<forall>i<n. a ! i = b ! i)" unfolding xor_zero by auto
  finally have z: "r = 0 \<longleftrightarrow> a = b" unfolding list_eq_iff_nth_eq[of a b] assms by blast
  have m: "mlkem_cmp_c a b n = sint (0 - drop_bit 31 (- ucast r :: u32))" unfolding mlkem_cmp_c_def r_def Let_def ..
  show ?thesis
  proof (cases "a = b")
    case True
    then show ?thesis using z m by simp
  next
    case False
    then have "r \<noteq> 0" using z by simp
    then have "uint r \<noteq> 0" by (simp add: unsigned_eq_0_iff)
    then have r: "0 < uint r" "uint r < 256" using uint_ge_0[of r] uint_lt2p[of r] by (linarith, simp)
    have "uint (ucast r :: u32) = uint r" by (simp add: unsigned_ucast_eq take_bit_int_eq_self_iff)  (use r in linarith)
    then have "uint (- ucast r :: u32) = (- uint r) mod 4294967296" by (simp add: uint_word_ariths(4))
    also have "\<dots> = 4294967296 - uint r" using r by (intro int_mod_pos_eq[where q = "- 1"]) auto
    finally have u: "uint (- ucast r :: u32) = 4294967296 - uint r" .
    have "uint (drop_bit 31 (- ucast r :: u32)) = uint (- ucast r :: u32) div 2 ^ 31"
      unfolding drop_bit_eq_div uint_div_distrib by simp
    also have "\<dots> = 1" unfolding u using r by (intro int_div_pos_eq[where r = "2147483648 - uint r"]) auto
    finally have "uint (drop_bit 31 (- ucast r :: u32)) = 1" .
    then have "drop_bit 31 (- ucast r :: u32) = 1" by (intro word_uint_eqI) simp
    then show ?thesis using False m by simp
  qed
qed

lemma select_eq:
  assumes "32 \<le> length kr" "32 \<le> length kb"
  shows "select_secret kr kb 0 = take 32 kr" "select_secret kr kb (- 1) = take 32 kb"
  using assms by (auto simp: select_secret_def intro!: nth_equalityI)

end
