(* ===== verification/MlkemApi.thy ===== *)
theory MlkemApi
  imports MlkemAgree MlkemKey
begin

text \<open>
  The key object as its callers use it (\<open>wolfcrypt/src/wc_mlkem.c\<close>, ML-KEM-512): a key is made and its public half encoded, the peer
  decodes it and encapsulates, the owner decapsulates.  What the Keccak based functions are relied on for is \<open>hashes_ok\<close>: they
  succeed and fill their buffers, and the output of the extendable function has 256 integers below \<open>q\<close> after some number of blocks.
\<close>

section \<open>The hash functions\<close>

definition xof_ok :: "'x hashes \<Rightarrow> bool" where
  "xof_ok hs \<longleftrightarrow> (\<forall>seed. \<exists>x r x' n. xof_absorb hs seed = (0, x) \<and> xof_squeezeblocks hs x 3 = (0, r, x') \<and> length r = 504 \<and>
     (\<forall>b \<in> set (blocks hs x' n). length b = 168) \<and> 256 \<le> length (accepted (r @ concat (blocks hs x' n))))"

definition hashes_ok :: "'x hashes \<Rightarrow> bool" where
  "hashes_ok hs \<longleftrightarrow> prf_ok hs \<and> xof_ok hs \<and>
     (\<forall>m. fst (hash_g hs m) = 0 \<and> length (snd (hash_g hs m)) = 64) \<and> (\<forall>m. fst (hash_h hs m) = 0 \<and> length (snd (hash_h hs m)) = 32) \<and>
     (\<forall>z c. fst (derive_secret hs z c) = 0 \<and> length (snd (derive_secret hs z c)) = 32) \<and> (\<forall>n. alloc hs n) \<and> length (garbage hs) = 256"

lemma hashes_okD:
  assumes "hashes_ok hs"
  shows "prf_ok hs" "xof_ok hs" "alloc hs n" "length (garbage hs) = 256"
    "hash_g hs m = (0, snd (hash_g hs m))" "length (snd (hash_g hs m)) = 64"
    "hash_h hs m = (0, snd (hash_h hs m))" "length (snd (hash_h hs m)) = 32"
    "derive_secret hs z c = (0, snd (derive_secret hs z c))" "length (snd (derive_secret hs z c)) = 32"
  using assms by (auto simp: hashes_ok_def prod_eq_iff)

lemma accepted_range: "set (accepted r) \<subseteq> {0..3328}"
  by (induction r rule: accepted.induct) (auto simp: pos_imp_zdiv_nonneg_iff intro!: add_nonneg_nonneg)

lemma entry_exists:
  assumes "xof_ok hs"
  shows "\<exists>a. entry_ok hs ext a"
proof -
  obtain x r x' n where x: "xof_absorb hs ext = (0, x)" "xof_squeezeblocks hs x 3 = (0, r, x')" "length r = 504"
      "\<forall>b \<in> set (blocks hs x' n). length b = 168" "256 \<le> length (accepted (r @ concat (blocks hs x' n)))"
    using assms by (force simp: xof_ok_def)
  have "entry_ok hs ext (take 256 (accepted (r @ concat (blocks hs x' n))))"
    unfolding entry_ok_def using gen_poly_eq[OF x(1-3) _ x(4,5)] x(5) accepted_range set_take_subset by fastforce
  then show ?thesis by blast
qed

text \<open>
  C26. Sampling a matrix entry ends as soon as the output of the extendable function holds 256 integers below \<open>q\<close>, whatever number \<open>n\<close> of
  further blocks that takes, and returns the first 256 of them (\<open>SampleNTT\<close>, FIPS 203 Algorithm 7), all in the range from 0 to \<open>q - 1\<close>.
\<close>

theorem matrix_entry_samples:
  fixes hs :: "'x hashes"
  assumes "xof_absorb hs seed = (0, x)" "xof_squeezeblocks hs x 3 = (0, r, x')" "length r = 504" "length p = 256"
    "\<forall>b \<in> set (blocks hs x' n). length b = 168" "256 \<le> length (accepted (r @ concat (blocks hs x' n)))"
  shows "\<exists>a. gen_poly hs seed p = Some (0, a) \<and> a = take 256 (accepted (r @ concat (blocks hs x' n))) \<and> length a = 256 \<and> set a \<subseteq> {0..3328}"
  using gen_poly_eq[OF assms] assms(6) accepted_range set_take_subset by fastforce

lemma matrix_exists:
  assumes "hashes_ok hs"
  obtains A where "matrix_ok hs rho A"
proof -
  obtain f where f: "\<forall>ext. entry_ok hs ext (f ext)" using choice[of "entry_ok hs"] entry_exists[OF hashes_okD(2)[OF assms]] by blast
  define a where "a i j = f (take 32 rho @ [of_nat j, of_nat i])" for i j :: nat
  have "matrix_ok hs rho [[a 0 0, a 0 1], [a 1 0, a 1 1]]"
    using f hashes_okD(3)[OF assms] unfolding a_def by (auto simp: matrix_ok_def less_2_cases_iff)
  then show ?thesis by (rule that)
qed

section \<open>Making a key\<close>

definition key_ok :: "MlKemKey \<Rightarrow> bool" where
  "key_ok key \<longleftrightarrow> key_type key = WC_ML_KEM_512 \<and> length (priv key) = 2 \<and> length (pub key) = 2 \<and> (\<forall>p \<in> set (pub key). length p = 256)"

definition key_rho :: "'x hashes \<Rightarrow> bytes \<Rightarrow> bytes" where
  "key_rho hs rand = take 32 (snd (hash_g hs (take 32 rand @ [2])))"

definition key_sigma :: "'x hashes \<Rightarrow> bytes \<Rightarrow> bytes" where
  "key_sigma hs rand = take 32 (drop 32 (snd (hash_g hs (take 32 rand @ [2])))) @ [0]"

lemma length_seeds: "hashes_ok hs \<Longrightarrow> length (key_rho hs rand) = 32 \<and> length (key_sigma hs rand) = 33"
  by (simp add: key_rho_def key_sigma_def hashes_okD(6))

definition public_residues :: "'x hashes \<Rightarrow> int list list list \<Rightarrow> bytes \<Rightarrow> nat \<Rightarrow> zq list" where
  "public_residues hs A sigma i =
     radd (dot 2 [map Zq (A ! i ! 0), map Zq (A ! i ! 1)] (Zqs (map mlkem_ntt (secret_of hs sigma)))) (rntt (map Zq (noise_poly hs 3 (with_counter sigma (2 + i)))))"

lemma make_key:
  assumes hs: "hashes_ok hs" and A: "matrix_ok hs (key_rho hs rand) A" and key: "key_ok key" and rand: "length rand = 64"
  obtains t0 t1 where "wc_MlKemKey_MakeKeyWithRandom hs key rand =
      Some (0, key\<lparr>priv := map mlkem_ntt (secret_of hs (key_sigma hs rand)), pub := [t0, t1], pubSeed := key_rho hs rand, key_z := drop 32 rand,
        PRIV_SET := True, PUB_SET := True, H_SET := False\<rparr>)"
    "reduced t0" "reduced t1" "map Zq t0 = public_residues hs A (key_sigma hs rand) 0" "map Zq t1 = public_residues hs A (key_sigma hs rand) 1"
proof -
  let ?s = "key_sigma hs rand"
  have k: "key_type key = WC_ML_KEM_512" "length (priv key) = 2" "length (pub key) = 2" "\<forall>p \<in> set (pub key). length p = 256"
    using key by (simp_all add: key_ok_def)
  have g: "length (replicate 2 (garbage hs)) = 2" "\<forall>p \<in> set (replicate 2 (garbage hs)). length p = 256" using hashes_okD(4)[OF hs] by simp_all
  obtain t0 t1 where t: "mlkem_keygen_seeds hs (secret_of hs ?s) (pub key) (replicate 2 (garbage hs)) 2 (key_rho hs rand) (with_counter ?s 4) =
        Some (0, map mlkem_ntt (secret_of hs ?s), [t0, t1])" "reduced t0" "reduced t1"
      "map Zq t0 = public_residues hs A ?s 0" "map Zq t1 = public_residues hs A ?s 1"
    by (rule keygen_eq[OF A hashes_okD(1)[OF hs] secret_small[of hs ?s] k(3,4) g, of "with_counter ?s 4"]) (auto simp: public_residues_def)
  have n: "mlkem_get_noise hs 2 (priv key) None None ?s = (0, secret_of hs ?s, None, None, with_counter ?s 4)"
    unfolding secret_of_def using get_noise_vector[OF hashes_okD(1)[OF hs] k(2)] length_seeds[OF hs] by blast
  obtain b where b: "hash_g hs (take 32 rand @ [2]) = (0, b)" using hashes_okD(5)[OF hs] by blast
  have "wc_MlKemKey_MakeKeyWithRandom hs key rand =
      Some (0, key\<lparr>priv := map mlkem_ntt (secret_of hs ?s), pub := [t0, t1], pubSeed := key_rho hs rand, key_z := drop 32 rand,
        PRIV_SET := True, PUB_SET := True, H_SET := False\<rparr>)"
    using n[unfolded key_sigma_def] t(1)[unfolded key_sigma_def key_rho_def] b rand k(1) hashes_okD(3)[OF hs]
    by (simp add: wc_MlKemKey_MakeKeyWithRandom_def Let_def key_sigma_def key_rho_def)
  then show ?thesis using t(2-) that by blast
qed

section \<open>The public key\<close>

lemma csubq_residues:
  assumes "reduced p"
  shows "map Zq (mlkem_csubq_c p) = map Zq p" "small (mlkem_csubq_c p)" "length (mlkem_csubq_c p) = 256"
proof -
  show l: "length (mlkem_csubq_c p) = 256" using assms by (simp add: mlkem_csubq_c_def reduced_def)
  show "map Zq (mlkem_csubq_c p) = map Zq p"
    using l assms csubq_reduced(3)[OF assms] by (intro nth_equalityI) (auto simp: reduced_def Zq_eq_iff)
  show "small (mlkem_csubq_c p)"
    using l csubq_reduced(1,2)[OF assms] by (force simp: small_def set_conv_nth)
qed

lemma encode_public:
  assumes hs: "hashes_ok hs" and key: "key_type key = WC_ML_KEM_512" "pub key = [t0, t1]" "PUB_SET key" "\<not> H_SET key" "length (pubSeed key) = 32"
    and t: "reduced t0" "reduced t1"
  obtains pk where "wc_MlKemKey_EncodePublicKey hs key 800 =
      (0, key\<lparr>pub := [mlkem_csubq_c t0, mlkem_csubq_c t1], key_h := snd (hash_h hs pk), H_SET := True\<rparr>, pk)"
    "length pk = 800" "mlkemkey_decode_public pk 2 = ([mlkem_csubq_c t0, mlkem_csubq_c t1], pubSeed key)"
proof -
  obtain p where p: "mlkem_to_bytes_c [t0, t1] 2 = (p, [mlkem_csubq_c t0, mlkem_csubq_c t1])" by (simp add: mlkem_to_bytes_c_def Let_def)
  have r: "\<forall>p \<in> set [t0, t1]. reduced p" using t by simp
  note b = bytes_roundtrip[of "[t0, t1]" 2, OF _ r, simplified, unfolded p fst_conv]
  obtain h where h: "hash_h hs (p @ pubSeed key) = (0, h)" using hashes_okD(7)[OF hs] by blast
  have s: "publicKeySize 2 = 800" by (simp add: publicKeySize_def WC_ML_KEM_POLY_SIZE_def)
  have "wc_MlKemKey_EncodePublicKey hs key 800 =
      (0, key\<lparr>pub := [mlkem_csubq_c t0, mlkem_csubq_c t1], key_h := snd (hash_h hs (p @ pubSeed key)), H_SET := True\<rparr>, p @ pubSeed key)"
    using key p h s by (simp add: wc_MlKemKey_EncodePublicKey_def)
  moreover have "length (p @ pubSeed key) = 800" using b(2) key(5) by simp
  moreover have "mlkemkey_decode_public (p @ pubSeed key) 2 = ([mlkem_csubq_c t0, mlkem_csubq_c t1], pubSeed key)"
    using b(1)[of "pubSeed key"] b(2) key(5) by (simp add: mlkemkey_decode_public_def WC_ML_KEM_POLY_SIZE_def)
  ultimately show ?thesis by (rule that)
qed

lemma decode_public:
  assumes hs: "hashes_ok hs" and "key_type key = WC_ML_KEM_512" "length pk = 800" "mlkemkey_decode_public pk 2 = (t, rho)"
  shows "wc_MlKemKey_DecodePublicKey hs key pk = (0, key\<lparr>pub := t, pubSeed := rho, key_h := snd (hash_h hs pk), PUB_SET := True, H_SET := True\<rparr>)"
proof -
  have s: "publicKeySize 2 = 800" by (simp add: publicKeySize_def WC_ML_KEM_POLY_SIZE_def)
  obtain h where "hash_h hs pk = (0, h)" using hashes_okD(7)[OF hs] by blast
  then show ?thesis using assms(2-) s by (simp add: wc_MlKemKey_DecodePublicKey_def)
qed

section \<open>Encapsulation and decapsulation\<close>

lemma encapsulate_key:
  assumes hs: "hashes_ok hs" and A: "matrix_ok hs (pubSeed key) A" and key: "key_type key = WC_ML_KEM_512" "small_vec 2 (pub key)" and r: "length r = 33"
  obtains u0 u1 v where "mlkem_encapsulate_seeds hs (pub key) (replicate 2 (garbage hs)) (replicate 2 (garbage hs)) (secret_of hs r) 2 m (pubSeed key) (with_counter r 4) =
      Some (0, [u0, u1], v)" "reduced u0" "reduced u1" "reduced v"
    "map Zq u0 = u_residues hs A (Zqs (map mlkem_ntt (secret_of hs r))) r 0" "map Zq u1 = u_residues hs A (Zqs (map mlkem_ntt (secret_of hs r))) r 1"
    "map Zq v = v_residues hs (Zqs (pub key)) (Zqs (map mlkem_ntt (secret_of hs r))) m r"
    "mlkemkey_encapsulate hs key m r = Some (0, fst (mlkem_vec_compress_10_c [u0, u1] 2) @ fst (mlkem_compress_4_c v))"
proof -
  let ?f = "replicate 2 (garbage hs)"
  have g: "length ?f = 2" "\<forall>p \<in> set ?f. length p = 256" using hashes_okD(4)[OF hs] by simp_all
  have n: "mlkem_get_noise hs 2 ?f None None r = (0, secret_of hs r, None, None, with_counter r 4)"
    unfolding secret_of_def using get_noise_vector[OF hashes_okD(1)[OF hs] g(1) r] .
  show ?thesis
  proof (rule encapsulate_eq[OF A hashes_okD(1)[OF hs] key(2) secret_small[of hs r] g g, of m "with_counter r 4"])
    fix u0 u1 v
    assume e: "mlkem_encapsulate_seeds hs (pub key) ?f ?f (secret_of hs r) 2 m (pubSeed key) (with_counter r 4) = Some (0, [u0, u1], v)"
      "reduced u0" "reduced u1" "reduced v" "map Zq u0 = u_residues hs A (Zqs (map mlkem_ntt (secret_of hs r))) (with_counter r 4) 0"
      "map Zq u1 = u_residues hs A (Zqs (map mlkem_ntt (secret_of hs r))) (with_counter r 4) 1"
      "map Zq v = v_residues hs (Zqs (pub key)) (Zqs (map mlkem_ntt (secret_of hs r))) m (with_counter r 4)"
    have "mlkemkey_encapsulate hs key m r = Some (0, fst (mlkem_vec_compress_10_c [u0, u1] 2) @ fst (mlkem_compress_4_c v))"
      using n e(1) key(1) hashes_okD(3)[OF hs] by (simp add: mlkemkey_encapsulate_def Let_def)
    then show ?thesis using that[OF e(1-4)] e(5-) by (simp add: v_residues_def)
  qed
qed

lemma decapsulate_message:
  assumes hs: "hashes_ok hs" and key: "key_type key = WC_ML_KEM_512" and r: "reduced u0" "reduced u1" "reduced v"
  shows "mlkemkey_decapsulate hs key (fst (mlkem_vec_compress_10_c [u0, u1] 2) @ fst (mlkem_compress_4_c v)) =
    (0, fst (mlkem_to_msg_c (mlkem_decapsulate_c (priv key) (map (compressed 10) [u0, u1]) (compressed 4 v) 2)))"
proof -
  let ?c = "fst (mlkem_vec_compress_10_c [u0, u1] 2)"
  have r2: "\<forall>p \<in> set [u0, u1]. reduced p" using r by simp
  note c = vec_compress_10[of "[u0, u1]" 2, OF _ r2, simplified]
  have "drop (compVecSz 2) (?c @ fst (mlkem_compress_4_c v)) = fst (mlkem_compress_4_c v) @ []" using c(2) by (simp add: compVecSz_def)
  then show ?thesis
    using c(1)[of "fst (mlkem_compress_4_c v)"] compress_4(1)[OF r(3), of "[]"] key hashes_okD(3)[OF hs] by (simp add: mlkemkey_decapsulate_def Let_def)
qed

section \<open>Implicit rejection\<close>

lemma length_packed:
  "length (fst (mlkem_vec_compress_10_c v k)) = 320 * k" "length (fst (mlkem_vec_compress_11_c v)) = 1408"
  "length (fst (mlkem_compress_4_c p)) = 128" "length (fst (mlkem_compress_5_c p)) = 160"
  by (simp_all add: mlkem_vec_compress_10_c_def mlkem_vec_compress_11_c_def mlkem_compress_4_c_def mlkem_compress_5_c_def Let_def length_concat comp_def
      pack_10_def pack_11_def pack_4_def pack_5_def steps_def sum_list_triv)

lemma length_encapsulation:
  assumes "mlkemkey_encapsulate hs key m r = Some (0, c)" "mlkem_k (key_type key) = Some k"
  shows "length c = cipherTextSize k"
proof -
  have "k \<in> {2, 3, 4}" using assms(2) by (cases "key_type key") auto
  then show ?thesis using assms
    by (auto simp: mlkemkey_encapsulate_def cipherTextSize_def compVecSz_def length_packed Let_def split: if_splits prod.splits option.splits)
qed

lemma decapsulate_cases:
  fixes hs :: "'x hashes"
  assumes hs: "hashes_ok hs" and key: "mlkem_k (key_type key) = Some k" and ct: "length ct = cipherTextSize k"
    and dec: "mlkemkey_decapsulate hs key ct = (0, msg)" and g: "hash_g hs (msg @ key_h key) = (0, kr)"
    and enc: "mlkemkey_encapsulate hs key msg (drop 32 kr @ [0]) = Some (0, c)"
  shows "wc_MlKemKey_Decapsulate hs key ct = Some (0, if ct = c then take 32 kr else snd (derive_secret hs (key_z key) ct))"
proof -
  obtain kb where kb: "derive_secret hs (key_z key) ct = (0, kb)" "length kb = 32" using hashes_okD(9,10)[OF hs] by (metis snd_conv)
  have "length kr = 64" using hashes_okD(6)[OF hs, of "msg @ key_h key"] g by simp
  then have sel: "select_secret kr kb (mlkem_cmp_c ct c (cipherTextSize k)) = (if ct = c then take 32 kr else kb)"
    using cmp_eq[OF ct length_encapsulation[OF enc key]] select_eq[of kr kb] kb(2) by simp
  show ?thesis using key ct hashes_okD(3)[OF hs] dec g enc kb(1) sel by (simp add: wc_MlKemKey_Decapsulate_def Let_def)
qed

text \<open>
  C11. Decapsulation of a ciphertext of the right size reports no failure: when the message it decrypts to encrypts to this ciphertext
  again the result is the secret derived from the message, otherwise it is the secret derived from the private value \<open>z\<close> and the
  ciphertext (implicit rejection, FIPS 203 Algorithm 18), for the three parameter sets.
\<close>

theorem decapsulate_selects:
  fixes hs :: "'x hashes"
  assumes hs: "hashes_ok hs" and key: "mlkem_k (key_type key) = Some k" and ct: "length ct = cipherTextSize k"
    and dec: "mlkemkey_decapsulate hs key ct = (0, msg)" and g: "hash_g hs (msg @ key_h key) = (0, kr)"
    and enc: "mlkemkey_encapsulate hs key msg (drop 32 kr @ [0]) = Some (0, c)"
  shows "wc_MlKemKey_Decapsulate hs key ct = Some (0, if ct = c then take 32 kr else snd (derive_secret hs (key_z key) ct))"
  by (rule decapsulate_cases[OF assms])

section \<open>Agreement\<close>

definition exchange_noise :: "'x hashes \<Rightarrow> bytes \<Rightarrow> MlKemKey \<Rightarrow> bytes \<Rightarrow> zq list" where
  "exchange_noise hs rand peer m =
     (let coins = drop 32 (snd (hash_g hs (m @ key_h peer))) @ [0]; fresh = replicate 2 (garbage hs)
      in case mlkem_encapsulate_seeds hs (pub peer) fresh fresh (secret_of hs coins) 2 m (pubSeed peer) (with_counter coins 4) of
           None \<Rightarrow> []
         | Some (ret, u, v) \<Rightarrow> ciphertext_noise hs (key_sigma hs rand) coins u v)"

lemma encapsulate_api:
  assumes hs: "hashes_ok hs" and A: "matrix_ok hs (pubSeed key) A" and key: "key_type key = WC_ML_KEM_512" "small_vec 2 (pub key)" "H_SET key" and m: "length m = 32"
  defines "kr \<equiv> snd (hash_g hs (m @ key_h key))"
  obtains c where "mlkemkey_encapsulate hs key m (drop 32 kr @ [0]) = Some (0, c)" "wc_MlKemKey_EncapsulateWithRandom hs key m = Some (0, key, c, take 32 kr)"
proof -
  have g: "hash_g hs (m @ key_h key) = (0, kr)" unfolding kr_def by (rule hashes_okD(5)[OF hs])
  have r: "length (drop 32 kr @ [0]) = 33" unfolding kr_def by (simp add: hashes_okD(6)[OF hs])
  obtain c where c: "mlkemkey_encapsulate hs key m (drop 32 kr @ [0]) = Some (0, c)" using encapsulate_key[OF hs A key(1,2) r] by metis
  then show ?thesis using that key(3) m g by (simp add: wc_MlKemKey_EncapsulateWithRandom_def Let_def)
qed

lemma decapsulate_returns:
  assumes hs: "hashes_ok hs" and A: "matrix_ok hs (key_rho hs rand) A"
    and key: "key_type key = WC_ML_KEM_512" "priv key = map mlkem_ntt (secret_of hs (key_sigma hs rand))" "pub key = [t0, t1]" "pubSeed key = key_rho hs rand"
    and t: "small t0" "small t1" "map Zq t0 = public_residues hs A (key_sigma hs rand) 0" "map Zq t1 = public_residues hs A (key_sigma hs rand) 1"
    and m: "length m = 32" and noise: "small_noise (exchange_noise hs rand key m)"
    and c: "mlkemkey_encapsulate hs key m (drop 32 (snd (hash_g hs (m @ key_h key))) @ [0]) = Some (0, c)"
  shows "mlkemkey_decapsulate hs key c = (0, m)"
proof -
  define r where "r = drop 32 (snd (hash_g hs (m @ key_h key))) @ [0]"
  have lr: "length r = 33" unfolding r_def by (simp add: hashes_okD(6)[OF hs])
  have p: "small_vec 2 (pub key)" using t(1,2) key(3) by (simp add: small_vec_2)
  obtain u0 u1 v where e: "mlkem_encapsulate_seeds hs (pub key) (replicate 2 (garbage hs)) (replicate 2 (garbage hs)) (secret_of hs r) 2 m (pubSeed key) (with_counter r 4) =
        Some (0, [u0, u1], v)" "reduced u0" "reduced u1" "reduced v"
      "map Zq u0 = u_residues hs A (Zqs (map mlkem_ntt (secret_of hs r))) r 0" "map Zq u1 = u_residues hs A (Zqs (map mlkem_ntt (secret_of hs r))) r 1"
      "map Zq v = v_residues hs (Zqs (pub key)) (Zqs (map mlkem_ntt (secret_of hs r))) m r"
      "mlkemkey_encapsulate hs key m r = Some (0, fst (mlkem_vec_compress_10_c [u0, u1] 2) @ fst (mlkem_compress_4_c v))"
    by (rule encapsulate_key[OF hs A[folded key(4)] key(1) p lr])
  have n: "small_noise (ciphertext_noise hs (key_sigma hs rand) r [u0, u1] v)"
    using noise e(1) by (simp add: exchange_noise_def Let_def flip: r_def)
  have two: "2 + 0 = (2 :: nat)" "2 + 1 = (3 :: nat)" by simp_all
  have v: "map Zq v = v_residues hs [map Zq t0, map Zq t1] (Zqs (map mlkem_ntt (secret_of hs r))) m r" using e(7) key(3) by simp
  have "fst (mlkem_to_msg_c (mlkem_decapsulate_c (priv key) (map (compressed 10) [u0, u1]) (compressed 4 v) 2)) = m"
    unfolding key(2) by (rule message_returns[OF A t(3)[unfolded public_residues_def two] t(4)[unfolded public_residues_def two] e(2-6) v m n])
  then show ?thesis using decapsulate_message[OF hs key(1) e(2-4)] e(8) c by (simp flip: r_def)
qed

lemma publish_key:
  assumes hs: "hashes_ok hs" and A: "matrix_ok hs (key_rho hs rand) A" and key: "key_ok key" and rand: "length rand = 64"
  obtains key1 key2 pk t0 t1 where "wc_MlKemKey_MakeKeyWithRandom hs key rand = Some (0, key1)" "wc_MlKemKey_EncodePublicKey hs key1 800 = (0, key2, pk)"
    "length pk = 800" "mlkemkey_decode_public pk 2 = ([t0, t1], key_rho hs rand)" "key_h key2 = snd (hash_h hs pk)"
    "key_type key2 = WC_ML_KEM_512" "priv key2 = map mlkem_ntt (secret_of hs (key_sigma hs rand))" "pub key2 = [t0, t1]" "pubSeed key2 = key_rho hs rand"
    "small t0" "small t1" "map Zq t0 = public_residues hs A (key_sigma hs rand) 0" "map Zq t1 = public_residues hs A (key_sigma hs rand) 1"
proof -
  define key1 where "key1 t = key\<lparr>priv := map mlkem_ntt (secret_of hs (key_sigma hs rand)), pub := t, pubSeed := key_rho hs rand, key_z := drop 32 rand,
      PRIV_SET := True, PUB_SET := True, H_SET := False\<rparr>" for t
  obtain t0 t1 where t: "wc_MlKemKey_MakeKeyWithRandom hs key rand = Some (0, key1 [t0, t1])" "reduced t0" "reduced t1"
      "map Zq t0 = public_residues hs A (key_sigma hs rand) 0" "map Zq t1 = public_residues hs A (key_sigma hs rand) 1"
    unfolding key1_def by (rule make_key[OF hs A key rand])
  have k1: "key_type (key1 [t0, t1]) = WC_ML_KEM_512" "pub (key1 [t0, t1]) = [t0, t1]" "PUB_SET (key1 [t0, t1])" "\<not> H_SET (key1 [t0, t1])"
      "length (pubSeed (key1 [t0, t1])) = 32" using key length_seeds[OF hs] by (simp_all add: key1_def key_ok_def)
  let ?t = "[mlkem_csubq_c t0, mlkem_csubq_c t1]"
  obtain pk where pk: "wc_MlKemKey_EncodePublicKey hs (key1 [t0, t1]) 800 = (0, (key1 [t0, t1])\<lparr>pub := ?t, key_h := snd (hash_h hs pk), H_SET := True\<rparr>, pk)"
      "length pk = 800" "mlkemkey_decode_public pk 2 = (?t, pubSeed (key1 [t0, t1]))" by (rule encode_public[OF hs k1 t(2,3)])
  show ?thesis
    using key pk(3) csubq_residues[OF t(2)] csubq_residues[OF t(3)] t(4,5)
    by (intro that[OF t(1) pk(1,2)]) (simp_all add: key1_def key_ok_def)
qed

text \<open>
  C5. The two sides of an ML-KEM-512 exchange agree: a key made from random bytes is encoded, the peer decodes the public key and
  encapsulates a message, and the owner decapsulates.  Every call succeeds, and the owner obtains the secret of the peer whenever no
  coefficient of the noise of the exchange (products of the sampled errors and secrets and what the compression loses) is larger than 831.
\<close>

theorem kem_agreement:
  fixes hs :: "'x hashes"
  assumes hs: "hashes_ok hs" and key: "key_ok key" and peer: "key_type peer = WC_ML_KEM_512" and rand: "length rand = 64" and m: "length m = 32"
  shows "\<exists>key1 key2 pk peer1 ct secret.
    wc_MlKemKey_MakeKeyWithRandom hs key rand = Some (0, key1) \<and> wc_MlKemKey_EncodePublicKey hs key1 800 = (0, key2, pk) \<and>
    wc_MlKemKey_DecodePublicKey hs peer pk = (0, peer1) \<and> wc_MlKemKey_EncapsulateWithRandom hs peer1 m = Some (0, peer1, ct, secret) \<and>
    length ct = 768 \<and> length secret = 32 \<and>
    (small_noise (exchange_noise hs rand peer1 m) \<longrightarrow> wc_MlKemKey_Decapsulate hs key2 ct = Some (0, secret))"
proof -
  obtain A where A: "matrix_ok hs (key_rho hs rand) A" by (rule matrix_exists[OF hs])
  obtain key1 key2 pk t0 t1 where k: "wc_MlKemKey_MakeKeyWithRandom hs key rand = Some (0, key1)" "wc_MlKemKey_EncodePublicKey hs key1 800 = (0, key2, pk)"
      "length pk = 800" "mlkemkey_decode_public pk 2 = ([t0, t1], key_rho hs rand)" "key_h key2 = snd (hash_h hs pk)"
      "key_type key2 = WC_ML_KEM_512" "priv key2 = map mlkem_ntt (secret_of hs (key_sigma hs rand))" "pub key2 = [t0, t1]" "pubSeed key2 = key_rho hs rand"
      "small t0" "small t1" "map Zq t0 = public_residues hs A (key_sigma hs rand) 0" "map Zq t1 = public_residues hs A (key_sigma hs rand) 1"
    by (rule publish_key[OF hs A key rand])
  define peer1 where "peer1 = peer\<lparr>pub := [t0, t1], pubSeed := key_rho hs rand, key_h := snd (hash_h hs pk), PUB_SET := True, H_SET := True\<rparr>"
  have d: "wc_MlKemKey_DecodePublicKey hs peer pk = (0, peer1)" unfolding peer1_def by (rule decode_public[OF hs peer k(3,4)])
  have same: "pub peer1 = pub key2" "pubSeed peer1 = pubSeed key2" "key_h peer1 = key_h key2" "key_type peer1 = key_type key2" "H_SET peer1"
    using peer k by (simp_all add: peer1_def)
  have small: "small_vec 2 (pub key2)" unfolding k(8) using k(10,11) by (rule small_vec_2)
  define kr where "kr = snd (hash_g hs (m @ key_h key2))"
  obtain c where c: "mlkemkey_encapsulate hs peer1 m (drop 32 kr @ [0]) = Some (0, c)" "wc_MlKemKey_EncapsulateWithRandom hs peer1 m = Some (0, peer1, c, take 32 kr)"
    using encapsulate_api[of hs peer1, OF hs _ _ _ same(5) m, unfolded same, OF A[folded k(9)] k(6) small] unfolding kr_def by blast
  have c2: "mlkemkey_encapsulate hs key2 m (drop 32 kr @ [0]) = Some (0, c)"
    using c(1) unfolding mlkemkey_encapsulate_def same .
  have len: "length c = cipherTextSize 2" "length kr = 64" "cipherTextSize 2 = 768"
    using length_encapsulation[OF c2] k(6) hashes_okD(6)[OF hs] by (simp_all add: kr_def cipherTextSize_def compVecSz_def)
  have "wc_MlKemKey_Decapsulate hs key2 c = Some (0, take 32 kr)" if n: "small_noise (exchange_noise hs rand peer1 m)"
  proof -
    have "small_noise (exchange_noise hs rand key2 m)" using n unfolding exchange_noise_def same .
    then have "mlkemkey_decapsulate hs key2 c = (0, m)" by (rule decapsulate_returns[OF hs A k(6-13) m _ c2[unfolded kr_def]])
    then show ?thesis using decapsulate_cases[OF hs _ len(1) _ _ c2] k(6) hashes_okD(5)[OF hs] by (simp add: kr_def)
  qed
  then show ?thesis using k(1,2) d c(2) len by (intro exI[of _ key1] exI[of _ key2] exI) auto
qed

section \<open>A concrete exchange\<close>

text \<open>Hash functions whose output is zero, as an instance where every value can be computed.\<close>

definition zero_hashes :: "unit hashes" where
  "zero_hashes = \<lparr>xof_absorb = \<lambda>_. (0, ()), xof_squeezeblocks = \<lambda>_ n. (0, replicate (168 * n) 0, ()), prf_bytes = \<lambda>_ n. (0, replicate n 0),
     hash_g = \<lambda>_. (0, replicate 64 0), hash_h = \<lambda>_. (0, replicate 32 0), derive_secret = \<lambda>_ _. (0, replicate 32 1), alloc = \<lambda>_. True,
     garbage = replicate 256 0\<rparr>"

definition zero_key :: MlKemKey where
  "zero_key = \<lparr>key_type = WC_ML_KEM_512, priv = replicate 2 (replicate 256 0), pub = replicate 2 (replicate 256 0), pubSeed = replicate 32 0,
     key_h = replicate 32 0, key_z = replicate 32 0, PRIV_SET = False, PUB_SET = False, H_SET = False\<rparr>"

lemma accepted_zeros: "accepted (replicate (3 * m) 0) = replicate (2 * m) 0"
proof (induction m)
  case (Suc m)
  have "replicate (3 * Suc m) (0 :: u8) = 0 # 0 # 0 # replicate (3 * m) 0" by (simp add: numeral_3_eq_3)
  then show ?case using Suc.IH by simp
qed simp

lemma zero_hashes_ok: "hashes_ok zero_hashes"
proof -
  have "xof_ok zero_hashes"
    unfolding xof_ok_def using accepted_zeros[of 168] by (auto simp: zero_hashes_def intro!: exI[of _ 0])
  then show ?thesis by (simp add: hashes_ok_def prf_ok_def zero_hashes_def)
qed

lemma zero_key_ok: "key_ok zero_key"
  by (simp add: key_ok_def zero_key_def)

lemma zero_noise: "noise_poly zero_hashes eta seed = replicate 256 0"
proof -
  have "cbd eta (bits_of (replicate (64 * eta) 0)) i = 0" if "i < 256" for i
  proof -
    have "\<not> bits_of (replicate (64 * eta) 0) n" if "n < 512 * eta" for n
    proof -
      have "n div 8 < 64 * eta" using that by (simp add: less_mult_imp_div_less)
      then show ?thesis by (simp add: bits_of_def)
    qed
    moreover have "2 * i * eta + eta + j < 512 * eta" "2 * i * eta + j < 512 * eta" if "j < eta" for j
    proof -
      have "2 * Suc i * eta \<le> 512 * eta" using \<open>i < 256\<close> by (intro mult_le_mono1) simp
      moreover have "2 * Suc i * eta = 2 * i * eta + eta + eta" by simp
      ultimately show "2 * i * eta + eta + j < 512 * eta" "2 * i * eta + j < 512 * eta" using that by linarith+
    qed
    ultimately show ?thesis by (simp add: cbd_def)
  qed
  then show ?thesis by (auto simp: noise_poly_def SamplePolyCBD_def zero_hashes_def intro!: nth_equalityI)
qed

text \<open>Without noise only the loss of the compression of \<open>v\<close> is left.\<close>

lemma zero_exchange:
  assumes "reduced v"
  shows "small_noise (ciphertext_noise zero_hashes sigma coins u v)"
proof -
  have z: "pmul (replicate 256 0) y ! p = 0" if "p < 256" for y p using that by (simp add: pmul_def)
  have "\<exists>e. \<bar>e\<bar> \<le> 831 \<and> loss_of 4 v ! p = Zq e" if p: "p < 256" for p
  proof -
    obtain e where e: "\<bar>e\<bar> \<le> 104" "Decompress 4 (Compress 4 (mlkem_csubq_c v ! p)) mod 3329 = (mlkem_csubq_c v ! p + e) mod 3329"
      using Decompress_Compress[of 4 "mlkem_csubq_c v ! p"] by (auto simp: loss_values)
    have "Zq (mlkem_csubq_c v ! p) = Zq (v ! p)" using csubq_reduced(3)[OF assms p] by (simp only: Zq_eq_iff)
    moreover have "Zq (Decompress 4 (Compress 4 (mlkem_csubq_c v ! p))) = Zq (mlkem_csubq_c v ! p + e)" using e(2) by (simp only: Zq_eq_iff)
    ultimately have "loss_of 4 v ! p = Zq e" using p assms by (simp add: loss_of_def reduced_def)
    then show ?thesis using e(1) by (intro exI[of _ e]) simp
  qed
  then show ?thesis unfolding small_noise_def ciphertext_noise_def zero_noise decrypt_noise_def by (simp add: z)
qed

lemma zero_exchange_noise:
  assumes "key_type peer = WC_ML_KEM_512" "small_vec 2 (pub peer)"
  shows "small_noise (exchange_noise zero_hashes rand peer m)"
proof -
  obtain A where A: "matrix_ok zero_hashes (pubSeed peer) A" by (rule matrix_exists[OF zero_hashes_ok])
  define r where "r = drop 32 (snd (hash_g zero_hashes (m @ key_h peer))) @ [0]"
  have lr: "length r = 33" unfolding r_def by (simp add: hashes_okD(6)[OF zero_hashes_ok])
  obtain u0 u1 v where "mlkem_encapsulate_seeds zero_hashes (pub peer) (replicate 2 (garbage zero_hashes)) (replicate 2 (garbage zero_hashes)) (secret_of zero_hashes r) 2 m (pubSeed peer)
      (with_counter r 4) = Some (0, [u0, u1], v)" "reduced v" using encapsulate_key[OF zero_hashes_ok A assms lr] by metis
  then show ?thesis using zero_exchange[of v] by (simp add: exchange_noise_def Let_def flip: r_def)
qed

lemma zero_reencryption: "\<exists>c. mlkemkey_encapsulate zero_hashes zero_key m (replicate 33 0) = Some (0, c)"
proof -
  obtain A where A: "matrix_ok zero_hashes (pubSeed zero_key) A" by (rule matrix_exists[OF zero_hashes_ok])
  have p: "pub zero_key = [replicate 256 0, replicate 256 0]" "small (replicate 256 0)" by (simp_all add: zero_key_def small_def numeral_2_eq_2)
  have k: "key_type zero_key = WC_ML_KEM_512" "small_vec 2 (pub zero_key)" unfolding p(1) using small_vec_2[OF p(2) p(2)] by (simp_all add: zero_key_def)
  have "length (replicate 33 (0 :: u8)) = 33" by simp
  then show ?thesis using encapsulate_key[OF zero_hashes_ok A k] by metis
qed

text \<open>The witnesses of the properties.\<close>

theorem decapsulate_selects_witness:
  "\<exists>msg c. mlkemkey_decapsulate zero_hashes zero_key (replicate 768 7) = (0, msg) \<and> mlkemkey_encapsulate zero_hashes zero_key msg (replicate 33 0) = Some (0, c) \<and>
    wc_MlKemKey_Decapsulate zero_hashes zero_key (replicate 768 7) = Some (0, if replicate 768 7 = c then replicate 32 0 else replicate 32 1)"
proof -
  obtain msg where msg: "mlkemkey_decapsulate zero_hashes zero_key (replicate 768 7) = (0, msg)"
    by (simp add: mlkemkey_decapsulate_def zero_key_def zero_hashes_def Let_def)
  obtain c where c: "mlkemkey_encapsulate zero_hashes zero_key msg (replicate 33 0) = Some (0, c)" using zero_reencryption by blast
  have e: "drop 32 (replicate 64 0) @ [0 :: u8] = replicate 33 0" by (simp add: replicate_append_same numeral_eq_Suc)
  have "wc_MlKemKey_Decapsulate zero_hashes zero_key (replicate 768 7) =
      Some (0, if replicate 768 7 = c then take 32 (replicate 64 0) else snd (derive_secret zero_hashes (key_z zero_key) (replicate 768 7)))"
    by (rule decapsulate_selects[where k = 2, OF zero_hashes_ok _ _ msg _ c[folded e]]) (simp_all add: zero_key_def zero_hashes_def cipherTextSize_def compVecSz_def)
  then show ?thesis using msg c by (simp add: zero_hashes_def)
qed

theorem kem_agreement_witness:
  "\<exists>key1 key2 pk peer1 ct secret.
    wc_MlKemKey_MakeKeyWithRandom zero_hashes zero_key (replicate 64 9) = Some (0, key1) \<and> wc_MlKemKey_EncodePublicKey zero_hashes key1 800 = (0, key2, pk) \<and>
    wc_MlKemKey_DecodePublicKey zero_hashes zero_key pk = (0, peer1) \<and>
    wc_MlKemKey_EncapsulateWithRandom zero_hashes peer1 (replicate 32 5) = Some (0, peer1, ct, secret) \<and>
    wc_MlKemKey_Decapsulate zero_hashes key2 ct = Some (0, secret)"
proof -
  let ?hs = zero_hashes and ?rand = "replicate 64 9 :: bytes" and ?m = "replicate 32 5 :: bytes"
  have peer: "key_type zero_key = WC_ML_KEM_512" by (simp add: zero_key_def)
  obtain key1 key2 pk peer1 ct secret where x: "wc_MlKemKey_MakeKeyWithRandom ?hs zero_key ?rand = Some (0, key1)" "wc_MlKemKey_EncodePublicKey ?hs key1 800 = (0, key2, pk)"
      "wc_MlKemKey_DecodePublicKey ?hs zero_key pk = (0, peer1)" "wc_MlKemKey_EncapsulateWithRandom ?hs peer1 ?m = Some (0, peer1, ct, secret)"
      "small_noise (exchange_noise ?hs ?rand peer1 ?m) \<longrightarrow> wc_MlKemKey_Decapsulate ?hs key2 ct = Some (0, secret)"
    using kem_agreement[of ?hs zero_key zero_key ?rand ?m, OF zero_hashes_ok zero_key_ok peer] by auto
  obtain A where A: "matrix_ok ?hs (key_rho ?hs ?rand) A" by (rule matrix_exists[OF zero_hashes_ok])
  have "length ?rand = 64" by simp
  then obtain t0 t1 where t: "length pk = 800" "mlkemkey_decode_public pk 2 = ([t0, t1], key_rho ?hs ?rand)" "small t0" "small t1"
    using publish_key[OF zero_hashes_ok A zero_key_ok] x(1,2) by (metis Pair_inject option.inject)
  have "pub peer1 = [t0, t1]" "key_type peer1 = WC_ML_KEM_512" using x(3) decode_public[OF zero_hashes_ok peer t(1,2)] peer by auto
  then have "small_noise (exchange_noise ?hs ?rand peer1 ?m)" using zero_exchange_noise small_vec_2[OF t(3,4)] by simp
  then show ?thesis using x by (intro exI conjI) auto
qed

theorem matrix_entry_samples_witness:
  "\<exists>a. gen_poly zero_hashes (replicate 34 3) (replicate 256 5) = Some (0, a) \<and>
    a = take 256 (accepted (replicate 504 0 @ concat (blocks zero_hashes () 2))) \<and> length a = 256 \<and> set a \<subseteq> {0..3328}"
proof (rule matrix_entry_samples[where x = "()" and x' = "()"])
  show "256 \<le> length (accepted (replicate 504 0 @ concat (blocks zero_hashes () 2)))"
    using accepted_append[of "replicate 504 0" 168] accepted_zeros[of 168] by simp
qed (auto simp: zero_hashes_def numeral_2_eq_2)

end
